(* ===== verification/Prelude.thy ===== *)
theory Prelude
  imports Complex_Main "HOL-Library.Sublist" "HOL-Library.Word"
begin

text \<open>
  Shared vocabulary of the development: results with errors as values, Python strings as
  lists of code points with the string operations the sources use, tables as lists of rows
  with the SELECT and UPDATE shapes the sources use, and the two locales on which the
  state-machine theorems of the components rest.
\<close>

section \<open>Results\<close>

named_theorems result_simps \<open>unfolding of results and their binds\<close>
named_theorems table_simps \<open>facts about tables, rows and updates\<close>

type_synonym ('e, 'a) result = "'e + 'a"

definition bindE :: "('e, 'a) result \<Rightarrow> ('a \<Rightarrow> ('e, 'b) result) \<Rightarrow> ('e, 'b) result" where
  "bindE m f = (case m of Inl e \<Rightarrow> Inl e | Inr x \<Rightarrow> f x)"

lemma bindE_Inl [simp]: "bindE (Inl e) f = Inl e"
  by (simp add: bindE_def)

lemma bindE_Inr [simp]: "bindE (Inr x) f = f x"
  by (simp add: bindE_def)

lemma bindE_eq_Inr [result_simps]: "(bindE m f = Inr y) = (\<exists>x. m = Inr x \<and> f x = Inr y)"
  by (cases m) auto

lemma bindE_eq_Inl [result_simps]:
  "(bindE m f = Inl e) = (m = Inl e \<or> (\<exists>x. m = Inr x \<and> f x = Inl e))"
  by (cases m) auto

lemma bindE_assoc: "bindE (bindE m f) g = bindE m (\<lambda>x. bindE (f x) g)"
  by (cases m) auto

definition is_ok :: "('e, 'a) result \<Rightarrow> bool" where
  "is_ok r = (case r of Inl _ \<Rightarrow> False | Inr _ \<Rightarrow> True)"

lemma is_ok_simps [simp]: "is_ok (Inr x)" "\<not> is_ok (Inl e)"
  by (simp_all add: is_ok_def)

lemma is_ok_conv: "is_ok r = (\<exists>x. r = Inr x)"
  by (cases r) auto

text \<open>A comprehension whose element expression may raise: left to right, first error wins.\<close>

fun mapE :: "('a \<Rightarrow> ('e, 'b) result) \<Rightarrow> 'a list \<Rightarrow> ('e, 'b list) result" where
  "mapE f [] = Inr []"
| "mapE f (x # xs) = bindE (f x) (\<lambda>y. bindE (mapE f xs) (\<lambda>ys. Inr (y # ys)))"

lemma mapE_ok:
  assumes "\<And>x. x \<in> set xs \<Longrightarrow> \<exists>y. f x = Inr y"
  shows "\<exists>ys. mapE f xs = Inr ys"
  using assms
proof (induction xs)
  case Nil
  show ?case by simp
next
  case (Cons x xs)
  then have "\<exists>y. f x = Inr y" and "\<exists>ys. mapE f xs = Inr ys" by simp_all
  then show ?case by auto
qed

lemma mapE_Inr_iff: "mapE f xs = Inr ys \<longleftrightarrow> list_all2 (\<lambda>x y. f x = Inr y) xs ys"
  by (induction xs arbitrary: ys) (auto simp: result_simps list_all2_Cons1)

section \<open>Python strings\<close>

text \<open>A Python \<open>str\<close> is a sequence of code points, so that \<open>length\<close> is Python's \<open>len\<close>.
  \<open>py ''abc''\<close> is the constant \<open>"abc"\<close>.\<close>

type_synonym pystr = "nat list"

text \<open>A \<open>uuid.UUID\<close> is a 128-bit number; PostgreSQL orders them as unsigned numbers.\<close>

type_synonym uuid = "128 word"

definition py :: "string \<Rightarrow> pystr" where
  "py s = map of_char s"

lemma length_py [simp]: "length (py s) = length s"
  by (simp add: py_def)

lemma py_append: "py (s @ t) = py s @ py t"
  by (simp add: py_def)

text \<open>The code points \<open>str.isspace\<close> accepts; \<open>str.strip\<close> and \<open>\s\<close> use the same set.\<close>

definition is_space :: "nat \<Rightarrow> bool" where
  "is_space c \<longleftrightarrow>
     (9 \<le> c \<and> c \<le> 13) \<or> (28 \<le> c \<and> c \<le> 32) \<or> c = 133 \<or> c = 160 \<or> c = 5760 \<or>
     (8192 \<le> c \<and> c \<le> 8202) \<or> c = 8232 \<or> c = 8233 \<or> c = 8239 \<or> c = 8287 \<or> c = 12288"

definition strip :: "pystr \<Rightarrow> pystr" where
  "strip s = rev (dropWhile is_space (rev (dropWhile is_space s)))"

definition slice :: "'a list \<Rightarrow> nat \<Rightarrow> nat \<Rightarrow> 'a list" where
  "slice s i j = take (j - i) (drop i s)"

text \<open>\<open>s.rfind(c, lo, hi)\<close> for a one-character needle; \<open>None\<close> stands for -1.\<close>

definition rfind_char :: "nat \<Rightarrow> pystr \<Rightarrow> nat \<Rightarrow> nat \<Rightarrow> nat option" where
  "rfind_char c s lo hi =
     (let found = filter (\<lambda>i. s ! i = c) [lo..<min hi (length s)]
      in if found = [] then None else Some (last found))"

lemma rfind_char_Some:
  assumes "rfind_char c s lo hi = Some i"
  shows "lo \<le> i" "i < hi" "i < length s" "s ! i = c"
proof -
  let ?f = "filter (\<lambda>i. s ! i = c) [lo..<min hi (length s)]"
  have "?f \<noteq> []" and "i = last ?f"
    using assms by (auto simp: rfind_char_def Let_def split: if_splits)
  then have "i \<in> set ?f" by (metis last_in_set)
  then show "lo \<le> i" "i < hi" "i < length s" "s ! i = c" by auto
qed

lemma rev_dropWhile_decompose:
  "s = rev (dropWhile P (rev s)) @ rev (takeWhile P (rev s))"
  by (metis rev_append rev_rev_ident takeWhile_dropWhile_id)

lemma dropWhile_strip:
  "dropWhile is_space s = strip s @ rev (takeWhile is_space (rev (dropWhile is_space s)))"
  unfolding strip_def by (rule rev_dropWhile_decompose)

lemma strip_decompose:
  obtains l r where "s = l @ strip s @ r" "list_all is_space l" "list_all is_space r"
proof -
  let ?r = "rev (takeWhile is_space (rev (dropWhile is_space s)))"
  have "s = takeWhile is_space s @ strip s @ ?r"
    using dropWhile_strip [of s] by (metis takeWhile_dropWhile_id)
  moreover have "list_all is_space (takeWhile is_space s)" "list_all is_space ?r"
    by (auto simp: list_all_iff dest: set_takeWhileD)
  ultimately show ?thesis by (rule that)
qed

lemma strip_length: "length (strip s) \<le> length s"
proof -
  obtain l r where "s = l @ strip s @ r" by (rule strip_decompose)
  then have "length s = length (l @ strip s @ r)" by (rule arg_cong)
  then show ?thesis by simp
qed

lemma strip_sublist: "sublist (strip s) s"
proof -
  obtain l r where "s = l @ strip s @ r" by (rule strip_decompose)
  then show ?thesis unfolding sublist_def by blast
qed

lemma strip_Nil_iff: "strip s = [] \<longleftrightarrow> list_all is_space s"
proof
  assume h: "strip s = []"
  obtain l r where "s = l @ strip s @ r" "list_all is_space l" "list_all is_space r"
    by (rule strip_decompose)
  then have "s = l @ r" using h by simp
  with \<open>list_all is_space l\<close> \<open>list_all is_space r\<close> show "list_all is_space s" by simp
next
  assume "list_all is_space s"
  then have "dropWhile is_space s = []" by (simp add: list_all_iff dropWhile_eq_Nil_conv)
  then show "strip s = []" by (metis strip_def dropWhile.simps(1) rev.simps(1))
qed

lemma strip_hd: "strip s \<noteq> [] \<Longrightarrow> \<not> is_space (hd (strip s))"
  using dropWhile_strip [of s] hd_dropWhile [of is_space s]
  by (metis append_is_Nil_conv hd_append2)

lemma strip_last: "strip s \<noteq> [] \<Longrightarrow> \<not> is_space (last (strip s))"
  using hd_dropWhile [of is_space "rev (dropWhile is_space s)"]
  by (simp add: strip_def last_rev)

lemma strip_id:
  assumes "s = [] \<or> (\<not> is_space (hd s) \<and> \<not> is_space (last s))"
  shows "strip s = s"
proof (cases s rule: rev_cases)
  case Nil
  then show ?thesis by (simp add: strip_def)
next
  case (snoc ys y)
  with assms have l: "\<not> is_space y" and h: "\<not> is_space (hd s)" by auto
  have "dropWhile is_space s = s" using h snoc by (metis dropWhile_eq_self_iff)
  moreover have "rev s = y # rev ys" using snoc by simp
  ultimately show ?thesis using l snoc by (simp add: strip_def)
qed

lemma strip_strip [simp]: "strip (strip s) = strip s"
  using strip_hd [of s] strip_last [of s] by (intro strip_id) auto


lemma last_slice_of: "sublist (slice s i j) s"
  unfolding slice_def by (metis sublist_drop sublist_order.order_trans sublist_take)

lemma length_slice [simp]: "length (slice s i j) = min (j - i) (length s - i)"
  by (simp add: slice_def)

lemma nth_slice: "k < length (slice s i j) \<Longrightarrow> slice s i j ! k = s ! (i + k)"
  by (auto simp: slice_def nth_drop)

text \<open>
  The tables of the Unicode character database are data of the interpreter, a parameter of
  the definitions that fold case or classify characters. Only code points from 128 on are
  looked up there; the ASCII part is written out. \<open>udb_lower s i\<close> is what position \<open>i\<close> of
  \<open>s\<close> contributes to \<open>s.lower()\<close> (it may depend on the context, as the final sigma does).
\<close>

record unicode_db =
  udb_lower :: "pystr \<Rightarrow> nat \<Rightarrow> pystr"
  udb_printable :: "nat \<Rightarrow> bool"
  udb_word :: "nat \<Rightarrow> bool"
  udb_fold_eq :: "nat \<Rightarrow> nat \<Rightarrow> bool"

definition ascii_lower :: "nat \<Rightarrow> nat" where
  "ascii_lower c = (if 65 \<le> c \<and> c \<le> 90 then c + 32 else c)"

definition lower :: "unicode_db \<Rightarrow> pystr \<Rightarrow> pystr" where
  "lower u s = concat (map (\<lambda>i. if s ! i < 128 then [ascii_lower (s ! i)] else udb_lower u s i)
                 [0..<length s])"

definition is_printable :: "unicode_db \<Rightarrow> nat \<Rightarrow> bool" where
  "is_printable u c = (if c < 128 then 32 \<le> c \<and> c \<le> 126 else udb_printable u c)"

text \<open>The class \<open>\w\<close> of \<open>re\<close> on \<open>str\<close> patterns.\<close>

definition is_word :: "unicode_db \<Rightarrow> nat \<Rightarrow> bool" where
  "is_word u c =
     (if c < 128
      then (48 \<le> c \<and> c \<le> 57) \<or> (65 \<le> c \<and> c \<le> 90) \<or> c = 95 \<or> (97 \<le> c \<and> c \<le> 122)
      else udb_word u c)"

text \<open>Whether \<open>re.IGNORECASE\<close> lets a pattern character match a subject character.\<close>

definition fold_eq :: "unicode_db \<Rightarrow> nat \<Rightarrow> nat \<Rightarrow> bool" where
  "fold_eq u a b =
     (a = b \<or> (if a < 128 \<and> b < 128 then ascii_lower a = ascii_lower b else udb_fold_eq u a b))"

definition ascii_db :: unicode_db where
  "ascii_db = \<lparr>udb_lower = (\<lambda>s i. [s ! i]), udb_printable = (\<lambda>_. True), udb_word = (\<lambda>_. True),
     udb_fold_eq = (\<lambda>a b. a = b)\<rparr>"

lemma lower_ascii:
  assumes "\<forall>c \<in> set s. c < 128"
  shows "lower u s = map ascii_lower s"
proof -
  have "map (\<lambda>i. if s ! i < 128 then [ascii_lower (s ! i)] else udb_lower u s i) [0..<length s]
        = map (\<lambda>i. [ascii_lower (s ! i)]) [0..<length s]"
    using assms by (intro map_cong) auto
  then have "lower u s = concat (map (\<lambda>i. [ascii_lower (s ! i)]) [0..<length s])"
    unfolding lower_def by (rule arg_cong)
  also have "\<dots> = map (\<lambda>i. ascii_lower (s ! i)) [0..<length s]"
    by (rule concat_map_singleton)
  also have "\<dots> = map ascii_lower s"
    using map_nth [of s] by (metis (no_types, lifting) map_map comp_apply map_cong)
  finally show ?thesis .
qed

text \<open>\<open>sep.join(parts)\<close>.\<close>

fun py_join :: "pystr \<Rightarrow> pystr list \<Rightarrow> pystr" where
  "py_join sep [] = []"
| "py_join sep [x] = x"
| "py_join sep (x # y # xs) = x @ sep @ py_join sep (y # xs)"

lemma py_join_Nil_iff: "sep \<noteq> [] \<Longrightarrow> py_join sep xs = [] \<longleftrightarrow> xs = [] \<or> xs = [[]]"
  by (induction sep xs rule: py_join.induct) auto

lemma length_py_join:
  "length (py_join sep xs) = sum_list (map length xs) + (length xs - 1) * length sep"
  by (induction sep xs rule: py_join.induct) auto

text \<open>\<open>str(n)\<close> and the decimal part of an f-string.\<close>

fun dec_nat :: "nat \<Rightarrow> pystr" where
  "dec_nat n = (if n < 10 then [48 + n] else dec_nat (n div 10) @ [48 + n mod 10])"

declare dec_nat.simps [simp del]

definition dec_int :: "int \<Rightarrow> pystr" where
  "dec_int i = (if i < 0 then 45 # dec_nat (nat (- i)) else dec_nat (nat i))"

section \<open>Tables\<close>

text \<open>A table is the list of its rows. \<open>UPDATE ... SET f WHERE p\<close> is \<open>update_where p f\<close>, its
  row count \<open>count_where p\<close>; \<open>session.scalar(select(...).where(p))\<close> is \<open>find p\<close>.\<close>

definition update_where :: "('r \<Rightarrow> bool) \<Rightarrow> ('r \<Rightarrow> 'r) \<Rightarrow> 'r list \<Rightarrow> 'r list" where
  "update_where p f xs = map (\<lambda>r. if p r then f r else r) xs"

definition count_where :: "('r \<Rightarrow> bool) \<Rightarrow> 'r list \<Rightarrow> nat" where
  "count_where p xs = length (filter p xs)"

definition exists_where :: "('r \<Rightarrow> bool) \<Rightarrow> 'r list \<Rightarrow> bool" where
  "exists_where p xs = list_ex p xs"

lemma exists_where_iff [table_simps]: "exists_where p xs \<longleftrightarrow> (\<exists>r \<in> set xs. p r)"
  by (simp add: exists_where_def list_ex_iff)

lemma set_update_where [table_simps]:
  "set (update_where p f xs) = (\<lambda>r. if p r then f r else r) ` set xs"
  by (simp add: update_where_def)

lemma in_update_whereE:
  assumes "r \<in> set (update_where p f xs)"
  obtains r0 where "r0 \<in> set xs" "p r0" "r = f r0" | "r \<in> set xs" "\<not> p r"
  using assms by (auto simp: set_update_where split: if_splits)

lemma update_where_hit: "r \<in> set xs \<Longrightarrow> p r \<Longrightarrow> f r \<in> set (update_where p f xs)"
  by (force simp: set_update_where)

lemma update_where_miss: "r \<in> set xs \<Longrightarrow> \<not> p r \<Longrightarrow> r \<in> set (update_where p f xs)"
  by (force simp: set_update_where)

lemma length_update_where [simp]: "length (update_where p f xs) = length xs"
  by (simp add: update_where_def)

lemma update_where_append [simp]:
  "update_where p f (xs @ ys) = update_where p f xs @ update_where p f ys"
  by (simp add: update_where_def)

lemma map_update_where:
  assumes "\<And>r. p r \<Longrightarrow> g (f r) = g r"
  shows "map g (update_where p f xs) = map g xs"
  using assms by (simp add: update_where_def)

lemma update_where_none:
  assumes "\<And>r. r \<in> set xs \<Longrightarrow> \<not> p r"
  shows "update_where p f xs = xs"
  using assms by (simp add: update_where_def map_idI)

lemma count_where_0 [table_simps]: "count_where p xs = 0 \<longleftrightarrow> (\<forall>r \<in> set xs. \<not> p r)"
  by (simp add: count_where_def filter_empty_conv)

lemma count_where_append [simp]: "count_where p (xs @ ys) = count_where p xs + count_where p ys"
  by (simp add: count_where_def)

lemma count_where_Nil [simp]: "count_where p [] = 0"
  by (simp add: count_where_def)

lemma count_where_Cons [simp]:
  "count_where p (x # xs) = (if p x then Suc (count_where p xs) else count_where p xs)"
  by (simp add: count_where_def)

lemma count_where_update_le:
  assumes "\<And>r. r \<in> set xs \<Longrightarrow> p r \<Longrightarrow> q (f r) \<Longrightarrow> q r"
  shows "count_where q (update_where p f xs) \<le> count_where q xs"
  using assms by (induction xs) (auto simp: update_where_def le_SucI)

lemma count_where_update_eq:
  assumes "\<And>r. r \<in> set xs \<Longrightarrow> p r \<Longrightarrow> q (f r) = q r"
  shows "count_where q (update_where p f xs) = count_where q xs"
  using assms by (induction xs) (auto simp: update_where_def)

lemma find_SomeD: "find p xs = Some r \<Longrightarrow> r \<in> set xs \<and> p r"
  by (auto simp: find_Some_iff)

lemma find_NoneD: "find p xs = None \<Longrightarrow> r \<in> set xs \<Longrightarrow> \<not> p r"
  by (auto simp: find_None_iff)

lemma find_unique:
  assumes "x \<in> set xs" "p x" "\<And>y. y \<in> set xs \<Longrightarrow> p y \<Longrightarrow> y = x"
  shows "find p xs = Some x"
proof (cases "find p xs")
  case None
  then show ?thesis using assms(1,2) find_NoneD by metis
next
  case (Some y)
  then show ?thesis using assms(3) find_SomeD [OF Some] by simp
qed

lemma find_key:
  assumes "distinct (map k xs)" "r \<in> set xs"
  shows "find (\<lambda>r'. k r' = k r) xs = Some r"
  using assms by (induction xs) (auto simp: rev_image_eqI)

lemma key_eqD:
  assumes "distinct (map k xs)" "r \<in> set xs" "r' \<in> set xs" "k r = k r'"
  shows "r = r'"
  using assms by (auto simp: distinct_map inj_on_def)

lemma distinct_mapI: "distinct (map f xs) \<Longrightarrow> distinct xs"
  by (simp add: distinct_map)

lemma concat_map_single:
  assumes "distinct xs" "x \<in> set xs" "\<And>y. y \<in> set xs \<Longrightarrow> y \<noteq> x \<Longrightarrow> f y = []"
  shows "concat (map f xs) = f x"
  using assms
proof (induction xs)
  case (Cons a xs)
  show ?case
  proof (cases "a = x")
    case True
    then have "concat (map f xs) = []" using Cons.prems(1,3) by auto
    with True show ?thesis by simp
  next
    case False
    then show ?thesis using Cons by simp
  qed
qed simp

lemma ex1_key:
  assumes "distinct (map k xs)" "x \<in> set xs" "k x = a"
  shows "\<exists>!y. y \<in> set xs \<and> k y = a"
proof (rule ex1I [of _ x])
  fix y assume "y \<in> set xs \<and> k y = a"
  then show "y = x" using key_eqD [OF assms(1), of y x] assms(2,3) by simp
qed (use assms in simp)

section \<open>Steps and runs\<close>

text \<open>
  Several components are state machines: a function \<open>step\<close> applied to the state by one
  event after another, in any order the environment chooses. \<open>step_invariant\<close> lifts an
  invariant from one step to every run; \<open>stable_steps\<close> does so for a preorder between
  the states before and after (fencing tokens grow, terminal rows stay as they are).
\<close>

locale step_invariant =
  fixes step :: "'e \<Rightarrow> 's \<Rightarrow> 's"
    and inv :: "'s \<Rightarrow> bool"
  assumes inv_step: "inv s \<Longrightarrow> inv (step e s)"
begin

lemma inv_run: "inv s \<Longrightarrow> inv (fold step es s)"
  by (induction es arbitrary: s) (simp_all add: inv_step)

end

locale stable_steps = step_invariant step inv
  for step :: "'e \<Rightarrow> 's \<Rightarrow> 's" and inv :: "'s \<Rightarrow> bool" +
  fixes rel :: "'s \<Rightarrow> 's \<Rightarrow> bool"
  assumes rel_refl: "rel s s"
    and rel_trans: "rel s t \<Longrightarrow> rel t u \<Longrightarrow> rel s u"
    and rel_step: "inv s \<Longrightarrow> rel s (step e s)"
begin

lemma rel_run: "inv s \<Longrightarrow> rel s (fold step es s)"
proof (induction es arbitrary: s)
  case Nil
  show ?case by (simp add: rel_refl)
next
  case (Cons e es)
  then have "rel (step e s) (fold step es (step e s))" by (simp add: inv_step)
  with Cons.prems show ?case by (simp add: rel_trans [OF rel_step])
qed

end

end
