(* ===== verification/Tutor_Contract.thy ===== *)
theory Tutor_Contract
  imports Prelude
begin

text \<open>
  The tutor intervention contract of \<^verbatim>\<open>tutor_contract.py\<close>: the blocks a model may emit, the
  validators Pydantic runs on them, and the four functions by which the application, not the
  model, derives the plain text, the mode, the allowed actions and the help level.
\<close>

section \<open>Data\<close>

datatype situation =
    Ambiguous | Entry | Unsupported_claim | Partial | Contrastable_error
  | Missing_concept | Blocked | Grounded | Insufficient_evidence

datatype action = Another_hint | Explain | View_source

datatype diagram_kind = Sequence | Relations

record diagram_node =
  dn_id :: pystr
  dn_label :: pystr

record diagram_edge =
  de_source :: pystr
  de_target :: pystr
  de_label :: pystr

record activity_option =
  ao_id :: pystr
  ao_text :: pystr

datatype block =
    QuestionBlock pystr
  | HintBlock int pystr
  | ExplanationBlock (ex_title: pystr) (ex_text: pystr)
  | DiagramBlock diagram_kind pystr "diagram_node list" "diagram_edge list"
  | ActivityBlock (ac_question: pystr) (ac_options: "activity_option list")
      (ac_correct: pystr) (ac_hint: pystr) (ac_explanation: pystr)
  | SourcesBlock "int list"

record intent_citation =
  ic_chunk_id :: uuid
  ic_quote :: pystr

datatype contract_version = V1 | V2

record tutor_intervention =
  ti_version :: contract_version
  ti_situation :: situation
  ti_blocks :: "block list"
  ti_citations :: "intent_citation list"
  ti_grounded :: bool

datatype mode = Hint_mode | Guided_question | Explanation_mode | Abstain | Clarify

text \<open>What a validator or a lookup may raise.\<close>

datatype contract_error =
    Field_bounds
  | Duplicate_diagram_node
  | Unknown_diagram_node
  | Duplicate_activity_option
  | Unknown_activity_answer
  | Activity_requires_v2
  | One_primary_question
  | Sources_missing_citation
  | Abstention_carries_no_evidence
  | Clarification_one_uncited_question
  | Factual_requires_citations
  | Key_error

section \<open>Validation\<close>

definition len_between :: "nat \<Rightarrow> nat \<Rightarrow> 'a list \<Rightarrow> bool" where
  "len_between lo hi s \<longleftrightarrow> lo \<le> length s \<and> length s \<le> hi"

text \<open>The pattern \<open>^[a-z][a-z0-9_]{0,23}$\<close> of node and option identifiers.\<close>

definition is_lower_letter :: "nat \<Rightarrow> bool" where
  "is_lower_letter c \<longleftrightarrow> 97 \<le> c \<and> c \<le> 122"

definition valid_id :: "pystr \<Rightarrow> bool" where
  "valid_id s = (case s of [] \<Rightarrow> False
     | c # cs \<Rightarrow> is_lower_letter c \<and> length cs \<le> 23 \<and>
         list_all (\<lambda>d. is_lower_letter d \<or> (48 \<le> d \<and> d \<le> 57) \<or> d = 95) cs)"

definition diagram_consistent ::
  "diagram_node list \<Rightarrow> diagram_edge list \<Rightarrow> (contract_error, unit) result" where
  "diagram_consistent nodes edges =
     (let ids = map dn_id nodes in
      if \<not> distinct ids then Inl Duplicate_diagram_node
      else if list_ex (\<lambda>e. de_source e \<notin> set ids \<or> de_target e \<notin> set ids) edges
           then Inl Unknown_diagram_node
      else Inr ())"

definition activity_consistent ::
  "activity_option list \<Rightarrow> pystr \<Rightarrow> (contract_error, unit) result" where
  "activity_consistent options correct_option_id =
     (let ids = map ao_id options; texts = map ao_text options in
      if \<not> distinct ids \<or> \<not> distinct texts then Inl Duplicate_activity_option
      else if correct_option_id \<notin> set ids then Inl Unknown_activity_answer
      else Inr ())"

fun validate_block :: "block \<Rightarrow> (contract_error, unit) result" where
  "validate_block (QuestionBlock text) =
     (if len_between 1 600 text then Inr () else Inl Field_bounds)"
| "validate_block (HintBlock level text) =
     (if 1 \<le> level \<and> level \<le> 3 \<and> len_between 1 600 text then Inr () else Inl Field_bounds)"
| "validate_block (ExplanationBlock title text) =
     (if len_between 1 120 title \<and> len_between 1 1500 text then Inr () else Inl Field_bounds)"
| "validate_block (DiagramBlock kind title nodes edges) =
     (if len_between 1 120 title \<and> len_between 2 12 nodes \<and> len_between 1 20 edges \<and>
         list_all (\<lambda>n. valid_id (dn_id n) \<and> len_between 1 80 (dn_label n)) nodes \<and>
         list_all (\<lambda>e. length (de_label e) \<le> 80) edges
      then diagram_consistent nodes edges else Inl Field_bounds)"
| "validate_block (ActivityBlock question options correct hint explanation) =
     (if len_between 1 600 question \<and> len_between 2 4 options \<and>
         list_all (\<lambda>p. valid_id (ao_id p) \<and> len_between 1 600 (ao_text p)) options \<and>
         len_between 1 600 hint \<and> len_between 1 1500 explanation
      then activity_consistent options correct else Inl Field_bounds)"
| "validate_block (SourcesBlock indexes) =
     (if len_between 1 5 indexes then Inr () else Inl Field_bounds)"

fun is_activity :: "block \<Rightarrow> bool" where
  "is_activity (ActivityBlock _ _ _ _ _) = True"
| "is_activity _ = False"

fun is_question :: "block \<Rightarrow> bool" where
  "is_question (QuestionBlock _) = True"
| "is_question _ = False"

fun is_explanation :: "block \<Rightarrow> bool" where
  "is_explanation (ExplanationBlock _ _) = True"
| "is_explanation _ = False"

fun dangling_source :: "nat \<Rightarrow> block \<Rightarrow> bool" where
  "dangling_source n (SourcesBlock indexes) = list_ex (\<lambda>i. int n \<le> i) indexes"
| "dangling_source n _ = False"

definition coherent :: "tutor_intervention \<Rightarrow> (contract_error, tutor_intervention) result" where
  "coherent ti =
     (if ti_version ti = V1 \<and> list_ex is_activity (ti_blocks ti) then Inl Activity_requires_v2
      else if length (filter (\<lambda>b. is_question b \<or> is_activity b) (ti_blocks ti)) > 1
        then Inl One_primary_question
      else if list_ex (dangling_source (length (ti_citations ti))) (ti_blocks ti)
        then Inl Sources_missing_citation
      else if ti_situation ti = Insufficient_evidence then
        (if ti_grounded ti \<or> ti_citations ti \<noteq> [] \<or>
            list_ex (\<lambda>b. \<not> (is_question b \<or> is_explanation b)) (ti_blocks ti)
         then Inl Abstention_carries_no_evidence else Inr ti)
      else if ti_situation ti = Ambiguous then
        (if ti_grounded ti \<or> ti_citations ti \<noteq> [] \<or> length (ti_blocks ti) \<noteq> 1 \<or>
            \<not> is_question (hd (ti_blocks ti))
         then Inl Clarification_one_uncited_question else Inr ti)
      else if \<not> ti_grounded ti \<or> ti_citations ti = [] then Inl Factual_requires_citations
      else Inr ti)"

text \<open>\<open>TutorIntervention.model_validate\<close>: the field constraints, then \<open>coherent\<close>.\<close>

definition validate_intervention ::
  "tutor_intervention \<Rightarrow> (contract_error, tutor_intervention) result" where
  "validate_intervention ti =
     (if \<not> len_between 1 5 (ti_blocks ti) \<or> length (ti_citations ti) > 5 \<or>
         list_ex (\<lambda>c. \<not> len_between 10 1600 (ic_quote c)) (ti_citations ti)
      then Inl Field_bounds
      else bindE (mapE validate_block (ti_blocks ti)) (\<lambda>_. coherent ti))"

section \<open>Derived presentation\<close>

definition arrow :: pystr where
  "arrow = [32, 8594, 32]"

definition newline :: pystr where
  "newline = [10]"

definition edge_text ::
  "(pystr \<rightharpoonup> pystr) \<Rightarrow> diagram_edge \<Rightarrow> (contract_error, pystr) result" where
  "edge_text labels e =
     (case labels (de_source e) of None \<Rightarrow> Inl Key_error | Some s \<Rightarrow>
      (case labels (de_target e) of None \<Rightarrow> Inl Key_error | Some t \<Rightarrow>
        Inr (s @ arrow @ t @
          (if de_label e \<noteq> [] then py '' ('' @ de_label e @ py '')'' else []))))"

definition option_texts :: "activity_option list \<Rightarrow> pystr list" where
  "option_texts options =
     map (\<lambda>(i, p). (65 + i) # py ''. '' @ ao_text p) (zip [0..<length options] options)"

fun block_text :: "block \<Rightarrow> (contract_error, pystr) result" where
  "block_text (QuestionBlock text) = Inr text"
| "block_text (HintBlock level text) = Inr (py ''Pista '' @ dec_int level @ py '': '' @ text)"
| "block_text (ExplanationBlock title text) = Inr (title @ py ''. '' @ text)"
| "block_text (DiagramBlock kind title nodes edges) =
     (let labels = map_of (rev (map (\<lambda>n. (dn_id n, dn_label n)) nodes));
          name = (case kind of Sequence \<Rightarrow> py ''Secuencia'' | Relations \<Rightarrow> py ''Relaciones'')
      in bindE (mapE (edge_text labels) edges)
           (\<lambda>steps. Inr (name @ py '': '' @ title @ py ''. '' @ py_join (py ''; '') steps @ py ''.'')))"
| "block_text (ActivityBlock question options correct hint explanation) =
     Inr (py ''Ahora te toca razonar: '' @ question @ newline @
          py_join newline (option_texts options))"
| "block_text (SourcesBlock indexes) =
     Inr (py ''Fuentes: '' @
          py_join (py '' '') (map (\<lambda>i. py ''['' @ dec_int (i + 1) @ py '']'') indexes) @ py ''.'')"

definition equivalent_text :: "tutor_intervention \<Rightarrow> (contract_error, pystr) result" where
  "equivalent_text ti =
     bindE (mapE block_text (ti_blocks ti)) (\<lambda>parts. Inr (py_join (newline @ newline) parts))"

definition allowed_actions :: "tutor_intervention \<Rightarrow> action list" where
  "allowed_actions ti =
     (if ti_situation ti \<in> {Insufficient_evidence, Ambiguous} then []
      else (if ti_situation ti \<noteq> Grounded then [Another_hint] else []) @ [Explain] @
           (if ti_citations ti \<noteq> [] then [View_source] else []))"

fun first_block_mode :: "block list \<Rightarrow> mode" where
  "first_block_mode [] = Explanation_mode"
| "first_block_mode (HintBlock _ _ # bs) = Hint_mode"
| "first_block_mode (QuestionBlock _ # bs) = Guided_question"
| "first_block_mode (ActivityBlock _ _ _ _ _ # bs) = Guided_question"
| "first_block_mode (_ # bs) = first_block_mode bs"

definition mode_for :: "tutor_intervention \<Rightarrow> mode" where
  "mode_for ti =
     (if ti_situation ti = Insufficient_evidence then Abstain
      else if ti_situation ti = Ambiguous then Clarify
      else first_block_mode (ti_blocks ti))"

fun hint_level_of :: "block \<Rightarrow> int option" where
  "hint_level_of (HintBlock level _) = Some level"
| "hint_level_of _ = None"

text \<open>\<open>max(levels, default=0)\<close>.\<close>

definition help_level :: "tutor_intervention \<Rightarrow> int" where
  "help_level ti =
     (case List.map_filter hint_level_of (ti_blocks ti) of [] \<Rightarrow> 0
      | l # ls \<Rightarrow> fold max ls l)"


section \<open>What validation guarantees\<close>

lemma validate_intervention_ok:
  assumes "validate_intervention ti = Inr t"
  shows "t = ti" "coherent ti = Inr ti" "len_between 1 5 (ti_blocks ti)"
    "\<And>b. b \<in> set (ti_blocks ti) \<Longrightarrow> validate_block b = Inr ()"
    "length (ti_citations ti) \<le> 5"
    "\<And>c. c \<in> set (ti_citations ti) \<Longrightarrow> len_between 10 1600 (ic_quote c)"
proof -
  from assms obtain us where 1: "mapE validate_block (ti_blocks ti) = Inr us"
    and 2: "coherent ti = Inr t" and 3: "len_between 1 5 (ti_blocks ti)"
    and 4: "length (ti_citations ti) \<le> 5"
    and 5: "\<not> list_ex (\<lambda>c. \<not> len_between 10 1600 (ic_quote c)) (ti_citations ti)"
    by (auto simp: validate_intervention_def result_simps split: if_splits)
  from 2 show t: "t = ti" by (auto simp: coherent_def split: if_splits)
  from 2 t show "coherent ti = Inr ti" by simp
  show "len_between 1 5 (ti_blocks ti)" by (rule 3)
  show "length (ti_citations ti) \<le> 5" by (rule 4)
  show "\<And>b. b \<in> set (ti_blocks ti) \<Longrightarrow> validate_block b = Inr ()"
    using 1 by (auto simp: mapE_Inr_iff list_all2_conv_all_nth in_set_conv_nth)
  show "\<And>c. c \<in> set (ti_citations ti) \<Longrightarrow> len_between 10 1600 (ic_quote c)"
    using 5 by (auto simp: list_ex_iff)
qed

lemma coherent_factual:
  assumes "coherent ti = Inr t" "ti_situation ti \<notin> {Insufficient_evidence, Ambiguous}"
  shows "ti_grounded ti" "ti_citations ti \<noteq> []"
  using assms by (auto simp: coherent_def split: if_splits)

lemma coherent_insufficient:
  assumes "coherent ti = Inr t" "ti_situation ti = Insufficient_evidence"
  shows "\<not> ti_grounded ti" "ti_citations ti = []"
    "b \<in> set (ti_blocks ti) \<Longrightarrow> is_question b \<or> is_explanation b"
  using assms by (auto simp: coherent_def list_ex_iff split: if_splits)

lemma coherent_ambiguous:
  assumes "coherent ti = Inr t" "ti_situation ti = Ambiguous"
  shows "\<not> ti_grounded ti" "ti_citations ti = []" "\<exists>q. ti_blocks ti = [QuestionBlock q]"
proof -
  from assms have "length (ti_blocks ti) = 1" "is_question (hd (ti_blocks ti))"
    and *: "\<not> ti_grounded ti" "ti_citations ti = []"
    by (auto simp: coherent_def split: if_splits)
  then obtain b where "ti_blocks ti = [b]" "is_question b"
    by (auto simp: length_Suc_conv)
  then show "\<exists>q. ti_blocks ti = [QuestionBlock q]" by (cases b) auto
  show "\<not> ti_grounded ti" "ti_citations ti = []" by (rule *)+
qed

lemma coherent_sources:
  assumes "coherent ti = Inr t" "SourcesBlock is \<in> set (ti_blocks ti)" "i \<in> set is"
  shows "i < int (length (ti_citations ti))"
proof -
  have "\<not> dangling_source (length (ti_citations ti)) (SourcesBlock is)"
    using assms(1,2) by (auto simp: coherent_def list_ex_iff split: if_splits)
  with assms(3) show ?thesis by (auto simp: list_ex_iff)
qed

lemma first_block_mode_cases:
  "first_block_mode bs \<in> {Hint_mode, Guided_question, Explanation_mode}"
  by (induction bs rule: first_block_mode.induct) auto

lemma mode_for_abstain [simp]: "mode_for ti = Abstain \<longleftrightarrow> ti_situation ti = Insufficient_evidence"
  using first_block_mode_cases [of "ti_blocks ti"] by (auto simp: mode_for_def)

lemma mode_for_clarify [simp]: "mode_for ti = Clarify \<longleftrightarrow> ti_situation ti = Ambiguous"
  using first_block_mode_cases [of "ti_blocks ti"] by (auto simp: mode_for_def)

lemma map_of_labels:
  assumes "k \<in> set (map dn_id nodes)"
  shows "\<exists>l. map_of (rev (map (\<lambda>n. (dn_id n, dn_label n)) nodes)) k = Some l"
proof -
  have "k \<in> dom (map_of (rev (map (\<lambda>n. (dn_id n, dn_label n)) nodes)))"
    using assms by (auto simp: dom_map_of_conv_image_fst image_iff)
  then show ?thesis by auto
qed

lemma edge_text_ok:
  assumes "diagram_consistent nodes edges = Inr ()" "e \<in> set edges"
  shows "\<exists>s. edge_text (map_of (rev (map (\<lambda>n. (dn_id n, dn_label n)) nodes))) e = Inr s"
proof -
  have "de_source e \<in> set (map dn_id nodes)" "de_target e \<in> set (map dn_id nodes)"
    using assms by (auto simp: diagram_consistent_def Let_def list_ex_iff split: if_splits)
  then obtain s t where
    "map_of (rev (map (\<lambda>n. (dn_id n, dn_label n)) nodes)) (de_source e) = Some s"
    "map_of (rev (map (\<lambda>n. (dn_id n, dn_label n)) nodes)) (de_target e) = Some t"
    using map_of_labels [of _ nodes] by blast
  then show ?thesis by (simp add: edge_text_def)
qed

lemma dec_nat_ne [simp]: "dec_nat n \<noteq> []"
  by (subst dec_nat.simps) simp

lemma block_text_ok:
  assumes "validate_block b = Inr ()"
  shows "\<exists>t. block_text b = Inr t \<and> t \<noteq> []"
proof (cases b)
  case (DiagramBlock kind title nodes edges)
  then have "diagram_consistent nodes edges = Inr ()" using assms by (auto split: if_splits)
  then have "\<exists>steps. mapE (edge_text (map_of (rev (map (\<lambda>n. (dn_id n, dn_label n)) nodes)))) edges
      = Inr steps"
    by (intro mapE_ok edge_text_ok)
  with DiagramBlock show ?thesis by (auto simp: py_def)
qed (use assms in \<open>auto simp: len_between_def py_def split: if_splits\<close>)

lemma equivalent_text_ok:
  assumes "validate_intervention ti = Inr t"
  shows "\<exists>s. equivalent_text ti = Inr s \<and> s \<noteq> []"
proof -
  note ok = validate_intervention_ok [OF assms]
  have "\<exists>parts. mapE block_text (ti_blocks ti) = Inr parts"
    using ok(4) block_text_ok by (intro mapE_ok) blast
  then obtain parts where p: "mapE block_text (ti_blocks ti) = Inr parts" by blast
  obtain b bs where bs: "ti_blocks ti = b # bs" using ok(3)
    by (cases "ti_blocks ti") (auto simp: len_between_def)
  obtain x xs where x: "parts = x # xs" "block_text b = Inr x"
    using p bs by (auto simp: result_simps)
  have "x \<noteq> []" using block_text_ok [of b] ok(4) [of b] bs x by auto
  then have "py_join (newline @ newline) parts \<noteq> []"
    using x by (subst py_join_Nil_iff) (auto simp: newline_def)
  with p show ?thesis by (simp add: equivalent_text_def)
qed

lemma fold_max_upper: "(l::int) \<in> set (x # xs) \<Longrightarrow> l \<le> fold max xs x"
  by (metis Max.set_eq_fold Max_ge finite_set)

lemma fold_max_in: "fold max xs x \<in> set ((x::int) # xs)"
  by (metis Max.set_eq_fold Max_in finite_set list.distinct(1) set_empty)

lemma hint_level_of_Some: "hint_level_of b = Some l \<longleftrightarrow> (\<exists>t. b = HintBlock l t)"
  by (cases b) auto

lemma in_hint_levels:
  "l \<in> set (List.map_filter hint_level_of bs) \<longleftrightarrow> (\<exists>t. HintBlock l t \<in> set bs)"
  by (induction bs) (auto simp: List.map_filter_simps hint_level_of_Some split: option.splits)

lemma help_level_upper: "HintBlock l t \<in> set (ti_blocks ti) \<Longrightarrow> l \<le> help_level ti"
  using in_hint_levels [of l "ti_blocks ti"] fold_max_upper
  by (auto simp: help_level_def split: list.splits; force)

lemma help_level_attained:
  "help_level ti = 0 \<and> (\<forall>l t. HintBlock l t \<notin> set (ti_blocks ti)) \<or>
   (\<exists>t. HintBlock (help_level ti) t \<in> set (ti_blocks ti))"
proof (cases "List.map_filter hint_level_of (ti_blocks ti)")
  case Nil
  then have "\<forall>l t. HintBlock l t \<notin> set (ti_blocks ti)"
    using in_hint_levels [of _ "ti_blocks ti"] by auto
  with Nil show ?thesis by (simp add: help_level_def)
next
  case (Cons l ls)
  then have "help_level ti \<in> set (List.map_filter hint_level_of (ti_blocks ti))"
    using fold_max_in [of ls l] by (simp add: help_level_def)
  then show ?thesis by (simp add: in_hint_levels)
qed


section \<open>Correctness\<close>

definition sample_intervention :: tutor_intervention where
  "sample_intervention = \<lparr>ti_version = V2, ti_situation = Blocked,
     ti_blocks = [HintBlock 2 (py ''look''),
       DiagramBlock Sequence (py ''t'') [\<lparr>dn_id = py ''a'', dn_label = py ''A''\<rparr>, \<lparr>dn_id = py ''b'', dn_label = py ''B''\<rparr>]
         [\<lparr>de_source = py ''a'', de_target = py ''b'', de_label = []\<rparr>], SourcesBlock [0]],
     ti_citations = [\<lparr>ic_chunk_id = 7, ic_quote = py ''ten letters''\<rparr>], ti_grounded = True\<rparr>"

lemma sample_intervention_valid:
  "validate_intervention sample_intervention = Inr sample_intervention"
  by (simp add: validate_intervention_def sample_intervention_def len_between_def coherent_def
      diagram_consistent_def Let_def valid_id_def is_lower_letter_def py_def)

text \<open>A validated intervention can always be shown as text: no diagram edge refers to a node
  without a label (no KeyError), and the text is never empty.\<close>

lemma equivalent_text_total:
  "validate_intervention ti = Inr t \<Longrightarrow> \<exists>s. equivalent_text t = Inr s \<and> s \<noteq> []"
  using equivalent_text_ok validate_intervention_ok(1) by metis

text \<open>Guidance is grounded. In a validated intervention being grounded, carrying citations,
  offering \<open>view_source\<close> and being neither an abstention nor a clarification are the same
  thing; an abstention or a clarification offers no action at all, a clarification is one
  question, and every source index is below the number of citations.\<close>

lemma validated_grounding:
  assumes "validate_intervention ti = Inr t"
  shows "(ti_grounded t \<longleftrightarrow> ti_citations t \<noteq> []) \<and>
     (ti_grounded t \<longleftrightarrow> mode_for t \<notin> {Abstain, Clarify}) \<and>
     (View_source \<in> set (allowed_actions t) \<longleftrightarrow> ti_grounded t) \<and>
     (\<not> ti_grounded t \<longrightarrow> allowed_actions t = []) \<and>
     (mode_for t = Clarify \<longrightarrow> (\<exists>q. ti_blocks t = [QuestionBlock q])) \<and>
     (\<forall>is i. SourcesBlock is \<in> set (ti_blocks t) \<longrightarrow> i \<in> set is \<longrightarrow> i < int (length (ti_citations t)))"
proof -
  note ok = validate_intervention_ok [OF assms]
  note co = ok(2) [folded ok(1)]
  consider "ti_situation t = Insufficient_evidence" | "ti_situation t = Ambiguous"
    | "ti_situation t \<notin> {Insufficient_evidence, Ambiguous}" by blast
  then have "(ti_grounded t \<longleftrightarrow> ti_citations t \<noteq> []) \<and>
     (ti_grounded t \<longleftrightarrow> mode_for t \<notin> {Abstain, Clarify}) \<and>
     (View_source \<in> set (allowed_actions t) \<longleftrightarrow> ti_grounded t) \<and>
     (\<not> ti_grounded t \<longrightarrow> allowed_actions t = []) \<and>
     (mode_for t = Clarify \<longrightarrow> (\<exists>q. ti_blocks t = [QuestionBlock q]))"
  proof cases
    case 1
    then show ?thesis using coherent_insufficient [OF co] by (simp add: allowed_actions_def)
  next
    case 2
    then show ?thesis using coherent_ambiguous [OF co] by (simp add: allowed_actions_def)
  next
    case 3
    then show ?thesis using coherent_factual [OF co] by (simp add: allowed_actions_def)
  qed
  then show ?thesis using coherent_sources [OF co] by blast
qed

text \<open>The help level of a validated intervention is the highest level among its hints, a number
  from 1 to 3, and 0 exactly when it has no hint.\<close>

lemma help_level_range:
  assumes "validate_intervention ti = Inr t"
  shows "0 \<le> help_level t \<and> help_level t \<le> 3 \<and>
     (help_level t = 0 \<longleftrightarrow> (\<forall>l x. HintBlock l x \<notin> set (ti_blocks t))) \<and>
     (\<forall>l x. HintBlock l x \<in> set (ti_blocks t) \<longrightarrow> l \<le> help_level t) \<and>
     (help_level t > 0 \<longrightarrow> (\<exists>x. HintBlock (help_level t) x \<in> set (ti_blocks t)))"
proof -
  note ok = validate_intervention_ok [OF assms]
  have lvl: "1 \<le> l \<and> l \<le> 3" if "HintBlock l x \<in> set (ti_blocks t)" for l x
    using ok(4) [of "HintBlock l x"] that ok(1) by (auto split: if_splits)
  show ?thesis
    using help_level_attained [of t] help_level_upper [of _ _ t] lvl by fastforce
qed

text \<open>Source indexes are not bounded from below. The validators accept a source index of -1,
  which the text shows as reference [0], although the first citation is shown as [1].\<close>

lemma negative_source_index_accepted:
  "\<exists>ti. validate_intervention ti = Inr ti \<and> ti_blocks ti = [SourcesBlock [-1]] \<and>
     equivalent_text ti = Inr (py ''Fuentes: [0].'')"
proof -
  let ?ti = "sample_intervention\<lparr>ti_blocks := [SourcesBlock [-1]]\<rparr>"
  have "validate_intervention ?ti = Inr ?ti"
    by (simp add: validate_intervention_def sample_intervention_def len_between_def coherent_def)
  moreover have "equivalent_text ?ti = Inr (py ''Fuentes: [0].'')"
    by (simp add: equivalent_text_def dec_int_def dec_nat.simps py_def)
  ultimately show ?thesis by (intro exI [of _ ?ti]) simp
qed

end
