(* ===== verification/Models.thy ===== *)
theory Models
  imports Prelude Tutor_Contract
begin

text \<open>
  The rows of \<^verbatim>\<open>models.py\<close> and \<^verbatim>\<open>conversation_models.py\<close>, the database as one record of
  tables, and the transaction of \<^verbatim>\<open>database.py\<close>: a session commits the state its body
  returns and, when the body raises, leaves the state it started from. State columns, which
  the schema keeps as strings under a CHECK, are datatypes. A time is a number of
  microseconds.
\<close>

type_synonym time = int

definition seconds :: "int \<Rightarrow> time" where
  "seconds n = 1000000 * n"

datatype membership_role = TEACHER | STUDENT

datatype document_version_state =
    DV_AWAITING_UPLOAD | DV_QUEUED | DV_PROCESSING | DV_INDEXED
  | DV_FAILED | DV_REJECTED | DV_OCR_REQUIRED

datatype corpus_version_state = CV_BUILDING | CV_READY | CV_FAILED | CV_RETIRED

datatype ingestion_job_state = JOB_PENDING | JOB_RUNNING | JOB_SUCCEEDED | JOB_FAILED

datatype outbox_kind = Ingestion_event | Dead_event

datatype message_state = MSG_PENDING | MSG_COMPLETED | MSG_FAILED

datatype turn_kind = Question_turn | Followup_turn | Action_turn

datatype turn_intent = Intent_another_hint | Intent_explain | Intent_dont_know

record user =
  us_id :: uuid
  us_oidc_issuer :: pystr
  us_oidc_subject :: pystr
  us_created_at :: time

record course =
  co_id :: uuid
  co_title :: pystr
  co_version :: int
  co_active_corpus_version_id :: "uuid option"
  co_created_at :: time
  co_updated_at :: time

record course_membership =
  cm_course_id :: uuid
  cm_user_id :: uuid
  cm_role :: membership_role
  cm_created_at :: time

record course_creation =
  cc_user_id :: uuid
  cc_idempotency_key :: pystr
  cc_course_id :: uuid

record document =
  do_id :: uuid
  do_course_id :: uuid
  do_title :: pystr
  do_created_by_user_id :: uuid
  do_created_at :: time

record document_version =
  dv_id :: uuid
  dv_course_id :: uuid
  dv_document_id :: uuid
  dv_storage_key :: pystr
  dv_storage_version_id :: "pystr option"
  dv_original_filename :: pystr
  dv_expected_size_bytes :: int
  dv_expected_sha256 :: pystr
  dv_media_type :: pystr
  dv_state :: document_version_state
  dv_pipeline_version :: pystr
  dv_parser_version :: "pystr option"
  dv_upload_idempotency_key :: pystr
  dv_upload_request_hash :: pystr
  dv_confirmation_idempotency_key :: "pystr option"
  dv_confirmation_request_hash :: "pystr option"
  dv_object_size_bytes :: "int option"
  dv_object_sha256 :: "pystr option"
  dv_page_count :: "int option"
  dv_chunk_count :: "int option"
  dv_failure_code :: "string option"
  dv_created_at :: time
  dv_updated_at :: time

record corpus_version =
  cv_id :: uuid
  cv_course_id :: uuid
  cv_state :: corpus_version_state
  cv_pipeline_version :: pystr
  cv_page_count :: int
  cv_chunk_count :: int
  cv_created_at :: time
  cv_ready_at :: "time option"

record corpus_version_document =
  cd_corpus_version_id :: uuid
  cd_document_version_id :: uuid
  cd_course_id :: uuid

record chunk =
  ch_id :: uuid
  ch_course_id :: uuid
  ch_corpus_version_id :: uuid
  ch_document_version_id :: uuid
  ch_page_start :: int
  ch_page_end :: int
  ch_ordinal :: int
  ch_content :: pystr
  ch_content_hash :: pystr

text \<open>A float of an embedding: an IEEE value, of which the code asks only whether it is finite.\<close>

datatype fval = Finite rat | Not_finite

record chunk_embedding =
  ce_chunk_id :: uuid
  ce_embedding_version :: pystr
  ce_course_id :: uuid
  ce_corpus_version_id :: uuid
  ce_dims :: int
  ce_embedding :: "fval list"

record ingestion_job =
  ij_id :: uuid
  ij_course_id :: uuid
  ij_document_version_id :: uuid
  ij_job_type :: pystr
  ij_pipeline_version :: pystr
  ij_state :: ingestion_job_state
  ij_attempt :: int
  ij_fencing_token :: int
  ij_correlation_id :: pystr
  ij_failure_code :: "string option"
  ij_created_at :: time
  ij_updated_at :: time
  ij_completed_at :: "time option"
  ij_lease_expires_at :: "time option"
  ij_next_attempt_at :: time

record outbox_event =
  oe_id :: uuid
  oe_course_id :: uuid
  oe_job_id :: uuid
  oe_kind :: outbox_kind
  oe_available_at :: time
  oe_created_at :: time
  oe_published_at :: "time option"
  oe_publish_token :: "uuid option"
  oe_publish_lease_until :: "time option"

record conversation =
  cn_id :: uuid
  cn_course_id :: uuid
  cn_owner_user_id :: uuid
  cn_idempotency_key :: pystr
  cn_next_sequence :: int
  cn_created_at :: time

record message =
  ms_id :: uuid
  ms_course_id :: uuid
  ms_conversation_id :: uuid
  ms_corpus_version_id :: "uuid option"
  ms_sequence :: int
  ms_idempotency_key :: pystr
  ms_question :: pystr
  ms_state :: message_state
  ms_answer :: "pystr option"
  ms_mode :: "mode option"
  ms_grounded :: "bool option"
  ms_failure_code :: "string option"
  ms_correlation_id :: pystr
  ms_prompt_version :: pystr
  ms_retrieval_config_version :: pystr
  ms_model_version :: pystr
  ms_kind :: turn_kind
  ms_intent :: "turn_intent option"
  ms_parent_message_id :: "uuid option"
  ms_retrieval_query :: "pystr option"
  ms_query_version :: "pystr option"
  ms_intervention :: "tutor_intervention option"
  ms_contract_version :: "contract_version option"
  ms_situation :: "situation option"
  ms_help_level :: "int option"
  ms_created_at :: time
  ms_deadline_at :: time
  ms_completed_at :: "time option"

record retrieved_evidence =
  re_message_id :: uuid
  re_chunk_id :: uuid
  re_course_id :: uuid
  re_corpus_version_id :: uuid
  re_document_version_id :: uuid
  re_document_title :: pystr
  re_document_sha256 :: pystr
  re_page_start :: int
  re_page_end :: int
  re_fragment :: pystr
  re_content :: pystr
  re_content_hash :: pystr

record citation =
  ct_message_id :: uuid
  ct_chunk_id :: uuid
  ct_course_id :: uuid
  ct_ordinal :: int
  ct_quote :: pystr

section \<open>Exceptions\<close>

text \<open>
  The exceptions the application raises or catches. \<open>APIError\<close> keeps the status and the code
  of \<^verbatim>\<open>api_errors.py\<close>, not the message shown to a person; codes are ASCII constants.
\<close>

datatype exn =
    IntegrityError
  | MultipleResultsFound
  | NoResultFound
  | OperationalError
  | RuntimeError string
  | ValueError string
  | KeyError
  | IndexError
  | TypeError
  | AttributeError
  | OverflowError
  | AssertionError
  | TimeoutError
  | APIError (ae_status: int) (ae_code: string)
  | InvalidJobEnvelope
  | CourseNotFound
  | DocumentResourceNotFound
  | IdempotencyKeyMissing
  | IdempotencyKeyReused
  | UploadNotReady
  | UploadValidationFailure string int
  | CorpusNotReady
  | PublicationConflict
  | ObjectStorageUnavailable
  | StoredObjectNotFound
  | StoredObjectTooLarge
  | DocumentProcessingFailure string document_version_state
  | EmbeddingUnavailable
  | EmbeddingInvalid
  | RAGFailure string
  | AuthenticationError
  | IdentityProviderUnavailable
  | RedisError
  | ResponseError string

text \<open>The subclasses of \<open>sqlalchemy.exc.SQLAlchemyError\<close>.\<close>

fun is_sqlalchemy_error :: "exn \<Rightarrow> bool" where
  "is_sqlalchemy_error IntegrityError = True"
| "is_sqlalchemy_error MultipleResultsFound = True"
| "is_sqlalchemy_error NoResultFound = True"
| "is_sqlalchemy_error OperationalError = True"
| "is_sqlalchemy_error _ = False"

text \<open>\<open>Result.one_or_none()\<close> and \<open>Result.one()\<close>.\<close>

definition one_or_none :: "'r list \<Rightarrow> (exn, 'r option) result" where
  "one_or_none rows = (case rows of [] \<Rightarrow> Inr None | [r] \<Rightarrow> Inr (Some r)
     | _ \<Rightarrow> Inl MultipleResultsFound)"

definition one :: "'r list \<Rightarrow> (exn, 'r) result" where
  "one rows = (case rows of [] \<Rightarrow> Inl NoResultFound | [r] \<Rightarrow> Inr r
     | _ \<Rightarrow> Inl MultipleResultsFound)"

lemma one_or_none_Some: "one_or_none rows = Inr (Some r) \<Longrightarrow> rows = [r]"
  by (auto simp: one_or_none_def split: list.splits)

lemma one_or_none_None: "one_or_none rows = Inr None \<Longrightarrow> rows = []"
  by (auto simp: one_or_none_def split: list.splits)

section \<open>The database\<close>

record db =
  t_users :: "user list"
  t_courses :: "course list"
  t_memberships :: "course_membership list"
  t_course_creations :: "course_creation list"
  t_documents :: "document list"
  t_versions :: "document_version list"
  t_corpora :: "corpus_version list"
  t_corpus_documents :: "corpus_version_document list"
  t_chunks :: "chunk list"
  t_embeddings :: "chunk_embedding list"
  t_jobs :: "ingestion_job list"
  t_outbox :: "outbox_event list"
  t_conversations :: "conversation list"
  t_messages :: "message list"
  t_evidence :: "retrieved_evidence list"
  t_citations :: "citation list"

definition empty_db :: db where
  "empty_db = \<lparr>t_users = [], t_courses = [], t_memberships = [], t_course_creations = [],
     t_documents = [], t_versions = [], t_corpora = [], t_corpus_documents = [], t_chunks = [],
     t_embeddings = [], t_jobs = [], t_outbox = [], t_conversations = [], t_messages = [],
     t_evidence = [], t_citations = []\<rparr>"

text \<open>
  \<open>Database.session\<close>: \<open>with session.begin()\<close> commits when the body returns and rolls back
  when it raises. Transactions are atomic steps of the model: what several actors do is a
  sequence of them.
\<close>

definition session ::
  "(db \<Rightarrow> ('e, 'a \<times> db) result) \<Rightarrow> db \<Rightarrow> ('e, 'a) result \<times> db" where
  "session body s = (case body s of Inl e \<Rightarrow> (Inl e, s) | Inr (a, s') \<Rightarrow> (Inr a, s'))"

lemma session_Inl [simp]: "body s = Inl e \<Longrightarrow> session body s = (Inl e, s)"
  by (simp add: session_def)

lemma session_Inr [simp]: "body s = Inr (a, s') \<Longrightarrow> session body s = (Inr a, s')"
  by (simp add: session_def)

lemma session_cases:
  obtains (raised) e where "body s = Inl e" "session body s = (Inl e, s)"
  | (committed) a s' where "body s = Inr (a, s')" "session body s = (Inr a, s')"
  by (cases "body s") auto

lemma session_rollback: "session body s = (Inl e, s') \<Longrightarrow> s' = s"
  by (cases rule: session_cases [of body s]) auto

text \<open>An invariant of the state a session starts from holds after it, if the body keeps it.\<close>

lemma session_inv:
  assumes "\<And>a s'. body s = Inr (a, s') \<Longrightarrow> P s'" "P s"
  shows "P (snd (session body s))"
  using assms by (cases rule: session_cases [of body s]) auto

text \<open>The CHECK constraints of the message table (\<open>ck_messages_terminal_payload\<close>,
  \<open>ck_messages_parent\<close>, \<open>ck_messages_sequence\<close>); the other CHECKs of the table restrict
  columns that are datatypes here.\<close>

definition ck_terminal_payload :: "message \<Rightarrow> bool" where
  "ck_terminal_payload m \<longleftrightarrow>
     (ms_state m = MSG_PENDING \<and> ms_answer m = None \<and> ms_mode m = None \<and> ms_grounded m = None \<and>
        ms_failure_code m = None \<and> ms_completed_at m = None) \<or>
     (ms_state m = MSG_FAILED \<and> ms_answer m = None \<and> ms_mode m = None \<and> ms_grounded m = None \<and>
        ms_failure_code m \<noteq> None \<and> ms_completed_at m \<noteq> None) \<or>
     (ms_state m = MSG_COMPLETED \<and> ms_answer m \<noteq> None \<and> ms_mode m \<noteq> None \<and>
        ms_grounded m \<noteq> None \<and> ms_failure_code m = None \<and> ms_completed_at m \<noteq> None)"

definition ck_parent :: "message \<Rightarrow> bool" where
  "ck_parent m \<longleftrightarrow> (ms_kind m = Action_turn) = (ms_parent_message_id m \<noteq> None)"

definition ck_sequence :: "message \<Rightarrow> bool" where
  "ck_sequence m \<longleftrightarrow> ms_sequence m > 0"

end
