(* ===== verification/Document_Parser.thy ===== *)
theory Document_Parser
  imports Models
begin

text \<open>
  \<^verbatim>\<open>document_parser.py\<close>: \<open>build_chunks\<close> cuts the text of each page into overlapping windows,
  preferring to end a window at a blank in its second half. The digest of a chunk's content
  is a parameter (SHA-256 of the UTF-8 bytes).
\<close>

section \<open>Data and code\<close>

record parsed_page =
  pp_number :: int
  pp_text :: pystr

record parsed_document =
  pd_pages :: "parsed_page list"
  pd_parser_version :: pystr

record parsed_chunk =
  pc_page :: int
  pc_ordinal :: nat
  pc_content :: pystr
  pc_content_hash :: pystr

text \<open>The end of the window that begins at \<open>start\<close>.\<close>

definition window_end :: "nat \<Rightarrow> pystr \<Rightarrow> nat \<Rightarrow> nat" where
  "window_end sz text start =
     (let proposed_end = min (start + sz) (length text) in
      if proposed_end < length text
      then (case rfind_char 32 text (start + sz div 2) proposed_end of
              None \<Rightarrow> proposed_end
            | Some break_at \<Rightarrow> if break_at > start then break_at else proposed_end)
      else proposed_end)"

text \<open>The \<open>while\<close> loop over one page; \<open>ordinal\<close> and \<open>chunks\<close> are the accumulators it shares
  with the loop over pages.\<close>

function page_loop ::
  "nat \<Rightarrow> nat \<Rightarrow> (pystr \<Rightarrow> pystr) \<Rightarrow> parsed_page \<Rightarrow> nat \<Rightarrow> nat \<times> parsed_chunk list \<Rightarrow>
   nat \<times> parsed_chunk list" where
  "page_loop sz ov digest page start (ordinal, chunks) =
     (if start < length (pp_text page) then
        let e = window_end sz (pp_text page) start;
            content = strip (slice (pp_text page) start e);
            acc = (if content \<noteq> []
                   then (Suc ordinal, chunks @ [\<lparr>pc_page = pp_number page, pc_ordinal = ordinal,
                           pc_content = content, pc_content_hash = digest content\<rparr>])
                   else (ordinal, chunks))
        in if e \<ge> length (pp_text page) then acc
           else page_loop sz ov digest page (max (e - ov) (start + 1)) acc
      else (ordinal, chunks))"
  by pat_completeness auto
termination
  by (relation "measure (\<lambda>(sz, ov, digest, page, start, acc). length (pp_text page) - start)")
     auto

declare page_loop.simps [simp del]

fun pages_loop ::
  "nat \<Rightarrow> nat \<Rightarrow> (pystr \<Rightarrow> pystr) \<Rightarrow> parsed_page list \<Rightarrow> nat \<times> parsed_chunk list \<Rightarrow>
   nat \<times> parsed_chunk list" where
  "pages_loop sz ov digest [] acc = acc"
| "pages_loop sz ov digest (page # pages) acc =
     pages_loop sz ov digest pages (page_loop sz ov digest page 0 acc)"

definition build_chunks ::
  "nat \<Rightarrow> nat \<Rightarrow> (pystr \<Rightarrow> pystr) \<Rightarrow> parsed_document \<Rightarrow>
   (exn, parsed_chunk list) result" where
  "build_chunks sz ov digest doc =
     (let chunks = snd (pages_loop sz ov digest (pd_pages doc) (0, []))
      in if chunks = []
         then Inl (DocumentProcessingFailure ''DOCUMENT_OCR_REQUIRED'' DV_OCR_REQUIRED)
         else Inr chunks)"

section \<open>The windows of a page\<close>

text \<open>The windows the loop visits, without the accumulators.\<close>

function windows :: "nat \<Rightarrow> nat \<Rightarrow> pystr \<Rightarrow> nat \<Rightarrow> (nat \<times> nat) list" where
  "windows sz ov text start =
     (if start < length text then
        let e = window_end sz text start in
        (start, e) # (if e \<ge> length text then []
                      else windows sz ov text (max (e - ov) (start + 1)))
      else [])"
  by pat_completeness auto
termination
  by (relation "measure (\<lambda>(sz, ov, text, start). length text - start)") auto

declare windows.simps [simp del]

definition contents_of :: "pystr \<Rightarrow> (nat \<times> nat) list \<Rightarrow> pystr list" where
  "contents_of text ws = filter (\<lambda>c. c \<noteq> []) (map (\<lambda>(i, j). strip (slice text i j)) ws)"

definition mk_chunk :: "(pystr \<Rightarrow> pystr) \<Rightarrow> nat \<Rightarrow> int \<times> pystr \<Rightarrow> parsed_chunk" where
  "mk_chunk digest k x =
     \<lparr>pc_page = fst x, pc_ordinal = k, pc_content = snd x, pc_content_hash = digest (snd x)\<rparr>"

fun number_chunks :: "(pystr \<Rightarrow> pystr) \<Rightarrow> nat \<Rightarrow> (int \<times> pystr) list \<Rightarrow> parsed_chunk list" where
  "number_chunks digest k [] = []"
| "number_chunks digest k (x # xs) = mk_chunk digest k x # number_chunks digest (Suc k) xs"

lemma length_number_chunks [simp]: "length (number_chunks digest k xs) = length xs"
  by (induction xs arbitrary: k) auto

lemma number_chunks_append:
  "number_chunks digest k (xs @ ys) =
     number_chunks digest k xs @ number_chunks digest (k + length xs) ys"
  by (induction xs arbitrary: k) auto

lemma nth_number_chunks:
  "i < length xs \<Longrightarrow> number_chunks digest k xs ! i = mk_chunk digest (k + i) (xs ! i)"
  by (induction xs arbitrary: k i) (auto simp: nth_Cons')

lemma window_end_le: "window_end sz text start \<le> max start (length text)"
  by (auto simp: window_end_def Let_def split: option.splits dest: rfind_char_Some)

lemma window_end_gt:
  assumes "start < length text" "0 < sz"
  shows "start < window_end sz text start"
  using assms by (auto simp: window_end_def Let_def split: option.splits)

lemma window_end_size: "window_end sz text start \<le> start + sz"
  using rfind_char_Some(2) by (fastforce simp: window_end_def Let_def split: option.splits)

lemma contents_of_Nil [simp]: "contents_of text [] = []"
  by (simp add: contents_of_def)

lemma contents_of_Cons:
  "contents_of text ((i, j) # ws) =
     (if strip (slice text i j) \<noteq> [] then strip (slice text i j) # contents_of text ws
      else contents_of text ws)"
  by (simp add: contents_of_def)

text \<open>The contents of a page, each with the number of the page.\<close>

definition page_contents :: "nat \<Rightarrow> nat \<Rightarrow> nat \<Rightarrow> parsed_page \<Rightarrow> (int \<times> pystr) list" where
  "page_contents sz ov start page =
     map (Pair (pp_number page)) (contents_of (pp_text page) (windows sz ov (pp_text page) start))"

text \<open>The accumulator-free reading of the loop: the chunks appended are the non-empty stripped
  windows, numbered from the ordinal the loop starts with.\<close>

lemma page_loop_windows:
  "page_loop sz ov digest page start (ordinal, chunks) =
     (ordinal + length (page_contents sz ov start page),
      chunks @ number_chunks digest ordinal (page_contents sz ov start page))"
proof (induction "length (pp_text page) - start" arbitrary: start ordinal chunks
    rule: less_induct)
  case less
  let ?text = "pp_text page"
  show ?case
  proof (cases "start < length ?text")
    case False
    then show ?thesis
      by (simp add: page_loop.simps [of sz ov digest page start]
          windows.simps [of sz ov ?text start] page_contents_def)
  next
    case True
    let ?e = "window_end sz ?text start"
    let ?n = "max (?e - ov) (start + 1)"
    have IH: "page_loop sz ov digest page ?n (o', c') =
      (o' + length (page_contents sz ov ?n page),
       c' @ number_chunks digest o' (page_contents sz ov ?n page))" for o' c'
      using True by (intro less.hyps) auto
    have pc: "page_contents sz ov start page =
      (if strip (slice ?text start ?e) \<noteq> [] then [(pp_number page, strip (slice ?text start ?e))]
       else []) @ (if ?e \<ge> length ?text then [] else page_contents sz ov ?n page)"
      using True by (simp add: page_contents_def windows.simps [of sz ov ?text start] Let_def
          contents_of_Cons)
    show ?thesis
      using True
      by (simp add: page_loop.simps [of sz ov digest page start] Let_def IH [simplified] pc
          mk_chunk_def)
  qed
qed

text \<open>The contents of a document in order.\<close>

definition document_contents :: "nat \<Rightarrow> nat \<Rightarrow> parsed_page list \<Rightarrow> (int \<times> pystr) list" where
  "document_contents sz ov pages = concat (map (page_contents sz ov 0) pages)"

lemma pages_loop_contents:
  "pages_loop sz ov digest pages (ordinal, chunks) =
     (ordinal + length (document_contents sz ov pages),
      chunks @ number_chunks digest ordinal (document_contents sz ov pages))"
  by (induction pages arbitrary: ordinal chunks)
     (simp_all add: document_contents_def page_loop_windows number_chunks_append)

lemma build_chunks_contents:
  "build_chunks sz ov digest doc =
     (let tagged = document_contents sz ov (pd_pages doc)
      in if tagged = []
         then Inl (DocumentProcessingFailure ''DOCUMENT_OCR_REQUIRED'' DV_OCR_REQUIRED)
         else Inr (number_chunks digest 0 tagged))"
proof -
  have "number_chunks digest 0 xs = [] \<longleftrightarrow> xs = []" for xs
    by (cases xs) auto
  then show ?thesis
    by (simp add: build_chunks_def pages_loop_contents Let_def)
qed


section \<open>Correctness\<close>

lemma windows_cover:
  assumes "0 < sz" "start \<le> i" "i < length text"
  shows "\<exists>(a, b) \<in> set (windows sz ov text start). a \<le> i \<and> i < b"
  using assms
proof (induction "length text - start" arbitrary: start rule: less_induct)
  case less
  let ?e = "window_end sz text start"
  have st: "start < length text" using less.prems by simp
  have gt: "start < ?e" using st less.prems(1) by (rule window_end_gt)
  show ?case
  proof (cases "i < ?e")
    case True
    then show ?thesis using st less.prems(2)
      by (simp add: windows.simps [of sz ov "text" start] Let_def)
  next
    case False
    then have "\<exists>(a, b) \<in> set (windows sz ov text (max (?e - ov) (start + 1))). a \<le> i \<and> i < b"
      using less.prems st gt by (intro less.hyps) auto
    then show ?thesis using st False less.prems(3)
      by (auto simp: windows.simps [of sz ov "text" start] Let_def)
  qed
qed

lemma windows_bounds:
  assumes "(a, b) \<in> set (windows sz ov text start)"
  shows "start \<le> a \<and> a < length text \<and> b \<le> length text \<and> b \<le> a + sz"
  using assms
proof (induction "length text - start" arbitrary: start rule: less_induct)
  case less
  let ?n = "max (window_end sz text start - ov) (start + 1)"
  have st: "start < length text"
    using less.prems by (auto simp: windows.simps [of sz ov "text" start] split: if_splits)
  with less.prems consider "a = start" "b = window_end sz text start"
    | "(a, b) \<in> set (windows sz ov text ?n)"
    by (auto simp: windows.simps [of sz ov "text" start] Let_def split: if_splits)
  then show ?case
  proof cases
    case 1
    with st show ?thesis
      using window_end_le [of sz "text" start] window_end_size [of sz "text" start] by simp
  next
    case 2
    then have "?n \<le> a \<and> a < length text \<and> b \<le> length text \<and> b \<le> a + sz"
      using st by (intro less.hyps) auto
    then show ?thesis by simp
  qed
qed

lemma in_contents_of:
  "c \<in> set (contents_of text ws) \<longleftrightarrow> c \<noteq> [] \<and> (\<exists>(a, b) \<in> set ws. c = strip (slice text a b))"
  by (auto simp: contents_of_def)

lemma in_document_contents:
  "(n, c) \<in> set (document_contents sz ov pages) \<longleftrightarrow>
     (\<exists>p \<in> set pages. n = pp_number p \<and> c \<noteq> [] \<and>
        (\<exists>(a, b) \<in> set (windows sz ov (pp_text p) 0). c = strip (slice (pp_text p) a b)))"
  by (fastforce simp: document_contents_def page_contents_def in_contents_of image_iff)

lemma build_chunks_Inr:
  assumes "build_chunks sz ov digest doc = Inr cs"
  shows "cs = number_chunks digest 0 (document_contents sz ov (pd_pages doc))"
  using assms by (simp add: build_chunks_contents Let_def split: if_splits)

lemma in_number_chunks:
  "c \<in> set (number_chunks digest k xs) \<Longrightarrow>
     (pc_page c, pc_content c) \<in> set xs \<and> pc_content_hash c = digest (pc_content c)"
  by (induction xs arbitrary: k) (auto simp: mk_chunk_def)

lemma in_number_chunks_conv:
  "(n, t) \<in> set xs \<Longrightarrow> \<exists>c \<in> set (number_chunks digest k xs). pc_page c = n \<and> pc_content c = t"
  by (induction xs arbitrary: k) (auto simp: mk_chunk_def)

lemma ordinals_number_chunks:
  "map pc_ordinal (number_chunks digest k xs) = [k..<k + length xs]"
proof (induction xs arbitrary: k)
  case Nil
  show ?case by simp
next
  case (Cons x xs)
  have "[k..<k + length (x # xs)] = k # [Suc k..<Suc k + length xs]"
    by (simp add: upt_conv_Cons del: upt_Suc)
  with Cons [of "Suc k"] show ?case by (simp add: mk_chunk_def del: upt_Suc)
qed

text \<open>A character that is not a blank lies inside the stripped slice that contains it.\<close>

lemma strip_slice_position:
  assumes "a \<le> i" "i < b" "i < length text" "\<not> is_space (text ! i)"
  shows "\<exists>off. off \<le> i \<and> i < off + length (strip (slice text a b)) \<and>
           take (length (strip (slice text a b))) (drop off text) = strip (slice text a b)"
proof -
  let ?s = "slice text a b"
  obtain l r where d: "?s = l @ strip ?s @ r" and l: "list_all is_space l"
    and r: "list_all is_space r" by (rule strip_decompose)
  have pos: "i - a < length ?s" using assms by auto
  then have ch: "?s ! (i - a) = text ! i" using assms(1) by (simp add: nth_slice)
  have 1: "\<not> i - a < length l"
  proof
    assume "i - a < length l"
    then have "?s ! (i - a) \<in> set l" by (subst d) (simp add: nth_append)
    with ch l assms(4) show False by (auto simp: list_all_iff)
  qed
  have 2: "i - a < length l + length (strip ?s)"
  proof (rule ccontr)
    assume h: "\<not> i - a < length l + length (strip ?s)"
    have len: "length ?s = length l + length (strip ?s) + length r"
      using arg_cong [OF d, of length] by simp
    have "?s ! (i - a) = ((l @ strip ?s) @ r) ! (i - a)" using d by simp
    also have "\<dots> = r ! (i - a - length (l @ strip ?s))"
      using h by (subst nth_append) simp
    also have "\<dots> \<in> set r"
    proof (rule nth_mem)
      show "i - a - length (l @ strip ?s) < length r" using pos h len unfolding length_append by arith
    qed
    finally show False using ch r assms(4) by (auto simp: list_all_iff)
  qed
  have "drop (length l) (take (b - a) (drop a text)) = strip ?s @ r"
    using d by (metis append_eq_conv_conj slice_def)
  then have "take (b - a - length l) (drop (a + length l) text) = strip ?s @ r"
    by (simp add: drop_take add.commute)
  then have "take (length (strip ?s)) (take (b - a - length l) (drop (a + length l) text)) = strip ?s"
    by simp
  moreover have "length (strip ?s) \<le> b - a - length l"
  proof -
    have "length l + length (strip ?s) \<le> length ?s" using arg_cong [OF d, of length] by simp
    then show ?thesis unfolding length_slice by arith
  qed
  ultimately have "take (length (strip ?s)) (drop (a + length l) text) = strip ?s"
    by (simp add: min_def)
  then show ?thesis using 1 2 assms(1) by (intro exI [of _ "a + length l"]) auto
qed


text \<open>C40: chunking loses no text. With a positive chunk size, every non-blank character of every
  page lies in a chunk of that page that contains it verbatim: the content of the chunk is
  the text of the page from some offset on, and it spans the position of the character.\<close>

theorem build_chunks_covers:
  assumes "0 < sz" "build_chunks sz ov digest doc = Inr cs" "p \<in> set (pd_pages doc)"
    "i < length (pp_text p)" "\<not> is_space (pp_text p ! i)"
  shows "\<exists>c \<in> set cs. pc_page c = pp_number p \<and>
     (\<exists>off. off \<le> i \<and> i < off + length (pc_content c) \<and>
        take (length (pc_content c)) (drop off (pp_text p)) = pc_content c)"
proof -
  obtain a b where ab: "(a, b) \<in> set (windows sz ov (pp_text p) 0)" "a \<le> i" "i < b"
    using windows_cover [OF assms(1) _ assms(4), of 0 ov] by auto
  let ?c = "strip (slice (pp_text p) a b)"
  obtain off where off: "off \<le> i" "i < off + length ?c"
      "take (length ?c) (drop off (pp_text p)) = ?c"
    using strip_slice_position [OF ab(2,3) assms(4,5)] by blast
  then have "?c \<noteq> []" by auto
  then have "(pp_number p, ?c) \<in> set (document_contents sz ov (pd_pages doc))"
    using ab(1) assms(3) by (auto simp: in_document_contents)
  then obtain c where "c \<in> set cs" "pc_page c = pp_number p" "pc_content c = ?c"
    using in_number_chunks_conv build_chunks_Inr [OF assms(2)] by blast
  with off show ?thesis by metis
qed

definition sample_document :: parsed_document where
  "sample_document = \<lparr>pd_pages = [\<lparr>pp_number = 1, pp_text = [97, 98, 32, 99, 100, 32, 101, 102]\<rparr>,
     \<lparr>pp_number = 2, pp_text = []\<rparr>], pd_parser_version = []\<rparr>"

lemma sample_document_chunks:
  "build_chunks 6 2 id sample_document =
     Inr [mk_chunk id 0 (1, [97, 98, 32, 99, 100]), mk_chunk id 1 (1, [99, 100, 32, 101, 102])]"
  by (simp add: build_chunks_def sample_document_def page_loop.simps window_end_def
      rfind_char_def slice_def strip_def is_space_def Let_def mk_chunk_def)

theorem build_chunks_covers_witness:
  "\<exists>c \<in> {mk_chunk id 0 (1, [97, 98, 32, 99, 100]), mk_chunk id 1 (1, [99, 100, 32, 101, 102])}.
     pc_page c = 1 \<and> (\<exists>off. off \<le> 7 \<and> 7 < off + length (pc_content c) \<and>
        take (length (pc_content c)) (drop off [97, 98, 32, 99, 100, 32, 101, 102]) = pc_content c)"
  using build_chunks_covers [of 6 2 id sample_document _
      "\<lparr>pp_number = 1, pp_text = [97, 98, 32, 99, 100, 32, 101, 102]\<rparr>" 7,
      OF _ sample_document_chunks]
  by (simp add: sample_document_def is_space_def)

text \<open>Every chunk is well formed. Its content is not empty, has at most the chunk size many
  characters, no blank at either end, occurs verbatim in a page with the chunk's page number,
  and its hash is the digest of that content; the ordinals count from 0 without gaps.\<close>

lemma build_chunks_wellformed:
  assumes "build_chunks sz ov digest doc = Inr cs"
  shows "map pc_ordinal cs = [0..<length cs] \<and>
     (\<forall>c \<in> set cs. pc_content c \<noteq> [] \<and> length (pc_content c) \<le> sz \<and>
          strip (pc_content c) = pc_content c \<and> pc_content_hash c = digest (pc_content c) \<and>
          (\<exists>p \<in> set (pd_pages doc). pc_page c = pp_number p \<and>
             sublist (pc_content c) (pp_text p)))"
proof
  note cs = build_chunks_Inr [OF assms]
  show "map pc_ordinal cs = [0..<length cs]"
    by (simp add: cs ordinals_number_chunks)
  show "\<forall>c \<in> set cs. pc_content c \<noteq> [] \<and> length (pc_content c) \<le> sz \<and>
          strip (pc_content c) = pc_content c \<and> pc_content_hash c = digest (pc_content c) \<and>
          (\<exists>p \<in> set (pd_pages doc). pc_page c = pp_number p \<and>
             sublist (pc_content c) (pp_text p))"
  proof
    fix c assume "c \<in> set cs"
    then have h: "pc_content_hash c = digest (pc_content c)"
      and "(pc_page c, pc_content c) \<in> set (document_contents sz ov (pd_pages doc))"
      using in_number_chunks cs by blast+
    then obtain p a b where p: "p \<in> set (pd_pages doc)" "pc_page c = pp_number p"
        "pc_content c \<noteq> []" "(a, b) \<in> set (windows sz ov (pp_text p) 0)"
        "pc_content c = strip (slice (pp_text p) a b)"
      by (auto simp: in_document_contents)
    have "length (pc_content c) \<le> length (slice (pp_text p) a b)"
      using strip_length p(5) by metis
    then have "length (pc_content c) \<le> sz"
      using windows_bounds [OF p(4)] unfolding length_slice by arith
    moreover have "sublist (pc_content c) (pp_text p)"
      using p(5) strip_sublist last_slice_of by (metis sublist_order.order_trans)
    ultimately show "pc_content c \<noteq> [] \<and> length (pc_content c) \<le> sz \<and>
          strip (pc_content c) = pc_content c \<and> pc_content_hash c = digest (pc_content c) \<and>
          (\<exists>p \<in> set (pd_pages doc). pc_page c = pp_number p \<and>
             sublist (pc_content c) (pp_text p))"
      using p h by auto
  qed
qed

lemma ocr_required_iff:
  assumes "0 < sz"
  shows "build_chunks sz ov digest doc =
       Inl (DocumentProcessingFailure ''DOCUMENT_OCR_REQUIRED'' DV_OCR_REQUIRED)
     \<longleftrightarrow> (\<forall>p \<in> set (pd_pages doc). \<forall>c \<in> set (pp_text p). is_space c)"
    (is "?ocr \<longleftrightarrow> ?blank")
proof
  assume ?ocr
  then have e: "document_contents sz ov (pd_pages doc) = []"
    by (simp add: build_chunks_contents Let_def split: if_splits)
  show ?blank
  proof (intro ballI, rule ccontr)
    fix p c assume p: "p \<in> set (pd_pages doc)" "c \<in> set (pp_text p)" "\<not> is_space c"
    then obtain i where i: "i < length (pp_text p)" "pp_text p ! i = c"
      by (auto simp: in_set_conv_nth)
    obtain a b where ab: "(a, b) \<in> set (windows sz ov (pp_text p) 0)" "a \<le> i" "i < b"
      using windows_cover [OF assms _ i(1), of 0 ov] by auto
    have "strip (slice (pp_text p) a b) \<noteq> []"
      using strip_slice_position [OF ab(2,3) i(1)] p(3) i(2) by auto
    then have "(pp_number p, strip (slice (pp_text p) a b))
        \<in> set (document_contents sz ov (pd_pages doc))"
      using ab(1) p(1) by (auto simp: in_document_contents)
    with e show False by simp
  qed
next
  assume b: ?blank
  have "document_contents sz ov (pd_pages doc) = []"
  proof (rule ccontr)
    assume "document_contents sz ov (pd_pages doc) \<noteq> []"
    then obtain n c where "(n, c) \<in> set (document_contents sz ov (pd_pages doc))"
      by (metis list.set_intros(1) neq_Nil_conv surj_pair)
    then obtain p a b where "p \<in> set (pd_pages doc)" "c \<noteq> []"
        and c: "c = strip (slice (pp_text p) a b)"
      by (auto simp: in_document_contents)
    moreover have "set c \<subseteq> set (pp_text p)"
      unfolding c using strip_sublist last_slice_of
      by (metis set_mono_sublist sublist_order.order_trans)
    ultimately have "list_all is_space c" using b by (auto simp: list_all_iff)
    then have "strip c = []" by (simp add: strip_Nil_iff)
    with c \<open>c \<noteq> []\<close> show False by simp
  qed
  then show ?ocr by (simp add: build_chunks_contents)
qed

text \<open>A document needs OCR exactly when it has no text. With a positive chunk size,
  \<open>build_chunks\<close> fails if and only if every page is blank, and then with the code
  DOCUMENT_OCR_REQUIRED and the state OCR_REQUIRED.\<close>

lemma build_chunks_ocr_required:
  assumes "0 < sz"
  shows "build_chunks sz ov digest doc =
       Inl (DocumentProcessingFailure ''DOCUMENT_OCR_REQUIRED'' DV_OCR_REQUIRED)
     \<longleftrightarrow> (\<forall>p \<in> set (pd_pages doc). \<forall>c \<in> set (pp_text p). is_space c)"
  by (rule ocr_required_iff [OF assms])

end
