(* ===== verification/Uuid.thy ===== *)
theory Uuid
  imports Models
begin

text \<open>
  The parts of Python's \<^verbatim>\<open>uuid\<close> module and of \<open>int(s, 16)\<close> on which the job envelope and the
  HTTP layer rely: \<open>str(UUID)\<close> and \<open>UUID(str)\<close>, with every input the constructor accepts.
  The decimal digits beyond ASCII are a table of the interpreter (\<open>decimal\<close>).
\<close>

section \<open>String helpers\<close>

function py_replace :: "pystr \<Rightarrow> pystr \<Rightarrow> pystr \<Rightarrow> pystr" where
  "py_replace pat rep s =
     (if pat = [] \<or> s = [] then s
      else if prefix pat s then rep @ py_replace pat rep (drop (length pat) s)
      else hd s # py_replace pat rep (tl s))"
  by pat_completeness auto
termination
  by (relation "measure (\<lambda>(pat, rep, s). length s)") (auto simp: neq_Nil_conv)

declare py_replace.simps [simp del]

lemma py_replace_absent: "c \<in> set pat \<Longrightarrow> c \<notin> set s \<Longrightarrow> py_replace pat rep s = s"
proof (induction s)
  case Nil
  show ?case by (simp add: py_replace.simps)
next
  case (Cons x xs)
  then have "\<not> prefix pat (x # xs)" by (meson set_mono_prefix subsetD)
  with Cons show ?case by (auto simp: py_replace.simps [of pat rep "x # xs"])
qed

lemma py_replace_char: "py_replace [c] [] s = filter (\<lambda>x. x \<noteq> c) s"
  by (induction s) (auto simp: py_replace.simps)

definition strip_chars :: "nat list \<Rightarrow> pystr \<Rightarrow> pystr" where
  "strip_chars cs s =
     rev (dropWhile (\<lambda>c. c \<in> set cs) (rev (dropWhile (\<lambda>c. c \<in> set cs) s)))"

lemma strip_chars_absent: "set cs \<inter> set s = {} \<Longrightarrow> strip_chars cs s = s"
proof -
  assume a: "set cs \<inter> set s = {}"
  have "dropWhile (\<lambda>c. c \<in> set cs) t = t" if "set t \<subseteq> set s" for t
    using that a by (cases t) auto
  then show ?thesis by (simp add: strip_chars_def)
qed

section \<open>Hexadecimal numbers\<close>

definition hex_char :: "nat \<Rightarrow> nat" where
  "hex_char d = (if d < 10 then 48 + d else 87 + d)"

definition hex_value :: "(nat \<Rightarrow> nat option) \<Rightarrow> nat \<Rightarrow> nat option" where
  "hex_value decimal c =
     (if 48 \<le> c \<and> c \<le> 57 then Some (c - 48)
      else if 97 \<le> c \<and> c \<le> 102 then Some (c - 87)
      else if 65 \<le> c \<and> c \<le> 70 then Some (c - 55)
      else if c < 128 then None else decimal c)"

text \<open>The digits of \<open>int(s, 16)\<close> after sign and prefix: single underscores may stand between
  digits; \<open>None\<close> is the \<open>ValueError\<close>.\<close>

fun hex_digits_value :: "(nat \<Rightarrow> nat option) \<Rightarrow> nat \<Rightarrow> pystr \<Rightarrow> nat option" where
  "hex_digits_value decimal acc [] = Some acc"
| "hex_digits_value decimal acc (c # cs) =
     (if c = 95
      then (case cs of [] \<Rightarrow> None | d # ds \<Rightarrow>
              (case hex_value decimal d of None \<Rightarrow> None
                 | Some v \<Rightarrow> hex_digits_value decimal (16 * acc + v) ds))
      else (case hex_value decimal c of None \<Rightarrow> None
              | Some v \<Rightarrow> hex_digits_value decimal (16 * acc + v) cs))"

definition py_int16 :: "(nat \<Rightarrow> nat option) \<Rightarrow> pystr \<Rightarrow> int option" where
  "py_int16 decimal s =
     (let t = strip s;
          neg = (t \<noteq> [] \<and> hd t = 45);
          u = (if t \<noteq> [] \<and> (hd t = 45 \<or> hd t = 43) then tl t else t);
          prefixed = (length u > 1 \<and> u ! 0 = 48 \<and> (u ! 1 = 120 \<or> u ! 1 = 88));
          v = (if prefixed then (if length u > 2 \<and> u ! 2 = 95 then drop 3 u else drop 2 u) else u)
      in if v = [] \<or> hd v = 95 then None
         else map_option (\<lambda>n. if neg then - int n else int n) (hex_digits_value decimal 0 v))"

fun hex_digits :: "nat \<Rightarrow> nat \<Rightarrow> pystr" where
  "hex_digits 0 n = []"
| "hex_digits (Suc k) n = hex_digits k (n div 16) @ [hex_char (n mod 16)]"

section \<open>UUIDs\<close>

definition uuid_str :: "uuid \<Rightarrow> pystr" where
  "uuid_str u =
     (let h = hex_digits 32 (unat u) in
      slice h 0 8 @ [45] @ slice h 8 12 @ [45] @ slice h 12 16 @ [45] @
      slice h 16 20 @ [45] @ slice h 20 32)"

definition uuid_parse :: "(nat \<Rightarrow> nat option) \<Rightarrow> pystr \<Rightarrow> (exn, uuid) result" where
  "uuid_parse decimal s =
     (let h = py_replace (py ''uuid:'') [] (py_replace (py ''urn:'') [] s);
          h' = py_replace [45] [] (strip_chars [123, 125] h)
      in if length h' \<noteq> 32 then Inl (ValueError ''badly formed hexadecimal UUID string'')
         else (case py_int16 decimal h' of
                 None \<Rightarrow> Inl (ValueError ''invalid literal for int()'')
               | Some n \<Rightarrow> if 0 \<le> n \<and> n < 2 ^ 128 then Inr (of_int n)
                           else Inl (ValueError ''int is out of range'')))"

lemma length_hex_digits [simp]: "length (hex_digits k n) = k"
  by (induction k arbitrary: n) auto

lemma hex_digits_chars:
  "c \<in> set (hex_digits k n) \<Longrightarrow> (48 \<le> c \<and> c \<le> 57) \<or> (97 \<le> c \<and> c \<le> 102)"
proof (induction k arbitrary: n)
  case 0
  then show ?case by simp
next
  case (Suc k)
  have "n mod 16 < 16" by simp
  with Suc show ?case by (auto simp: hex_char_def split: if_splits)
qed

lemma hex_value_char: "d < 16 \<Longrightarrow> hex_value decimal (hex_char d) = Some d"
  by (auto simp: hex_value_def hex_char_def)

lemma hex_digits_value_append:
  assumes "\<forall>c \<in> set xs. c \<noteq> 95"
  shows "hex_digits_value decimal acc (xs @ ys) =
     (case hex_digits_value decimal acc xs of None \<Rightarrow> None
        | Some v \<Rightarrow> hex_digits_value decimal v ys)"
  using assms by (induction xs arbitrary: acc) (auto split: option.splits)

lemma hex_digits_value_digits:
  "hex_digits_value decimal acc (hex_digits k n) = Some (acc * 16 ^ k + n mod 16 ^ k)"
proof (induction k arbitrary: n)
  case 0
  show ?case by simp
next
  case (Suc k)
  have nu: "\<forall>c \<in> set (hex_digits k (n div 16)). c \<noteq> 95"
    using hex_digits_chars by fastforce
  have c95: "hex_char (n mod 16) \<noteq> 95" by (auto simp: hex_char_def)
  have "n mod 16 ^ Suc k = 16 * (n div 16 mod 16 ^ k) + n mod 16"
    by (simp add: mod_mult2_eq)
  then show ?case
    by (simp add: hex_digits_value_append [OF nu] Suc.IH hex_value_char c95 algebra_simps)
qed

lemma slice_append: "i \<le> j \<Longrightarrow> j \<le> k \<Longrightarrow> slice s i j @ slice s j k = slice s i k"
proof -
  assume "i \<le> j" "j \<le> k"
  then have "take (k - i) (drop i s) = take (j - i) (drop i s) @ take (k - j) (drop j s)"
    using take_add [of "j - i" "k - j" "drop i s"] by simp
  then show ?thesis by (simp add: slice_def)
qed

lemma uuid_slices:
  assumes "length h = 32"
  shows "slice h 0 8 @ slice h 8 12 @ slice h 12 16 @ slice h 16 20 @ slice h 20 32 = h"
proof -
  have 1: "slice h 16 20 @ slice h 20 32 = slice h 16 32" by (rule slice_append) simp_all
  have 2: "slice h 12 16 @ slice h 16 32 = slice h 12 32" by (rule slice_append) simp_all
  have 3: "slice h 8 12 @ slice h 12 32 = slice h 8 32" by (rule slice_append) simp_all
  have 4: "slice h 0 8 @ slice h 8 32 = slice h 0 32" by (rule slice_append) simp_all
  have "slice h 0 32 = h" using assms by (simp add: slice_def)
  then show ?thesis by (simp only: 1 2 3 4)
qed

lemma uuid_str_hex: "filter (\<lambda>x. x \<noteq> 45) (uuid_str u) = hex_digits 32 (unat u)"
proof -
  define h where "h = hex_digits 32 (unat u)"
  have "filter (\<lambda>x. x \<noteq> 45) (slice h i j) = slice h i j" for i j
  proof (rule filter_True, rule ballI)
    fix x assume "x \<in> set (slice h i j)"
    then have "x \<in> set h" by (auto simp: slice_def dest: in_set_takeD in_set_dropD)
    then show "x \<noteq> 45" using hex_digits_chars [of x 32 "unat u"] by (auto simp: h_def)
  qed
  then have "filter (\<lambda>x. x \<noteq> 45) (uuid_str u) =
      slice h 0 8 @ slice h 8 12 @ slice h 12 16 @ slice h 16 20 @ slice h 20 32"
    by (simp add: uuid_str_def Let_def flip: h_def)
  also have "\<dots> = h" by (rule uuid_slices) (simp add: h_def)
  finally show ?thesis by (simp add: h_def)
qed

lemma uuid_str_chars: "c \<in> set (uuid_str u) \<Longrightarrow> c = 45 \<or> (48 \<le> c \<and> c \<le> 57) \<or> (97 \<le> c \<and> c \<le> 102)"
  using hex_digits_chars [of c 32 "unat u"]
  by (auto simp: uuid_str_def Let_def slice_def dest!: in_set_takeD in_set_dropD)

lemma length_uuid_str: "length (uuid_str u) = 36"
  by (simp add: uuid_str_def Let_def)

lemma uuid_parse_str: "uuid_parse decimal (uuid_str u) = Inr u"
proof -
  let ?h = "hex_digits 32 (unat u)"
  have urn: "py_replace (py ''urn:'') [] (uuid_str u) = uuid_str u"
    using uuid_str_chars [of 58 u] by (intro py_replace_absent [of 58]) (auto simp: py_def)
  have uuid: "py_replace (py ''uuid:'') [] (uuid_str u) = uuid_str u"
    using uuid_str_chars [of 58 u] by (intro py_replace_absent [of 58]) (auto simp: py_def)
  have br: "strip_chars [123, 125] (uuid_str u) = uuid_str u"
    using uuid_str_chars [of _ u] by (intro strip_chars_absent) fastforce
  have ch: "(48 \<le> c \<and> c \<le> 57) \<or> (97 \<le> c \<and> c \<le> 102)" if "c \<in> set ?h" for c
    using that by (rule hex_digits_chars)
  have ne: "?h \<noteq> []" using length_hex_digits [of 32 "unat u"] by (metis list.size(3) zero_neq_numeral)
  have hd: "hd ?h \<in> set ?h" and last: "last ?h \<in> set ?h" using ne by auto
  have st: "strip ?h = ?h"
    using ch [OF hd] ch [OF last] by (intro strip_id) (auto simp: is_space_def)
  have one: "?h ! 1 \<in> set ?h" by (rule nth_mem) simp
  have h1: "hd ?h \<noteq> 45" "hd ?h \<noteq> 43" "hd ?h \<noteq> 95" using ch [OF hd] by auto
  have h2: "?h ! 1 \<noteq> 120" "?h ! 1 \<noteq> 88" using ch [OF one] by auto
  have bound: "unat u < 16 ^ 32"
    using unsigned_less [of u] by simp
  have val: "hex_digits_value decimal 0 ?h = Some (unat u)"
    using bound by (simp add: hex_digits_value_digits)
  have "py_int16 decimal ?h = Some (int (unat u))"
    unfolding py_int16_def st Let_def by (simp only: h1 h2 ne val simp_thms if_False if_True
        option.map)
  moreover have "py_replace [45] [] (uuid_str u) = ?h"
    by (simp add: py_replace_char uuid_str_hex)
  moreover have "int (unat u) < 2 ^ 128"
    using unsigned_less [of u] by simp
  ultimately show ?thesis
    by (simp add: uuid_parse_def Let_def urn uuid br)
qed

end
