(* ===== verification/Jobs.thy ===== *)
theory Jobs
  imports Uuid "HOL-Library.Product_Lexorder"
begin

text \<open>
  \<^verbatim>\<open>jobs.py\<close>: the transactional outbox. Dispatching a job and recording a dead letter insert at
  most one event per job and kind; the relay leases a due event, publishes it outside any
  transaction and confirms it; reconciliation makes stale deliveries of unfinished jobs due
  again. \<open>isoformat\<close> is a parameter (\<open>datetime.isoformat\<close>). The locale \<open>job_dispatcher\<close> is
  the protocol \<open>JobDispatcher\<close> as the document service relies on it.
\<close>

section \<open>Dispatch, retry and dead letters\<close>

text \<open>\<open>INSERT INTO outbox_events ... ON CONFLICT ON CONSTRAINT uq_outbox_job_kind DO NOTHING\<close>; the
  foreign key needs the job row, the primary key a new identifier.\<close>

definition new_event :: "uuid \<Rightarrow> time \<Rightarrow> outbox_kind \<Rightarrow> ingestion_job \<Rightarrow> outbox_event" where
  "new_event eid now kind job =
     \<lparr>oe_id = eid, oe_course_id = ij_course_id job, oe_job_id = ij_id job, oe_kind = kind,
      oe_available_at = now, oe_created_at = now, oe_published_at = None,
      oe_publish_token = None, oe_publish_lease_until = None\<rparr>"

definition insert_event ::
  "uuid \<Rightarrow> time \<Rightarrow> outbox_kind \<Rightarrow> ingestion_job \<Rightarrow> db \<Rightarrow> (exn, db) result" where
  "insert_event eid now kind job s =
     (if exists_where (\<lambda>e. oe_job_id e = ij_id job \<and> oe_kind e = kind) (t_outbox s) then Inr s
      else if exists_where (\<lambda>e. oe_id e = eid) (t_outbox s) then Inl IntegrityError
      else if \<not> exists_where (\<lambda>j. ij_id j = ij_id job \<and> ij_course_id j = ij_course_id job) (t_jobs s)
        then Inl IntegrityError
      else Inr (s\<lparr>t_outbox := t_outbox s @ [new_event eid now kind job]\<rparr>))"

definition outbox_dispatch :: "uuid \<Rightarrow> time \<Rightarrow> ingestion_job \<Rightarrow> db \<Rightarrow> (exn, db) result" where
  "outbox_dispatch eid now job s = insert_event eid now Ingestion_event job s"

definition schedule_retry :: "ingestion_job \<Rightarrow> time \<Rightarrow> db \<Rightarrow> db" where
  "schedule_retry job available_at s =
     s\<lparr>t_outbox := update_where (\<lambda>e. oe_job_id e = ij_id job \<and> oe_kind e = Ingestion_event)
         (\<lambda>e. e\<lparr>oe_available_at := available_at, oe_published_at := None,
                oe_publish_token := None, oe_publish_lease_until := None\<rparr>) (t_outbox s)\<rparr>"

definition record_dead_letter :: "uuid \<Rightarrow> time \<Rightarrow> ingestion_job \<Rightarrow> db \<Rightarrow> (exn, db) result" where
  "record_dead_letter eid now job s = insert_event eid now Dead_event job s"

section \<open>Envelopes\<close>

record job_envelope =
  je_event_id :: uuid
  je_job_id :: uuid
  je_course_id :: uuid
  je_document_version_id :: uuid
  je_pipeline_version :: pystr
  je_correlation_id :: pystr
  je_created_at :: pystr

text \<open>A dictionary of strings: its entries in insertion order, the keys distinct.\<close>

type_synonym fields = "(string \<times> pystr) list"

definition envelope_fields :: "job_envelope \<Rightarrow> fields" where
  "envelope_fields e =
     [(''schema_version'', py ''1''),
      (''event_id'', uuid_str (je_event_id e)),
      (''job_id'', uuid_str (je_job_id e)),
      (''course_id'', uuid_str (je_course_id e)),
      (''document_version_id'', uuid_str (je_document_version_id e)),
      (''pipeline_version'', je_pipeline_version e),
      (''correlation_id'', je_correlation_id e),
      (''created_at'', je_created_at e)]"

definition envelope_keys :: "string list" where
  "envelope_keys = [''schema_version'', ''event_id'', ''job_id'', ''course_id'',
     ''document_version_id'', ''pipeline_version'', ''correlation_id'', ''created_at'']"

definition field :: "fields \<Rightarrow> string \<Rightarrow> pystr" where
  "field d k = (case map_of d k of Some v \<Rightarrow> v | None \<Rightarrow> [])"

definition envelope_parse ::
  "(nat \<Rightarrow> nat option) \<Rightarrow> fields \<Rightarrow> (exn, job_envelope) result" where
  "envelope_parse decimal d =
     (if set (map fst d) \<noteq> set envelope_keys \<or> field d ''schema_version'' \<noteq> py ''1''
      then Inl (ValueError ''invalid job envelope'')
      else if list_ex (\<lambda>(_, v). length v > 100) d
      then Inl (ValueError ''oversized job envelope'')
      else bindE (uuid_parse decimal (field d ''event_id'')) (\<lambda>event_id.
           bindE (uuid_parse decimal (field d ''job_id'')) (\<lambda>job_id.
           bindE (uuid_parse decimal (field d ''course_id'')) (\<lambda>course_id.
           bindE (uuid_parse decimal (field d ''document_version_id'')) (\<lambda>document_version_id.
             Inr \<lparr>je_event_id = event_id, je_job_id = job_id, je_course_id = course_id,
                  je_document_version_id = document_version_id,
                  je_pipeline_version = field d ''pipeline_version'',
                  je_correlation_id = field d ''correlation_id'',
                  je_created_at = field d ''created_at''\<rparr>)))))"

definition envelope_for ::
  "(time \<Rightarrow> pystr) \<Rightarrow> outbox_event \<Rightarrow> ingestion_job \<Rightarrow> job_envelope" where
  "envelope_for isoformat event job =
     \<lparr>je_event_id = oe_id event, je_job_id = ij_id job, je_course_id = ij_course_id job,
      je_document_version_id = ij_document_version_id job,
      je_pipeline_version = ij_pipeline_version job,
      je_correlation_id = ij_correlation_id job,
      je_created_at = isoformat (oe_created_at event)\<rparr>"

section \<open>The relay\<close>

definition relay_due :: "time \<Rightarrow> outbox_event \<Rightarrow> bool" where
  "relay_due now e \<longleftrightarrow>
     oe_published_at e = None \<and> oe_available_at e \<le> now \<and>
     (case oe_publish_lease_until e of None \<Rightarrow> True | Some t \<Rightarrow> t \<le> now)"

definition relay_candidates :: "time \<Rightarrow> db \<Rightarrow> (outbox_event \<times> ingestion_job) list" where
  "relay_candidates now s =
     sort_key (\<lambda>(e, j). (oe_available_at e, oe_id e))
       [(e, j). e \<leftarrow> t_outbox s, j \<leftarrow> t_jobs s, ij_id j = oe_job_id e \<and> relay_due now e]"

definition relay_fields :: "outbox_kind \<Rightarrow> ingestion_job \<Rightarrow> job_envelope \<Rightarrow> fields" where
  "relay_fields kind job envelope =
     (if kind = Dead_event
      then envelope_fields envelope @
        [(''failure_code'', py (case ij_failure_code job of
             Some c \<Rightarrow> if c \<noteq> [] then c else ''DOCUMENT_PROCESSING_FAILED''
           | None \<Rightarrow> ''DOCUMENT_PROCESSING_FAILED'')),
         (''attempt'', dec_int (ij_attempt job))]
      else envelope_fields envelope)"

text \<open>The first transaction of \<open>publish_one\<close>.\<close>

definition relay_lease ::
  "(time \<Rightarrow> pystr) \<Rightarrow> uuid \<Rightarrow> time \<Rightarrow> db \<Rightarrow>
   (exn, (outbox_kind \<times> job_envelope \<times> fields) option \<times> db) result" where
  "relay_lease isoformat token now s =
     (case relay_candidates now s of
        [] \<Rightarrow> Inr (None, s)
      | (event, job) # _ \<Rightarrow>
          let envelope = envelope_for isoformat event job in
          Inr (Some (oe_kind event, envelope, relay_fields (oe_kind event) job envelope),
               s\<lparr>t_outbox := update_where (\<lambda>e. oe_id e = oe_id event)
                   (\<lambda>e. e\<lparr>oe_publish_token := Some token,
                          oe_publish_lease_until := Some (now + seconds 30)\<rparr>) (t_outbox s)\<rparr>))"

text \<open>The second transaction: it takes effect only for the holder of the token.\<close>

definition relay_confirm :: "uuid \<Rightarrow> uuid \<Rightarrow> time \<Rightarrow> db \<Rightarrow> db" where
  "relay_confirm token eid now s =
     s\<lparr>t_outbox := update_where (\<lambda>e. oe_id e = eid \<and> oe_publish_token e = Some token)
         (\<lambda>e. e\<lparr>oe_published_at := Some now, oe_publish_token := None,
                oe_publish_lease_until := None\<rparr>) (t_outbox s)\<rparr>"

text \<open>\<open>publish_one\<close> with the transport as a parameter: \<open>publish\<close> maps the transport's state to
  the next one or raises. \<open>now\<close> and \<open>now'\<close> are the clocks of the two transactions.\<close>

definition publish_one ::
  "(time \<Rightarrow> pystr) \<Rightarrow> (outbox_kind \<Rightarrow> fields \<Rightarrow> 't \<Rightarrow> (exn, 't) result) \<Rightarrow> uuid \<Rightarrow> time \<Rightarrow> time \<Rightarrow>
   db \<times> 't \<Rightarrow> (exn, bool) result \<times> db \<times> 't" where
  "publish_one isoformat publish token now now' st =
     (let (s, tr) = st in
      case session (relay_lease isoformat token now) s of
        (Inl err, s') \<Rightarrow> (Inl err, s', tr)
      | (Inr None, s') \<Rightarrow> (Inr False, s', tr)
      | (Inr (Some (kind, envelope, fs)), s') \<Rightarrow>
          (case publish kind fs tr of
             Inl err \<Rightarrow> (Inl err, s', tr)
           | Inr tr' \<Rightarrow> (Inr True, relay_confirm token (je_event_id envelope) now' s', tr')))"

text \<open>\<open>reconcile\<close> and its row count.\<close>

definition job_due :: "time \<Rightarrow> ingestion_job \<Rightarrow> bool" where
  "job_due now j \<longleftrightarrow>
     (ij_state j = JOB_PENDING \<and> ij_next_attempt_at j \<le> now) \<or>
     (ij_state j = JOB_RUNNING \<and>
        (case ij_lease_expires_at j of None \<Rightarrow> False | Some t \<Rightarrow> t \<le> now))"

definition stale_delivery :: "int \<Rightarrow> time \<Rightarrow> db \<Rightarrow> outbox_event \<Rightarrow> bool" where
  "stale_delivery stale_seconds now s e \<longleftrightarrow>
     oe_kind e = Ingestion_event \<and>
     oe_job_id e \<in> set (map ij_id (filter (job_due now) (t_jobs s))) \<and>
     (case oe_published_at e of None \<Rightarrow> False | Some t \<Rightarrow> t \<le> now - seconds stale_seconds)"

definition reconcile :: "int \<Rightarrow> time \<Rightarrow> db \<Rightarrow> nat \<times> db" where
  "reconcile stale_seconds now s =
     (count_where (stale_delivery stale_seconds now s) (t_outbox s),
      s\<lparr>t_outbox := update_where (stale_delivery stale_seconds now s)
          (\<lambda>e. e\<lparr>oe_published_at := None, oe_available_at := now, oe_publish_token := None,
                 oe_publish_lease_until := None\<rparr>) (t_outbox s)\<rparr>)"


section \<open>The outbox invariant and the dispatcher protocol\<close>

definition event_key :: "outbox_event \<Rightarrow> uuid \<times> outbox_kind" where
  "event_key e = (oe_job_id e, oe_kind e)"

text \<open>Primary key and \<open>uq_outbox_job_kind\<close>.\<close>

definition outbox_wf :: "db \<Rightarrow> bool" where
  "outbox_wf s \<longleftrightarrow> distinct (map oe_id (t_outbox s)) \<and> distinct (map event_key (t_outbox s))"

text \<open>What the document service relies on when it hands a job to a dispatcher: only the outbox
  changes, what was there stays, the job has its event afterwards, the keys stay unique.\<close>

locale job_dispatcher =
  fixes dispatch :: "uuid \<Rightarrow> time \<Rightarrow> ingestion_job \<Rightarrow> db \<Rightarrow> (exn, db) result"
  assumes dispatch_frame: "dispatch eid now j s = Inr s' \<Longrightarrow> s' = s\<lparr>t_outbox := t_outbox s'\<rparr>"
    and dispatch_event: "dispatch eid now j s = Inr s' \<Longrightarrow>
      \<exists>e \<in> set (t_outbox s'). oe_job_id e = ij_id j \<and> oe_kind e = Ingestion_event"
    and dispatch_keeps: "dispatch eid now j s = Inr s' \<Longrightarrow> set (t_outbox s) \<subseteq> set (t_outbox s')"
    and dispatch_wf: "dispatch eid now j s = Inr s' \<Longrightarrow> outbox_wf s \<Longrightarrow> outbox_wf s'"
begin

lemma dispatch_exactly_one:
  assumes "dispatch eid now j s = Inr s'" "outbox_wf s"
  shows "\<exists>!e. e \<in> set (t_outbox s') \<and> oe_job_id e = ij_id j \<and> oe_kind e = Ingestion_event"
proof -
  have "distinct (map event_key (t_outbox s'))"
    using dispatch_wf [OF assms] by (simp add: outbox_wf_def)
  then show ?thesis
    using dispatch_event [OF assms(1)] key_eqD [of event_key "t_outbox s'"]
    by (auto simp: event_key_def)
qed

end

lemma insert_event_Inr:
  assumes "insert_event eid now kind job s = Inr s'"
  obtains (present) "s' = s"
      "exists_where (\<lambda>e. oe_job_id e = ij_id job \<and> oe_kind e = kind) (t_outbox s)"
  | (inserted) "s' = s\<lparr>t_outbox := t_outbox s @ [new_event eid now kind job]\<rparr>"
      "\<not> exists_where (\<lambda>e. oe_job_id e = ij_id job \<and> oe_kind e = kind) (t_outbox s)"
      "\<not> exists_where (\<lambda>e. oe_id e = eid) (t_outbox s)"
  using assms by (auto simp: insert_event_def split: if_splits)

lemma insert_event_wf:
  assumes "insert_event eid now kind job s = Inr s'" "outbox_wf s"
  shows "outbox_wf s'"
  using assms(1)
proof (cases rule: insert_event_Inr)
  case present
  with assms(2) show ?thesis by simp
next
  case inserted
  with assms(2) show ?thesis
    by (auto simp: outbox_wf_def exists_where_iff new_event_def event_key_def)
qed

lemma insert_event_has:
  assumes "insert_event eid now kind job s = Inr s'"
  shows "\<exists>e \<in> set (t_outbox s'). oe_job_id e = ij_id job \<and> oe_kind e = kind"
  using assms by (cases rule: insert_event_Inr) (auto simp: exists_where_iff new_event_def)

lemma insert_event_frame:
  assumes "insert_event eid now kind job s = Inr s'"
  shows "s' = s\<lparr>t_outbox := t_outbox s'\<rparr>" "set (t_outbox s) \<subseteq> set (t_outbox s')"
  using assms by (cases rule: insert_event_Inr; auto)+

interpretation outbox: job_dispatcher outbox_dispatch
  by unfold_locales
    (auto simp: outbox_dispatch_def dest: insert_event_frame insert_event_has insert_event_wf)

lemma schedule_retry_wf: "outbox_wf s \<Longrightarrow> outbox_wf (schedule_retry job t s)"
  by (simp add: outbox_wf_def schedule_retry_def map_update_where event_key_def)

lemma relay_confirm_wf: "outbox_wf s \<Longrightarrow> outbox_wf (relay_confirm token eid now s)"
  by (simp add: outbox_wf_def relay_confirm_def map_update_where event_key_def)

lemma reconcile_wf: "outbox_wf s \<Longrightarrow> outbox_wf (snd (reconcile n now s))"
  by (simp add: outbox_wf_def reconcile_def map_update_where event_key_def)

lemma in_relay_candidates:
  "(e, j) \<in> set (relay_candidates now s) \<longleftrightarrow>
     e \<in> set (t_outbox s) \<and> j \<in> set (t_jobs s) \<and> ij_id j = oe_job_id e \<and> relay_due now e"
  by (auto simp: relay_candidates_def)

text \<open>The event a relay leases: due, and the first in the order of availability.\<close>

lemma relay_lease_Some:
  assumes "relay_lease fmt token now s = Inr (Some (kind, env, fs), s')"
  obtains e j where "e \<in> set (t_outbox s)" "j \<in> set (t_jobs s)" "ij_id j = oe_job_id e"
    "relay_due now e" "kind = oe_kind e" "env = envelope_for fmt e j"
    "fs = relay_fields kind j env"
    "\<And>e' j'. (e', j') \<in> set (relay_candidates now s) \<Longrightarrow>
        (oe_available_at e, oe_id e) \<le> (oe_available_at e', oe_id e')"
    "s' = s\<lparr>t_outbox := update_where (\<lambda>x. oe_id x = oe_id e)
        (\<lambda>x. x\<lparr>oe_publish_token := Some token,
               oe_publish_lease_until := Some (now + seconds 30)\<rparr>) (t_outbox s)\<rparr>"
proof -
  from assms obtain e j rest where c: "relay_candidates now s = (e, j) # rest"
    by (auto simp: relay_lease_def split: list.splits)
  have "(e, j) \<in> set (relay_candidates now s)" by (simp add: c)
  then have ej: "e \<in> set (t_outbox s)" "j \<in> set (t_jobs s)" "ij_id j = oe_job_id e" "relay_due now e"
    by (auto simp: in_relay_candidates)
  let ?key = "\<lambda>(e, j). (oe_available_at e, oe_id e)"
  have "sorted (map ?key (relay_candidates now s))"
    unfolding relay_candidates_def by (rule sorted_sort_key)
  then have min: "(oe_available_at e, oe_id e) \<le> (oe_available_at e', oe_id e')"
    if "(e', j') \<in> set (relay_candidates now s)" for e' j'
    using that c by (auto simp: less_eq_prod_def)
  have "kind = oe_kind e" "env = envelope_for fmt e j" "fs = relay_fields kind j env"
    "s' = s\<lparr>t_outbox := update_where (\<lambda>x. oe_id x = oe_id e)
        (\<lambda>x. x\<lparr>oe_publish_token := Some token,
               oe_publish_lease_until := Some (now + seconds 30)\<rparr>) (t_outbox s)\<rparr>"
    using assms c by (auto simp: relay_lease_def Let_def)
  then show ?thesis using min by (intro that [OF ej])
qed

lemma relay_lease_wf:
  assumes "relay_lease fmt token now s = Inr (r, s')" "outbox_wf s"
  shows "outbox_wf s'"
  using assms
  by (auto simp: relay_lease_def Let_def outbox_wf_def map_update_where event_key_def
      split: list.splits)

lemma map_of_envelope_fields [simp]:
  "field (envelope_fields e) ''schema_version'' = py ''1''"
  "field (envelope_fields e) ''event_id'' = uuid_str (je_event_id e)"
  "field (envelope_fields e) ''job_id'' = uuid_str (je_job_id e)"
  "field (envelope_fields e) ''course_id'' = uuid_str (je_course_id e)"
  "field (envelope_fields e) ''document_version_id'' = uuid_str (je_document_version_id e)"
  "field (envelope_fields e) ''pipeline_version'' = je_pipeline_version e"
  "field (envelope_fields e) ''correlation_id'' = je_correlation_id e"
  "field (envelope_fields e) ''created_at'' = je_created_at e"
  by (simp_all add: field_def envelope_fields_def)

section \<open>Correctness\<close>

text \<open>The envelope survives the transport. When the three free-text fields have at most 100
  characters, parsing the fields of an envelope gives the same envelope back.\<close>

lemma envelope_roundtrip:
  assumes "length (je_pipeline_version e) \<le> 100" "length (je_correlation_id e) \<le> 100"
    "length (je_created_at e) \<le> 100"
  shows "envelope_parse decimal (envelope_fields e) = Inr e"
proof -
  have keys: "fst ` set (envelope_fields e) = set envelope_keys"
    by (simp add: envelope_fields_def envelope_keys_def)
  have "\<not> list_ex (\<lambda>(_, v). length v > 100) (envelope_fields e)"
    using assms by (simp add: envelope_fields_def length_uuid_str)
  then show ?thesis by (simp add: envelope_parse_def keys uuid_parse_str)
qed

definition sample_envelope :: job_envelope where
  "sample_envelope = \<lparr>je_event_id = 1, je_job_id = 2, je_course_id = 3,
     je_document_version_id = 4, je_pipeline_version = py ''v1'', je_correlation_id = py ''c'',
     je_created_at = py ''2026-01-01''\<rparr>"

text \<open>A malformed envelope is refused: parsing succeeds only on dictionaries with exactly the
  eight keys, schema version 1 and no value longer than 100 characters.\<close>

lemma envelope_parse_strict:
  "envelope_parse decimal d = Inr e \<Longrightarrow>
     set (map fst d) = set envelope_keys \<and> field d ''schema_version'' = py ''1'' \<and>
     (\<forall>(k, v) \<in> set d. length v \<le> 100)"
  by (auto simp: envelope_parse_def list_ex_iff not_less split: if_splits)



text \<open>A database with one pending job and its two events, for the witnesses.\<close>

definition sample_job :: ingestion_job where
  "sample_job = \<lparr>ij_id = 2, ij_course_id = 3, ij_document_version_id = 4,
     ij_job_type = py ''ingestion'', ij_pipeline_version = py ''v1'', ij_state = JOB_PENDING,
     ij_attempt = 0, ij_fencing_token = 0, ij_correlation_id = py ''c'', ij_failure_code = None,
     ij_created_at = 0, ij_updated_at = 0, ij_completed_at = None, ij_lease_expires_at = None,
     ij_next_attempt_at = 0\<rparr>"

definition sample_db :: db where
  "sample_db = empty_db\<lparr>t_jobs := [sample_job],
     t_outbox := [new_event 1 0 Ingestion_event sample_job]\<rparr>"

definition sample_fmt :: "time \<Rightarrow> pystr" where
  "sample_fmt t = dec_int t"

definition sample_sent_envelope :: job_envelope where
  "sample_sent_envelope =
     envelope_for sample_fmt (new_event 1 0 Ingestion_event sample_job) sample_job"

definition sample_leased :: db where
  "sample_leased = sample_db\<lparr>t_outbox := [(new_event 1 0 Ingestion_event sample_job)
     \<lparr>oe_publish_token := Some 7, oe_publish_lease_until := Some (5 + seconds 30)\<rparr>]\<rparr>"

lemmas sample_simps = sample_job_def sample_db_def empty_db_def new_event_def sample_leased_def

lemma sample_relay_lease:
  "relay_lease sample_fmt 7 5 sample_db =
     Inr (Some (Ingestion_event, sample_sent_envelope, envelope_fields sample_sent_envelope),
          sample_leased)"
  by (simp add: relay_lease_def relay_candidates_def relay_due_def update_where_def Let_def
      relay_fields_def sample_sent_envelope_def sample_simps)

text \<open>A leased event is not handed to a second relay. While the 30-second lease of an event
  lasts and it is not confirmed, the next lease taken on the same database is of another
  event.\<close>

lemma relay_lease_exclusive:
  assumes "relay_lease fmt tok now s = Inr (Some (k, env, fs), s')"
    and "relay_lease fmt tok' now' s' = Inr (Some (k', env', fs'), s'')"
    and "now' < now + seconds 30"
  shows "je_event_id env' \<noteq> je_event_id env"
proof
  assume eq: "je_event_id env' = je_event_id env"
  obtain e j where e: "env = envelope_for fmt e j"
    "s' = s\<lparr>t_outbox := update_where (\<lambda>x. oe_id x = oe_id e)
        (\<lambda>x. x\<lparr>oe_publish_token := Some tok,
               oe_publish_lease_until := Some (now + seconds 30)\<rparr>) (t_outbox s)\<rparr>"
    using assms(1) by (rule relay_lease_Some)
  obtain e' j' where e': "e' \<in> set (t_outbox s')" "relay_due now' e'" "env' = envelope_for fmt e' j'"
    using assms(2) by (rule relay_lease_Some)
  have "oe_id e' = oe_id e" using eq e e' by (simp add: envelope_for_def)
  then have "oe_publish_lease_until e' = Some (now + seconds 30)"
    using e'(1) e(2) by (auto simp: set_update_where split: if_splits)
  with e'(2) assms(3) show False by (simp add: relay_due_def)
qed

definition sample_two :: db where
  "sample_two = sample_db\<lparr>t_outbox := [new_event 1 0 Ingestion_event sample_job,
     new_event 9 3 Dead_event sample_job]\<rparr>"

definition sample_two_leased :: db where
  "sample_two_leased = sample_db\<lparr>t_outbox := [(new_event 1 0 Ingestion_event sample_job)
     \<lparr>oe_publish_token := Some 7, oe_publish_lease_until := Some (5 + seconds 30)\<rparr>,
     new_event 9 3 Dead_event sample_job]\<rparr>"

lemma sample_two_first:
  "relay_lease sample_fmt 7 5 sample_two =
     Inr (Some (Ingestion_event, sample_sent_envelope, envelope_fields sample_sent_envelope),
          sample_two_leased)"
  by (simp add: relay_lease_def relay_candidates_def relay_due_def update_where_def Let_def
      relay_fields_def sample_sent_envelope_def sample_simps sample_two_def sample_two_leased_def
      less_eq_prod_def)

lemma sample_two_second:
  "\<exists>s. relay_lease sample_fmt 8 6 sample_two_leased =
     Inr (Some (Dead_event,
        envelope_for sample_fmt (new_event 9 3 Dead_event sample_job) sample_job,
        relay_fields Dead_event sample_job
          (envelope_for sample_fmt (new_event 9 3 Dead_event sample_job) sample_job)), s)"
  by (simp add: relay_lease_def relay_candidates_def relay_due_def update_where_def Let_def
      sample_simps sample_two_leased_def seconds_def)

text \<open>Confirmation is fenced. A relay whose token is no longer the one stored with the event
  changes nothing when it confirms.\<close>

lemma relay_confirm_stale:
  "\<forall>e \<in> set (t_outbox s). oe_id e = eid \<longrightarrow> oe_publish_token e \<noteq> Some tok \<Longrightarrow>
     relay_confirm tok eid now s = s"
  by (simp add: relay_confirm_def update_where_none)

text \<open>Delivery is at least once. When publishing raises after the lease was committed, the
  error is reported, the transport is unchanged and the event is due again as soon as the
  lease has expired.\<close>

lemma publish_failure_redelivers:
  assumes "relay_lease fmt tok now s = Inr (Some (k, env, fs), s1)"
    and "publish k fs tr = Inl err" and "now + seconds 30 \<le> t"
  shows "publish_one fmt publish tok now now' (s, tr) = (Inl err, s1, tr) \<and>
     (\<exists>(e, j) \<in> set (relay_candidates t s1). oe_id e = je_event_id env)"
proof
  show "publish_one fmt publish tok now now' (s, tr) = (Inl err, s1, tr)"
    using assms(1,2) by (simp add: publish_one_def)
  obtain e j where e: "e \<in> set (t_outbox s)" "j \<in> set (t_jobs s)" "ij_id j = oe_job_id e"
    "relay_due now e" "env = envelope_for fmt e j"
    "s1 = s\<lparr>t_outbox := update_where (\<lambda>x. oe_id x = oe_id e)
        (\<lambda>x. x\<lparr>oe_publish_token := Some tok,
               oe_publish_lease_until := Some (now + seconds 30)\<rparr>) (t_outbox s)\<rparr>"
    using assms(1) by (rule relay_lease_Some)
  let ?e = "e\<lparr>oe_publish_token := Some tok, oe_publish_lease_until := Some (now + seconds 30)\<rparr>"
  have "?e \<in> set (t_outbox s1)" using e by (auto simp: set_update_where)
  moreover have "relay_due t ?e"
    using e(4) assms(3) by (auto simp: relay_due_def seconds_def)
  ultimately have "(?e, j) \<in> set (relay_candidates t s1)"
    using e by (simp add: in_relay_candidates)
  then show "\<exists>(e, j) \<in> set (relay_candidates t s1). oe_id e = je_event_id env"
    using e(5) by (auto simp: envelope_for_def intro!: bexI [of _ "(?e, j)"])
qed

text \<open>A published event is not published again. When publishing succeeds, the event carries
  its publication time, is a candidate at no later time, and the transport received exactly
  the fields of its envelope.\<close>

lemma publish_success_final:
  assumes "relay_lease fmt tok now s = Inr (Some (k, env, fs), s1)"
    and "publish k fs tr = Inr tr'"
  shows "\<exists>s2. publish_one fmt publish tok now now' (s, tr) = (Inr True, s2, tr') \<and>
     (\<forall>t. \<forall>(e, j) \<in> set (relay_candidates t s2). oe_id e \<noteq> je_event_id env) \<and>
     (\<exists>e \<in> set (t_outbox s2). oe_id e = je_event_id env \<and> oe_published_at e = Some now')"
proof -
  obtain e j where e: "e \<in> set (t_outbox s)" "env = envelope_for fmt e j"
    "s1 = s\<lparr>t_outbox := update_where (\<lambda>x. oe_id x = oe_id e)
        (\<lambda>x. x\<lparr>oe_publish_token := Some tok,
               oe_publish_lease_until := Some (now + seconds 30)\<rparr>) (t_outbox s)\<rparr>"
    using assms(1) by (rule relay_lease_Some)
  define s2 where "s2 = relay_confirm tok (je_event_id env) now' s1"
  have id: "je_event_id env = oe_id e" using e by (simp add: envelope_for_def)
  have pub: "oe_published_at x = Some now'" if "x \<in> set (t_outbox s2)" "oe_id x = oe_id e" for x
    using that e(3) by (auto simp: s2_def relay_confirm_def id set_update_where split: if_splits)
  then have "\<forall>t. \<forall>(x, j) \<in> set (relay_candidates t s2). oe_id x \<noteq> je_event_id env"
    by (auto simp: in_relay_candidates relay_due_def id)
  moreover have "\<exists>x \<in> set (t_outbox s2). oe_id x = je_event_id env \<and> oe_published_at x = Some now'"
  proof -
    have "oe_id e \<in> set (map oe_id (t_outbox s2))"
      using e(1,3) by (simp add: s2_def relay_confirm_def map_update_where)
    then show ?thesis using pub by (auto simp: id)
  qed
  moreover have "publish_one fmt publish tok now now' (s, tr) = (Inr True, s2, tr')"
    using assms by (simp add: publish_one_def s2_def)
  ultimately show ?thesis by blast
qed

text \<open>Reconciliation revives lost deliveries and nothing else. An ingestion event delivered at
  least \<open>n\<close> seconds ago, whose job is due, is a relay candidate afterwards; every other event,
  each dead letter among them, is unchanged; the count is the number of events revived, so
  that a second run at the same clock finds none.\<close>

lemma reconcile_revives:
  "(\<forall>e \<in> set (t_outbox s). stale_delivery n now s e \<longrightarrow>
      (\<exists>(e', j) \<in> set (relay_candidates now (snd (reconcile n now s))). oe_id e' = oe_id e)) \<and>
   (\<forall>e \<in> set (t_outbox s). \<not> stale_delivery n now s e \<longrightarrow>
      e \<in> set (t_outbox (snd (reconcile n now s)))) \<and>
   (\<forall>e \<in> set (t_outbox s). oe_kind e = Dead_event \<longrightarrow>
      e \<in> set (t_outbox (snd (reconcile n now s)))) \<and>
   fst (reconcile n now (snd (reconcile n now s))) = 0"
proof (intro conjI ballI impI)
  fix e assume e: "e \<in> set (t_outbox s)" "stale_delivery n now s e"
  then obtain j where j: "j \<in> set (t_jobs s)" "ij_id j = oe_job_id e"
    by (auto simp: stale_delivery_def)
  let ?e = "e\<lparr>oe_published_at := None, oe_available_at := now, oe_publish_token := None,
              oe_publish_lease_until := None\<rparr>"
  have "?e \<in> set (t_outbox (snd (reconcile n now s)))"
    using e by (auto simp: reconcile_def set_update_where)
  then have "(?e, j) \<in> set (relay_candidates now (snd (reconcile n now s)))"
    using j by (simp add: in_relay_candidates relay_due_def reconcile_def)
  then show "\<exists>(e', j) \<in> set (relay_candidates now (snd (reconcile n now s))). oe_id e' = oe_id e"
    by (auto intro!: bexI [of _ "(?e, j)"])
next
  fix e assume "e \<in> set (t_outbox s)" "\<not> stale_delivery n now s e"
  then show "e \<in> set (t_outbox (snd (reconcile n now s)))"
    by (auto simp: reconcile_def set_update_where image_iff intro!: bexI [of _ e])
next
  fix e assume "e \<in> set (t_outbox s)" "oe_kind e = Dead_event"
  then show "e \<in> set (t_outbox (snd (reconcile n now s)))"
    by (auto simp: reconcile_def set_update_where stale_delivery_def image_iff intro!: bexI [of _ e])
next
  show "fst (reconcile n now (snd (reconcile n now s))) = 0"
    by (auto simp: reconcile_def count_where_0 set_update_where stale_delivery_def)
qed


definition sample_sent :: db where
  "sample_sent = sample_db\<lparr>t_outbox := [(new_event 1 0 Ingestion_event sample_job)
     \<lparr>oe_published_at := Some 6\<rparr>]\<rparr>"

end
