(* ===== verification/Ingestion.thy ===== *)
theory Ingestion
  imports Document_Parser Jobs
begin

text \<open>
  \<^verbatim>\<open>ingestion.py\<close>: a worker claims a job under a lease with a fencing token, processes the
  document outside any transaction, and commits the result only while its token is current
  and its lease unexpired. Object storage, parser, embedder, the digest and the clocks are
  parameters; every clock reading of a transaction is an argument of its own.
\<close>

section \<open>Worker state and claims\<close>

record worker_config =
  wk_max_document_bytes :: nat
  wk_chunk_size :: nat
  wk_chunk_overlap :: nat
  wk_lease_seconds :: int
  wk_max_attempts :: int
  wk_retry_base_seconds :: rat

record claimed_job =
  cl_id :: uuid
  cl_course_id :: uuid
  cl_document_version_id :: uuid
  cl_storage_key :: pystr
  cl_storage_version_id :: pystr
  cl_expected_size_bytes :: int
  cl_expected_sha256 :: pystr
  cl_pipeline_version :: pystr
  cl_fencing_token :: int

definition set_job :: "uuid \<Rightarrow> (ingestion_job \<Rightarrow> ingestion_job) \<Rightarrow> db \<Rightarrow> db" where
  "set_job jid f s = s\<lparr>t_jobs := update_where (\<lambda>j. ij_id j = jid) f (t_jobs s)\<rparr>"

definition version_of :: "uuid \<Rightarrow> uuid \<Rightarrow> document_version \<Rightarrow> bool" where
  "version_of vid cid v \<longleftrightarrow> dv_id v = vid \<and> dv_course_id v = cid"

text \<open>The branch of \<open>_claim\<close> that closes a job whose attempts are used up. \<open>now\<close> is the clock of
  the transaction, \<open>start\<close> its start (\<open>func.now()\<close>), \<open>eid\<close> the identifier drawn for a dead letter.\<close>

definition exhaust_job :: "uuid \<Rightarrow> time \<Rightarrow> time \<Rightarrow> ingestion_job \<Rightarrow> db \<Rightarrow> (exn, db) result" where
  "exhaust_job eid now start job s =
     (let f = (\<lambda>j. j\<lparr>ij_state := JOB_FAILED,
                 ij_failure_code := Some ''INGESTION_ATTEMPTS_EXHAUSTED'',
                 ij_completed_at := Some now, ij_updated_at := now,
                 ij_lease_expires_at := None, ij_fencing_token := ij_fencing_token j + 1\<rparr>);
          s1 = set_job (ij_id job) f s;
          s2 = s1\<lparr>t_versions := update_where
                 (version_of (ij_document_version_id job) (ij_course_id job))
                 (\<lambda>v. v\<lparr>dv_state := DV_FAILED,
                        dv_failure_code := Some ''INGESTION_ATTEMPTS_EXHAUSTED'',
                        dv_updated_at := now\<rparr>) (t_versions s1)\<rparr>
      in record_dead_letter eid start (f job) s2)"

definition start_job ::
  "int \<Rightarrow> time \<Rightarrow> time \<Rightarrow> ingestion_job \<Rightarrow> db \<Rightarrow> (exn, claimed_job option \<times> db) result" where
  "start_job lease_seconds now start job s =
     (let f = (\<lambda>j. j\<lparr>ij_state := JOB_RUNNING, ij_attempt := ij_attempt j + 1,
                 ij_fencing_token := ij_fencing_token j + 1,
                 ij_lease_expires_at := Some (now + seconds lease_seconds), ij_updated_at := now\<rparr>);
          claimable = (\<lambda>v. version_of (ij_document_version_id job) (ij_course_id job) v \<and>
                           dv_state v \<in> {DV_QUEUED, DV_PROCESSING});
          s1 = set_job (ij_id job) f s;
          s2 = s1\<lparr>t_versions := update_where claimable
                 (\<lambda>v. v\<lparr>dv_state := DV_PROCESSING, dv_updated_at := start\<rparr>) (t_versions s1)\<rparr>
      in if count_where claimable (t_versions s) \<noteq> 1
         then Inl (RuntimeError ''document version could not enter PROCESSING'')
         else bindE (one (filter (\<lambda>v. dv_id v = ij_document_version_id job) (t_versions s2)))
           (\<lambda>version. case dv_storage_version_id version of
              None \<Rightarrow> Inl (RuntimeError ''document version has no immutable storage version'')
            | Some sv \<Rightarrow> Inr (Some \<lparr>cl_id = ij_id job, cl_course_id = ij_course_id job,
                 cl_document_version_id = ij_document_version_id job,
                 cl_storage_key = dv_storage_key version, cl_storage_version_id = sv,
                 cl_expected_size_bytes = dv_expected_size_bytes version,
                 cl_expected_sha256 = dv_expected_sha256 version,
                 cl_pipeline_version = ij_pipeline_version job,
                 cl_fencing_token = ij_fencing_token job + 1\<rparr>, s2)))"

definition claim ::
  "(time \<Rightarrow> pystr) \<Rightarrow> worker_config \<Rightarrow> job_envelope \<Rightarrow> uuid \<Rightarrow> time \<Rightarrow> time \<Rightarrow> db \<Rightarrow>
   (exn, claimed_job option \<times> db) result" where
  "claim fmt cfg envelope eid now start s =
     (case find (\<lambda>j. ij_id j = je_job_id envelope) (t_jobs s) of
        None \<Rightarrow> Inl InvalidJobEnvelope
      | Some job \<Rightarrow>
     (case find (\<lambda>e. oe_id e = je_event_id envelope) (t_outbox s) of
        None \<Rightarrow> Inl InvalidJobEnvelope
      | Some event \<Rightarrow>
        if oe_kind event \<noteq> Ingestion_event \<or> oe_job_id event \<noteq> ij_id job \<or>
           envelope_for fmt event job \<noteq> envelope then Inl InvalidJobEnvelope
        else if ij_state job \<in> {JOB_SUCCEEDED, JOB_FAILED} then Inr (None, s)
        else if (ij_state job = JOB_PENDING \<and> ij_next_attempt_at job > now) \<or>
                (ij_state job = JOB_RUNNING \<and>
                   (case ij_lease_expires_at job of None \<Rightarrow> False | Some t \<Rightarrow> t > now))
          then Inr (None, s)
        else if ij_attempt job \<ge> wk_max_attempts cfg
          then bindE (exhaust_job eid now start job s) (\<lambda>s'. Inr (None, s'))
        else start_job (wk_lease_seconds cfg) now start job s))"

section \<open>Committing a result\<close>

text \<open>The row both \<open>_persist\<close> methods lock: running, with the claim's token, lease unexpired at
  the clock \<open>now\<close>.\<close>

definition active_job :: "claimed_job \<Rightarrow> time \<Rightarrow> db \<Rightarrow> ingestion_job option" where
  "active_job c now s =
     find (\<lambda>j. ij_id j = cl_id c \<and> ij_state j = JOB_RUNNING \<and>
               ij_fencing_token j = cl_fencing_token c \<and>
               (case ij_lease_expires_at j of None \<Rightarrow> False | Some t \<Rightarrow> t > now)) (t_jobs s)"

record build_result =
  br_sha256 :: pystr
  br_size_bytes :: int
  br_pages :: "parsed_page list"
  br_chunks :: "parsed_chunk list"
  br_parser_version :: pystr
  br_embeddings :: "fval list list option"
  br_embedding_version :: "pystr option"

text \<open>Identifiers and clocks a successful commit draws: the corpus identifier, the chunk
  identifiers by position, the lease check, the transaction start and the wall clock.\<close>

record commit_env =
  cm_corpus :: uuid
  cm_chunk_id :: "nat \<Rightarrow> uuid"
  cm_check :: time
  cm_start :: time
  cm_wall :: time

definition chunk_rows :: "claimed_job \<Rightarrow> commit_env \<Rightarrow> parsed_chunk list \<Rightarrow> chunk list" where
  "chunk_rows c env chunks =
     map (\<lambda>(i, p). \<lparr>ch_id = cm_chunk_id env i, ch_course_id = cl_course_id c,
            ch_corpus_version_id = cm_corpus env, ch_document_version_id = cl_document_version_id c,
            ch_page_start = pc_page p, ch_page_end = pc_page p, ch_ordinal = int (pc_ordinal p),
            ch_content = pc_content p, ch_content_hash = pc_content_hash p\<rparr>)
       (zip [0..<length chunks] chunks)"

definition embedding_rows ::
  "claimed_job \<Rightarrow> commit_env \<Rightarrow> pystr \<Rightarrow> fval list list \<Rightarrow> chunk_embedding list" where
  "embedding_rows c env ver vectors =
     map (\<lambda>(i, v). \<lparr>ce_chunk_id = cm_chunk_id env i, ce_embedding_version = ver,
            ce_course_id = cl_course_id c, ce_corpus_version_id = cm_corpus env,
            ce_dims = int (length v), ce_embedding = v\<rparr>)
       (zip [0..<length vectors] vectors)"

text \<open>The constraints the inserts are checked against: primary keys, the ordinals of a corpus, the
  page numbers, the scope of the document version; a \<open>vector\<close> value is finite, of 1 to 16000
  dimensions.\<close>

definition corpus_insertable :: "claimed_job \<Rightarrow> commit_env \<Rightarrow> parsed_chunk list \<Rightarrow> db \<Rightarrow> bool" where
  "corpus_insertable c env chunks s \<longleftrightarrow>
     \<not> exists_where (\<lambda>v. cv_id v = cm_corpus env) (t_corpora s) \<and>
     exists_where (version_of (cl_document_version_id c) (cl_course_id c)) (t_versions s) \<and>
     distinct (map (cm_chunk_id env) [0..<length chunks]) \<and>
     list_all (\<lambda>i. \<not> exists_where (\<lambda>r. ch_id r = cm_chunk_id env i) (t_chunks s)) [0..<length chunks] \<and>
     distinct (map pc_ordinal chunks) \<and> list_all (\<lambda>p. pc_page p > 0) chunks"

definition vector_storable :: "fval list \<Rightarrow> bool" where
  "vector_storable v \<longleftrightarrow> v \<noteq> [] \<and> length v \<le> 16000 \<and> Not_finite \<notin> set v"

text \<open>The embeddings part of \<open>_persist_success\<close>; without vectors or without a version nothing is
  stored.\<close>

definition store_embeddings ::
  "claimed_job \<Rightarrow> commit_env \<Rightarrow> build_result \<Rightarrow> db \<Rightarrow> (exn, db) result" where
  "store_embeddings c env r s =
     (case (br_embeddings r, br_embedding_version r) of
        (Some vectors, Some ver) \<Rightarrow>
          if length vectors \<noteq> length (br_chunks r) then Inl (RuntimeError ''embedding count mismatch'')
          else if \<not> list_all vector_storable vectors then Inl IntegrityError
          else let s1 = s\<lparr>t_embeddings := t_embeddings s @ embedding_rows c env ver vectors\<rparr> in
            if count_where (\<lambda>e. ce_corpus_version_id e = cm_corpus env \<and>
                                ce_embedding_version e = ver) (t_embeddings s1)
               \<noteq> length (br_chunks r)
            then Inl (RuntimeError ''corpus embedding verification failed'')
            else Inr s1
      | _ \<Rightarrow> Inr s)"

definition finish_success ::
  "claimed_job \<Rightarrow> commit_env \<Rightarrow> build_result \<Rightarrow> db \<Rightarrow> (exn, unit \<times> db) result" where
  "finish_success c env r s =
     (let ready = update_where (\<lambda>v. cv_id v = cm_corpus env)
            (\<lambda>v. v\<lparr>cv_state := CV_READY, cv_ready_at := Some (cm_wall env)\<rparr>) (t_corpora s);
          indexable = (\<lambda>v. version_of (cl_document_version_id c) (cl_course_id c) v \<and>
                           dv_state v = DV_PROCESSING);
          versions = update_where indexable
            (\<lambda>v. v\<lparr>dv_state := DV_INDEXED, dv_object_size_bytes := Some (br_size_bytes r),
                   dv_object_sha256 := Some (br_sha256 r),
                   dv_page_count := Some (int (length (br_pages r))),
                   dv_chunk_count := Some (int (length (br_chunks r))),
                   dv_parser_version := Some (br_parser_version r), dv_failure_code := None,
                   dv_updated_at := cm_start env\<rparr>) (t_versions s)
      in if count_where indexable (t_versions s) \<noteq> 1
         then Inl (RuntimeError ''document version could not enter INDEXED'')
         else Inr ((), set_job (cl_id c)
           (\<lambda>j. j\<lparr>ij_state := JOB_SUCCEEDED, ij_failure_code := None,
                  ij_updated_at := cm_wall env, ij_completed_at := Some (cm_wall env),
                  ij_lease_expires_at := None\<rparr>)
           (s\<lparr>t_corpora := ready, t_versions := versions\<rparr>)))"

text \<open>\<open>search_vector\<close> is a generated column that is never NULL, so the verification count is the
  number of chunks of the corpus.\<close>

definition persist_success ::
  "claimed_job \<Rightarrow> commit_env \<Rightarrow> build_result \<Rightarrow> db \<Rightarrow> (exn, unit \<times> db) result" where
  "persist_success c env r s =
     (case active_job c (cm_check env) s of
        None \<Rightarrow> Inl (RuntimeError ''stale ingestion fencing token'')
      | Some _ \<Rightarrow>
        if \<not> corpus_insertable c env (br_chunks r) s then Inl IntegrityError
        else
          let s1 = s\<lparr>t_corpora := t_corpora s @ [\<lparr>cv_id = cm_corpus env,
                  cv_course_id = cl_course_id c, cv_state = CV_BUILDING,
                  cv_pipeline_version = cl_pipeline_version c,
                  cv_page_count = int (length (br_pages r)),
                  cv_chunk_count = int (length (br_chunks r)),
                  cv_created_at = cm_start env, cv_ready_at = None\<rparr>],
                t_corpus_documents := t_corpus_documents s @
                  [\<lparr>cd_corpus_version_id = cm_corpus env,
                    cd_document_version_id = cl_document_version_id c,
                    cd_course_id = cl_course_id c\<rparr>],
                t_chunks := t_chunks s @ chunk_rows c env (br_chunks r)\<rparr>
          in if count_where (\<lambda>k. ch_corpus_version_id k = cm_corpus env) (t_chunks s1)
                \<noteq> length (br_chunks r)
             then Inl (RuntimeError ''corpus build verification failed'')
             else bindE (store_embeddings c env r s1) (finish_success c env r))"

text \<open>The delay of a retry in seconds, before and after jitter; \<open>timedelta(seconds=x)\<close> rounds to the
  nearest microsecond, ties to even. The jitter \<open>r\<close> is the draw of \<open>random()\<close>.\<close>

definition round_half_even :: "rat \<Rightarrow> int" where
  "round_half_even x =
     (let f = floor x; d = x - of_int f in
      if d < 1 / 2 then f else if d > 1 / 2 then f + 1 else if even f then f else f + 1)"

definition retry_delay :: "rat \<Rightarrow> int \<Rightarrow> rat" where
  "retry_delay base attempt = min 60 (base * 2 powi (attempt - 1))"

definition uniform :: "rat \<Rightarrow> rat \<Rightarrow> rat \<Rightarrow> rat" where
  "uniform a b r = a + (b - a) * r"

definition retry_at :: "rat \<Rightarrow> int \<Rightarrow> rat \<Rightarrow> time \<Rightarrow> time" where
  "retry_at base attempt r now =
     (let delay = retry_delay base attempt
      in now + round_half_even (1000000 * uniform (delay / 2) delay r))"

record failure_env =
  fa_event :: uuid
  fa_check :: time
  fa_now :: time
  fa_start :: time
  fa_jitter :: rat

definition persist_failure ::
  "worker_config \<Rightarrow> claimed_job \<Rightarrow> string \<Rightarrow> document_version_state \<Rightarrow> bool \<Rightarrow> failure_env \<Rightarrow> db \<Rightarrow>
   (exn, unit \<times> db) result" where
  "persist_failure cfg c code version_state transient env s =
     (case active_job c (fa_check env) s of
        None \<Rightarrow> Inr ((), s)
      | Some job \<Rightarrow>
        let retry = (transient \<and> ij_attempt job < wk_max_attempts cfg);
            next_at = retry_at (wk_retry_base_seconds cfg) (ij_attempt job) (fa_jitter env) (fa_now env);
            f = (\<lambda>j. j\<lparr>ij_state := (if retry then JOB_PENDING else JOB_FAILED),
                   ij_failure_code := Some code, ij_updated_at := fa_now env,
                   ij_lease_expires_at := None,
                   ij_next_attempt_at := (if retry then next_at else ij_next_attempt_at j),
                   ij_completed_at := (if retry then ij_completed_at j else Some (fa_now env))\<rparr>);
            s1 = set_job (ij_id job) f s
        in bindE (if retry then Inr (schedule_retry (f job) next_at s1)
                  else record_dead_letter (fa_event env) (fa_start env) (f job) s1)
             (\<lambda>s2. Inr ((), s2\<lparr>t_versions := update_where
                (\<lambda>v. version_of (cl_document_version_id c) (cl_course_id c) v \<and>
                     dv_state v = DV_PROCESSING)
                (\<lambda>v. v\<lparr>dv_state := (if retry then DV_QUEUED else version_state),
                       dv_failure_code := Some code, dv_updated_at := fa_start env\<rparr>)
                (t_versions s2)\<rparr>)))"

definition acknowledgeable :: "uuid \<Rightarrow> db \<Rightarrow> bool" where
  "acknowledgeable jid s =
     (case find (\<lambda>j. ij_id j = jid) (t_jobs s) of None \<Rightarrow> False
      | Some job \<Rightarrow> ij_state job \<in> {JOB_SUCCEEDED, JOB_FAILED, JOB_PENDING})"


section \<open>The invariant\<close>

fun coupled :: "ingestion_job_state \<Rightarrow> document_version_state \<Rightarrow> bool" where
  "coupled JOB_PENDING v = (v = DV_QUEUED)"
| "coupled JOB_RUNNING v = (v = DV_PROCESSING)"
| "coupled JOB_SUCCEEDED v = (v = DV_INDEXED)"
| "coupled JOB_FAILED v = (v \<in> {DV_FAILED, DV_REJECTED, DV_OCR_REQUIRED})"

definition corpora_of :: "uuid \<Rightarrow> db \<Rightarrow> nat" where
  "corpora_of vid s = count_where (\<lambda>d. cd_document_version_id d = vid) (t_corpus_documents s)"

definition job_ok :: "int \<Rightarrow> db \<Rightarrow> ingestion_job \<Rightarrow> bool" where
  "job_ok mx s j \<longleftrightarrow>
     (\<exists>v \<in> set (t_versions s). version_of (ij_document_version_id j) (ij_course_id j) v \<and>
        coupled (ij_state j) (dv_state v)) \<and>
     corpora_of (ij_document_version_id j) s = (if ij_state j = JOB_SUCCEEDED then 1 else 0) \<and>
     0 \<le> ij_attempt j \<and> ij_attempt j \<le> mx \<and> ij_attempt j \<le> ij_fencing_token j \<and>
     (ij_state j = JOB_RUNNING \<longrightarrow> ij_lease_expires_at j \<noteq> None) \<and>
     (ij_state j = JOB_FAILED \<longrightarrow>
        (\<exists>e \<in> set (t_outbox s). event_key e = (ij_id j, Dead_event)))"

definition links_ok :: "db \<Rightarrow> bool" where
  "links_ok s \<longleftrightarrow> (\<forall>d \<in> set (t_corpus_documents s). \<exists>c \<in> set (t_corpora s).
     cv_id c = cd_corpus_version_id d \<and> cv_course_id c = cd_course_id d \<and> cv_state c = CV_READY)"

definition ingest_inv :: "int \<Rightarrow> db \<Rightarrow> bool" where
  "ingest_inv mx s \<longleftrightarrow>
     distinct (map ij_id (t_jobs s)) \<and> distinct (map dv_id (t_versions s)) \<and>
     distinct (map ij_document_version_id (t_jobs s)) \<and> distinct (map cv_id (t_corpora s)) \<and>
     outbox_wf s \<and> links_ok s \<and> (\<forall>j \<in> set (t_jobs s). job_ok mx s j)"


text \<open>What every transaction of the worker does to the tables, seen from one job \<open>J\<close>: only the
  version of \<open>J\<close> and the corpus links of that version change, events are not lost.\<close>

definition touches_only :: "ingestion_job \<Rightarrow> db \<Rightarrow> db \<Rightarrow> bool" where
  "touches_only J s s' \<longleftrightarrow>
     map dv_id (t_versions s') = map dv_id (t_versions s) \<and>
     (\<forall>v \<in> set (t_versions s). dv_id v \<noteq> ij_document_version_id J \<longrightarrow> v \<in> set (t_versions s')) \<and>
     (\<forall>u. u \<noteq> ij_document_version_id J \<longrightarrow> corpora_of u s' = corpora_of u s) \<and>
     event_key ` set (t_outbox s) \<subseteq> event_key ` set (t_outbox s')"

lemma ingest_inv_update:
  assumes inv: "ingest_inv mx s" and J: "J \<in> set (t_jobs s)"
    and jobs: "t_jobs s' = update_where (\<lambda>j. ij_id j = ij_id J) f (t_jobs s)"
    and keys: "ij_id (f J) = ij_id J" "ij_document_version_id (f J) = ij_document_version_id J"
    and touch: "touches_only J s s'" and out: "outbox_wf s'" and links: "links_ok s'"
    and corp: "distinct (map cv_id (t_corpora s'))"
    and ok: "job_ok mx s' (f J)"
  shows "ingest_inv mx s'"
proof -
  have uniq: "j = J" if "j \<in> set (t_jobs s)" "ij_id j = ij_id J" for j
    using that J inv key_eqD [of ij_id "t_jobs s"] by (auto simp: ingest_inv_def)
  have other: "ij_document_version_id j \<noteq> ij_document_version_id J"
    if "j \<in> set (t_jobs s)" "ij_id j \<noteq> ij_id J" for j
    using that J inv key_eqD [of ij_document_version_id "t_jobs s"] by (auto simp: ingest_inv_def)
  have eq: "t_jobs s' = map (\<lambda>j. if ij_id j = ij_id J then f J else j) (t_jobs s)"
    unfolding jobs update_where_def using uniq by (intro map_cong) auto
  have ids: "map ij_id (t_jobs s') = map ij_id (t_jobs s)"
    "map ij_document_version_id (t_jobs s') = map ij_document_version_id (t_jobs s)"
    unfolding eq using keys uniq by (auto simp: comp_def)
  have "job_ok mx s' j" if "j \<in> set (t_jobs s')" for j
  proof -
    from that consider "j = f J" | "j \<in> set (t_jobs s)" "ij_id j \<noteq> ij_id J"
      unfolding eq by (auto split: if_splits)
    then show ?thesis
    proof cases
      case 1
      with ok show ?thesis by simp
    next
      case 2
      then have "job_ok mx s j" using inv by (simp add: ingest_inv_def)
      then show ?thesis
        using touch other [OF 2] by (fastforce simp: job_ok_def touches_only_def version_of_def)
    qed
  qed
  then show ?thesis
    using inv touch out links corp ids by (simp add: ingest_inv_def touches_only_def)
qed

lemma ingest_inv_job:
  assumes "ingest_inv mx s" "j \<in> set (t_jobs s)"
  shows "job_ok mx s j"
  using assms by (simp add: ingest_inv_def)

lemma set_job_tables [simp]:
  "t_jobs (set_job i f s) = update_where (\<lambda>j. ij_id j = i) f (t_jobs s)"
  "t_versions (set_job i f s) = t_versions s" "t_outbox (set_job i f s) = t_outbox s"
  "t_corpora (set_job i f s) = t_corpora s" "t_chunks (set_job i f s) = t_chunks s"
  "t_corpus_documents (set_job i f s) = t_corpus_documents s"
  "t_embeddings (set_job i f s) = t_embeddings s"
  by (simp_all add: set_job_def)

lemma corpora_of_cong:
  "t_corpus_documents s' = t_corpus_documents s \<Longrightarrow> corpora_of u s' = corpora_of u s"
  by (simp add: corpora_of_def)

text \<open>Recording a dead letter appends at most one event.\<close>

lemma record_dead_letter_tables:
  assumes "record_dead_letter eid now job s = Inr s'"
  shows "t_jobs s' = t_jobs s" "t_versions s' = t_versions s" "t_corpora s' = t_corpora s"
    "t_corpus_documents s' = t_corpus_documents s" "set (t_outbox s) \<subseteq> set (t_outbox s')"
    "\<exists>e \<in> set (t_outbox s'). event_key e = (ij_id job, Dead_event)"
    "outbox_wf s \<Longrightarrow> outbox_wf s'" "t_chunks s' = t_chunks s"
proof -
  have ins: "insert_event eid now Dead_event job s = Inr s'"
    using assms by (simp add: record_dead_letter_def)
  then show "t_jobs s' = t_jobs s" "t_versions s' = t_versions s" "t_corpora s' = t_corpora s"
    "t_corpus_documents s' = t_corpus_documents s" "set (t_outbox s) \<subseteq> set (t_outbox s')"
    by (cases rule: insert_event_Inr; auto)+
  show "\<exists>e \<in> set (t_outbox s'). event_key e = (ij_id job, Dead_event)"
    using insert_event_has [OF ins] by (auto simp: event_key_def)
  show "outbox_wf s \<Longrightarrow> outbox_wf s'" using insert_event_wf [OF ins] .
  show "t_chunks s' = t_chunks s" using ins by (cases rule: insert_event_Inr) auto
qed

lemma claim_cases:
  assumes "claim fmt cfg envelope eid now start s = Inr (r, s')"
  obtains (ignored) "r = None" "s' = s"
  | (exhausted) job where "job \<in> set (t_jobs s)" "ij_id job = je_job_id envelope"
      "ij_state job \<notin> {JOB_SUCCEEDED, JOB_FAILED}" "wk_max_attempts cfg \<le> ij_attempt job"
      "exhaust_job eid now start job s = Inr s'" "r = None"
  | (started) job where "job \<in> set (t_jobs s)" "ij_id job = je_job_id envelope"
      "ij_state job \<notin> {JOB_SUCCEEDED, JOB_FAILED}" "ij_attempt job < wk_max_attempts cfg"
      "ij_state job = JOB_PENDING \<longrightarrow> ij_next_attempt_at job \<le> now"
      "ij_state job = JOB_RUNNING \<longrightarrow>
         (case ij_lease_expires_at job of None \<Rightarrow> True | Some t \<Rightarrow> t \<le> now)"
      "start_job (wk_lease_seconds cfg) now start job s = Inr (r, s')"
proof -
  obtain job where job: "find (\<lambda>j. ij_id j = je_job_id envelope) (t_jobs s) = Some job"
    using assms by (cases "find (\<lambda>j. ij_id j = je_job_id envelope) (t_jobs s)")
      (simp_all add: claim_def)
  obtain event where event: "find (\<lambda>e. oe_id e = je_event_id envelope) (t_outbox s) = Some event"
    using assms job by (cases "find (\<lambda>e. oe_id e = je_event_id envelope) (t_outbox s)")
      (simp_all add: claim_def)
  have in_jobs: "job \<in> set (t_jobs s)" "ij_id job = je_job_id envelope"
    using find_SomeD [OF job] by auto
  let ?done = "ij_state job \<in> {JOB_SUCCEEDED, JOB_FAILED}"
  let ?wait = "(ij_state job = JOB_PENDING \<and> ij_next_attempt_at job > now) \<or>
    (ij_state job = JOB_RUNNING \<and> (case ij_lease_expires_at job of None \<Rightarrow> False | Some t \<Rightarrow> t > now))"
  have eq: "(if ?done then Inr (None, s) else if ?wait then Inr (None, s)
      else if ij_attempt job \<ge> wk_max_attempts cfg
          then bindE (exhaust_job eid now start job s) (\<lambda>s'. Inr (None, s'))
      else start_job (wk_lease_seconds cfg) now start job s) = Inr (r, s')" (is "?chain = _")
  proof -
    let ?bad = "oe_kind event \<noteq> Ingestion_event \<or> oe_job_id event \<noteq> ij_id job \<or>
           envelope_for fmt event job \<noteq> envelope"
    have "(if ?bad then Inl InvalidJobEnvelope else ?chain) = Inr (r, s')"
      using assms unfolding claim_def job event option.case .
    moreover from this have "\<not> ?bad" by (metis sum.distinct(1))
    ultimately show ?thesis by (simp only: if_False)
  qed
  consider "?done" | "\<not> ?done" "?wait" | "\<not> ?done" "\<not> ?wait" "ij_attempt job \<ge> wk_max_attempts cfg"
    | "\<not> ?done" "\<not> ?wait" "ij_attempt job < wk_max_attempts cfg" by linarith
  then show ?thesis
  proof cases
    case 1
    then show ?thesis using eq by (intro ignored) simp_all
  next
    case 2
    then show ?thesis using eq by (intro ignored) simp_all
  next
    case 3
    then have "bindE (exhaust_job eid now start job s) (\<lambda>s'. Inr (None, s')) = Inr (r, s')"
      using eq by (simp only: if_False if_True)
    then show ?thesis using 3 in_jobs by (intro exhausted [of job]) (auto simp: result_simps)
  next
    case 4
    then have "start_job (wk_lease_seconds cfg) now start job s = Inr (r, s')"
      using eq by (simp only: if_False if_True not_less [symmetric] not_True_eq_False)
    then show ?thesis using 4 in_jobs
      by (intro started [of job]) (auto split: option.splits)
  qed
qed


text \<open>The version of a job and its coupling, from the invariant.\<close>

lemma job_version:
  assumes "ingest_inv mx s" "j \<in> set (t_jobs s)"
  obtains v where "v \<in> set (t_versions s)"
    "version_of (ij_document_version_id j) (ij_course_id j) v" "coupled (ij_state j) (dv_state v)"
  using ingest_inv_job [OF assms] by (auto simp: job_ok_def)

lemma version_unique:
  assumes "ingest_inv mx s" "v \<in> set (t_versions s)" "w \<in> set (t_versions s)" "dv_id v = dv_id w"
  shows "v = w"
  by (rule key_eqD [of dv_id "t_versions s"]) (use assms in \<open>simp_all add: ingest_inv_def\<close>)

lemma same_job:
  assumes "ingest_inv mx s" "job \<in> set (t_jobs s)" "j \<in> set (t_jobs s)" "ij_id j = ij_id job"
  shows "j = job"
  by (rule key_eqD [of ij_id "t_jobs s"]) (use assms in \<open>simp_all add: ingest_inv_def\<close>)

lemma touches_onlyI:
  assumes "t_versions s' = update_where p g (t_versions s)"
    and "\<And>x. p x \<Longrightarrow> dv_id x = ij_document_version_id J" "\<And>x. dv_id (g x) = dv_id x"
    and "\<And>u. u \<noteq> ij_document_version_id J \<Longrightarrow> corpora_of u s' = corpora_of u s"
    and "event_key ` set (t_outbox s) \<subseteq> event_key ` set (t_outbox s')"
  shows "touches_only J s s'"
proof -
  have "v \<in> set (t_versions s')" if "v \<in> set (t_versions s)" "dv_id v \<noteq> ij_document_version_id J" for v
    unfolding assms(1) using that assms(2) by (blast intro: update_where_miss)
  then show ?thesis using assms by (simp add: touches_only_def map_update_where)
qed

lemma exhaust_job_inv:
  assumes inv: "ingest_inv mx s" and J: "job \<in> set (t_jobs s)"
    and st: "ij_state job \<notin> {JOB_SUCCEEDED, JOB_FAILED}"
    and ex: "exhaust_job eid now start job s = Inr s'"
  shows "ingest_inv mx s'"
proof -
  let ?f = "\<lambda>j. j\<lparr>ij_state := JOB_FAILED,
                 ij_failure_code := Some ''INGESTION_ATTEMPTS_EXHAUSTED'',
                 ij_completed_at := Some now, ij_updated_at := now,
                 ij_lease_expires_at := None, ij_fencing_token := ij_fencing_token j + 1\<rparr>"
  let ?p = "version_of (ij_document_version_id job) (ij_course_id job)"
  let ?g = "\<lambda>v. v\<lparr>dv_state := DV_FAILED,
      dv_failure_code := Some ''INGESTION_ATTEMPTS_EXHAUSTED'', dv_updated_at := now\<rparr>"
  let ?s2 = "(set_job (ij_id job) ?f s)\<lparr>t_versions := update_where ?p ?g (t_versions s)\<rparr>"
  have rd: "record_dead_letter eid start (?f job) ?s2 = Inr s'"
    using ex by (simp add: exhaust_job_def Let_def)
  note tabs = record_dead_letter_tables [OF rd]
  obtain v where v: "v \<in> set (t_versions s)" "?p v" using job_version [OF inv J] by blast
  have v': "?g v \<in> set (t_versions s')" using v 
    using update_where_hit [of v "t_versions s" ?p ?g] by (simp add: tabs)
  show ?thesis
  proof (rule ingest_inv_update [OF inv J, of s' ?f])
    show "touches_only job s s'"
      using tabs(5) by (intro touches_onlyI [of _ ?p ?g])
        (auto simp: tabs version_of_def corpora_of_def)
    show "outbox_wf s'" using inv tabs(7) by (simp add: ingest_inv_def outbox_wf_def)
    show "links_ok s'" using inv by (simp add: ingest_inv_def links_ok_def tabs)
    show "distinct (map cv_id (t_corpora s'))" using inv by (simp add: ingest_inv_def tabs)
    have "job_ok mx s job" using inv J by (rule ingest_inv_job)
    then show "job_ok mx s' (?f job)"
      using st v v' tabs(6) by (auto simp: job_ok_def version_of_def tabs corpora_of_def
          intro!: bexI [of _ "?g v"])
  qed (simp_all add: tabs)
qed

lemma start_job_Inr:
  assumes "start_job lease now start job s = Inr (r, s')"
  obtains version sv where
    "s' = (set_job (ij_id job) (\<lambda>j. j\<lparr>ij_state := JOB_RUNNING, ij_attempt := ij_attempt j + 1,
             ij_fencing_token := ij_fencing_token j + 1,
             ij_lease_expires_at := Some (now + seconds lease), ij_updated_at := now\<rparr>) s)
           \<lparr>t_versions := update_where (\<lambda>v. version_of (ij_document_version_id job) (ij_course_id job) v \<and>
                dv_state v \<in> {DV_QUEUED, DV_PROCESSING})
             (\<lambda>v. v\<lparr>dv_state := DV_PROCESSING, dv_updated_at := start\<rparr>) (t_versions s)\<rparr>"
    "r = Some \<lparr>cl_id = ij_id job, cl_course_id = ij_course_id job,
             cl_document_version_id = ij_document_version_id job,
             cl_storage_key = dv_storage_key version, cl_storage_version_id = sv,
             cl_expected_size_bytes = dv_expected_size_bytes version,
             cl_expected_sha256 = dv_expected_sha256 version,
             cl_pipeline_version = ij_pipeline_version job,
             cl_fencing_token = ij_fencing_token job + 1\<rparr>"
    "version \<in> set (t_versions s')" "dv_id version = ij_document_version_id job"
    "dv_storage_version_id version = Some sv"
proof -
  have one_in: "x \<in> set xs" if "one xs = Inr x" for x :: document_version and xs
    using that by (auto simp: one_def split: list.splits)
  show ?thesis
    using assms that unfolding start_job_def Let_def
    by (auto simp: result_simps split: if_splits option.splits dest!: one_in)
qed

lemma start_job_inv:
  assumes inv: "ingest_inv mx s" and J: "job \<in> set (t_jobs s)"
    and st: "ij_state job \<notin> {JOB_SUCCEEDED, JOB_FAILED}" and att: "ij_attempt job < mx"
    and ex: "start_job lease now start job s = Inr (r, s')"
  shows "ingest_inv mx s'"
proof -
  let ?f = "\<lambda>j. j\<lparr>ij_state := JOB_RUNNING, ij_attempt := ij_attempt j + 1,
             ij_fencing_token := ij_fencing_token j + 1,
             ij_lease_expires_at := Some (now + seconds lease), ij_updated_at := now\<rparr>"
  let ?p = "\<lambda>v. version_of (ij_document_version_id job) (ij_course_id job) v \<and>
                dv_state v \<in> {DV_QUEUED, DV_PROCESSING}"
  let ?g = "\<lambda>v. v\<lparr>dv_state := DV_PROCESSING, dv_updated_at := start\<rparr>"
  have s': "s' = (set_job (ij_id job) ?f s)\<lparr>t_versions := update_where ?p ?g (t_versions s)\<rparr>"
    using ex by (rule start_job_Inr)
  have ok: "job_ok mx s job" using inv J by (rule ingest_inv_job)
  obtain v where v: "v \<in> set (t_versions s)"
    "version_of (ij_document_version_id job) (ij_course_id job) v" "coupled (ij_state job) (dv_state v)"
    using inv J by (rule job_version)
  then have "?p v" using st by (cases "ij_state job") auto
  then have v': "?g v \<in> set (t_versions s')" 
    using update_where_hit [of v "t_versions s" ?p ?g] v(1) by (simp add: s')
  show ?thesis
  proof (rule ingest_inv_update [OF inv J, of s' ?f])
    show "touches_only job s s'"
      by (intro touches_onlyI [of _ ?p ?g]) (auto simp: s' version_of_def corpora_of_def)
    show "outbox_wf s'" using inv by (simp add: ingest_inv_def outbox_wf_def s')
    show "links_ok s'" using inv by (simp add: ingest_inv_def links_ok_def s')
    show "distinct (map cv_id (t_corpora s'))" using inv by (simp add: ingest_inv_def s')
    have "corpora_of (ij_document_version_id job) s' = corpora_of (ij_document_version_id job) s"
      by (simp add: s' corpora_of_def)
    then show "job_ok mx s' (?f job)"
      using ok st v(2) v' att by (auto simp: job_ok_def version_of_def intro!: bexI [of _ "?g v"])
  qed (simp_all add: s')
qed

lemma claim_inv:
  assumes "ingest_inv (wk_max_attempts cfg) s" "claim fmt cfg envelope eid now start s = Inr (r, s')"
  shows "ingest_inv (wk_max_attempts cfg) s'"
  using assms(2)
proof (cases rule: claim_cases)
  case ignored
  with assms(1) show ?thesis by simp
next
  case (exhausted job)
  with assms(1) show ?thesis by (blast intro: exhaust_job_inv)
next
  case (started job)
  with assms(1) show ?thesis by (blast intro: start_job_inv)
qed

lemma active_job_Some:
  assumes "active_job c now s = Some job"
  shows "job \<in> set (t_jobs s)" "ij_id job = cl_id c" "ij_state job = JOB_RUNNING"
    "ij_fencing_token job = cl_fencing_token c" "\<exists>t. ij_lease_expires_at job = Some t \<and> now < t"
  using find_SomeD [OF assms [unfolded active_job_def]] by (auto split: option.splits)


definition claim_matches :: "claimed_job \<Rightarrow> db \<Rightarrow> bool" where
  "claim_matches c s \<longleftrightarrow>
     (\<exists>j \<in> set (t_jobs s). ij_id j = cl_id c \<and> ij_course_id j = cl_course_id c \<and>
        ij_document_version_id j = cl_document_version_id c \<and>
        cl_fencing_token c \<le> ij_fencing_token j)"

lemma claim_matches_job:
  assumes "ingest_inv mx s" "claim_matches c s" "j \<in> set (t_jobs s)" "ij_id j = cl_id c"
  shows "ij_course_id j = cl_course_id c" "ij_document_version_id j = cl_document_version_id c"
    "cl_fencing_token c \<le> ij_fencing_token j"
proof -
  obtain j' where j': "j' \<in> set (t_jobs s)" "ij_id j' = cl_id c" "ij_course_id j' = cl_course_id c"
    "ij_document_version_id j' = cl_document_version_id c" "cl_fencing_token c \<le> ij_fencing_token j'"
    using assms(2) by (auto simp: claim_matches_def)
  have "distinct (map ij_id (t_jobs s))" using assms(1) by (simp add: ingest_inv_def)
  then have "j = j'" using assms(3,4) j'(1,2) by (intro key_eqD [of ij_id "t_jobs s"]) simp_all
  with j' show "ij_course_id j = cl_course_id c" "ij_document_version_id j = cl_document_version_id c"
    "cl_fencing_token c \<le> ij_fencing_token j" by simp_all
qed

text \<open>What a committed \<open>_persist_success\<close> did to the tables.\<close>

definition success_job :: "commit_env \<Rightarrow> ingestion_job \<Rightarrow> ingestion_job" where
  "success_job env j = j\<lparr>ij_state := JOB_SUCCEEDED, ij_failure_code := None,
     ij_updated_at := cm_wall env, ij_completed_at := Some (cm_wall env),
     ij_lease_expires_at := None\<rparr>"

definition success_corpus :: "claimed_job \<Rightarrow> commit_env \<Rightarrow> build_result \<Rightarrow> corpus_version" where
  "success_corpus c env r = \<lparr>cv_id = cm_corpus env, cv_course_id = cl_course_id c,
     cv_state = CV_READY, cv_pipeline_version = cl_pipeline_version c,
     cv_page_count = int (length (br_pages r)), cv_chunk_count = int (length (br_chunks r)),
     cv_created_at = cm_start env, cv_ready_at = Some (cm_wall env)\<rparr>"

definition success_version ::
  "claimed_job \<Rightarrow> commit_env \<Rightarrow> build_result \<Rightarrow> document_version \<Rightarrow> document_version" where
  "success_version c env r v = v\<lparr>dv_state := DV_INDEXED, dv_object_size_bytes := Some (br_size_bytes r),
     dv_object_sha256 := Some (br_sha256 r), dv_page_count := Some (int (length (br_pages r))),
     dv_chunk_count := Some (int (length (br_chunks r))),
     dv_parser_version := Some (br_parser_version r), dv_failure_code := None,
     dv_updated_at := cm_start env\<rparr>"

lemma store_embeddings_tables:
  assumes "store_embeddings c env r s = Inr s'"
  shows "\<exists>es. s' = s\<lparr>t_embeddings := t_embeddings s @ es\<rparr>"
proof (cases "br_embeddings r = None \<or> br_embedding_version r = None")
  case True
  with assms have "s' = s\<lparr>t_embeddings := t_embeddings s @ []\<rparr>"
    by (auto simp: store_embeddings_def split: option.splits)
  then show ?thesis by blast
next
  case False
  with assms show ?thesis by (auto simp: store_embeddings_def Let_def split: if_splits)
qed

lemma persist_success_Inr:
  assumes "persist_success c env r s = Inr (u, s')"
  obtains job es where "active_job c (cm_check env) s = Some job"
    "corpus_insertable c env (br_chunks r) s"
    "t_jobs s' = update_where (\<lambda>j. ij_id j = cl_id c) (success_job env) (t_jobs s)"
    "t_corpora s' = t_corpora s @ [success_corpus c env r]"
    "t_corpus_documents s' = t_corpus_documents s @
       [\<lparr>cd_corpus_version_id = cm_corpus env,
         cd_document_version_id = cl_document_version_id c, cd_course_id = cl_course_id c\<rparr>]"
    "t_chunks s' = t_chunks s @ chunk_rows c env (br_chunks r)"
    "t_versions s' = update_where
       (\<lambda>v. version_of (cl_document_version_id c) (cl_course_id c) v \<and> dv_state v = DV_PROCESSING)
       (success_version c env r) (t_versions s)"
    "t_outbox s' = t_outbox s" "t_embeddings s' = t_embeddings s @ es"
proof -
  define s1 where "s1 = s\<lparr>t_corpora := t_corpora s @ [(success_corpus c env r)
      \<lparr>cv_state := CV_BUILDING, cv_ready_at := None\<rparr>],
    t_corpus_documents := t_corpus_documents s @
       [\<lparr>cd_corpus_version_id = cm_corpus env,
         cd_document_version_id = cl_document_version_id c, cd_course_id = cl_course_id c\<rparr>],
    t_chunks := t_chunks s @ chunk_rows c env (br_chunks r)\<rparr>"
  obtain job where job: "active_job c (cm_check env) s = Some job"
    using assms by (cases "active_job c (cm_check env) s") (simp_all add: persist_success_def)
  have ins: "corpus_insertable c env (br_chunks r) s"
    using assms job by (simp add: persist_success_def split: if_splits)
  have "bindE (store_embeddings c env r s1) (finish_success c env r) = Inr (u, s')"
    using assms job ins
    by (simp add: persist_success_def s1_def success_corpus_def Let_def split: if_splits)
  then obtain s2 where s2: "store_embeddings c env r s1 = Inr s2" "finish_success c env r s2 = Inr (u, s')"
    by (auto simp: result_simps)
  obtain es where es: "s2 = s1\<lparr>t_embeddings := t_embeddings s1 @ es\<rparr>"
    using store_embeddings_tables [OF s2(1)] by blast
  have fresh: "\<And>v. v \<in> set (t_corpora s) \<Longrightarrow> cv_id v \<noteq> cm_corpus env"
    using ins by (auto simp: corpus_insertable_def exists_where_iff)
  have "update_where (\<lambda>v. cv_id v = cm_corpus env)
      (\<lambda>v. v\<lparr>cv_state := CV_READY, cv_ready_at := Some (cm_wall env)\<rparr>) (t_corpora s) = t_corpora s"
    using fresh by (intro update_where_none) auto
  moreover have "(\<lambda>j. j\<lparr>ij_state := JOB_SUCCEEDED, ij_failure_code := None,
     ij_updated_at := cm_wall env, ij_completed_at := Some (cm_wall env),
     ij_lease_expires_at := None\<rparr>) = success_job env" by (auto simp: success_job_def)
  moreover have "(\<lambda>v. v\<lparr>dv_state := DV_INDEXED, dv_object_size_bytes := Some (br_size_bytes r),
     dv_object_sha256 := Some (br_sha256 r), dv_page_count := Some (int (length (br_pages r))),
     dv_chunk_count := Some (int (length (br_chunks r))),
     dv_parser_version := Some (br_parser_version r), dv_failure_code := None,
     dv_updated_at := cm_start env\<rparr>) = success_version c env r"
    by (auto simp: success_version_def)
  ultimately show ?thesis
    using s2(2) by (intro that [OF job ins, of es])
      (auto simp: finish_success_def Let_def es s1_def update_where_def success_corpus_def
        split: if_splits)
qed

lemma persist_success_inv:
  assumes inv: "ingest_inv mx s" and cm: "claim_matches c s"
    and ex: "persist_success c env r s = Inr (u, s')"
  shows "ingest_inv mx s'"
  using ex
proof (cases rule: persist_success_Inr)
  case (1 job es)
  note J = active_job_Some [OF 1(1)]
  note cj = claim_matches_job [OF inv cm J(1,2)]
  let ?p = "\<lambda>v. version_of (cl_document_version_id c) (cl_course_id c) v \<and> dv_state v = DV_PROCESSING"
  let ?g = "success_version c env r"
  have jok: "job_ok mx s job" using inv J(1) by (rule ingest_inv_job)
  obtain v where v: "v \<in> set (t_versions s)" "?p v"
    using job_version [OF inv J(1)] J(3) cj by auto
  have v': "?g v \<in> set (t_versions s')"
    unfolding 1(7) using v by (intro update_where_hit) auto
  have fresh: "\<And>x. x \<in> set (t_corpora s) \<Longrightarrow> cv_id x \<noteq> cm_corpus env"
    using 1(2) by (auto simp: corpus_insertable_def exists_where_iff)
  then have fresh': "cm_corpus env \<notin> cv_id ` set (t_corpora s)" by (metis imageE)
  show ?thesis
  proof (rule ingest_inv_update [OF inv J(1), of s' "success_job env"])
    show "t_jobs s' = update_where (\<lambda>j. ij_id j = ij_id job) (success_job env) (t_jobs s)"
      using 1 J by simp
    show "touches_only job s s'"
      by (intro touches_onlyI [of _ ?p ?g]) (auto simp: 1 version_of_def corpora_of_def cj success_version_def)
    show "outbox_wf s'" using inv 1 by (simp add: ingest_inv_def outbox_wf_def)
    show "links_ok s'" using inv 1 by (auto simp: ingest_inv_def links_ok_def success_corpus_def)
    show "distinct (map cv_id (t_corpora s'))"
      using inv 1 fresh' by (simp add: ingest_inv_def success_corpus_def)
    show "job_ok mx s' (success_job env job)"
      using jok J(3) v v' cj 1
      by (auto simp: job_ok_def success_job_def success_version_def corpora_of_def version_of_def
          intro!: bexI [of _ "?g v"])
  qed (simp_all add: success_job_def)
qed


definition failure_job :: "worker_config \<Rightarrow> string \<Rightarrow> bool \<Rightarrow> failure_env \<Rightarrow> ingestion_job \<Rightarrow> ingestion_job" where
  "failure_job cfg code retry env j =
     j\<lparr>ij_state := (if retry then JOB_PENDING else JOB_FAILED),
       ij_failure_code := Some code, ij_updated_at := fa_now env, ij_lease_expires_at := None,
       ij_next_attempt_at := (if retry
          then retry_at (wk_retry_base_seconds cfg) (ij_attempt j) (fa_jitter env) (fa_now env)
          else ij_next_attempt_at j),
       ij_completed_at := (if retry then ij_completed_at j else Some (fa_now env))\<rparr>"

lemma schedule_retry_tables [simp]:
  "t_jobs (schedule_retry j t s) = t_jobs s" "t_versions (schedule_retry j t s) = t_versions s"
  "t_corpora (schedule_retry j t s) = t_corpora s"
  "t_corpus_documents (schedule_retry j t s) = t_corpus_documents s"
  "t_chunks (schedule_retry j t s) = t_chunks s"
  "event_key ` set (t_outbox (schedule_retry j t s)) = event_key ` set (t_outbox s)"
proof -
  have "map event_key (t_outbox (schedule_retry j t s)) = map event_key (t_outbox s)"
    by (simp add: schedule_retry_def map_update_where event_key_def)
  then show "event_key ` set (t_outbox (schedule_retry j t s)) = event_key ` set (t_outbox s)"
    by (metis list.set_map)
qed (simp_all add: schedule_retry_def)

text \<open>What \<open>_persist_failure\<close> did: nothing for a stale claim, otherwise a retry or a final failure.\<close>

lemma persist_failure_Inr:
  assumes "persist_failure cfg c code st transient env s = Inr (u, s')"
    and inv: "ingest_inv mx s" and cm: "claim_matches c s"
  obtains (stale) "active_job c (fa_check env) s = None" "s' = s"
  | (active) job retry where "active_job c (fa_check env) s = Some job"
      "retry = (transient \<and> ij_attempt job < wk_max_attempts cfg)"
      "t_jobs s' = update_where (\<lambda>j. ij_id j = cl_id c) (failure_job cfg code retry env) (t_jobs s)"
      "t_versions s' = update_where
         (\<lambda>v. version_of (cl_document_version_id c) (cl_course_id c) v \<and> dv_state v = DV_PROCESSING)
         (\<lambda>v. v\<lparr>dv_state := (if retry then DV_QUEUED else st),
                dv_failure_code := Some code, dv_updated_at := fa_start env\<rparr>) (t_versions s)"
      "t_corpora s' = t_corpora s" "t_corpus_documents s' = t_corpus_documents s"
      "event_key ` set (t_outbox s) \<subseteq> event_key ` set (t_outbox s')"
      "outbox_wf s'" "\<not> retry \<longrightarrow> (ij_id job, Dead_event) \<in> event_key ` set (t_outbox s')"
      "t_chunks s' = t_chunks s"
proof (cases "active_job c (fa_check env) s")
  case None
  with assms(1) show ?thesis by (intro stale) (simp_all add: persist_failure_def)
next
  case (Some job)
  note J = active_job_Some [OF Some]
  define retry where "retry = (transient \<and> ij_attempt job < wk_max_attempts cfg)"
  define next_at where "next_at =
    retry_at (wk_retry_base_seconds cfg) (ij_attempt job) (fa_jitter env) (fa_now env)"
  define f :: "ingestion_job \<Rightarrow> ingestion_job" where "f = (\<lambda>j. j\<lparr>ij_state := (if retry then JOB_PENDING else JOB_FAILED),
       ij_failure_code := Some code, ij_updated_at := fa_now env, ij_lease_expires_at := None,
       ij_next_attempt_at := (if retry then next_at else ij_next_attempt_at j),
       ij_completed_at := (if retry then ij_completed_at j else Some (fa_now env))\<rparr>)"
  define s1 where "s1 = set_job (ij_id job) f s"
  have uniq: "j = job" if "j \<in> set (t_jobs s)" "ij_id j = cl_id c" for j
    using that J inv by (intro key_eqD [of ij_id "t_jobs s"]) (simp_all add: ingest_inv_def)
  have jobs: "t_jobs s1 = update_where (\<lambda>j. ij_id j = cl_id c) (failure_job cfg code retry env) (t_jobs s)"
    unfolding s1_def set_job_tables update_where_def
    using J(2) by (intro map_cong refl) (auto dest: uniq simp: f_def failure_job_def next_at_def)
  obtain s2 where s2: "(if retry then Inr (schedule_retry (f job) next_at s1)
      else record_dead_letter (fa_event env) (fa_start env) (f job) s1) = Inr s2"
    and s': "s' = s2\<lparr>t_versions := update_where
         (\<lambda>v. version_of (cl_document_version_id c) (cl_course_id c) v \<and> dv_state v = DV_PROCESSING)
         (\<lambda>v. v\<lparr>dv_state := (if retry then DV_QUEUED else st),
                dv_failure_code := Some code, dv_updated_at := fa_start env\<rparr>) (t_versions s2)\<rparr>"
  proof -
    have "persist_failure cfg c code st transient env s =
      bindE (if retry then Inr (schedule_retry (f job) next_at s1)
             else record_dead_letter (fa_event env) (fa_start env) (f job) s1)
        (\<lambda>s2. Inr ((), s2\<lparr>t_versions := update_where
         (\<lambda>v. version_of (cl_document_version_id c) (cl_course_id c) v \<and> dv_state v = DV_PROCESSING)
         (\<lambda>v. v\<lparr>dv_state := (if retry then DV_QUEUED else st),
                dv_failure_code := Some code, dv_updated_at := fa_start env\<rparr>) (t_versions s2)\<rparr>))"
      unfolding persist_failure_def Some option.case Let_def s1_def f_def retry_def next_at_def ..
    from assms(1) [unfolded this bindE_eq_Inr] show ?thesis using that by blast
  qed
  have wf1: "outbox_wf s1" using inv by (simp add: ingest_inv_def outbox_wf_def s1_def)
  show ?thesis
  proof (cases retry)
    case True
    with s2 have "s2 = schedule_retry (f job) next_at s1" by simp
    moreover have "outbox_wf s2" using wf1 calculation by (simp add: schedule_retry_wf)
    ultimately show ?thesis using Some retry_def jobs True
      by (intro active [of job retry]) (simp_all add: s' s1_def outbox_wf_def)
  next
    case False
    with s2 have "record_dead_letter (fa_event env) (fa_start env) (f job) s1 = Inr s2" by simp
    note tabs = record_dead_letter_tables [OF this]
    have "(ij_id job, Dead_event) \<in> event_key ` set (t_outbox s2)"
      using tabs(6) by (force simp: f_def)
    moreover have "event_key ` set (t_outbox s) \<subseteq> event_key ` set (t_outbox s2)"
      using tabs(5) by (auto simp: s1_def)
    ultimately show ?thesis using Some retry_def jobs False tabs(1-4,8) tabs(7) [OF wf1]
      by (intro active [of job retry]) (simp_all add: s' s1_def outbox_wf_def)
  qed
qed

lemma persist_failure_inv:
  assumes inv: "ingest_inv (wk_max_attempts cfg) s" and cm: "claim_matches c s"
    and st: "st \<in> {DV_FAILED, DV_REJECTED, DV_OCR_REQUIRED}"
    and ex: "persist_failure cfg c code st transient env s = Inr (u, s')"
  shows "ingest_inv (wk_max_attempts cfg) s'"
  using ex inv cm
proof (cases rule: persist_failure_Inr)
  case stale
  with inv show ?thesis by simp
next
  case (active job retry)
  note J = active_job_Some [OF active(1)]
  note cj = claim_matches_job [OF inv cm J(1,2)]
  let ?p = "\<lambda>v. version_of (cl_document_version_id c) (cl_course_id c) v \<and> dv_state v = DV_PROCESSING"
  let ?g = "\<lambda>v. v\<lparr>dv_state := (if retry then DV_QUEUED else st),
                dv_failure_code := Some code, dv_updated_at := fa_start env\<rparr>"
  have jok: "job_ok (wk_max_attempts cfg) s job" using inv J(1) by (rule ingest_inv_job)
  obtain v where v: "v \<in> set (t_versions s)" "?p v"
    using job_version [OF inv J(1)] J(3) cj by auto
  have v': "?g v \<in> set (t_versions s')"
    unfolding active(4) using v by (intro update_where_hit [of v "t_versions s" ?p ?g])
  have corp: "corpora_of (ij_document_version_id job) s' = corpora_of (ij_document_version_id job) s"
    using active by (simp add: corpora_of_def)
  have dead: "\<not> retry \<Longrightarrow> \<exists>e \<in> set (t_outbox s'). event_key e = (ij_id job, Dead_event)"
    using active(9) by (force)
  show ?thesis
  proof (rule ingest_inv_update [OF inv J(1), of s' "failure_job cfg code retry env"])
    show "t_jobs s' = update_where (\<lambda>j. ij_id j = ij_id job) (failure_job cfg code retry env) (t_jobs s)"
      using active J by simp
    show "touches_only job s s'"
      by (intro touches_onlyI [of _ ?p ?g]) (auto simp: active version_of_def corpora_of_def cj
          intro!: subsetD [OF active(7)])
    show "outbox_wf s'" by fact
    show "links_ok s'" using inv active by (simp add: ingest_inv_def links_ok_def)
    show "distinct (map cv_id (t_corpora s'))" using inv active by (simp add: ingest_inv_def)
    show "job_ok (wk_max_attempts cfg) s' (failure_job cfg code retry env job)"
      using jok J(3) st v v' cj corp dead
      by (auto simp: job_ok_def failure_job_def version_of_def intro!: bexI [of _ "?g v"])
  qed (simp_all add: failure_job_def)
qed


section \<open>A sample\<close>

text \<open>A queued document, its job and its event, for the witnesses.\<close>

definition sample_version :: document_version where
  "sample_version = \<lparr>dv_id = 4, dv_course_id = 3, dv_document_id = 5, dv_storage_key = py ''k'',
     dv_storage_version_id = Some (py ''sv''), dv_original_filename = py ''a.pdf'',
     dv_expected_size_bytes = 3, dv_expected_sha256 = py ''h'', dv_media_type = py ''application/pdf'',
     dv_state = DV_QUEUED, dv_pipeline_version = py ''v1'', dv_parser_version = None,
     dv_upload_idempotency_key = py ''u'', dv_upload_request_hash = py ''r'',
     dv_confirmation_idempotency_key = None, dv_confirmation_request_hash = None,
     dv_object_size_bytes = None, dv_object_sha256 = None, dv_page_count = None,
     dv_chunk_count = None, dv_failure_code = None, dv_created_at = 0, dv_updated_at = 0\<rparr>"

definition sample_cfg :: worker_config where
  "sample_cfg = \<lparr>wk_max_document_bytes = 10, wk_chunk_size = 2, wk_chunk_overlap = 1,
     wk_lease_seconds = 300, wk_max_attempts = 3, wk_retry_base_seconds = 2\<rparr>"

definition sample_claim :: claimed_job where
  "sample_claim = \<lparr>cl_id = 2, cl_course_id = 3, cl_document_version_id = 4,
     cl_storage_key = py ''k'', cl_storage_version_id = py ''sv'', cl_expected_size_bytes = 3,
     cl_expected_sha256 = py ''h'', cl_pipeline_version = py ''v1'', cl_fencing_token = 1\<rparr>"

definition sample_commit :: commit_env where
  "sample_commit = \<lparr>cm_corpus = 20, cm_chunk_id = (\<lambda>i. 30 + of_nat i), cm_check = 20, cm_start = 20,
     cm_wall = 21\<rparr>"

definition sample_build :: build_result where
  "sample_build = \<lparr>br_sha256 = py ''h'', br_size_bytes = 3, br_pages = [],
     br_chunks = [\<lparr>pc_page = 1, pc_ordinal = 0, pc_content = py ''ab'', pc_content_hash = py ''x''\<rparr>],
     br_parser_version = py ''p'', br_embeddings = None, br_embedding_version = None\<rparr>"

lemma sample_cfg_max [simp]: "wk_max_attempts sample_cfg = 3"
  by (simp add: sample_cfg_def)

definition sample_queued :: db where
  "sample_queued = sample_db\<lparr>t_versions := [sample_version]\<rparr>"

definition sample_running :: db where
  "sample_running = sample_queued
     \<lparr>t_jobs := [sample_job\<lparr>ij_state := JOB_RUNNING, ij_attempt := 1, ij_fencing_token := 1,
         ij_lease_expires_at := Some (10 + seconds 300), ij_updated_at := 10\<rparr>],
      t_versions := [sample_version\<lparr>dv_state := DV_PROCESSING, dv_updated_at := 10\<rparr>]\<rparr>"

lemmas ingest_simps = sample_version_def sample_cfg_def sample_claim_def
  sample_commit_def sample_build_def sample_queued_def sample_running_def

lemma sample_queued_inv: "ingest_inv 3 sample_queued"
  by (simp add: ingest_inv_def job_ok_def links_ok_def outbox_wf_def corpora_of_def
      version_of_def ingest_simps sample_simps)

lemma sample_claimed:
  "claim sample_fmt sample_cfg sample_sent_envelope 50 10 10 sample_queued
     = Inr (Some sample_claim, sample_running)"
  by (simp add: claim_def start_job_def Let_def sample_sent_envelope_def envelope_for_def
      set_job_def update_where_def version_of_def one_def ingest_simps sample_simps)

end
