(* ===== verification/Processing.thy ===== *)
theory Processing
  imports Ingestion
begin

text \<open>
  \<^verbatim>\<open>ingestion.py\<close>, \<open>process\<close> and \<open>_embed\<close>: reading, checking, parsing, chunking and embedding a
  claimed document, the mapping of each exception to a failure, and the outcome of one
  delivery. Storage, parser, digests and embedder are parameters, as are the actions of
  other workers between the transactions of one delivery.
\<close>

section \<open>Processing\<close>

type_synonym bytes = "8 word list"

record embedder =
  em_version :: pystr
  em_embed_documents :: "pystr list \<Rightarrow> (exn, fval list list) result"
  em_embed_query :: "pystr \<Rightarrow> (exn, fval list) result"

record services =
  sv_read :: "pystr \<Rightarrow> pystr \<Rightarrow> nat \<Rightarrow> (exn, bytes) result"
  sv_parse :: "bytes \<Rightarrow> (exn, parsed_document) result"
  sv_digest :: "bytes \<Rightarrow> pystr"
  sv_text_digest :: "pystr \<Rightarrow> pystr"
  sv_embedder :: "embedder option"
  sv_monotonic :: "nat \<Rightarrow> time"

text \<open>\<open>int(version.rsplit("|", 2)[1])\<close>; \<open>None\<close> stands for the \<open>IndexError\<close> and the \<open>ValueError\<close>.\<close>

definition rsplit_bar_1 :: "pystr \<Rightarrow> pystr option" where
  "rsplit_bar_1 s =
     (let r = rev s; last_part = rev (takeWhile (\<lambda>c. c \<noteq> 124) r);
          rest = dropWhile (\<lambda>c. c \<noteq> 124) r
      in if rest = [] then None
         else let rest' = tl rest in
           if 124 \<in> set rest' then Some (rev (takeWhile (\<lambda>c. c \<noteq> 124) rest'))
           else Some last_part)"

fun dec_digits_value :: "(nat \<Rightarrow> nat option) \<Rightarrow> nat \<Rightarrow> pystr \<Rightarrow> nat option" where
  "dec_digits_value decimal acc [] = Some acc"
| "dec_digits_value decimal acc (c # cs) =
     (let digit = (\<lambda>d. if 48 \<le> d \<and> d \<le> 57 then Some (d - 48) else if d < 128 then None
                       else decimal d) in
      if c = 95
      then (case cs of [] \<Rightarrow> None | d # ds \<Rightarrow>
              (case digit d of None \<Rightarrow> None | Some v \<Rightarrow> dec_digits_value decimal (10 * acc + v) ds))
      else (case digit c of None \<Rightarrow> None
              | Some v \<Rightarrow> dec_digits_value decimal (10 * acc + v) cs))"

definition py_int10 :: "(nat \<Rightarrow> nat option) \<Rightarrow> pystr \<Rightarrow> int option" where
  "py_int10 decimal s =
     (let t = strip s;
          neg = (t \<noteq> [] \<and> hd t = 45);
          u = (if t \<noteq> [] \<and> (hd t = 45 \<or> hd t = 43) then tl t else t)
      in if u = [] \<or> hd u = 95 then None
         else map_option (\<lambda>n. if neg then - int n else int n) (dec_digits_value decimal 0 u))"

definition embedding_invalid :: exn where
  "embedding_invalid = DocumentProcessingFailure ''EMBEDDING_INVALID'' DV_FAILED"

text \<open>The batches of \<open>_embed\<close>: 32 texts each; \<open>late k\<close> says whether the deadline has passed when
  batch \<open>k\<close> begins.\<close>

function embed_batches ::
  "embedder \<Rightarrow> int \<Rightarrow> (nat \<Rightarrow> bool) \<Rightarrow> nat \<Rightarrow> pystr list \<Rightarrow> (exn, fval list list) result" where
  "embed_batches emb dims late k texts =
     (if texts = [] then Inr []
      else if late k then Inl EmbeddingUnavailable
      else let batch = take 32 texts in
        (case em_embed_documents emb batch of
           Inl e \<Rightarrow> Inl (if e = EmbeddingInvalid then embedding_invalid else e)
         | Inr vs \<Rightarrow>
             if length vs \<noteq> length batch \<or>
                list_ex (\<lambda>v. int (length v) \<noteq> dims \<or> Not_finite \<in> set v) vs
             then Inl embedding_invalid
             else bindE (embed_batches emb dims late (Suc k) (drop 32 texts))
                    (\<lambda>rest. Inr (vs @ rest))))"
  by pat_completeness auto
termination
  by (relation "measure (\<lambda>(emb, dims, late, k, texts). length texts)") auto

declare embed_batches.simps [simp del]

text \<open>\<open>_embed\<close>; the deadline is 0.8 of the lease after the first reading of the monotonic clock.\<close>

definition embed_chunks ::
  "(nat \<Rightarrow> nat option) \<Rightarrow> int \<Rightarrow> (nat \<Rightarrow> time) \<Rightarrow> embedder option \<Rightarrow> parsed_chunk list \<Rightarrow>
   (exn, fval list list option) result" where
  "embed_chunks decimal lease_seconds clock emb chunks =
     (case emb of None \<Rightarrow> Inr None
      | Some e \<Rightarrow>
        (case Option.bind (rsplit_bar_1 (em_version e)) (py_int10 decimal) of
           None \<Rightarrow> Inl embedding_invalid
         | Some dims \<Rightarrow>
             bindE (embed_batches e dims (\<lambda>k. clock (Suc k) \<ge> clock 0 + 800000 * lease_seconds) 0
                     (map pc_content chunks)) (\<lambda>vs. Inr (Some vs))))"

text \<open>The body of the \<open>try\<close> of \<open>process\<close> up to \<open>_persist_success\<close>.\<close>

definition process_document ::
  "(nat \<Rightarrow> nat option) \<Rightarrow> worker_config \<Rightarrow> services \<Rightarrow> claimed_job \<Rightarrow> (exn, build_result) result" where
  "process_document decimal cfg sv c =
     bindE (sv_read sv (cl_storage_key c) (cl_storage_version_id c) (wk_max_document_bytes cfg))
       (\<lambda>content.
     if int (length content) \<noteq> cl_expected_size_bytes c
     then Inl (DocumentProcessingFailure ''DOCUMENT_SIZE_MISMATCH'' DV_REJECTED)
     else if sv_digest sv content \<noteq> cl_expected_sha256 c
     then Inl (DocumentProcessingFailure ''DOCUMENT_CHECKSUM_MISMATCH'' DV_REJECTED)
     else bindE (sv_parse sv content) (\<lambda>parsed.
          bindE (build_chunks (wk_chunk_size cfg) (wk_chunk_overlap cfg) (sv_text_digest sv) parsed)
            (\<lambda>chunks.
          bindE (embed_chunks decimal (wk_lease_seconds cfg) (sv_monotonic sv) (sv_embedder sv) chunks)
            (\<lambda>embeddings.
          Inr \<lparr>br_sha256 = sv_digest sv content, br_size_bytes = int (length content),
               br_pages = pd_pages parsed, br_chunks = chunks,
               br_parser_version = pd_parser_version parsed, br_embeddings = embeddings,
               br_embedding_version = (case (embeddings, sv_embedder sv) of
                  (Some _, Some e) \<Rightarrow> Some (em_version e) | _ \<Rightarrow> None)\<rparr>))))"

text \<open>The \<open>except\<close> clauses, in order: the code, the state of the version and whether the failure is
  transient; \<open>None\<close> re-raises.\<close>

fun failure_of :: "exn \<Rightarrow> (string \<times> document_version_state \<times> bool) option" where
  "failure_of (DocumentProcessingFailure code st) = Some (code, st, False)"
| "failure_of StoredObjectTooLarge = Some (''DOCUMENT_TOO_LARGE'', DV_REJECTED, False)"
| "failure_of StoredObjectNotFound = Some (''UPLOAD_NOT_FOUND'', DV_FAILED, False)"
| "failure_of ObjectStorageUnavailable = Some (''OBJECT_STORAGE_UNAVAILABLE'', DV_FAILED, True)"
| "failure_of EmbeddingUnavailable = Some (''EMBEDDING_UNAVAILABLE'', DV_FAILED, True)"
| "failure_of e = (if is_sqlalchemy_error e then None
                   else Some (''DOCUMENT_PROCESSING_FAILED'', DV_FAILED, False))"

record process_env =
  pe_event :: uuid
  pe_now :: time
  pe_start :: time
  pe_commit :: commit_env
  pe_failure :: failure_env
  pe_others :: "nat \<Rightarrow> db \<Rightarrow> db"

text \<open>\<open>process\<close>. Between its transactions other actors may change the database: \<open>pe_others k\<close> is
  what they did before transaction \<open>k\<close>. The result is whether the delivery may be
  acknowledged.\<close>

definition process ::
  "(time \<Rightarrow> pystr) \<Rightarrow> (nat \<Rightarrow> nat option) \<Rightarrow> worker_config \<Rightarrow> services \<Rightarrow> process_env \<Rightarrow> job_envelope \<Rightarrow>
   db \<Rightarrow> (exn, bool) result \<times> db" where
  "process fmt decimal cfg sv env envelope s =
     (let finish = (\<lambda>t. let t' = pe_others env 3 t in
            (Inr (acknowledgeable (je_job_id envelope) t'), t')) in
      case session (claim fmt cfg envelope (pe_event env) (pe_now env) (pe_start env)) s of
        (Inl e, s1) \<Rightarrow> (Inl e, s1)
      | (Inr None, s1) \<Rightarrow> finish s1
      | (Inr (Some c), s1) \<Rightarrow>
        let s2 = pe_others env 1 s1;
            outcome = (case process_document decimal cfg sv c of
                Inl e \<Rightarrow> (Inl e, s2)
              | Inr r \<Rightarrow> session (persist_success c (pe_commit env) r) s2)
        in (case outcome of
              (Inr _, s3) \<Rightarrow> finish s3
            | (Inl e, s3) \<Rightarrow>
              (case failure_of e of
                 None \<Rightarrow> (Inl e, s3)
               | Some (code, st, transient) \<Rightarrow>
                 (case session (persist_failure cfg c code st transient (pe_failure env))
                         (pe_others env 2 s3) of
                    (Inl e', s4) \<Rightarrow> (Inl e', s4)
                  | (Inr _, s4) \<Rightarrow> finish s4))))"

section \<open>Embeddings are complete\<close>

lemma embed_batches_ok:
  "embed_batches emb dims late k texts = Inr vs \<Longrightarrow>
     length vs = length texts \<and> (\<forall>v \<in> set vs. int (length v) = dims \<and> Not_finite \<notin> set v)"
proof (induction emb dims late k texts arbitrary: vs rule: embed_batches.induct)
  case (1 emb dims late k texts)
  show ?case
  proof (cases "texts = []")
    case True
    then show ?thesis using "1.prems" by (simp add: embed_batches.simps)
  next
    case False
    note prems = "1.prems" [unfolded embed_batches.simps [of emb dims late k texts]]
    have nl: "\<not> late k" using prems False by (auto split: if_splits)
    let ?batch = "take 32 texts"
    obtain ws where ws: "em_embed_documents emb ?batch = Inr ws"
      using prems False nl by (auto simp: Let_def split: sum.splits)
    let ?bad = "length ws \<noteq> length ?batch \<or>
      list_ex (\<lambda>v. int (length v) \<noteq> dims \<or> Not_finite \<in> set v) ws"
    have nb: "\<not> ?bad" using prems False nl ws by (simp add: Let_def split: if_splits)
    obtain rest where rest: "embed_batches emb dims late (Suc k) (drop 32 texts) = Inr rest"
      "vs = ws @ rest"
      using prems False nl ws nb by (auto simp: Let_def bindE_eq_Inr split: if_splits)
    have "length rest = length (drop 32 texts) \<and>
      (\<forall>v \<in> set rest. int (length v) = dims \<and> Not_finite \<notin> set v)"
      by (rule "1.IH" [OF False nl refl ws nb rest(1)])
    then show ?thesis using nb rest(2) by (auto simp: list_ex_iff)
  qed
qed

lemma embed_chunks_ok:
  assumes "embed_chunks decimal lease clock emb chunks = Inr (Some vs)"
  shows "length vs = length chunks" "\<And>v. v \<in> set vs \<Longrightarrow> Not_finite \<notin> set v"
    "\<exists>e dims. emb = Some e \<and> (\<forall>v \<in> set vs. int (length v) = dims)"
  using assms
  by (auto simp: embed_chunks_def bindE_eq_Inr split: option.splits dest!: embed_batches_ok)

lemma process_document_Inr:
  assumes "process_document decimal cfg sv c = Inr r"
  obtains content parsed where
    "sv_read sv (cl_storage_key c) (cl_storage_version_id c) (wk_max_document_bytes cfg) = Inr content"
    "int (length content) = cl_expected_size_bytes c" "sv_digest sv content = cl_expected_sha256 c"
    "sv_parse sv content = Inr parsed"
    "build_chunks (wk_chunk_size cfg) (wk_chunk_overlap cfg) (sv_text_digest sv) parsed = Inr (br_chunks r)"
    "embed_chunks decimal (wk_lease_seconds cfg) (sv_monotonic sv) (sv_embedder sv) (br_chunks r)
       = Inr (br_embeddings r)"
    "br_sha256 r = cl_expected_sha256 c" "br_size_bytes r = cl_expected_size_bytes c"
    "br_pages r = pd_pages parsed"
    "br_embedding_version r = (case (br_embeddings r, sv_embedder sv) of
                  (Some _, Some e) \<Rightarrow> Some (em_version e) | _ \<Rightarrow> None)"
proof -
  obtain content where content: "sv_read sv (cl_storage_key c) (cl_storage_version_id c)
      (wk_max_document_bytes cfg) = Inr content"
    using assms by (auto simp: process_document_def bindE_eq_Inr)
  have checks: "int (length content) = cl_expected_size_bytes c"
    "sv_digest sv content = cl_expected_sha256 c"
    using assms content by (auto simp: process_document_def split: if_splits)
  then show ?thesis
    using assms content that [OF content checks]
    by (auto simp: process_document_def bindE_eq_Inr)
qed


text \<open>A storage with one object of three bytes and a parser that finds one page of text, or a
  storage that fails with \<open>e\<close>.\<close>

definition sample_services :: services where
  "sample_services = \<lparr>sv_read = (\<lambda>_ _ _. Inr [1, 2, 3]),
     sv_parse = (\<lambda>_. Inr \<lparr>pd_pages = [\<lparr>pp_number = 1, pp_text = py ''ab''\<rparr>], pd_parser_version = py ''p''\<rparr>),
     sv_digest = (\<lambda>_. py ''h''), sv_text_digest = (\<lambda>_. py ''x''), sv_embedder = None,
     sv_monotonic = (\<lambda>_. 0)\<rparr>"

definition sample_outage :: services where
  "sample_outage = sample_services\<lparr>sv_read := (\<lambda>_ _ _. Inl ObjectStorageUnavailable)\<rparr>"

definition sample_env :: process_env where
  "sample_env = \<lparr>pe_event = 50, pe_now = 10, pe_start = 10, pe_commit = sample_commit,
     pe_failure = \<lparr>fa_event = 60, fa_check = 12, fa_now = 13, fa_start = 12, fa_jitter = 1 / 2\<rparr>,
     pe_others = (\<lambda>_ t. t)\<rparr>"

section \<open>Retry delays\<close>

lemma round_half_even_of_int [simp]: "round_half_even (of_int n) = n"
  by (simp add: round_half_even_def)

lemma round_half_even_mono: "x \<le> y \<Longrightarrow> round_half_even x \<le> round_half_even y"
proof -
  assume le: "x \<le> y"
  then have f: "floor x \<le> floor y" by (rule floor_mono)
  show ?thesis
  proof (cases "floor x = floor y")
    case True
    then show ?thesis using le by (auto simp: round_half_even_def Let_def)
  next
    case False
    with f have "floor x + 1 \<le> floor y" by simp
    moreover have "round_half_even x \<le> floor x + 1" "floor y \<le> round_half_even y"
      by (auto simp: round_half_even_def Let_def)
    ultimately show ?thesis by linarith
  qed
qed

text \<open>Retries back off within bounds. For a jitter in [0, 1] and a base delay of at least zero
  the next attempt lies at least half a delay and at most one delay after now; the delay
  doubles with every attempt and never exceeds 60 seconds.\<close>

lemma retry_at_bounds:
  assumes "0 \<le> r" "r \<le> 1" "0 \<le> base" "1 \<le> attempt"
  shows "now + round_half_even (500000 * retry_delay base attempt) \<le> retry_at base attempt r now \<and>
     retry_at base attempt r now \<le> now + round_half_even (1000000 * retry_delay base attempt) \<and>
     retry_at base attempt r now \<le> now + seconds 60 \<and>
     retry_delay base attempt \<le> retry_delay base (attempt + 1) \<and>
     retry_delay base (attempt + 1) \<le> 2 * retry_delay base attempt"
proof -
  let ?d = "retry_delay base attempt"
  have pow: "(2 :: rat) powi attempt = 2 * 2 powi (attempt - 1)"
    using power_int_minus_mult [of "2 :: rat" attempt] by simp
  have pos: "0 \<le> base * 2 powi (attempt - 1)" using assms(3) by simp
  then have d: "0 \<le> ?d" "?d \<le> 60" by (auto simp: retry_delay_def)
  have lo: "500000 * ?d \<le> 1000000 * uniform (?d / 2) ?d r"
    using d(1) assms(1) by (simp add: uniform_def field_simps)
  have hi: "1000000 * uniform (?d / 2) ?d r \<le> 1000000 * ?d"
    using mult_left_mono [OF assms(2) d(1)] by (simp add: uniform_def field_simps)
  have "round_half_even (1000000 * ?d) \<le> round_half_even (of_int 60000000)"
    using d(2) by (intro round_half_even_mono) simp
  then have cap: "round_half_even (1000000 * ?d) \<le> seconds 60"
    unfolding round_half_even_of_int by (simp add: seconds_def)
  have "retry_delay base (attempt + 1) = min 60 (2 * (base * 2 powi (attempt - 1)))"
    by (simp add: retry_delay_def pow)
  then have "?d \<le> retry_delay base (attempt + 1)" "retry_delay base (attempt + 1) \<le> 2 * ?d"
    using pos by (auto simp: retry_delay_def min_def)
  then show ?thesis
    using round_half_even_mono [OF lo] round_half_even_mono [OF hi] cap
    by (simp add: retry_at_def Let_def)
qed

section \<open>What is committed\<close>

text \<open>Only the announced document is processed. When the pipeline yields a result, the bytes
  read have the size and the digest recorded at the upload, these are what the result
  reports, there is at least one chunk, the chunks are numbered from 0 without gaps and cut
  from the parsed pages, and an embedder has provided exactly one finite vector per chunk,
  all of one dimension.\<close>

lemma process_document_integrity:
  assumes "process_document decimal cfg sv c = Inr r"
  shows "(\<exists>content. sv_read sv (cl_storage_key c) (cl_storage_version_id c) (wk_max_document_bytes cfg)
        = Inr content \<and> sv_digest sv content = br_sha256 r \<and> int (length content) = br_size_bytes r) \<and>
     br_sha256 r = cl_expected_sha256 c \<and> br_size_bytes r = cl_expected_size_bytes c \<and>
     br_chunks r \<noteq> [] \<and> map pc_ordinal (br_chunks r) = [0..<length (br_chunks r)] \<and>
     (\<forall>k \<in> set (br_chunks r). pc_page k \<in> pp_number ` set (br_pages r)) \<and>
     (br_embeddings r = None \<longleftrightarrow> sv_embedder sv = None) \<and>
     (\<forall>vs. br_embeddings r = Some vs \<longrightarrow> length vs = length (br_chunks r) \<and>
        (\<exists>d. \<forall>v \<in> set vs. int (length v) = d \<and> Not_finite \<notin> set v))"
  using assms
proof (cases rule: process_document_Inr)
  case (1 content parsed)
  note cs = build_chunks_Inr [OF 1(5)]
  have ne: "br_chunks r \<noteq> []" using 1(5) by (auto simp: build_chunks_def Let_def split: if_splits)
  have ords: "map pc_ordinal (br_chunks r) = [0..<length (br_chunks r)]"
    by (subst (1 2) cs) (simp add: ordinals_number_chunks)
  have pages: "pc_page k \<in> pp_number ` set (br_pages r)" if "k \<in> set (br_chunks r)" for k
    using that in_number_chunks [of k] cs 1(9) by (fastforce simp: in_document_contents)
  have none: "br_embeddings r = None \<longleftrightarrow> sv_embedder sv = None"
    using 1(6) by (cases "br_embeddings r") (auto simp: embed_chunks_def bindE_eq_Inr split: option.splits)
  have emb: "length vs = length (br_chunks r) \<and>
      (\<exists>d. \<forall>v \<in> set vs. int (length v) = d \<and> Not_finite \<notin> set v)" if "br_embeddings r = Some vs" for vs
    using embed_chunks_ok [OF 1(6) [unfolded that]] by blast
  show ?thesis using 1(1,2,3,7,8) ne ords pages none emb by simp
qed


lemma sample_processed:
  "process_document (\<lambda>_. None) sample_cfg sample_services sample_claim =
     Inr (sample_build\<lparr>br_pages := [\<lparr>pp_number = 1, pp_text = py ''ab''\<rparr>]\<rparr>)"
  by (simp add: process_document_def sample_services_def ingest_simps build_chunks_def
      page_loop.simps window_end_def rfind_char_def slice_def strip_def is_space_def Let_def
      embed_chunks_def py_def)

section \<open>The outcome of one delivery\<close>

text \<open>A claim just taken is active until its lease ends.\<close>

lemma claim_active:
  assumes inv: "ingest_inv (wk_max_attempts cfg) s"
    and cl: "claim fmt cfg envelope eid now start s = Inr (Some c, s1)"
    and lease: "check < now + seconds (wk_lease_seconds cfg)"
  obtains job where "active_job c check s1 = Some job" "cl_id c = je_job_id envelope" "claim_matches c s1"
proof -
  from cl obtain job where job: "job \<in> set (t_jobs s)" "ij_id job = je_job_id envelope"
    "start_job (wk_lease_seconds cfg) now start job s = Inr (Some c, s1)"
    by (cases rule: claim_cases) auto
  have inv1: "ingest_inv (wk_max_attempts cfg) s1" using claim_inv [OF inv cl] .
  from job(3) show ?thesis
  proof (cases rule: start_job_Inr)
    case (1 version sv)
    let ?f = "\<lambda>j. j\<lparr>ij_state := JOB_RUNNING, ij_attempt := ij_attempt j + 1,
      ij_fencing_token := ij_fencing_token j + 1,
      ij_lease_expires_at := Some (now + seconds (wk_lease_seconds cfg)), ij_updated_at := now\<rparr>"
    have mem: "?f job \<in> set (t_jobs s1)"
      using update_where_hit [OF job(1), of "\<lambda>j. ij_id j = ij_id job" ?f] by (simp add: 1(1))
    have "active_job c check s1 = Some (?f job)"
      unfolding active_job_def
    proof (rule find_unique [OF mem])
      fix y assume "y \<in> set (t_jobs s1)" "ij_id y = cl_id c \<and> ij_state y = JOB_RUNNING \<and>
        ij_fencing_token y = cl_fencing_token c \<and>
        (case ij_lease_expires_at y of None \<Rightarrow> False | Some t \<Rightarrow> t > check)"
      then show "y = ?f job" using same_job [OF inv1 mem] 1(2) by simp
    qed (use 1(2) lease in simp)
    moreover have "claim_matches c s1"
      unfolding claim_matches_def using mem 1(2) by (intro bexI [of _ "?f job"]) simp_all
    ultimately show ?thesis using that 1(2) job(2) by simp
  qed
qed

lemma persist_failure_ok:
  assumes "active_job c (fa_check env) s = Some job"
    and "\<forall>e \<in> set (t_outbox s). oe_id e \<noteq> fa_event env"
  shows "\<exists>s'. persist_failure cfg c code st transient env s = Inr ((), s')"
proof -
  note J = active_job_Some [OF assms(1)]
  have dead: "\<exists>s2. record_dead_letter (fa_event env) t (f job) (set_job (ij_id job) f s) = Inr s2"
    if "\<And>j. ij_id (f j) = ij_id j \<and> ij_course_id (f j) = ij_course_id j" for f t
  proof -
    have "f job \<in> set (t_jobs (set_job (ij_id job) f s))"
      using update_where_hit [OF J(1), of "\<lambda>j. ij_id j = ij_id job" f] by simp
    then have "exists_where (\<lambda>j. ij_id j = ij_id (f job) \<and> ij_course_id j = ij_course_id (f job))
        (t_jobs (set_job (ij_id job) f s))"
      by (auto simp: exists_where_iff)
    moreover have "\<not> exists_where (\<lambda>e. oe_id e = fa_event env) (t_outbox (set_job (ij_id job) f s))"
      using assms(2) by (simp add: exists_where_iff)
    ultimately show ?thesis unfolding record_dead_letter_def insert_event_def by auto
  qed
  show ?thesis
  proof (cases "transient \<and> ij_attempt job < wk_max_attempts cfg")
    case True
    then show ?thesis by (simp add: persist_failure_def assms(1) Let_def)
  next
    case False
    let ?f = "\<lambda>j. j\<lparr>ij_state := JOB_FAILED, ij_failure_code := Some code, ij_updated_at := fa_now env,
      ij_lease_expires_at := None, ij_completed_at := Some (fa_now env)\<rparr>"
    obtain s2 where "record_dead_letter (fa_event env) (fa_start env) (?f job) (set_job (ij_id job) ?f s) = Inr s2"
      using dead [of ?f] by auto
    then show ?thesis using False
      by (cases transient) (simp_all add: persist_failure_def assms(1) Let_def)
  qed
qed

text \<open>Every failure of the pipeline is reported. A worker that takes a job, fails with an
  exception that is not a database error, and reports within its lease acknowledges the
  delivery and leaves the job with the failure code of that exception: waiting for a retry
  when the failure is transient and attempts are left, failed otherwise.\<close>

lemma process_reports_failure:
  assumes inv: "ingest_inv (wk_max_attempts cfg) s"
    and cl: "claim fmt cfg envelope (pe_event env) (pe_now env) (pe_start env) s = Inr (Some c, s1)"
    and doc: "process_document decimal cfg sv c = Inl e" "failure_of e = Some (code, st, transient)"
    and quiet: "pe_others env = (\<lambda>_ t. t)"
    and lease: "fa_check (pe_failure env) < pe_now env + seconds (wk_lease_seconds cfg)"
    and fresh: "\<forall>e \<in> set (t_outbox s1). oe_id e \<noteq> fa_event (pe_failure env)"
  shows "\<exists>s'. process fmt decimal cfg sv env envelope s = (Inr True, s') \<and>
     (\<exists>j \<in> set (t_jobs s'). ij_id j = je_job_id envelope \<and> ij_failure_code j = Some code \<and>
        ij_state j = (if transient \<and> ij_attempt j < wk_max_attempts cfg then JOB_PENDING else JOB_FAILED))"
proof -
  obtain job where job: "active_job c (fa_check (pe_failure env)) s1 = Some job"
    "cl_id c = je_job_id envelope" "claim_matches c s1"
    using claim_active [OF inv cl lease] by blast
  obtain s' where s': "persist_failure cfg c code st transient (pe_failure env) s1 = Inr ((), s')"
    using persist_failure_ok [OF job(1) fresh] by blast
  note inv1 = claim_inv [OF inv cl] and J = active_job_Some [OF job(1)]
  from s' inv1 job(3) show ?thesis
  proof (cases rule: persist_failure_Inr)
    case stale
    then show ?thesis using job(1) by simp
  next
    case (active job' retry)
    let ?j = "failure_job cfg code retry (pe_failure env) job"
    have eq: "job' = job" using active(1) job(1) by simp
    have mem: "?j \<in> set (t_jobs s')"
      using update_where_hit [OF J(1), of "\<lambda>j. ij_id j = cl_id c" "failure_job cfg code retry (pe_failure env)"]
        J(2) by (simp add: active(3))
    have "find (\<lambda>j. ij_id j = je_job_id envelope) (t_jobs s') = Some ?j"
    proof (rule find_unique [OF mem])
      fix y assume "y \<in> set (t_jobs s')" "ij_id y = je_job_id envelope"
      then show "y = ?j"
        using same_job [OF inv1 J(1)] J(2) job(2)
        by (auto simp: active(3) set_update_where failure_job_def split: if_splits)
    qed (use J(2) job(2) in \<open>simp add: failure_job_def\<close>)
    then have "acknowledgeable (je_job_id envelope) s'"
      by (simp add: acknowledgeable_def failure_job_def)
    moreover have "process fmt decimal cfg sv env envelope s =
        (Inr (acknowledgeable (je_job_id envelope) s'), s')"
      using cl doc quiet s' by (simp add: process_def Let_def)
    moreover have "ij_id ?j = je_job_id envelope" "ij_failure_code ?j = Some code"
      "ij_state ?j = (if transient \<and> ij_attempt ?j < wk_max_attempts cfg then JOB_PENDING else JOB_FAILED)"
      using J(2) job(2) active(2) eq by (simp_all add: failure_job_def)
    ultimately show ?thesis using mem by auto
  qed
qed

lemma sample_cfg_lease: "wk_lease_seconds sample_cfg = 300"
  by (simp add: sample_cfg_def)

end
