(* ===== verification/Worker_Pool.thy ===== *)
theory Worker_Pool
  imports Processing
begin

text \<open>
  Workers, relays and reconcilers as one state machine over the transactions of
  \<^verbatim>\<open>ingestion.py\<close> and \<^verbatim>\<open>jobs.py\<close>, and the theorems that hold for every run of it: each
  document is published exactly once, fencing tokens decide who may write, finished jobs
  are never written again.
\<close>

section \<open>Workers, relays and the reconciler together\<close>

text \<open>Any number of workers, relays and reconcilers act on one database, one transaction at a
  time, in an order the environment chooses. The pool keeps the claims workers hold; a worker
  may commit or fail any claim it ever received, also long after its lease expired.\<close>

record pool =
  pl_db :: db
  pl_claims :: "claimed_job list"

datatype pool_event =
    Take job_envelope uuid time time
  | Publish nat commit_env build_result
  | Give_up nat exn failure_env
  | Relay_lease uuid time
  | Relay_confirm uuid uuid time
  | Reconcile int time

text \<open>The states a processing failure of the parser, the chunker and the embedder carries.\<close>

fun worker_error :: "exn \<Rightarrow> bool" where
  "worker_error (DocumentProcessingFailure code st) = (st \<in> {DV_FAILED, DV_REJECTED, DV_OCR_REQUIRED})"
| "worker_error _ = True"

fun pool_step :: "(time \<Rightarrow> pystr) \<Rightarrow> worker_config \<Rightarrow> pool_event \<Rightarrow> pool \<Rightarrow> pool" where
  "pool_step fmt cfg (Take envelope eid now start) p =
     (case session (claim fmt cfg envelope eid now start) (pl_db p) of
        (Inr (Some c), s') \<Rightarrow> \<lparr>pl_db = s', pl_claims = pl_claims p @ [c]\<rparr>
      | (_, s') \<Rightarrow> p\<lparr>pl_db := s'\<rparr>)"
| "pool_step fmt cfg (Publish i env r) p =
     (if i < length (pl_claims p)
      then p\<lparr>pl_db := snd (session (persist_success (pl_claims p ! i) env r) (pl_db p))\<rparr> else p)"
| "pool_step fmt cfg (Give_up i e env) p =
     (case failure_of e of
        Some (code, st, transient) \<Rightarrow>
          if i < length (pl_claims p) \<and> worker_error e
          then p\<lparr>pl_db := snd (session (persist_failure cfg (pl_claims p ! i) code st transient env)
                               (pl_db p))\<rparr> else p
      | None \<Rightarrow> p)"
| "pool_step fmt cfg (Relay_lease tok now) p =
     p\<lparr>pl_db := snd (session (relay_lease fmt tok now) (pl_db p))\<rparr>"
| "pool_step fmt cfg (Relay_confirm tok eid now) p = p\<lparr>pl_db := relay_confirm tok eid now (pl_db p)\<rparr>"
| "pool_step fmt cfg (Reconcile n now) p = p\<lparr>pl_db := snd (reconcile n now (pl_db p))\<rparr>"

definition claim_key :: "claimed_job \<Rightarrow> uuid \<times> int" where
  "claim_key c = (cl_id c, cl_fencing_token c)"

definition pool_inv :: "int \<Rightarrow> pool \<Rightarrow> bool" where
  "pool_inv mx p \<longleftrightarrow> ingest_inv mx (pl_db p) \<and> distinct (map claim_key (pl_claims p)) \<and>
     (\<forall>c \<in> set (pl_claims p). claim_matches c (pl_db p))"

text \<open>What no step undoes: jobs stay, tokens and attempts only grow, a finished job is never
  written again, published corpora, their documents and chunks stay.\<close>

definition job_grows :: "ingestion_job \<Rightarrow> ingestion_job \<Rightarrow> bool" where
  "job_grows j j' \<longleftrightarrow>
     ij_id j' = ij_id j \<and> ij_course_id j' = ij_course_id j \<and>
     ij_document_version_id j' = ij_document_version_id j \<and>
     ij_attempt j \<le> ij_attempt j' \<and> ij_fencing_token j \<le> ij_fencing_token j' \<and>
     (ij_state j \<in> {JOB_SUCCEEDED, JOB_FAILED} \<longrightarrow> j' = j)"

definition db_grows :: "db \<Rightarrow> db \<Rightarrow> bool" where
  "db_grows s t \<longleftrightarrow>
     (\<forall>j \<in> set (t_jobs s). \<exists>j' \<in> set (t_jobs t). job_grows j j') \<and>
     set (t_corpora s) \<subseteq> set (t_corpora t) \<and>
     set (t_corpus_documents s) \<subseteq> set (t_corpus_documents t) \<and> set (t_chunks s) \<subseteq> set (t_chunks t)"

lemma job_grows_refl: "job_grows j j"
  by (simp add: job_grows_def)

lemma job_grows_trans: "job_grows i j \<Longrightarrow> job_grows j k \<Longrightarrow> job_grows i k"
  by (auto simp: job_grows_def)

lemma db_grows_refl: "db_grows s s"
  by (auto simp: db_grows_def intro: job_grows_refl)

lemma db_grows_trans: "db_grows s t \<Longrightarrow> db_grows t u \<Longrightarrow> db_grows s u"
  unfolding db_grows_def by (meson job_grows_trans subset_trans)

lemma db_grows_jobs_same:
  assumes "t_jobs t = t_jobs s" "t_corpora t = t_corpora s"
    "t_corpus_documents t = t_corpus_documents s" "t_chunks t = t_chunks s"
  shows "db_grows s t"
  using assms by (auto simp: db_grows_def intro: job_grows_refl)

lemma db_grows_update:
  assumes "t_jobs t = update_where p f (t_jobs s)"
    and "\<And>j. j \<in> set (t_jobs s) \<Longrightarrow> p j \<Longrightarrow> job_grows j (f j)"
    and "set (t_corpora s) \<subseteq> set (t_corpora t)"
      "set (t_corpus_documents s) \<subseteq> set (t_corpus_documents t)" "set (t_chunks s) \<subseteq> set (t_chunks t)"
  shows "db_grows s t"
proof -
  have "\<exists>j' \<in> set (t_jobs t). job_grows j j'" if "j \<in> set (t_jobs s)" for j
    using that assms(2) [OF that] job_grows_refl [of j]
    by (cases "p j") (auto simp: assms(1) set_update_where)
  then show ?thesis using assms(3-5) by (simp add: db_grows_def)
qed

lemma claim_matches_grows: "claim_matches c s \<Longrightarrow> db_grows s t \<Longrightarrow> claim_matches c t"
  unfolding claim_matches_def db_grows_def job_grows_def
  by (metis order_trans)


lemma claim_grows:
  assumes inv: "ingest_inv mx s" and cl: "claim fmt cfg envelope eid now start s = Inr (r, s')"
  shows "db_grows s s'"
  using cl
proof (cases rule: claim_cases)
  case ignored
  then show ?thesis by (simp add: db_grows_refl)
next
  case (exhausted job)
  obtain f s2 where rd: "record_dead_letter eid start (f job) s2 = Inr s'"
    and s2: "t_jobs s2 = update_where (\<lambda>j. ij_id j = ij_id job) f (t_jobs s)"
      "t_corpora s2 = t_corpora s" "t_corpus_documents s2 = t_corpus_documents s" "t_chunks s2 = t_chunks s"
    and f: "\<And>j. ij_state j \<notin> {JOB_SUCCEEDED, JOB_FAILED} \<Longrightarrow> job_grows j (f j)"
    using exhausted(5) unfolding exhaust_job_def Let_def
    by (rule that) (simp_all add: job_grows_def)
  note tabs = record_dead_letter_tables [OF rd]
  have "job_grows j (f j)" if "j \<in> set (t_jobs s)" "ij_id j = ij_id job" for j
    using same_job [OF inv exhausted(1) that] exhausted(3) f by blast
  then show ?thesis
    by (intro db_grows_update [of s' "\<lambda>j. ij_id j = ij_id job" f]) (simp_all add: tabs s2)
next
  case (started job)
  from started(7) show ?thesis
  proof (cases rule: start_job_Inr)
    case (1 version sv)
    have "ij_state j \<notin> {JOB_SUCCEEDED, JOB_FAILED}" if "j \<in> set (t_jobs s)" "ij_id j = ij_id job" for j
      using same_job [OF inv started(1) that] started(3) by blast
    then show ?thesis
      by (intro db_grows_update [of s' "\<lambda>j. ij_id j = ij_id job"
            "\<lambda>j. j\<lparr>ij_state := JOB_RUNNING, ij_attempt := ij_attempt j + 1,
             ij_fencing_token := ij_fencing_token j + 1,
             ij_lease_expires_at := Some (now + seconds (wk_lease_seconds cfg)), ij_updated_at := now\<rparr>"])
        (simp_all add: 1(1) job_grows_def)
  qed
qed

lemma active_same:
  assumes "ingest_inv mx s" "active_job c now s = Some job" "j \<in> set (t_jobs s)" "ij_id j = cl_id c"
  shows "ij_state j = JOB_RUNNING"
  using assms active_job_Some [OF assms(2)] same_job [OF assms(1) _ assms(3), of job] by simp

lemma persist_success_grows:
  assumes inv: "ingest_inv mx s" and ex: "persist_success c env r s = Inr (u, s')"
  shows "db_grows s s'"
  using ex
proof (cases rule: persist_success_Inr)
  case (1 job es)
  have "job_grows j (success_job env j)" if "j \<in> set (t_jobs s)" "ij_id j = cl_id c" for j
    using active_same [OF inv 1(1) that] by (simp add: job_grows_def success_job_def)
  then show ?thesis
    by (intro db_grows_update [of s' "\<lambda>j. ij_id j = cl_id c" "success_job env"]) (auto simp: 1)
qed

lemma persist_failure_grows:
  assumes inv: "ingest_inv mx s" and cm: "claim_matches c s"
    and ex: "persist_failure cfg c code st transient env s = Inr (u, s')"
  shows "db_grows s s'"
  using ex inv cm
proof (cases rule: persist_failure_Inr)
  case stale
  then show ?thesis by (simp add: db_grows_refl)
next
  case (active job retry)
  have "job_grows j (failure_job cfg code retry env j)"
    if "j \<in> set (t_jobs s)" "ij_id j = cl_id c" for j
    using active_same [OF inv active(1) that] by (simp add: job_grows_def failure_job_def)
  then show ?thesis
    by (intro db_grows_update [of s' "\<lambda>j. ij_id j = cl_id c" "failure_job cfg code retry env"])
      (simp_all add: active)
qed

text \<open>The relay and the reconciler only touch delivery columns.\<close>

lemma ingest_inv_outbox:
  assumes inv: "ingest_inv mx s" and s': "s' = s\<lparr>t_outbox := es\<rparr>"
    and es: "map oe_id es = map oe_id (t_outbox s)" "map event_key es = map event_key (t_outbox s)"
  shows "ingest_inv mx s'"
proof -
  have keys: "event_key ` set es = event_key ` set (t_outbox s)"
    using es(2) by (metis list.set_map)
  have "job_ok mx s' j" if "job_ok mx s j" for j
  proof -
    have "(\<exists>e \<in> set es. event_key e = k) = (\<exists>e \<in> set (t_outbox s). event_key e = k)" for k
    proof -
      have "(\<exists>e \<in> set xs. event_key e = k) = (k \<in> event_key ` set xs)" for xs by auto
      then show ?thesis by (simp only: keys)
    qed
    then show ?thesis using that by (simp add: job_ok_def s' corpora_of_def)
  qed
  then show ?thesis using inv es by (simp add: ingest_inv_def outbox_wf_def links_ok_def s')
qed

lemma delivery_steps_inv:
  assumes "ingest_inv mx s"
  shows "ingest_inv mx (snd (session (relay_lease fmt tok now) s))"
    "ingest_inv mx (relay_confirm tok eid now s)" "ingest_inv mx (snd (reconcile n now s))"
proof -
  show "ingest_inv mx (relay_confirm tok eid now s)"
    unfolding relay_confirm_def
    by (rule ingest_inv_outbox [OF assms refl]) (simp_all add: map_update_where event_key_def)
  show "ingest_inv mx (snd (reconcile n now s))"
    unfolding reconcile_def snd_conv
    by (rule ingest_inv_outbox [OF assms refl]) (simp_all add: map_update_where event_key_def)
  show "ingest_inv mx (snd (session (relay_lease fmt tok now) s))"
  proof (rule session_inv)
    fix r s' assume r: "relay_lease fmt tok now s = Inr (r, s')"
    show "ingest_inv mx s'"
    proof (cases r)
      case None
      with r assms show ?thesis by (auto simp: relay_lease_def Let_def split: list.splits prod.splits)
    next
      case (Some x)
      obtain k env fs where x: "x = (k, env, fs)" by (cases x)
      obtain e :: outbox_event where "s' = s\<lparr>t_outbox := update_where (\<lambda>x. oe_id x = oe_id e)
        (\<lambda>x. x\<lparr>oe_publish_token := Some tok,
               oe_publish_lease_until := Some (now + seconds 30)\<rparr>) (t_outbox s)\<rparr>"
        using r unfolding Some x by (rule relay_lease_Some) (rule that)
      then show ?thesis
        by (rule ingest_inv_outbox [OF assms]) (simp_all add: map_update_where event_key_def)
    qed
  qed (rule assms)
qed


section \<open>The invariant of the pool\<close>

text \<open>A claim carries the keys of its job and the token it was given.\<close>

lemma claim_taken:
  assumes inv: "ingest_inv mx s" and cl: "claim fmt cfg envelope eid now start s = Inr (Some c, s')"
  shows "claim_matches c s'"
    and "\<And>j. j \<in> set (t_jobs s) \<Longrightarrow> ij_id j = cl_id c \<Longrightarrow> ij_fencing_token j < cl_fencing_token c"
proof -
  from cl obtain job where job: "job \<in> set (t_jobs s)"
    "start_job (wk_lease_seconds cfg) now start job s = Inr (Some c, s')"
    by (cases rule: claim_cases) auto
  from job(2) show "claim_matches c s'"
  proof (cases rule: start_job_Inr)
    case (1 version sv)
    let ?f = "\<lambda>j. j\<lparr>ij_state := JOB_RUNNING, ij_attempt := ij_attempt j + 1,
      ij_fencing_token := ij_fencing_token j + 1,
      ij_lease_expires_at := Some (now + seconds (wk_lease_seconds cfg)), ij_updated_at := now\<rparr>"
    have "?f job \<in> set (t_jobs s')"
      using update_where_hit [OF job(1), of "\<lambda>j. ij_id j = ij_id job" ?f] by (simp add: 1(1))
    then show ?thesis using 1(2) unfolding claim_matches_def by (intro bexI [of _ "?f job"]) simp_all
  qed
  fix j assume j: "j \<in> set (t_jobs s)" "ij_id j = cl_id c"
  from job(2) show "ij_fencing_token j < cl_fencing_token c"
  proof (cases rule: start_job_Inr)
    case (1 version sv)
    then show ?thesis using j same_job [OF inv job(1) j(1)] by simp
  qed
qed

lemma pool_claims_kept:
  assumes "pool_inv mx p" "ingest_inv mx s'" "db_grows (pl_db p) s'"
  shows "pool_inv mx (p\<lparr>pl_db := s'\<rparr>)"
  using assms claim_matches_grows by (fastforce simp: pool_inv_def)

lemma session_state:
  assumes "\<And>r s'. body s = Inr (r, s') \<Longrightarrow> Q s'" "Q s"
  shows "Q (snd (session body s))"
  using assms by (cases rule: session_cases [of body s]) auto

lemma take_inv:
  assumes inv: "pool_inv (wk_max_attempts cfg) p"
  shows "pool_inv (wk_max_attempts cfg) (pool_step fmt cfg (Take envelope eid now start) p)"
    and "db_grows (pl_db p) (pl_db (pool_step fmt cfg (Take envelope eid now start) p))"
proof -
  let ?mx = "wk_max_attempts cfg"
  have ii: "ingest_inv ?mx (pl_db p)" using inv by (simp add: pool_inv_def)
  have "pool_inv ?mx (pool_step fmt cfg (Take envelope eid now start) p) \<and>
    db_grows (pl_db p) (pl_db (pool_step fmt cfg (Take envelope eid now start) p))"
  proof (cases rule: session_cases [of "claim fmt cfg envelope eid now start" "pl_db p"])
    case (raised e)
    then show ?thesis using inv by (simp add: db_grows_refl)
  next
    case (committed r s')
    note inv' = claim_inv [OF ii committed(1)] and grows = claim_grows [OF ii committed(1)]
    show ?thesis
    proof (cases r)
      case None
      then show ?thesis using committed pool_claims_kept [OF inv inv' grows] grows by simp
    next
      case (Some c)
      note taken = claim_taken [OF ii committed(1) [unfolded Some]]
      have "claim_key c \<notin> claim_key ` set (pl_claims p)"
      proof
        assume "claim_key c \<in> claim_key ` set (pl_claims p)"
        then obtain d where d: "d \<in> set (pl_claims p)" "cl_id d = cl_id c"
          "cl_fencing_token d = cl_fencing_token c" by (auto simp: claim_key_def)
        then have "claim_matches d (pl_db p)" using inv by (simp add: pool_inv_def)
        then obtain j where "j \<in> set (t_jobs (pl_db p))" "ij_id j = cl_id c"
          "cl_fencing_token c \<le> ij_fencing_token j" using d by (auto simp: claim_matches_def)
        with taken(2) [of j] show False by simp
      qed
      then show ?thesis
        using Some committed grows inv' taken(1) inv claim_matches_grows [OF _ grows]
        by (auto simp: pool_inv_def)
    qed
  qed
  then show "pool_inv ?mx (pool_step fmt cfg (Take envelope eid now start) p)"
    "db_grows (pl_db p) (pl_db (pool_step fmt cfg (Take envelope eid now start) p))" by simp_all
qed

lemma pool_db_step:
  assumes "pool_inv mx p"
    and "\<And>s'. s' = s \<Longrightarrow> ingest_inv mx s' \<and> db_grows (pl_db p) s'"
  shows "pool_inv mx (p\<lparr>pl_db := s\<rparr>) \<and> db_grows (pl_db p) s"
  using assms pool_claims_kept by blast

lemma relay_lease_tables:
  assumes "relay_lease fmt tok now s = Inr (r, s')"
  shows "t_jobs s' = t_jobs s" "t_corpora s' = t_corpora s"
    "t_corpus_documents s' = t_corpus_documents s" "t_chunks s' = t_chunks s"
  using assms by (auto simp: relay_lease_def Let_def split: list.splits)

lemma failure_state:
  assumes "failure_of e = Some (code, st, transient)" "worker_error e"
  shows "st \<in> {DV_FAILED, DV_REJECTED, DV_OCR_REQUIRED}"
  using assms by (cases e) (auto split: if_splits)

lemma pool_step_inv:
  assumes inv: "pool_inv (wk_max_attempts cfg) p"
  shows "pool_inv (wk_max_attempts cfg) (pool_step fmt cfg e p) \<and>
    db_grows (pl_db p) (pl_db (pool_step fmt cfg e p))"
proof -
  let ?mx = "wk_max_attempts cfg"
  have ii: "ingest_inv ?mx (pl_db p)" using inv by (simp add: pool_inv_def)
  have cm: "claim_matches (pl_claims p ! i) (pl_db p)" if "i < length (pl_claims p)" for i
    using inv that by (simp add: pool_inv_def)
  note same = conjI [OF inv db_grows_refl]
  show ?thesis
  proof (cases e)
    case (Take envelope eid now start)
    then show ?thesis using take_inv [OF inv] by blast
  next
    case (Publish i env r)
    show ?thesis
    proof (cases "i < length (pl_claims p)")
      case True
      let ?Q = "\<lambda>s'. ingest_inv ?mx s' \<and> db_grows (pl_db p) s'"
      have "?Q (snd (session (persist_success (pl_claims p ! i) env r) (pl_db p)))"
      proof (rule session_state [where Q = ?Q])
        fix u s' assume ex: "persist_success (pl_claims p ! i) env r (pl_db p) = Inr (u, s')"
        show "?Q s'"
          using persist_success_inv [OF ii cm [OF True] ex] persist_success_grows [OF ii ex] by simp
      qed (use ii db_grows_refl in simp)
      then show ?thesis using True Publish pool_claims_kept [OF inv] by simp
    qed (use Publish same in simp)
  next
    case (Give_up i x env)
    show ?thesis
    proof (cases "i < length (pl_claims p) \<and> worker_error x \<and> failure_of x \<noteq> None")
      case True
      then obtain code st tr where x: "failure_of x = Some (code, st, tr)" by auto
      note st = failure_state [OF x]
      let ?Q = "\<lambda>s'. ingest_inv ?mx s' \<and> db_grows (pl_db p) s'"
      have "?Q (snd (session (persist_failure cfg (pl_claims p ! i) code st tr env) (pl_db p)))"
      proof (rule session_state [where Q = ?Q])
        fix u s' assume ex: "persist_failure cfg (pl_claims p ! i) code st tr env (pl_db p) = Inr (u, s')"
        have i: "i < length (pl_claims p)" and "worker_error x" using True by auto
        then show "?Q s'"
          using persist_failure_inv [OF ii cm [OF i] st ex] persist_failure_grows [OF ii cm [OF i] ex] by simp
      qed (use ii db_grows_refl in simp)
      then show ?thesis using True x Give_up pool_claims_kept [OF inv] by simp
    next
      case False
      then show ?thesis using Give_up same by (auto split: option.splits)
    qed
  next
    case (Relay_lease tok now)
    have "db_grows (pl_db p) (snd (session (relay_lease fmt tok now) (pl_db p)))"
    proof (rule session_state [where Q = "db_grows (pl_db p)"])
      fix r s' assume "relay_lease fmt tok now (pl_db p) = Inr (r, s')"
      from relay_lease_tables [OF this] show "db_grows (pl_db p) s'" by (rule db_grows_jobs_same)
    qed (rule db_grows_refl)
    then show ?thesis using Relay_lease pool_claims_kept [OF inv] delivery_steps_inv [OF ii] by simp
  next
    case (Relay_confirm tok eid now)
    have "db_grows (pl_db p) (relay_confirm tok eid now (pl_db p))"
      by (rule db_grows_jobs_same) (simp_all add: relay_confirm_def)
    then show ?thesis using Relay_confirm pool_claims_kept [OF inv] delivery_steps_inv [OF ii] by simp
  next
    case (Reconcile n now)
    have "db_grows (pl_db p) (snd (reconcile n now (pl_db p)))"
      by (rule db_grows_jobs_same) (simp_all add: reconcile_def)
    then show ?thesis using Reconcile pool_claims_kept [OF inv] delivery_steps_inv [OF ii] by simp
  qed
qed

interpretation pool: stable_steps "pool_step fmt cfg" "pool_inv (wk_max_attempts cfg)"
  "\<lambda>p q. db_grows (pl_db p) (pl_db q)"
  for fmt :: "time \<Rightarrow> pystr" and cfg :: worker_config
  by unfold_locales (auto simp: pool_step_inv db_grows_refl intro: db_grows_trans)


section \<open>Attempts and claims\<close>

text \<open>Every claim handed out is an attempt of its job, and the other transactions leave the
  attempts alone.\<close>

definition attempts :: "db \<Rightarrow> (uuid \<times> int) list" where
  "attempts s = map (\<lambda>j. (ij_id j, ij_attempt j)) (t_jobs s)"

definition claims_of :: "uuid \<Rightarrow> pool \<Rightarrow> nat" where
  "claims_of jid p = count_where (\<lambda>c. cl_id c = jid) (pl_claims p)"

definition counted :: "pool \<Rightarrow> bool" where
  "counted p \<longleftrightarrow> (\<forall>(i, n) \<in> set (attempts (pl_db p)). int (claims_of i p) = n)"

lemma attempts_update_where:
  assumes "t_jobs s' = update_where p f (t_jobs s)"
    and "\<And>j. ij_id (f j) = ij_id j \<and> ij_attempt (f j) = ij_attempt j"
  shows "attempts s' = attempts s"
  using assms by (simp add: attempts_def map_update_where)

lemma persist_success_attempts:
  assumes "persist_success c env r s = Inr (u, s')"
  shows "attempts s' = attempts s"
  using assms
proof (cases rule: persist_success_Inr)
  case (1 job es)
  show ?thesis by (rule attempts_update_where [OF 1(3)]) (simp add: success_job_def)
qed

lemma persist_failure_attempts:
  assumes "persist_failure cfg c code st transient env s = Inr (u, s')" "ingest_inv mx s" "claim_matches c s"
  shows "attempts s' = attempts s"
  using assms
proof (cases rule: persist_failure_Inr)
  case (active job retry)
  show ?thesis by (rule attempts_update_where [OF active(3)]) (simp add: failure_job_def)
qed simp

lemma claim_attempts:
  assumes inv: "ingest_inv mx s" and cl: "claim fmt cfg envelope eid now start s = Inr (r, s')"
  shows "attempts s' = map (\<lambda>(i, n). (i, if r \<noteq> None \<and> i = cl_id (the r) then n + 1 else n)) (attempts s)"
  using cl
proof (cases rule: claim_cases)
  case ignored
  then show ?thesis by (simp add: comp_def case_prod_unfold)
next
  case (exhausted job)
  let ?f = "\<lambda>j. j\<lparr>ij_state := JOB_FAILED,
                 ij_failure_code := Some ''INGESTION_ATTEMPTS_EXHAUSTED'',
                 ij_completed_at := Some now, ij_updated_at := now,
                 ij_lease_expires_at := None, ij_fencing_token := ij_fencing_token j + 1\<rparr>"
  have "t_jobs s' = update_where (\<lambda>j. ij_id j = ij_id job) ?f (t_jobs s)"
    using exhausted(5) by (auto simp: exhaust_job_def Let_def dest!: record_dead_letter_tables(1))
  then have "attempts s' = attempts s" by (rule attempts_update_where) simp
  then show ?thesis using exhausted by (simp add: comp_def case_prod_unfold)
next
  case (started job)
  from started(7) show ?thesis
  proof (cases rule: start_job_Inr)
    case (1 version sv)
    then show ?thesis by (auto simp: attempts_def update_where_def)
  qed
qed

lemma counted_same_claims:
  "counted p \<Longrightarrow> attempts s' = attempts (pl_db p) \<Longrightarrow> counted (p\<lparr>pl_db := s'\<rparr>)"
  by (simp add: counted_def claims_of_def)

lemma take_counted:
  assumes "pool_inv mx p" "counted p"
  shows "counted (pool_step fmt cfg (Take envelope eid now start) p)"
proof (cases rule: session_cases [of "claim fmt cfg envelope eid now start" "pl_db p"])
  case (raised e)
  then show ?thesis using assms by simp
next
  case (committed r s')
  have at: "attempts s' =
      map (\<lambda>(i, n). (i, if r \<noteq> None \<and> i = cl_id (the r) then n + 1 else n)) (attempts (pl_db p))"
    by (rule claim_attempts [of mx, OF _ committed(1)]) (use assms(1) in \<open>simp add: pool_inv_def\<close>)
  show ?thesis
  proof (cases r)
    case None
    then have "attempts s' = attempts (pl_db p)" using at by (simp add: case_prod_unfold)
    then show ?thesis using None committed assms(2) by (simp add: counted_same_claims)
  next
    case (Some c)
    have "int (claims_of i \<lparr>pl_db = s', pl_claims = pl_claims p @ [c]\<rparr>) = n"
      if i: "(i, n) \<in> set (attempts s')" for i n
    proof -
      obtain m where m: "(i, m) \<in> set (attempts (pl_db p))" "n = (if i = cl_id c then m + 1 else m)"
        using i Some by (auto simp: at split: if_splits)
      then have "int (claims_of i p) = m" using assms(2) by (auto simp: counted_def)
      then show ?thesis using m(2) by (auto simp: claims_of_def)
    qed
    then show ?thesis using Some committed by (auto simp: counted_def)
  qed
qed

lemma pool_step_counted:
  assumes "pool_inv (wk_max_attempts cfg) p" "counted p"
  shows "counted (pool_step fmt cfg e p)"
proof (cases e)
  case (Take envelope eid now start)
  then show ?thesis using take_counted [OF assms] by simp
next
  case (Publish i env r)
  have "attempts (snd (session (persist_success (pl_claims p ! i) env r) (pl_db p))) = attempts (pl_db p)"
    by (rule session_state [where Q = "\<lambda>s. attempts s = attempts (pl_db p)"])
      (use persist_success_attempts in \<open>simp_all\<close>)
  then show ?thesis using Publish assms(2) by (simp add: counted_same_claims)
next
  case (Give_up i x env)
  have "attempts (snd (session (persist_failure cfg (pl_claims p ! i) code st tr env) (pl_db p)))
      = attempts (pl_db p)" if i: "i < length (pl_claims p)" for code st tr
  proof (rule session_state [where Q = "\<lambda>s. attempts s = attempts (pl_db p)"])
    have "claim_matches (pl_claims p ! i) (pl_db p)" "ingest_inv (wk_max_attempts cfg) (pl_db p)"
      using assms(1) i by (simp_all add: pool_inv_def)
    then show "attempts s' = attempts (pl_db p)"
      if "persist_failure cfg (pl_claims p ! i) code st tr env (pl_db p) = Inr (u, s')" for u s'
      using persist_failure_attempts [OF that] by blast
  qed simp
  then show ?thesis using Give_up assms(2) by (auto simp: counted_same_claims split: option.splits)
next
  case (Relay_lease tok now)
  have "attempts (snd (session (relay_lease fmt tok now) (pl_db p))) = attempts (pl_db p)"
    by (rule session_state [where Q = "\<lambda>s. attempts s = attempts (pl_db p)"])
      (simp_all add: attempts_def relay_lease_tables)
  then show ?thesis using Relay_lease assms(2) by (simp add: counted_same_claims)
next
  case (Relay_confirm tok eid now)
  then show ?thesis using assms(2) by (simp add: counted_same_claims attempts_def relay_confirm_def)
next
  case (Reconcile n now)
  then show ?thesis using assms(2) by (simp add: counted_same_claims attempts_def reconcile_def)
qed

interpretation tries: step_invariant "pool_step fmt cfg"
  "\<lambda>p. pool_inv (wk_max_attempts cfg) p \<and> counted p"
  for fmt :: "time \<Rightarrow> pystr" and cfg :: worker_config
  by unfold_locales (auto simp: pool_step_inv pool_step_counted)


section \<open>Correctness of every run\<close>

definition sample_pool :: pool where
  "sample_pool = \<lparr>pl_db = sample_queued, pl_claims = []\<rparr>"

lemmas pool_simps = sample_pool_def ingest_simps

lemma sample_pool_inv: "pool_inv 3 sample_pool"
  by (simp add: pool_inv_def sample_pool_def sample_queued_inv)

definition sample_run :: "pool_event list" where
  "sample_run = [Take sample_sent_envelope 50 10 10, Publish 0 sample_commit sample_build]"

lemma sample_take:
  "pool_step sample_fmt sample_cfg (Take sample_sent_envelope 50 10 10) sample_pool =
     \<lparr>pl_db = sample_running, pl_claims = [sample_claim]\<rparr>"
  by (simp add: sample_pool_def sample_claimed)

lemma sample_finished:
  "t_jobs (pl_db (fold (pool_step sample_fmt sample_cfg) sample_run sample_pool)) =
     [sample_job\<lparr>ij_state := JOB_SUCCEEDED, ij_attempt := 1, ij_fencing_token := 1,
        ij_lease_expires_at := None, ij_updated_at := 21, ij_completed_at := Some 21\<rparr>]"
  by (simp add: sample_run_def sample_take del: pool_step.simps(1))
    (simp add: session_def persist_success_def active_job_def corpus_insertable_def exists_where_def
      store_embeddings_def finish_success_def chunk_rows_def Let_def set_job_def update_where_def
      version_of_def pool_simps sample_simps seconds_def)

text \<open>C2: exactly-once publication. After any run of workers, relays and reconcilers, a job has
  published one corpus for its document version if it succeeded and none otherwise, and every
  published document belongs to a corpus that is READY.\<close>

theorem pool_publishes_exactly_once:
  assumes "pool_inv (wk_max_attempts cfg) p"
    and "j \<in> set (t_jobs (pl_db (fold (pool_step fmt cfg) es p)))"
  shows "corpora_of (ij_document_version_id j) (pl_db (fold (pool_step fmt cfg) es p))
       = (if ij_state j = JOB_SUCCEEDED then 1 else 0) \<and>
     (\<forall>d \<in> set (t_corpus_documents (pl_db (fold (pool_step fmt cfg) es p))).
        \<exists>c \<in> set (t_corpora (pl_db (fold (pool_step fmt cfg) es p))).
          cv_id c = cd_corpus_version_id d \<and> cv_state c = CV_READY)"
proof -
  have "ingest_inv (wk_max_attempts cfg) (pl_db (fold (pool_step fmt cfg) es p))"
    using pool.inv_run [OF assms(1)] by (simp add: pool_inv_def)
  with ingest_inv_job [OF this assms(2)] show ?thesis
    by (fastforce simp: job_ok_def ingest_inv_def links_ok_def)
qed

theorem pool_publishes_exactly_once_witness:
  "corpora_of 4 (pl_db (fold (pool_step sample_fmt sample_cfg) sample_run sample_pool)) = 1"
  using pool_publishes_exactly_once [of sample_cfg sample_pool _ sample_fmt sample_run]
    sample_pool_inv by (simp add: sample_finished) (simp add: sample_job_def)

text \<open>A finished job is final: no transaction of any run writes the row of a job that has
  succeeded or failed, nor removes a published corpus or one of its chunks.\<close>

lemma pool_finished_is_final:
  assumes "pool_inv (wk_max_attempts cfg) p" "j \<in> set (t_jobs (pl_db p))"
    and "ij_state j \<in> {JOB_SUCCEEDED, JOB_FAILED}"
  shows "j \<in> set (t_jobs (pl_db (fold (pool_step fmt cfg) es p))) \<and>
     set (t_corpora (pl_db p)) \<subseteq> set (t_corpora (pl_db (fold (pool_step fmt cfg) es p))) \<and>
     set (t_chunks (pl_db p)) \<subseteq> set (t_chunks (pl_db (fold (pool_step fmt cfg) es p)))"
proof -
  have grows: "db_grows (pl_db p) (pl_db (fold (pool_step fmt cfg) es p))"
    using pool.rel_run [OF assms(1)] .
  then have "\<exists>j' \<in> set (t_jobs (pl_db (fold (pool_step fmt cfg) es p))). job_grows j j'"
    using assms(2) by (simp add: db_grows_def)
  then show ?thesis using grows assms(3) by (auto simp: job_grows_def db_grows_def)
qed

lemma sample_run_inv: "pool_inv 3 (fold (pool_step sample_fmt sample_cfg) sample_run sample_pool)"
  using pool.inv_run [of sample_cfg sample_pool sample_fmt sample_run] sample_pool_inv
  by (simp add: sample_cfg_def)

definition sample_retake :: "pool_event list" where
  "sample_retake = [Take sample_sent_envelope 50 10 10,
     Take sample_sent_envelope 51 (seconds 400) (seconds 400)]"

lemma sample_retaken:
  "t_jobs (pl_db (fold (pool_step sample_fmt sample_cfg) sample_retake sample_pool)) =
     [sample_job\<lparr>ij_state := JOB_RUNNING, ij_attempt := 2, ij_fencing_token := 2,
        ij_lease_expires_at := Some (seconds 700), ij_updated_at := seconds 400\<rparr>]"
  by (simp add: sample_retake_def sample_take del: pool_step.simps(1))
    (simp add: session_def claim_def start_job_def Let_def sample_sent_envelope_def envelope_for_def
      set_job_def update_where_def version_of_def one_def pool_simps sample_simps seconds_def)

lemma sample_retake_inv: "pool_inv 3 (fold (pool_step sample_fmt sample_cfg) sample_retake sample_pool)"
  using pool.inv_run [of sample_cfg sample_pool sample_fmt sample_retake] sample_pool_inv
  by (simp add: sample_cfg_def)

text \<open>C3: fencing. Once the job of a claim carries a newer token, the holder of the old claim can
  write nothing after any further run: its commit raises and its failure report is ignored.\<close>

theorem pool_stale_claim_fenced:
  assumes "pool_inv (wk_max_attempts cfg) p" "j \<in> set (t_jobs (pl_db p))"
    and "ij_id j = cl_id c" "cl_fencing_token c < ij_fencing_token j"
    and "s = pl_db (fold (pool_step fmt cfg) es p)"
  shows "session (persist_success c env r) s = (Inl (RuntimeError ''stale ingestion fencing token''), s) \<and>
     session (persist_failure cfg c code st transient fenv) s = (Inr (), s)"
proof -
  have "db_grows (pl_db p) s" using pool.rel_run [OF assms(1)] assms(5) by simp
  then obtain j' where j': "j' \<in> set (t_jobs s)" "job_grows j j'"
    using assms(2) by (auto simp: db_grows_def)
  have inv: "ingest_inv (wk_max_attempts cfg) s"
    using pool.inv_run [OF assms(1)] assms(5) by (simp add: pool_inv_def)
  have "active_job c now s = None" for now
  proof (cases "active_job c now s")
    case (Some job)
    note J = active_job_Some [OF Some]
    have "job = j'" using same_job [OF inv j'(1) J(1)] J(2) j'(2) assms(3) by (simp add: job_grows_def)
    then show ?thesis using J(4) j'(2) assms(4) by (simp add: job_grows_def)
  qed
  then show ?thesis by (simp add: persist_success_def persist_failure_def session_def)
qed


theorem pool_stale_claim_fenced_witness:
  "fst (session (persist_success sample_claim sample_commit sample_build)
     (pl_db (fold (pool_step sample_fmt sample_cfg) sample_retake sample_pool)))
   = Inl (RuntimeError ''stale ingestion fencing token'')"
  using pool_stale_claim_fenced [of sample_cfg
      "fold (pool_step sample_fmt sample_cfg) sample_retake sample_pool"
      "sample_job\<lparr>ij_state := JOB_RUNNING, ij_attempt := 2, ij_fencing_token := 2,
        ij_lease_expires_at := Some (seconds 700), ij_updated_at := seconds 400\<rparr>" sample_claim _
      sample_fmt "[]"] sample_retake_inv
  by (simp add: sample_retaken) (simp add: sample_claim_def sample_job_def)

text \<open>Attempts are bounded. In every run that starts with no claims handed out and no attempt
  made, a job is handed to a worker at most \<open>max_attempts\<close> times, and the number of claims
  handed out for it is its attempt counter.\<close>

lemma pool_attempts_bounded:
  assumes "pool_inv (wk_max_attempts cfg) p" "pl_claims p = []"
    and "\<forall>j \<in> set (t_jobs (pl_db p)). ij_attempt j = 0"
    and "j \<in> set (t_jobs (pl_db (fold (pool_step fmt cfg) es p)))"
  shows "int (claims_of (ij_id j) (fold (pool_step fmt cfg) es p)) = ij_attempt j \<and>
     int (claims_of (ij_id j) (fold (pool_step fmt cfg) es p)) \<le> wk_max_attempts cfg"
proof -
  let ?q = "fold (pool_step fmt cfg) es p"
  have "counted p" using assms(2,3) by (auto simp: counted_def attempts_def claims_of_def)
  then have q: "pool_inv (wk_max_attempts cfg) ?q" "counted ?q"
    using tries.inv_run [of cfg p fmt es] assms(1) by simp_all
  have "(ij_id j, ij_attempt j) \<in> set (attempts (pl_db ?q))"
    using assms(4) by (auto simp: attempts_def)
  then have "int (claims_of (ij_id j) ?q) = ij_attempt j" using q(2) by (auto simp: counted_def)
  moreover have "ij_attempt j \<le> wk_max_attempts cfg"
    using ingest_inv_job [OF _ assms(4), of "wk_max_attempts cfg"] q(1)
    by (simp add: pool_inv_def job_ok_def)
  ultimately show ?thesis by simp
qed

text \<open>No failure is silent. After any run, a failed job has exactly one dead-letter event, and
  the state of every job's document version agrees with the state of the job.\<close>

lemma pool_failed_has_dead_letter:
  assumes "pool_inv (wk_max_attempts cfg) p"
    and "j \<in> set (t_jobs (pl_db (fold (pool_step fmt cfg) es p)))"
  shows "(ij_state j = JOB_FAILED \<longrightarrow>
       (\<exists>!e. e \<in> set (t_outbox (pl_db (fold (pool_step fmt cfg) es p))) \<and>
             event_key e = (ij_id j, Dead_event))) \<and>
     (\<exists>v \<in> set (t_versions (pl_db (fold (pool_step fmt cfg) es p))).
        dv_id v = ij_document_version_id j \<and> coupled (ij_state j) (dv_state v))"
proof -
  let ?s = "pl_db (fold (pool_step fmt cfg) es p)"
  have inv: "ingest_inv (wk_max_attempts cfg) ?s"
    using pool.inv_run [OF assms(1)] by (simp add: pool_inv_def)
  have ok: "job_ok (wk_max_attempts cfg) ?s j" using inv assms(2) by (rule ingest_inv_job)
  have "distinct (map event_key (t_outbox ?s))" using inv by (simp add: ingest_inv_def outbox_wf_def)
  then have uniq: "e = e'" if "e \<in> set (t_outbox ?s)" "e' \<in> set (t_outbox ?s)" "event_key e = event_key e'" for e e'
    using that by (rule key_eqD)
  show ?thesis
  proof (intro conjI impI)
    assume "ij_state j = JOB_FAILED"
    then obtain e where e: "e \<in> set (t_outbox ?s)" "event_key e = (ij_id j, Dead_event)"
      using ok by (auto simp: job_ok_def)
    show "\<exists>!e. e \<in> set (t_outbox ?s) \<and> event_key e = (ij_id j, Dead_event)"
      by (rule ex1I [of _ e]) (use e uniq in simp_all)
  next
    show "\<exists>v \<in> set (t_versions ?s). dv_id v = ij_document_version_id j \<and> coupled (ij_state j) (dv_state v)"
      using ok by (auto simp: job_ok_def version_of_def)
  qed
qed

end
