(* ===== verification/Identity.thy ===== *)
theory Identity
  imports Models
begin

text \<open>
  \<^verbatim>\<open>identity.py\<close> and the request dependency \<open>require_identity\<close> of \<^verbatim>\<open>courses.py\<close>: bearer tokens, the
  three identity providers and the interface the routes rely on. Decoding and verifying a
  token (PyJWT, the JWKS endpoint) is a parameter.
\<close>

section \<open>Identities and tokens\<close>

record authenticated_identity =
  id_issuer :: pystr
  id_subject :: pystr

text \<open>\<open>s.partition(c)\<close> for a one-character separator; the second component says whether the
  separator was found.\<close>

definition partition_char :: "nat \<Rightarrow> pystr \<Rightarrow> pystr \<times> bool \<times> pystr" where
  "partition_char c s =
     (let before = takeWhile (\<lambda>x. x \<noteq> c) s; rest = dropWhile (\<lambda>x. x \<noteq> c) s
      in if rest = [] then (s, False, []) else (before, True, tl rest))"

definition bearer_token :: "unicode_db \<Rightarrow> pystr option \<Rightarrow> (exn, pystr) result" where
  "bearer_token u authorization =
     (case authorization of
        None \<Rightarrow> Inl AuthenticationError
      | Some a \<Rightarrow>
          (let (scheme, separator, token) = partition_char 32 a in
           if \<not> separator \<or> lower u scheme \<noteq> py ''bearer'' \<or> strip token = []
           then Inl AuthenticationError else Inr (strip token)))"

section \<open>Providers\<close>

text \<open>The ways \<open>_decode\<close> may fail, by the \<open>except\<close> clause that catches it, and the claims it
  returns: a claim is a string or some other JSON value, \<open>None\<close> when it is absent.\<close>

datatype decode_failure = PyJWKClientConnectionError | InvalidTokenError | PyJWKClientError | Other_error

datatype claim_value = Claim_str pystr | Claim_other

type_synonym claims = "string \<Rightarrow> claim_value option"

fun decode_error :: "decode_failure \<Rightarrow> exn" where
  "decode_error PyJWKClientConnectionError = IdentityProviderUnavailable"
| "decode_error InvalidTokenError = AuthenticationError"
| "decode_error PyJWKClientError = AuthenticationError"
| "decode_error Other_error = IdentityProviderUnavailable"

definition claim_text :: "claim_value option \<Rightarrow> pystr option" where
  "claim_text c = (case c of Some (Claim_str s) \<Rightarrow> if strip s = [] then None else Some s | _ \<Rightarrow> None)"

definition oidc_authenticate ::
  "unicode_db \<Rightarrow> (pystr \<Rightarrow> (decode_failure, claims) result) \<Rightarrow> pystr option \<Rightarrow>
   (exn, authenticated_identity) result" where
  "oidc_authenticate u decode authorization =
     bindE (bearer_token u authorization) (\<lambda>token.
       case decode token of
         Inl e \<Rightarrow> Inl (decode_error e)
       | Inr claims \<Rightarrow>
           (case claim_text (claims ''sub'') of None \<Rightarrow> Inl AuthenticationError
            | Some subject \<Rightarrow>
           (case claim_text (claims ''iss'') of None \<Rightarrow> Inl AuthenticationError
            | Some issuer \<Rightarrow> Inr \<lparr>id_issuer = issuer, id_subject = subject\<rparr>)))"

definition unconfigured_authenticate :: "pystr option \<Rightarrow> (exn, authenticated_identity) result" where
  "unconfigured_authenticate authorization = Inl IdentityProviderUnavailable"

definition deterministic_authenticate ::
  "unicode_db \<Rightarrow> (pystr \<rightharpoonup> authenticated_identity) \<Rightarrow> pystr option \<Rightarrow>
   (exn, authenticated_identity) result" where
  "deterministic_authenticate u identities authorization =
     bindE (bearer_token u authorization) (\<lambda>token.
       case identities token of None \<Rightarrow> Inl AuthenticationError | Some i \<Rightarrow> Inr i)"

section \<open>The dependency of the routes\<close>

definition require_identity ::
  "(pystr option \<Rightarrow> (exn, authenticated_identity) result) \<Rightarrow> pystr option \<Rightarrow>
   (exn, authenticated_identity) result" where
  "require_identity authenticate authorization =
     (case authenticate authorization of
        Inl e \<Rightarrow>
          if e = AuthenticationError then Inl (APIError 401 ''authentication_required'')
          else if e = IdentityProviderUnavailable then Inl (APIError 503 ''identity_provider_unavailable'')
          else Inl e
      | Inr i \<Rightarrow> Inr i)"

text \<open>What the routes rely on: a provider raises nothing but its two exceptions and admits no one
  without a bearer token.\<close>

locale identity_provider =
  fixes authenticate :: "pystr option \<Rightarrow> (exn, authenticated_identity) result"
    and u :: unicode_db
  assumes raises: "authenticate a = Inl e \<Longrightarrow> e = AuthenticationError \<or> e = IdentityProviderUnavailable"
    and bearer: "authenticate a = Inr i \<Longrightarrow> \<exists>t. bearer_token u a = Inr t"
begin

lemma answered:
  "(\<exists>i. require_identity authenticate a = Inr i) \<or>
   require_identity authenticate a = Inl (APIError 401 ''authentication_required'') \<or>
   require_identity authenticate a = Inl (APIError 503 ''identity_provider_unavailable'')"
  using raises [of a] by (cases "authenticate a") (auto simp: require_identity_def)

lemma anonymous_refused: "\<exists>e. require_identity authenticate None = Inl e"
  using bearer [of None] by (cases "authenticate None") (auto simp: require_identity_def bearer_token_def)

end

lemma bearer_token_Inl: "bearer_token u a = Inl e \<Longrightarrow> e = AuthenticationError"
  by (auto simp: bearer_token_def split: option.splits prod.splits if_splits)

lemma claim_text_Some: "claim_text c = Some s \<longleftrightarrow> c = Some (Claim_str s) \<and> strip s \<noteq> []"
  by (auto simp: claim_text_def split: option.splits claim_value.splits)

text \<open>An identity comes from a decoded token; every failure is one of the two exceptions.\<close>

lemma oidc_Inr:
  assumes "oidc_authenticate u decode a = Inr i"
  obtains t claims where "bearer_token u a = Inr t" "decode t = Inr claims"
    "claim_text (claims ''sub'') = Some (id_subject i)" "claim_text (claims ''iss'') = Some (id_issuer i)"
proof -
  obtain t where t: "bearer_token u a = Inr t"
    using assms by (auto simp: oidc_authenticate_def bindE_eq_Inr)
  obtain claims where c: "decode t = Inr claims"
    using assms t by (cases "decode t") (simp_all add: oidc_authenticate_def)
  obtain sub where sub: "claim_text (claims ''sub'') = Some sub"
    using assms t c by (cases "claim_text (claims ''sub'')") (simp_all add: oidc_authenticate_def)
  obtain iss where "claim_text (claims ''iss'') = Some iss"
    using assms t c sub by (cases "claim_text (claims ''iss'')") (simp_all add: oidc_authenticate_def)
  then show ?thesis using assms t c sub that by (auto simp: oidc_authenticate_def)
qed

lemma decode_error_cases: "decode_error f = AuthenticationError \<or> decode_error f = IdentityProviderUnavailable"
  by (cases f) auto

lemma oidc_Inl:
  assumes "oidc_authenticate u decode a = Inl e"
  shows "e = AuthenticationError \<or> e = IdentityProviderUnavailable"
proof (cases "bearer_token u a")
  case (Inl x)
  then show ?thesis using assms bearer_token_Inl [OF Inl] by (simp add: oidc_authenticate_def)
next
  case (Inr t)
  show ?thesis
  proof (cases "decode t")
    case (Inl f)
    then show ?thesis using assms Inr decode_error_cases [of f] by (auto simp: oidc_authenticate_def)
  next
    case (Inr claims)
    then show ?thesis using assms \<open>bearer_token u a = Inr t\<close>
      by (simp add: oidc_authenticate_def split: option.splits)
  qed
qed

interpretation oidc: identity_provider "oidc_authenticate u decode" u
  for u :: unicode_db and decode :: "pystr \<Rightarrow> (decode_failure, claims) result"
  by unfold_locales (rule oidc_Inl, assumption, erule oidc_Inr, blast)

interpretation unconfigured: identity_provider unconfigured_authenticate u for u :: unicode_db
  by unfold_locales (simp_all add: unconfigured_authenticate_def)

interpretation deterministic: identity_provider "deterministic_authenticate u identities" u
  for u :: unicode_db and identities :: "pystr \<rightharpoonup> authenticated_identity"
proof
  fix a e assume "deterministic_authenticate u identities a = Inl e"
  then show "e = AuthenticationError \<or> e = IdentityProviderUnavailable"
    using bearer_token_Inl
    by (auto simp: deterministic_authenticate_def bindE_eq_Inl split: option.splits)
next
  fix a i assume "deterministic_authenticate u identities a = Inr i"
  then show "\<exists>t. bearer_token u a = Inr t" by (auto simp: deterministic_authenticate_def bindE_eq_Inr)
qed

section \<open>Correctness\<close>

text \<open>Authentication fails closed. A request served by the OIDC provider yields an identity, a
  401 or a 503, nothing else; it yields an identity only when the header carries a bearer
  token that was decoded, and then the identity is the issuer and the subject of the token,
  neither of them blank. Without a header the answer is an error for every provider.\<close>

lemma oidc_fails_closed:
  "((\<exists>i. require_identity (oidc_authenticate u decode) a = Inr i) \<or>
      require_identity (oidc_authenticate u decode) a = Inl (APIError 401 ''authentication_required'') \<or>
      require_identity (oidc_authenticate u decode) a = Inl (APIError 503 ''identity_provider_unavailable'')) \<and>
   (\<forall>i. require_identity (oidc_authenticate u decode) a = Inr i \<longrightarrow>
      (\<exists>t claims. bearer_token u a = Inr t \<and> decode t = Inr claims \<and>
         claims ''sub'' = Some (Claim_str (id_subject i)) \<and> claims ''iss'' = Some (Claim_str (id_issuer i)) \<and>
         strip (id_subject i) \<noteq> [] \<and> strip (id_issuer i) \<noteq> [])) \<and>
   (\<exists>e. require_identity (oidc_authenticate u decode) None = Inl e) \<and>
   (\<exists>e. require_identity unconfigured_authenticate None = Inl e) \<and>
   (\<exists>e. require_identity (deterministic_authenticate u identities) None = Inl e)"
proof (intro conjI allI impI)
  fix i assume "require_identity (oidc_authenticate u decode) a = Inr i"
  then have "oidc_authenticate u decode a = Inr i"
    by (auto simp: require_identity_def split: sum.splits if_splits)
  then obtain t claims where "bearer_token u a = Inr t" "decode t = Inr claims"
    "claim_text (claims ''sub'') = Some (id_subject i)" "claim_text (claims ''iss'') = Some (id_issuer i)"
    by (rule oidc_Inr)
  then show "\<exists>t claims. bearer_token u a = Inr t \<and> decode t = Inr claims \<and>
      claims ''sub'' = Some (Claim_str (id_subject i)) \<and> claims ''iss'' = Some (Claim_str (id_issuer i)) \<and>
      strip (id_subject i) \<noteq> [] \<and> strip (id_issuer i) \<noteq> []"
    by (auto simp: claim_text_Some)
qed (rule oidc.answered oidc.anonymous_refused unconfigured.anonymous_refused
    deterministic.anonymous_refused)+

end
