(* ===== verification/Courses.thy ===== *)
theory Courses
  imports Identity
begin

text \<open>
  \<^verbatim>\<open>courses.py\<close>: creating a course, idempotently when the client sends a key, and reading it as
  a member. Each operation is one transaction; identifiers drawn with \<open>uuid4\<close> and the start
  of the transaction are arguments.
\<close>

section \<open>Requests and views\<close>

record course_view =
  cw_id :: uuid
  cw_title :: pystr
  cw_role :: membership_role
  cw_version :: int
  cw_active_corpus_version_id :: "uuid option"
  cw_created_at :: time

definition view_of :: "course \<Rightarrow> membership_role \<Rightarrow> course_view" where
  "view_of c r = \<lparr>cw_id = co_id c, cw_title = co_title c, cw_role = r, cw_version = co_version c,
     cw_active_corpus_version_id = co_active_corpus_version_id c, cw_created_at = co_created_at c\<rparr>"

text \<open>\<open>CourseCreateRequest\<close>: the length bounds of the field, then \<open>normalize_title\<close>.\<close>

definition normalize_title :: "pystr \<Rightarrow> (exn, pystr) result" where
  "normalize_title title =
     (if length title < 1 \<or> length title > 200 then Inl (ValueError ''title length'')
      else if strip title = [] then Inl (ValueError ''title must not be blank'')
      else Inr (strip title))"

section \<open>Creating a course\<close>

definition has_identity :: "authenticated_identity \<Rightarrow> user \<Rightarrow> bool" where
  "has_identity ident x \<longleftrightarrow> us_oidc_issuer x = id_issuer ident \<and> us_oidc_subject x = id_subject ident"

text \<open>\<open>INSERT ... ON CONFLICT ON CONSTRAINT uq_users_oidc_identity DO NOTHING RETURNING id\<close>, or the
  identifier found by the SELECT after it.\<close>

definition ensure_user :: "authenticated_identity \<Rightarrow> uuid \<Rightarrow> time \<Rightarrow> db \<Rightarrow> (exn, uuid \<times> db) result" where
  "ensure_user ident new_id now s =
     (case find (has_identity ident) (t_users s) of
        Some x \<Rightarrow> Inr (us_id x, s)
      | None \<Rightarrow>
          if exists_where (\<lambda>x. us_id x = new_id) (t_users s) then Inl IntegrityError
          else Inr (new_id, s\<lparr>t_users := t_users s @ [\<lparr>us_id = new_id,
            us_oidc_issuer = id_issuer ident, us_oidc_subject = id_subject ident, us_created_at = now\<rparr>]\<rparr>))"

definition created_with :: "uuid \<Rightarrow> pystr \<Rightarrow> db \<Rightarrow> course \<Rightarrow> bool" where
  "created_with user_id key s c \<longleftrightarrow>
     exists_where (\<lambda>k. cc_course_id k = co_id c \<and> cc_user_id k = user_id \<and> cc_idempotency_key k = key)
       (t_course_creations s)"

definition replay_creation :: "uuid \<Rightarrow> pystr \<Rightarrow> course \<Rightarrow> db \<Rightarrow> (exn, course_view \<times> db) result" where
  "replay_creation user_id title previous s =
     (case find (\<lambda>m. cm_course_id m = co_id previous \<and> cm_user_id m = user_id) (t_memberships s) of
        None \<Rightarrow> Inl (APIError 404 ''course_not_found'')
      | Some m \<Rightarrow>
          if cm_role m \<noteq> TEACHER then Inl (APIError 404 ''course_not_found'')
          else if co_title previous \<noteq> title then Inl (APIError 409 ''idempotency_key_reused'')
          else Inr (view_of previous TEACHER, s))"

text \<open>The rows a new course consists of. The title must not be blank for PostgreSQL either
  (\<open>btrim\<close> removes spaces).\<close>

definition insert_course ::
  "uuid \<Rightarrow> pystr option \<Rightarrow> pystr \<Rightarrow> uuid \<Rightarrow> time \<Rightarrow> db \<Rightarrow> (exn, course_view \<times> db) result" where
  "insert_course user_id key title course_id now s =
     (let c = \<lparr>co_id = course_id, co_title = title, co_version = 0, co_active_corpus_version_id = None,
              co_created_at = now, co_updated_at = now\<rparr>;
          creations = (case key of None \<Rightarrow> []
            | Some k \<Rightarrow> [\<lparr>cc_user_id = user_id, cc_idempotency_key = k, cc_course_id = course_id\<rparr>])
      in if exists_where (\<lambda>x. co_id x = course_id) (t_courses s) \<or> list_all (\<lambda>ch. ch = 32) title \<or>
            exists_where (\<lambda>m. cm_course_id m = course_id \<and> cm_user_id m = user_id) (t_memberships s) \<or>
            exists_where (\<lambda>k. cc_user_id k = user_id \<and> Some (cc_idempotency_key k) = key)
              (t_course_creations s)
         then Inl IntegrityError
         else Inr (view_of c TEACHER,
           s\<lparr>t_courses := t_courses s @ [c],
             t_memberships := t_memberships s @ [\<lparr>cm_course_id = course_id, cm_user_id = user_id,
               cm_role = TEACHER, cm_created_at = now\<rparr>],
             t_course_creations := t_course_creations s @ creations\<rparr>))"

definition create_course ::
  "authenticated_identity \<Rightarrow> pystr \<Rightarrow> pystr option \<Rightarrow> uuid \<Rightarrow> uuid \<Rightarrow> time \<Rightarrow> db \<Rightarrow>
   (exn, course_view \<times> db) result" where
  "create_course ident title key new_user new_course now s =
     (if (case key of None \<Rightarrow> False | Some k \<Rightarrow> \<not> (0 < length (strip k) \<and> length (strip k) \<le> 255))
      then Inl (APIError 400 ''idempotency_key_required'')
      else bindE (ensure_user ident new_user now s) (\<lambda>(user_id, s1).
        case key of
          None \<Rightarrow> insert_course user_id None title new_course now s1
        | Some k \<Rightarrow>
            (case find (created_with user_id (strip k) s1) (t_courses s1) of
               Some previous \<Rightarrow> replay_creation user_id title previous s1
             | None \<Rightarrow> insert_course user_id (Some (strip k)) title new_course now s1)))"

section \<open>Reading a course\<close>

definition membership_rows ::
  "authenticated_identity \<Rightarrow> uuid \<Rightarrow> db \<Rightarrow> (course \<times> membership_role) list" where
  "membership_rows ident course_id s =
     [(c, cm_role m). c \<leftarrow> t_courses s, m \<leftarrow> t_memberships s, x \<leftarrow> t_users s,
        co_id c = course_id \<and> cm_course_id m = co_id c \<and> us_id x = cm_user_id m \<and> has_identity ident x]"

definition get_course :: "authenticated_identity \<Rightarrow> uuid \<Rightarrow> db \<Rightarrow> (exn, course_view \<times> db) result" where
  "get_course ident course_id s =
     bindE (one_or_none (membership_rows ident course_id s)) (\<lambda>r.
       case r of None \<Rightarrow> Inl CourseNotFound | Some (c, role) \<Rightarrow> Inr (view_of c role, s))"

text \<open>The routes: what the two handlers make of an exception.\<close>

definition create_course_route :: "(exn, course_view) result \<Rightarrow> (exn, course_view) result" where
  "create_course_route r =
     (case r of Inr v \<Rightarrow> Inr v
      | Inl e \<Rightarrow> if is_sqlalchemy_error e then Inl (APIError 503 ''persistence_unavailable'') else Inl e)"

definition get_course_route :: "(exn, course_view) result \<Rightarrow> (exn, course_view) result" where
  "get_course_route r =
     (case r of Inr v \<Rightarrow> Inr v
      | Inl e \<Rightarrow> if e = CourseNotFound then Inl (APIError 404 ''course_not_found'')
                else if is_sqlalchemy_error e then Inl (APIError 503 ''persistence_unavailable'') else Inl e)"

section \<open>The invariant\<close>

text \<open>Primary keys, \<open>uq_users_oidc_identity\<close>, and: a recorded creation points to a course of
  which its user is the teacher.\<close>

definition user_key :: "user \<Rightarrow> pystr \<times> pystr" where
  "user_key x = (us_oidc_issuer x, us_oidc_subject x)"

definition courses_wf :: "db \<Rightarrow> bool" where
  "courses_wf s \<longleftrightarrow>
     distinct (map us_id (t_users s)) \<and> distinct (map user_key (t_users s)) \<and>
     distinct (map co_id (t_courses s)) \<and>
     distinct (map (\<lambda>m. (cm_course_id m, cm_user_id m)) (t_memberships s)) \<and>
     distinct (map (\<lambda>k. (cc_user_id k, cc_idempotency_key k)) (t_course_creations s)) \<and>
     (\<forall>m \<in> set (t_memberships s). cm_user_id m \<in> us_id ` set (t_users s) \<and>
        cm_course_id m \<in> co_id ` set (t_courses s)) \<and>
     (\<forall>k \<in> set (t_course_creations s). \<exists>m \<in> set (t_memberships s).
        cm_course_id m = cc_course_id k \<and> cm_user_id m = cc_user_id k \<and> cm_role m = TEACHER)"

lemma ensure_user_wf:
  assumes "courses_wf s" "ensure_user ident new_id now s = Inr (uid, s')"
  shows "courses_wf s'" "\<exists>x. find (has_identity ident) (t_users s') = Some x \<and> us_id x = uid"
    "t_courses s' = t_courses s" "t_memberships s' = t_memberships s"
    "t_course_creations s' = t_course_creations s" "set (t_users s) \<subseteq> set (t_users s')"
proof -
  have "courses_wf s' \<and> (\<exists>x. find (has_identity ident) (t_users s') = Some x \<and> us_id x = uid) \<and>
    t_courses s' = t_courses s \<and> t_memberships s' = t_memberships s \<and>
    t_course_creations s' = t_course_creations s \<and> set (t_users s) \<subseteq> set (t_users s')"
  proof (cases "find (has_identity ident) (t_users s)")
    case (Some x)
    then show ?thesis using assms by (simp add: ensure_user_def)
  next
    case None
    let ?x = "\<lparr>us_id = new_id, us_oidc_issuer = id_issuer ident, us_oidc_subject = id_subject ident,
      us_created_at = now\<rparr>"
    have s': "s' = s\<lparr>t_users := t_users s @ [?x]\<rparr>" "uid = new_id"
      and fresh: "new_id \<notin> us_id ` set (t_users s)"
      using assms(2) None by (auto simp: ensure_user_def exists_where_iff split: if_splits)
    have nokey: "user_key ?x \<notin> user_key ` set (t_users s)"
    proof -
      have "\<forall>r \<in> set (t_users s). \<not> has_identity ident r" using find_NoneD [OF None] by blast
      then show ?thesis by (auto simp: user_key_def has_identity_def)
    qed
    have "find (has_identity ident) (t_users s @ [?x]) = Some ?x"
    proof (rule find_unique)
      fix y assume "y \<in> set (t_users s @ [?x])" "has_identity ident y"
      then show "y = ?x" using find_NoneD [OF None] by auto
    qed (simp_all add: has_identity_def)
    then show ?thesis using assms(1) fresh nokey s' by (auto simp: courses_wf_def)
  qed
  then show "courses_wf s'" "\<exists>x. find (has_identity ident) (t_users s') = Some x \<and> us_id x = uid"
    "t_courses s' = t_courses s" "t_memberships s' = t_memberships s"
    "t_course_creations s' = t_course_creations s" "set (t_users s) \<subseteq> set (t_users s')" by simp_all
qed


lemma insert_course_Inr:
  assumes "insert_course uid key title cid now s = Inr (v, s')"
  obtains c where "v = view_of c TEACHER" "co_id c = cid" "co_title c = title" "cid \<notin> co_id ` set (t_courses s)"
    "t_users s' = t_users s" "t_courses s' = t_courses s @ [c]"
    "t_memberships s' = t_memberships s @
       [\<lparr>cm_course_id = cid, cm_user_id = uid, cm_role = TEACHER, cm_created_at = now\<rparr>]"
    "t_course_creations s' = t_course_creations s @ (case key of None \<Rightarrow> []
       | Some k \<Rightarrow> [\<lparr>cc_user_id = uid, cc_idempotency_key = k, cc_course_id = cid\<rparr>])"
    "(cid, uid) \<notin> (\<lambda>m. (cm_course_id m, cm_user_id m)) ` set (t_memberships s)"
    "\<And>k. key = Some k \<Longrightarrow> (uid, k) \<notin> (\<lambda>k. (cc_user_id k, cc_idempotency_key k)) ` set (t_course_creations s)"
proof -
  let ?c = "\<lparr>co_id = cid, co_title = title, co_version = 0, co_active_corpus_version_id = None,
     co_created_at = now, co_updated_at = now\<rparr>"
  have ok: "\<not> exists_where (\<lambda>x. co_id x = cid) (t_courses s)"
    "\<not> exists_where (\<lambda>m. cm_course_id m = cid \<and> cm_user_id m = uid) (t_memberships s)"
    "\<not> exists_where (\<lambda>k. cc_user_id k = uid \<and> Some (cc_idempotency_key k) = key) (t_course_creations s)"
    using assms by (simp_all add: insert_course_def Let_def split: if_splits)
  show ?thesis
    by (rule that [of ?c]) (use assms ok in \<open>auto simp: insert_course_def Let_def exists_where_iff split: if_splits\<close>)
qed

lemma insert_course_wf:
  assumes "courses_wf s" "uid \<in> us_id ` set (t_users s)" "insert_course uid key title cid now s = Inr (v, s')"
  shows "courses_wf s'"
  using assms(3)
proof (cases rule: insert_course_Inr)
  case (1 c)
  show ?thesis
  proof (cases key)
    case None
    then show ?thesis using assms(1,2) 1 by (auto simp: courses_wf_def)
  next
    case (Some k)
    then show ?thesis using assms(1,2) 1 by (auto simp: courses_wf_def)
  qed
qed

lemma create_course_wf:
  assumes "courses_wf s" "create_course ident title key nu nc now s = Inr (v, s')"
  shows "courses_wf s'"
proof -
  obtain uid s1 where s1: "ensure_user ident nu now s = Inr (uid, s1)"
    using assms(2) by (auto simp: create_course_def bindE_eq_Inr split: if_splits)
  note e = ensure_user_wf [OF assms(1) s1]
  have uid: "uid \<in> us_id ` set (t_users s1)" using e(2) find_SomeD by fastforce
  have "s' = s1 \<or> (\<exists>k. insert_course uid k title nc now s1 = Inr (v, s'))"
    using assms(2) s1
    by (auto simp: create_course_def replay_creation_def split: if_splits option.splits)
  then show ?thesis using e(1) insert_course_wf [OF e(1) uid] by auto
qed

section \<open>Correctness\<close>

definition sample_ident :: authenticated_identity where
  "sample_ident = \<lparr>id_issuer = py ''i'', id_subject = py ''s''\<rparr>"

definition sample_ident2 :: authenticated_identity where
  "sample_ident2 = \<lparr>id_issuer = py ''i'', id_subject = py ''t''\<rparr>"

text \<open>Creating a course is idempotent. Repeating a successful request with the same key, at any
  later time and whatever identifiers are drawn, returns the same course and changes
  nothing; with another title it is refused with 409, also without a change.\<close>

lemma create_course_idempotent:
  assumes "courses_wf s" "create_course ident title (Some k) nu nc now s = Inr (v, s')"
  shows "create_course ident title (Some k) nu' nc' now' s' = Inr (v, s') \<and>
     (title' \<noteq> title \<longrightarrow> session (create_course ident title' (Some k) nu' nc' now') s'
        = (Inl (APIError 409 ''idempotency_key_reused''), s'))"
proof -
  let ?k = "strip k"
  have key: "0 < length ?k" "length ?k \<le> 255"
    using assms(2) by (auto simp: create_course_def split: if_splits)
  obtain uid s1 where s1: "ensure_user ident nu now s = Inr (uid, s1)"
    using assms(2) by (auto simp: create_course_def bindE_eq_Inr split: if_splits)
  note e = ensure_user_wf [OF assms(1) s1]
  have wf': "courses_wf s'" using create_course_wf [OF assms] .
  have "\<exists>c m. find (created_with uid ?k s') (t_courses s') = Some c \<and> co_title c = title \<and>
      v = view_of c TEACHER \<and> t_users s' = t_users s1 \<and>
      find (\<lambda>m. cm_course_id m = co_id c \<and> cm_user_id m = uid) (t_memberships s') = Some m \<and>
      cm_role m = TEACHER"
  proof (cases "find (created_with uid ?k s1) (t_courses s1)")
    case (Some c)
    then have "replay_creation uid title c s1 = Inr (v, s')"
      using assms(2) s1 key by (simp add: create_course_def)
    then show ?thesis using Some
      by (auto simp: replay_creation_def split: option.splits if_splits)
  next
    case None
    then have "insert_course uid (Some ?k) title nc now s1 = Inr (v, s')"
      using assms(2) s1 key by (simp add: create_course_def)
    then show ?thesis
    proof (cases rule: insert_course_Inr)
      case (1 c)
      have only: "y = c" if "y \<in> set (t_courses s')" "created_with uid ?k s' y" for y
      proof -
        have "co_id y = nc" using that(2) 1(8) 1(10)
          by (auto simp: created_with_def exists_where_iff)
        then show ?thesis using that(1) 1(2,4,6) by auto
      qed
      have c: "find (created_with uid ?k s') (t_courses s') = Some c"
        using 1 by (intro find_unique only) (auto simp: created_with_def exists_where_iff)
      have "find (\<lambda>m. cm_course_id m = nc \<and> cm_user_id m = uid) (t_memberships s') =
        Some \<lparr>cm_course_id = nc, cm_user_id = uid, cm_role = TEACHER, cm_created_at = now\<rparr>"
        using 1(7,9) by (intro find_unique) auto
      then show ?thesis using c 1 by auto
    qed
  qed
  then obtain c m where c: "find (created_with uid ?k s') (t_courses s') = Some c" "co_title c = title"
    "v = view_of c TEACHER" "t_users s' = t_users s1"
    "find (\<lambda>m. cm_course_id m = co_id c \<and> cm_user_id m = uid) (t_memberships s') = Some m"
    "cm_role m = TEACHER" by blast
  obtain x where "find (has_identity ident) (t_users s') = Some x" "us_id x = uid"
    using e(2) c(4) by auto
  then have "ensure_user ident nu' now' s' = Inr (uid, s')" by (simp add: ensure_user_def)
  then show ?thesis using c key by (simp add: create_course_def replay_creation_def)
qed


lemma membership_rows_iff:
  "(c, r) \<in> set (membership_rows ident cid s) \<longleftrightarrow>
     c \<in> set (t_courses s) \<and> co_id c = cid \<and>
     (\<exists>m \<in> set (t_memberships s). \<exists>x \<in> set (t_users s). cm_course_id m = cid \<and> cm_role m = r \<and>
        us_id x = cm_user_id m \<and> has_identity ident x)"
  by (auto simp: membership_rows_def)

definition member_row :: "authenticated_identity \<Rightarrow> uuid \<Rightarrow> db \<Rightarrow> course \<Rightarrow> course_membership \<Rightarrow> bool" where
  "member_row ident cid s c m \<longleftrightarrow>
     c \<in> set (t_courses s) \<and> m \<in> set (t_memberships s) \<and> co_id c = cid \<and> cm_course_id m = cid \<and>
     (\<exists>x \<in> set (t_users s). us_id x = cm_user_id m \<and> has_identity ident x)"

text \<open>Under the keys of the schema the join has at most one row.\<close>

lemma membership_rows_single:
  assumes wf: "courses_wf s" and row: "member_row ident cid s c m"
  shows "membership_rows ident cid s = [(c, cm_role m)]"
proof -
  obtain x where x: "x \<in> set (t_users s)" "us_id x = cm_user_id m" "has_identity ident x"
    using row by (auto simp: member_row_def)
  have keys: "distinct (map co_id (t_courses s))" "distinct (map us_id (t_users s))"
    "distinct (map user_key (t_users s))"
    "distinct (map (\<lambda>m. (cm_course_id m, cm_user_id m)) (t_memberships s))"
    using wf by (simp_all add: courses_wf_def)
  have cu: "y = c" if "y \<in> set (t_courses s)" "co_id y = cid" for y
    using key_eqD [OF keys(1) that(1), of c] that row by (simp add: member_row_def)
  have ux: "y = x" if "y \<in> set (t_users s)" "has_identity ident y" for y
    using key_eqD [OF keys(3) that(1) x(1)] that x by (simp add: user_key_def has_identity_def)
  have mu: "n = m" if "n \<in> set (t_memberships s)" "cm_course_id n = cid" "cm_user_id n = us_id x" for n
    using key_eqD [OF keys(4) that(1), of m] that row x by (simp add: member_row_def)
  have inner1:
    "\<And>y. y \<in> set (t_courses s) \<Longrightarrow> y \<noteq> c \<Longrightarrow>
       concat (map (\<lambda>n. concat (map (\<lambda>z. if co_id y = cid \<and> cm_course_id n = co_id y \<and>
          us_id z = cm_user_id n \<and> has_identity ident z then [(y, cm_role n)] else []) (t_users s)))
          (t_memberships s)) = []" (is "\<And>y. _ \<Longrightarrow> _ \<Longrightarrow> ?inner y = []")
  proof -
    fix y assume "y \<in> set (t_courses s)" "y \<noteq> c"
    then have "co_id y \<noteq> cid" using cu by blast
    then show "?inner y = []" by simp
  qed
  have inner2: "\<And>n. n \<in> set (t_memberships s) \<Longrightarrow> n \<noteq> m \<Longrightarrow>
       concat (map (\<lambda>z. if co_id c = cid \<and> cm_course_id n = co_id c \<and>
          us_id z = cm_user_id n \<and> has_identity ident z then [(c, cm_role n)] else []) (t_users s)) = []" (is "\<And>n. _ \<Longrightarrow> _ \<Longrightarrow> ?inner n = []")
  proof -
    fix n assume n: "n \<in> set (t_memberships s)" "n \<noteq> m"
    have "\<not> (cm_course_id n = cid \<and> us_id z = cm_user_id n \<and> has_identity ident z)"
      if "z \<in> set (t_users s)" for z
    proof
      assume h: "cm_course_id n = cid \<and> us_id z = cm_user_id n \<and> has_identity ident z"
      then have "z = x" using ux [OF that] by simp
      then have "n = m" using mu [OF n(1)] h by simp
      with n(2) show False by simp
    qed
    then show "?inner n = []" by auto
  qed
  have "membership_rows ident cid s =
      concat (map (\<lambda>y. concat (map (\<lambda>n. concat (map (\<lambda>z. if co_id y = cid \<and> cm_course_id n = co_id y \<and>
          us_id z = cm_user_id n \<and> has_identity ident z then [(y, cm_role n)] else []) (t_users s)))
          (t_memberships s))) (t_courses s))"
    unfolding membership_rows_def ..
  also have "\<dots> = concat (map (\<lambda>n. concat (map (\<lambda>z. if co_id c = cid \<and> cm_course_id n = co_id c \<and>
          us_id z = cm_user_id n \<and> has_identity ident z then [(c, cm_role n)] else []) (t_users s)))
          (t_memberships s))"
    using inner1 row distinct_mapI [OF keys(1)]
    by (intro concat_map_single) (simp_all add: member_row_def)
  also have "\<dots> = concat (map (\<lambda>z. if co_id c = cid \<and> cm_course_id m = co_id c \<and>
          us_id z = cm_user_id m \<and> has_identity ident z then [(c, cm_role m)] else []) (t_users s))"
    using inner2 row distinct_mapI [OF keys(4)]
    by (intro concat_map_single) (simp_all add: member_row_def)
  also have "\<dots> = [(c, cm_role m)]"
    by (subst concat_map_single [OF distinct_mapI [OF keys(2)] x(1)])
      (use x row in \<open>auto simp: member_row_def dest: ux\<close>)
  finally show ?thesis .
qed

text \<open>Courses are visible to their members only. Reading a course succeeds exactly for an
  identity that belongs to a user with a membership of that course, and then shows the role
  of that membership; everyone else gets CourseNotFound, whether the course exists or not.\<close>

lemma get_course_members_only:
  assumes "courses_wf s"
  shows "(\<forall>c m. member_row ident cid s c m \<longrightarrow> get_course ident cid s = Inr (view_of c (cm_role m), s)) \<and>
     ((\<forall>c m. \<not> member_row ident cid s c m) \<longrightarrow>
        get_course_route (fst (session (get_course ident cid) s)) = Inl (APIError 404 ''course_not_found''))"
proof (intro conjI allI impI)
  fix c m assume "member_row ident cid s c m"
  then have "membership_rows ident cid s = [(c, cm_role m)]" by (rule membership_rows_single [OF assms])
  then show "get_course ident cid s = Inr (view_of c (cm_role m), s)"
    by (simp add: get_course_def one_or_none_def)
next
  assume none: "\<forall>c m. \<not> member_row ident cid s c m"
  have "membership_rows ident cid s = []"
  proof (rule ccontr)
    assume "membership_rows ident cid s \<noteq> []"
    then obtain c r where "(c, r) \<in> set (membership_rows ident cid s)"
      by (metis list.set_intros(1) neq_Nil_conv surj_pair)
    with none show False by (fastforce simp: membership_rows_iff member_row_def)
  qed
  then show "get_course_route (fst (session (get_course ident cid) s)) = Inl (APIError 404 ''course_not_found'')"
    by (simp add: get_course_def one_or_none_def session_def get_course_route_def)
qed

definition sample_courses :: db where
  "sample_courses = empty_db\<lparr>
     t_users := [\<lparr>us_id = 1, us_oidc_issuer = py ''i'', us_oidc_subject = py ''s'', us_created_at = 0\<rparr>],
     t_courses := [\<lparr>co_id = 2, co_title = py ''T'', co_version = 0, co_active_corpus_version_id = None,
        co_created_at = 0, co_updated_at = 0\<rparr>],
     t_memberships := [\<lparr>cm_course_id = 2, cm_user_id = 1, cm_role = TEACHER, cm_created_at = 0\<rparr>]\<rparr>"

lemma sample_courses_wf: "courses_wf sample_courses"
  by (simp add: courses_wf_def sample_courses_def empty_db_def)

end
