(* ===== verification/Documents.thy ===== *)
theory Documents
  imports Courses Ingestion
begin

text \<open>
  \<^verbatim>\<open>documents.py\<close>: a teacher creates an upload, the client sends the bytes to the object storage,
  the teacher confirms it, which queues an ingestion job, and later publishes a corpus under
  optimistic concurrency. The services are sequences of transactions; what others do between
  two of them is a parameter, as are the storage, the dispatcher and the digest.
\<close>

section \<open>Canonical requests\<close>

text \<open>\<open>json.dumps\<close> of a string: the escapes of \<open>ensure_ascii\<close>.\<close>

definition hex_digit :: "nat \<Rightarrow> nat" where
  "hex_digit d = (if d < 10 then 48 + d else 87 + d)"

definition unicode_escape :: "nat \<Rightarrow> pystr" where
  "unicode_escape c = [92, 117, hex_digit (c div 4096 mod 16), hex_digit (c div 256 mod 16),
     hex_digit (c div 16 mod 16), hex_digit (c mod 16)]"

definition json_char :: "nat \<Rightarrow> pystr" where
  "json_char c =
     (if c = 34 then [92, 34] else if c = 92 then [92, 92] else if c = 10 then [92, 110]
      else if c = 13 then [92, 114] else if c = 9 then [92, 116] else if c = 12 then [92, 102]
      else if c = 8 then [92, 98] else if 32 \<le> c \<and> c \<le> 126 then [c]
      else if c < 65536 then unicode_escape c
      else unicode_escape (55296 + (c - 65536) div 1024) @ unicode_escape (56320 + (c - 65536) mod 1024))"

definition json_string :: "pystr \<Rightarrow> pystr" where
  "json_string s = [34] @ concat (map json_char s) @ [34]"

datatype json_scalar = J_str pystr | J_int int

fun json_scalar_text :: "json_scalar \<Rightarrow> pystr" where
  "json_scalar_text (J_str s) = json_string s"
| "json_scalar_text (J_int i) = dec_int i"

text \<open>\<open>_request_hash\<close>; the keys of the two payloads below are written in sorted order.\<close>

definition request_hash :: "(pystr \<Rightarrow> pystr) \<Rightarrow> (string \<times> json_scalar) list \<Rightarrow> pystr" where
  "request_hash digest payload =
     digest ([123] @ py_join [44]
       (map (\<lambda>(k, v). json_string (py k) @ [58] @ json_scalar_text v) payload) @ [125])"

definition upload_payload :: "pystr \<Rightarrow> int \<Rightarrow> pystr \<Rightarrow> pystr \<Rightarrow> (string \<times> json_scalar) list" where
  "upload_payload filename size_bytes sha256 content_type =
     [(''content_type'', J_str content_type), (''filename'', J_str filename),
      (''sha256'', J_str sha256), (''size_bytes'', J_int size_bytes)]"

definition confirm_payload :: "uuid \<Rightarrow> uuid \<Rightarrow> uuid \<Rightarrow> (string \<times> json_scalar) list" where
  "confirm_payload course_id document_id version_id =
     [(''course_id'', J_str (uuid_str course_id)), (''document_id'', J_str (uuid_str document_id)),
      (''version_id'', J_str (uuid_str version_id))]"

section \<open>Input checks\<close>

text \<open>\<open>UploadCreateRequest\<close>.\<close>

definition hex_lower :: "nat \<Rightarrow> bool" where
  "hex_lower c \<longleftrightarrow> (48 \<le> c \<and> c \<le> 57) \<or> (97 \<le> c \<and> c \<le> 102)"

definition validate_sha256 :: "unicode_db \<Rightarrow> pystr \<Rightarrow> (exn, pystr) result" where
  "validate_sha256 u value =
     (let normalized = lower u value in
      if length value \<noteq> 64 then Inl (ValueError ''sha256 length'')
      else if length normalized = 64 \<and> list_all hex_lower normalized then Inr normalized
      else Inl (ValueError ''sha256 must be 64 hexadecimal characters''))"

definition validated_idempotency_key :: "pystr option \<Rightarrow> (exn, pystr) result" where
  "validated_idempotency_key value =
     (case value of None \<Rightarrow> Inl IdempotencyKeyMissing
      | Some v \<Rightarrow> if strip v = [] then Inl IdempotencyKeyMissing
                  else if length (strip v) > 255 then Inl IdempotencyKeyMissing
                  else Inr (strip v))"

definition ends_with :: "'a list \<Rightarrow> 'a list \<Rightarrow> bool" where
  "ends_with suf s \<longleftrightarrow> length suf \<le> length s \<and> drop (length s - length suf) s = suf"

text \<open>The part after the last slash, backslashes counting as slashes.\<close>

definition base_name :: "pystr \<Rightarrow> pystr" where
  "base_name filename =
     rev (takeWhile (\<lambda>c. c \<noteq> 47) (rev (map (\<lambda>c. if c = 92 then 47 else c) filename)))"

definition sanitize_filename :: "unicode_db \<Rightarrow> pystr \<Rightarrow> (exn, pystr) result" where
  "sanitize_filename u filename =
     (let safe = strip (filter (is_printable u) (base_name filename)) in
      if safe = [] \<or> length safe > 255 \<or> \<not> ends_with (py ''.pdf'') (lower u safe)
      then Inl (UploadValidationFailure ''DOCUMENT_INVALID_FILENAME'' 422) else Inr safe)"

definition document_title :: "pystr \<Rightarrow> pystr" where
  "document_title filename =
     (let title = strip (take (length filename - 4) filename)
      in if title = [] then py ''Untitled document'' else title)"

definition authorized_teacher_user_id ::
  "authenticated_identity \<Rightarrow> uuid \<Rightarrow> db \<Rightarrow> (exn, uuid) result" where
  "authorized_teacher_user_id ident course_id s =
     (case find (\<lambda>x. has_identity ident x \<and>
                   exists_where (\<lambda>m. cm_user_id m = us_id x \<and> cm_course_id m = course_id \<and>
                                    cm_role m = TEACHER) (t_memberships s)) (t_users s) of
        None \<Rightarrow> Inl DocumentResourceNotFound | Some x \<Rightarrow> Inr (us_id x))"

section \<open>Storage and views\<close>

record stored_object_metadata =
  so_size_bytes :: int
  so_media_type :: "pystr option"
  so_metadata :: "string \<Rightarrow> pystr option"
  so_version_id :: "pystr option"

record upload_record =
  ur_document_id :: uuid
  ur_version_id :: uuid
  ur_storage_key :: pystr
  ur_state :: document_version_state

record version_view =
  vw_document_id :: uuid
  vw_version_id :: uuid
  vw_state :: document_version_state
  vw_failure_code :: "string option"
  vw_page_count :: "int option"
  vw_chunk_count :: "int option"
  vw_corpus_version_id :: "uuid option"
  vw_job_id :: "uuid option"
  vw_job_state :: "ingestion_job_state option"

record activation_view =
  aw_course_id :: uuid
  aw_active_corpus_version_id :: uuid
  aw_course_version :: int

record service_config =
  sc_environment :: pystr
  sc_max_document_bytes :: int
  sc_pipeline_version :: pystr

section \<open>Creating an upload\<close>

definition storage_key :: "pystr \<Rightarrow> uuid \<Rightarrow> uuid \<Rightarrow> uuid \<Rightarrow> pystr" where
  "storage_key environment course_id document_id version_id =
     environment @ py ''/courses/'' @ uuid_str course_id @ py ''/documents/'' @ uuid_str document_id @
     py ''/versions/'' @ uuid_str version_id @ py ''/source.pdf''"

text \<open>The constraints the two new rows are checked against.\<close>

definition upload_insertable :: "document_version \<Rightarrow> db \<Rightarrow> bool" where
  "upload_insertable v s \<longleftrightarrow>
     \<not> exists_where (\<lambda>d. do_id d = dv_document_id v) (t_documents s) \<and>
     exists_where (\<lambda>c. co_id c = dv_course_id v) (t_courses s) \<and>
     \<not> exists_where (\<lambda>w. dv_id w = dv_id v \<or> dv_storage_key w = dv_storage_key v \<or>
          (dv_course_id w = dv_course_id v \<and> dv_upload_idempotency_key w = dv_upload_idempotency_key v))
        (t_versions s) \<and>
     dv_expected_size_bytes v > 0 \<and> length (dv_expected_sha256 v) = 64 \<and>
     list_all hex_lower (dv_expected_sha256 v)"

definition new_version ::
  "service_config \<Rightarrow> uuid \<Rightarrow> uuid \<Rightarrow> uuid \<Rightarrow> pystr \<Rightarrow> int \<Rightarrow> pystr \<Rightarrow> pystr \<Rightarrow> pystr \<Rightarrow> pystr \<Rightarrow> time \<Rightarrow>
   document_version" where
  "new_version cfg course_id document_id version_id filename size_bytes sha media_type key req_hash now =
     \<lparr>dv_id = version_id, dv_course_id = course_id, dv_document_id = document_id,
      dv_storage_key = storage_key (sc_environment cfg) course_id document_id version_id,
      dv_storage_version_id = None, dv_original_filename = filename,
      dv_expected_size_bytes = size_bytes, dv_expected_sha256 = sha, dv_media_type = media_type,
      dv_state = DV_AWAITING_UPLOAD, dv_pipeline_version = sc_pipeline_version cfg,
      dv_parser_version = None, dv_upload_idempotency_key = key, dv_upload_request_hash = req_hash,
      dv_confirmation_idempotency_key = None, dv_confirmation_request_hash = None,
      dv_object_size_bytes = None, dv_object_sha256 = None, dv_page_count = None,
      dv_chunk_count = None, dv_failure_code = None, dv_created_at = now, dv_updated_at = now\<rparr>"

text \<open>The transaction of \<open>create_upload\<close>, with the checked key, file name and request hash.\<close>

definition upload_tx ::
  "service_config \<Rightarrow> authenticated_identity \<Rightarrow> uuid \<Rightarrow> pystr \<Rightarrow> int \<Rightarrow> pystr \<Rightarrow> pystr \<Rightarrow> pystr \<Rightarrow> pystr \<Rightarrow>
   uuid \<Rightarrow> uuid \<Rightarrow> time \<Rightarrow> db \<Rightarrow> (exn, upload_record \<times> db) result" where
  "upload_tx cfg ident course_id safe_filename size_bytes sha media_type key req_hash did vid now s =
     bindE (authorized_teacher_user_id ident course_id s) (\<lambda>user_id.
       case find (\<lambda>v. dv_course_id v = course_id \<and> dv_upload_idempotency_key v = key) (t_versions s) of
         Some existing \<Rightarrow>
           if dv_upload_request_hash existing \<noteq> req_hash then Inl IdempotencyKeyReused
           else if dv_state existing \<noteq> DV_AWAITING_UPLOAD then Inl UploadNotReady
           else Inr (\<lparr>ur_document_id = dv_document_id existing, ur_version_id = dv_id existing,
                      ur_storage_key = dv_storage_key existing, ur_state = dv_state existing\<rparr>, s)
       | None \<Rightarrow>
           let v = new_version cfg course_id did vid safe_filename size_bytes sha media_type key req_hash now
           in if \<not> upload_insertable v s then Inl IntegrityError
              else Inr (\<lparr>ur_document_id = did, ur_version_id = vid,
                         ur_storage_key = dv_storage_key v, ur_state = DV_AWAITING_UPLOAD\<rparr>,
                   s\<lparr>t_documents := t_documents s @ [\<lparr>do_id = did, do_course_id = course_id,
                        do_title = document_title safe_filename, do_created_by_user_id = user_id,
                        do_created_at = now\<rparr>],
                     t_versions := t_versions s @ [v]\<rparr>))"

text \<open>\<open>create_upload\<close>; \<open>authorize\<close> is \<open>create_upload_authorization\<close> of the storage, called after
  the commit.\<close>

definition create_upload ::
  "unicode_db \<Rightarrow> (pystr \<Rightarrow> pystr) \<Rightarrow> (pystr \<Rightarrow> pystr \<Rightarrow> pystr \<Rightarrow> (exn, 'auth) result) \<Rightarrow> service_config \<Rightarrow>
   authenticated_identity \<Rightarrow> uuid \<Rightarrow> pystr \<Rightarrow> int \<Rightarrow> pystr \<Rightarrow> pystr \<Rightarrow> pystr option \<Rightarrow> uuid \<Rightarrow> uuid \<Rightarrow> time \<Rightarrow>
   db \<Rightarrow> (exn, upload_record \<times> 'auth) result \<times> db" where
  "create_upload u digest authorize cfg ident course_id filename size_bytes sha media_type key did vid now s =
     (case validated_idempotency_key key of Inl e \<Rightarrow> (Inl e, s)
      | Inr k \<Rightarrow>
        if size_bytes > sc_max_document_bytes cfg
        then (Inl (UploadValidationFailure ''DOCUMENT_TOO_LARGE'' 413), s)
        else (case sanitize_filename u filename of Inl e \<Rightarrow> (Inl e, s)
        | Inr safe \<Rightarrow>
          let h = request_hash digest (upload_payload safe size_bytes sha media_type) in
          (case session (upload_tx cfg ident course_id safe size_bytes sha media_type k h did vid now) s of
             (Inl e, s') \<Rightarrow> (Inl e, s')
           | (Inr r, s') \<Rightarrow>
               (case authorize (ur_storage_key r) media_type sha of
                  Inl e \<Rightarrow> (Inl e, s') | Inr a \<Rightarrow> (Inr (r, a), s')))))"


section \<open>Reading a version\<close>

definition the_version :: "uuid \<Rightarrow> uuid \<Rightarrow> uuid \<Rightarrow> document_version \<Rightarrow> bool" where
  "the_version course_id document_id version_id v \<longleftrightarrow>
     dv_course_id v = course_id \<and> dv_document_id v = document_id \<and> dv_id v = version_id"

text \<open>A left outer join: the matches, or one row of NULLs.\<close>

definition outer_rows :: "'a list \<Rightarrow> 'a option list" where
  "outer_rows xs = (if xs = [] then [None] else map Some xs)"

definition jobs_of :: "uuid \<Rightarrow> db \<Rightarrow> ingestion_job list" where
  "jobs_of vid s = filter (\<lambda>j. ij_document_version_id j = vid) (t_jobs s)"

definition get_version_tx ::
  "authenticated_identity \<Rightarrow> uuid \<Rightarrow> uuid \<Rightarrow> uuid \<Rightarrow> db \<Rightarrow> (exn, version_view \<times> db) result" where
  "get_version_tx ident course_id document_id version_id s =
     bindE (authorized_teacher_user_id ident course_id s) (\<lambda>_.
     bindE (one_or_none
       [(v, d, j). v \<leftarrow> filter (the_version course_id document_id version_id) (t_versions s),
          d \<leftarrow> outer_rows (filter (\<lambda>d. cd_document_version_id d = dv_id v) (t_corpus_documents s)),
          j \<leftarrow> outer_rows (jobs_of (dv_id v) s)])
       (\<lambda>result. case result of None \<Rightarrow> Inl DocumentResourceNotFound
          | Some (v, d, j) \<Rightarrow>
              Inr (\<lparr>vw_document_id = dv_document_id v, vw_version_id = dv_id v, vw_state = dv_state v,
                     vw_failure_code = dv_failure_code v, vw_page_count = dv_page_count v,
                     vw_chunk_count = dv_chunk_count v,
                     vw_corpus_version_id = map_option cd_corpus_version_id d,
                     vw_job_id = map_option ij_id j, vw_job_state = map_option ij_state j\<rparr>, s)))"

section \<open>Confirming an upload\<close>

text \<open>\<open>_existing_confirmation\<close>: the job of an earlier confirmation with the same key and request.\<close>

definition existing_confirmation_tx ::
  "authenticated_identity \<Rightarrow> uuid \<Rightarrow> uuid \<Rightarrow> uuid \<Rightarrow> pystr \<Rightarrow> pystr \<Rightarrow> db \<Rightarrow>
   (exn, (uuid \<times> ingestion_job_state) option \<times> db) result" where
  "existing_confirmation_tx ident course_id document_id version_id key req_hash s =
     bindE (authorized_teacher_user_id ident course_id s) (\<lambda>_.
     bindE (one_or_none
       [(v, j). v \<leftarrow> filter (the_version course_id document_id version_id) (t_versions s),
          j \<leftarrow> outer_rows (jobs_of (dv_id v) s)])
       (\<lambda>result. case result of None \<Rightarrow> Inl DocumentResourceNotFound
          | Some (v, j) \<Rightarrow>
              if dv_confirmation_idempotency_key v = None then Inr (None, s)
              else if dv_confirmation_idempotency_key v \<noteq> Some key \<or>
                      dv_confirmation_request_hash v \<noteq> Some req_hash then Inl IdempotencyKeyReused
              else (case j of
                      None \<Rightarrow> Inl (RuntimeError ''confirmed document has no ingestion job'')
                    | Some job \<Rightarrow> Inr (Some (ij_id job, ij_state job), s))))"

definition load_upload_tx ::
  "authenticated_identity \<Rightarrow> uuid \<Rightarrow> uuid \<Rightarrow> uuid \<Rightarrow> db \<Rightarrow> (exn, document_version \<times> db) result" where
  "load_upload_tx ident course_id document_id version_id s =
     bindE (authorized_teacher_user_id ident course_id s) (\<lambda>_.
       case find (the_version course_id document_id version_id) (t_versions s) of
         None \<Rightarrow> Inl DocumentResourceNotFound | Some v \<Rightarrow> Inr (v, s))"

definition media_base :: "unicode_db \<Rightarrow> pystr option \<Rightarrow> pystr" where
  "media_base u media_type =
     lower u (strip (takeWhile (\<lambda>c. c \<noteq> 59) (case media_type of None \<Rightarrow> [] | Some m \<Rightarrow> m)))"

definition validate_stored_object ::
  "unicode_db \<Rightarrow> service_config \<Rightarrow> stored_object_metadata \<Rightarrow> document_version \<Rightarrow> (exn, unit) result" where
  "validate_stored_object u cfg m record =
     (if so_size_bytes m > sc_max_document_bytes cfg
      then Inl (UploadValidationFailure ''DOCUMENT_TOO_LARGE'' 413)
      else if so_size_bytes m \<noteq> dv_expected_size_bytes record
      then Inl (UploadValidationFailure ''DOCUMENT_SIZE_MISMATCH'' 422)
      else if media_base u (so_media_type m) \<noteq> py ''application/pdf''
      then Inl (UploadValidationFailure ''DOCUMENT_INVALID_CONTENT_TYPE'' 422)
      else if lower u (case so_metadata m ''sha256'' of None \<Rightarrow> [] | Some h \<Rightarrow> h) \<noteq> dv_expected_sha256 record
      then Inl (UploadValidationFailure ''DOCUMENT_CHECKSUM_METADATA_MISMATCH'' 422)
      else if so_version_id m = None
      then Inl (UploadValidationFailure ''OBJECT_STORAGE_VERSIONING_REQUIRED'' 503)
      else Inr ())"

text \<open>The constraints of a new job: primary key, one job per version and pipeline, the version.\<close>

definition job_insertable :: "ingestion_job \<Rightarrow> db \<Rightarrow> bool" where
  "job_insertable job s \<longleftrightarrow>
     \<not> exists_where (\<lambda>j. ij_id j = ij_id job \<or>
        (ij_job_type j = ij_job_type job \<and> ij_document_version_id j = ij_document_version_id job \<and>
         ij_pipeline_version j = ij_pipeline_version job)) (t_jobs s) \<and>
     exists_where (version_of (ij_document_version_id job) (ij_course_id job)) (t_versions s)"

definition new_job :: "uuid \<Rightarrow> document_version \<Rightarrow> pystr \<Rightarrow> time \<Rightarrow> ingestion_job" where
  "new_job jid v correlation_id now =
     \<lparr>ij_id = jid, ij_course_id = dv_course_id v, ij_document_version_id = dv_id v,
      ij_job_type = py ''ingestion'', ij_pipeline_version = dv_pipeline_version v,
      ij_state = JOB_PENDING, ij_attempt = 0, ij_fencing_token = 0, ij_correlation_id = correlation_id,
      ij_failure_code = None, ij_created_at = now, ij_updated_at = now, ij_completed_at = None,
      ij_lease_expires_at = None, ij_next_attempt_at = now\<rparr>"

definition confirmed :: "pystr \<Rightarrow> pystr \<Rightarrow> stored_object_metadata \<Rightarrow> time \<Rightarrow> document_version \<Rightarrow> document_version" where
  "confirmed key req_hash m wall v =
     v\<lparr>dv_confirmation_idempotency_key := Some key, dv_confirmation_request_hash := Some req_hash,
       dv_object_size_bytes := Some (so_size_bytes m), dv_storage_version_id := so_version_id m,
       dv_state := DV_QUEUED, dv_updated_at := wall\<rparr>"

text \<open>Identifiers and clocks of the confirmation: the job and its event, the transaction start and
  the wall clock.\<close>

record confirm_env =
  cf_job :: uuid
  cf_event :: uuid
  cf_start :: time
  cf_wall :: time

type_synonym dispatcher = "uuid \<Rightarrow> time \<Rightarrow> ingestion_job \<Rightarrow> db \<Rightarrow> (exn, db) result"

definition confirm_tx ::
  "dispatcher \<Rightarrow> authenticated_identity \<Rightarrow> uuid \<Rightarrow> uuid \<Rightarrow> uuid \<Rightarrow> pystr \<Rightarrow> pystr \<Rightarrow> pystr \<Rightarrow>
   stored_object_metadata \<Rightarrow> confirm_env \<Rightarrow> db \<Rightarrow> (exn, unit \<times> db) result" where
  "confirm_tx dispatch ident course_id document_id version_id key req_hash correlation_id m env s =
     bindE (authorized_teacher_user_id ident course_id s) (\<lambda>_.
       case find (the_version course_id document_id version_id) (t_versions s) of
         None \<Rightarrow> Inl DocumentResourceNotFound
       | Some v \<Rightarrow>
           if dv_confirmation_idempotency_key v \<noteq> None then
             (if dv_confirmation_idempotency_key v \<noteq> Some key \<or>
                 dv_confirmation_request_hash v \<noteq> Some req_hash then Inl IdempotencyKeyReused
              else if jobs_of (dv_id v) s = []
              then Inl (RuntimeError ''confirmed document has no ingestion job'')
              else Inr ((), s))
           else if dv_state v \<noteq> DV_AWAITING_UPLOAD then Inl UploadNotReady
           else
             let job = new_job (cf_job env) v correlation_id (cf_start env);
                 s1 = s\<lparr>t_versions := update_where (the_version course_id document_id version_id)
                          (confirmed key req_hash m (cf_wall env)) (t_versions s)\<rparr>
             in if \<not> job_insertable job s1 then Inl IntegrityError
                else bindE (dispatch (cf_event env) (cf_start env) job (s1\<lparr>t_jobs := t_jobs s1 @ [job]\<rparr>))
                  (\<lambda>s2. Inr ((), s2)))"

text \<open>\<open>confirm_upload\<close>; \<open>others k\<close> is what other actors do to the database before its \<open>k\<close>-th further
  transaction, \<open>inspect\<close> is the metadata request to the storage.\<close>

definition confirm_upload ::
  "unicode_db \<Rightarrow> (pystr \<Rightarrow> pystr) \<Rightarrow> (pystr \<Rightarrow> (exn, stored_object_metadata) result) \<Rightarrow> dispatcher \<Rightarrow>
   service_config \<Rightarrow> (nat \<Rightarrow> db \<Rightarrow> db) \<Rightarrow> authenticated_identity \<Rightarrow> uuid \<Rightarrow> uuid \<Rightarrow> uuid \<Rightarrow> pystr option \<Rightarrow>
   pystr \<Rightarrow> confirm_env \<Rightarrow> db \<Rightarrow> (exn, version_view) result \<times> db" where
  "confirm_upload u digest inspect dispatch cfg others ident course_id document_id version_id key
     correlation_id env s =
     (case validated_idempotency_key key of Inl e \<Rightarrow> (Inl e, s)
      | Inr k \<Rightarrow>
        let h = request_hash digest (confirm_payload course_id document_id version_id) in
        (case session (existing_confirmation_tx ident course_id document_id version_id k h) s of
           (Inl e, s1) \<Rightarrow> (Inl e, s1)
         | (Inr (Some _), s1) \<Rightarrow>
             session (get_version_tx ident course_id document_id version_id) (others 1 s1)
         | (Inr None, s1) \<Rightarrow>
           (case session (load_upload_tx ident course_id document_id version_id) (others 1 s1) of
              (Inl e, s2) \<Rightarrow> (Inl e, s2)
            | (Inr record, s2) \<Rightarrow>
              (case inspect (dv_storage_key record) of Inl e \<Rightarrow> (Inl e, s2)
               | Inr m \<Rightarrow>
                 (case validate_stored_object u cfg m record of Inl e \<Rightarrow> (Inl e, s2)
                  | Inr _ \<Rightarrow>
                    (case session (confirm_tx dispatch ident course_id document_id version_id k h
                             correlation_id m env) (others 2 s2) of
                       (Inl e, s3) \<Rightarrow> (Inl e, s3)
                     | (Inr _, s3) \<Rightarrow>
                         session (get_version_tx ident course_id document_id version_id) (others 3 s3)))))))"

section \<open>Publishing a corpus\<close>

definition activate_corpus_tx ::
  "authenticated_identity \<Rightarrow> uuid \<Rightarrow> uuid \<Rightarrow> int \<Rightarrow> time \<Rightarrow> db \<Rightarrow> (exn, activation_view \<times> db) result" where
  "activate_corpus_tx ident course_id corpus_version_id expected_course_version now s =
     bindE (authorized_teacher_user_id ident course_id s) (\<lambda>_.
       case find (\<lambda>c. cv_id c = corpus_version_id \<and> cv_course_id c = course_id) (t_corpora s) of
         None \<Rightarrow> Inl DocumentResourceNotFound
       | Some corpus \<Rightarrow>
           if cv_state corpus \<noteq> CV_READY then Inl CorpusNotReady
           else
             let p = (\<lambda>c. co_id c = course_id \<and> co_version c = expected_course_version);
                 courses = update_where p (\<lambda>c. c\<lparr>co_active_corpus_version_id := Some corpus_version_id,
                     co_version := co_version c + 1, co_updated_at := now\<rparr>) (t_courses s)
             in (case find p (t_courses s) of
                   None \<Rightarrow> Inl PublicationConflict
                 | Some c \<Rightarrow> Inr (\<lparr>aw_course_id = course_id,
                       aw_active_corpus_version_id = corpus_version_id,
                       aw_course_version = co_version c + 1\<rparr>, s\<lparr>t_courses := courses\<rparr>)))"

section \<open>Errors of the routes\<close>

fun raise_document_api_error :: "exn \<Rightarrow> exn" where
  "raise_document_api_error (APIError st c) = APIError st c"
| "raise_document_api_error IdempotencyKeyMissing = APIError 400 ''idempotency_key_required''"
| "raise_document_api_error IdempotencyKeyReused = APIError 409 ''idempotency_key_reused''"
| "raise_document_api_error DocumentResourceNotFound = APIError 404 ''resource_not_found''"
| "raise_document_api_error StoredObjectNotFound = APIError 404 ''resource_not_found''"
| "raise_document_api_error UploadNotReady = APIError 409 ''upload_not_ready''"
| "raise_document_api_error (UploadValidationFailure code st) = APIError st (map (\<lambda>ch. char_of (ascii_lower (of_char ch))) code)"
| "raise_document_api_error CorpusNotReady = APIError 409 ''corpus_not_ready''"
| "raise_document_api_error PublicationConflict = APIError 409 ''publication_conflict''"
| "raise_document_api_error ObjectStorageUnavailable = APIError 503 ''object_storage_unavailable''"
| "raise_document_api_error e = (if is_sqlalchemy_error e then APIError 503 ''persistence_unavailable'' else e)"


section \<open>Filenames\<close>

lemma sanitize_filename_Inr:
  assumes "sanitize_filename u f = Inr g"
  shows "g \<noteq> []" "length g \<le> 255" "ends_with (py ''.pdf'') (lower u g)" "strip g = g"
    "\<And>c. c \<in> set g \<Longrightarrow> c \<noteq> 47 \<and> c \<noteq> 92 \<and> is_printable u c"
proof -
  have g: "g = strip (filter (is_printable u) (base_name f))"
    and "g \<noteq> []" "length g \<le> 255" "ends_with (py ''.pdf'') (lower u g)"
    using assms by (auto simp: sanitize_filename_def Let_def split: if_splits)
  then show "g \<noteq> []" "length g \<le> 255" "ends_with (py ''.pdf'') (lower u g)" "strip g = g" by simp_all
  fix c assume "c \<in> set g"
  then have "c \<in> set (filter (is_printable u) (base_name f))"
    using set_mono_sublist [OF strip_sublist] g by blast
  then show "c \<noteq> 47 \<and> c \<noteq> 92 \<and> is_printable u c"
    by (auto simp: base_name_def dest!: set_takeWhileD split: if_splits)
qed

lemma sanitize_filename_fixed:
  assumes "g \<noteq> []" "length g \<le> 255" "ends_with (py ''.pdf'') (lower u g)" "strip g = g"
    and "\<And>c. c \<in> set g \<Longrightarrow> c \<noteq> 47 \<and> c \<noteq> 92 \<and> is_printable u c"
  shows "sanitize_filename u g = Inr g"
proof -
  have "map (\<lambda>c. if c = 92 then 47 else c) g = g" using assms(5) by (intro map_idI) auto
  moreover have "takeWhile (\<lambda>c. c \<noteq> 47) (rev g) = rev g"
    using assms(5) by (subst takeWhile_eq_all_conv) auto
  ultimately have "base_name g = g" by (simp only: base_name_def rev_rev_ident)
  moreover have "filter (is_printable u) g = g" using assms(5) by (simp add: filter_id_conv)
  ultimately show ?thesis using assms(1-4) by (simp add: sanitize_filename_def Let_def)
qed

text \<open>A stored file name is harmless. What \<open>_sanitize_filename\<close> accepts is at most 255 printable
  characters without slash or backslash, no blank at either end, and it ends in \<open>.pdf\<close> in
  some case; sanitising it again gives the same name. It never has a directory part: a name
  in a path gives the same result as the part after the last slash.\<close>

lemma sanitize_filename_safe:
  assumes "sanitize_filename u f = Inr g"
  shows "g \<noteq> [] \<and> length g \<le> 255 \<and> strip g = g \<and> ends_with (py ''.pdf'') (lower u g) \<and>
     list_all (\<lambda>c. c \<noteq> 47 \<and> c \<noteq> 92 \<and> is_printable u c) g \<and> sanitize_filename u g = Inr g \<and>
     sanitize_filename u (d @ [47] @ f) = Inr g"
proof -
  note g = sanitize_filename_Inr [OF assms]
  have "sanitize_filename u g = Inr g" using g by (rule sanitize_filename_fixed)
  moreover have "base_name (d @ [47] @ f) = base_name f"
    by (simp add: base_name_def takeWhile_tail)
  then have "sanitize_filename u (d @ [47] @ f) = Inr g"
    using assms by (simp add: sanitize_filename_def)
  ultimately show ?thesis using g by (simp add: list_all_iff)
qed

lemma sample_filename: "sanitize_filename ascii_db (py ''../x'' @ [92] @ py ''a.PDF '') = Inr (py ''a.PDF'')"
  by (simp add: sanitize_filename_def base_name_def py_def strip_def is_space_def is_printable_def
      ends_with_def lower_ascii ascii_lower_def Let_def)

section \<open>Tenancy\<close>

definition is_teacher :: "authenticated_identity \<Rightarrow> uuid \<Rightarrow> db \<Rightarrow> bool" where
  "is_teacher ident course_id s \<longleftrightarrow>
     (\<exists>x \<in> set (t_users s). \<exists>m \<in> set (t_memberships s). has_identity ident x \<and>
        cm_user_id m = us_id x \<and> cm_course_id m = course_id \<and> cm_role m = TEACHER)"

lemma authorized_teacher:
  "is_teacher ident course_id s \<longleftrightarrow> (\<exists>uid. authorized_teacher_user_id ident course_id s = Inr uid)"
  "\<not> is_teacher ident course_id s \<Longrightarrow> authorized_teacher_user_id ident course_id s = Inl DocumentResourceNotFound"
  by (auto simp: authorized_teacher_user_id_def is_teacher_def exists_where_iff find_None_iff
      split: option.splits dest!: find_SomeD)


lemma sample_not_teacher: "\<not> is_teacher sample_ident2 2 sample_courses"
  by (simp add: is_teacher_def sample_courses_def has_identity_def sample_ident2_def py_def)


section \<open>The invariant of the service\<close>

text \<open>Beyond the invariant of ingestion: a version has a job exactly when it was confirmed, every
  job has its event, every published document has a job, and an active corpus is a READY
  corpus of its course.\<close>

definition active_ok :: "db \<Rightarrow> bool" where
  "active_ok s \<longleftrightarrow> (\<forall>c \<in> set (t_courses s). \<forall>k. co_active_corpus_version_id c = Some k \<longrightarrow>
     (\<exists>v \<in> set (t_corpora s). cv_id v = k \<and> cv_course_id v = co_id c \<and> cv_state v = CV_READY))"

definition job_versions :: "db \<Rightarrow> uuid set" where
  "job_versions s = ij_document_version_id ` set (t_jobs s)"

definition service_inv :: "int \<Rightarrow> db \<Rightarrow> bool" where
  "service_inv mx s \<longleftrightarrow> ingest_inv mx s \<and> active_ok s \<and>
     (\<forall>v \<in> set (t_versions s). dv_confirmation_idempotency_key v \<noteq> None \<longleftrightarrow> dv_id v \<in> job_versions s) \<and>
     (\<forall>j \<in> set (t_jobs s). (ij_id j, Ingestion_event) \<in> event_key ` set (t_outbox s)) \<and>
     cd_document_version_id ` set (t_corpus_documents s) \<subseteq> job_versions s"

lemma upload_tx_Inr:
  assumes "upload_tx cfg ident cid f n sha mt key h did vid now s = Inr (r, s')"
  obtains (replayed) v where "v \<in> set (t_versions s)" "dv_course_id v = cid"
      "dv_upload_idempotency_key v = key" "dv_upload_request_hash v = h"
      "dv_state v = DV_AWAITING_UPLOAD" "s' = s"
      "r = \<lparr>ur_document_id = dv_document_id v, ur_version_id = dv_id v,
            ur_storage_key = dv_storage_key v, ur_state = dv_state v\<rparr>"
  | (created) d v where "v = new_version cfg cid did vid f n sha mt key h now"
      "upload_insertable v s" "is_teacher ident cid s" "do_id d = did" "do_course_id d = cid"
      "s' = s\<lparr>t_documents := t_documents s @ [d], t_versions := t_versions s @ [v]\<rparr>"
      "r = \<lparr>ur_document_id = did, ur_version_id = vid, ur_storage_key = dv_storage_key v,
            ur_state = DV_AWAITING_UPLOAD\<rparr>"
proof -
  obtain uid where uid: "authorized_teacher_user_id ident cid s = Inr uid"
    using assms unfolding upload_tx_def bindE_eq_Inr by blast
  then have "is_teacher ident cid s" unfolding authorized_teacher(1) by blast
  note t = this
  show ?thesis
  proof (cases "find (\<lambda>v. dv_course_id v = cid \<and> dv_upload_idempotency_key v = key) (t_versions s)")
    case (Some v)
    note eq = assms [unfolded upload_tx_def uid bindE_Inr Some option.case]
    have "dv_upload_request_hash v = h" "dv_state v = DV_AWAITING_UPLOAD"
      using eq by (auto split: if_splits)
    moreover from this have "s' = s" "r = \<lparr>ur_document_id = dv_document_id v, ur_version_id = dv_id v,
        ur_storage_key = dv_storage_key v, ur_state = dv_state v\<rparr>" using eq by simp_all
    ultimately show ?thesis using replayed find_SomeD [OF Some] by blast
  next
    case None
    then show ?thesis
      using assms uid t by (intro created [OF refl]) (auto simp: upload_tx_def Let_def split: if_splits)
  qed
qed

lemma upload_tx_inv:
  assumes inv: "service_inv mx s"
    and up: "upload_tx cfg ident cid f n sha mt key h did vid now s = Inr (r, s')"
  shows "service_inv mx s'"
  using up
proof (cases rule: upload_tx_Inr)
  case replayed
  with inv show ?thesis by simp
next
  case (created d v)
  have fresh: "vid \<notin> dv_id ` set (t_versions s)"
    using created(1,2) by (auto simp: upload_insertable_def exists_where_iff new_version_def)
  have "ij_document_version_id j \<in> dv_id ` set (t_versions s)" if j: "j \<in> set (t_jobs s)" for j
  proof -
    have "ingest_inv mx s" using inv by (simp add: service_inv_def)
    then obtain x where "x \<in> set (t_versions s)" "version_of (ij_document_version_id j) (ij_course_id j) x"
      by (rule job_version [OF _ j])
    then show ?thesis by (metis imageI version_of_def)
  qed
  then have nojob: "vid \<notin> job_versions s"
    using fresh created(1) by (fastforce simp: job_versions_def new_version_def)
  have jobs: "job_ok mx s' j" if "job_ok mx s j" for j
    using that by (auto simp: job_ok_def created(6) corpora_of_def)
  show ?thesis
    using inv fresh nojob created(1) jobs
    by (auto simp: service_inv_def ingest_inv_def outbox_wf_def links_ok_def active_ok_def
        job_versions_def created(6) new_version_def)
qed

lemma find_snoc_unique:
  assumes "p x" "\<And>y. y \<in> set xs \<Longrightarrow> \<not> p y"
  shows "find p (xs @ [x]) = Some x"
  using assms by (induction xs) auto

text \<open>Creating an upload is idempotent. A repeated request with the same key, at any later time
  and whatever identifiers are drawn, gives the same record and authorization and changes
  nothing; a different request under that key is refused without a change.\<close>

lemma create_upload_idempotent:
  assumes up: "create_upload u digest authorize cfg ident cid f n sha mt key did vid now s = (Inr (r, a), s')"
    and other: "sanitize_filename u f = Inr g" "sanitize_filename u f2 = Inr g2"
      "n2 \<le> sc_max_document_bytes cfg"
      "request_hash digest (upload_payload g2 n2 sha2 mt2) \<noteq> request_hash digest (upload_payload g n sha mt)"
  shows "create_upload u digest authorize cfg ident cid f n sha mt key did' vid' now' s' = (Inr (r, a), s') \<and>
     create_upload u digest authorize cfg ident cid f2 n2 sha2 mt2 key did' vid' now' s'
       = (Inl IdempotencyKeyReused, s')"
proof -
  let ?h = "request_hash digest (upload_payload g n sha mt)"
  obtain k where k: "validated_idempotency_key key = Inr k"
    using up by (auto simp: create_upload_def split: sum.splits)
  have small: "n \<le> sc_max_document_bytes cfg"
    using up k by (auto simp: create_upload_def split: if_splits)
  obtain s1 where tx: "session (upload_tx cfg ident cid g n sha mt k ?h did vid now) s = (Inr r, s1)"
    using up k small other(1)
    by (auto simp: create_upload_def Let_def split: sum.splits prod.splits)
  then have t: "upload_tx cfg ident cid g n sha mt k ?h did vid now s = Inr (r, s1)"
    by (auto simp: session_def split: sum.splits)
  have rest: "s' = s1" "authorize (ur_storage_key r) mt sha = Inr a"
    using up k small other(1) tx by (auto simp: create_upload_def Let_def split: sum.splits)
  obtain uid where uid: "authorized_teacher_user_id ident cid s = Inr uid"
    using t unfolding upload_tx_def bindE_eq_Inr by blast
  have "authorized_teacher_user_id ident cid s1 = Inr uid \<and>
    (\<exists>v. find (\<lambda>v. dv_course_id v = cid \<and> dv_upload_idempotency_key v = k) (t_versions s1) = Some v \<and>
       dv_upload_request_hash v = ?h \<and> dv_state v = DV_AWAITING_UPLOAD \<and>
       r = \<lparr>ur_document_id = dv_document_id v, ur_version_id = dv_id v,
            ur_storage_key = dv_storage_key v, ur_state = dv_state v\<rparr>)"
  proof (cases "find (\<lambda>v. dv_course_id v = cid \<and> dv_upload_idempotency_key v = k) (t_versions s)")
    case (Some v)
    then show ?thesis using t uid by (auto simp: upload_tx_def split: if_splits)
  next
    case None
    let ?v = "new_version cfg cid did vid g n sha mt k ?h now"
    have s1: "t_versions s1 = t_versions s @ [?v]" "t_users s1 = t_users s" "t_memberships s1 = t_memberships s"
      and r: "r = \<lparr>ur_document_id = did, ur_version_id = vid, ur_storage_key = dv_storage_key ?v,
        ur_state = DV_AWAITING_UPLOAD\<rparr>"
      using t uid None by (auto simp: upload_tx_def Let_def split: if_splits)
    have "find (\<lambda>v. dv_course_id v = cid \<and> dv_upload_idempotency_key v = k) (t_versions s1) = Some ?v"
      unfolding s1(1) by (rule find_snoc_unique) (use find_NoneD [OF None] in \<open>auto simp: new_version_def\<close>)
    then show ?thesis using uid s1 r by (simp add: authorized_teacher_user_id_def new_version_def)
  qed
  then show ?thesis
    using k small other rest by (auto simp: create_upload_def Let_def upload_tx_def)
qed

definition sample_service :: service_config where
  "sample_service = \<lparr>sc_environment = py ''test'', sc_max_document_bytes = 10, sc_pipeline_version = py ''v1''\<rparr>"

definition sample_record :: upload_record where
  "sample_record = \<lparr>ur_document_id = 11, ur_version_id = 12, ur_storage_key = storage_key (py ''test'') 2 11 12,
     ur_state = DV_AWAITING_UPLOAD\<rparr>"

section \<open>Confirmation\<close>

lemma confirm_tx_Inr:
  assumes "confirm_tx dispatch ident cid did vid key h corr m env s = Inr (r, s')"
  obtains (replayed) v where "v \<in> set (t_versions s)" "the_version cid did vid v"
      "dv_confirmation_idempotency_key v = Some key" "dv_confirmation_request_hash v = Some h" "s' = s"
  | (queued) v job where "v \<in> set (t_versions s)" "the_version cid did vid v"
      "dv_confirmation_idempotency_key v = None" "dv_state v = DV_AWAITING_UPLOAD"
      "job = new_job (cf_job env) v corr (cf_start env)" "job_insertable job s"
      "dispatch (cf_event env) (cf_start env) job
         (s\<lparr>t_versions := update_where (the_version cid did vid) (confirmed key h m (cf_wall env)) (t_versions s),
            t_jobs := t_jobs s @ [job]\<rparr>) = Inr s'"
proof -
  obtain uid where uid: "authorized_teacher_user_id ident cid s = Inr uid"
    using assms unfolding confirm_tx_def bindE_eq_Inr by blast
  note eq = assms [unfolded confirm_tx_def uid bindE_Inr]
  obtain v where v: "find (the_version cid did vid) (t_versions s) = Some v"
    using eq by (cases "find (the_version cid did vid) (t_versions s)") simp_all
  note eq = eq [unfolded v option.case]
  note in_v = find_SomeD [OF v]
  show ?thesis
  proof (cases "dv_confirmation_idempotency_key v")
    case (Some k)
    then show ?thesis using eq in_v by (intro replayed [of v]) (auto split: if_splits)
  next
    case None
    let ?job = "new_job (cf_job env) v corr (cf_start env)"
    let ?vs = "update_where (the_version cid did vid) (confirmed key h m (cf_wall env)) (t_versions s)"
    have st: "dv_state v = DV_AWAITING_UPLOAD" using eq None by (auto split: if_splits)
    have ins: "job_insertable ?job (s\<lparr>t_versions := ?vs\<rparr>)"
      using eq None st by (auto simp: Let_def split: if_splits)
    have "exists_where (version_of (dv_id v) (dv_course_id v)) (t_versions s)"
      using in_v by (auto simp: exists_where_iff version_of_def)
    then have "job_insertable ?job s"
      using ins by (simp add: job_insertable_def new_job_def)
    moreover have "dispatch (cf_event env) (cf_start env) ?job (s\<lparr>t_versions := ?vs, t_jobs := t_jobs s @ [?job]\<rparr>) = Inr s'"
      using eq None st ins by (auto simp: Let_def bindE_eq_Inr)
    ultimately show ?thesis using queued in_v None st by blast
  qed
qed

text \<open>What the service needs of a dispatcher to keep its invariant.\<close>

context job_dispatcher
begin

lemma confirm_tx_inv:
  assumes inv: "service_inv mx s" and mx: "0 \<le> mx"
    and ex: "confirm_tx dispatch ident cid did vid key h corr m env s = Inr (r, s')"
  shows "service_inv mx s'"
  using ex
proof (cases rule: confirm_tx_Inr)
  case (replayed v)
  with inv show ?thesis by simp
next
  case (queued v job)
  let ?p = "the_version cid did vid"
  let ?g = "confirmed key h m (cf_wall env)"
  let ?s2 = "s\<lparr>t_versions := update_where ?p ?g (t_versions s), t_jobs := t_jobs s @ [job]\<rparr>"
  have ii: "ingest_inv mx s" using inv by (simp add: service_inv_def)
  have frame: "s' = ?s2\<lparr>t_outbox := t_outbox s'\<rparr>" using dispatch_frame [OF queued(7)] .
  have tabs: "t_versions s' = update_where ?p ?g (t_versions s)" "t_jobs s' = t_jobs s @ [job]"
    "t_corpora s' = t_corpora s" "t_corpus_documents s' = t_corpus_documents s" "t_courses s' = t_courses s"
    by (subst frame, simp)+
  have keeps: "set (t_outbox s) \<subseteq> set (t_outbox s')" using dispatch_keeps [OF queued(7)] by simp
  have wf: "outbox_wf s'" using dispatch_wf [OF queued(7)] ii by (simp add: ingest_inv_def outbox_wf_def)
  have job: "ij_document_version_id job = dv_id v" "ij_state job = JOB_PENDING" "ij_course_id job = dv_course_id v"
    "ij_attempt job = 0" "ij_fencing_token job = 0"
    using queued(5) by (simp_all add: new_job_def)
  have nojob: "dv_id v \<notin> job_versions s" using inv queued(1,3) by (auto simp: service_inv_def)
  have vid: "dv_id v = vid" "dv_course_id v = cid" using queued(2) by (simp_all add: the_version_def)
  have corp0: "corpora_of (dv_id v) s' = 0"
    using inv nojob by (auto simp: service_inv_def corpora_of_def count_where_0 tabs)
  have v': "?g v \<in> set (t_versions s')"
    unfolding tabs using update_where_hit [of v "t_versions s" ?p ?g] queued(1,2) by simp
  have old: "job_ok mx s' j" if j: "j \<in> set (t_jobs s)" for j
  proof -
    have ok: "job_ok mx s j" using ii j by (rule ingest_inv_job)
    obtain w where w: "w \<in> set (t_versions s)" "version_of (ij_document_version_id j) (ij_course_id j) w"
      "coupled (ij_state j) (dv_state w)" using ii j by (rule job_version)
    have "dv_id w \<noteq> vid" using nojob j w(2) vid by (metis imageI job_versions_def version_of_def)
    then have "w \<in> set (t_versions s')"
      unfolding tabs using update_where_miss [of w "t_versions s" ?p ?g] w(1) by (simp add: the_version_def)
    then show ?thesis using ok w keeps by (auto simp: job_ok_def corpora_of_def tabs)
  qed
  have new: "job_ok mx s' job"
    using v' corp0 mx job vid by (auto simp: job_ok_def version_of_def confirmed_def intro!: bexI [of _ "?g v"])
  have ids: "ij_id job \<notin> ij_id ` set (t_jobs s)" "ij_document_version_id job \<notin> ij_document_version_id ` set (t_jobs s)"
    using queued(6) nojob job by (auto simp: job_insertable_def exists_where_iff job_versions_def)
  have vmap: "map dv_id (t_versions s') = map dv_id (t_versions s)"
    unfolding tabs by (rule map_update_where) (simp add: confirmed_def)
  have "ingest_inv mx s'"
    using ii old new ids wf vmap by (auto simp: ingest_inv_def links_ok_def tabs)
  moreover have "(dv_confirmation_idempotency_key w \<noteq> None) = (dv_id w \<in> job_versions s')"
    if w: "w \<in> set (t_versions s')" for w
  proof -
    from w consider w0 where "w0 \<in> set (t_versions s)" "?p w0" "w = ?g w0"
      | "w \<in> set (t_versions s)" "\<not> ?p w"
      unfolding tabs by (rule in_update_whereE)
    then show ?thesis
    proof cases
      case 1
      then show ?thesis using job vid by (auto simp: confirmed_def job_versions_def tabs the_version_def)
    next
      case 2
      then have "dv_id w \<noteq> dv_id v"
        using version_unique [OF ii 2(1) queued(1)] queued(2) by auto
      then show ?thesis using inv 2(1) job by (auto simp: service_inv_def job_versions_def tabs)
    qed
  qed
  moreover have "(ij_id j, Ingestion_event) \<in> event_key ` set (t_outbox s')" if j: "j \<in> set (t_jobs s')" for j
  proof -
    have sub: "event_key ` set (t_outbox s) \<subseteq> event_key ` set (t_outbox s')" using keeps by blast
    have new_event: "(ij_id job, Ingestion_event) \<in> event_key ` set (t_outbox s')"
      using dispatch_event [OF queued(7)] by (force simp: event_key_def)
    from j consider "j \<in> set (t_jobs s)" | "j = job" unfolding tabs by auto
    then show ?thesis using inv sub new_event by cases (auto simp: service_inv_def)
  qed
  ultimately show ?thesis
    using inv by (auto simp: service_inv_def active_ok_def tabs job_versions_def)
qed

end

lemma activate_corpus_Inr:
  assumes "activate_corpus_tx ident cid corp ver now s = Inr (a, s')"
  obtains v c where "v \<in> set (t_corpora s)" "cv_id v = corp" "cv_course_id v = cid" "cv_state v = CV_READY"
    "c \<in> set (t_courses s)" "co_id c = cid" "co_version c = ver"
    "a = \<lparr>aw_course_id = cid, aw_active_corpus_version_id = corp, aw_course_version = ver + 1\<rparr>"
    "s' = s\<lparr>t_courses := update_where (\<lambda>c. co_id c = cid \<and> co_version c = ver)
       (\<lambda>c. c\<lparr>co_active_corpus_version_id := Some corp, co_version := co_version c + 1,
              co_updated_at := now\<rparr>) (t_courses s)\<rparr>"
proof -
  obtain uid where uid: "authorized_teacher_user_id ident cid s = Inr uid"
    using assms unfolding activate_corpus_tx_def bindE_eq_Inr by blast
  note eq = assms [unfolded activate_corpus_tx_def uid bindE_Inr]
  obtain v where v: "find (\<lambda>c. cv_id c = corp \<and> cv_course_id c = cid) (t_corpora s) = Some v"
    using eq by (cases "find (\<lambda>c. cv_id c = corp \<and> cv_course_id c = cid) (t_corpora s)") simp_all
  note eq = eq [unfolded v option.case]
  have ready: "cv_state v = CV_READY" using eq by (auto split: if_splits)
  obtain c where c: "find (\<lambda>c. co_id c = cid \<and> co_version c = ver) (t_courses s) = Some c"
    using eq ready by (cases "find (\<lambda>c. co_id c = cid \<and> co_version c = ver) (t_courses s)") simp_all
  show ?thesis
    using eq ready c find_SomeD [OF v] find_SomeD [OF c] by (intro that [of v c]) simp_all
qed

lemma activate_corpus_inv:
  assumes inv: "service_inv mx s" and ex: "activate_corpus_tx ident cid corp ver now s = Inr (a, s')"
  shows "service_inv mx s'"
  using ex
proof (cases rule: activate_corpus_Inr)
  case (1 v c)
  have "active_ok s'"
    using inv 1 by (auto simp: service_inv_def active_ok_def set_update_where)
  moreover have "job_ok mx s' j = job_ok mx s j" for j
    by (simp add: job_ok_def 1 corpora_of_def)
  ultimately show ?thesis
    using inv by (simp add: service_inv_def ingest_inv_def outbox_wf_def links_ok_def job_versions_def 1)
qed

text \<open>C4: confirmation queues the document exactly once. After a successful confirmation the
  invariant still holds, the version has exactly one job, that job exactly one ingestion
  event, and the version is confirmed for good: repeating the confirmation changes nothing,
  under another key it is refused.\<close>

theorem confirm_queues_exactly_once:
  assumes inv: "service_inv mx s" and mx: "0 \<le> mx"
    and ex: "confirm_tx outbox_dispatch ident cid did vid key h corr m env s = Inr (r, s')"
  shows "service_inv mx s' \<and> (\<exists>!j. j \<in> set (t_jobs s') \<and> ij_document_version_id j = vid) \<and>
     (\<forall>j \<in> set (t_jobs s'). \<exists>!e. e \<in> set (t_outbox s') \<and> event_key e = (ij_id j, Ingestion_event)) \<and>
     confirm_tx outbox_dispatch ident cid did vid key h corr' m' env' s' = Inr ((), s') \<and>
     (key' \<noteq> key \<longrightarrow> confirm_tx outbox_dispatch ident cid did vid key' h corr' m' env' s' = Inl IdempotencyKeyReused)"
proof -
  have inv': "service_inv mx s'" using outbox.confirm_tx_inv [OF inv mx ex] .
  then have ii: "ingest_inv mx s'" by (simp add: service_inv_def)
  obtain uid where uid: "authorized_teacher_user_id ident cid s = Inr uid"
    using ex unfolding confirm_tx_def bindE_eq_Inr by blast
  have "\<exists>w. w \<in> set (t_versions s') \<and> the_version cid did vid w \<and>
      dv_confirmation_idempotency_key w = Some key \<and> dv_confirmation_request_hash w = Some h \<and>
      authorized_teacher_user_id ident cid s' = Inr uid"
    using ex
  proof (cases rule: confirm_tx_Inr)
    case (replayed v)
    then show ?thesis using uid by blast
  next
    case (queued v job)
    have frame: "s' = s\<lparr>t_versions := update_where (the_version cid did vid) (confirmed key h m (cf_wall env)) (t_versions s),
            t_jobs := t_jobs s @ [job], t_outbox := t_outbox s'\<rparr>"
      using outbox.dispatch_frame [OF queued(7)] by simp
    have "confirmed key h m (cf_wall env) v \<in> set (t_versions s')"
      by (subst frame) (use update_where_hit [of v "t_versions s" "the_version cid did vid"] queued(1,2) in simp)
    moreover have "authorized_teacher_user_id ident cid s' = Inr uid"
      using uid by (subst frame) (simp add: authorized_teacher_user_id_def)
    ultimately show ?thesis using queued(2)
      by (intro exI [of _ "confirmed key h m (cf_wall env) v"]) (simp add: confirmed_def the_version_def)
  qed
  then obtain w where w: "w \<in> set (t_versions s')" "the_version cid did vid w"
    "dv_confirmation_idempotency_key w = Some key" "dv_confirmation_request_hash w = Some h"
    "authorized_teacher_user_id ident cid s' = Inr uid" by blast
  have fw: "find (the_version cid did vid) (t_versions s') = Some w"
  proof (rule find_unique [of w "t_versions s'" "the_version cid did vid", OF w(1,2)])
    fix y assume "y \<in> set (t_versions s')" "the_version cid did vid y"
    then show "y = w" using version_unique [OF ii _ w(1)] w(2) by (simp add: the_version_def)
  qed
  have "vid \<in> job_versions s'"
    using inv' w(1,2,3) unfolding service_inv_def by (auto simp: the_version_def)
  then obtain j where j: "j \<in> set (t_jobs s')" "ij_document_version_id j = vid"
    by (auto simp: job_versions_def)
  then have ne: "jobs_of (dv_id w) s' \<noteq> []"
    using w(2) by (auto simp: jobs_of_def filter_empty_conv the_version_def)
  have one_job: "\<exists>!j. j \<in> set (t_jobs s') \<and> ij_document_version_id j = vid"
    by (rule ex1_key [of ij_document_version_id "t_jobs s'" j, OF _ j]) (use ii in \<open>simp add: ingest_inv_def\<close>)
  have one_event: "\<exists>!e. e \<in> set (t_outbox s') \<and> event_key e = (ij_id i, Ingestion_event)"
    if i: "i \<in> set (t_jobs s')" for i
  proof -
    obtain e where e: "e \<in> set (t_outbox s')" "event_key e = (ij_id i, Ingestion_event)"
      using inv' i by (force simp: service_inv_def)
    have keys: "distinct (map event_key (t_outbox s'))" using ii by (simp add: ingest_inv_def outbox_wf_def)
    show ?thesis by (rule ex1_key [OF keys e])
  qed
  show ?thesis using inv' one_job one_event fw w ne by (simp add: confirm_tx_def)
qed

definition sample_upload :: db where
  "sample_upload = sample_courses\<lparr>t_versions := [sample_version\<lparr>dv_course_id := 2, dv_state := DV_AWAITING_UPLOAD\<rparr>]\<rparr>"

definition sample_object :: stored_object_metadata where
  "sample_object = \<lparr>so_size_bytes = 3, so_media_type = None, so_metadata = (\<lambda>_. None), so_version_id = Some (py ''sv'')\<rparr>"

definition sample_confirm_env :: confirm_env where
  "sample_confirm_env = \<lparr>cf_job = 8, cf_event = 9, cf_start = 1, cf_wall = 2\<rparr>"

lemma sample_upload_inv: "service_inv 3 sample_upload"
  by (simp add: service_inv_def ingest_inv_def outbox_wf_def links_ok_def active_ok_def job_versions_def
      sample_upload_def sample_courses_def empty_db_def sample_version_def)

lemma sample_confirmed:
  "\<exists>s'. confirm_tx outbox_dispatch sample_ident 2 5 4 (py ''k'') (py ''h'') (py ''c'') sample_object
     sample_confirm_env sample_upload = Inr ((), s')"
  by (simp add: confirm_tx_def authorized_teacher_user_id_def sample_upload_def sample_courses_def
      empty_db_def has_identity_def sample_ident_def exists_where_def the_version_def sample_version_def
      job_insertable_def new_job_def update_where_def confirmed_def version_of_def outbox_dispatch_def
      insert_event_def Let_def sample_confirm_env_def)

theorem confirm_queues_exactly_once_witness:
  "\<exists>s'. confirm_tx outbox_dispatch sample_ident 2 5 4 (py ''k'') (py ''h'') (py ''c'') sample_object
     sample_confirm_env sample_upload = Inr ((), s') \<and>
   (\<exists>!j. j \<in> set (t_jobs s') \<and> ij_document_version_id j = 4)"
proof -
  obtain s' where s': "confirm_tx outbox_dispatch sample_ident 2 5 4 (py ''k'') (py ''h'') (py ''c'')
      sample_object sample_confirm_env sample_upload = Inr ((), s')" using sample_confirmed by blast
  show ?thesis
    using s' confirm_queues_exactly_once [OF sample_upload_inv _ s', of "[]" sample_object sample_confirm_env "[]"]
    by auto
qed

text \<open>C5: publishing is a compare-and-swap. A successful activation makes a READY corpus of the
  course its active one and raises the version by one, keeps the invariant, and every other
  activation that still expects the old version fails without a change, whoever asks.\<close>

theorem activate_corpus_cas:
  assumes inv: "service_inv mx s"
    and ex: "activate_corpus_tx ident cid corp ver now s = Inr (a, s')"
  shows "service_inv mx s' \<and>
     (\<exists>c \<in> set (t_courses s'). co_id c = cid \<and> co_active_corpus_version_id c = Some corp \<and> co_version c = ver + 1) \<and>
     (\<exists>v \<in> set (t_corpora s'). cv_id v = corp \<and> cv_course_id v = cid \<and> cv_state v = CV_READY) \<and>
     (\<exists>e. session (activate_corpus_tx ident' cid corp' ver now') s' = (Inl e, s') \<and>
        e \<in> {DocumentResourceNotFound, CorpusNotReady, PublicationConflict})"
  using ex
proof (cases rule: activate_corpus_Inr)
  case (1 v c)
  let ?p = "\<lambda>c. co_id c = cid \<and> co_version c = ver"
  let ?g = "\<lambda>c. c\<lparr>co_active_corpus_version_id := Some corp, co_version := co_version c + 1, co_updated_at := now\<rparr>"
  have c': "?g c \<in> set (t_courses s')"
    unfolding 1(9) using update_where_hit [of c "t_courses s" ?p ?g] 1(5-7) by simp
  have "find ?p (t_courses s') = None"
    unfolding find_None_iff
  proof
    assume "\<exists>x. x \<in> set (t_courses s') \<and> ?p x"
    then obtain x where x: "x \<in> set (t_courses s')" "?p x" by blast
    then have "x \<in> set (update_where ?p ?g (t_courses s))" by (simp add: 1(9))
    then show False using x(2) by (cases rule: in_update_whereE) auto
  qed
  then have "\<exists>e. session (activate_corpus_tx ident' cid corp' ver now') s' = (Inl e, s') \<and>
        e \<in> {DocumentResourceNotFound, CorpusNotReady, PublicationConflict}"
    by (auto simp: session_def activate_corpus_tx_def authorized_teacher_user_id_def Let_def split: option.splits)
  then show ?thesis
    using activate_corpus_inv [OF inv ex] c' 1 by (intro conjI bexI [of _ "?g c"] bexI [of _ v]) simp_all
qed


definition sample_published :: db where
  "sample_published = sample_courses\<lparr>t_corpora := [\<lparr>cv_id = 7, cv_course_id = 2, cv_state = CV_READY,
     cv_pipeline_version = py ''v1'', cv_page_count = 1, cv_chunk_count = 1, cv_created_at = 0,
     cv_ready_at = Some 0\<rparr>]\<rparr>"

theorem activate_corpus_cas_witness:
  "\<exists>a s' e. activate_corpus_tx sample_ident 2 7 0 5 sample_published = Inr (a, s') \<and>
     session (activate_corpus_tx sample_ident2 2 7 0 6) s' = (Inl e, s')"
proof -
  have "service_inv 3 sample_published"
    by (simp add: service_inv_def ingest_inv_def outbox_wf_def links_ok_def active_ok_def job_versions_def
        sample_published_def sample_courses_def empty_db_def)
  moreover have "\<exists>a s'. activate_corpus_tx sample_ident 2 7 0 5 sample_published = Inr (a, s')"
    by (simp add: activate_corpus_tx_def authorized_teacher_user_id_def sample_published_def Let_def
        sample_courses_def empty_db_def has_identity_def sample_ident_def exists_where_def)
  ultimately show ?thesis using activate_corpus_cas by blast
qed

end
