(* ===== verification/System.thy ===== *)
theory System
  imports Worker_Pool Documents
begin

text \<open>
  The ingestion pipeline as a whole: the transactions of the course and document services run
  on the same database as those of the workers, relays and reconcilers, in any order. Every
  state reached from the empty database satisfies the invariants of all of them, so that the
  theorems of the components apply to it without further hypotheses.
\<close>

section \<open>What the pool keeps of the service's invariant\<close>

definition version_key :: "document_version \<Rightarrow> uuid \<times> pystr option" where
  "version_key v = (dv_id v, dv_confirmation_idempotency_key v)"

definition job_key :: "ingestion_job \<Rightarrow> uuid \<times> uuid" where
  "job_key j = (ij_id j, ij_document_version_id j)"

definition service_frame :: "db \<Rightarrow> db \<Rightarrow> bool" where
  "service_frame s s' \<longleftrightarrow>
     t_courses s' = t_courses s \<and> set (t_corpora s) \<subseteq> set (t_corpora s') \<and>
     map version_key (t_versions s') = map version_key (t_versions s) \<and>
     map job_key (t_jobs s') = map job_key (t_jobs s) \<and>
     event_key ` set (t_outbox s) \<subseteq> event_key ` set (t_outbox s') \<and>
     cd_document_version_id ` set (t_corpus_documents s')
       \<subseteq> cd_document_version_id ` set (t_corpus_documents s) \<union> job_versions s"

lemma job_versions_key: "job_versions s = snd ` set (map job_key (t_jobs s))"
  by (auto simp: job_versions_def job_key_def image_image)

lemma job_events_key:
  "(\<forall>j \<in> set (t_jobs s). (ij_id j, Ingestion_event) \<in> E) \<longleftrightarrow>
   (\<forall>k \<in> set (map job_key (t_jobs s)). (fst k, Ingestion_event) \<in> E)"
  by (auto simp: job_key_def)

lemma confirmed_key:
  "(\<forall>v \<in> set (t_versions s). (dv_confirmation_idempotency_key v \<noteq> None) = (dv_id v \<in> V)) \<longleftrightarrow>
   (\<forall>k \<in> set (map version_key (t_versions s)). (snd k \<noteq> None) = (fst k \<in> V))"
  by (auto simp: version_key_def)

lemma service_invD:
  assumes "service_inv mx s"
  shows "ingest_inv mx s" "active_ok s"
    "\<forall>v \<in> set (t_versions s). (dv_confirmation_idempotency_key v \<noteq> None) = (dv_id v \<in> job_versions s)"
    "\<forall>j \<in> set (t_jobs s). (ij_id j, Ingestion_event) \<in> event_key ` set (t_outbox s)"
    "cd_document_version_id ` set (t_corpus_documents s) \<subseteq> job_versions s"
  by (insert assms [unfolded service_inv_def]; elim conjE; assumption)+

lemma service_inv_frame:
  assumes inv: "service_inv mx s" and frame: "service_frame s s'" and ii: "ingest_inv mx s'"
  shows "service_inv mx s'"
proof -
  have jobs: "map job_key (t_jobs s') = map job_key (t_jobs s)"
    and vers: "map version_key (t_versions s') = map version_key (t_versions s)"
    using frame by (simp_all add: service_frame_def)
  have jv: "job_versions s' = job_versions s" unfolding job_versions_key jobs ..
  have "active_ok s'"
    unfolding active_ok_def
  proof (intro ballI allI impI)
    fix c k assume "c \<in> set (t_courses s')" "co_active_corpus_version_id c = Some k"
    then have "c \<in> set (t_courses s)" "co_active_corpus_version_id c = Some k"
      using frame by (simp_all add: service_frame_def)
    then obtain v where "v \<in> set (t_corpora s)" "cv_id v = k \<and> cv_course_id v = co_id c \<and> cv_state v = CV_READY"
      using inv unfolding service_inv_def active_ok_def by blast
    moreover have "set (t_corpora s) \<subseteq> set (t_corpora s')" using frame by (simp add: service_frame_def)
    ultimately show "\<exists>v \<in> set (t_corpora s'). cv_id v = k \<and> cv_course_id v = co_id c \<and> cv_state v = CV_READY"
      by blast
  qed
  moreover have "\<forall>v \<in> set (t_versions s'). (dv_confirmation_idempotency_key v \<noteq> None) = (dv_id v \<in> job_versions s')"
    using service_invD(3) [OF inv] unfolding jv confirmed_key vers .
  moreover have "\<forall>j \<in> set (t_jobs s'). (ij_id j, Ingestion_event) \<in> event_key ` set (t_outbox s')"
  proof -
    have "\<forall>k \<in> set (map job_key (t_jobs s)). (fst k, Ingestion_event) \<in> event_key ` set (t_outbox s)"
      using service_invD(4) [OF inv] unfolding job_events_key .
    then show ?thesis unfolding job_events_key jobs using frame by (auto simp: service_frame_def)
  qed
  moreover have "cd_document_version_id ` set (t_corpus_documents s') \<subseteq> job_versions s'"
  proof -
    have "cd_document_version_id ` set (t_corpus_documents s')
       \<subseteq> cd_document_version_id ` set (t_corpus_documents s) \<union> job_versions s"
      using frame by (simp only: service_frame_def)
    then show ?thesis unfolding jv using service_invD(5) [OF inv] by (rule order_trans [OF _ Un_least]) simp
  qed
  ultimately show ?thesis using ii by (simp only: service_inv_def)
qed

lemma service_frame_refl: "service_frame s s"
  by (simp add: service_frame_def)

lemma service_frame_update:
  assumes "t_courses s' = t_courses s" "set (t_corpora s) \<subseteq> set (t_corpora s')"
    and "t_versions s' = update_where p f (t_versions s)" "\<And>v. version_key (f v) = version_key v"
    and "t_jobs s' = update_where q g (t_jobs s)" "\<And>j. job_key (g j) = job_key j"
    and "event_key ` set (t_outbox s) \<subseteq> event_key ` set (t_outbox s')"
    and "cd_document_version_id ` set (t_corpus_documents s')
       \<subseteq> cd_document_version_id ` set (t_corpus_documents s) \<union> job_versions s"
  shows "service_frame s s'"
  using assms by (simp add: service_frame_def map_update_where)

lemma record_dead_letter_courses:
  "record_dead_letter eid now job s = Inr s' \<Longrightarrow> t_courses s' = t_courses s"
  by (auto simp: record_dead_letter_def elim: insert_event_Inr)

lemma claim_frame:
  assumes "claim fmt cfg envelope eid now start s = Inr (r, s')"
  shows "service_frame s s'"
  using assms
proof (cases rule: claim_cases)
  case ignored
  then show ?thesis by (simp add: service_frame_refl)
next
  case (exhausted job)
  let ?f = "\<lambda>j. j\<lparr>ij_state := JOB_FAILED,
                 ij_failure_code := Some ''INGESTION_ATTEMPTS_EXHAUSTED'',
                 ij_completed_at := Some now, ij_updated_at := now,
                 ij_lease_expires_at := None, ij_fencing_token := ij_fencing_token j + 1\<rparr>"
  let ?g = "\<lambda>v. v\<lparr>dv_state := DV_FAILED,
      dv_failure_code := Some ''INGESTION_ATTEMPTS_EXHAUSTED'', dv_updated_at := now\<rparr>"
  let ?p = "version_of (ij_document_version_id job) (ij_course_id job)"
  have rd: "record_dead_letter eid start (?f job)
      ((set_job (ij_id job) ?f s)\<lparr>t_versions := update_where ?p ?g (t_versions s)\<rparr>) = Inr s'"
    using exhausted(5) by (simp add: exhaust_job_def Let_def)
  note tabs = record_dead_letter_tables [OF rd] record_dead_letter_courses [OF rd]
  show ?thesis
    by (rule service_frame_update [of s' s ?p ?g "\<lambda>j. ij_id j = ij_id job" ?f])
      (use tabs(5) in \<open>auto simp: tabs version_key_def job_key_def set_job_def\<close>)
next
  case (started job)
  from started(7) show ?thesis
  proof (cases rule: start_job_Inr)
    case (1 version sv)
    show ?thesis
      by (rule service_frame_update [of s' s
          "\<lambda>v. version_of (ij_document_version_id job) (ij_course_id job) v \<and> dv_state v \<in> {DV_QUEUED, DV_PROCESSING}"
          "\<lambda>v. v\<lparr>dv_state := DV_PROCESSING, dv_updated_at := start\<rparr>" "\<lambda>j. ij_id j = ij_id job"
          "\<lambda>j. j\<lparr>ij_state := JOB_RUNNING, ij_attempt := ij_attempt j + 1,
             ij_fencing_token := ij_fencing_token j + 1,
             ij_lease_expires_at := Some (now + seconds (wk_lease_seconds cfg)), ij_updated_at := now\<rparr>"])
        (auto simp: 1(1) version_key_def job_key_def set_job_def)
  qed
qed

lemma persist_success_courses:
  assumes "persist_success c env r s = Inr (u, s')"
  shows "t_courses s' = t_courses s"
  using assms
  by (auto simp: persist_success_def finish_success_def bindE_eq_Inr Let_def set_job_def
      split: option.splits if_splits dest!: store_embeddings_tables)

lemma persist_success_frame:
  assumes inv: "ingest_inv mx s" and cm: "claim_matches c s"
    and ex: "persist_success c env r s = Inr (u, s')"
  shows "service_frame s s'"
  using ex
proof (cases rule: persist_success_Inr)
  case (1 job es)
  note J = active_job_Some [OF 1(1)]
  have "cl_document_version_id c \<in> job_versions s"
    using claim_matches_job(2) [OF inv cm J(1,2)] J(1) by (metis imageI job_versions_def)
  then show ?thesis
    by (intro service_frame_update [of s' s
          "\<lambda>v. version_of (cl_document_version_id c) (cl_course_id c) v \<and> dv_state v = DV_PROCESSING"
          "success_version c env r" "\<lambda>j. ij_id j = cl_id c" "success_job env"])
      (auto simp: 1 persist_success_courses [OF ex] version_key_def job_key_def success_version_def success_job_def)
qed

lemma persist_failure_courses:
  assumes "persist_failure cfg c code st tr env s = Inr (u, s')"
  shows "t_courses s' = t_courses s"
  using assms
  by (auto simp: persist_failure_def bindE_eq_Inr Let_def set_job_def schedule_retry_def
      split: option.splits if_splits dest!: record_dead_letter_courses)

lemma persist_failure_frame:
  assumes inv: "ingest_inv mx s" and cm: "claim_matches c s"
    and ex: "persist_failure cfg c code st tr env s = Inr (u, s')"
  shows "service_frame s s'"
  using ex inv cm
proof (cases rule: persist_failure_Inr)
  case stale
  then show ?thesis by (simp add: service_frame_refl)
next
  case (active job retry)
  show ?thesis
    by (rule service_frame_update [OF persist_failure_courses [OF ex] _ active(4) _ active(3) _ active(7)])
      (simp_all add: active version_key_def job_key_def failure_job_def)
qed

lemma delivery_frame:
  assumes "s' = s\<lparr>t_outbox := es\<rparr>" "map event_key es = map event_key (t_outbox s)"
  shows "service_frame s s'"
proof -
  have "event_key ` set es = event_key ` set (t_outbox s)" using assms(2) by (metis list.set_map)
  then show ?thesis by (simp add: service_frame_def assms(1))
qed

lemma relay_lease_frame:
  assumes "relay_lease fmt tok now s = Inr (r, s')"
  shows "service_frame s s'"
proof (cases r)
  case None
  with assms show ?thesis
    by (auto simp: relay_lease_def Let_def service_frame_refl split: list.splits prod.splits)
next
  case (Some x)
  obtain k env fs where x: "x = (k, env, fs)" by (cases x)
  obtain e :: outbox_event where "s' = s\<lparr>t_outbox := update_where (\<lambda>x. oe_id x = oe_id e)
        (\<lambda>x. x\<lparr>oe_publish_token := Some tok,
               oe_publish_lease_until := Some (now + seconds 30)\<rparr>) (t_outbox s)\<rparr>"
    using assms unfolding Some x by (rule relay_lease_Some) (rule that)
  then show ?thesis by (rule delivery_frame) (simp add: map_update_where event_key_def)
qed


section \<open>The system\<close>

text \<open>One event of the system is one transaction: of a worker, relay or reconciler, or of one of
  the two services. \<open>dispatch\<close> is the outbox.\<close>

datatype system_event =
    Pool pool_event
  | Create_course authenticated_identity pystr "pystr option" uuid uuid time
  | Create_upload service_config authenticated_identity uuid pystr int pystr pystr pystr pystr uuid uuid time
  | Confirm_upload authenticated_identity uuid uuid uuid pystr pystr pystr stored_object_metadata confirm_env
  | Activate_corpus authenticated_identity uuid uuid int time

fun service_tx :: "system_event \<Rightarrow> db \<Rightarrow> db" where
  "service_tx (Pool e) s = s"
| "service_tx (Create_course ident title key nu nc now) s =
     snd (session (create_course ident title key nu nc now) s)"
| "service_tx (Create_upload cfg ident cid f n sha mt key h did vid now) s =
     snd (session (upload_tx cfg ident cid f n sha mt key h did vid now) s)"
| "service_tx (Confirm_upload ident cid did vid key h corr m env) s =
     snd (session (confirm_tx outbox_dispatch ident cid did vid key h corr m env) s)"
| "service_tx (Activate_corpus ident cid corp ver now) s =
     snd (session (activate_corpus_tx ident cid corp ver now) s)"

definition system_step :: "(time \<Rightarrow> pystr) \<Rightarrow> worker_config \<Rightarrow> system_event \<Rightarrow> pool \<Rightarrow> pool" where
  "system_step fmt cfg e p =
     (case e of Pool pe \<Rightarrow> pool_step fmt cfg pe p | _ \<Rightarrow> p\<lparr>pl_db := service_tx e (pl_db p)\<rparr>)"

definition system_inv :: "int \<Rightarrow> pool \<Rightarrow> bool" where
  "system_inv mx p \<longleftrightarrow> pool_inv mx p \<and> service_inv mx (pl_db p)"

definition empty_pool :: pool where
  "empty_pool = \<lparr>pl_db = empty_db, pl_claims = []\<rparr>"

lemma empty_pool_inv: "system_inv mx empty_pool"
  by (simp add: system_inv_def pool_inv_def service_inv_def ingest_inv_def outbox_wf_def links_ok_def
      active_ok_def job_versions_def empty_pool_def empty_db_def)

lemma create_course_frame:
  assumes "create_course ident title key nu nc now s = Inr (v, s')"
  shows "\<exists>us cs ms ks. s' = s\<lparr>t_users := us, t_courses := t_courses s @ cs, t_memberships := ms,
     t_course_creations := ks\<rparr> \<and> (\<forall>c \<in> set cs. co_active_corpus_version_id c = None)"
proof -
  obtain uid s1 where s1: "ensure_user ident nu now s = Inr (uid, s1)"
    using assms by (auto simp: create_course_def bindE_eq_Inr split: if_splits)
  have f1: "s1 = s\<lparr>t_users := t_users s1\<rparr>"
    using s1 by (auto simp: ensure_user_def split: option.splits if_splits)
  have "s' = s1 \<or> (\<exists>k. insert_course uid k title nc now s1 = Inr (v, s'))"
    using assms s1
    by (auto simp: create_course_def replay_creation_def split: if_splits option.splits)
  then show ?thesis
  proof
    assume "s' = s1"
    moreover obtain us where "s1 = s\<lparr>t_users := us\<rparr>" using f1 by blast
    ultimately have "s' = s\<lparr>t_users := us, t_courses := t_courses s @ [], t_memberships := t_memberships s,
      t_course_creations := t_course_creations s\<rparr>" by simp
    then show ?thesis by (metis empty_iff empty_set)
  next
    assume "\<exists>k. insert_course uid k title nc now s1 = Inr (v, s')"
    then obtain k where k: "insert_course uid k title nc now s1 = Inr (v, s')" by blast
    let ?c = "\<lparr>co_id = nc, co_title = title, co_version = 0, co_active_corpus_version_id = None,
              co_created_at = now, co_updated_at = now\<rparr>"
    have "s' = s1\<lparr>t_courses := t_courses s1 @ [?c], t_memberships := t_memberships s',
        t_course_creations := t_course_creations s'\<rparr>"
      using k by (auto simp: insert_course_def Let_def split: if_splits)
    also have "\<dots> = s\<lparr>t_users := t_users s1, t_courses := t_courses s @ [?c], t_memberships := t_memberships s',
        t_course_creations := t_course_creations s'\<rparr>"
      by (subst f1, subst (2) f1) simp
    finally show ?thesis by (intro exI conjI) (assumption, simp)
  qed
qed

lemma create_course_service_inv:
  assumes inv: "service_inv mx s" and cr: "create_course ident title key nu nc now s = Inr (v, s')"
  shows "service_inv mx s'" "db_grows s s'"
proof -
  obtain us cs ms ks where s': "s' = s\<lparr>t_users := us, t_courses := t_courses s @ cs, t_memberships := ms,
     t_course_creations := ks\<rparr>" and new: "\<forall>c \<in> set cs. co_active_corpus_version_id c = None"
    using create_course_frame [OF cr] by blast
  have "job_ok mx s' j = job_ok mx s j" for j by (simp add: job_ok_def s' corpora_of_def)
  then show "service_inv mx s'"
    using inv new by (auto simp: service_inv_def ingest_inv_def outbox_wf_def links_ok_def active_ok_def
        job_versions_def s')
  show "db_grows s s'" by (rule db_grows_jobs_same) (simp_all add: s')
qed

lemma service_tx_inv:
  assumes inv: "service_inv mx s" and mx: "0 \<le> mx"
  shows "service_inv mx (service_tx e s) \<and> db_grows s (service_tx e s)"
proof -
  let ?Q = "\<lambda>s'. service_inv mx s' \<and> db_grows s s'"
  have refl: "?Q s" using inv by (simp add: db_grows_refl)
  show ?thesis
  proof (cases e)
    case (Pool pe)
    then show ?thesis using refl by simp
  next
    case (Create_course ident title key nu nc now)
    have "?Q (snd (session (create_course ident title key nu nc now) s))"
      by (rule session_state [where Q = ?Q, OF _ refl]) (use create_course_service_inv [OF inv] in blast)
    then show ?thesis using Create_course by simp
  next
    case (Create_upload cfg ident cid f n sha mt key h did vid now)
    have "?Q s'" if u: "upload_tx cfg ident cid f n sha mt key h did vid now s = Inr (r, s')" for r s'
      using u
    proof (cases rule: upload_tx_Inr)
      case replayed
      then show ?thesis using refl by simp
    next
      case (created d v)
      have "db_grows s s'" by (rule db_grows_jobs_same) (simp_all add: created(6))
      then show ?thesis using upload_tx_inv [OF inv u] by simp
    qed
    then have "?Q (snd (session (upload_tx cfg ident cid f n sha mt key h did vid now) s))"
      by (rule session_state [where Q = ?Q, OF _ refl])
    then show ?thesis using Create_upload by simp
  next
    case (Confirm_upload ident cid did vid key h corr m env)
    have "?Q s'" if c: "confirm_tx outbox_dispatch ident cid did vid key h corr m env s = Inr (r, s')" for r s'
      using c
    proof (cases rule: confirm_tx_Inr)
      case (replayed v)
      then show ?thesis using refl by simp
    next
      case (queued v job)
      have frame: "s' = s\<lparr>t_versions := update_where (the_version cid did vid) (confirmed key h m (cf_wall env)) (t_versions s),
            t_jobs := t_jobs s @ [job], t_outbox := t_outbox s'\<rparr>"
        using outbox.dispatch_frame [OF queued(7)] by simp
      have "t_jobs s' = t_jobs s @ [job]" "t_corpora s' = t_corpora s" "t_chunks s' = t_chunks s"
        "t_corpus_documents s' = t_corpus_documents s" by (subst frame, simp)+
      then have "db_grows s s'" by (auto simp: db_grows_def intro: job_grows_refl)
      then show ?thesis using outbox.confirm_tx_inv [OF inv mx c] by simp
    qed
    then have "?Q (snd (session (confirm_tx outbox_dispatch ident cid did vid key h corr m env) s))"
      by (rule session_state [where Q = ?Q, OF _ refl])
    then show ?thesis using Confirm_upload by simp
  next
    case (Activate_corpus ident cid corp ver now)
    have "?Q s'" if a: "activate_corpus_tx ident cid corp ver now s = Inr (r, s')" for r s'
      using a
    proof (cases rule: activate_corpus_Inr)
      case (1 v c)
      have "db_grows s s'" by (rule db_grows_jobs_same) (simp_all add: 1)
      then show ?thesis using activate_corpus_inv [OF inv a] by simp
    qed
    then have "?Q (snd (session (activate_corpus_tx ident cid corp ver now) s))"
      by (rule session_state [where Q = ?Q, OF _ refl])
    then show ?thesis using Activate_corpus by simp
  qed
qed

lemma pool_step_frame:
  assumes inv: "pool_inv (wk_max_attempts cfg) p"
  shows "service_frame (pl_db p) (pl_db (pool_step fmt cfg e p))"
proof -
  let ?s = "pl_db p"
  let ?Q = "service_frame ?s"
  have ii: "ingest_inv (wk_max_attempts cfg) ?s" using inv by (simp add: pool_inv_def)
  have cm: "claim_matches (pl_claims p ! i) ?s" if "i < length (pl_claims p)" for i
    using inv that by (simp add: pool_inv_def)
  show ?thesis
  proof (cases e)
    case (Take envelope eid now start)
    then show ?thesis
      by (cases rule: session_cases [of "claim fmt cfg envelope eid now start" ?s])
        (auto simp: service_frame_refl split: option.splits intro: claim_frame)
  next
    case (Publish i env r)
    have "?Q (snd (session (persist_success (pl_claims p ! i) env r) ?s))" if "i < length (pl_claims p)"
      by (rule session_state [where Q = ?Q])
        (use persist_success_frame [OF ii cm [OF that]] service_frame_refl in blast)+
    then show ?thesis using Publish by (simp add: service_frame_refl)
  next
    case (Give_up i x env)
    have "?Q (snd (session (persist_failure cfg (pl_claims p ! i) code st tr env) ?s))"
      if "i < length (pl_claims p)" for code st tr
      by (rule session_state [where Q = ?Q])
        (use persist_failure_frame [OF ii cm [OF that]] service_frame_refl in blast)+
    then show ?thesis using Give_up by (auto simp: service_frame_refl split: option.splits)
  next
    case (Relay_lease tok now)
    have "?Q (snd (session (relay_lease fmt tok now) ?s))"
      by (rule session_state [where Q = ?Q]) (use relay_lease_frame service_frame_refl in blast)+
    then show ?thesis using Relay_lease by simp
  next
    case (Relay_confirm tok eid now)
    have "?Q (relay_confirm tok eid now ?s)"
      unfolding relay_confirm_def by (rule delivery_frame [OF refl]) (simp add: map_update_where event_key_def)
    then show ?thesis using Relay_confirm by simp
  next
    case (Reconcile n now)
    have "?Q (snd (reconcile n now ?s))"
      unfolding reconcile_def snd_conv by (rule delivery_frame [OF refl]) (simp add: map_update_where event_key_def)
    then show ?thesis using Reconcile by simp
  qed
qed

lemma system_step_inv:
  assumes inv: "system_inv (wk_max_attempts cfg) p" and mx: "0 \<le> wk_max_attempts cfg"
  shows "system_inv (wk_max_attempts cfg) (system_step fmt cfg e p)"
    and "db_grows (pl_db p) (pl_db (system_step fmt cfg e p))"
proof -
  let ?mx = "wk_max_attempts cfg"
  have pi: "pool_inv ?mx p" and si: "service_inv ?mx (pl_db p)" using inv by (simp_all add: system_inv_def)
  have "system_inv ?mx (system_step fmt cfg e p) \<and> db_grows (pl_db p) (pl_db (system_step fmt cfg e p))"
  proof (cases "\<exists>pe. e = Pool pe")
    case True
    then obtain pe where e: "e = Pool pe" by blast
    note step = pool_step_inv [OF pi, of fmt pe]
    have "ingest_inv ?mx (pl_db (pool_step fmt cfg pe p))" using step by (simp add: pool_inv_def)
    then have "service_inv ?mx (pl_db (pool_step fmt cfg pe p))"
      by (rule service_inv_frame [OF si pool_step_frame [OF pi]])
    then show ?thesis using step e by (simp add: system_step_def system_inv_def)
  next
    case False
    then have eq: "system_step fmt cfg e p = p\<lparr>pl_db := service_tx e (pl_db p)\<rparr>"
      by (cases e) (simp_all add: system_step_def)
    note tx = service_tx_inv [OF si mx, of e]
    have "pool_inv ?mx (p\<lparr>pl_db := service_tx e (pl_db p)\<rparr>)"
      using pool_claims_kept [OF pi] tx by (simp add: service_inv_def)
    then show ?thesis using tx eq by (simp add: system_inv_def)
  qed
  then show "system_inv ?mx (system_step fmt cfg e p)"
    "db_grows (pl_db p) (pl_db (system_step fmt cfg e p))" by simp_all
qed

interpretation sys: stable_steps "system_step fmt cfg"
  "\<lambda>p. 0 \<le> wk_max_attempts cfg \<and> system_inv (wk_max_attempts cfg) p" "\<lambda>p q. db_grows (pl_db p) (pl_db q)"
  for fmt :: "time \<Rightarrow> pystr" and cfg :: worker_config
  by unfold_locales (auto simp: system_step_inv db_grows_refl intro: db_grows_trans)


section \<open>Correctness from the empty database\<close>

text \<open>C1: the pipeline is safe in every reachable state. Whatever sequence of transactions of the
  services, workers, relays and reconcilers runs from the empty database, every document is
  in exactly one published corpus if its job succeeded and in none otherwise, a version has a
  job exactly when it was confirmed, an active corpus is a READY corpus of its course, and
  every failed job has exactly one dead letter.\<close>

theorem system_safety:
  assumes mx: "0 \<le> wk_max_attempts cfg"
    and s: "s = pl_db (fold (system_step fmt cfg) es empty_pool)"
  shows "(\<forall>u. corpora_of u s =
        (if \<exists>j \<in> set (t_jobs s). ij_document_version_id j = u \<and> ij_state j = JOB_SUCCEEDED then 1 else 0)) \<and>
     (\<forall>v \<in> set (t_versions s). dv_confirmation_idempotency_key v \<noteq> None \<longleftrightarrow>
        (\<exists>!j. j \<in> set (t_jobs s) \<and> ij_document_version_id j = dv_id v)) \<and>
     (\<forall>c \<in> set (t_courses s). \<forall>k. co_active_corpus_version_id c = Some k \<longrightarrow>
        (\<exists>v \<in> set (t_corpora s). cv_id v = k \<and> cv_course_id v = co_id c \<and> cv_state v = CV_READY)) \<and>
     (\<forall>j \<in> set (t_jobs s). ij_state j = JOB_FAILED \<longrightarrow>
        (\<exists>!e. e \<in> set (t_outbox s) \<and> event_key e = (ij_id j, Dead_event)))"
proof -
  have "0 \<le> wk_max_attempts cfg \<and> system_inv (wk_max_attempts cfg) (fold (system_step fmt cfg) es empty_pool)"
    by (rule sys.inv_run) (simp add: mx empty_pool_inv)
  then have si: "service_inv (wk_max_attempts cfg) s" by (simp add: system_inv_def s)
  note D = service_invD [OF si]
  have keys: "distinct (map ij_document_version_id (t_jobs s))" "distinct (map event_key (t_outbox s))"
    using D(1) by (simp_all add: ingest_inv_def outbox_wf_def)
  have published: "corpora_of u s = (if \<exists>j \<in> set (t_jobs s). ij_document_version_id j = u \<and> ij_state j = JOB_SUCCEEDED then 1 else 0)" for u
  proof (cases "u \<in> job_versions s")
    case True
    then obtain j where j: "j \<in> set (t_jobs s)" "ij_document_version_id j = u" by (auto simp: job_versions_def)
    have "corpora_of u s = (if ij_state j = JOB_SUCCEEDED then 1 else 0)"
      using ingest_inv_job [OF D(1) j(1)] j(2) by (simp add: job_ok_def)
    moreover have "(\<exists>i \<in> set (t_jobs s). ij_document_version_id i = u \<and> ij_state i = JOB_SUCCEEDED)
        \<longleftrightarrow> ij_state j = JOB_SUCCEEDED"
    proof
      assume "\<exists>i \<in> set (t_jobs s). ij_document_version_id i = u \<and> ij_state i = JOB_SUCCEEDED"
      then obtain i where i: "i \<in> set (t_jobs s)" "ij_document_version_id i = u" "ij_state i = JOB_SUCCEEDED"
        by blast
      then have "i = j" using key_eqD [OF keys(1) i(1) j(1)] j(2) by simp
      with i(3) show "ij_state j = JOB_SUCCEEDED" by simp
    qed (use j in blast)
    ultimately show ?thesis by simp
  next
    case False
    then have "corpora_of u s = 0" using D(5) by (auto simp: corpora_of_def count_where_0)
    moreover have "\<not> (\<exists>i \<in> set (t_jobs s). ij_document_version_id i = u \<and> ij_state i = JOB_SUCCEEDED)"
      using False by (auto simp: job_versions_def)
    ultimately show ?thesis by simp
  qed
  have confirmation: "dv_confirmation_idempotency_key v \<noteq> None \<longleftrightarrow>
      (\<exists>!j. j \<in> set (t_jobs s) \<and> ij_document_version_id j = dv_id v)" if v: "v \<in> set (t_versions s)" for v
  proof -
    have "dv_confirmation_idempotency_key v \<noteq> None \<longleftrightarrow> dv_id v \<in> job_versions s" using D(3) v by blast
    also have "\<dots> \<longleftrightarrow> (\<exists>!j. j \<in> set (t_jobs s) \<and> ij_document_version_id j = dv_id v)"
    proof
      assume "dv_id v \<in> job_versions s"
      then obtain j where "j \<in> set (t_jobs s)" "ij_document_version_id j = dv_id v" by (auto simp: job_versions_def)
      then show "\<exists>!j. j \<in> set (t_jobs s) \<and> ij_document_version_id j = dv_id v"
        by (rule ex1_key [of ij_document_version_id "t_jobs s" j, OF keys(1)])
    qed (metis imageI job_versions_def)
    finally show ?thesis .
  qed
  have dead: "\<exists>!e. e \<in> set (t_outbox s) \<and> event_key e = (ij_id j, Dead_event)"
    if j: "j \<in> set (t_jobs s)" "ij_state j = JOB_FAILED" for j
  proof -
    obtain e where "e \<in> set (t_outbox s)" "event_key e = (ij_id j, Dead_event)"
      using ingest_inv_job [OF D(1) j(1)] j(2) by (auto simp: job_ok_def)
    then show ?thesis by (rule ex1_key [of event_key "t_outbox s" e, OF keys(2)])
  qed
  show ?thesis
  proof (intro conjI allI ballI)
    fix u
    show "corpora_of u s = (if \<exists>j \<in> set (t_jobs s). ij_document_version_id j = u \<and> ij_state j = JOB_SUCCEEDED then 1 else 0)"
      by (rule published)
  next
    fix v assume "v \<in> set (t_versions s)"
    then show "dv_confirmation_idempotency_key v \<noteq> None \<longleftrightarrow>
      (\<exists>!j. j \<in> set (t_jobs s) \<and> ij_document_version_id j = dv_id v)" by (rule confirmation)
  next
    fix c k assume "c \<in> set (t_courses s)"
    then show "co_active_corpus_version_id c = Some k \<longrightarrow>
        (\<exists>v \<in> set (t_corpora s). cv_id v = k \<and> cv_course_id v = co_id c \<and> cv_state v = CV_READY)"
      using D(2) by (simp add: active_ok_def)
  next
    fix j assume "j \<in> set (t_jobs s)"
    then show "ij_state j = JOB_FAILED \<longrightarrow>
        (\<exists>!e. e \<in> set (t_outbox s) \<and> event_key e = (ij_id j, Dead_event))" using dead by blast
  qed
qed

definition sample_history :: "system_event list" where
  "sample_history =
     [Create_course sample_ident (py ''T'') None 1 2 0,
      Create_upload sample_service sample_ident 2 (py ''a.pdf'') 3 (replicate 64 48) (py ''application/pdf'')
        (py ''k'') (py ''h'') 11 12 1,
      Confirm_upload sample_ident 2 11 12 (py ''q'') (py ''r'') (py ''c'') sample_object
        \<lparr>cf_job = 13, cf_event = 14, cf_start = 2, cf_wall = 2\<rparr>,
      Pool (Take \<lparr>je_event_id = 14, je_job_id = 13, je_course_id = 2, je_document_version_id = 12,
        je_pipeline_version = py ''v1'', je_correlation_id = py ''c'', je_created_at = sample_fmt 2\<rparr> 50 10 10),
      Pool (Publish 0 sample_commit sample_build),
      Activate_corpus sample_ident 2 20 0 30]"

text \<open>The states of that run.\<close>

definition run_version :: document_version where
  "run_version = new_version sample_service 2 11 12 (py ''a.pdf'') 3 (replicate 64 48)
     (py ''application/pdf'') (py ''k'') (py ''h'') 1"

definition run_confirmed :: document_version where
  "run_confirmed = confirmed (py ''q'') (py ''r'') sample_object 2 run_version"

definition run_job :: ingestion_job where
  "run_job = new_job 13 run_version (py ''c'') 2"

definition run_uploaded :: db where
  "run_uploaded = sample_courses\<lparr>t_documents := [\<lparr>do_id = 11, do_course_id = 2,
     do_title = document_title (py ''a.pdf''), do_created_by_user_id = 1, do_created_at = 1\<rparr>],
     t_versions := [run_version]\<rparr>"

definition run_queued :: db where
  "run_queued = run_uploaded\<lparr>t_versions := [run_confirmed], t_jobs := [run_job],
     t_outbox := [new_event 14 2 Ingestion_event run_job]\<rparr>"

definition run_claim :: claimed_job where
  "run_claim = \<lparr>cl_id = 13, cl_course_id = 2, cl_document_version_id = 12,
     cl_storage_key = dv_storage_key run_version, cl_storage_version_id = py ''sv'',
     cl_expected_size_bytes = 3, cl_expected_sha256 = replicate 64 48,
     cl_pipeline_version = py ''v1'', cl_fencing_token = 1\<rparr>"

definition run_running :: db where
  "run_running = run_queued
     \<lparr>t_jobs := [run_job\<lparr>ij_state := JOB_RUNNING, ij_attempt := 1, ij_fencing_token := 1,
         ij_lease_expires_at := Some (10 + seconds 300), ij_updated_at := 10\<rparr>],
      t_versions := [run_confirmed\<lparr>dv_state := DV_PROCESSING, dv_updated_at := 10\<rparr>]\<rparr>"

lemma run_version_fields [simp]:
  "dv_id run_version = 12" "dv_course_id run_version = 2" "dv_document_id run_version = 11"
  "dv_state run_version = DV_AWAITING_UPLOAD" "dv_confirmation_idempotency_key run_version = None"
  "dv_expected_size_bytes run_version = 3" "dv_expected_sha256 run_version = replicate 64 48"
  "dv_pipeline_version run_version = py ''v1''"
  by (simp_all add: run_version_def new_version_def sample_service_def)

lemma run_confirmed_fields [simp]:
  "dv_id run_confirmed = 12" "dv_course_id run_confirmed = 2" "dv_document_id run_confirmed = 11"
  "dv_state run_confirmed = DV_QUEUED" "dv_storage_version_id run_confirmed = Some (py ''sv'')"
  "dv_expected_size_bytes run_confirmed = 3" "dv_expected_sha256 run_confirmed = replicate 64 48"
  "dv_storage_key run_confirmed = dv_storage_key run_version"
  by (simp_all add: run_confirmed_def confirmed_def sample_object_def)

lemma run_job_fields [simp]:
  "ij_id run_job = 13" "ij_course_id run_job = 2" "ij_document_version_id run_job = 12"
  "ij_state run_job = JOB_PENDING" "ij_attempt run_job = 0" "ij_fencing_token run_job = 0"
  "ij_next_attempt_at run_job = 2" "ij_pipeline_version run_job = py ''v1''"
  "ij_correlation_id run_job = py ''c''" "ij_job_type run_job = py ''ingestion''"
  by (simp_all add: run_job_def new_job_def)

lemma run_course:
  "create_course sample_ident (py ''T'') None 1 2 0 empty_db = Inr (view_of (hd (t_courses sample_courses)) TEACHER, sample_courses)"
  by (simp add: create_course_def ensure_user_def insert_course_def empty_db_def exists_where_def Let_def
      sample_ident_def sample_courses_def py_def)

lemma run_teacher:
  assumes "t_users s = t_users sample_courses" "t_memberships s = t_memberships sample_courses"
  shows "authorized_teacher_user_id sample_ident 2 s = Inr 1"
  using assms by (simp add: authorized_teacher_user_id_def sample_courses_def has_identity_def
      sample_ident_def exists_where_def)

lemma run_upload:
  "\<exists>r. upload_tx sample_service sample_ident 2 (py ''a.pdf'') 3 (replicate 64 48) (py ''application/pdf'')
        (py ''k'') (py ''h'') 11 12 1 sample_courses = Inr (r, run_uploaded)"
proof -
  have t: "t_versions sample_courses = []" "t_documents sample_courses = []"
    "\<exists>c \<in> set (t_courses sample_courses). co_id c = 2"
    by (simp_all add: sample_courses_def empty_db_def)
  then have "upload_insertable run_version sample_courses"
    by (simp add: upload_insertable_def exists_where_iff hex_lower_def list_all_iff)
  then show ?thesis
    by (simp add: upload_tx_def run_version_def [symmetric] run_teacher Let_def t run_uploaded_def)
qed

lemma run_confirm:
  "confirm_tx outbox_dispatch sample_ident 2 11 12 (py ''q'') (py ''r'') (py ''c'') sample_object
     \<lparr>cf_job = 13, cf_event = 14, cf_start = 2, cf_wall = 2\<rparr> run_uploaded = Inr ((), run_queued)"
proof -
  have t: "authorized_teacher_user_id sample_ident 2 run_uploaded = Inr 1"
    by (rule run_teacher) (simp_all add: run_uploaded_def)
  have v: "t_versions run_uploaded = [run_version]" "t_jobs run_uploaded = []" "t_outbox run_uploaded = []"
    by (simp_all add: run_uploaded_def sample_courses_def empty_db_def)
  show ?thesis
    by (simp add: confirm_tx_def t v Let_def the_version_def job_insertable_def exists_where_def update_where_def
        run_job_def [symmetric] run_confirmed_def [symmetric] version_of_def outbox_dispatch_def insert_event_def)
      (simp add: run_queued_def v)
qed

definition run_envelope :: job_envelope where
  "run_envelope = \<lparr>je_event_id = 14, je_job_id = 13, je_course_id = 2, je_document_version_id = 12,
        je_pipeline_version = py ''v1'', je_correlation_id = py ''c'', je_created_at = sample_fmt 2\<rparr>"

lemma run_take: "claim sample_fmt sample_cfg run_envelope 50 10 10 run_queued = Inr (Some run_claim, run_running)"
proof -
  have t: "t_jobs run_queued = [run_job]" "t_versions run_queued = [run_confirmed]"
    "t_outbox run_queued = [new_event 14 2 Ingestion_event run_job]"
    by (simp_all add: run_queued_def)
  show ?thesis
    by (simp add: claim_def t run_envelope_def envelope_for_def new_event_def start_job_def Let_def set_job_def
        update_where_def version_of_def one_def sample_cfg_def)
      (simp add: run_claim_def run_running_def)
qed

lemma run_publish:
  "\<exists>s. persist_success run_claim sample_commit sample_build run_running = Inr ((), s) \<and>
     map (\<lambda>j. (ij_document_version_id j, ij_state j)) (t_jobs s) = [(12, JOB_SUCCEEDED)]"
proof -
  have t: "t_jobs run_running = [run_job\<lparr>ij_state := JOB_RUNNING, ij_attempt := 1, ij_fencing_token := 1,
         ij_lease_expires_at := Some (10 + seconds 300), ij_updated_at := 10\<rparr>]"
    "t_versions run_running = [run_confirmed\<lparr>dv_state := DV_PROCESSING, dv_updated_at := 10\<rparr>]"
    "t_corpora run_running = []" "t_chunks run_running = []" "t_corpus_documents run_running = []"
    by (simp_all add: run_running_def run_queued_def run_uploaded_def sample_courses_def empty_db_def)
  show ?thesis
    by (simp add: persist_success_def active_job_def t corpus_insertable_def exists_where_def run_claim_def
        sample_commit_def sample_build_def chunk_rows_def store_embeddings_def finish_success_def Let_def
        version_of_def update_where_def set_job_def seconds_def)
qed

lemma activate_keeps_jobs: "t_jobs (snd (session (activate_corpus_tx ident cid corp ver now) s)) = t_jobs s"
  by (rule session_state [where Q = "\<lambda>x. t_jobs x = t_jobs s"]) (auto elim: activate_corpus_Inr)

lemma sample_history_jobs:
  "map (\<lambda>j. (ij_document_version_id j, ij_state j))
     (t_jobs (pl_db (fold (system_step sample_fmt sample_cfg) sample_history empty_pool))) = [(12, JOB_SUCCEEDED)]"
proof -
  obtain r where r: "upload_tx sample_service sample_ident 2 (py ''a.pdf'') 3 (replicate 64 48)
    (py ''application/pdf'') (py ''k'') (py ''h'') 11 12 1 sample_courses = Inr (r, run_uploaded)"
    using run_upload by blast
  obtain s where s: "persist_success run_claim sample_commit sample_build run_running = Inr ((), s)"
    "map (\<lambda>j. (ij_document_version_id j, ij_state j)) (t_jobs s) = [(12, JOB_SUCCEEDED)]"
    using run_publish by (elim exE conjE) (rule that)
  let ?step = "system_step sample_fmt sample_cfg"
  have tx2: "snd (session (upload_tx sample_service sample_ident 2 (py ''a.pdf'') 3 (replicate 64 48)
      (py ''application/pdf'') (py ''k'') (py ''h'') 11 12 1) sample_courses) = run_uploaded"
    by (simp only: session_def r sum.case prod.case snd_conv)
  have tx3: "snd (session (confirm_tx outbox_dispatch sample_ident 2 11 12 (py ''q'') (py ''r'') (py ''c'') sample_object
        \<lparr>cf_job = 13, cf_event = 14, cf_start = 2, cf_wall = 2\<rparr>) run_uploaded) = run_queued"
    by (simp only: session_def run_confirm sum.case prod.case snd_conv)
  have 1: "?step (Create_course sample_ident (py ''T'') None 1 2 0) empty_pool = \<lparr>pl_db = sample_courses, pl_claims = []\<rparr>"
    by (simp add: system_step_def empty_pool_def run_course)
  have 2: "?step (Create_upload sample_service sample_ident 2 (py ''a.pdf'') 3 (replicate 64 48) (py ''application/pdf'')
        (py ''k'') (py ''h'') 11 12 1) \<lparr>pl_db = sample_courses, pl_claims = []\<rparr> = \<lparr>pl_db = run_uploaded, pl_claims = []\<rparr>"
    unfolding system_step_def system_event.case service_tx.simps pool.select_convs pool.update_convs
      tx2 ..
  have 3: "?step (Confirm_upload sample_ident 2 11 12 (py ''q'') (py ''r'') (py ''c'') sample_object
        \<lparr>cf_job = 13, cf_event = 14, cf_start = 2, cf_wall = 2\<rparr>) \<lparr>pl_db = run_uploaded, pl_claims = []\<rparr>
      = \<lparr>pl_db = run_queued, pl_claims = []\<rparr>"
    unfolding system_step_def system_event.case service_tx.simps pool.select_convs pool.update_convs tx3 ..
  have 4: "?step (Pool (Take run_envelope 50 10 10)) \<lparr>pl_db = run_queued, pl_claims = []\<rparr>
      = \<lparr>pl_db = run_running, pl_claims = [run_claim]\<rparr>"
    by (simp add: system_step_def run_take)
  have 5: "?step (Pool (Publish 0 sample_commit sample_build)) \<lparr>pl_db = run_running, pl_claims = [run_claim]\<rparr>
      = \<lparr>pl_db = s, pl_claims = [run_claim]\<rparr>"
    by (simp add: system_step_def s)
  have 6: "t_jobs (pl_db (?step (Activate_corpus sample_ident 2 20 0 30) \<lparr>pl_db = s, pl_claims = [run_claim]\<rparr>)) = t_jobs s"
    by (simp add: system_step_def activate_keeps_jobs)
  show ?thesis
    unfolding sample_history_def run_envelope_def [symmetric] fold_simps 1 2 3 4 5 6 by (rule s(2))
qed

theorem system_safety_witness:
  "corpora_of 12 (pl_db (fold (system_step sample_fmt sample_cfg) sample_history empty_pool)) = 1"
proof -
  let ?s = "pl_db (fold (system_step sample_fmt sample_cfg) sample_history empty_pool)"
  have "corpora_of 12 ?s = (if \<exists>j \<in> set (t_jobs ?s). ij_document_version_id j = 12 \<and> ij_state j = JOB_SUCCEEDED then 1 else 0)"
    using system_safety [of sample_cfg ?s sample_fmt sample_history] by simp
  moreover have "(12, JOB_SUCCEEDED) \<in> set (map (\<lambda>j. (ij_document_version_id j, ij_state j)) (t_jobs ?s))"
    unfolding sample_history_jobs by simp
  ultimately show ?thesis by auto
qed

end
