(* ===== verification/Job_Queue.thy ===== *)
theory Job_Queue
  imports Processing
begin

text \<open>
  \<^verbatim>\<open>redis_jobs.py\<close> and the tick of \<^verbatim>\<open>worker.py\<close>: deliveries on a Redis stream, one consumer group,
  and the worker that reconciles, relays and consumes. Redis is a parameter; a delivery leaves
  the stream only when nothing is left to do for it.
\<close>

section \<open>The transport\<close>

type_synonym entry = "pystr \<times> fields"

text \<open>The commands the transport uses: XGROUP CREATE, XAUTOCLAIM, XREADGROUP, XADD on the stream or
  its dead-letter stream, and XACK with XDEL in one transaction.\<close>

record 'q redis =
  rd_group_create :: "'q \<Rightarrow> (exn, unit) result \<times> 'q"
  rd_autoclaim :: "pystr \<Rightarrow> int \<Rightarrow> 'q \<Rightarrow> (exn, pystr \<times> entry list) result \<times> 'q"
  rd_readgroup :: "'q \<Rightarrow> (exn, entry list list) result \<times> 'q"
  rd_add :: "bool \<Rightarrow> fields \<Rightarrow> 'q \<Rightarrow> (exn, 'q) result"
  rd_ack_delete :: "pystr \<Rightarrow> 'q \<Rightarrow> (exn, unit) result \<times> 'q"

definition ensure_group :: "'q redis \<Rightarrow> 'q \<Rightarrow> (exn, unit) result \<times> 'q" where
  "ensure_group rd q =
     (case rd_group_create rd q of
        (Inl (ResponseError m), q') \<Rightarrow>
          if take 9 m = ''BUSYGROUP'' then (Inr (), q') else (Inl (ResponseError m), q')
      | r \<Rightarrow> r)"

definition publish_to :: "'q redis \<Rightarrow> outbox_kind \<Rightarrow> fields \<Rightarrow> 'q \<Rightarrow> (exn, 'q) result" where
  "publish_to rd kind fs q = rd_add rd (kind = Dead_event) fs q"

section \<open>One delivery\<close>

text \<open>The first entry reclaimed from a consumer that went silent, else a new one.\<close>

definition next_entry ::
  "'q redis \<Rightarrow> int \<Rightarrow> pystr \<Rightarrow> 'q \<Rightarrow> (exn, entry option) result \<times> pystr \<times> 'q" where
  "next_entry rd idle cursor q =
     (case ensure_group rd q of
        (Inl e, q1) \<Rightarrow> (Inl e, cursor, q1)
      | (Inr _, q1) \<Rightarrow>
          (case rd_autoclaim rd cursor idle q1 of
             (Inl e, q2) \<Rightarrow> (Inl e, cursor, q2)
           | (Inr (cursor', m # _), q2) \<Rightarrow> (Inr (Some m), cursor', q2)
           | (Inr (cursor', []), q2) \<Rightarrow>
               (case rd_readgroup rd q2 of
                  (Inl e, q3) \<Rightarrow> (Inl e, cursor', q3)
                | (Inr ((m # _) # _), q3) \<Rightarrow> (Inr (Some m), cursor', q3)
                | (Inr _, q3) \<Rightarrow> (Inr None, cursor', q3))))"

definition acknowledge :: "'q redis \<Rightarrow> pystr \<Rightarrow> 'q \<Rightarrow> (exn, bool) result \<times> 'q" where
  "acknowledge rd mid q =
     (case rd_ack_delete rd mid q of (Inl e, q') \<Rightarrow> (Inl e, q') | (Inr _, q') \<Rightarrow> (Inr True, q'))"

text \<open>\<open>handle\<close> is the worker's \<open>process\<close>. The parser raises nothing but \<open>ValueError\<close>.\<close>

definition deliver ::
  "(nat \<Rightarrow> nat option) \<Rightarrow> 'q redis \<Rightarrow> (job_envelope \<Rightarrow> db \<Rightarrow> (exn, bool) result \<times> db) \<Rightarrow> entry \<Rightarrow> 'q \<Rightarrow> db \<Rightarrow>
   ((exn, bool) result \<times> 'q) \<times> db" where
  "deliver decimal rd handle m q s =
     (case envelope_parse decimal (snd m) of
        Inl _ \<Rightarrow> (acknowledge rd (fst m) q, s)
      | Inr envelope \<Rightarrow>
          (case handle envelope s of
             (Inl InvalidJobEnvelope, s') \<Rightarrow> (acknowledge rd (fst m) q, s')
           | (Inl e, s') \<Rightarrow> ((Inl e, q), s')
           | (Inr can_acknowledge, s') \<Rightarrow>
               ((if can_acknowledge then acknowledge rd (fst m) q else (Inr True, q)), s')))"

definition consume_one ::
  "(nat \<Rightarrow> nat option) \<Rightarrow> 'q redis \<Rightarrow> (job_envelope \<Rightarrow> db \<Rightarrow> (exn, bool) result \<times> db) \<Rightarrow> int \<Rightarrow> pystr \<Rightarrow> 'q \<Rightarrow> db \<Rightarrow>
   (exn, bool) result \<times> pystr \<times> 'q \<times> db" where
  "consume_one decimal rd handle idle cursor q s =
     (case next_entry rd idle cursor q of
        (Inl e, c, q') \<Rightarrow> (Inl e, c, q', s)
      | (Inr None, c, q') \<Rightarrow> (Inr False, c, q', s)
      | (Inr (Some m), c, q') \<Rightarrow>
          (case deliver decimal rd handle m q' s of ((r, q''), s') \<Rightarrow> (r, c, q'', s')))"

section \<open>The worker\<close>

record 'q worker_state =
  wr_db :: db
  wr_stream :: 'q
  wr_cursor :: pystr
  wr_last_reconcile :: "time option"

text \<open>What a tick draws: three readings of the monotonic clock and the clock, the relay's token and
  clocks.\<close>

record tick_env =
  tk_monotonic :: time
  tk_monotonic' :: time
  tk_now :: time
  tk_token :: uuid
  tk_lease_now :: time
  tk_confirm_now :: time

definition reconcile_due :: "int \<Rightarrow> tick_env \<Rightarrow> 'q worker_state \<Rightarrow> bool" where
  "reconcile_due reconcile_seconds env w \<longleftrightarrow>
     (case wr_last_reconcile w of None \<Rightarrow> True
      | Some t \<Rightarrow> tk_monotonic env - t \<ge> seconds reconcile_seconds)"

definition tick ::
  "(time \<Rightarrow> pystr) \<Rightarrow> (nat \<Rightarrow> nat option) \<Rightarrow> 'q redis \<Rightarrow> (job_envelope \<Rightarrow> db \<Rightarrow> (exn, bool) result \<times> db) \<Rightarrow>
   int \<Rightarrow> int \<Rightarrow> tick_env \<Rightarrow> 'q worker_state \<Rightarrow> (exn, bool) result \<times> 'q worker_state" where
  "tick fmt decimal rd handle reconcile_seconds lease_seconds env w =
     (let w1 = (if reconcile_due reconcile_seconds env w
                then w\<lparr>wr_db := snd (reconcile reconcile_seconds (tk_now env) (wr_db w)),
                       wr_last_reconcile := Some (tk_monotonic' env)\<rparr>
                else w)
      in case publish_one fmt (publish_to rd) (tk_token env) (tk_lease_now env) (tk_confirm_now env)
               (wr_db w1, wr_stream w1) of
           (Inl e, s, q) \<Rightarrow> (Inl e, w1\<lparr>wr_db := s, wr_stream := q\<rparr>)
         | (Inr published, s, q) \<Rightarrow>
             (case consume_one decimal rd handle (lease_seconds * 1000) (wr_cursor w1) q s of
                (r, c, q', s') \<Rightarrow>
                  (case r of Inl e \<Rightarrow> Inl e | Inr consumed \<Rightarrow> Inr (published \<or> consumed),
                   w1\<lparr>wr_db := s', wr_stream := q', wr_cursor := c\<rparr>)))"

section \<open>Deliveries are not lost\<close>

text \<open>What the transport relies on: \<open>held\<close> are the entries of the stream. Claiming and reading
  deliver entries that are held and remove none; adding to the stream adds one entry; an
  acknowledgement removes at most its own entry.\<close>

definition keeps_entries :: "'q redis \<Rightarrow> ('q \<Rightarrow> entry set) \<Rightarrow> bool" where
  "keeps_entries rd held \<longleftrightarrow>
     (\<forall>q r q'. rd_group_create rd q = (r, q') \<longrightarrow> held q' = held q) \<and>
     (\<forall>c n q r q'. rd_autoclaim rd c n q = (r, q') \<longrightarrow> held q' = held q \<and>
        (\<forall>c' ms. r = Inr (c', ms) \<longrightarrow> set ms \<subseteq> held q)) \<and>
     (\<forall>q r q'. rd_readgroup rd q = (r, q') \<longrightarrow> held q' = held q \<and>
        (\<forall>mss. r = Inr mss \<longrightarrow> (\<forall>ms \<in> set mss. set ms \<subseteq> held q))) \<and>
     (\<forall>d fs q q'. rd_add rd d fs q = Inr q' \<longrightarrow> held q \<subseteq> held q') \<and>
     (\<forall>mid q r q'. rd_ack_delete rd mid q = (r, q') \<longrightarrow> (\<forall>m \<in> held q. fst m \<noteq> mid \<longrightarrow> m \<in> held q')) \<and>
     (\<forall>q m m'. m \<in> held q \<longrightarrow> m' \<in> held q \<longrightarrow> fst m = fst m' \<longrightarrow> m = m')"

lemma keeps_entriesD:
  assumes "keeps_entries rd held"
  shows "rd_group_create rd q = (x, q') \<Longrightarrow> held q' = held q"
    "rd_autoclaim rd c n q = (y, q') \<Longrightarrow> held q' = held q"
    "rd_autoclaim rd c n q = (Inr (c', ms), q') \<Longrightarrow> set ms \<subseteq> held q"
    "rd_readgroup rd q = (z, q') \<Longrightarrow> held q' = held q"
    "rd_readgroup rd q = (Inr mss, q') \<Longrightarrow> ms \<in> set mss \<Longrightarrow> set ms \<subseteq> held q"
    "rd_add rd d fs q = Inr q' \<Longrightarrow> held q \<subseteq> held q'"
    "rd_ack_delete rd mid q = (x, q') \<Longrightarrow> m \<in> held q \<Longrightarrow> fst m \<noteq> mid \<Longrightarrow> m \<in> held q'"
    "m \<in> held q \<Longrightarrow> m' \<in> held q \<Longrightarrow> fst m = fst m' \<Longrightarrow> m = m'"
proof -
  from assms obtain
    a: "\<forall>q r q'. rd_group_create rd q = (r, q') \<longrightarrow> held q' = held q" and
    b: "\<forall>c n q r q'. rd_autoclaim rd c n q = (r, q') \<longrightarrow> held q' = held q \<and>
        (\<forall>c' ms. r = Inr (c', ms) \<longrightarrow> set ms \<subseteq> held q)" and
    c: "\<forall>q r q'. rd_readgroup rd q = (r, q') \<longrightarrow> held q' = held q \<and>
        (\<forall>mss. r = Inr mss \<longrightarrow> (\<forall>ms \<in> set mss. set ms \<subseteq> held q))" and
    d: "\<forall>d fs q q'. rd_add rd d fs q = Inr q' \<longrightarrow> held q \<subseteq> held q'" and
    e: "\<forall>mid q r q'. rd_ack_delete rd mid q = (r, q') \<longrightarrow> (\<forall>m \<in> held q. fst m \<noteq> mid \<longrightarrow> m \<in> held q')" and
    f: "\<forall>q m m'. m \<in> held q \<longrightarrow> m' \<in> held q \<longrightarrow> fst m = fst m' \<longrightarrow> m = m'"
    unfolding keeps_entries_def by (elim conjE)
  show "rd_group_create rd q = (x, q') \<Longrightarrow> held q' = held q" by (rule a [rule_format])
  show "rd_autoclaim rd c n q = (y, q') \<Longrightarrow> held q' = held q" by (rule b [rule_format, THEN conjunct1])
  show "rd_autoclaim rd c n q = (Inr (c', ms), q') \<Longrightarrow> set ms \<subseteq> held q"
    using b [rule_format, THEN conjunct2] by blast
  show "rd_readgroup rd q = (z, q') \<Longrightarrow> held q' = held q" by (rule c [rule_format, THEN conjunct1])
  show "rd_readgroup rd q = (Inr mss, q') \<Longrightarrow> ms \<in> set mss \<Longrightarrow> set ms \<subseteq> held q"
    using c [rule_format, THEN conjunct2] by blast
  show "rd_add rd d fs q = Inr q' \<Longrightarrow> held q \<subseteq> held q'" by (rule d [rule_format])
  show "rd_ack_delete rd mid q = (x, q') \<Longrightarrow> m \<in> held q \<Longrightarrow> fst m \<noteq> mid \<Longrightarrow> m \<in> held q'" by (rule e [rule_format])
  show "m \<in> held q \<Longrightarrow> m' \<in> held q \<Longrightarrow> fst m = fst m' \<Longrightarrow> m = m'" by (rule f [rule_format])
qed

lemma ensure_group_held:
  assumes "keeps_entries rd held" "ensure_group rd q = (r, q')"
  shows "held q' = held q"
proof (cases "rd_group_create rd q")
  case (Pair x q1)
  then have "q' = q1" using assms(2) by (auto simp: ensure_group_def split: sum.splits exn.splits if_splits)
  then show ?thesis using keeps_entriesD(1) [OF assms(1) Pair] by simp
qed

lemma next_entry_held:
  assumes "keeps_entries rd held" "next_entry rd idle cursor q = (r, c, q')"
  shows "held q' = held q" "r = Inr (Some m) \<Longrightarrow> m \<in> held q"
proof -
  obtain x q1 where g: "ensure_group rd q = (x, q1)" by (cases "ensure_group rd q")
  note h1 = ensure_group_held [OF assms(1) g]
  obtain y q2 where a: "rd_autoclaim rd cursor idle q1 = (y, q2)" by (cases "rd_autoclaim rd cursor idle q1")
  note h2 = keeps_entriesD(2) [OF assms(1) a]
  obtain z q3 where b: "rd_readgroup rd q2 = (z, q3)" by (cases "rd_readgroup rd q2")
  note h3 = keeps_entriesD(4) [OF assms(1) b]
  have "held q' = held q \<and> (r = Inr (Some m) \<longrightarrow> m \<in> held q)"
  proof (cases x)
    case (Inl e)
    then show ?thesis using assms(2) g h1 by (auto simp: next_entry_def)
  next
    case (Inr v)
    show ?thesis
    proof (cases y)
      case (Inl e)
      then show ?thesis using assms(2) g a h1 h2 Inr by (auto simp: next_entry_def)
    next
      case y: (Inr w)
      obtain c' ms where w: "w = (c', ms)" by (cases w)
      note in2 = keeps_entriesD(3) [OF assms(1) a [unfolded y w]]
      show ?thesis
      proof (cases ms)
        case (Cons m' ms')
        then show ?thesis using assms(2) g a h1 h2 in2 y w Inr by (auto simp: next_entry_def)
      next
        case Nil
        have in3: "m \<in> held q2" if "z = Inr ((m # ms) # mss)" for m ms mss
          using keeps_entriesD(5) [OF assms(1), of q2 "(m # ms) # mss" q3 "m # ms"] b that by simp
        show ?thesis
          using assms(2) g a b h1 h2 h3 y w Nil Inr in3
          by (auto simp: next_entry_def split: sum.splits list.splits)
      qed
    qed
  qed
  then show "held q' = held q" "r = Inr (Some m) \<Longrightarrow> m \<in> held q" by auto
qed

lemma acknowledge_held:
  assumes "keeps_entries rd held" "acknowledge rd mid q = (r, q')" "m \<in> held q" "fst m \<noteq> mid"
  shows "m \<in> held q'"
  using assms keeps_entriesD(7) [OF assms(1)] by (cases "rd_ack_delete rd mid q") (auto simp: acknowledge_def split: sum.splits)

text \<open>Why a delivery may go: it is malformed, its job is not the one it names, or the worker found
  the job waiting or finished.\<close>

definition disposable ::
  "(nat \<Rightarrow> nat option) \<Rightarrow> (job_envelope \<Rightarrow> db \<Rightarrow> (exn, bool) result \<times> db) \<Rightarrow> entry \<Rightarrow> db \<Rightarrow> db \<Rightarrow> bool" where
  "disposable decimal handle m s s' \<longleftrightarrow>
     (case envelope_parse decimal (snd m) of
        Inl _ \<Rightarrow> True
      | Inr envelope \<Rightarrow> handle envelope s = (Inl InvalidJobEnvelope, s') \<or> handle envelope s = (Inr True, s'))"

lemma deliver_held:
  assumes "keeps_entries rd held" "deliver decimal rd handle m q s = ((r, q'), s')" "x \<in> held q" "x \<notin> held q'" "m \<in> held q"
  shows "x = m \<and> disposable decimal handle m s s'"
proof (cases "\<exists>r'. acknowledge rd (fst m) q = (r', q')")
  case True
  then have "fst x = fst m" using acknowledge_held [OF assms(1)] assms(3,4) by blast
  then have x: "x = m" using keeps_entriesD(8) [OF assms(1) assms(3,5)] by simp
  have "disposable decimal handle m s s'"
    using assms(2,3,4) unfolding disposable_def deliver_def
    by (auto split: sum.splits prod.splits exn.splits if_splits)
  then show ?thesis using x by simp
next
  case False
  then have "q' = q" using assms(2)
    by (auto simp: deliver_def split: sum.splits prod.splits exn.splits if_splits)
  then show ?thesis using assms(3,4) by simp
qed

lemma consume_one_held:
  assumes "keeps_entries rd held" "consume_one decimal rd handle idle cursor q s = (r, c, q', s')"
    "x \<in> held q" "x \<notin> held q'"
  shows "disposable decimal handle x s s'"
proof -
  obtain y c1 q1 where n: "next_entry rd idle cursor q = (y, c1, q1)" by (metis prod.exhaust)
  note h = next_entry_held [OF assms(1) n]
  show ?thesis
  proof (cases "\<exists>m. y = Inr (Some m)")
    case True
    then obtain m where m: "y = Inr (Some m)" by blast
    obtain r2 q2 s2 where d: "deliver decimal rd handle m q1 s = ((r2, q2), s2)" by (metis prod.exhaust)
    have "q2 = q'" "s2 = s'" using assms(2) by (simp_all add: consume_one_def n m d)
    then show ?thesis using deliver_held [OF assms(1) d, of x] h assms(3,4) m by auto
  next
    case False
    then have "q' = q1" using assms(2) by (auto simp: consume_one_def n split: sum.splits option.splits)
    then show ?thesis using h(1) assms(3,4) by simp
  qed
qed

lemma publish_one_held:
  assumes "keeps_entries rd held" "publish_one fmt (publish_to rd) tok now now' (s, q) = (r, s', q')"
  shows "held q \<subseteq> held q'"
proof -
  have "q' = q \<or> (\<exists>kind fs. publish_to rd kind fs q = Inr q')"
    using assms(2) by (auto simp: publish_one_def Let_def split: prod.splits sum.splits option.splits)
  then show ?thesis using keeps_entriesD(6) [OF assms(1)] unfolding publish_to_def by blast
qed

lemma process_acknowledges:
  assumes "process fmt decimal cfg sv env envelope s = (Inr True, s')"
  shows "acknowledgeable (je_job_id envelope) s'"
  using assms by (auto simp: process_def Let_def split: prod.splits sum.splits option.splits)

section \<open>A tick\<close>

text \<open>C18: no delivery is lost. If Redis keeps its entries as documented, then whatever a tick of the
  worker runs into, an entry that was on the stream is still there afterwards, unless it is no
  envelope, names a job with another scope, or its job is waiting for its next attempt or
  finished in the database.\<close>

theorem delivery_kept:
  assumes "keeps_entries rd held" "m \<in> held (wr_stream w)"
    "tick fmt decimal rd (process fmt decimal cfg sv penv) reconcile_seconds lease_seconds env w = (r, w')"
  shows "m \<in> held (wr_stream w') \<or>
    (case envelope_parse decimal (snd m) of
       Inl _ \<Rightarrow> True
     | Inr envelope \<Rightarrow> acknowledgeable (je_job_id envelope) (wr_db w') \<or>
         (\<exists>s. process fmt decimal cfg sv penv envelope s = (Inl InvalidJobEnvelope, wr_db w')))"
proof -
  let ?handle = "process fmt decimal cfg sv penv"
  define w1 where "w1 = (if reconcile_due reconcile_seconds env w
      then w\<lparr>wr_db := snd (reconcile reconcile_seconds (tk_now env) (wr_db w)),
             wr_last_reconcile := Some (tk_monotonic' env)\<rparr> else w)"
  have w1: "wr_stream w1 = wr_stream w" by (simp add: w1_def)
  obtain x s q where p: "publish_one fmt (publish_to rd) (tk_token env) (tk_lease_now env) (tk_confirm_now env)
      (wr_db w1, wr_stream w1) = (x, s, q)" by (metis prod.exhaust)
  have mq: "m \<in> held q" using publish_one_held [OF assms(1) p] assms(2) w1 by auto
  show ?thesis
  proof (cases x)
    case (Inl e)
    then have "wr_stream w' = q"
      using assms(3) by (auto simp: tick_def Let_def w1_def [symmetric] p)
    then show ?thesis using mq by simp
  next
    case (Inr published)
    obtain y c q' s' where k: "consume_one decimal rd ?handle (lease_seconds * 1000) (wr_cursor w1) q s = (y, c, q', s')"
      by (metis prod.exhaust)
    have w': "wr_stream w' = q'" "wr_db w' = s'"
      using assms(3) by (auto simp: tick_def Let_def w1_def [symmetric] p k Inr)
    show ?thesis
    proof (cases "m \<in> held q'")
      case False
      have "disposable decimal ?handle m s s'" by (rule consume_one_held [OF assms(1) k mq False])
      then show ?thesis
        using process_acknowledges [of fmt decimal cfg sv penv _ s s'] unfolding w' disposable_def
        by (cases "envelope_parse decimal (snd m)") auto
    qed (simp add: w')
  qed
qed

text \<open>A stream as the list of its entries, for evaluation.\<close>

definition list_redis :: "entry list redis" where
  "list_redis = \<lparr>rd_group_create = (\<lambda>q. (Inl (ResponseError ''BUSYGROUP exists''), q)),
     rd_autoclaim = (\<lambda>c n q. (Inr (c, []), q)),
     rd_readgroup = (\<lambda>q. (Inr (if distinct (map fst q) then [take 1 q] else []), q)),
     rd_add = (\<lambda>d fs q. Inr (if d then q else q @ [(replicate (Suc (sum_list (map (length \<circ> fst) q))) 48, fs)])),
     rd_ack_delete = (\<lambda>mid q. (Inr (), filter (\<lambda>m. fst m \<noteq> mid) q))\<rparr>"

definition list_held :: "entry list \<Rightarrow> entry set" where
  "list_held q = (if distinct (map fst q) then set q else {})"

lemma list_redis_keeps: "keeps_entries list_redis list_held"
proof -
  have new: "replicate (Suc (sum_list (map (length \<circ> fst) q))) 48 \<notin> fst ` set q" for q :: "entry list"
  proof
    assume "replicate (Suc (sum_list (map (length \<circ> fst) q))) 48 \<in> fst ` set q"
    then obtain m where m: "m \<in> set q" "fst m = replicate (Suc (sum_list (map (length \<circ> fst) q))) 48" by force
    have "length (fst m) \<le> sum_list (map (length \<circ> fst) q)"
      using m(1) by (intro member_le_sum_list) auto
    then show False using m(2) by simp
  qed
  have uniq: "m = m'" if "m \<in> list_held q" "m' \<in> list_held q" "fst m = fst m'" for q m m'
    using that key_eqD [of fst q m m'] by (auto simp: list_held_def split: if_splits)
  show ?thesis
    using new uniq unfolding keeps_entries_def
    by (auto simp: list_redis_def list_held_def distinct_map_filter dest: in_set_takeD split: if_splits)
qed

definition sample_worker :: "entry list worker_state" where
  "sample_worker = \<lparr>wr_db = empty_db, wr_stream = [(py ''1-0'', []), (py ''2-0'', [])], wr_cursor = py ''0-0'',
     wr_last_reconcile = None\<rparr>"

definition sample_tick_env :: tick_env where
  "sample_tick_env = \<lparr>tk_monotonic = 0, tk_monotonic' = 0, tk_now = 0, tk_token = 1, tk_lease_now = 0, tk_confirm_now = 0\<rparr>"

definition sample_handle :: "job_envelope \<Rightarrow> db \<Rightarrow> (exn, bool) result \<times> db" where
  "sample_handle = process sample_fmt (\<lambda>_. None) sample_cfg sample_services sample_env"

lemma sample_tick:
  "tick sample_fmt (\<lambda>_. None) list_redis sample_handle 30 300 sample_tick_env sample_worker =
     (Inr True, \<lparr>wr_db = empty_db, wr_stream = [(py ''2-0'', [])], wr_cursor = py ''0-0'', wr_last_reconcile = Some 0\<rparr>)"
proof -
  have p: "envelope_parse d [] = Inl (ValueError ''invalid job envelope'')" for d
    by (simp add: envelope_parse_def envelope_keys_def)
  have e: "t_outbox empty_db = []" "t_jobs empty_db = []" by (simp_all add: empty_db_def)
  have r: "snd (reconcile 30 0 empty_db) = empty_db"
    by (simp add: reconcile_def update_where_def e empty_db_def)
  have l: "relay_candidates 0 empty_db = []" by (simp add: relay_candidates_def e)
  show ?thesis
    by (simp add: tick_def Let_def sample_worker_def sample_tick_env_def reconcile_due_def r publish_one_def
        relay_lease_def l consume_one_def next_entry_def ensure_group_def list_redis_def deliver_def p
        acknowledge_def py_def)
qed

theorem delivery_kept_witness:
  "\<exists>r w. tick sample_fmt (\<lambda>_. None) list_redis sample_handle 30 300 sample_tick_env sample_worker = (r, w) \<and>
     wr_stream w = [(py ''2-0'', [])] \<and> wr_db w = empty_db \<and>
     (case envelope_parse (\<lambda>_. None) [] of
        Inl _ \<Rightarrow> True
      | Inr envelope \<Rightarrow> acknowledgeable (je_job_id envelope) empty_db \<or>
          (\<exists>s. sample_handle envelope s = (Inl InvalidJobEnvelope, empty_db)))"
proof -
  have m: "(py ''1-0'', []) \<in> list_held (wr_stream sample_worker)"
    by (simp add: sample_worker_def list_held_def py_def)
  have "(py ''1-0'', []) \<notin> list_held [(py ''2-0'', [])]" by (simp add: list_held_def py_def)
  then have "case envelope_parse (\<lambda>_. None) [] of
        Inl _ \<Rightarrow> True
      | Inr envelope \<Rightarrow> acknowledgeable (je_job_id envelope) empty_db \<or>
          (\<exists>s. sample_handle envelope s = (Inl InvalidJobEnvelope, empty_db))"
    using delivery_kept [OF list_redis_keeps m sample_tick [unfolded sample_handle_def]]
    by (simp add: sample_handle_def split: sum.splits)
  then show ?thesis using sample_tick by simp
qed

end
