(* ===== verification/Rag.thy ===== *)
theory Rag
  imports Models
begin

text \<open>
  \<^verbatim>\<open>rag.py\<close>: the values that pass between retrieval, the tutor model and the conversation
  service, and \<open>EvidenceResponseValidator\<close>, which decides what a model's draft may become.
  The model that writes drafts is outside the repository: nothing is assumed of a draft.
\<close>

section \<open>Data\<close>

record retrieval_scope =
  rs_course_id :: uuid
  rs_corpus_version_id :: uuid
  rs_principal_user_id :: uuid
  rs_conversation_id :: uuid
  rs_message_id :: uuid
  rs_correlation_id :: pystr

record evidence =
  ev_chunk_id :: uuid
  ev_course_id :: uuid
  ev_corpus_version_id :: uuid
  ev_document_version_id :: uuid
  ev_document_title :: pystr
  ev_document_sha256 :: pystr
  ev_page_start :: int
  ev_page_end :: int
  ev_fragment :: pystr
  ev_content :: pystr
  ev_content_hash :: pystr

record history_turn =
  ht_question :: pystr
  ht_answer :: pystr
  ht_situation :: "situation option"
  ht_help_level :: int

record tutor_request =
  tr_scope :: retrieval_scope
  tr_question :: pystr
  tr_evidence :: "evidence list"
  tr_history :: "history_turn list"
  tr_turn_kind :: turn_kind
  tr_turn_intent :: "turn_intent option"
  tr_retrieval_query :: "pystr option"
  tr_needs_antecedent :: bool

record draft_citation =
  dc_chunk_id :: uuid
  dc_quote :: pystr

record tutor_draft =
  td_mode :: mode
  td_answer :: pystr
  td_citations :: "draft_citation list"
  td_grounded :: bool
  td_intervention :: "tutor_intervention option"

section \<open>Constructors\<close>

text \<open>What the contract's functions raise: a \<open>ValidationError\<close> is a \<open>ValueError\<close>.\<close>

fun contract_exn :: "contract_error \<Rightarrow> exn" where
  "contract_exn Key_error = KeyError"
| "contract_exn _ = ValueError ''validation error''"

definition lift_contract :: "(contract_error, 'a) result \<Rightarrow> (exn, 'a) result" where
  "lift_contract r = (case r of Inl e \<Rightarrow> Inl (contract_exn e) | Inr x \<Rightarrow> Inr x)"

lemma lift_contract_simps [simp]:
  "lift_contract (Inr x) = Inr x" "lift_contract (Inl e) = Inl (contract_exn e)"
  by (simp_all add: lift_contract_def)

lemma lift_contract_Inr [simp]: "lift_contract r = Inr x \<longleftrightarrow> r = Inr x"
  by (cases r) simp_all

text \<open>\<open>DraftCitation(...)\<close>, \<open>TutorDraft(...)\<close> (an intervention that already is one is not
  validated again) and \<open>TutorDraft.model_validate_json\<close> (everything is). Text is a sequence of
  Unicode scalar values, so that the JSON of a draft is always read back as the same draft.\<close>

definition make_citation :: "uuid \<Rightarrow> pystr \<Rightarrow> (exn, draft_citation) result" where
  "make_citation i q =
     (if len_between 10 1600 q then Inr \<lparr>dc_chunk_id = i, dc_quote = q\<rparr>
      else Inl (ValueError ''validation error''))"

definition make_intent_citation :: "uuid \<Rightarrow> pystr \<Rightarrow> (exn, intent_citation) result" where
  "make_intent_citation i q =
     (if len_between 10 1600 q then Inr \<lparr>ic_chunk_id = i, ic_quote = q\<rparr>
      else Inl (ValueError ''validation error''))"

definition make_draft ::
  "mode \<Rightarrow> pystr \<Rightarrow> draft_citation list \<Rightarrow> bool \<Rightarrow> tutor_intervention option \<Rightarrow> (exn, tutor_draft) result" where
  "make_draft m answer citations g ti =
     (if len_between 1 6000 answer \<and> length citations \<le> 5
      then Inr \<lparr>td_mode = m, td_answer = answer, td_citations = citations, td_grounded = g,
                td_intervention = ti\<rparr>
      else Inl (ValueError ''validation error''))"

definition revalidate :: "tutor_draft \<Rightarrow> (exn, tutor_draft) result" where
  "revalidate d =
     bindE (mapE (\<lambda>c. make_citation (dc_chunk_id c) (dc_quote c)) (td_citations d)) (\<lambda>cs.
     bindE (case td_intervention d of None \<Rightarrow> Inr None
            | Some ti \<Rightarrow> bindE (lift_contract (validate_intervention ti)) (\<lambda>t. Inr (Some t))) (\<lambda>ti.
       make_draft (td_mode d) (td_answer d) cs (td_grounded d) ti))"

definition ABSTENTION :: pystr where
  "ABSTENTION =
     py ''No encuentro evidencia suficiente en el material activo del curso para responder. '' @
     [191] @ py ''Puedes precisar el concepto o indicar la secci'' @ [243] @
     py ''n del PDF que est'' @ [225] @ py ''s estudiando?''"

definition abstention :: tutor_draft where
  "abstention = \<lparr>td_mode = Abstain, td_answer = ABSTENTION, td_citations = [],
     td_grounded = False, td_intervention = None\<rparr>"

definition CLARIFICATION :: pystr where
  "CLARIFICATION =
     [191] @ py ''A qu'' @ [233] @ py '' actividad o pregunta te refieres? Escr'' @ [237] @
     py ''bela o indica el fragmento del material que est'' @ [225] @ py ''s estudiando.''"

definition draft_from_intervention :: "tutor_intervention \<Rightarrow> (exn, tutor_draft) result" where
  "draft_from_intervention ti =
     bindE (lift_contract (equivalent_text ti)) (\<lambda>answer.
     bindE (mapE (\<lambda>c. make_citation (ic_chunk_id c) (ic_quote c)) (ti_citations ti)) (\<lambda>cs.
       make_draft (mode_for ti) answer cs (ti_grounded ti) (Some ti)))"

definition clarification :: "(exn, tutor_draft) result" where
  "clarification =
     bindE (lift_contract (validate_intervention
       \<lparr>ti_version = V1, ti_situation = Ambiguous, ti_blocks = [QuestionBlock CLARIFICATION],
        ti_citations = [], ti_grounded = False\<rparr>)) draft_from_intervention"

section \<open>The evidence validator\<close>

text \<open>\<open>re.finditer(re.escape(pat), s, re.IGNORECASE)\<close>: the start of each match, from the left,
  each search resuming at the end of the last match.\<close>

definition matches_at :: "('a \<Rightarrow> 'a \<Rightarrow> bool) \<Rightarrow> 'a list \<Rightarrow> 'a list \<Rightarrow> nat \<Rightarrow> bool" where
  "matches_at eq pat s i \<longleftrightarrow> list_all2 eq pat (slice s i (i + length pat))"

function finditer :: "('a \<Rightarrow> 'a \<Rightarrow> bool) \<Rightarrow> 'a list \<Rightarrow> 'a list \<Rightarrow> nat \<Rightarrow> nat list" where
  "finditer eq pat s i =
     (if length s < i then []
      else if matches_at eq pat s i then i # finditer eq pat s (i + max 1 (length pat))
      else finditer eq pat s (i + 1))"
  by pat_completeness auto
termination
  by (relation "measure (\<lambda>(eq, pat, s, i). Suc (length s) - i)") auto

declare finditer.simps [simp del]

definition invalid_output :: exn where
  "invalid_output = RAGFailure ''MODEL_OUTPUT_INVALID''"

definition repair_quote :: "unicode_db \<Rightarrow> pystr \<Rightarrow> pystr \<Rightarrow> (exn, pystr) result" where
  "repair_quote u quote content =
     (if sublist quote content then Inr quote
      else case finditer (fold_eq u) quote content 0 of
             [i] \<Rightarrow> Inr (slice content i (i + length quote))
           | _ \<Rightarrow> Inl invalid_output)"

fun cite_loop ::
  "unicode_db \<Rightarrow> evidence list \<Rightarrow> uuid list \<Rightarrow> draft_citation list \<Rightarrow> (exn, draft_citation list) result" where
  "cite_loop u evs seen [] = Inr []"
| "cite_loop u evs seen (c # cs) =
     (case find (\<lambda>e. ev_chunk_id e = dc_chunk_id c) evs of
        None \<Rightarrow> Inl invalid_output
      | Some e \<Rightarrow>
          if strip (dc_quote c) = [] then Inl invalid_output
          else bindE (repair_quote u (dc_quote c) (ev_content e)) (\<lambda>quote.
            if dc_chunk_id c \<in> set seen then cite_loop u evs seen cs
            else bindE (make_citation (dc_chunk_id c) quote) (\<lambda>x.
                 bindE (cite_loop u evs (dc_chunk_id c # seen) cs) (\<lambda>xs. Inr (x # xs)))))"

text \<open>The test on a structured draft: the stored fields are those the intervention implies.\<close>

definition derived_fields :: "tutor_draft \<Rightarrow> tutor_intervention \<Rightarrow> bool" where
  "derived_fields d ti \<longleftrightarrow>
     equivalent_text ti = Inr (td_answer d) \<and> td_mode d = mode_for ti \<and>
     td_grounded d = ti_grounded ti \<and>
     map (\<lambda>c. (dc_chunk_id c, dc_quote c)) (td_citations d) =
       map (\<lambda>c. (ic_chunk_id c, ic_quote c)) (ti_citations ti) \<and>
     distinct (map ic_chunk_id (ti_citations ti))"

definition in_scope :: "retrieval_scope \<Rightarrow> evidence list \<Rightarrow> bool" where
  "in_scope sc evs \<longleftrightarrow>
     distinct (map ev_chunk_id evs) \<and>
     list_all (\<lambda>e. ev_course_id e = rs_course_id sc \<and>
                   ev_corpus_version_id e = rs_corpus_version_id sc) evs"

definition validate_evidence ::
  "unicode_db \<Rightarrow> tutor_draft \<Rightarrow> tutor_request \<Rightarrow> (exn, tutor_draft) result" where
  "validate_evidence u draft req =
     (if \<not> in_scope (tr_scope req) (tr_evidence req) then Inl (RAGFailure ''RETRIEVAL_SCOPE_INVALID'')
      else if td_mode draft = Abstain then
        (if td_grounded draft \<or> td_citations draft \<noteq> [] then Inl invalid_output else Inr abstention)
      else if tr_evidence req = [] \<or> \<not> td_grounded draft \<or> td_citations draft = [] then Inl invalid_output
      else if strip (td_answer draft) = [] then Inl invalid_output
      else bindE (cite_loop u (tr_evidence req) [] (td_citations draft)) (\<lambda>citations.
        case td_intervention draft of
          None \<Rightarrow> Inr (draft\<lparr>td_citations := citations\<rparr>)
        | Some ti \<Rightarrow>
            bindE (mapE (\<lambda>c. make_intent_citation (dc_chunk_id c) (dc_quote c)) citations)
              (\<lambda>ics. draft_from_intervention (ti\<lparr>ti_citations := ics\<rparr>))))"

definition validate_response ::
  "unicode_db \<Rightarrow> tutor_draft \<Rightarrow> tutor_request \<Rightarrow> (exn, tutor_draft) result" where
  "validate_response u d req =
     (case revalidate d of
        Inl (ValueError _) \<Rightarrow> Inl invalid_output
      | Inl e \<Rightarrow> Inl e
      | Inr draft \<Rightarrow>
          (case td_intervention draft of
             None \<Rightarrow> validate_evidence u draft req
           | Some ti \<Rightarrow>
               if \<not> is_ok (equivalent_text ti) then Inl KeyError
               else if \<not> derived_fields draft ti then Inl invalid_output
               else if ti_situation ti = Ambiguous then Inr draft
               else validate_evidence u draft req))"


section \<open>Matching\<close>

lemma finditer_sound:
  "i \<in> set (finditer eq pat s k) \<Longrightarrow> k \<le> i \<and> matches_at eq pat s i"
proof (induction eq pat s k rule: finditer.induct)
  case (1 eq pat s k)
  show ?case
    using 1 by (subst (asm) finditer.simps [of eq pat s k]) (auto split: if_splits)
qed

lemma repair_quote_ok:
  assumes "repair_quote u q content = Inr q'"
  shows "sublist q' content" "length q' = length q" "list_all2 (fold_eq u) q q'"
proof -
  have "sublist q' content \<and> length q' = length q \<and> list_all2 (fold_eq u) q q'"
  proof (cases "sublist q content")
    case True
    moreover have "list_all2 (fold_eq u) q q"
      by (rule list_all2_refl) (simp add: fold_eq_def)
    ultimately show ?thesis using assms by (simp add: repair_quote_def)
  next
    case False
    then obtain i where i: "finditer (fold_eq u) q content 0 = [i]"
      and q': "q' = slice content i (i + length q)"
      using assms by (auto simp: repair_quote_def split: list.splits)
    have "matches_at (fold_eq u) q content i"
      using finditer_sound [of i "fold_eq u" q content 0] i by simp
    then have m: "list_all2 (fold_eq u) q q'" by (simp add: matches_at_def q')
    moreover have "length q' = length q" using list_all2_lengthD [OF m] by simp
    moreover have "sublist q' content" unfolding q' by (rule last_slice_of)
    ultimately show ?thesis by blast
  qed
  then show "sublist q' content" "length q' = length q" "list_all2 (fold_eq u) q q'" by simp_all
qed

lemma repair_quote_error: "repair_quote u q content = Inl e \<Longrightarrow> e = invalid_output"
  by (auto simp: repair_quote_def split: if_splits list.splits)

section \<open>The citation loop\<close>

text \<open>A citation of the evidence: the chunk was retrieved, the quote is a verbatim part of it.\<close>

definition cites :: "evidence list \<Rightarrow> draft_citation \<Rightarrow> bool" where
  "cites evs c \<longleftrightarrow>
     (\<exists>e \<in> set evs. ev_chunk_id e = dc_chunk_id c \<and> sublist (dc_quote c) (ev_content e))"

lemma cite_loop_sound:
  assumes "cite_loop u evs seen cs = Inr xs"
  shows "(\<forall>x \<in> set xs. cites evs x \<and> len_between 10 1600 (dc_quote x)) \<and>
    distinct (map dc_chunk_id xs) \<and>
    dc_chunk_id ` set xs = dc_chunk_id ` set cs - set seen"
  using assms
proof (induction u evs seen cs arbitrary: xs rule: cite_loop.induct)
  case (2 u evs seen c cs)
  obtain e where e: "find (\<lambda>e. ev_chunk_id e = dc_chunk_id c) evs = Some e"
    and nb: "strip (dc_quote c) \<noteq> []"
    using "2.prems" by (auto split: option.splits if_splits)
  obtain q where q: "repair_quote u (dc_quote c) (ev_content e) = Inr q"
    using "2.prems" e nb by (auto simp: result_simps)
  show ?case
  proof (cases "dc_chunk_id c \<in> set seen")
    case True
    then show ?thesis using "2.IH"(1) [OF e nb True, of xs] "2.prems" e nb q by auto
  next
    case False
    obtain ys where ys: "cite_loop u evs (dc_chunk_id c # seen) cs = Inr ys"
      and xs: "xs = \<lparr>dc_chunk_id = dc_chunk_id c, dc_quote = q\<rparr> # ys" and len: "len_between 10 1600 q"
      using "2.prems" e nb q False by (auto simp: result_simps make_citation_def split: if_splits)
    have "cites evs \<lparr>dc_chunk_id = dc_chunk_id c, dc_quote = q\<rparr>"
      using find_SomeD [OF e] repair_quote_ok(1) [OF q] by (auto simp: cites_def)
    then show ?thesis using "2.IH"(2) [OF e nb False ys] xs len False by auto
  qed
qed simp

lemma cite_loop_keeps_ids:
  assumes "cite_loop u evs seen cs = Inr xs" "distinct (map dc_chunk_id cs)"
    "set (map dc_chunk_id cs) \<inter> set seen = {}"
  shows "map dc_chunk_id xs = map dc_chunk_id cs"
  using assms
proof (induction u evs seen cs arbitrary: xs rule: cite_loop.induct)
  case (2 u evs seen c cs)
  obtain e where e: "find (\<lambda>e. ev_chunk_id e = dc_chunk_id c) evs = Some e"
    and nb: "strip (dc_quote c) \<noteq> []"
    using "2.prems"(1) by (auto split: option.splits if_splits)
  have new: "dc_chunk_id c \<notin> set seen" using "2.prems"(3) by simp
  then obtain q ys where ys: "cite_loop u evs (dc_chunk_id c # seen) cs = Inr ys"
    and xs: "xs = \<lparr>dc_chunk_id = dc_chunk_id c, dc_quote = q\<rparr> # ys"
    using "2.prems"(1) e nb by (auto simp: result_simps make_citation_def split: if_splits)
  have "map dc_chunk_id ys = map dc_chunk_id cs"
    by (rule "2.IH"(2) [OF e nb new ys]) (use "2.prems"(2,3) in auto)
  then show ?case using xs by simp
qed simp

text \<open>Bounded quotes of known chunks: only the validator's own error is possible.\<close>

lemma cite_loop_error:
  assumes "cite_loop u evs seen cs = Inl e" "\<forall>c \<in> set cs. len_between 10 1600 (dc_quote c)"
  shows "e = invalid_output"
  using assms
proof (induction u evs seen cs arbitrary: e rule: cite_loop.induct)
  case (2 u evs seen c cs)
  show ?case
  proof (rule ccontr)
    assume ne: "e \<noteq> invalid_output"
    then obtain ev where ev: "find (\<lambda>e. ev_chunk_id e = dc_chunk_id c) evs = Some ev"
      and nb: "strip (dc_quote c) \<noteq> []"
      using "2.prems"(1) by (auto split: option.splits if_splits)
    obtain q where q: "repair_quote u (dc_quote c) (ev_content ev) = Inr q"
      using "2.prems"(1) ev nb ne repair_quote_error by (fastforce simp: result_simps)
    have len: "len_between 10 1600 q"
      using repair_quote_ok(2) [OF q] "2.prems"(2) by (simp add: len_between_def)
    show False
    proof (cases "dc_chunk_id c \<in> set seen")
      case True
      then show False using "2.IH"(1) [OF ev nb True, of e] "2.prems" ev nb q ne by simp
    next
      case False
      then have "cite_loop u evs (dc_chunk_id c # seen) cs = Inl e"
        using "2.prems"(1) ev nb q len by (auto simp: result_simps make_citation_def)
      then show False using "2.IH"(2) [OF ev nb False, of e] "2.prems"(2) ne by simp
    qed
  qed
qed simp

lemma cite_loop_id:
  assumes "\<forall>c \<in> set cs. cites evs c \<and> strip (dc_quote c) \<noteq> [] \<and> len_between 10 1600 (dc_quote c)"
    "distinct (map ev_chunk_id evs)" "distinct (map dc_chunk_id cs)"
    "set (map dc_chunk_id cs) \<inter> set seen = {}"
  shows "cite_loop u evs seen cs = Inr cs"
  using assms
proof (induction cs arbitrary: seen)
  case (Cons c cs)
  obtain e where e: "e \<in> set evs" "ev_chunk_id e = dc_chunk_id c" "sublist (dc_quote c) (ev_content e)"
    using Cons.prems(1) by (auto simp: cites_def)
  have "find (\<lambda>e. ev_chunk_id e = dc_chunk_id c) evs = Some e"
    using find_key [OF Cons.prems(2) e(1)] e(2) by simp
  moreover have "cite_loop u evs (dc_chunk_id c # seen) cs = Inr cs"
    by (rule Cons.IH) (use Cons.prems in auto)
  ultimately show ?case
    using Cons.prems e(3) by (simp add: repair_quote_def make_citation_def)
qed simp


section \<open>Revalidation\<close>

lemma validate_block_no_key_error: "validate_block b = Inl e \<Longrightarrow> e \<noteq> Key_error"
  by (cases b) (auto simp: diagram_consistent_def activity_consistent_def Let_def split: if_splits)

lemma validate_intervention_no_key_error:
  assumes "validate_intervention ti = Inl e"
  shows "\<exists>m. contract_exn e = ValueError m"
proof -
  have blocks: "er \<noteq> Key_error" if "mapE validate_block bs = Inl er" for bs er
    using that by (induction bs) (auto simp: result_simps dest: validate_block_no_key_error)
  have "e \<noteq> Key_error"
    using assms
    by (auto simp: validate_intervention_def coherent_def result_simps dest: blocks split: if_splits)
  then show ?thesis by (cases e) auto
qed

lemma mapE_check:
  "mapE (\<lambda>c. if P c then Inr (f c) else Inl e) cs = Inr xs \<longleftrightarrow> xs = map f cs \<and> (\<forall>c \<in> set cs. P c)"
  by (induction cs arbitrary: xs) (auto simp: result_simps)

lemma make_citations_Inr:
  "mapE (\<lambda>c. make_citation (dc_chunk_id c) (dc_quote c)) cs = Inr xs \<longleftrightarrow>
     xs = cs \<and> (\<forall>c \<in> set cs. len_between 10 1600 (dc_quote c))"
proof -
  have "map (\<lambda>c. \<lparr>dc_chunk_id = dc_chunk_id c, dc_quote = dc_quote c\<rparr>) cs = cs"
    by (rule map_idI) simp
  then show ?thesis
    by (simp add: make_citation_def mapE_check [where P = "\<lambda>c. len_between 10 1600 (dc_quote c)"])
qed

lemma make_citations_Inl:
  "mapE (\<lambda>c. make_citation (dc_chunk_id c) (dc_quote c)) cs = Inl e \<Longrightarrow> \<exists>m. e = ValueError m"
  by (induction cs) (auto simp: result_simps make_citation_def split: if_splits)

definition draft_ok :: "tutor_draft \<Rightarrow> bool" where
  "draft_ok d \<longleftrightarrow> len_between 1 6000 (td_answer d) \<and> length (td_citations d) \<le> 5 \<and>
     (\<forall>c \<in> set (td_citations d). len_between 10 1600 (dc_quote c)) \<and>
     (\<forall>ti. td_intervention d = Some ti \<longrightarrow> validate_intervention ti = Inr ti)"

lemma revalidate_Inr: "revalidate d = Inr d' \<longleftrightarrow> d' = d \<and> draft_ok d"
proof (cases "td_intervention d")
  case None
  then show ?thesis
    by (auto simp: revalidate_def draft_ok_def make_citations_Inr make_draft_def result_simps)
next
  case (Some ti)
  show ?thesis
    using Some validate_intervention_ok(1) [of ti]
    by (auto simp: revalidate_def draft_ok_def make_citations_Inr make_draft_def result_simps)
qed

lemma revalidate_Inl:
  assumes "revalidate d = Inl e"
  shows "\<exists>m. e = ValueError m"
proof -
  consider "mapE (\<lambda>c. make_citation (dc_chunk_id c) (dc_quote c)) (td_citations d) = Inl e"
    | ti er where "validate_intervention ti = Inl er" "e = contract_exn er"
    | cs ti where "make_draft (td_mode d) (td_answer d) cs (td_grounded d) ti = Inl e"
    using assms
    by (auto simp: revalidate_def result_simps lift_contract_def split: option.splits sum.splits)
  then show ?thesis
  proof cases
    case 1
    then show ?thesis by (rule make_citations_Inl)
  next
    case 2
    then show ?thesis using validate_intervention_no_key_error by simp
  next
    case 3
    then show ?thesis by (auto simp: make_draft_def split: if_splits)
  qed
qed

section \<open>Repaired interventions\<close>

lemma equivalent_text_citations [simp]:
  "equivalent_text (ti\<lparr>ti_citations := cs\<rparr>) = equivalent_text ti"
  by (simp add: equivalent_text_def)

lemma mode_for_citations [simp]: "mode_for (ti\<lparr>ti_citations := cs\<rparr>) = mode_for ti"
  by (simp add: mode_for_def)

lemma validate_intervention_citations:
  assumes "validate_intervention ti = Inr ti" "length cs = length (ti_citations ti)"
    "\<forall>c \<in> set cs. len_between 10 1600 (ic_quote c)"
  shows "validate_intervention (ti\<lparr>ti_citations := cs\<rparr>) = Inr (ti\<lparr>ti_citations := cs\<rparr>)"
proof -
  note ok = validate_intervention_ok [OF assms(1)]
  have e: "cs = [] \<longleftrightarrow> ti_citations ti = []" using assms(2) by (metis length_0_conv)
  have "coherent (ti\<lparr>ti_citations := cs\<rparr>) =
      (case coherent ti of Inl e \<Rightarrow> Inl e | Inr _ \<Rightarrow> Inr (ti\<lparr>ti_citations := cs\<rparr>))"
    by (simp add: coherent_def e assms(2))
  then have "coherent (ti\<lparr>ti_citations := cs\<rparr>) = Inr (ti\<lparr>ti_citations := cs\<rparr>)"
    by (simp add: ok(2))
  moreover have "\<exists>us. mapE validate_block (ti_blocks ti) = Inr us" using ok(4) by (intro mapE_ok) blast
  ultimately show ?thesis
    using ok(3,5) assms(2,3) by (auto simp: validate_intervention_def list_ex_iff)
qed

lemma make_intent_citations_Inr:
  "mapE (\<lambda>c. make_intent_citation (dc_chunk_id c) (dc_quote c)) cs = Inr xs \<longleftrightarrow>
     xs = map (\<lambda>c. \<lparr>ic_chunk_id = dc_chunk_id c, ic_quote = dc_quote c\<rparr>) cs \<and>
     (\<forall>c \<in> set cs. len_between 10 1600 (dc_quote c))"
  by (simp add: make_intent_citation_def mapE_check [where P = "\<lambda>c. len_between 10 1600 (dc_quote c)"] cong: map_cong)

lemma draft_citations_Inr:
  "mapE (\<lambda>c. make_citation (ic_chunk_id c) (ic_quote c)) cs = Inr xs \<longleftrightarrow>
     xs = map (\<lambda>c. \<lparr>dc_chunk_id = ic_chunk_id c, dc_quote = ic_quote c\<rparr>) cs \<and>
     (\<forall>c \<in> set cs. len_between 10 1600 (ic_quote c))"
  by (simp add: make_citation_def mapE_check [where P = "\<lambda>c. len_between 10 1600 (ic_quote c)"] cong: map_cong)

lemma draft_from_intervention_repaired:
  assumes "equivalent_text ti = Inr answer" "len_between 1 6000 answer" "length cs \<le> 5"
    "\<forall>c \<in> set cs. len_between 10 1600 (dc_quote c)"
  shows "draft_from_intervention
      (ti\<lparr>ti_citations := map (\<lambda>c. \<lparr>ic_chunk_id = dc_chunk_id c, ic_quote = dc_quote c\<rparr>) cs\<rparr>) =
    Inr \<lparr>td_mode = mode_for ti, td_answer = answer, td_citations = cs, td_grounded = ti_grounded ti,
      td_intervention =
        Some (ti\<lparr>ti_citations := map (\<lambda>c. \<lparr>ic_chunk_id = dc_chunk_id c, ic_quote = dc_quote c\<rparr>) cs\<rparr>)\<rparr>"
proof -
  have "map (\<lambda>c. \<lparr>dc_chunk_id = ic_chunk_id c, dc_quote = ic_quote c\<rparr>)
      (map (\<lambda>c. \<lparr>ic_chunk_id = dc_chunk_id c, ic_quote = dc_quote c\<rparr>) cs) = cs"
    by (simp add: comp_def map_idI)
  then show ?thesis
    using assms by (simp add: draft_from_intervention_def draft_citations_Inr [THEN iffD2] make_draft_def)
qed


section \<open>What the validator returns\<close>

text \<open>An answer from the evidence of a request, a clarifying question, and the abstention are all
  a validated draft can be.\<close>

definition answers_from :: "tutor_request \<Rightarrow> tutor_draft \<Rightarrow> bool" where
  "answers_from req d \<longleftrightarrow>
     in_scope (tr_scope req) (tr_evidence req) \<and> td_mode d \<noteq> Abstain \<and> td_grounded d \<and>
     strip (td_answer d) \<noteq> [] \<and> td_citations d \<noteq> [] \<and> distinct (map dc_chunk_id (td_citations d)) \<and>
     (\<forall>c \<in> set (td_citations d). cites (tr_evidence req) c)"

definition only_clarifies :: "tutor_draft \<Rightarrow> bool" where
  "only_clarifies d \<longleftrightarrow>
     td_mode d = Clarify \<and> \<not> td_grounded d \<and> td_citations d = [] \<and>
     (\<exists>ti. td_intervention d = Some ti \<and> ti_blocks ti = [QuestionBlock (td_answer d)])"

definition consistent :: "tutor_draft \<Rightarrow> bool" where
  "consistent d \<longleftrightarrow> draft_ok d \<and> (\<forall>ti. td_intervention d = Some ti \<longrightarrow> derived_fields d ti)"

lemma validate_response_cases:
  assumes "validate_response u d req = r"
  obtains (malformed) "\<not> consistent d" "r = Inl invalid_output"
  | (clarify) ti where "consistent d" "td_intervention d = Some ti" "ti_situation ti = Ambiguous" "r = Inr d"
  | (evidence) "consistent d" "\<And>ti. td_intervention d = Some ti \<Longrightarrow> ti_situation ti \<noteq> Ambiguous"
      "r = validate_evidence u d req"
proof (cases "draft_ok d")
  case False
  then obtain e where "revalidate d = Inl e" using revalidate_Inr [of d] by (cases "revalidate d") auto
  moreover then obtain m where "e = ValueError m" using revalidate_Inl by blast
  ultimately have "r = Inl invalid_output" using assms by (simp add: validate_response_def)
  then show ?thesis using malformed False by (simp add: consistent_def)
next
  case ok: True
  then have rv: "revalidate d = Inr d" by (simp add: revalidate_Inr)
  show ?thesis
  proof (cases "td_intervention d")
    case None
    then show ?thesis using evidence assms ok rv by (simp add: validate_response_def consistent_def)
  next
    case (Some ti)
    have "validate_intervention ti = Inr ti" using ok Some by (simp add: draft_ok_def)
    then have "is_ok (equivalent_text ti)"
      unfolding is_ok_conv using equivalent_text_ok validate_intervention_ok(1) by blast
    then have r: "r = (if \<not> derived_fields d ti then Inl invalid_output
        else if ti_situation ti = Ambiguous then Inr d else validate_evidence u d req)"
      using assms rv Some by (simp add: validate_response_def)
    show ?thesis
      using r Some ok malformed clarify [of ti] evidence by (auto simp: consistent_def split: if_splits)
  qed
qed

lemma clarify_only_clarifies:
  assumes "consistent d" "td_intervention d = Some ti" "ti_situation ti = Ambiguous"
  shows "only_clarifies d"
proof -
  have v: "validate_intervention ti = Inr ti" and f: "derived_fields d ti"
    using assms by (auto simp: consistent_def draft_ok_def)
  note a = coherent_ambiguous [OF validate_intervention_ok(2) [OF v] assms(3)]
  from a(3) obtain q where q: "ti_blocks ti = [QuestionBlock q]" ..
  then have "equivalent_text ti = Inr q" by (simp add: equivalent_text_def)
  then show ?thesis
    using f q a assms by (simp add: only_clarifies_def derived_fields_def)
qed

text \<open>The draft with the citations the loop returns, in the intervention too.\<close>

definition with_citations :: "draft_citation list \<Rightarrow> tutor_draft \<Rightarrow> tutor_draft" where
  "with_citations cs d = d\<lparr>td_citations := cs, td_intervention := map_option (\<lambda>ti. ti\<lparr>ti_citations :=
     map (\<lambda>c. \<lparr>ic_chunk_id = dc_chunk_id c, ic_quote = dc_quote c\<rparr>) cs\<rparr>) (td_intervention d)\<rparr>"

definition answerable :: "tutor_request \<Rightarrow> tutor_draft \<Rightarrow> bool" where
  "answerable req d \<longleftrightarrow>
     in_scope (tr_scope req) (tr_evidence req) \<and> td_mode d \<noteq> Abstain \<and> tr_evidence req \<noteq> [] \<and>
     td_grounded d \<and> td_citations d \<noteq> [] \<and> strip (td_answer d) \<noteq> []"

lemma structured_keeps_ids:
  assumes "consistent d" "td_intervention d = Some ti" "cite_loop u evs [] (td_citations d) = Inr cs"
  shows "map dc_chunk_id cs = map dc_chunk_id (td_citations d)" "distinct (map dc_chunk_id cs)"
    "length cs = length (td_citations d)" "length cs = length (ti_citations ti)"
proof -
  have f: "derived_fields d ti" using assms(1,2) by (simp add: consistent_def)
  have pairs: "map (\<lambda>c. (dc_chunk_id c, dc_quote c)) (td_citations d) =
      map (\<lambda>c. (ic_chunk_id c, ic_quote c)) (ti_citations ti)"
    using f by (simp add: derived_fields_def)
  have "map dc_chunk_id (td_citations d) = map ic_chunk_id (ti_citations ti)"
    using arg_cong [OF pairs, of "map fst"] by (simp add: comp_def)
  then have "distinct (map dc_chunk_id (td_citations d))" using f by (simp add: derived_fields_def)
  then show ids: "map dc_chunk_id cs = map dc_chunk_id (td_citations d)" "distinct (map dc_chunk_id cs)"
    using cite_loop_keeps_ids [OF assms(3)] by simp_all
  show len: "length cs = length (td_citations d)" using ids(1) by (metis length_map)
  show "length cs = length (ti_citations ti)"
    using len arg_cong [OF pairs, of length] by simp
qed

lemma validate_evidence_answer:
  assumes "answerable req d" "consistent d" "cite_loop u (tr_evidence req) [] (td_citations d) = Inr cs"
  shows "validate_evidence u d req = Inr (with_citations cs d)"
proof (cases "td_intervention d")
  case None
  have d: "with_citations cs d = d\<lparr>td_citations := cs\<rparr>" using None by (simp add: with_citations_def)
  show ?thesis unfolding d
    using assms(1,3) None by (simp add: validate_evidence_def answerable_def)
next
  case (Some ti)
  have "length cs \<le> 5"
    using structured_keeps_ids(3) [OF assms(2) Some assms(3)] assms(2) by (simp add: consistent_def draft_ok_def)
  then show ?thesis
    using assms Some cite_loop_sound [OF assms(3)]
    by (auto simp: validate_evidence_def answerable_def make_intent_citations_Inr [THEN iffD2]
        draft_from_intervention_repaired derived_fields_def consistent_def draft_ok_def with_citations_def)
qed

lemma validate_evidence_cases:
  assumes "validate_evidence u d req = r" "consistent d"
  obtains (error) e where "r = Inl e" "e \<in> {invalid_output, RAGFailure ''RETRIEVAL_SCOPE_INVALID''}"
  | (abstain) "r = Inr abstention" "td_mode d = Abstain" "in_scope (tr_scope req) (tr_evidence req)"
  | (answer) cs where "cite_loop u (tr_evidence req) [] (td_citations d) = Inr cs" "answerable req d"
      "r = Inr (with_citations cs d)"
proof (cases "answerable req d")
  case False
  then show ?thesis
    using assms(1) error abstain by (auto simp: validate_evidence_def answerable_def split: if_splits)
next
  case True
  have "draft_ok d" using assms(2) by (simp add: consistent_def)
  show ?thesis
  proof (cases "cite_loop u (tr_evidence req) [] (td_citations d)")
    case (Inl e)
    then have "e = invalid_output" using cite_loop_error [OF Inl] \<open>draft_ok d\<close> by (auto simp: draft_ok_def)
    then show ?thesis
      using error [of e] assms(1) True Inl by (auto simp: validate_evidence_def answerable_def)
  next
    case (Inr cs)
    then show ?thesis using answer [OF Inr True] validate_evidence_answer [OF True assms(2) Inr] assms(1) by simp
  qed
qed

lemma answer_answers_from:
  assumes "cite_loop u (tr_evidence req) [] (td_citations d) = Inr cs" "answerable req d"
  shows "answers_from req (with_citations cs d)"
proof -
  note sound = cite_loop_sound [OF assms(1)]
  have "cs \<noteq> []"
  proof
    assume "cs = []"
    then have "dc_chunk_id ` set (td_citations d) = {}" using sound by simp
    then show False using assms(2) by (simp add: answerable_def)
  qed
  then show ?thesis using sound assms(2) by (simp add: answers_from_def answerable_def with_citations_def)
qed

lemma length_ABSTENTION: "length ABSTENTION = 161"
  by (simp add: ABSTENTION_def)

lemma consistent_abstention: "consistent abstention"
  by (simp add: consistent_def draft_ok_def abstention_def len_between_def length_ABSTENTION)

text \<open>The loop leaves its own result alone, if case folding does not confuse a space with another
  character.\<close>

definition spaces_fold :: "unicode_db \<Rightarrow> bool" where
  "spaces_fold u \<longleftrightarrow> (\<forall>a b. fold_eq u a b \<longrightarrow> is_space a = is_space b)"

lemma cite_loop_nonblank:
  assumes "cite_loop u evs seen cs = Inr xs" "spaces_fold u" "x \<in> set xs"
  shows "strip (dc_quote x) \<noteq> []"
  using assms
proof (induction u evs seen cs arbitrary: xs rule: cite_loop.induct)
  case (2 u evs seen c cs)
  obtain e where e: "find (\<lambda>e. ev_chunk_id e = dc_chunk_id c) evs = Some e"
    and nb: "strip (dc_quote c) \<noteq> []"
    using "2.prems"(1) by (auto split: option.splits if_splits)
  obtain q where q: "repair_quote u (dc_quote c) (ev_content e) = Inr q"
    using "2.prems"(1) e nb by (auto simp: result_simps)
  have "strip q \<noteq> []"
  proof
    assume "strip q = []"
    then have "list_all is_space q" by (simp add: strip_Nil_iff)
    with repair_quote_ok(3) [OF q] have "list_all is_space (dc_quote c)"
      using "2.prems"(2) by (induction rule: list_all2_induct) (auto simp: spaces_fold_def)
    with nb show False by (simp add: strip_Nil_iff)
  qed
  show ?case
  proof (cases "dc_chunk_id c \<in> set seen")
    case True
    then show ?thesis using "2.IH"(1) [OF e nb True, of xs] "2.prems" e nb q by simp
  next
    case False
    then obtain ys where ys: "cite_loop u evs (dc_chunk_id c # seen) cs = Inr ys"
      and xs: "xs = \<lparr>dc_chunk_id = dc_chunk_id c, dc_quote = q\<rparr> # ys"
      using "2.prems"(1) e nb q by (auto simp: result_simps make_citation_def split: if_splits)
    show ?thesis
      using "2.IH"(2) [OF e nb False ys "2.prems"(2)] "2.prems"(3) xs \<open>strip q \<noteq> []\<close> by auto
  qed
qed simp

lemma consistent_with_citations:
  assumes "consistent d" "cite_loop u evs [] (td_citations d) = Inr cs"
  shows "consistent (with_citations cs d)"
proof (cases "td_intervention d")
  case None
  have "card (set cs) \<le> card (dc_chunk_id ` set (td_citations d))"
  proof -
    have "inj_on dc_chunk_id (set cs)" using cite_loop_sound [OF assms(2)] by (simp add: distinct_map)
    then have "card (set cs) = card (dc_chunk_id ` set cs)" by (simp add: card_image)
    also have "dc_chunk_id ` set cs = dc_chunk_id ` set (td_citations d)"
      using cite_loop_sound [OF assms(2)] by simp
    finally show ?thesis by simp
  qed
  also have "\<dots> \<le> length (td_citations d)"
    by (metis card_length set_map length_map)
  finally have "length cs \<le> length (td_citations d)"
    using distinct_card [OF distinct_mapI [of dc_chunk_id cs]] cite_loop_sound [OF assms(2)] by simp
  then show ?thesis
    using assms(1) None cite_loop_sound [OF assms(2)]
    by (auto simp: consistent_def draft_ok_def with_citations_def)
next
  case (Some ti)
  note keep = structured_keeps_ids [OF assms(1) Some assms(2)]
  have v: "validate_intervention ti = Inr ti" and f: "derived_fields d ti"
    using assms(1) Some by (auto simp: consistent_def draft_ok_def)
  show ?thesis
    using assms(1) Some keep f cite_loop_sound [OF assms(2)] validate_intervention_citations [OF v]
    by (auto simp: consistent_def draft_ok_def with_citations_def derived_fields_def comp_def)
qed

section \<open>The validator as a port\<close>

text \<open>What the runtime relies on when it stores a validated draft.\<close>

locale response_validator =
  fixes validate :: "tutor_draft \<Rightarrow> tutor_request \<Rightarrow> (exn, tutor_draft) result"
  assumes validated: "validate d req = Inr d' \<Longrightarrow>
      consistent d' \<and> (d' = abstention \<or> only_clarifies d' \<or> answers_from req d')"
    and fails_closed: "validate d req = Inl e \<Longrightarrow>
      e \<in> {RAGFailure ''MODEL_OUTPUT_INVALID'', RAGFailure ''RETRIEVAL_SCOPE_INVALID''}"
begin

lemma stored_citations:
  assumes "validate d req = Inr d'"
  shows "distinct (map dc_chunk_id (td_citations d'))"
    "\<And>c. c \<in> set (td_citations d') \<Longrightarrow> cites (tr_evidence req) c"
    "td_grounded d' \<longleftrightarrow> td_citations d' \<noteq> []"
  using validated [OF assms] by (auto simp: abstention_def only_clarifies_def answers_from_def)

lemma without_evidence:
  assumes "validate d req = Inr d'" "tr_evidence req = []"
  shows "d' = abstention \<or> only_clarifies d'"
proof -
  have "\<not> answers_from req d'"
  proof
    assume a: "answers_from req d'"
    then obtain c where "c \<in> set (td_citations d')" by (cases "td_citations d'") (auto simp: answers_from_def)
    with a show False using assms(2) by (auto simp: answers_from_def cites_def)
  qed
  then show ?thesis using validated [OF assms(1)] by blast
qed

end

interpretation evidence_validator: response_validator "validate_response u" for u
proof unfold_locales
  fix d req d'
  assume a: "validate_response u d req = Inr d'"
  then show "consistent d' \<and> (d' = abstention \<or> only_clarifies d' \<or> answers_from req d')"
  proof (cases rule: validate_response_cases)
    case (clarify ti)
    then show ?thesis using clarify_only_clarifies by simp
  next
    case evidence
    from evidence(3) [symmetric] evidence(1) show ?thesis
    proof (cases rule: validate_evidence_cases)
      case (answer cs)
      then show ?thesis
        using answer_answers_from consistent_with_citations [OF evidence(1)] by simp
    qed (auto simp: consistent_abstention)
  qed simp
next
  fix d req e
  assume a: "validate_response u d req = Inl e"
  then show "e \<in> {RAGFailure ''MODEL_OUTPUT_INVALID'', RAGFailure ''RETRIEVAL_SCOPE_INVALID''}"
  proof (cases rule: validate_response_cases)
    case evidence
    from evidence(3) [symmetric] evidence(1) show ?thesis
      by (cases rule: validate_evidence_cases) (auto simp: invalid_output_def)
  qed (auto simp: invalid_output_def)
qed


section \<open>Correctness\<close>

definition sample_scope :: retrieval_scope where
  "sample_scope = \<lparr>rs_course_id = 3, rs_corpus_version_id = 8, rs_principal_user_id = 1,
     rs_conversation_id = 20, rs_message_id = 21, rs_correlation_id = py ''r''\<rparr>"

definition sample_evidence :: evidence where
  "sample_evidence = \<lparr>ev_chunk_id = 7, ev_course_id = 3, ev_corpus_version_id = 8,
     ev_document_version_id = 4, ev_document_title = py ''t'', ev_document_sha256 = py ''d'',
     ev_page_start = 1, ev_page_end = 1, ev_fragment = py ''chunk-0'',
     ev_content = py ''see Ten Letters'', ev_content_hash = py ''h''\<rparr>"

definition sample_tutor_request :: tutor_request where
  "sample_tutor_request = \<lparr>tr_scope = sample_scope, tr_question = py ''q'', tr_evidence = [sample_evidence],
     tr_history = [], tr_turn_kind = Question_turn, tr_turn_intent = None,
     tr_retrieval_query = None, tr_needs_antecedent = False\<rparr>"

definition sample_draft :: "pystr \<Rightarrow> tutor_draft" where
  "sample_draft q = \<lparr>td_mode = Hint_mode, td_answer = py ''look'', td_citations =
     [\<lparr>dc_chunk_id = 7, dc_quote = q\<rparr>], td_grounded = True, td_intervention = None\<rparr>"

lemma sample_draft_repaired:
  "validate_response ascii_db (sample_draft (py ''ten letters'')) sample_tutor_request =
     Inr (sample_draft (py ''Ten Letters''))"
proof -
  have "draft_ok (sample_draft (py ''ten letters''))"
    by (simp add: draft_ok_def sample_draft_def len_between_def)
  then have rv: "revalidate (sample_draft (py ''ten letters'')) = Inr (sample_draft (py ''ten letters''))"
    by (simp add: revalidate_Inr)
  have "repair_quote ascii_db (py ''ten letters'') (py ''see Ten Letters'') = Inr (py ''Ten Letters'')"
    by (simp add: repair_quote_def py_def sublist_code finditer.simps matches_at_def fold_eq_def
        ascii_lower_def slice_def ascii_db_def)
  then show ?thesis
    using rv
    by (simp add: validate_response_def validate_evidence_def sample_draft_def sample_tutor_request_def
        sample_scope_def sample_evidence_def in_scope_def make_citation_def len_between_def
        strip_Nil_iff is_space_def py_def)
qed

text \<open>C17: a validated draft is the fixed abstention, one uncited clarifying question, or an answer
  from the evidence of its own request: that evidence lies in the captured course and corpus
  without repetition, the answer is grounded and not blank, and it has citations, one per chunk,
  whose quotes are verbatim parts of that chunk. Its stored fields are bounded and, for a
  structured draft, those the validated intervention implies.\<close>

theorem validator_authorizes:
  assumes "validate_response u d req = Inr d'"
  shows "consistent d' \<and> (d' = abstention \<or> only_clarifies d' \<or> answers_from req d')"
  using evidence_validator.validated [OF assms] .

theorem validator_authorizes_witness:
  "answers_from sample_tutor_request (sample_draft (py ''Ten Letters''))"
  using validator_authorizes [OF sample_draft_repaired]
  by (auto simp: sample_draft_def abstention_def only_clarifies_def)

text \<open>Whatever the model wrote, the validator answers with a draft or with one of its two failure
  codes; no validation error or missing key escapes it.\<close>

lemma validator_fails_closed:
  "(\<exists>d'. validate_response u d req = Inr d') \<or>
   validate_response u d req = Inl (RAGFailure ''MODEL_OUTPUT_INVALID'') \<or>
   validate_response u d req = Inl (RAGFailure ''RETRIEVAL_SCOPE_INVALID'')"
  using evidence_validator.fails_closed [of u d req] by (cases "validate_response u d req") auto

text \<open>Validation is idempotent, if case folding tells spaces from other characters: what it
  returns, repaired quotes included, passes it unchanged.\<close>

lemma validator_idempotent:
  assumes "spaces_fold u" "validate_response u d req = Inr d'"
  shows "validate_response u d' req = Inr d'"
  using assms(2)
proof (cases rule: validate_response_cases)
  case (clarify ti)
  then show ?thesis using assms(2) by simp
next
  case evidence
  from evidence(3) [symmetric] evidence(1) show ?thesis
  proof (cases rule: validate_evidence_cases)
    case abstain
    then have "d' = abstention" by simp
    have "revalidate abstention = Inr abstention"
      using consistent_abstention by (simp add: revalidate_Inr consistent_def)
    moreover have "validate_evidence u abstention req = Inr abstention" "td_intervention abstention = None"
      using abstain(3) by (simp_all add: validate_evidence_def abstention_def)
    ultimately show ?thesis using \<open>d' = abstention\<close> by (simp add: validate_response_def)
  next
    case (answer cs)
    then have d': "d' = with_citations cs d" by simp
    note sound = cite_loop_sound [OF answer(1)]
    have ids: "cite_loop u (tr_evidence req) [] cs = Inr cs"
      by (rule cite_loop_id)
        (use sound cite_loop_nonblank [OF answer(1) assms(1)] answer(2) in
          \<open>auto simp: answerable_def in_scope_def\<close>)
    have cons: "consistent d'" unfolding d' by (rule consistent_with_citations [OF evidence(1) answer(1)])
    have able: "answerable req d'"
      using answer_answers_from [OF answer(1,2)] answer(2) d'
      by (simp add: answerable_def answers_from_def with_citations_def)
    have same: "with_citations cs d' = d'" by (simp add: d' with_citations_def option.map_comp comp_def)
    have "validate_evidence u d' req = Inr d'"
      using validate_evidence_answer [OF able cons, of u cs] ids same by (simp add: d' with_citations_def)
    moreover have "ti_situation ti \<noteq> Ambiguous" if "td_intervention d' = Some ti" for ti
      using that evidence(2) d' by (auto simp: with_citations_def)
    ultimately show ?thesis
      by (cases rule: validate_response_cases [of u d' req, OF refl]) (use cons in auto)
  qed simp
qed simp

lemma spaces_fold_ascii: "spaces_fold ascii_db"
  by (auto simp: spaces_fold_def fold_eq_def ascii_db_def ascii_lower_def is_space_def split: if_splits)

end
