(* ===== verification/Conversations.thy ===== *)
theory Conversations
  imports Courses Rag
begin

text \<open>
  \<^verbatim>\<open>conversations.py\<close>: conversations and their messages. A message is accepted as pending, at
  most one per conversation, and becomes completed or failed once. Each operation is one
  transaction; identifiers drawn with \<open>uuid4\<close>, the start of the transaction and the database
  clock are arguments. Log lines are not modelled.
\<close>

section \<open>Detecting a follow-up\<close>

text \<open>\<open>s.split()\<close>: the maximal runs of characters that are not spaces.\<close>

function py_split :: "pystr \<Rightarrow> pystr list" where
  "py_split s =
     (let t = dropWhile is_space s in
      if t = [] then []
      else takeWhile (\<lambda>c. \<not> is_space c) t # py_split (dropWhile (\<lambda>c. \<not> is_space c) t))"
  by pat_completeness auto
termination
proof (relation "measure length")
  fix s t :: pystr
  assume "t = dropWhile is_space s" "t \<noteq> []"
  then have "\<not> is_space (hd t)" using hd_dropWhile [of is_space s] by simp
  with \<open>t \<noteq> []\<close> have "length (dropWhile (\<lambda>c. \<not> is_space c) t) < length t"
    by (cases t) (simp_all add: le_imp_less_Suc length_dropWhile_le)
  also have "length t \<le> length s" using \<open>t = dropWhile is_space s\<close> by (simp add: length_dropWhile_le)
  finally show "(dropWhile (\<lambda>c. \<not> is_space c) t, s) \<in> measure length" by simp
qed simp

declare py_split.simps [simp del]

definition phrase_of :: "unicode_db \<Rightarrow> pystr \<Rightarrow> pystr" where
  "phrase_of u text =
     py_join (py '' '') (py_split (filter (\<lambda>c. is_word u c \<or> is_space c) (lower u (strip text))))"

definition dont_know_phrases :: "pystr list" where
  "dont_know_phrases =
     [py ''no se'', py ''no s'' @ [233], py ''no entiendo'', py ''no comprendo'', py ''no tengo idea'',
      py ''no me sale'', py ''ayuda'', py ''estoy bloqueado'']"

definition hint_phrases :: "pystr list" where
  "hint_phrases =
     [py ''otra pista'', py ''dame una pista'', py ''dame otra pista'', py ''mas pistas'',
      py ''m'' @ [225] @ py ''s pistas'', py ''otra ayuda'', py ''siguiente pista'']"

definition explain_phrases :: "pystr list" where
  "explain_phrases =
     [py ''explicame'', py ''expl'' @ [237] @ py ''came'', py ''explicamelo'',
      py ''expl'' @ [237] @ py ''camelo'', py ''explicame eso'', py ''expl'' @ [237] @ py ''came eso'',
      py ''no me queda claro'', py ''puedes explicar'', py ''puedes explicarlo'']"

definition detect_intent :: "unicode_db \<Rightarrow> pystr \<Rightarrow> turn_kind \<times> turn_intent option" where
  "detect_intent u text =
     (let phrase = phrase_of u text in
      if phrase \<in> set dont_know_phrases then (Followup_turn, Some Intent_dont_know)
      else if phrase \<in> set hint_phrases then (Followup_turn, Some Intent_another_hint)
      else if phrase \<in> set explain_phrases then (Followup_turn, Some Intent_explain)
      else (Question_turn, None))"

section \<open>Requests and views\<close>

record question_request =
  qr_question :: pystr
  qr_kind :: turn_kind
  qr_intent :: "turn_intent option"
  qr_parent_message_id :: "uuid option"

definition make_question_request ::
  "pystr \<Rightarrow> turn_kind \<Rightarrow> turn_intent option \<Rightarrow> uuid option \<Rightarrow> (exn, question_request) result" where
  "make_question_request question kind intent parent =
     (if \<not> len_between 1 4000 question then Inl (ValueError ''question length'')
      else if strip question = [] then Inl (ValueError ''question must not be blank'')
      else if kind = Action_turn \<and> parent = None
        then Inl (ValueError ''parent_message_id is required for action turns'')
      else if kind \<noteq> Action_turn \<and> parent \<noteq> None
        then Inl (ValueError ''parent_message_id is only allowed for action turns'')
      else Inr \<lparr>qr_question = question, qr_kind = kind, qr_intent = intent, qr_parent_message_id = parent\<rparr>)"

record action_request =
  ar_action :: turn_intent
  ar_parent_message_id :: uuid
  ar_question :: "pystr option"

definition make_action_request ::
  "turn_intent \<Rightarrow> uuid \<Rightarrow> pystr option \<Rightarrow> (exn, action_request) result" where
  "make_action_request act parent question =
     (if act \<notin> {Intent_another_hint, Intent_explain} then Inl (ValueError ''action'')
      else if (case question of None \<Rightarrow> False | Some q \<Rightarrow> length q > 4000)
        then Inl (ValueError ''question length'')
      else Inr \<lparr>ar_action = act, ar_parent_message_id = parent, ar_question = question\<rparr>)"

record citation_view =
  vi_chunk_id :: uuid
  vi_document_version_id :: uuid
  vi_document_title :: pystr
  vi_document_sha256 :: pystr
  vi_page :: int
  vi_page_end :: int
  vi_fragment :: pystr
  vi_content_hash :: pystr
  vi_quote :: pystr

record answer_view =
  av_mode :: mode
  av_answer :: pystr
  av_grounded :: bool
  av_citations :: "citation_view list"
  av_intervention :: "tutor_intervention option"

record message_view =
  mv_id :: uuid
  mv_course_id :: uuid
  mv_conversation_id :: uuid
  mv_corpus_version_id :: "uuid option"
  mv_sequence :: int
  mv_question :: pystr
  mv_state :: message_state
  mv_response :: "answer_view option"
  mv_failure_code :: "string option"
  mv_failure_message :: "pystr option"
  mv_created_at :: time
  mv_completed_at :: "time option"
  mv_kind :: turn_kind
  mv_intent :: "turn_intent option"
  mv_parent_message_id :: "uuid option"

record conversation_view =
  nw_id :: uuid
  nw_course_id :: uuid
  nw_created_at :: time

record history_view = conversation_view +
  hv_messages :: "message_view list"
  hv_next_after_sequence :: "int option"

record accepted_message =
  am_message :: message_view
  am_created :: bool
  am_owner_user_id :: uuid
  am_correlation_id :: pystr

section \<open>Access\<close>

definition conversation_key :: "pystr option \<Rightarrow> (exn, pystr) result" where
  "conversation_key value =
     (case value of None \<Rightarrow> Inl (APIError 400 ''idempotency_key_required'')
      | Some v \<Rightarrow> if strip v = [] \<or> length (strip v) > 255
          then Inl (APIError 400 ''idempotency_key_required'') else Inr (strip v))"

definition conversation_not_found :: exn where
  "conversation_not_found = APIError 404 ''conversation_not_found''"

definition has_membership :: "uuid \<Rightarrow> uuid \<Rightarrow> db \<Rightarrow> bool" where
  "has_membership course_id user_id s \<longleftrightarrow>
     exists_where (\<lambda>m. cm_course_id m = course_id \<and> cm_user_id m = user_id) (t_memberships s)"

definition member :: "authenticated_identity \<Rightarrow> uuid \<Rightarrow> db \<Rightarrow> (exn, uuid) result" where
  "member ident course_id s =
     (case find (\<lambda>x. has_identity ident x \<and> has_membership course_id (us_id x) s) (t_users s) of
        None \<Rightarrow> Inl conversation_not_found | Some x \<Rightarrow> Inr (us_id x))"

definition owner_of :: "authenticated_identity \<Rightarrow> db \<Rightarrow> conversation \<Rightarrow> bool" where
  "owner_of ident s c \<longleftrightarrow>
     exists_where (\<lambda>x. us_id x = cn_owner_user_id c \<and> has_identity ident x) (t_users s) \<and>
     has_membership (cn_course_id c) (cn_owner_user_id c) s"

definition owned :: "authenticated_identity \<Rightarrow> uuid \<Rightarrow> db \<Rightarrow> (exn, conversation) result" where
  "owned ident conversation_id s =
     (case find (\<lambda>c. cn_id c = conversation_id \<and> owner_of ident s c) (t_conversations s) of
        None \<Rightarrow> Inl conversation_not_found | Some c \<Rightarrow> Inr c)"

section \<open>Reading a message\<close>

definition FAILURE_MESSAGE :: pystr where
  "FAILURE_MESSAGE = py ''No se pudo completar la respuesta. La pregunta est'' @ [225] @ py '' guardada.''"

text \<open>The citations of a message joined with the evidence they cite, by ordinal.\<close>

definition citation_rows :: "uuid \<Rightarrow> db \<Rightarrow> (citation \<times> retrieved_evidence) list" where
  "citation_rows mid s =
     sort_key (\<lambda>(c, e). ct_ordinal c)
       [(c, e). c \<leftarrow> t_citations s, e \<leftarrow> t_evidence s,
          re_message_id e = ct_message_id c \<and> re_chunk_id e = ct_chunk_id c \<and>
          re_course_id e = ct_course_id c \<and> ct_message_id c = mid]"

definition citation_view_of :: "citation \<times> retrieved_evidence \<Rightarrow> citation_view" where
  "citation_view_of = (\<lambda>(c, e).
     \<lparr>vi_chunk_id = re_chunk_id e, vi_document_version_id = re_document_version_id e,
      vi_document_title = re_document_title e, vi_document_sha256 = re_document_sha256 e,
      vi_page = re_page_start e, vi_page_end = re_page_end e, vi_fragment = re_fragment e,
      vi_content_hash = re_content_hash e, vi_quote = ct_quote c\<rparr>)"

text \<open>\<open>AnswerView(...)\<close> refuses a completed row without mode, answer or grounding.\<close>

definition answer_view_of :: "message \<Rightarrow> db \<Rightarrow> (exn, answer_view option) result" where
  "answer_view_of m s =
     (if ms_state m \<noteq> MSG_COMPLETED then Inr None
      else case (ms_mode m, ms_answer m, ms_grounded m) of
        (Some mo, Some an, Some g) \<Rightarrow>
          Inr (Some \<lparr>av_mode = mo, av_answer = an, av_grounded = g,
            av_citations = map citation_view_of (citation_rows (ms_id m) s),
            av_intervention = ms_intervention m\<rparr>)
      | _ \<Rightarrow> Inl (ValueError ''validation error''))"

definition message_view_of :: "db \<Rightarrow> message \<Rightarrow> (exn, message_view) result" where
  "message_view_of s m =
     bindE (answer_view_of m s) (\<lambda>response.
       Inr \<lparr>mv_id = ms_id m, mv_course_id = ms_course_id m, mv_conversation_id = ms_conversation_id m,
         mv_corpus_version_id = ms_corpus_version_id m, mv_sequence = ms_sequence m,
         mv_question = ms_question m, mv_state = ms_state m, mv_response = response,
         mv_failure_code = ms_failure_code m,
         mv_failure_message = (if ms_failure_code m \<in> {None, Some []} then None else Some FAILURE_MESSAGE),
         mv_created_at = ms_created_at m, mv_completed_at = ms_completed_at m, mv_kind = ms_kind m,
         mv_intent = ms_intent m, mv_parent_message_id = ms_parent_message_id m\<rparr>)"

section \<open>Expiry\<close>

definition failed_with :: "string \<Rightarrow> time \<Rightarrow> message \<Rightarrow> message" where
  "failed_with code now m = m\<lparr>ms_state := MSG_FAILED, ms_failure_code := Some code,
     ms_completed_at := Some now\<rparr>"

definition expired :: "uuid option \<Rightarrow> time \<Rightarrow> message \<Rightarrow> bool" where
  "expired cid now m \<longleftrightarrow> ms_state m = MSG_PENDING \<and> ms_deadline_at m \<le> now \<and>
     (case cid of None \<Rightarrow> True | Some c \<Rightarrow> ms_conversation_id m = c)"

definition expire_messages :: "uuid option \<Rightarrow> time \<Rightarrow> db \<Rightarrow> db" where
  "expire_messages cid now s =
     s\<lparr>t_messages := update_where (expired cid now) (failed_with ''PROCESSING_INTERRUPTED'' now) (t_messages s)\<rparr>"


section \<open>Creating a conversation\<close>

definition create_conversation ::
  "authenticated_identity \<Rightarrow> uuid \<Rightarrow> pystr option \<Rightarrow> uuid \<Rightarrow> time \<Rightarrow> db \<Rightarrow>
   (exn, conversation_view \<times> db) result" where
  "create_conversation ident course_id key new_id start s =
     bindE (conversation_key key) (\<lambda>k.
     bindE (member ident course_id s) (\<lambda>user_id.
       let same = (\<lambda>c. cn_course_id c = course_id \<and> cn_owner_user_id c = user_id \<and> cn_idempotency_key c = k);
           new = \<lparr>cn_id = new_id, cn_course_id = course_id, cn_owner_user_id = user_id,
                  cn_idempotency_key = k, cn_next_sequence = 1, cn_created_at = start\<rparr>;
           s1 = (if exists_where same (t_conversations s) then s
                 else s\<lparr>t_conversations := t_conversations s @ [new]\<rparr>)
       in if \<not> exists_where same (t_conversations s) \<and> exists_where (\<lambda>c. cn_id c = new_id) (t_conversations s)
          then Inl IntegrityError
          else bindE (one (filter same (t_conversations s1))) (\<lambda>c.
            Inr (\<lparr>nw_id = cn_id c, nw_course_id = cn_course_id c, nw_created_at = cn_created_at c\<rparr>, s1))))"

section \<open>Accepting a question\<close>

record conversation_config =
  cc_model_version :: pystr
  cc_retrieval_version :: pystr
  cc_message_timeout_seconds :: int

text \<open>What an acceptance draws: the new identifier, the clock of the expiry, the clock of the
  deadline and the start of the transaction.\<close>

record accept_env =
  ac_message :: uuid
  ac_expiry :: time
  ac_now :: time
  ac_start :: time

definition PROMPT_VERSION :: pystr where
  "PROMPT_VERSION = py ''socratic-tutor-v4''"

definition or_else :: "pystr option \<Rightarrow> pystr \<Rightarrow> pystr" where
  "or_else a b = (if a \<in> {None, Some []} then b else the a)"

definition active_corpus :: "uuid \<Rightarrow> db \<Rightarrow> uuid option" where
  "active_corpus course_id s =
     map_option cv_id (find (\<lambda>v. cv_state v = CV_READY \<and>
       exists_where (\<lambda>c. co_active_corpus_version_id c = Some (cv_id v) \<and> co_id c = cv_course_id v \<and>
                         co_id c = course_id) (t_courses s)) (t_corpora s))"

definition antecedent :: "conversation \<Rightarrow> db \<Rightarrow> message option" where
  "antecedent c s =
     (case sort_key (\<lambda>m. - ms_sequence m) (filter (\<lambda>m. ms_conversation_id m = cn_id c \<and>
             ms_sequence m < cn_next_sequence c \<and> ms_state m = MSG_COMPLETED) (t_messages s)) of
        [] \<Rightarrow> None | m # _ \<Rightarrow> Some m)"

definition antecedent_query :: "conversation \<Rightarrow> db \<Rightarrow> pystr option \<times> pystr option" where
  "antecedent_query c s =
     (case antecedent c s of
        None \<Rightarrow> (None, None)
      | Some m \<Rightarrow> if ms_mode m \<in> {Some Abstain, Some Clarify} then (None, None)
                  else (Some (or_else (ms_retrieval_query m) (ms_question m)), Some (py ''antecedent-v1'')))"

text \<open>Kind, intent, retrieval query and its version: the three branches of \<open>accept\<close>.\<close>

definition resolve_turn ::
  "unicode_db \<Rightarrow> conversation \<Rightarrow> question_request \<Rightarrow> db \<Rightarrow>
   (exn, turn_kind \<times> turn_intent option \<times> pystr option \<times> pystr option) result" where
  "resolve_turn u c q s =
     (case qr_kind q of
        Action_turn \<Rightarrow>
          (case qr_parent_message_id q of
             None \<Rightarrow> Inl (APIError 400 ''invalid_parent_message'')
           | Some p \<Rightarrow>
               (case find (\<lambda>m. ms_id m = p \<and> ms_conversation_id m = cn_id c \<and>
                         ms_course_id m = cn_course_id c \<and> ms_state m = MSG_COMPLETED) (t_messages s) of
                  None \<Rightarrow> Inl (APIError 400 ''invalid_parent_message'')
                | Some m \<Rightarrow> Inr (Action_turn, qr_intent q,
                    Some (or_else (ms_retrieval_query m) (ms_question m)), Some (py ''antecedent-v1''))))
      | Followup_turn \<Rightarrow> Inr (Followup_turn, qr_intent q, antecedent_query c s)
      | Question_turn \<Rightarrow>
          (case detect_intent u (qr_question q) of
             (Followup_turn, intent) \<Rightarrow> Inr (Followup_turn, intent, antecedent_query c s)
           | _ \<Rightarrow> Inr (Question_turn, qr_intent q, None, None)))"

definition new_message ::
  "conversation_config \<Rightarrow> conversation \<Rightarrow> pystr \<Rightarrow> pystr \<Rightarrow> uuid option \<Rightarrow> question_request \<Rightarrow>
   turn_kind \<times> turn_intent option \<times> pystr option \<times> pystr option \<Rightarrow> accept_env \<Rightarrow> message" where
  "new_message cfg c key correlation_id corpus q turn env = (case turn of (kind, intent, query, version) \<Rightarrow>
     \<lparr>ms_id = ac_message env, ms_course_id = cn_course_id c, ms_conversation_id = cn_id c,
      ms_corpus_version_id = corpus, ms_sequence = cn_next_sequence c, ms_idempotency_key = key,
      ms_question = qr_question q, ms_state = MSG_PENDING, ms_answer = None, ms_mode = None,
      ms_grounded = None, ms_failure_code = None, ms_correlation_id = correlation_id,
      ms_prompt_version = PROMPT_VERSION, ms_retrieval_config_version = cc_retrieval_version cfg,
      ms_model_version = cc_model_version cfg, ms_kind = kind, ms_intent = intent,
      ms_parent_message_id = qr_parent_message_id q, ms_retrieval_query = query,
      ms_query_version = version, ms_intervention = None, ms_contract_version = None,
      ms_situation = None, ms_help_level = None, ms_created_at = ac_start env,
      ms_deadline_at = ac_now env + seconds (cc_message_timeout_seconds cfg), ms_completed_at = None\<rparr>)"

text \<open>The constraints an inserted message must meet; \<open>btrim\<close> removes spaces only.\<close>

definition btrim :: "pystr \<Rightarrow> pystr" where
  "btrim s = rev (dropWhile (\<lambda>c. c = 32) (rev (dropWhile (\<lambda>c. c = 32) s)))"

definition message_insertable :: "message \<Rightarrow> db \<Rightarrow> bool" where
  "message_insertable m s \<longleftrightarrow>
     \<not> exists_where (\<lambda>r. ms_id r = ms_id m) (t_messages s) \<and>
     \<not> exists_where (\<lambda>r. ms_conversation_id r = ms_conversation_id m \<and>
         (ms_idempotency_key r = ms_idempotency_key m \<or> ms_sequence r = ms_sequence m \<or>
          ms_state r = MSG_PENDING)) (t_messages s) \<and>
     (case ms_parent_message_id m of None \<Rightarrow> True
      | Some p \<Rightarrow> p = ms_id m \<or>
          exists_where (\<lambda>r. ms_id r = p \<and> ms_conversation_id r = ms_conversation_id m) (t_messages s)) \<and>
     ck_parent m \<and> ck_sequence m \<and> ck_terminal_payload m \<and> len_between 1 4000 (btrim (ms_question m))"

definition accept ::
  "unicode_db \<Rightarrow> conversation_config \<Rightarrow> authenticated_identity \<Rightarrow> uuid \<Rightarrow> question_request \<Rightarrow> pystr option \<Rightarrow>
   pystr \<Rightarrow> accept_env \<Rightarrow> db \<Rightarrow> (exn, accepted_message \<times> db) result" where
  "accept u cfg ident conversation_id q key correlation_id env s =
     bindE (conversation_key key) (\<lambda>k.
     bindE (owned ident conversation_id s) (\<lambda>c.
       let s1 = expire_messages (Some conversation_id) (ac_expiry env) s in
       case find (\<lambda>m. ms_conversation_id m = conversation_id \<and> ms_idempotency_key m = k) (t_messages s1) of
         Some existing \<Rightarrow>
           if ms_question existing \<noteq> qr_question q then Inl (APIError 409 ''idempotency_key_reused'')
           else bindE (message_view_of s1 existing) (\<lambda>v.
             Inr (\<lparr>am_message = v, am_created = False, am_owner_user_id = cn_owner_user_id c,
                   am_correlation_id = ms_correlation_id existing\<rparr>, s1))
       | None \<Rightarrow>
           if exists_where (\<lambda>m. ms_conversation_id m = conversation_id \<and> ms_state m = MSG_PENDING) (t_messages s1)
           then Inl (APIError 409 ''conversation_busy'')
           else bindE (resolve_turn u c q s1) (\<lambda>turn.
             let m = new_message cfg c k correlation_id (active_corpus (cn_course_id c) s1) q turn env;
                 s2 = s1\<lparr>t_conversations := update_where (\<lambda>r. cn_id r = cn_id c)
                          (\<lambda>r. r\<lparr>cn_next_sequence := cn_next_sequence r + 1\<rparr>) (t_conversations s1),
                         t_messages := t_messages s1 @ [m]\<rparr>
             in if \<not> message_insertable m s1 then Inl IntegrityError
                else bindE (message_view_of s2 m) (\<lambda>v.
                  Inr (\<lparr>am_message = v, am_created = True, am_owner_user_id = cn_owner_user_id c,
                        am_correlation_id = correlation_id\<rparr>, s2)))))"


section \<open>Reading\<close>

text \<open>\<open>messages[limit - 1]\<close> of a Python list: index -1 is the last element.\<close>

definition history ::
  "authenticated_identity \<Rightarrow> uuid \<Rightarrow> int \<Rightarrow> nat \<Rightarrow> time \<Rightarrow> db \<Rightarrow> (exn, history_view \<times> db) result" where
  "history ident conversation_id after_sequence limit now s =
     bindE (owned ident conversation_id s) (\<lambda>c.
       let s1 = expire_messages (Some conversation_id) now s;
           messages = take (limit + 1) (sort_key ms_sequence (filter (\<lambda>m.
             ms_conversation_id m = conversation_id \<and> ms_sequence m > after_sequence) (t_messages s1)))
       in bindE (mapE (message_view_of s1) (take limit messages)) (\<lambda>views.
            Inr (\<lparr>nw_id = cn_id c, nw_course_id = cn_course_id c, nw_created_at = cn_created_at c,
                  hv_messages = views,
                  hv_next_after_sequence = (if length messages > limit
                    then Some (ms_sequence (if limit = 0 then last messages else messages ! (limit - 1)))
                    else None)\<rparr>, s1)))"

definition read_message ::
  "authenticated_identity \<Rightarrow> uuid \<Rightarrow> uuid \<Rightarrow> time \<Rightarrow> db \<Rightarrow> (exn, message_view \<times> db) result" where
  "read_message ident conversation_id message_id now s =
     bindE (owned ident conversation_id s) (\<lambda>_.
       let s1 = expire_messages (Some conversation_id) now s in
       case find (\<lambda>m. ms_id m = message_id \<and> ms_conversation_id m = conversation_id) (t_messages s1) of
         None \<Rightarrow> Inl conversation_not_found
       | Some m \<Rightarrow> bindE (message_view_of s1 m) (\<lambda>v. Inr (v, s1)))"

section \<open>The request to the tutor\<close>

text \<open>The loop over the previous messages, newest first, until the budget is exceeded.\<close>

fun history_turns :: "int \<Rightarrow> message list \<Rightarrow> history_turn list" where
  "history_turns remaining [] = []"
| "history_turns remaining (m # ms) =
     (let answer = (case ms_answer m of None \<Rightarrow> [] | Some a \<Rightarrow> a);
          sz = int (length (ms_question m)) + int (length answer)
      in if sz > remaining then []
         else \<lparr>ht_question = ms_question m, ht_answer = answer, ht_situation = ms_situation m,
               ht_help_level = (case ms_help_level m of None \<Rightarrow> 0 | Some l \<Rightarrow> l)\<rparr>
              # history_turns (remaining - sz) ms)"

definition previous_messages :: "message_view \<Rightarrow> db \<Rightarrow> message list" where
  "previous_messages v s =
     take 6 (sort_key (\<lambda>m. - ms_sequence m) (filter (\<lambda>m. ms_conversation_id m = mv_conversation_id v \<and>
       ms_sequence m < mv_sequence v \<and> ms_state m = MSG_COMPLETED) (t_messages s)))"

definition scope_of :: "accepted_message \<Rightarrow> uuid \<Rightarrow> retrieval_scope" where
  "scope_of a corpus =
     \<lparr>rs_course_id = mv_course_id (am_message a), rs_corpus_version_id = corpus,
      rs_principal_user_id = am_owner_user_id a, rs_conversation_id = mv_conversation_id (am_message a),
      rs_message_id = mv_id (am_message a), rs_correlation_id = am_correlation_id a\<rparr>"

definition tutor_request_of ::
  "accepted_message \<Rightarrow> evidence list \<Rightarrow> db \<Rightarrow> (exn, tutor_request \<times> db) result" where
  "tutor_request_of a evs s =
     (case mv_corpus_version_id (am_message a) of
        None \<Rightarrow> Inl (RAGFailure ''COURSE_CORPUS_NOT_READY'')
      | Some corpus \<Rightarrow>
          (case find (\<lambda>m. ms_id m = mv_id (am_message a)) (t_messages s) of
             None \<Rightarrow> Inl (RAGFailure ''PROCESSING_INTERRUPTED'')
           | Some m \<Rightarrow> Inr (\<lparr>tr_scope = scope_of a corpus, tr_question = mv_question (am_message a),
               tr_evidence = evs,
               tr_history = rev (history_turns 12000 (previous_messages (am_message a) s)),
               tr_turn_kind = ms_kind m, tr_turn_intent = ms_intent m,
               tr_retrieval_query = ms_retrieval_query m,
               tr_needs_antecedent = (ms_kind m = Followup_turn \<and> ms_retrieval_query m = None)\<rparr>, s)))"

section \<open>Recording the outcome\<close>

definition pending :: "uuid \<Rightarrow> time \<Rightarrow> db \<Rightarrow> (exn, message) result" where
  "pending message_id now s =
     (case find (\<lambda>m. ms_id m = message_id \<and> ms_state m = MSG_PENDING \<and> ms_deadline_at m > now) (t_messages s) of
        None \<Rightarrow> Inl (RAGFailure ''PROCESSING_INTERRUPTED'') | Some m \<Rightarrow> Inr m)"

text \<open>The stored chunk an item must agree with, and the row recorded for it.\<close>

definition stored_rows :: "message \<Rightarrow> uuid \<Rightarrow> db \<Rightarrow> (chunk \<times> document_version \<times> document) list" where
  "stored_rows m cid s =
     [(c, v, d). c \<leftarrow> t_chunks s, v \<leftarrow> t_versions s, d \<leftarrow> t_documents s,
        dv_id v = ch_document_version_id c \<and> dv_course_id v = ch_course_id c \<and>
        do_id d = dv_document_id v \<and> do_course_id d = ch_course_id c \<and>
        ch_id c = cid \<and> ch_course_id c = ms_course_id m \<and>
        Some (ch_corpus_version_id c) = ms_corpus_version_id m]"

definition agrees :: "evidence \<Rightarrow> chunk \<times> document_version \<times> document \<Rightarrow> bool" where
  "agrees i = (\<lambda>(c, v, d).
     ev_document_version_id i = dv_id v \<and> ev_document_title i = do_title d \<and>
     Some (ev_document_sha256 i) = dv_object_sha256 v \<and> ev_content i = ch_content c \<and>
     ev_content_hash i = ch_content_hash c \<and> ev_page_start i = ch_page_start c \<and>
     ev_page_end i = ch_page_end c \<and> ev_fragment i = py ''chunk-'' @ dec_int (ch_ordinal c))"

definition evidence_row :: "uuid \<Rightarrow> evidence \<Rightarrow> retrieved_evidence" where
  "evidence_row mid i = \<lparr>re_message_id = mid, re_chunk_id = ev_chunk_id i, re_course_id = ev_course_id i,
     re_corpus_version_id = ev_corpus_version_id i, re_document_version_id = ev_document_version_id i,
     re_document_title = ev_document_title i, re_document_sha256 = ev_document_sha256 i,
     re_page_start = ev_page_start i, re_page_end = ev_page_end i, re_fragment = ev_fragment i,
     re_content = ev_content i, re_content_hash = ev_content_hash i\<rparr>"

text \<open>A row added to the session is inserted by the flush before the next query, or by the
  commit.\<close>

definition flush_evidence :: "retrieved_evidence option \<Rightarrow> db \<Rightarrow> (exn, db) result" where
  "flush_evidence r s =
     (case r of None \<Rightarrow> Inr s
      | Some e \<Rightarrow>
          if exists_where (\<lambda>x. re_message_id x = re_message_id e \<and> re_chunk_id x = re_chunk_id e) (t_evidence s)
          then Inl IntegrityError else Inr (s\<lparr>t_evidence := t_evidence s @ [e]\<rparr>))"

fun evidence_loop ::
  "message \<Rightarrow> retrieved_evidence option \<Rightarrow> evidence list \<Rightarrow> db \<Rightarrow> (exn, unit \<times> db) result" where
  "evidence_loop m added [] s = bindE (flush_evidence added s) (\<lambda>s1. Inr ((), s1))"
| "evidence_loop m added (i # items) s =
     (if ev_course_id i \<noteq> ms_course_id m \<or> Some (ev_corpus_version_id i) \<noteq> ms_corpus_version_id m
      then Inl (RAGFailure ''RETRIEVAL_SCOPE_INVALID'')
      else bindE (flush_evidence added s) (\<lambda>s1.
           bindE (one_or_none (stored_rows m (ev_chunk_id i) s1)) (\<lambda>stored.
             case stored of
               None \<Rightarrow> Inl (RAGFailure ''RETRIEVAL_SCOPE_INVALID'')
             | Some row \<Rightarrow>
                 if \<not> agrees i row then Inl (RAGFailure ''RETRIEVAL_SCOPE_INVALID'')
                 else evidence_loop m (Some (evidence_row (ms_id m) i)) items s1)))"

definition save_evidence :: "uuid \<Rightarrow> evidence list \<Rightarrow> time \<Rightarrow> db \<Rightarrow> (exn, unit \<times> db) result" where
  "save_evidence message_id evs now s =
     bindE (pending message_id now s) (\<lambda>m.
       if length evs > 5 \<or> \<not> distinct (map ev_chunk_id evs)
       then Inl (RAGFailure ''RETRIEVAL_SCOPE_INVALID'')
       else evidence_loop m None evs s)"

text \<open>The rows of the draft's citations; \<open>fk_citations_evidence\<close> and the keys of the table decide
  whether they can be inserted.\<close>

definition citation_rows_of :: "message \<Rightarrow> draft_citation list \<Rightarrow> citation list" where
  "citation_rows_of m cs =
     map (\<lambda>(n, c). \<lparr>ct_message_id = ms_id m, ct_chunk_id = dc_chunk_id c, ct_course_id = ms_course_id m,
                    ct_ordinal = int n, ct_quote = dc_quote c\<rparr>) (enumerate 0 cs)"

definition citations_insertable :: "citation list \<Rightarrow> db \<Rightarrow> bool" where
  "citations_insertable rows s \<longleftrightarrow>
     distinct (map (\<lambda>c. (ct_message_id c, ct_chunk_id c)) (t_citations s @ rows)) \<and>
     distinct (map (\<lambda>c. (ct_message_id c, ct_ordinal c)) (t_citations s @ rows)) \<and>
     list_all (\<lambda>c. exists_where (\<lambda>e. re_course_id e = ct_course_id c \<and> re_message_id e = ct_message_id c \<and>
                                     re_chunk_id e = ct_chunk_id c) (t_evidence s)) rows"

definition completed_with :: "tutor_draft \<Rightarrow> time \<Rightarrow> message \<Rightarrow> message" where
  "completed_with d now m =
     (let m1 = m\<lparr>ms_answer := Some (td_answer d), ms_mode := Some (td_mode d), ms_grounded := Some (td_grounded d)\<rparr>;
          m2 = (case td_intervention d of None \<Rightarrow> m1
            | Some ti \<Rightarrow> m1\<lparr>ms_intervention := Some ti, ms_contract_version := Some (ti_version ti),
                ms_situation := Some (ti_situation ti), ms_help_level := Some (help_level ti)\<rparr>)
      in m2\<lparr>ms_state := MSG_COMPLETED, ms_completed_at := Some now\<rparr>)"

definition complete :: "uuid \<Rightarrow> tutor_draft \<Rightarrow> time \<Rightarrow> time \<Rightarrow> db \<Rightarrow> (exn, unit \<times> db) result" where
  "complete message_id d now now' s =
     bindE (pending message_id now s) (\<lambda>m.
       let rows = citation_rows_of m (td_citations d) in
       if \<not> citations_insertable rows s then Inl IntegrityError
       else Inr ((), s\<lparr>t_citations := t_citations s @ rows,
              t_messages := update_where (\<lambda>r. ms_id r = ms_id m) (completed_with d now') (t_messages s)\<rparr>))"

definition fail_message :: "uuid \<Rightarrow> string \<Rightarrow> time \<Rightarrow> db \<Rightarrow> db" where
  "fail_message message_id code now s =
     s\<lparr>t_messages := update_where (\<lambda>m. ms_id m = message_id \<and> ms_state m = MSG_PENDING)
         (failed_with code now) (t_messages s)\<rparr>"

end
