(* ===== verification/Turns.thy ===== *)
theory Turns
  imports Conversations
begin

text \<open>
  The life of messages: the operations of \<^verbatim>\<open>conversations.py\<close> in any order keep the
  constraints of the schema, at most one pending message per conversation, gapless numbering
  below the conversation's next number, and never change a message that is completed or
  failed, nor its evidence and citations.
\<close>

section \<open>The fixed part of a message\<close>

definition fixed_part :: "message \<Rightarrow> message" where
  "fixed_part m = m\<lparr>ms_state := MSG_PENDING, ms_answer := None, ms_mode := None, ms_grounded := None,
     ms_failure_code := None, ms_intervention := None, ms_contract_version := None,
     ms_situation := None, ms_help_level := None, ms_completed_at := None\<rparr>"

lemma fixed_part_fields:
  assumes "fixed_part a = fixed_part b"
  shows "ms_id a = ms_id b" "ms_course_id a = ms_course_id b" "ms_conversation_id a = ms_conversation_id b"
    "ms_corpus_version_id a = ms_corpus_version_id b" "ms_sequence a = ms_sequence b"
    "ms_idempotency_key a = ms_idempotency_key b" "ms_question a = ms_question b" "ms_kind a = ms_kind b"
    "ms_parent_message_id a = ms_parent_message_id b" "ms_retrieval_query a = ms_retrieval_query b"
    "ms_deadline_at a = ms_deadline_at b" "ms_correlation_id a = ms_correlation_id b"
proof -
  have pick: "ms_id (fixed_part m) = ms_id m" "ms_course_id (fixed_part m) = ms_course_id m"
    "ms_conversation_id (fixed_part m) = ms_conversation_id m"
    "ms_corpus_version_id (fixed_part m) = ms_corpus_version_id m" "ms_sequence (fixed_part m) = ms_sequence m"
    "ms_idempotency_key (fixed_part m) = ms_idempotency_key m" "ms_question (fixed_part m) = ms_question m"
    "ms_kind (fixed_part m) = ms_kind m" "ms_parent_message_id (fixed_part m) = ms_parent_message_id m"
    "ms_retrieval_query (fixed_part m) = ms_retrieval_query m" "ms_deadline_at (fixed_part m) = ms_deadline_at m"
    "ms_correlation_id (fixed_part m) = ms_correlation_id m" for m
    by (simp_all add: fixed_part_def)
  show "ms_id a = ms_id b" "ms_course_id a = ms_course_id b" "ms_conversation_id a = ms_conversation_id b"
    "ms_corpus_version_id a = ms_corpus_version_id b" "ms_sequence a = ms_sequence b"
    "ms_idempotency_key a = ms_idempotency_key b" "ms_question a = ms_question b" "ms_kind a = ms_kind b"
    "ms_parent_message_id a = ms_parent_message_id b" "ms_retrieval_query a = ms_retrieval_query b"
    "ms_deadline_at a = ms_deadline_at b" "ms_correlation_id a = ms_correlation_id b"
    using pick [of a] pick [of b] assms by simp_all
qed

text \<open>A function that ends pending messages.\<close>

definition settles :: "(message \<Rightarrow> message) \<Rightarrow> bool" where
  "settles f \<longleftrightarrow> (\<forall>m. fixed_part (f m) = fixed_part m \<and>
     (ms_state m = MSG_PENDING \<longrightarrow> ck_terminal_payload m \<longrightarrow>
        ms_state (f m) \<noteq> MSG_PENDING \<and> ck_terminal_payload (f m)))"

lemma settles_failed: "settles (failed_with code now)"
  by (simp add: settles_def failed_with_def fixed_part_def ck_terminal_payload_def)

lemma settles_completed: "settles (completed_with d now)"
  by (auto simp: settles_def completed_with_def fixed_part_def ck_terminal_payload_def Let_def
      split: option.splits)

lemma settles_fields:
  assumes "settles f"
  shows "fixed_part (f m) = fixed_part m" "ms_id (f m) = ms_id m"
    "ms_course_id (f m) = ms_course_id m" "ms_conversation_id (f m) = ms_conversation_id m"
    "ms_corpus_version_id (f m) = ms_corpus_version_id m" "ms_sequence (f m) = ms_sequence m"
    "ms_idempotency_key (f m) = ms_idempotency_key m" "ms_question (f m) = ms_question m"
    "ms_kind (f m) = ms_kind m" "ms_parent_message_id (f m) = ms_parent_message_id m"
proof -
  show f: "fixed_part (f m) = fixed_part m" using assms by (simp add: settles_def)
  show "ms_id (f m) = ms_id m"
    "ms_course_id (f m) = ms_course_id m" "ms_conversation_id (f m) = ms_conversation_id m"
    "ms_corpus_version_id (f m) = ms_corpus_version_id m" "ms_sequence (f m) = ms_sequence m"
    "ms_idempotency_key (f m) = ms_idempotency_key m" "ms_question (f m) = ms_question m"
    "ms_kind (f m) = ms_kind m" "ms_parent_message_id (f m) = ms_parent_message_id m"
    by (rule fixed_part_fields [OF f])+
qed

section \<open>The invariant\<close>

definition is_pending :: "message \<Rightarrow> bool" where
  "is_pending m \<longleftrightarrow> ms_state m = MSG_PENDING"

text \<open>The constraints of one row, and the keys of the table: \<open>uq_messages_idempotency\<close>,
  \<open>uq_messages_sequence\<close> and the partial index \<open>uq_messages_one_pending\<close>.\<close>

definition row_ok :: "message \<Rightarrow> bool" where
  "row_ok m \<longleftrightarrow> ck_terminal_payload m \<and> ck_parent m \<and> ck_sequence m \<and> len_between 1 4000 (btrim (ms_question m))"

definition message_keys :: "message list \<Rightarrow> bool" where
  "message_keys ms \<longleftrightarrow>
     distinct (map ms_id ms) \<and>
     distinct (map (\<lambda>m. (ms_conversation_id m, ms_sequence m)) ms) \<and>
     distinct (map (\<lambda>m. (ms_conversation_id m, ms_idempotency_key m)) ms) \<and>
     distinct (map ms_conversation_id (filter is_pending ms))"

definition conversation_keys :: "conversation list \<Rightarrow> bool" where
  "conversation_keys cs \<longleftrightarrow>
     distinct (map cn_id cs) \<and>
     distinct (map (\<lambda>c. (cn_course_id c, cn_owner_user_id c, cn_idempotency_key c)) cs) \<and>
     (\<forall>c \<in> set cs. cn_next_sequence c \<ge> 1)"

text \<open>A message belongs to its conversation and is numbered below its next number.\<close>

definition housed :: "conversation list \<Rightarrow> message \<Rightarrow> bool" where
  "housed cs m \<longleftrightarrow> (\<exists>c \<in> set cs. cn_id c = ms_conversation_id m \<and> cn_course_id c = ms_course_id m \<and>
     ms_sequence m < cn_next_sequence c)"

definition parented :: "message list \<Rightarrow> message \<Rightarrow> bool" where
  "parented ms m \<longleftrightarrow> (\<forall>p. ms_parent_message_id m = Some p \<longrightarrow>
     (\<exists>r \<in> set ms. ms_id r = p \<and> ms_conversation_id r = ms_conversation_id m \<and>
        ms_state r = MSG_COMPLETED \<and> ms_sequence r < ms_sequence m))"

definition evidence_of :: "message list \<Rightarrow> retrieved_evidence \<Rightarrow> bool" where
  "evidence_of ms e \<longleftrightarrow> (\<exists>m \<in> set ms. ms_id m = re_message_id e \<and> ms_course_id m = re_course_id e \<and>
     ms_corpus_version_id m = Some (re_corpus_version_id e))"

definition citation_of :: "message list \<Rightarrow> retrieved_evidence list \<Rightarrow> citation \<Rightarrow> bool" where
  "citation_of ms es c \<longleftrightarrow>
     (\<exists>m \<in> set ms. ms_id m = ct_message_id c \<and> ms_state m = MSG_COMPLETED) \<and>
     (\<exists>e \<in> set es. re_message_id e = ct_message_id c \<and> re_chunk_id e = ct_chunk_id c \<and>
        re_course_id e = ct_course_id c)"

definition evidence_keys :: "retrieved_evidence list \<Rightarrow> bool" where
  "evidence_keys es \<longleftrightarrow> distinct (map (\<lambda>e. (re_message_id e, re_chunk_id e)) es)"

definition conv_inv :: "db \<Rightarrow> bool" where
  "conv_inv s \<longleftrightarrow>
     conversation_keys (t_conversations s) \<and> message_keys (t_messages s) \<and>
     (\<forall>m \<in> set (t_messages s). row_ok m \<and> housed (t_conversations s) m \<and> parented (t_messages s) m) \<and>
     evidence_keys (t_evidence s) \<and>
     (\<forall>e \<in> set (t_evidence s). evidence_of (t_messages s) e) \<and>
     distinct (map (\<lambda>c. (ct_message_id c, ct_chunk_id c)) (t_citations s)) \<and>
     distinct (map (\<lambda>c. (ct_message_id c, ct_ordinal c)) (t_citations s)) \<and>
     (\<forall>c \<in> set (t_citations s). citation_of (t_messages s) (t_evidence s) c)"

section \<open>Settling\<close>

text \<open>\<open>UPDATE messages ... WHERE state = 'pending' AND ...\<close>.\<close>

lemma filter_pending_update:
  assumes "settles f" "\<And>m. m \<in> set ms \<Longrightarrow> p m \<Longrightarrow> is_pending m" "\<And>m. m \<in> set ms \<Longrightarrow> ck_terminal_payload m"
  shows "filter is_pending (update_where p f ms) = filter (\<lambda>m. is_pending m \<and> \<not> p m) ms"
  using assms(2,3)
proof (induction ms)
  case (Cons m ms)
  have "\<not> is_pending (f m)" if "p m"
    using assms(1) Cons.prems that by (simp add: settles_def is_pending_def)
  then show ?case using Cons by (simp add: update_where_def)
qed (simp add: update_where_def)

lemma settle_keys:
  assumes "message_keys ms" "settles f" "\<And>m. m \<in> set ms \<Longrightarrow> p m \<Longrightarrow> is_pending m"
    "\<And>m. m \<in> set ms \<Longrightarrow> ck_terminal_payload m"
  shows "message_keys (update_where p f ms)"
proof -
  have maps: "map ms_id (update_where p f ms) = map ms_id ms"
    "map (\<lambda>m. (ms_conversation_id m, ms_sequence m)) (update_where p f ms) =
       map (\<lambda>m. (ms_conversation_id m, ms_sequence m)) ms"
    "map (\<lambda>m. (ms_conversation_id m, ms_idempotency_key m)) (update_where p f ms) =
       map (\<lambda>m. (ms_conversation_id m, ms_idempotency_key m)) ms"
    by (rule map_update_where; simp add: settles_fields [OF assms(2)])+
  have "distinct (map ms_conversation_id (filter is_pending ms))"
    using assms(1) by (simp add: message_keys_def)
  from distinct_map_filter [OF this, of "\<lambda>m. \<not> p m"]
  have "distinct (map ms_conversation_id (filter is_pending (update_where p f ms)))"
    using filter_pending_update [OF assms(2-4)] by (simp add: conj_commute)
  then show ?thesis using assms(1) maps by (simp add: message_keys_def)
qed

text \<open>Every row survives as one with the same fixed part, unchanged unless pending.\<close>

lemma settled_row:
  assumes "settles f" "r \<in> set ms" "\<And>m. m \<in> set ms \<Longrightarrow> p m \<Longrightarrow> is_pending m"
  obtains r' where "r' \<in> set (update_where p f ms)" "fixed_part r' = fixed_part r"
    "\<not> is_pending r \<Longrightarrow> r' = r"
proof (cases "p r")
  case True
  then show ?thesis
    using that [of "f r"] update_where_hit [of r ms p f] assms settles_fields(1) [OF assms(1)] by blast
next
  case False
  then show ?thesis using that [of r] update_where_miss [of r ms p f] assms(2) by blast
qed

lemma settle_parented:
  assumes "settles f" "\<And>m. m \<in> set ms \<Longrightarrow> p m \<Longrightarrow> is_pending m" "parented ms m"
    "fixed_part m' = fixed_part m"
  shows "parented (update_where p f ms) m'"
  unfolding parented_def
proof (intro allI impI)
  fix q assume "ms_parent_message_id m' = Some q"
  then have "ms_parent_message_id m = Some q" using fixed_part_fields(9) [OF assms(4)] by simp
  then obtain r where r: "r \<in> set ms" "ms_id r = q" "ms_conversation_id r = ms_conversation_id m"
    "ms_state r = MSG_COMPLETED" "ms_sequence r < ms_sequence m"
    using assms(3) by (auto simp: parented_def)
  have "r \<in> set (update_where p f ms)"
    using r assms(2) [of r] by (intro update_where_miss) (auto simp: is_pending_def)
  then show "\<exists>r \<in> set (update_where p f ms). ms_id r = q \<and> ms_conversation_id r = ms_conversation_id m' \<and>
      ms_state r = MSG_COMPLETED \<and> ms_sequence r < ms_sequence m'"
    using r fixed_part_fields(3,5) [OF assms(4)] by auto
qed

lemma settle_evidence:
  assumes "settles f" "\<And>m. m \<in> set ms \<Longrightarrow> p m \<Longrightarrow> is_pending m" "evidence_of ms e"
  shows "evidence_of (update_where p f ms) e"
proof -
  obtain m where m: "m \<in> set ms" "ms_id m = re_message_id e" "ms_course_id m = re_course_id e"
    "ms_corpus_version_id m = Some (re_corpus_version_id e)"
    using assms(3) by (auto simp: evidence_of_def)
  obtain m' where "m' \<in> set (update_where p f ms)" "fixed_part m' = fixed_part m"
    using settled_row [OF assms(1) m(1) assms(2)] by blast
  then show ?thesis using m fixed_part_fields(1,2,4) [of m' m] by (auto simp: evidence_of_def)
qed

lemma settle_citation:
  assumes "\<And>m. m \<in> set ms \<Longrightarrow> p m \<Longrightarrow> is_pending m" "citation_of ms es c"
  shows "citation_of (update_where p f ms) es c"
  using assms update_where_miss [of _ ms p f] by (fastforce simp: citation_of_def is_pending_def)

lemma settle_inv:
  assumes "conv_inv s" "settles f" "\<And>m. m \<in> set (t_messages s) \<Longrightarrow> p m \<Longrightarrow> is_pending m"
  shows "conv_inv (s\<lparr>t_messages := update_where p f (t_messages s)\<rparr>)"
proof -
  have ck: "\<And>m. m \<in> set (t_messages s) \<Longrightarrow> ck_terminal_payload m"
    using assms(1) by (auto simp: conv_inv_def row_ok_def)
  have rows: "row_ok m' \<and> housed (t_conversations s) m' \<and> parented (update_where p f (t_messages s)) m'"
    if m': "m' \<in> set (update_where p f (t_messages s))" for m'
  proof -
    obtain m where m: "m \<in> set (t_messages s)" "fixed_part m' = fixed_part m" "ck_terminal_payload m'"
      using m'
    proof (cases rule: in_update_whereE)
      case (1 r0)
      then show ?thesis
        using that [of r0] assms(2) assms(3) [of r0] ck [of r0] by (simp add: settles_def is_pending_def)
    next
      case 2
      then show ?thesis using that [of m'] ck by simp
    qed
    note f = fixed_part_fields [OF m(2)]
    have old: "row_ok m" "housed (t_conversations s) m" "parented (t_messages s) m"
      using assms(1) m(1) by (auto simp: conv_inv_def)
    show ?thesis
      using old(1,2) m(3) f settle_parented [OF assms(2,3) old(3) m(2)]
      by (simp add: row_ok_def ck_parent_def ck_sequence_def housed_def)
  qed
  show ?thesis
    unfolding conv_inv_def
    using assms(1) settle_keys [OF _ assms(2,3) ck] rows
      settle_evidence [OF assms(2,3)] settle_citation [OF assms(3)]
    by (simp add: conv_inv_def)
qed

lemma expire_inv: "conv_inv s \<Longrightarrow> conv_inv (expire_messages cid now s)"
  unfolding expire_messages_def
  by (rule settle_inv) (auto simp: settles_failed expired_def is_pending_def)

lemma fail_inv: "conv_inv s \<Longrightarrow> conv_inv (fail_message mid code now s)"
  unfolding fail_message_def
  by (rule settle_inv) (auto simp: settles_failed is_pending_def)


section \<open>Recording evidence\<close>

lemma flush_evidence_Inr:
  assumes "flush_evidence r s = Inr s'"
  shows "s' = s\<lparr>t_evidence := t_evidence s @ (case r of None \<Rightarrow> [] | Some e \<Rightarrow> [e])\<rparr>"
    "evidence_keys (t_evidence s) \<Longrightarrow>
     evidence_keys (t_evidence s')"
proof -
  show "s' = s\<lparr>t_evidence := t_evidence s @ (case r of None \<Rightarrow> [] | Some e \<Rightarrow> [e])\<rparr>"
    using assms by (auto simp: flush_evidence_def split: option.splits if_splits)
  assume d: "evidence_keys (t_evidence s)"
  show "evidence_keys (t_evidence s')"
  proof (cases r)
    case None
    then show ?thesis using assms d by (simp add: flush_evidence_def)
  next
    case (Some e)
    then have s': "s' = s\<lparr>t_evidence := t_evidence s @ [e]\<rparr>"
      and new: "\<forall>x \<in> set (t_evidence s). \<not> (re_message_id x = re_message_id e \<and> re_chunk_id x = re_chunk_id e)"
      using assms by (auto simp: flush_evidence_def exists_where_iff split: if_splits)
    have "(re_message_id e, re_chunk_id e) \<notin> set (map (\<lambda>e. (re_message_id e, re_chunk_id e)) (t_evidence s))"
      using new by fastforce
    then show ?thesis using d unfolding s' by (simp add: evidence_keys_def)
  qed
qed

lemma stored_rows_evidence [simp]: "stored_rows m i (s\<lparr>t_evidence := es\<rparr>) = stored_rows m i s"
  by (simp add: stored_rows_def)

text \<open>What the loop has checked of an item.\<close>

definition authentic :: "message \<Rightarrow> db \<Rightarrow> evidence \<Rightarrow> bool" where
  "authentic m s i \<longleftrightarrow>
     ev_course_id i = ms_course_id m \<and> Some (ev_corpus_version_id i) = ms_corpus_version_id m \<and>
     (\<exists>row \<in> set (stored_rows m (ev_chunk_id i) s). agrees i row)"

lemma evidence_loop_Inr:
  assumes "evidence_loop m added items s = Inr (x, s')"
  shows "s' = s\<lparr>t_evidence := t_evidence s @ (case added of None \<Rightarrow> [] | Some e \<Rightarrow> [e]) @
             map (evidence_row (ms_id m)) items\<rparr> \<and>
         (\<forall>i \<in> set items. authentic m s i) \<and>
         (evidence_keys (t_evidence s) \<longrightarrow>
          evidence_keys (t_evidence s'))"
  using assms
proof (induction m added items s arbitrary: s' rule: evidence_loop.induct)
  case (1 m added s)
  then have f: "flush_evidence added s = Inr s'" by (auto simp: result_simps)
  then show ?case using flush_evidence_Inr [OF f] by simp
next
  case (2 m added i items s)
  have sc: "\<not> (ev_course_id i \<noteq> ms_course_id m \<or> Some (ev_corpus_version_id i) \<noteq> ms_corpus_version_id m)"
    using "2.prems" by (auto split: if_splits)
  note eq = "2.prems" [unfolded evidence_loop.simps if_not_P [OF sc] bindE_eq_Inr]
  from eq obtain s1 stored where s1: "flush_evidence added s = Inr s1"
    and stored: "one_or_none (stored_rows m (ev_chunk_id i) s1) = Inr stored"
    and k: "(case stored of None \<Rightarrow> Inl (RAGFailure ''RETRIEVAL_SCOPE_INVALID'')
             | Some row \<Rightarrow> if \<not> agrees i row then Inl (RAGFailure ''RETRIEVAL_SCOPE_INVALID'')
                 else evidence_loop m (Some (evidence_row (ms_id m) i)) items s1) = Inr (x, s')"
    by blast
  from k obtain row where r: "stored = Some row" by (cases stored) simp_all
  have row: "one_or_none (stored_rows m (ev_chunk_id i) s1) = Inr (Some row)" "agrees i row"
    and rest: "evidence_loop m (Some (evidence_row (ms_id m) i)) items s1 = Inr (x, s')"
    using stored k r by (simp_all split: if_splits)
  note f = flush_evidence_Inr [OF s1]
  have "stored_rows m (ev_chunk_id i) s1 = [row]" by (rule one_or_none_Some [OF row(1)])
  then have a: "authentic m s i" using sc row(2) f(1) by (simp add: authentic_def)
  have same: "authentic m s1 = authentic m s" using f(1) by (simp add: authentic_def fun_eq_iff)
  have "\<not> \<not> agrees i row" using row(2) by simp
  note ih = "2.IH" [OF sc this rest]
  have 1: "s' = s1\<lparr>t_evidence := t_evidence s1 @ map (evidence_row (ms_id m)) (i # items)\<rparr>"
    using ih by simp
  have 2: "\<forall>x \<in> set items. authentic m s x" using ih same by simp
  have 3: "evidence_keys (t_evidence s) \<longrightarrow> evidence_keys (t_evidence s')" using ih f(2) by blast
  show ?case using a 2 3 unfolding 1 f(1) by simp
qed

lemma pending_Inr:
  assumes "pending mid now s = Inr m"
  shows "m \<in> set (t_messages s)" "ms_id m = mid" "is_pending m" "now < ms_deadline_at m"
  using assms by (auto simp: pending_def is_pending_def split: option.splits dest!: find_SomeD)

lemma save_evidence_Inr:
  assumes "save_evidence mid evs now s = Inr (x, s')"
  obtains m where "pending mid now s = Inr m" "length evs \<le> 5" "distinct (map ev_chunk_id evs)"
    "s' = s\<lparr>t_evidence := t_evidence s @ map (evidence_row mid) evs\<rparr>"
    "\<forall>i \<in> set evs. authentic m s i"
    "evidence_keys (t_evidence s) \<longrightarrow>
     evidence_keys (t_evidence s')"
proof -
  obtain m where m: "pending mid now s = Inr m" "length evs \<le> 5" "distinct (map ev_chunk_id evs)"
    and l: "evidence_loop m None evs s = Inr (x, s')"
    using assms by (auto simp: save_evidence_def result_simps split: if_splits)
  note e = evidence_loop_Inr [OF l] pending_Inr(2) [OF m(1)]
  show ?thesis
  proof (rule that [OF m])
    show "s' = s\<lparr>t_evidence := t_evidence s @ map (evidence_row mid) evs\<rparr>" using e by simp
    show "\<forall>i \<in> set evs. authentic m s i" using e by blast
    show "evidence_keys (t_evidence s) \<longrightarrow>
      evidence_keys (t_evidence s')" using e by blast
  qed
qed

lemma save_evidence_inv:
  assumes "conv_inv s" "save_evidence mid evs now s = Inr (x, s')"
  shows "conv_inv s'"
  using assms(2)
proof (cases rule: save_evidence_Inr)
  case (1 m)
  have "evidence_of (t_messages s) (evidence_row mid i)" if "i \<in> set evs" for i
    using 1(5) that pending_Inr [OF 1(1)] by (auto simp: evidence_of_def evidence_row_def authentic_def)
  moreover have "citation_of (t_messages s) (t_evidence s') c" if "citation_of (t_messages s) (t_evidence s) c" for c
    using that 1(4) by (auto simp: citation_of_def)
  ultimately show ?thesis using assms(1) 1(4,6) by (auto simp: conv_inv_def)
qed

section \<open>Completing\<close>

lemma complete_Inr:
  assumes "complete mid d now now' s = Inr (x, s')"
  obtains m where "pending mid now s = Inr m"
    "citations_insertable (citation_rows_of m (td_citations d)) s"
    "s' = s\<lparr>t_citations := t_citations s @ citation_rows_of m (td_citations d),
            t_messages := update_where (\<lambda>r. ms_id r = mid) (completed_with d now') (t_messages s)\<rparr>"
proof -
  obtain m where "pending mid now s = Inr m"
    "citations_insertable (citation_rows_of m (td_citations d)) s"
    "s' = s\<lparr>t_citations := t_citations s @ citation_rows_of m (td_citations d),
            t_messages := update_where (\<lambda>r. ms_id r = ms_id m) (completed_with d now') (t_messages s)\<rparr>"
    using assms by (auto simp: complete_def result_simps Let_def split: if_splits)
  then show ?thesis using that [of m] pending_Inr(2) by simp
qed

lemma citation_rows_of_fields:
  assumes "c \<in> set (citation_rows_of m cs)"
  shows "ct_message_id c = ms_id m" "ct_course_id c = ms_course_id m"
    "\<exists>q \<in> set cs. ct_chunk_id c = dc_chunk_id q \<and> ct_quote c = dc_quote q"
  using assms
  by (auto simp: citation_rows_of_def in_set_enumerate_eq dest: nth_mem intro!: bexI)

lemma unique_pending:
  assumes "conv_inv s" "pending mid now s = Inr m" "r \<in> set (t_messages s)" "ms_id r = mid"
  shows "r = m"
proof -
  have "distinct (map ms_id (t_messages s))" using assms(1) by (simp add: conv_inv_def message_keys_def)
  then show ?thesis using key_eqD [of ms_id "t_messages s" r m] pending_Inr [OF assms(2)] assms(3,4) by simp
qed

lemma complete_inv:
  assumes "conv_inv s" "complete mid d now now' s = Inr (x, s')"
  shows "conv_inv s'"
  using assms(2)
proof (cases rule: complete_Inr)
  case (1 m)
  let ?ms = "update_where (\<lambda>r. ms_id r = mid) (completed_with d now') (t_messages s)"
  let ?rows = "citation_rows_of m (td_citations d)"
  note p = pending_Inr [OF 1(1)]
  have only: "\<And>r. r \<in> set (t_messages s) \<Longrightarrow> ms_id r = mid \<Longrightarrow> is_pending r"
    using unique_pending [OF assms(1) 1(1)] p(3) by simp
  have inv: "conv_inv (s\<lparr>t_messages := ?ms\<rparr>)"
    by (rule settle_inv [OF assms(1) settles_completed only])
  have done_m: "completed_with d now' m \<in> set ?ms" using update_where_hit [of m "t_messages s" "\<lambda>r. ms_id r = mid" "completed_with d now'"] p(1,2) by blast
  have "citation_of ?ms (t_evidence s) c" if c: "c \<in> set ?rows" for c
  proof -
    have "ms_id (completed_with d now' m) = mid"
      using settles_fields(2) [OF settles_completed] p(2) by simp
    moreover have "ms_state (completed_with d now' m) = MSG_COMPLETED"
      by (simp add: completed_with_def Let_def split: option.splits)
    ultimately have "\<exists>m \<in> set ?ms. ms_id m = ct_message_id c \<and> ms_state m = MSG_COMPLETED"
      using done_m citation_rows_of_fields(1) [OF c] p(2) by auto
    moreover have "\<exists>e \<in> set (t_evidence s). re_course_id e = ct_course_id c \<and>
        re_message_id e = ct_message_id c \<and> re_chunk_id e = ct_chunk_id c"
      using 1(2) c by (auto simp: citations_insertable_def list_all_iff exists_where_iff)
    ultimately show ?thesis by (auto simp: citation_of_def)
  qed
  then show ?thesis using inv 1(2,3) by (auto simp: conv_inv_def citations_insertable_def)
qed


section \<open>Creating conversations\<close>

lemma create_conversation_Inr:
  assumes "create_conversation ident course_id key new_id start s = Inr (v, s')"
  obtains k user_id c where "conversation_key key = Inr k" "member ident course_id s = Inr user_id"
    "c \<in> set (t_conversations s')" "cn_course_id c = course_id" "cn_owner_user_id c = user_id"
    "cn_idempotency_key c = k" "nw_id v = cn_id c" "nw_course_id v = course_id"
    "s' = s \<or> (s' = s\<lparr>t_conversations := t_conversations s @ [c]\<rparr> \<and> cn_next_sequence c = 1 \<and>
        cn_id c \<notin> cn_id ` set (t_conversations s) \<and>
        (course_id, user_id, k) \<notin> (\<lambda>c. (cn_course_id c, cn_owner_user_id c, cn_idempotency_key c)) ` set (t_conversations s))"
proof -
  obtain k user_id where ku: "conversation_key key = Inr k" "member ident course_id s = Inr user_id"
    using assms unfolding create_conversation_def bindE_eq_Inr by blast
  let ?same = "\<lambda>c. cn_course_id c = course_id \<and> cn_owner_user_id c = user_id \<and> cn_idempotency_key c = k"
  let ?new = "\<lparr>cn_id = new_id, cn_course_id = course_id, cn_owner_user_id = user_id,
    cn_idempotency_key = k, cn_next_sequence = 1, cn_created_at = start\<rparr>"
  show ?thesis
  proof (cases "exists_where ?same (t_conversations s)")
    case True
    then obtain c where c: "one (filter ?same (t_conversations s)) = Inr c" "s' = s"
      "v = \<lparr>nw_id = cn_id c, nw_course_id = cn_course_id c, nw_created_at = cn_created_at c\<rparr>"
      using assms ku by (auto simp: create_conversation_def Let_def result_simps)
    then have "filter ?same (t_conversations s) = [c]" by (auto simp: one_def split: list.splits)
    then have "c \<in> set (filter ?same (t_conversations s))" by simp
    then have m: "c \<in> set (t_conversations s)" "cn_course_id c = course_id" "cn_owner_user_id c = user_id"
      "cn_idempotency_key c = k" by simp_all
    show ?thesis
      by (rule that [OF ku, of c]) (use m c(2,3) in simp_all)
  next
    case False
    then have e: "filter ?same (t_conversations s) = []" by (simp add: exists_where_iff filter_empty_conv)
    have "filter ?same (t_conversations s @ [?new]) = [?new]" using e by simp
    then have o1: "one (filter ?same (t_conversations s @ [?new])) = Inr ?new" by (simp only: one_def list.case)
    have fresh: "\<not> exists_where (\<lambda>c. cn_id c = new_id) (t_conversations s)"
      using assms ku False by (simp add: create_conversation_def Let_def split: if_splits)
    then have r: "s' = s\<lparr>t_conversations := t_conversations s @ [?new]\<rparr>"
        "v = \<lparr>nw_id = new_id, nw_course_id = course_id, nw_created_at = start\<rparr>"
      using assms ku False o1 by (simp_all add: create_conversation_def Let_def)
    have "(course_id, user_id, k) \<notin>
        (\<lambda>c. (cn_course_id c, cn_owner_user_id c, cn_idempotency_key c)) ` set (t_conversations s)"
      using False by (fastforce simp: exists_where_iff)
    then show ?thesis
      by (intro that [OF ku, of ?new]) (use fresh r in \<open>auto simp: exists_where_iff\<close>)
  qed
qed

lemma create_conversation_inv:
  assumes "conv_inv s" "create_conversation ident course_id key new_id start s = Inr (v, s')"
  shows "conv_inv s'"
  using assms(2)
proof (cases rule: create_conversation_Inr)
  case (1 k user_id c)
  from 1(9) show ?thesis
  proof
    assume n: "s' = s\<lparr>t_conversations := t_conversations s @ [c]\<rparr> \<and> cn_next_sequence c = 1 \<and>
        cn_id c \<notin> cn_id ` set (t_conversations s) \<and>
        (course_id, user_id, k) \<notin> (\<lambda>c. (cn_course_id c, cn_owner_user_id c, cn_idempotency_key c)) ` set (t_conversations s)"
    have "conversation_keys (t_conversations s @ [c])"
      using assms(1) n 1(4-6) by (auto simp: conv_inv_def conversation_keys_def)
    moreover have "housed (t_conversations s @ [c]) m" if "housed (t_conversations s) m" for m
      using that by (auto simp: housed_def)
    ultimately show ?thesis using assms(1) n by (simp add: conv_inv_def)
  qed (use assms(1) in simp)
qed

section \<open>Accepting\<close>

lemma owned_Inr:
  assumes "owned ident cid s = Inr c"
  shows "c \<in> set (t_conversations s)" "cn_id c = cid" "owner_of ident s c"
  using assms by (auto simp: owned_def split: option.splits dest!: find_SomeD)

lemma resolve_turn_parent:
  assumes "resolve_turn u c q s = Inr (kind, rest)" "kind = Action_turn"
  obtains p m where "qr_parent_message_id q = Some p" "m \<in> set (t_messages s)" "ms_id m = p"
    "ms_conversation_id m = cn_id c" "ms_state m = MSG_COMPLETED"
proof (cases "qr_kind q")
  case Action_turn
  then obtain p where p: "qr_parent_message_id q = Some p"
    using assms by (auto simp: resolve_turn_def split: option.splits)
  then obtain m where "find (\<lambda>m. ms_id m = p \<and> ms_conversation_id m = cn_id c \<and>
      ms_course_id m = cn_course_id c \<and> ms_state m = MSG_COMPLETED) (t_messages s) = Some m"
    using assms(1) Action_turn by (auto simp: resolve_turn_def split: option.splits)
  then show ?thesis using that [OF p, of m] find_SomeD by fastforce
next
  case Followup_turn
  then show ?thesis using assms by (simp add: resolve_turn_def)
next
  case Question_turn
  then show ?thesis using assms by (auto simp: resolve_turn_def split: prod.splits turn_kind.splits)
qed

text \<open>The state an accepted message leaves.\<close>

definition with_message :: "conversation \<Rightarrow> message \<Rightarrow> db \<Rightarrow> db" where
  "with_message c m s = s\<lparr>t_conversations := update_where (\<lambda>r. cn_id r = cn_id c)
      (\<lambda>r. r\<lparr>cn_next_sequence := cn_next_sequence r + 1\<rparr>) (t_conversations s),
    t_messages := t_messages s @ [m]\<rparr>"

lemma accept_Inr:
  assumes "accept u cfg ident cid q key corr env s = Inr (a, s')"
  obtains (replayed) c k m v where
    "conversation_key key = Inr k" "owned ident cid s = Inr c"
    "s' = expire_messages (Some cid) (ac_expiry env) s" "m \<in> set (t_messages s')"
    "ms_conversation_id m = cid" "ms_idempotency_key m = k" "ms_question m = qr_question q"
    "message_view_of s' m = Inr v"
    "a = \<lparr>am_message = v, am_created = False, am_owner_user_id = cn_owner_user_id c,
          am_correlation_id = ms_correlation_id m\<rparr>"
  | (created) c k s1 turn m v where
    "conversation_key key = Inr k" "owned ident cid s = Inr c"
    "s1 = expire_messages (Some cid) (ac_expiry env) s"
    "\<And>r. r \<in> set (t_messages s1) \<Longrightarrow> ms_conversation_id r = cid \<Longrightarrow> ms_idempotency_key r \<noteq> k"
    "resolve_turn u c q s1 = Inr turn"
    "m = new_message cfg c k corr (active_corpus (cn_course_id c) s1) q turn env"
    "message_insertable m s1" "s' = with_message c m s1" "message_view_of s' m = Inr v"
    "a = \<lparr>am_message = v, am_created = True, am_owner_user_id = cn_owner_user_id c, am_correlation_id = corr\<rparr>"
proof -
  let ?s1 = "expire_messages (Some cid) (ac_expiry env) s"
  obtain k c where kc: "conversation_key key = Inr k" "owned ident cid s = Inr c"
    using assms unfolding accept_def bindE_eq_Inr by blast
  note eq = assms [unfolded accept_def kc bindE_Inr Let_def]
  show ?thesis
  proof (cases "find (\<lambda>m. ms_conversation_id m = cid \<and> ms_idempotency_key m = k) (t_messages ?s1)")
    case (Some m)
    then have "ms_question m = qr_question q"
      and b: "bindE (message_view_of ?s1 m) (\<lambda>v.
             Inr (\<lparr>am_message = v, am_created = False, am_owner_user_id = cn_owner_user_id c,
                   am_correlation_id = ms_correlation_id m\<rparr>, ?s1)) = Inr (a, s')"
      using eq by (simp_all split: if_splits)
    then show ?thesis using replayed [OF kc] find_SomeD [OF Some] by (auto simp: bindE_eq_Inr)
  next
    case None
    let ?m = "\<lambda>turn. new_message cfg c k corr (active_corpus (cn_course_id c) ?s1) q turn env"
    have "\<exists>turn. resolve_turn u c q ?s1 = Inr turn \<and> message_insertable (?m turn) ?s1 \<and>
        bindE (message_view_of (with_message c (?m turn) ?s1) (?m turn)) (\<lambda>v.
          Inr (\<lparr>am_message = v, am_created = True, am_owner_user_id = cn_owner_user_id c,
                am_correlation_id = corr\<rparr>, with_message c (?m turn) ?s1)) = Inr (a, s')"
      using eq unfolding None option.case with_message_def
      by (auto simp: bindE_eq_Inr split: if_splits)
    then obtain turn v where t: "resolve_turn u c q ?s1 = Inr turn" "message_insertable (?m turn) ?s1"
      "message_view_of (with_message c (?m turn) ?s1) (?m turn) = Inr v"
      "a = \<lparr>am_message = v, am_created = True, am_owner_user_id = cn_owner_user_id c, am_correlation_id = corr\<rparr>"
      "s' = with_message c (?m turn) ?s1"
      by (auto simp: bindE_eq_Inr)
    show ?thesis
      by (rule created [OF kc refl _ t(1) refl t(2)])
        (use t find_NoneD [OF None] in auto)
  qed
qed

lemma new_message_fields:
  "ms_id (new_message cfg c k corr corpus q turn env) = ac_message env"
  "ms_course_id (new_message cfg c k corr corpus q turn env) = cn_course_id c"
  "ms_conversation_id (new_message cfg c k corr corpus q turn env) = cn_id c"
  "ms_corpus_version_id (new_message cfg c k corr corpus q turn env) = corpus"
  "ms_sequence (new_message cfg c k corr corpus q turn env) = cn_next_sequence c"
  "ms_idempotency_key (new_message cfg c k corr corpus q turn env) = k"
  "ms_question (new_message cfg c k corr corpus q turn env) = qr_question q"
  "ms_state (new_message cfg c k corr corpus q turn env) = MSG_PENDING"
  "ms_kind (new_message cfg c k corr corpus q turn env) = fst turn"
  "ms_parent_message_id (new_message cfg c k corr corpus q turn env) = qr_parent_message_id q"
  "ms_retrieval_query (new_message cfg c k corr corpus q turn env) = fst (snd (snd turn))"
  "ms_correlation_id (new_message cfg c k corr corpus q turn env) = corr"
  by (simp_all add: new_message_def split: prod.splits)

lemma with_message_keys:
  assumes "message_keys (t_messages s)" "message_insertable m s"
  shows "message_keys (t_messages s @ [m])"
proof -
  have new: "ms_id r \<noteq> ms_id m" if "r \<in> set (t_messages s)" for r
    using assms(2) that by (auto simp: message_insertable_def exists_where_iff)
  have apart: "ms_idempotency_key r \<noteq> ms_idempotency_key m" "ms_sequence r \<noteq> ms_sequence m" "\<not> is_pending r"
    if "r \<in> set (t_messages s)" "ms_conversation_id r = ms_conversation_id m" for r
    using assms(2) that by (auto simp: message_insertable_def exists_where_iff is_pending_def)
  have "ms_id m \<notin> ms_id ` set (t_messages s)" using new by fastforce
  moreover have "(ms_conversation_id m, ms_sequence m) \<notin> (\<lambda>m. (ms_conversation_id m, ms_sequence m)) ` set (t_messages s)"
    using apart(2) by fastforce
  moreover have "(ms_conversation_id m, ms_idempotency_key m) \<notin>
      (\<lambda>m. (ms_conversation_id m, ms_idempotency_key m)) ` set (t_messages s)"
    using apart(1) by fastforce
  moreover have "ms_conversation_id m \<notin> ms_conversation_id ` set (filter is_pending (t_messages s))"
    using apart(3) by fastforce
  ultimately show ?thesis using assms(1) by (simp add: message_keys_def)
qed

lemma with_message_housed:
  assumes "housed (t_conversations s) r"
  shows "housed (t_conversations (with_message c m s)) r"
proof -
  obtain k where k: "k \<in> set (t_conversations s)" "cn_id k = ms_conversation_id r" "cn_course_id k = ms_course_id r"
    "ms_sequence r < cn_next_sequence k"
    using assms by (auto simp: housed_def)
  let ?f = "\<lambda>r::conversation. if cn_id r = cn_id c then r\<lparr>cn_next_sequence := cn_next_sequence r + 1\<rparr> else r"
  have "?f k \<in> set (t_conversations (with_message c m s))"
    using k(1) by (auto simp: with_message_def set_update_where)
  moreover have "cn_id (?f k) = cn_id k" "cn_course_id (?f k) = cn_course_id k"
    "cn_next_sequence k \<le> cn_next_sequence (?f k)" by simp_all
  ultimately show ?thesis using k unfolding housed_def by (intro bexI [of _ "?f k"]) auto
qed

lemma with_message_conversations:
  assumes "conversation_keys (t_conversations s)"
  shows "conversation_keys (t_conversations (with_message c m s))"
proof -
  have "map cn_id (t_conversations (with_message c m s)) = map cn_id (t_conversations s)"
    "map (\<lambda>c. (cn_course_id c, cn_owner_user_id c, cn_idempotency_key c)) (t_conversations (with_message c m s)) =
     map (\<lambda>c. (cn_course_id c, cn_owner_user_id c, cn_idempotency_key c)) (t_conversations s)"
    unfolding with_message_def by (simp_all add: map_update_where)
  then show ?thesis
    using assms by (auto simp: conversation_keys_def with_message_def set_update_where)
qed

lemma accept_inv:
  assumes "conv_inv s" "accept u cfg ident cid q key corr env s = Inr (a, s')"
  shows "conv_inv s'"
  using assms(2)
proof (cases rule: accept_Inr)
  case (replayed c k m v)
  then show ?thesis using expire_inv [OF assms(1)] by simp
next
  case (created c k s1 turn m v)
  have inv: "conv_inv s1" unfolding created(3) by (rule expire_inv [OF assms(1)])
  note o = owned_Inr [OF created(2)]
  have c1: "c \<in> set (t_conversations s1)" using o(1) by (simp add: created(3) expire_messages_def)
  note f = new_message_fields [of cfg c k corr "active_corpus (cn_course_id c) s1" q turn env, folded created(6)]
  have ins: "ck_terminal_payload m" "ck_parent m" "ck_sequence m" "len_between 1 4000 (btrim (ms_question m))"
    using created(7) by (simp_all add: message_insertable_def)
  have house: "housed (t_conversations s') m"
  proof -
    have "c\<lparr>cn_next_sequence := cn_next_sequence c + 1\<rparr> \<in> set (t_conversations s')"
      using update_where_hit [of c "t_conversations s1" "\<lambda>r. cn_id r = cn_id c"
          "\<lambda>r. r\<lparr>cn_next_sequence := cn_next_sequence r + 1\<rparr>"] c1
      by (simp add: created(8) with_message_def)
    then show ?thesis
      unfolding housed_def by (rule bexI [rotated]) (simp add: f)
  qed
  have "parented (t_messages s1) m"
    unfolding parented_def
  proof (intro allI impI)
    fix p assume p: "ms_parent_message_id m = Some p"
    then have "fst turn = Action_turn" using ins(2) f(9) by (simp add: ck_parent_def)
    then have "resolve_turn u c q s1 = Inr (Action_turn, snd turn)"
      using created(5) by (metis prod.collapse)
    from this refl obtain p' r where r': "qr_parent_message_id q = Some p'" "r \<in> set (t_messages s1)"
      "ms_id r = p'" "ms_conversation_id r = cn_id c" "ms_state r = MSG_COMPLETED"
      by (rule resolve_turn_parent)
    then have r: "r \<in> set (t_messages s1)" "ms_id r = p" "ms_conversation_id r = cn_id c"
      "ms_state r = MSG_COMPLETED"
      using p f(10) by simp_all
    obtain c' where c': "c' \<in> set (t_conversations s1)" "cn_id c' = cn_id c" "ms_sequence r < cn_next_sequence c'"
      using inv r(1,3) by (fastforce simp: conv_inv_def housed_def)
    have "c' = c"
      using key_eqD [of cn_id "t_conversations s1" c' c] inv c' c1 by (simp add: conv_inv_def conversation_keys_def)
    then show "\<exists>r \<in> set (t_messages s1). ms_id r = p \<and> ms_conversation_id r = ms_conversation_id m \<and>
        ms_state r = MSG_COMPLETED \<and> ms_sequence r < ms_sequence m"
      using r c'(3) f by auto
  qed
  then have par: "parented (t_messages s1 @ [m]) m" by (auto simp: parented_def)
  have t: "t_messages s' = t_messages s1 @ [m]" "t_evidence s' = t_evidence s1" "t_citations s' = t_citations s1"
    by (simp_all add: created(8) with_message_def)
  have old: "row_ok r \<and> housed (t_conversations s') r \<and> parented (t_messages s') r"
    if "r \<in> set (t_messages s1)" for r
    using that inv with_message_housed [of s1 r c m] t(1)
    by (auto simp: conv_inv_def created(8) parented_def)
  have "conversation_keys (t_conversations s')" "message_keys (t_messages s')"
    using inv with_message_conversations [of s1 c m] with_message_keys [OF _ created(7)] t(1)
    by (simp_all add: conv_inv_def created(8))
  moreover have "row_ok m" using ins by (simp add: row_ok_def)
  moreover have "evidence_of (t_messages s') e" if "evidence_of (t_messages s1) e" for e
    using that t(1) by (auto simp: evidence_of_def)
  moreover have "citation_of (t_messages s') (t_evidence s') x" if "citation_of (t_messages s1) (t_evidence s1) x" for x
    using that t by (auto simp: citation_of_def)
  ultimately show ?thesis
    using inv old house par t by (auto simp: conv_inv_def)
qed

end
