(* ===== verification/Conversation_Runs.thy ===== *)
theory Conversation_Runs
  imports Turns
begin

text \<open>
  The conversation service as a state machine: its transactions in any order and with any
  arguments. Runs keep \<open>conv_inv\<close>, never touch a message that has ended, and refine an
  abstract ledger in which a turn is asked when none is waiting and settled once.
\<close>

section \<open>The machine\<close>

datatype turn_event =
    Create_conversation authenticated_identity uuid "pystr option" uuid time
  | Accept authenticated_identity uuid question_request "pystr option" pystr accept_env
  | History authenticated_identity uuid int nat time
  | Read_message authenticated_identity uuid uuid time
  | Save_evidence uuid "evidence list" time
  | Complete uuid tutor_draft time time
  | Fail uuid string time
  | Expire time

fun turn_step :: "unicode_db \<Rightarrow> conversation_config \<Rightarrow> turn_event \<Rightarrow> db \<Rightarrow> db" where
  "turn_step u cfg (Create_conversation ident course_id key new_id start) s =
     snd (session (create_conversation ident course_id key new_id start) s)"
| "turn_step u cfg (Accept ident cid q key corr env) s = snd (session (accept u cfg ident cid q key corr env) s)"
| "turn_step u cfg (History ident cid after limit now) s = snd (session (history ident cid after limit now) s)"
| "turn_step u cfg (Read_message ident cid mid now) s = snd (session (read_message ident cid mid now) s)"
| "turn_step u cfg (Save_evidence mid evs now) s = snd (session (save_evidence mid evs now) s)"
| "turn_step u cfg (Complete mid d now now') s = snd (session (complete mid d now now') s)"
| "turn_step u cfg (Fail mid code now) s = fail_message mid code now s"
| "turn_step u cfg (Expire now) s = expire_messages None now s"

lemma history_Inr:
  assumes "history ident cid after limit now s = Inr (v, s')"
  shows "s' = expire_messages (Some cid) now s"
  using assms by (auto simp: history_def Let_def result_simps)

lemma read_message_Inr:
  assumes "read_message ident cid mid now s = Inr (v, s')"
  shows "s' = expire_messages (Some cid) now s"
  using assms by (auto simp: read_message_def Let_def result_simps split: option.splits)

text \<open>What a step does: one of five changes.\<close>

lemma turn_step_cases:
  obtains (same) "turn_step u cfg e s = s"
  | (created) ident course_id key new_id start v where
      "create_conversation ident course_id key new_id start s = Inr (v, turn_step u cfg e s)"
  | (accepted) ident cid q key corr env a where "accept u cfg ident cid q key corr env s = Inr (a, turn_step u cfg e s)"
  | (expired) cid now where "turn_step u cfg e s = expire_messages cid now s"
  | (saved) mid evs now x where "save_evidence mid evs now s = Inr (x, turn_step u cfg e s)"
  | (completed) mid d now now' x where "complete mid d now now' s = Inr (x, turn_step u cfg e s)"
  | (failed) mid code now where "turn_step u cfg e s = fail_message mid code now s"
proof (cases e)
  case (Create_conversation ident course_id key new_id start)
  then show ?thesis
    by (cases rule: session_cases [of "create_conversation ident course_id key new_id start" s])
      (simp_all add: same created)
next
  case (Accept ident cid q key corr env)
  then show ?thesis
    by (cases rule: session_cases [of "accept u cfg ident cid q key corr env" s]) (simp_all add: same accepted)
next
  case (History ident cid after limit now)
  then show ?thesis
    using same expired [of "Some cid" now]
    by (cases rule: session_cases [of "history ident cid after limit now" s]) (simp_all add: history_Inr)
next
  case (Read_message ident cid mid now)
  then show ?thesis
    using same expired [of "Some cid" now]
    by (cases rule: session_cases [of "read_message ident cid mid now" s]) (simp_all add: read_message_Inr)
next
  case (Save_evidence mid evs now)
  then show ?thesis
    by (cases rule: session_cases [of "save_evidence mid evs now" s]) (simp_all add: same saved)
next
  case (Complete mid d now now')
  then show ?thesis
    by (cases rule: session_cases [of "complete mid d now now'" s]) (simp_all add: same completed)
qed (simp_all add: failed expired)

lemma turn_step_inv:
  assumes "conv_inv s"
  shows "conv_inv (turn_step u cfg e s)"
  by (cases rule: turn_step_cases [of u cfg e s])
    (use assms in \<open>auto intro: create_conversation_inv accept_inv expire_inv save_evidence_inv complete_inv fail_inv\<close>)

section \<open>Progress\<close>

text \<open>Messages keep their fixed part; one that has ended keeps everything, and neither evidence nor
  citations are added to it. Nothing is deleted.\<close>

definition ended_in :: "db \<Rightarrow> uuid \<Rightarrow> bool" where
  "ended_in s i \<longleftrightarrow> (\<exists>m \<in> set (t_messages s). ms_id m = i \<and> \<not> is_pending m)"

definition kept_conversations :: "db \<Rightarrow> db \<Rightarrow> bool" where
  "kept_conversations s t \<longleftrightarrow> (\<forall>c \<in> set (t_conversations s). \<exists>c' \<in> set (t_conversations t).
     c'\<lparr>cn_next_sequence := 0\<rparr> = c\<lparr>cn_next_sequence := 0\<rparr> \<and> cn_next_sequence c \<le> cn_next_sequence c')"

lemma kept_conversations_same: "t_conversations t = t_conversations s \<Longrightarrow> kept_conversations s t"
  by (auto simp: kept_conversations_def)

lemma kept_conversations_trans:
  assumes "kept_conversations s t" "kept_conversations t w"
  shows "kept_conversations s w"
  unfolding kept_conversations_def
proof
  fix c assume "c \<in> set (t_conversations s)"
  then obtain c1 where c1: "c1 \<in> set (t_conversations t)"
    "c1\<lparr>cn_next_sequence := 0\<rparr> = c\<lparr>cn_next_sequence := 0\<rparr>" "cn_next_sequence c \<le> cn_next_sequence c1"
    using assms(1) unfolding kept_conversations_def by blast
  then obtain c2 where "c2 \<in> set (t_conversations w)"
    "c2\<lparr>cn_next_sequence := 0\<rparr> = c1\<lparr>cn_next_sequence := 0\<rparr>" "cn_next_sequence c1 \<le> cn_next_sequence c2"
    using assms(2) unfolding kept_conversations_def by blast
  then show "\<exists>c' \<in> set (t_conversations w). c'\<lparr>cn_next_sequence := 0\<rparr> = c\<lparr>cn_next_sequence := 0\<rparr> \<and>
      cn_next_sequence c \<le> cn_next_sequence c'"
    using c1 by (intro bexI [of _ c2]) auto
qed

lemma with_message_kept: "kept_conversations s (with_message c m s)"
  unfolding kept_conversations_def
proof
  fix k assume k: "k \<in> set (t_conversations s)"
  let ?f = "\<lambda>r::conversation. if cn_id r = cn_id c then r\<lparr>cn_next_sequence := cn_next_sequence r + 1\<rparr> else r"
  have "?f k \<in> set (t_conversations (with_message c m s))"
    using k by (auto simp: with_message_def set_update_where)
  then show "\<exists>c' \<in> set (t_conversations (with_message c m s)).
      c'\<lparr>cn_next_sequence := 0\<rparr> = k\<lparr>cn_next_sequence := 0\<rparr> \<and> cn_next_sequence k \<le> cn_next_sequence c'"
    by (intro bexI [of _ "?f k"]) auto
qed

definition turns_progress :: "db \<Rightarrow> db \<Rightarrow> bool" where
  "turns_progress s t \<longleftrightarrow> kept_conversations s t \<and>
     (\<forall>m \<in> set (t_messages s). \<exists>m' \<in> set (t_messages t). fixed_part m' = fixed_part m \<and> (\<not> is_pending m \<longrightarrow> m' = m)) \<and>
     set (t_evidence s) \<subseteq> set (t_evidence t) \<and> set (t_citations s) \<subseteq> set (t_citations t) \<and>
     (\<forall>e \<in> set (t_evidence t). e \<in> set (t_evidence s) \<or> \<not> ended_in s (re_message_id e)) \<and>
     (\<forall>c \<in> set (t_citations t). c \<in> set (t_citations s) \<or> \<not> ended_in s (ct_message_id c))"

lemma turns_progress_refl: "turns_progress s s"
  by (auto simp: turns_progress_def kept_conversations_same)

lemma ended_in_mono:
  assumes "turns_progress s t" "ended_in s i"
  shows "ended_in t i"
proof -
  obtain m where "m \<in> set (t_messages s)" "ms_id m = i" "\<not> is_pending m" using assms(2) by (auto simp: ended_in_def)
  moreover then have "m \<in> set (t_messages t)" using assms(1) by (auto simp: turns_progress_def)
  ultimately show ?thesis by (auto simp: ended_in_def)
qed

lemma turns_progress_trans:
  assumes "turns_progress s t" "turns_progress t w"
  shows "turns_progress s w"
proof -
  have "\<exists>m' \<in> set (t_messages w). fixed_part m' = fixed_part m \<and> (\<not> is_pending m \<longrightarrow> m' = m)"
    if m: "m \<in> set (t_messages s)" for m
  proof -
    obtain m1 where m1: "m1 \<in> set (t_messages t)" "fixed_part m1 = fixed_part m" "\<not> is_pending m \<longrightarrow> m1 = m"
      using assms(1) m unfolding turns_progress_def by blast
    obtain m2 where "m2 \<in> set (t_messages w)" "fixed_part m2 = fixed_part m1" "\<not> is_pending m1 \<longrightarrow> m2 = m1"
      using assms(2) m1(1) unfolding turns_progress_def by blast
    then show ?thesis using m1 by auto
  qed
  then show ?thesis
    using assms ended_in_mono [OF assms(1)] kept_conversations_trans [of s t w]
    unfolding turns_progress_def by blast
qed

lemma settle_progress:
  assumes "settles f" "\<And>m. m \<in> set (t_messages s) \<Longrightarrow> p m \<Longrightarrow> is_pending m"
  shows "turns_progress s (s\<lparr>t_messages := update_where p f (t_messages s)\<rparr>)"
proof -
  have "\<exists>m' \<in> set (update_where p f (t_messages s)). fixed_part m' = fixed_part m \<and> (\<not> is_pending m \<longrightarrow> m' = m)"
    if "m \<in> set (t_messages s)" for m
    using settled_row [OF assms(1) that, of p] assms(2) by blast
  then show ?thesis by (auto simp: turns_progress_def kept_conversations_same)
qed

lemma expire_progress: "turns_progress s (expire_messages cid now s)"
  unfolding expire_messages_def
  by (rule settle_progress) (auto simp: settles_failed expired_def is_pending_def)

lemma not_ended_pending:
  assumes "conv_inv s" "pending mid now s = Inr m"
  shows "\<not> ended_in s mid"
  using unique_pending [OF assms] pending_Inr(3) [OF assms(2)] by (auto simp: ended_in_def)

lemma complete_progress:
  assumes "conv_inv s" "complete mid d now now' s = Inr (x, s')"
  shows "turns_progress s s'"
  using assms(2)
proof (cases rule: complete_Inr)
  case (1 m)
  have only: "\<And>r. r \<in> set (t_messages s) \<Longrightarrow> ms_id r = mid \<Longrightarrow> is_pending r"
    using unique_pending [OF assms(1) 1(1)] pending_Inr(3) [OF 1(1)] by simp
  have "turns_progress s (s\<lparr>t_messages := update_where (\<lambda>r. ms_id r = mid) (completed_with d now') (t_messages s)\<rparr>)"
    by (rule settle_progress [OF settles_completed only])
  moreover have "\<not> ended_in s (ct_message_id c)" if "c \<in> set (citation_rows_of m (td_citations d))" for c
    using citation_rows_of_fields(1) [OF that] not_ended_pending [OF assms(1) 1(1)] pending_Inr(2) [OF 1(1)] by simp
  ultimately show ?thesis using 1(3) by (auto simp: turns_progress_def kept_conversations_same)
qed

lemma save_evidence_progress:
  assumes "conv_inv s" "save_evidence mid evs now s = Inr (x, s')"
  shows "turns_progress s s'"
  using assms(2)
proof (cases rule: save_evidence_Inr)
  case (1 m)
  then show ?thesis
    using not_ended_pending [OF assms(1) 1(1)] by (auto simp: turns_progress_def evidence_row_def kept_conversations_same)
qed

lemma accept_progress:
  assumes "accept u cfg ident cid q key corr env s = Inr (a, s')"
  shows "turns_progress s s'"
  using assms
proof (cases rule: accept_Inr)
  case (created c k s1 turn m v)
  have "turns_progress s1 s'"
    using with_message_kept [of s1 c m] by (auto simp: created(8) with_message_def turns_progress_def)
  then show ?thesis using turns_progress_trans [OF expire_progress] created(3) by blast
qed (simp add: expire_progress)

lemma create_conversation_progress:
  assumes "create_conversation ident course_id key new_id start s = Inr (v, s')"
  shows "turns_progress s s'"
  using assms by (cases rule: create_conversation_Inr) (auto simp: turns_progress_def kept_conversations_def)

lemma turn_step_progress:
  assumes "conv_inv s"
  shows "turns_progress s (turn_step u cfg e s)"
proof (cases rule: turn_step_cases [of u cfg e s])
  case (failed mid code now)
  show ?thesis unfolding failed fail_message_def
    by (rule settle_progress) (auto simp: settles_failed is_pending_def)
qed (use assms in \<open>auto simp: turns_progress_refl expire_progress intro: create_conversation_progress
       accept_progress save_evidence_progress complete_progress\<close>)

interpretation turns: stable_steps "turn_step u cfg" conv_inv turns_progress for u cfg
  by unfold_locales
    (auto simp: turn_step_inv turns_progress_refl turn_step_progress intro: turns_progress_trans)

section \<open>Tables the service does not write\<close>

definition other_tables :: "db \<Rightarrow> db" where
  "other_tables s = s\<lparr>t_conversations := [], t_messages := [], t_evidence := [], t_citations := []\<rparr>"

lemma turn_step_others: "other_tables (turn_step u cfg e s) = other_tables s"
proof (cases rule: turn_step_cases [of u cfg e s])
  case (created ident course_id key new_id start v)
  then show ?thesis by (cases rule: create_conversation_Inr) (auto simp: other_tables_def)
next
  case (accepted ident cid q key corr env a)
  then show ?thesis
    by (cases rule: accept_Inr) (simp_all add: other_tables_def with_message_def expire_messages_def)
next
  case (saved mid evs now x)
  then show ?thesis by (cases rule: save_evidence_Inr) (simp add: other_tables_def)
next
  case (completed mid d now now' x)
  then show ?thesis by (cases rule: complete_Inr) (simp add: other_tables_def)
qed (simp_all add: other_tables_def expire_messages_def fail_message_def)

lemma turn_run_others: "other_tables (fold (turn_step u cfg) es s) = other_tables s"
  by (induction es arbitrary: s) (simp_all add: turn_step_others)

end
