(* ===== verification/Ledger.thy ===== *)
theory Ledger
  imports Conversation_Runs
begin

text \<open>
  What the conversation service promises, without tables: a ledger of turns. A turn is asked
  with a number above every turn of its conversation and only when none of them waits; a
  waiting turn is settled once, as answered or as broken. The service refines this ledger.
\<close>

section \<open>The abstract ledger\<close>

datatype turn_status = Waiting | Answered | Broken

type_synonym turn = "uuid \<times> int \<times> turn_status"

type_synonym ledger = "uuid \<rightharpoonup> turn"

inductive ledger_step :: "ledger \<Rightarrow> ledger \<Rightarrow> bool" where
  ask: "L i = None \<Longrightarrow> (\<And>j n st. L j = Some (c, n, st) \<Longrightarrow> st \<noteq> Waiting \<and> n < k) \<Longrightarrow>
    ledger_step L (L(i \<mapsto> (c, k, Waiting)))"
| settle: "L i = Some (c, n, Waiting) \<Longrightarrow> st \<noteq> Waiting \<Longrightarrow> ledger_step L (L(i \<mapsto> (c, n, st)))"

text \<open>At most one waiting turn per conversation, numbers unique in a conversation: both hold of
  whatever the ledger's steps reach.\<close>

definition ledger_ok :: "ledger \<Rightarrow> bool" where
  "ledger_ok L \<longleftrightarrow> (\<forall>i j c n m st st'. L i = Some (c, n, st) \<longrightarrow> L j = Some (c, m, st') \<longrightarrow> i \<noteq> j \<longrightarrow>
     n \<noteq> m \<and> (st = Waiting \<longrightarrow> st' \<noteq> Waiting))"

lemma ledger_okD:
  assumes "ledger_ok L" "L i = Some (c, n, st)" "L j = Some (c, m, st')" "i \<noteq> j"
  shows "n \<noteq> m" "st = Waiting \<Longrightarrow> st' \<noteq> Waiting"
  using assms unfolding ledger_ok_def by blast+

text \<open>Updating one entry: it must differ from the others of its conversation.\<close>

lemma ledger_ok_update:
  assumes "ledger_ok L"
    "\<And>j m st'. j \<noteq> i \<Longrightarrow> L j = Some (c, m, st') \<Longrightarrow> n \<noteq> m \<and> \<not> (st = Waiting \<and> st' = Waiting)"
  shows "ledger_ok (L(i \<mapsto> (c, n, st)))"
  unfolding ledger_ok_def
proof (intro allI impI)
  fix x y d k m sx sy
  assume x: "(L(i \<mapsto> (c, n, st))) x = Some (d, k, sx)" and y: "(L(i \<mapsto> (c, n, st))) y = Some (d, m, sy)"
    and ne: "x \<noteq> y"
  consider "x = i" "y \<noteq> i" | "x \<noteq> i" "y = i" | "x \<noteq> i" "y \<noteq> i" using ne by blast
  then show "k \<noteq> m \<and> (sx = Waiting \<longrightarrow> sy \<noteq> Waiting)"
  proof cases
    case 1
    then have "L y = Some (c, m, sy)" "k = n" "sx = st" using x y by auto
    then show ?thesis using assms(2) [OF 1(2)] by blast
  next
    case 2
    then have "L x = Some (c, k, sx)" "m = n" "sy = st" using x y by auto
    then show ?thesis using assms(2) [OF 2(1)] by blast
  next
    case 3
    then show ?thesis using x y ne ledger_okD [OF assms(1), of x d k sx y m sy] by simp
  qed
qed

lemma ledger_step_ok: "ledger_step L L' \<Longrightarrow> ledger_ok L \<Longrightarrow> ledger_ok L'"
proof (induction rule: ledger_step.induct)
  case (ask L i c k)
  show ?case by (rule ledger_ok_update [OF ask(3)]) (use ask(2) in fastforce)
next
  case (settle L i c n st)
  show ?case
    by (rule ledger_ok_update [OF settle(3)]) (use settle(2) ledger_okD [OF settle(3,1)] in fastforce)
qed

lemma ledger_run_ok: "ledger_step\<^sup>*\<^sup>* L L' \<Longrightarrow> ledger_ok L \<Longrightarrow> ledger_ok L'"
  by (induction rule: rtranclp_induct) (auto intro: ledger_step_ok)

text \<open>Settling several turns at once.\<close>

definition ledger_settled :: "ledger \<Rightarrow> ledger \<Rightarrow> bool" where
  "ledger_settled L L' \<longleftrightarrow> (\<forall>i. L' i = L i \<or>
     (\<exists>c n st. L i = Some (c, n, Waiting) \<and> L' i = Some (c, n, st) \<and> st \<noteq> Waiting))"

lemma ledger_settled_steps:
  assumes "ledger_settled L L'" "finite {i. L' i \<noteq> L i}"
  shows "ledger_step\<^sup>*\<^sup>* L L'"
  using assms(2,1)
proof (induction "{i. L' i \<noteq> L i}" arbitrary: L rule: finite_induct)
  case empty
  then have "L' = L" by auto
  then show ?case by simp
next
  case (insert i S)
  then have "L' i \<noteq> L i" by blast
  then obtain c n st where i: "L i = Some (c, n, Waiting)" "L' i = Some (c, n, st)" "st \<noteq> Waiting"
    using insert.prems unfolding ledger_settled_def by blast
  let ?L = "L(i \<mapsto> (c, n, st))"
  have "S = {j. L' j \<noteq> ?L j}" using insert.hyps(2,4) i(2) by auto
  moreover have "ledger_settled ?L L'"
    using insert.prems i unfolding ledger_settled_def by auto
  ultimately have "ledger_step\<^sup>*\<^sup>* ?L L'" by (rule insert.hyps(3))
  moreover have "ledger_step L ?L" by (rule ledger_step.settle) (use i in simp_all)
  ultimately show ?case by (simp add: converse_rtranclp_into_rtranclp)
qed

section \<open>The ledger of a database\<close>

fun status_of :: "message_state \<Rightarrow> turn_status" where
  "status_of MSG_PENDING = Waiting"
| "status_of MSG_COMPLETED = Answered"
| "status_of MSG_FAILED = Broken"

definition entry_of :: "message \<Rightarrow> turn" where
  "entry_of m = (ms_conversation_id m, ms_sequence m, status_of (ms_state m))"

definition ledger_of :: "db \<Rightarrow> ledger" where
  "ledger_of s = map_of (map (\<lambda>m. (ms_id m, entry_of m)) (t_messages s))"

lemma status_of_waiting [simp]: "status_of st = Waiting \<longleftrightarrow> st = MSG_PENDING"
  by (cases st) simp_all

lemma ledger_of_Some:
  assumes "distinct (map ms_id (t_messages s))"
  shows "ledger_of s i = Some e \<longleftrightarrow> (\<exists>m \<in> set (t_messages s). ms_id m = i \<and> entry_of m = e)"
proof -
  have "distinct (map fst (map (\<lambda>m. (ms_id m, entry_of m)) (t_messages s)))"
    using assms by (simp add: comp_def)
  from map_of_eq_Some_iff [OF this, of i e] show ?thesis by (auto simp: ledger_of_def)
qed

lemma ledger_of_None: "ledger_of s i = None \<longleftrightarrow> i \<notin> ms_id ` set (t_messages s)"
  by (auto simp: ledger_of_def map_of_eq_None_iff image_image)

lemma finite_ledger: "finite {i. ledger_of t i \<noteq> ledger_of s i}"
proof (rule finite_subset)
  show "{i. ledger_of t i \<noteq> ledger_of s i} \<subseteq> dom (ledger_of t) \<union> dom (ledger_of s)"
  proof
    fix i assume "i \<in> {i. ledger_of t i \<noteq> ledger_of s i}"
    then have "ledger_of t i \<noteq> None \<or> ledger_of s i \<noteq> None" by (cases "ledger_of s i") auto
    then show "i \<in> dom (ledger_of t) \<union> dom (ledger_of s)" by blast
  qed
qed (simp add: ledger_of_def finite_dom_map_of)

text \<open>A step that adds no message settles; \<open>turns_progress\<close> says so.\<close>

lemma progress_settles:
  assumes "conv_inv s" "conv_inv t" "turns_progress s t" "ms_id ` set (t_messages t) = ms_id ` set (t_messages s)"
  shows "ledger_settled (ledger_of s) (ledger_of t)"
  unfolding ledger_settled_def
proof
  fix i
  note ds = assms(1,2) [unfolded conv_inv_def message_keys_def]
  show "ledger_of t i = ledger_of s i \<or>
     (\<exists>c n st. ledger_of s i = Some (c, n, Waiting) \<and> ledger_of t i = Some (c, n, st) \<and> st \<noteq> Waiting)"
  proof (cases "ledger_of s i")
    case None
    then have "ledger_of t i = None" using assms(4) by (simp add: ledger_of_None)
    with None show ?thesis by simp
  next
    case (Some e)
    then obtain m where m: "m \<in> set (t_messages s)" "ms_id m = i" "entry_of m = e"
      using ds(1) by (auto simp: ledger_of_Some)
    obtain m' where m': "m' \<in> set (t_messages t)" "fixed_part m' = fixed_part m" "\<not> is_pending m \<longrightarrow> m' = m"
      using assms(3) m(1) unfolding turns_progress_def by blast
    note f = fixed_part_fields [OF m'(2)]
    have t: "ledger_of t i = Some (entry_of m')"
      using ds(2) m'(1) f(1) m(2) by (auto simp: ledger_of_Some)
    show ?thesis
    proof (cases "is_pending m \<and> \<not> is_pending m'")
      case True
      then show ?thesis using t Some m(3) f by (auto simp: entry_of_def is_pending_def)
    next
      case False
      then have "entry_of m' = e" using m(3) m'(3) f by (auto simp: entry_of_def is_pending_def)
      then show ?thesis using t Some by simp
    qed
  qed
qed

lemma progress_ledger_steps:
  assumes "conv_inv s" "conv_inv t" "turns_progress s t" "ms_id ` set (t_messages t) = ms_id ` set (t_messages s)"
  shows "ledger_step\<^sup>*\<^sup>* (ledger_of s) (ledger_of t)"
  by (rule ledger_settled_steps [OF progress_settles [OF assms] finite_ledger])

lemma settle_ids: "settles f \<Longrightarrow> ms_id ` set (update_where p f ms) = ms_id ` set ms"
  using map_update_where [of p ms_id f ms] by (metis list.set_map settles_fields(2))

lemma expire_ids: "ms_id ` set (t_messages (expire_messages cid now s)) = ms_id ` set (t_messages s)"
  by (simp add: expire_messages_def settle_ids [OF settles_failed])

text \<open>Accepting asks, after the expiry has settled.\<close>

lemma accept_asks:
  assumes "conv_inv s" "c \<in> set (t_conversations s)" "message_insertable m s"
    "ms_state m = MSG_PENDING" "ms_conversation_id m = cn_id c" "ms_sequence m = cn_next_sequence c"
  shows "ledger_step (ledger_of s) (ledger_of (with_message c m s))"
proof -
  have d: "distinct (map ms_id (t_messages s))" using assms(1) by (simp add: conv_inv_def message_keys_def)
  have new: "ledger_of s (ms_id m) = None"
    using assms(3) by (auto simp: ledger_of_None message_insertable_def exists_where_iff)
  have "ledger_of (with_message c m s) = (ledger_of s)(ms_id m \<mapsto> entry_of m)"
  proof
    fix i show "ledger_of (with_message c m s) i = ((ledger_of s)(ms_id m \<mapsto> entry_of m)) i"
      using new by (simp add: ledger_of_def with_message_def map_add_def split: option.splits)
  qed
  moreover have "ledger_step (ledger_of s) ((ledger_of s)(ms_id m \<mapsto> (cn_id c, cn_next_sequence c, Waiting)))"
  proof (rule ledger_step.ask [where L = "ledger_of s" and i = "ms_id m"])
    show "ledger_of s (ms_id m) = None" by (rule new)
  next
    fix j n st assume "ledger_of s j = Some (cn_id c, n, st)"
    then obtain r where r: "r \<in> set (t_messages s)" "ms_conversation_id r = cn_id c" "ms_sequence r = n"
      "status_of (ms_state r) = st"
      using d by (auto simp: ledger_of_Some entry_of_def)
    have "ms_state r \<noteq> MSG_PENDING"
      using assms(3,5) r(1,2) by (auto simp: message_insertable_def exists_where_iff)
    moreover obtain c' where c': "c' \<in> set (t_conversations s)" "cn_id c' = cn_id c" "ms_sequence r < cn_next_sequence c'"
      using assms(1) r(1,2) by (fastforce simp: conv_inv_def housed_def)
    moreover have "c' = c"
      using key_eqD [of cn_id "t_conversations s" c' c] assms(1,2) c'(1,2)
      by (simp add: conv_inv_def conversation_keys_def)
    ultimately show "st \<noteq> Waiting \<and> n < cn_next_sequence c" using r by auto
  qed
  ultimately show ?thesis using assms(4-6) by (simp add: entry_of_def)
qed

lemma turn_step_refines:
  assumes "conv_inv s"
  shows "ledger_step\<^sup>*\<^sup>* (ledger_of s) (ledger_of (turn_step u cfg e s))"
proof -
  note settle_case = progress_ledger_steps [OF assms turn_step_inv [OF assms] turn_step_progress [OF assms], of u cfg e]
  show ?thesis
  proof (cases rule: turn_step_cases [of u cfg e s])
    case (accepted ident cid q key corr env a)
    from accepted show ?thesis
    proof (cases rule: accept_Inr)
      case (replayed c k m v)
      then show ?thesis using settle_case by (simp add: expire_ids)
    next
      case (created c k s1 turn m v)
      have inv: "conv_inv s1" unfolding created(3) by (rule expire_inv [OF assms])
      have "ledger_step\<^sup>*\<^sup>* (ledger_of s) (ledger_of s1)"
        using progress_ledger_steps [OF assms inv] created(3) by (simp add: expire_progress expire_ids)
      moreover have "ledger_step (ledger_of s1) (ledger_of (with_message c m s1))"
      proof (rule accept_asks [OF inv _ created(7)])
        show "c \<in> set (t_conversations s1)"
          using owned_Inr(1) [OF created(2)] by (simp add: created(3) expire_messages_def)
      qed (simp_all add: created(6) new_message_fields)
      ultimately show ?thesis using created(8) by simp
    qed
  next
    case (created ident course_id key new_id start v)
    then have "t_messages (turn_step u cfg e s) = t_messages s"
      by (cases rule: create_conversation_Inr) auto
    then show ?thesis using settle_case by simp
  next
    case (saved mid evs now x)
    then have "t_messages (turn_step u cfg e s) = t_messages s" by (cases rule: save_evidence_Inr) simp
    then show ?thesis using settle_case by simp
  next
    case (completed mid d now now' x)
    then have "ms_id ` set (t_messages (turn_step u cfg e s)) = ms_id ` set (t_messages s)"
      by (cases rule: complete_Inr) (simp add: settle_ids [OF settles_completed])
    then show ?thesis by (rule settle_case)
  next
    case (failed mid code now)
    then show ?thesis
      using settle_case by (simp add: fail_message_def settle_ids [OF settles_failed])
  next
    case (expired cid now)
    then show ?thesis using settle_case by (simp add: expire_ids)
  qed simp
qed

lemma turn_run_refines:
  assumes "conv_inv s"
  shows "ledger_step\<^sup>*\<^sup>* (ledger_of s) (ledger_of (fold (turn_step u cfg) es s))"
  using assms
proof (induction es arbitrary: s)
  case (Cons e es)
  have "ledger_step\<^sup>*\<^sup>* (ledger_of (turn_step u cfg e s)) (ledger_of (fold (turn_step u cfg) es (turn_step u cfg e s)))"
    by (rule Cons.IH [OF turn_step_inv [OF Cons.prems]])
  with turn_step_refines [OF Cons.prems, of u cfg e] show ?case by simp
qed simp

end
