(* ===== verification/Conversation_Service.thy ===== *)
theory Conversation_Service
  imports Ledger
begin

text \<open>
  What the conversation service promises its clients: replays, tenancy, the bounded history of
  a request, authentic evidence and complete citations in the views, and the safety of every
  run.
\<close>

section \<open>A sample conversation\<close>

definition chat_ident :: authenticated_identity where
  "chat_ident = \<lparr>id_issuer = py ''i'', id_subject = py ''ana''\<rparr>"

definition chat_version :: document_version where
  "chat_version = \<lparr>dv_id = 4, dv_course_id = 3, dv_document_id = 5, dv_storage_key = py ''k'',
     dv_storage_version_id = Some (py ''v''), dv_original_filename = py ''a.pdf'',
     dv_expected_size_bytes = 9, dv_expected_sha256 = py ''d'', dv_media_type = py ''application/pdf'',
     dv_state = DV_INDEXED, dv_pipeline_version = py ''v1'', dv_parser_version = Some (py ''p''),
     dv_upload_idempotency_key = py ''u'', dv_upload_request_hash = py ''h'',
     dv_confirmation_idempotency_key = Some (py ''c''), dv_confirmation_request_hash = Some (py ''h''),
     dv_object_size_bytes = Some 9, dv_object_sha256 = Some (py ''d''), dv_page_count = Some 1,
     dv_chunk_count = Some 1, dv_failure_code = None, dv_created_at = 0, dv_updated_at = 0\<rparr>"

definition chat_db :: db where
  "chat_db = empty_db\<lparr>
     t_users := [\<lparr>us_id = 1, us_oidc_issuer = py ''i'', us_oidc_subject = py ''ana'', us_created_at = 0\<rparr>],
     t_courses := [\<lparr>co_id = 3, co_title = py ''t'', co_version = 1, co_active_corpus_version_id = Some 8,
       co_created_at = 0, co_updated_at = 0\<rparr>],
     t_memberships := [\<lparr>cm_course_id = 3, cm_user_id = 1, cm_role = STUDENT, cm_created_at = 0\<rparr>],
     t_documents := [\<lparr>do_id = 5, do_course_id = 3, do_title = py ''t'', do_created_by_user_id = 2, do_created_at = 0\<rparr>],
     t_versions := [chat_version],
     t_corpora := [\<lparr>cv_id = 8, cv_course_id = 3, cv_state = CV_READY, cv_pipeline_version = py ''v1'',
       cv_page_count = 1, cv_chunk_count = 1, cv_created_at = 0, cv_ready_at = Some 0\<rparr>],
     t_chunks := [\<lparr>ch_id = 7, ch_course_id = 3, ch_corpus_version_id = 8, ch_document_version_id = 4,
       ch_page_start = 1, ch_page_end = 1, ch_ordinal = 0, ch_content = py ''see Ten Letters'',
       ch_content_hash = py ''h''\<rparr>]\<rparr>"

definition chat_cfg :: conversation_config where
  "chat_cfg = \<lparr>cc_model_version = py ''m'', cc_retrieval_version = py ''r'', cc_message_timeout_seconds = 90\<rparr>"

definition chat_question :: question_request where
  "chat_question = \<lparr>qr_question = py ''why?'', qr_kind = Question_turn, qr_intent = None, qr_parent_message_id = None\<rparr>"

definition chat_env :: accept_env where
  "chat_env = \<lparr>ac_message = 21, ac_expiry = 1, ac_now = 1, ac_start = 1\<rparr>"

definition chat_conversation :: "int \<Rightarrow> conversation" where
  "chat_conversation n = \<lparr>cn_id = 20, cn_course_id = 3, cn_owner_user_id = 1, cn_idempotency_key = py ''k'',
     cn_next_sequence = n, cn_created_at = 0\<rparr>"

definition chat_message :: message where
  "chat_message = new_message chat_cfg (chat_conversation 1) (py ''q1'') (py ''r'') (Some 8) chat_question
     (Question_turn, None, None, None) chat_env"

definition asked_db :: db where
  "asked_db = chat_db\<lparr>t_conversations := [chat_conversation 2], t_messages := [chat_message]\<rparr>"

definition evidence_db :: db where
  "evidence_db = asked_db\<lparr>t_evidence := [evidence_row 21 sample_evidence]\<rparr>"

definition answered_db :: db where
  "answered_db = evidence_db\<lparr>
     t_citations := [\<lparr>ct_message_id = 21, ct_chunk_id = 7, ct_course_id = 3, ct_ordinal = 0, ct_quote = py ''Ten Letters''\<rparr>],
     t_messages := [completed_with (sample_draft (py ''Ten Letters'')) 5 chat_message]\<rparr>"

lemma chat_created:
  "create_conversation chat_ident 3 (Some (py ''k'')) 20 0 chat_db =
     Inr (\<lparr>nw_id = 20, nw_course_id = 3, nw_created_at = 0\<rparr>, chat_db\<lparr>t_conversations := [chat_conversation 1]\<rparr>)"
  by (simp add: create_conversation_def conversation_key_def strip_def is_space_def py_def member_def chat_db_def
      chat_ident_def has_identity_def has_membership_def exists_where_def empty_db_def one_def chat_conversation_def)

lemma chat_phrase: "detect_intent ascii_db (py ''why?'') = (Question_turn, None)"
proof -
  have "strip (py ''why?'') = py ''why?''" by (rule strip_id) (simp add: py_def is_space_def)
  moreover have "lower ascii_db (py ''why?'') = py ''why?''"
    by (subst lower_ascii) (simp_all add: py_def ascii_lower_def)
  moreover have "filter (\<lambda>c. is_word ascii_db c \<or> is_space c) (py ''why?'') = py ''why''"
    by (simp add: py_def is_word_def is_space_def)
  moreover have "py_split (py ''why'') = [py ''why'']"
    by (simp add: py_split.simps [of "[119, 104, 121]"] py_split.simps [of "[]"] py_def is_space_def)
  ultimately have "phrase_of ascii_db (py ''why?'') = py ''why''" by (simp add: phrase_of_def)
  then show ?thesis
    by (simp add: detect_intent_def dont_know_phrases_def hint_phrases_def explain_phrases_def py_def)
qed

definition chat_asked :: db where
  "chat_asked = chat_db\<lparr>t_conversations := [chat_conversation 1]\<rparr>"

lemma chat_accepted:
  "\<exists>v. accept ascii_db chat_cfg chat_ident 20 chat_question (Some (py ''q1'')) (py ''r'') chat_env chat_asked =
     Inr (\<lparr>am_message = v, am_created = True, am_owner_user_id = 1, am_correlation_id = py ''r''\<rparr>, asked_db) \<and>
     mv_id v = 21 \<and> mv_sequence v = 1 \<and> message_view_of asked_db chat_message = Inr v"
proof -
  have o: "owned chat_ident 20 chat_asked = Inr (chat_conversation 1)"
    by (simp add: owned_def chat_asked_def chat_conversation_def owner_of_def has_identity_def chat_db_def
        chat_ident_def has_membership_def exists_where_def)
  have k: "conversation_key (Some (py ''q1'')) = Inr (py ''q1'')"
    by (simp add: conversation_key_def strip_def is_space_def py_def)
  have e: "expire_messages (Some 20) 1 chat_asked = chat_asked"
    by (simp add: expire_messages_def chat_asked_def chat_db_def empty_db_def update_where_def)
  have m: "t_messages chat_asked = []" by (simp add: chat_asked_def chat_db_def empty_db_def)
  have r: "resolve_turn ascii_db (chat_conversation 1) chat_question chat_asked = Inr (Question_turn, None, None, None)"
    by (simp add: resolve_turn_def chat_question_def chat_phrase)
  have a: "active_corpus 3 chat_asked = Some 8"
    by (simp add: active_corpus_def chat_asked_def chat_db_def exists_where_def)
  have n: "new_message chat_cfg (chat_conversation 1) (py ''q1'') (py ''r'')
      (active_corpus (cn_course_id (chat_conversation 1)) chat_asked) chat_question
      (Question_turn, None, None, None) chat_env = chat_message"
    using a by (simp add: chat_message_def chat_conversation_def)
  have i: "message_insertable chat_message chat_asked"
    by (simp add: message_insertable_def m exists_where_def ck_parent_def ck_sequence_def ck_terminal_payload_def
        chat_message_def new_message_def chat_conversation_def chat_question_def btrim_def py_def len_between_def)
  have w: "chat_asked\<lparr>t_conversations := update_where (\<lambda>r. cn_id r = cn_id (chat_conversation 1))
      (\<lambda>r. r\<lparr>cn_next_sequence := cn_next_sequence r + 1\<rparr>) (t_conversations chat_asked),
      t_messages := [chat_message]\<rparr> = asked_db"
    by (simp add: asked_db_def chat_asked_def update_where_def chat_conversation_def)
  have x: "ac_expiry chat_env = 1" "qr_question chat_question = py ''why?''" "cn_owner_user_id (chat_conversation 1) = 1"
    by (simp_all add: chat_env_def chat_question_def chat_conversation_def)
  have v: "\<exists>v. message_view_of asked_db chat_message = Inr v \<and> mv_id v = 21 \<and> mv_sequence v = 1"
    by (simp add: message_view_of_def answer_view_of_def chat_message_def new_message_def chat_env_def chat_conversation_def)
  show ?thesis
    using v
    by (auto simp: accept_def k o e m r n i w x Let_def exists_where_def)
qed


lemma chat_pending: "pending 21 5 asked_db = Inr chat_message"
  by (simp add: pending_def asked_db_def chat_message_def new_message_def chat_env_def chat_cfg_def seconds_def)

lemma chat_saved: "save_evidence 21 [sample_evidence] 5 asked_db = Inr ((), evidence_db)"
proof -
  have m: "ms_course_id chat_message = 3" "ms_corpus_version_id chat_message = Some 8" "ms_id chat_message = 21"
    by (simp_all add: chat_message_def new_message_def chat_conversation_def chat_env_def)
  have e: "ev_course_id sample_evidence = 3" "ev_corpus_version_id sample_evidence = 8" "ev_chunk_id sample_evidence = 7"
    by (simp_all add: sample_evidence_def)
  have r: "stored_rows chat_message 7 asked_db = [(hd (t_chunks asked_db), chat_version, hd (t_documents asked_db))]"
    by (simp add: stored_rows_def m asked_db_def chat_db_def chat_version_def)
  have a: "agrees sample_evidence (hd (t_chunks asked_db), chat_version, hd (t_documents asked_db))"
    by (simp add: agrees_def sample_evidence_def asked_db_def chat_db_def chat_version_def dec_int_def dec_nat.simps py_def)
  have f: "flush_evidence (Some (evidence_row 21 sample_evidence)) asked_db = Inr evidence_db"
    by (simp add: flush_evidence_def asked_db_def chat_db_def empty_db_def exists_where_def evidence_db_def)
  show ?thesis
    by (simp add: save_evidence_def chat_pending m e r a f flush_evidence_def [of None] one_or_none_def)
qed

lemma chat_completed:
  "complete 21 (sample_draft (py ''Ten Letters'')) 5 5 evidence_db = Inr ((), answered_db)"
proof -
  have p: "pending 21 5 evidence_db = Inr chat_message"
    using chat_pending by (simp add: pending_def evidence_db_def)
  have r: "citation_rows_of chat_message (td_citations (sample_draft (py ''Ten Letters''))) =
      [\<lparr>ct_message_id = 21, ct_chunk_id = 7, ct_course_id = 3, ct_ordinal = 0, ct_quote = py ''Ten Letters''\<rparr>]"
    by (simp add: citation_rows_of_def sample_draft_def chat_message_def new_message_def chat_env_def chat_conversation_def)
  have i: "citations_insertable
      [\<lparr>ct_message_id = 21, ct_chunk_id = 7, ct_course_id = 3, ct_ordinal = 0, ct_quote = py ''Ten Letters''\<rparr>] evidence_db"
    by (simp add: citations_insertable_def evidence_db_def asked_db_def chat_db_def empty_db_def exists_where_def
        evidence_row_def sample_evidence_def)
  have u: "update_where (\<lambda>r. ms_id r = ms_id chat_message) f (t_messages evidence_db) = [f chat_message]" for f
    by (simp add: evidence_db_def asked_db_def update_where_def)
  have c: "t_citations evidence_db = []"
    by (simp add: evidence_db_def asked_db_def chat_db_def empty_db_def)
  show ?thesis by (simp add: complete_def p r i u c answered_db_def Let_def)
qed

lemma conv_inv_start:
  assumes "t_conversations s = []" "t_messages s = []" "t_evidence s = []" "t_citations s = []"
  shows "conv_inv s"
  using assms by (simp add: conv_inv_def conversation_keys_def message_keys_def evidence_keys_def)

definition chat_events :: "turn_event list" where
  "chat_events = [Create_conversation chat_ident 3 (Some (py ''k'')) 20 0,
     Accept chat_ident 20 chat_question (Some (py ''q1'')) (py ''r'') chat_env,
     Save_evidence 21 [sample_evidence] 5, Complete 21 (sample_draft (py ''Ten Letters'')) 5 5]"

lemma chat_run: "fold (turn_step ascii_db chat_cfg) chat_events chat_db = answered_db"
proof -
  obtain v where a: "accept ascii_db chat_cfg chat_ident 20 chat_question (Some (py ''q1'')) (py ''r'') chat_env chat_asked =
     Inr (\<lparr>am_message = v, am_created = True, am_owner_user_id = 1, am_correlation_id = py ''r''\<rparr>, asked_db)"
    using chat_accepted by blast
  show ?thesis
    by (simp add: chat_events_def chat_created chat_asked_def [symmetric] a chat_saved chat_completed)
qed

lemma chat_db_start:
  "t_conversations chat_db = []" "t_messages chat_db = []" "t_evidence chat_db = []" "t_citations chat_db = []"
  by (simp_all add: chat_db_def empty_db_def)

section \<open>Safety of runs\<close>

text \<open>C10: whatever sequence of requests, evidence, outcomes and expiries reaches a service that
  started without conversations: a conversation has at most one pending message; its messages
  have distinct numbers and keys, numbered below the conversation's next number; an action
  refers to an earlier completed message of the same conversation; evidence lies in the corpus
  its message captured, at most once per chunk; and every citation belongs to a completed
  message and cites evidence retrieved for that very message.\<close>

theorem conversation_safety:
  assumes "t_conversations s = []" "t_messages s = []" "t_evidence s = []" "t_citations s = []"
  shows "let t = fold (turn_step u cfg) es s in
     distinct (map ms_conversation_id (filter is_pending (t_messages t))) \<and>
     distinct (map (\<lambda>m. (ms_conversation_id m, ms_sequence m)) (t_messages t)) \<and>
     distinct (map (\<lambda>m. (ms_conversation_id m, ms_idempotency_key m)) (t_messages t)) \<and>
     (\<forall>m \<in> set (t_messages t). 0 < ms_sequence m \<and>
        (\<exists>c \<in> set (t_conversations t). cn_id c = ms_conversation_id m \<and> ms_sequence m < cn_next_sequence c) \<and>
        (ms_kind m = Action_turn \<longrightarrow> (\<exists>r \<in> set (t_messages t). ms_parent_message_id m = Some (ms_id r) \<and>
           ms_conversation_id r = ms_conversation_id m \<and> ms_state r = MSG_COMPLETED \<and>
           ms_sequence r < ms_sequence m))) \<and>
     distinct (map (\<lambda>e. (re_message_id e, re_chunk_id e)) (t_evidence t)) \<and>
     (\<forall>e \<in> set (t_evidence t). \<exists>m \<in> set (t_messages t). ms_id m = re_message_id e \<and>
        ms_corpus_version_id m = Some (re_corpus_version_id e)) \<and>
     (\<forall>c \<in> set (t_citations t). (\<exists>m \<in> set (t_messages t). ms_id m = ct_message_id c \<and> ms_state m = MSG_COMPLETED) \<and>
        (\<exists>e \<in> set (t_evidence t). re_message_id e = ct_message_id c \<and> re_chunk_id e = ct_chunk_id c))"
proof -
  have inv: "conv_inv (fold (turn_step u cfg) es s)" by (rule turns.inv_run [OF conv_inv_start [OF assms]])
  have kind: "ms_parent_message_id m \<noteq> None" if "ck_parent m" "ms_kind m = Action_turn" for m
    using that by (simp add: ck_parent_def)
  show ?thesis
    using inv kind
    unfolding Let_def conv_inv_def message_keys_def row_ok_def housed_def parented_def evidence_keys_def
      evidence_of_def citation_of_def ck_sequence_def
    by (fastforce simp del: not_None_eq)
qed

theorem conversation_safety_witness:
  "\<exists>e \<in> set (t_evidence answered_db). re_message_id e = 21 \<and> re_chunk_id e = 7"
  using conversation_safety [of chat_db ascii_db chat_cfg chat_events, OF chat_db_start]
  by (simp add: chat_run Let_def answered_db_def)

text \<open>C13: the rows of the message table meet the CHECK constraints of the schema after every run: a
  pending message has no outcome, a failed one exactly a failure code, a completed one exactly
  an answer with its mode and grounding, and only actions have a parent. Reading such a row
  never fails.\<close>

theorem message_rows_checked:
  assumes "t_conversations s = []" "t_messages s = []" "t_evidence s = []" "t_citations s = []"
  shows "\<forall>m \<in> set (t_messages (fold (turn_step u cfg) es s)).
     ck_terminal_payload m \<and> ck_parent m \<and> ck_sequence m \<and> len_between 1 4000 (btrim (ms_question m)) \<and>
     (\<exists>v. message_view_of (fold (turn_step u cfg) es s) m = Inr v \<and>
        (mv_response v = None \<longleftrightarrow> ms_state m \<noteq> MSG_COMPLETED))"
proof
  fix m assume m: "m \<in> set (t_messages (fold (turn_step u cfg) es s))"
  have "conv_inv (fold (turn_step u cfg) es s)" by (rule turns.inv_run [OF conv_inv_start [OF assms]])
  then have r: "row_ok m" using m by (simp add: conv_inv_def)
  then have "\<exists>v. message_view_of (fold (turn_step u cfg) es s) m = Inr v \<and> (mv_response v = None \<longleftrightarrow> ms_state m \<noteq> MSG_COMPLETED)"
    by (cases "ms_state m") (auto simp: message_view_of_def answer_view_of_def row_ok_def ck_terminal_payload_def)
  then show "ck_terminal_payload m \<and> ck_parent m \<and> ck_sequence m \<and> len_between 1 4000 (btrim (ms_question m)) \<and>
     (\<exists>v. message_view_of (fold (turn_step u cfg) es s) m = Inr v \<and> (mv_response v = None \<longleftrightarrow> ms_state m \<noteq> MSG_COMPLETED))"
    using r by (simp add: row_ok_def)
qed

theorem message_rows_checked_witness:
  "\<exists>v. message_view_of answered_db (hd (t_messages answered_db)) = Inr v \<and> mv_response v \<noteq> None"
proof -
  have m: "hd (t_messages answered_db) \<in> set (t_messages (fold (turn_step ascii_db chat_cfg) chat_events chat_db))"
    by (simp add: chat_run answered_db_def)
  have "ms_state (hd (t_messages answered_db)) = MSG_COMPLETED"
    by (simp add: answered_db_def completed_with_def Let_def sample_draft_def)
  then show ?thesis
    using bspec [OF message_rows_checked [of chat_db ascii_db chat_cfg chat_events, OF chat_db_start] m]
    by (auto simp: chat_run)
qed

text \<open>C11: a message that is completed or failed is final: no later run changes it, or adds or removes
  evidence or citations of it, and no message ever changes its question, number, conversation
  or captured corpus.\<close>

theorem message_final:
  assumes "t_conversations s = []" "t_messages s = []" "t_evidence s = []" "t_citations s = []"
  shows "let t = fold (turn_step u cfg) es s; w = fold (turn_step u cfg) es' t in
     (\<forall>m \<in> set (t_messages t). ms_state m \<noteq> MSG_PENDING \<longrightarrow> m \<in> set (t_messages w) \<and>
        (\<forall>e. re_message_id e = ms_id m \<longrightarrow> e \<in> set (t_evidence w) \<longleftrightarrow> e \<in> set (t_evidence t)) \<and>
        (\<forall>c. ct_message_id c = ms_id m \<longrightarrow> c \<in> set (t_citations w) \<longleftrightarrow> c \<in> set (t_citations t))) \<and>
     (\<forall>m \<in> set (t_messages t). \<exists>m' \<in> set (t_messages w). fixed_part m' = fixed_part m)"
proof -
  let ?t = "fold (turn_step u cfg) es s"
  let ?w = "fold (turn_step u cfg) es' ?t"
  have inv: "conv_inv ?t" by (rule turns.inv_run [OF conv_inv_start [OF assms]])
  have p: "turns_progress ?t ?w" by (rule turns.rel_run [OF inv])
  have "ended_in ?t (ms_id m)" if "m \<in> set (t_messages ?t)" "ms_state m \<noteq> MSG_PENDING" for m
    using that by (auto simp: ended_in_def is_pending_def)
  then show ?thesis
    using p unfolding Let_def turns_progress_def is_pending_def by fastforce
qed

theorem message_final_witness:
  "hd (t_messages answered_db) \<in> set (t_messages (fold (turn_step ascii_db chat_cfg) [Fail 21 ''X'' 9, Expire 1000] answered_db))"
proof -
  have "ms_state (hd (t_messages answered_db)) \<noteq> MSG_PENDING" "hd (t_messages answered_db) \<in> set (t_messages answered_db)"
    by (simp_all add: answered_db_def completed_with_def Let_def sample_draft_def)
  then show ?thesis
    using message_final [of chat_db ascii_db chat_cfg chat_events "[Fail 21 ''X'' 9, Expire 1000]", OF chat_db_start]
    by (simp only: chat_run Let_def) blast
qed




section \<open>Replays\<close>

lemma others_fields:
  assumes "other_tables t = other_tables s"
  shows "t_users t = t_users s" "t_memberships t = t_memberships s" "t_chunks t = t_chunks s"
    "t_corpora t = t_corpora s" "t_courses t = t_courses s"
proof -
  have pick: "t_users (other_tables s) = t_users s" "t_memberships (other_tables s) = t_memberships s"
    "t_chunks (other_tables s) = t_chunks s" "t_corpora (other_tables s) = t_corpora s"
    "t_courses (other_tables s) = t_courses s" for s
    by (simp_all add: other_tables_def)
  show "t_users t = t_users s" "t_memberships t = t_memberships s" "t_chunks t = t_chunks s"
    "t_corpora t = t_corpora s" "t_courses t = t_courses s"
    using pick [of s] pick [of t] assms by simp_all
qed

text \<open>A conversation stays its owner's.\<close>

lemma owned_later:
  assumes "conv_inv t" "owned ident cid s = Inr c" "turns_progress s t" "other_tables t = other_tables s"
  obtains c' where "owned ident cid t = Inr c'" "cn_owner_user_id c' = cn_owner_user_id c"
proof -
  note o = owned_Inr [OF assms(2)]
  obtain c' where c': "c' \<in> set (t_conversations t)" "c'\<lparr>cn_next_sequence := 0\<rparr> = c\<lparr>cn_next_sequence := 0\<rparr>"
    using assms(3) o(1) unfolding turns_progress_def kept_conversations_def by blast
  have e: "cn_id c' = cn_id c" "cn_owner_user_id c' = cn_owner_user_id c" "cn_course_id c' = cn_course_id c"
    using arg_cong [OF c'(2), of cn_id] arg_cong [OF c'(2), of cn_owner_user_id]
      arg_cong [OF c'(2), of cn_course_id] by simp_all
  have ow: "owner_of ident t c'"
    using o(3) e others_fields [OF assms(4)] by (simp add: owner_of_def has_membership_def)
  have "find (\<lambda>c. cn_id c = cid \<and> owner_of ident t c) (t_conversations t) = Some c'"
  proof (rule find_unique [OF c'(1)])
    fix y assume "y \<in> set (t_conversations t)" "cn_id y = cid \<and> owner_of ident t y"
    then show "y = c'"
      using key_eqD [of cn_id "t_conversations t" y c'] assms(1) c'(1) e(1) o(2)
      by (simp add: conv_inv_def conversation_keys_def)
  qed (use o(2) e(1) ow in simp)
  then show ?thesis using that [of c'] e(2) by (simp add: owned_def)
qed

text \<open>A message accepted under a key is found again under it.\<close>

lemma accepted_message_stored:
  assumes "accept u cfg ident cid q key corr env s = Inr (a, s')"
  obtains k c m where "conversation_key key = Inr k" "owned ident cid s = Inr c" "m \<in> set (t_messages s')"
    "ms_conversation_id m = cid" "ms_idempotency_key m = k" "ms_question m = qr_question q"
    "mv_id (am_message a) = ms_id m" "mv_sequence (am_message a) = ms_sequence m"
    "am_correlation_id a = ms_correlation_id m" "am_owner_user_id a = cn_owner_user_id c"
  using assms
proof (cases rule: accept_Inr)
  case (replayed c k m v)
  then show ?thesis
    using that [OF replayed(1,2,4-7)] by (auto simp: message_view_of_def result_simps)
next
  case (created c k s1 turn m v)
  note f = new_message_fields [of cfg c k corr "active_corpus (cn_course_id c) s1" q turn env, folded created(6)]
  have "m \<in> set (t_messages s')" by (simp add: created(8) with_message_def)
  moreover have "ms_conversation_id m = cid" using f(3) owned_Inr(2) [OF created(2)] by simp
  ultimately show ?thesis
    using that [OF created(1,2), of m] f created(9,10) by (auto simp: message_view_of_def result_simps)
qed

lemma row_view:
  assumes "row_ok m"
  obtains v where "message_view_of s m = Inr v" "mv_id v = ms_id m" "mv_sequence v = ms_sequence m"
    "mv_question v = ms_question m"
  using assms
  by (cases "ms_state m") (auto simp: message_view_of_def answer_view_of_def row_ok_def ck_terminal_payload_def)

lemma accept_found:
  assumes "conv_inv s" "accept u cfg ident cid q key corr env s = Inr (a, s')"
    "conv_inv t" "turns_progress s' t" "other_tables t = other_tables s'"
  obtains k c m v where "conversation_key key = Inr k" "owned ident cid t = Inr c"
    "cn_owner_user_id c = am_owner_user_id a"
    "find (\<lambda>m. ms_conversation_id m = cid \<and> ms_idempotency_key m = k)
       (t_messages (expire_messages (Some cid) now t)) = Some m"
    "ms_question m = qr_question q" "message_view_of (expire_messages (Some cid) now t) m = Inr v"
    "mv_id v = mv_id (am_message a)" "mv_sequence v = mv_sequence (am_message a)"
    "ms_correlation_id m = am_correlation_id a"
proof -
  let ?t1 = "expire_messages (Some cid) now t"
  obtain k c m where m: "conversation_key key = Inr k" "owned ident cid s = Inr c" "m \<in> set (t_messages s')"
    "ms_conversation_id m = cid" "ms_idempotency_key m = k" "ms_question m = qr_question q"
    "mv_id (am_message a) = ms_id m" "mv_sequence (am_message a) = ms_sequence m"
    "am_correlation_id a = ms_correlation_id m" "am_owner_user_id a = cn_owner_user_id c"
    by (rule accepted_message_stored [OF assms(2)])
  have o': "other_tables s' = other_tables s"
    using turn_step_others [of u cfg "Accept ident cid q key corr env" s] assms(2) by simp
  have st: "turns_progress s t" using turns_progress_trans [OF accept_progress [OF assms(2)] assms(4)] .
  obtain c' where c': "owned ident cid t = Inr c'" "cn_owner_user_id c' = cn_owner_user_id c"
    by (rule owned_later [OF assms(3) m(2) st]) (use assms(5) o' in simp)
  have inv1: "conv_inv ?t1" by (rule expire_inv [OF assms(3)])
  have "turns_progress s' ?t1" by (rule turns_progress_trans [OF assms(4) expire_progress])
  then obtain m1 where m1: "m1 \<in> set (t_messages ?t1)" "fixed_part m1 = fixed_part m"
    using m(3) unfolding turns_progress_def by blast
  note f = fixed_part_fields [OF m1(2)]
  have fnd: "find (\<lambda>m. ms_conversation_id m = cid \<and> ms_idempotency_key m = k) (t_messages ?t1) = Some m1"
  proof (rule find_unique [OF m1(1)])
    fix y assume "y \<in> set (t_messages ?t1)" "ms_conversation_id y = cid \<and> ms_idempotency_key y = k"
    then show "y = m1"
      using key_eqD [of "\<lambda>m. (ms_conversation_id m, ms_idempotency_key m)" "t_messages ?t1" y m1] inv1 m1(1) f m(4,5)
      by (simp add: conv_inv_def message_keys_def)
  qed (use f m(4,5) in simp)
  have "row_ok m1" using inv1 m1(1) by (simp add: conv_inv_def)
  then obtain v where "message_view_of ?t1 m1 = Inr v" "mv_id v = ms_id m1" "mv_sequence v = ms_sequence m1"
    by (rule row_view)
  then show ?thesis using that [OF m(1) c'(1) _ fnd] f m c'(2) by simp
qed

text \<open>A question is accepted once. Repeating an accepted request with its key, after any further
  run of the service, answers the same message as not created, to be neither run nor stored
  again; and the same key with another question is refused with 409.\<close>

lemma accept_idempotent:
  assumes "t_conversations s0 = []" "t_messages s0 = []" "t_evidence s0 = []" "t_citations s0 = []"
    "s = fold (turn_step u cfg) es s0" "accept u cfg ident cid q key corr env s = Inr (a, s')"
    "t = fold (turn_step u cfg) es' s'"
  shows "(if qr_question q' = qr_question q
      then \<exists>b t'. accept u cfg ident cid q' key corr' env' t = Inr (b, t') \<and> \<not> am_created b \<and>
        mv_id (am_message b) = mv_id (am_message a) \<and> mv_sequence (am_message b) = mv_sequence (am_message a) \<and>
        am_owner_user_id b = am_owner_user_id a \<and> length (t_messages t') = length (t_messages t)
      else accept u cfg ident cid q' key corr' env' t = Inl (APIError 409 ''idempotency_key_reused''))"
proof -
  have inv: "conv_inv s" unfolding assms(5) by (rule turns.inv_run [OF conv_inv_start [OF assms(1-4)]])
  have inv': "conv_inv s'" by (rule accept_inv [OF inv assms(6)])
  have invt: "conv_inv t" unfolding assms(7) by (rule turns.inv_run [OF inv'])
  have p: "turns_progress s' t" unfolding assms(7) by (rule turns.rel_run [OF inv'])
  have o: "other_tables t = other_tables s'" unfolding assms(7) by (rule turn_run_others)
  obtain k c m v where f: "conversation_key key = Inr k" "owned ident cid t = Inr c"
    "cn_owner_user_id c = am_owner_user_id a"
    "find (\<lambda>m. ms_conversation_id m = cid \<and> ms_idempotency_key m = k)
       (t_messages (expire_messages (Some cid) (ac_expiry env') t)) = Some m"
    "ms_question m = qr_question q" "message_view_of (expire_messages (Some cid) (ac_expiry env') t) m = Inr v"
    "mv_id v = mv_id (am_message a)" "mv_sequence v = mv_sequence (am_message a)"
    "ms_correlation_id m = am_correlation_id a"
    by (rule accept_found [OF inv assms(6) invt p o])
  have len: "length (t_messages (expire_messages (Some cid) (ac_expiry env') t)) = length (t_messages t)"
    by (simp add: expire_messages_def)
  show ?thesis using f len by (simp add: accept_def Let_def)
qed

section \<open>Tenancy\<close>



section \<open>The history of a request\<close>

definition turn_size :: "history_turn \<Rightarrow> int" where
  "turn_size h = int (length (ht_question h)) + int (length (ht_answer h))"

definition turn_of :: "message \<Rightarrow> history_turn" where
  "turn_of m = \<lparr>ht_question = ms_question m, ht_answer = (case ms_answer m of None \<Rightarrow> [] | Some a \<Rightarrow> a),
     ht_situation = ms_situation m, ht_help_level = (case ms_help_level m of None \<Rightarrow> 0 | Some l \<Rightarrow> l)\<rparr>"

text \<open>The loop takes the longest prefix that fits.\<close>

lemma history_turns_prefix:
  "\<exists>n \<le> length ms. history_turns r ms = map turn_of (take n ms) \<and>
     (0 \<le> r \<longrightarrow> sum_list (map turn_size (history_turns r ms)) \<le> r) \<and>
     (n < length ms \<longrightarrow> sum_list (map turn_size (map turn_of (take (Suc n) ms))) > r)"
proof (induction ms arbitrary: r)
  case Nil
  show ?case by simp
next
  case (Cons m ms)
  define sz where "sz = turn_size (turn_of m)"
  have eq: "history_turns r (m # ms) = (if sz > r then [] else turn_of m # history_turns (r - sz) ms)"
    by (simp add: sz_def turn_size_def turn_of_def Let_def)
  have nonneg: "0 \<le> turn_size h" for h by (simp add: turn_size_def)
  show ?case
  proof (cases "sz > r")
    case True
    then show ?thesis by (intro exI [of _ 0]) (simp add: eq sz_def del: history_turns.simps)
  next
    case False
    then obtain n where n: "n \<le> length ms" "history_turns (r - sz) ms = map turn_of (take n ms)"
      "0 \<le> r - sz \<longrightarrow> sum_list (map turn_size (history_turns (r - sz) ms)) \<le> r - sz"
      "n < length ms \<longrightarrow> sum_list (map turn_size (map turn_of (take (Suc n) ms))) > r - sz"
      using Cons.IH [of "r - sz"] by blast
    have "sum_list (map turn_size (map turn_of (take (Suc (Suc n)) (m # ms)))) =
        sz + sum_list (map turn_size (map turn_of (take (Suc n) ms)))"
      by (simp add: sz_def)
    then show ?thesis
      using False n by (intro exI [of _ "Suc n"]) (auto simp: eq sz_def simp del: history_turns.simps)
  qed
qed

lemma previous_messages_sorted:
  "sorted (map (\<lambda>m. - ms_sequence m) (previous_messages v s))"
  unfolding previous_messages_def take_map [symmetric] by (intro sorted_wrt_take) (simp add: sorted_sort_key)

text \<open>C15: the request for a message carries its own conversation's completed turns before it, at most
  six and the newest that fit, in order, with at most 12000 characters of text in total; and it
  is scoped to the course, corpus, owner and conversation captured when it was accepted.\<close>

theorem request_bounded_history:
  assumes "tutor_request_of a evs s = Inr (r, s')"
  shows "s' = s \<and> tr_evidence r = evs \<and> length (tr_history r) \<le> 6 \<and>
    sum_list (map turn_size (tr_history r)) \<le> 12000 \<and>
    (\<exists>n ms. ms = rev (take n (previous_messages (am_message a) s)) \<and> tr_history r = map turn_of ms \<and>
       (n < length (previous_messages (am_message a) s) \<longrightarrow>
          sum_list (map turn_size (map turn_of (take (Suc n) (previous_messages (am_message a) s)))) > 12000) \<and>
       sorted (map ms_sequence ms) \<and>
       (\<forall>m \<in> set ms. m \<in> set (t_messages s) \<and> ms_state m = MSG_COMPLETED \<and>
          ms_conversation_id m = mv_conversation_id (am_message a) \<and> ms_sequence m < mv_sequence (am_message a))) \<and>
    mv_corpus_version_id (am_message a) = Some (rs_corpus_version_id (tr_scope r)) \<and>
    rs_principal_user_id (tr_scope r) = am_owner_user_id a \<and> rs_message_id (tr_scope r) = mv_id (am_message a)"
proof -
  let ?p = "previous_messages (am_message a) s"
  obtain corpus where c: "mv_corpus_version_id (am_message a) = Some corpus" "s' = s" "tr_evidence r = evs"
    "tr_scope r = scope_of a corpus" and h: "tr_history r = rev (history_turns 12000 ?p)"
    using assms by (auto simp: tutor_request_of_def split: option.splits)
  obtain n where n: "n \<le> length ?p" "history_turns 12000 ?p = map turn_of (take n ?p)"
    "sum_list (map turn_size (history_turns 12000 ?p)) \<le> 12000"
    "n < length ?p \<longrightarrow> sum_list (map turn_size (map turn_of (take (Suc n) ?p))) > 12000"
    using history_turns_prefix [where r = 12000 and ms = ?p] by (metis zero_le_numeral)
  let ?ms = "rev (take n ?p)"
  have len: "length ?p \<le> 6" by (simp add: previous_messages_def)
  have ms: "tr_history r = map turn_of ?ms" by (simp add: h n(2) rev_map)
  have "sorted (map (\<lambda>m. - ms_sequence m) (take n ?p))"
    using previous_messages_sorted [of "am_message a" s] by (simp add: take_map [symmetric] sorted_wrt_take)
  then have "sorted_wrt (\<lambda>a b. ms_sequence b \<le> ms_sequence a) (take n ?p)" by (simp add: sorted_map)
  then have "sorted (map ms_sequence ?ms)" by (simp add: sorted_map sorted_wrt_rev)
  moreover have "m \<in> set (t_messages s) \<and> ms_state m = MSG_COMPLETED \<and>
      ms_conversation_id m = mv_conversation_id (am_message a) \<and> ms_sequence m < mv_sequence (am_message a)"
    if "m \<in> set ?ms" for m
    using that by (auto simp: previous_messages_def dest!: in_set_takeD)
  moreover have "sum_list (map turn_size (tr_history r)) \<le> 12000"
    using n(3) unfolding h by (simp add: rev_map [symmetric] sum_list_rev)
  moreover have "length (tr_history r) \<le> 6" using ms n(1) len by simp
  ultimately show ?thesis using c ms n(4) by (auto simp: scope_of_def simp del: set_rev)
qed

theorem request_bounded_history_witness:
  "\<exists>r. tutor_request_of \<lparr>am_message = \<lparr>mv_id = 21, mv_course_id = 3, mv_conversation_id = 20,
      mv_corpus_version_id = Some 8, mv_sequence = 1, mv_question = py ''why?'', mv_state = MSG_PENDING,
      mv_response = None, mv_failure_code = None, mv_failure_message = None, mv_created_at = 1,
      mv_completed_at = None, mv_kind = Question_turn, mv_intent = None, mv_parent_message_id = None\<rparr>,
      am_created = True, am_owner_user_id = 1, am_correlation_id = py ''r''\<rparr> [] asked_db = Inr (r, asked_db) \<and>
     length (tr_history r) \<le> 6 \<and> rs_corpus_version_id (tr_scope r) = 8"
  (is "\<exists>r. tutor_request_of ?a [] asked_db = Inr (r, asked_db) \<and> _")
proof -
  have "find (\<lambda>m. ms_id m = mv_id (am_message ?a)) (t_messages asked_db) = Some chat_message"
    by (simp add: asked_db_def chat_message_def new_message_def chat_env_def)
  then obtain r where r: "tutor_request_of ?a [] asked_db = Inr (r, asked_db)"
    by (simp add: tutor_request_of_def)
  from request_bounded_history [OF r] r show ?thesis by auto
qed


section \<open>Citations in the views\<close>

lemma insort_key_map: "insort_key f (g x) (map g xs) = map g (insort_key (\<lambda>y. f (g y)) x xs)"
  by (induction xs) simp_all

lemma sort_key_map: "sort_key f (map g xs) = map g (sort_key (\<lambda>y. f (g y)) xs)"
  by (induction xs) (simp_all add: insort_key_map)

lemma concat_map_if: "concat (map (\<lambda>x. if P x then [f x] else []) xs) = map f (filter P xs)"
  by (induction xs) simp_all

definition evidence_for :: "db \<Rightarrow> citation \<Rightarrow> retrieved_evidence \<Rightarrow> bool" where
  "evidence_for s c e \<longleftrightarrow> re_message_id e = ct_message_id c \<and> re_chunk_id e = ct_chunk_id c \<and>
     re_course_id e = ct_course_id c"

text \<open>Every citation of a message joins with exactly one row of evidence.\<close>

lemma citation_rows_complete:
  assumes "conv_inv s"
  obtains E where "citation_rows mid s = map (\<lambda>c. (c, E c))
      (sort_key ct_ordinal (filter (\<lambda>c. ct_message_id c = mid) (t_citations s)))"
    "\<And>c. c \<in> set (t_citations s) \<Longrightarrow> E c \<in> set (t_evidence s) \<and> evidence_for s c (E c)"
proof -
  define E where "E c = (SOME e. e \<in> set (t_evidence s) \<and> evidence_for s c e)" for c
  have E: "E c \<in> set (t_evidence s) \<and> evidence_for s c (E c)" if "c \<in> set (t_citations s)" for c
  proof -
    have "\<exists>e. e \<in> set (t_evidence s) \<and> evidence_for s c e"
      using assms that by (auto simp: conv_inv_def citation_of_def evidence_for_def)
    then show ?thesis unfolding E_def by (rule someI_ex)
  qed
  have keys: "distinct (map (\<lambda>e. (re_message_id e, re_chunk_id e)) (t_evidence s))"
    using assms by (simp add: conv_inv_def evidence_keys_def)
  have single: "concat (map (\<lambda>e. if re_message_id e = ct_message_id c \<and> re_chunk_id e = ct_chunk_id c \<and>
      re_course_id e = ct_course_id c \<and> ct_message_id c = mid then [(c, e)] else []) (t_evidence s)) =
      (if ct_message_id c = mid then [(c, E c)] else [])" if c: "c \<in> set (t_citations s)" for c
  proof (cases "ct_message_id c = mid")
    case True
    let ?f = "\<lambda>e. if re_message_id e = ct_message_id c \<and> re_chunk_id e = ct_chunk_id c \<and>
      re_course_id e = ct_course_id c \<and> ct_message_id c = mid then [(c, e)] else []"
    have "concat (map ?f (t_evidence s)) = ?f (E c)"
    proof (rule concat_map_single [OF distinct_mapI [OF keys]])
      show "E c \<in> set (t_evidence s)" using E [OF c] by simp
      fix y assume y: "y \<in> set (t_evidence s)" "y \<noteq> E c"
      then show "?f y = []"
        using key_eqD [OF keys, of y "E c"] E [OF c] by (auto simp: evidence_for_def)
    qed
    then show ?thesis using E [OF c] True by (simp add: evidence_for_def)
  next
    case False
    then show ?thesis by simp
  qed
  have "concat (map (\<lambda>c. concat (map (\<lambda>e. if re_message_id e = ct_message_id c \<and> re_chunk_id e = ct_chunk_id c \<and>
      re_course_id e = ct_course_id c \<and> ct_message_id c = mid then [(c, e)] else []) (t_evidence s))) (t_citations s)) =
      concat (map (\<lambda>c. if ct_message_id c = mid then [(c, E c)] else []) (t_citations s))"
    by (rule arg_cong [where f = concat], rule map_cong [OF refl], rule single)
  also have "\<dots> = map (\<lambda>c. (c, E c)) (filter (\<lambda>c. ct_message_id c = mid) (t_citations s))"
    by (rule concat_map_if)
  finally have "citation_rows mid s =
      sort_key (\<lambda>(c, e). ct_ordinal c) (map (\<lambda>c. (c, E c)) (filter (\<lambda>c. ct_message_id c = mid) (t_citations s)))"
    by (simp add: citation_rows_def)
  then have "citation_rows mid s = map (\<lambda>c. (c, E c))
      (sort_key ct_ordinal (filter (\<lambda>c. ct_message_id c = mid) (t_citations s)))"
    by (simp add: sort_key_map)
  then show ?thesis using that [of E] E by blast
qed

lemma enumerate_sorted:
  "sort_key ct_ordinal (citation_rows_of m cs) = citation_rows_of m cs"
proof -
  have "map ct_ordinal (citation_rows_of m cs) = map int [0..<length cs]"
    using map_fst_enumerate [of 0 cs]
    by (simp add: citation_rows_of_def comp_def split_def flip: map_map [of int fst, unfolded comp_def])
  then have "sorted (map ct_ordinal (citation_rows_of m cs))"
    by (simp add: sorted_map sorted_wrt_upt)
  then show ?thesis by (simp add: sort_key_id_if_sorted)
qed


text \<open>Completing a message and reading it gives the draft back: its mode, answer, grounding and
  intervention, and all its citations, in order, with their quotes.\<close>

lemma complete_view_roundtrip:
  assumes "t_conversations s0 = []" "t_messages s0 = []" "t_evidence s0 = []" "t_citations s0 = []"
    "s = fold (turn_step u cfg) es s0" "complete mid d now now' s = Inr ((), s')"
  shows "\<exists>m v a. m \<in> set (t_messages s') \<and> ms_id m = mid \<and> message_view_of s' m = Inr v \<and>
    mv_state v = MSG_COMPLETED \<and> mv_response v = Some a \<and> av_mode a = td_mode d \<and> av_answer a = td_answer d \<and>
    av_grounded a = td_grounded d \<and> (td_intervention d \<noteq> None \<longrightarrow> av_intervention a = td_intervention d) \<and>
    map (\<lambda>c. (vi_chunk_id c, vi_quote c)) (av_citations a) = map (\<lambda>c. (dc_chunk_id c, dc_quote c)) (td_citations d)"
proof -
  have inv: "conv_inv s" unfolding assms(5) by (rule turns.inv_run [OF conv_inv_start [OF assms(1-4)]])
  have inv': "conv_inv s'" by (rule complete_inv [OF inv assms(6)])
  from assms(6) obtain m where m: "pending mid now s = Inr m"
    "citations_insertable (citation_rows_of m (td_citations d)) s"
    "s' = s\<lparr>t_citations := t_citations s @ citation_rows_of m (td_citations d),
            t_messages := update_where (\<lambda>r. ms_id r = mid) (completed_with d now') (t_messages s)\<rparr>"
    by (rule complete_Inr)
  note p = pending_Inr [OF m(1)]
  let ?m = "completed_with d now' m"
  let ?rows = "citation_rows_of m (td_citations d)"
  have fields: "ms_id ?m = mid" "ms_state ?m = MSG_COMPLETED" "ms_mode ?m = Some (td_mode d)"
    "ms_answer ?m = Some (td_answer d)" "ms_grounded ?m = Some (td_grounded d)"
    "td_intervention d \<noteq> None \<longrightarrow> ms_intervention ?m = td_intervention d"
    using settles_fields(2) [OF settles_completed] p(2)
    by (auto simp: completed_with_def Let_def split: option.splits)
  have mem: "?m \<in> set (t_messages s')"
    using update_where_hit [of m "t_messages s" "\<lambda>r. ms_id r = mid" "completed_with d now'"] p(1,2) m(3) by simp
  have none: "ct_message_id c \<noteq> mid" if c: "c \<in> set (t_citations s)" for c
  proof
    assume e: "ct_message_id c = mid"
    obtain r where "r \<in> set (t_messages s)" "ms_id r = ct_message_id c" "ms_state r = MSG_COMPLETED"
      using inv c by (auto simp: conv_inv_def citation_of_def)
    then show False using unique_pending [OF inv m(1)] p(3) e by (auto simp: is_pending_def)
  qed
  have rows: "filter (\<lambda>c. ct_message_id c = mid) (t_citations s') = ?rows"
    using none p(2) citation_rows_of_fields(1) [of _ m "td_citations d"] by (simp add: m(3) filter_empty_conv filter_id_conv)
  obtain E where E: "citation_rows mid s' = map (\<lambda>c. (c, E c)) ?rows"
    "\<And>c. c \<in> set (t_citations s') \<Longrightarrow> E c \<in> set (t_evidence s') \<and> evidence_for s' c (E c)"
    using citation_rows_complete [OF inv', of mid] unfolding rows enumerate_sorted by blast
  have chunk: "re_chunk_id (E c) = ct_chunk_id c" if "c \<in> set ?rows" for c
    using E(2) [of c] that by (simp add: m(3) evidence_for_def)
  have "map (\<lambda>c. (vi_chunk_id c, vi_quote c)) (map citation_view_of (citation_rows mid s')) =
      map (\<lambda>c. (ct_chunk_id c, ct_quote c)) ?rows"
    using chunk by (simp add: E(1) citation_view_of_def)
  also have "\<dots> = map (\<lambda>c. (dc_chunk_id c, dc_quote c)) (td_citations d)"
  proof -
    have "map (\<lambda>x. (dc_chunk_id (snd x), dc_quote (snd x))) (enumerate 0 (td_citations d)) =
        map (\<lambda>c. (dc_chunk_id c, dc_quote c)) (map snd (enumerate 0 (td_citations d)))"
      by (simp only: map_map comp_def)
    then show ?thesis by (simp add: citation_rows_of_def comp_def split_def)
  qed
  finally have cites: "map (\<lambda>c. (vi_chunk_id c, vi_quote c)) (map citation_view_of (citation_rows mid s')) =
      map (\<lambda>c. (dc_chunk_id c, dc_quote c)) (td_citations d)" .
  show ?thesis
    using mem fields cites
    by (intro exI [of _ ?m]) (auto simp: message_view_of_def answer_view_of_def)
qed

end
