(* ===== verification/Workspace.thy ===== *)
theory Workspace
  imports Conversation_Service "HOL-Library.Product_Lexorder"
begin

text \<open>
  \<^verbatim>\<open>workspace.py\<close>: the lists a teacher or student starts from. Every entry can be opened by the
  identity it is shown to.
\<close>

record document_summary =
  dm_document_id :: uuid
  dm_version_id :: uuid
  dm_title :: pystr
  dm_state :: document_version_state
  dm_failure_code :: "string option"
  dm_corpus_version_id :: "uuid option"
  dm_created_at :: time

text \<open>\<open>ORDER BY created_at DESC, id LIMIT 100\<close>.\<close>

definition newest :: "('a \<Rightarrow> time) \<Rightarrow> ('a \<Rightarrow> uuid) \<Rightarrow> 'a list \<Rightarrow> 'a list" where
  "newest created key xs = take 100 (sort_key (\<lambda>x. (- created x, key x)) xs)"

definition own_courses :: "authenticated_identity \<Rightarrow> db \<Rightarrow> (course \<times> membership_role) list" where
  "own_courses ident s =
     [(c, cm_role m). c \<leftarrow> t_courses s, m \<leftarrow> t_memberships s, x \<leftarrow> t_users s,
        cm_course_id m = co_id c \<and> us_id x = cm_user_id m \<and> has_identity ident x]"

definition list_courses :: "authenticated_identity \<Rightarrow> db \<Rightarrow> course_view list" where
  "list_courses ident s =
     map (\<lambda>(c, role). view_of c role)
       (newest (\<lambda>(c, _). co_created_at c) (\<lambda>(c, _). co_id c) (own_courses ident s))"

definition list_conversations ::
  "authenticated_identity \<Rightarrow> uuid \<Rightarrow> db \<Rightarrow> (exn, conversation_view list) result" where
  "list_conversations ident course_id s =
     bindE (member ident course_id s) (\<lambda>user_id.
       Inr (map (\<lambda>c. \<lparr>nw_id = cn_id c, nw_course_id = cn_course_id c, nw_created_at = cn_created_at c\<rparr>)
         (newest cn_created_at cn_id
           (filter (\<lambda>c. cn_course_id c = course_id \<and> cn_owner_user_id c = user_id) (t_conversations s)))))"

text \<open>Versions with their document and, by the outer join, each corpus they belong to.\<close>

definition corpora_of :: "document_version \<Rightarrow> db \<Rightarrow> uuid option list" where
  "corpora_of v s =
     (let xs = filter (\<lambda>x. cd_document_version_id x = dv_id v) (t_corpus_documents s) in
      if xs = [] then [None] else map (\<lambda>x. Some (cd_corpus_version_id x)) xs)"

definition version_rows :: "uuid \<Rightarrow> db \<Rightarrow> (document_version \<times> pystr \<times> uuid option) list" where
  "version_rows course_id s =
     concat (map (\<lambda>(v, title).
       map (\<lambda>k. (v, title, k)) (corpora_of v s))
       [(v, do_title d). v \<leftarrow> t_versions s, d \<leftarrow> t_documents s,
          do_id d = dv_document_id v \<and> do_course_id d = dv_course_id v \<and> dv_course_id v = course_id])"

definition list_documents ::
  "authenticated_identity \<Rightarrow> uuid \<Rightarrow> db \<Rightarrow> (exn, document_summary list) result" where
  "list_documents ident course_id s =
     bindE (member ident course_id s) (\<lambda>user_id.
       if map_option cm_role (find (\<lambda>m. cm_course_id m = course_id \<and> cm_user_id m = user_id) (t_memberships s))
          \<noteq> Some TEACHER
       then Inl (APIError 404 ''course_not_found'')
       else Inr (map (\<lambda>(v, title, corpus). \<lparr>dm_document_id = dv_document_id v, dm_version_id = dv_id v,
                  dm_title = title, dm_state = dv_state v, dm_failure_code = dv_failure_code v,
                  dm_corpus_version_id = corpus, dm_created_at = dv_created_at v\<rparr>)
              (newest (\<lambda>(v, _). dv_created_at v) (\<lambda>(v, _). dv_id v) (version_rows course_id s))))"

text \<open>\<open>_query\<close>.\<close>

definition workspace_query :: "(exn, 'a) result \<Rightarrow> (exn, 'a) result" where
  "workspace_query r =
     (case r of Inr x \<Rightarrow> Inr x
      | Inl e \<Rightarrow> if is_sqlalchemy_error e then Inl (APIError 503 ''persistence_unavailable'') else Inl e)"

section \<open>What is shown can be opened\<close>

lemma newest_subset: "set (newest created key xs) \<subseteq> set xs"
  by (auto simp: newest_def dest: in_set_takeD)

lemma member_Inr:
  assumes "member ident course_id s = Inr uid"
  obtains x where "x \<in> set (t_users s)" "has_identity ident x" "us_id x = uid" "has_membership course_id uid s"
  using assms by (auto simp: member_def split: option.splits dest!: find_SomeD)

lemma owned_listed:
  assumes "distinct (map cn_id (t_conversations s))" "member ident course_id s = Inr uid"
    "c \<in> set (t_conversations s)" "cn_course_id c = course_id" "cn_owner_user_id c = uid"
  shows "owned ident (cn_id c) s = Inr c"
proof -
  obtain x where "x \<in> set (t_users s)" "has_identity ident x" "us_id x = uid" "has_membership course_id uid s"
    using assms(2) by (rule member_Inr)
  then have o: "owner_of ident s c" using assms(4,5) by (auto simp: owner_of_def exists_where_iff)
  have "find (\<lambda>c'. cn_id c' = cn_id c \<and> owner_of ident s c') (t_conversations s) = Some c"
    by (rule find_unique [OF assms(3)]) (use o key_eqD [OF assms(1) _ assms(3)] in auto)
  then show ?thesis by (simp add: owned_def)
qed

lemma own_courses_row:
  assumes "(c, r) \<in> set (own_courses ident s)"
  obtains m where "member_row ident (co_id c) s c m" "r = cm_role m"
  using assms by (auto simp: own_courses_def member_row_def split: if_splits)

lemma version_rows_version:
  assumes "(v, t, k) \<in> set (version_rows course_id s)"
  shows "v \<in> set (t_versions s)" "dv_course_id v = course_id"
  using assms by (auto simp: version_rows_def split: if_splits)

text \<open>The workspace shows everyone their own things. Each listed course can be read by the same
  identity, with the same view; each listed conversation belongs to the course and to the reader,
  who can open it; documents are shown to teachers of the course only, and are versions of that
  course. Who is not a member gets 404 from both lists of a course.\<close>

lemma workspace_shows_own:
  assumes "courses_wf s" "distinct (map cn_id (t_conversations s))"
  shows "(\<forall>v \<in> set (list_courses ident s). get_course ident (cw_id v) s = Inr (v, s)) \<and>
    (case list_conversations ident cid s of
       Inl e \<Rightarrow> e = conversation_not_found
     | Inr vs \<Rightarrow> \<forall>v \<in> set vs. \<exists>c. owned ident (nw_id v) s = Inr c \<and> cn_course_id c = cid \<and> nw_course_id v = cid) \<and>
    (case list_documents ident cid s of
       Inl e \<Rightarrow> e \<in> {conversation_not_found, APIError 404 ''course_not_found''}
     | Inr ds \<Rightarrow> (\<exists>m \<in> set (t_memberships s). cm_course_id m = cid \<and> cm_role m = TEACHER \<and>
           (\<exists>x \<in> set (t_users s). us_id x = cm_user_id m \<and> has_identity ident x)) \<and>
         (\<forall>d \<in> set ds. \<exists>v \<in> set (t_versions s). dv_id v = dm_version_id d \<and> dv_course_id v = cid)) \<and>
    (if \<exists>x \<in> set (t_users s). has_identity ident x \<and> has_membership cid (us_id x) s then True
     else list_conversations ident cid s = Inl conversation_not_found \<and>
          list_documents ident cid s = Inl conversation_not_found)"
proof (intro conjI ballI)
  fix v assume "v \<in> set (list_courses ident s)"
  then obtain c r where cr: "(c, r) \<in> set (own_courses ident s)" "v = view_of c r"
    using newest_subset by (fastforce simp: list_courses_def)
  obtain m where m: "member_row ident (co_id c) s c m" "r = cm_role m" using cr(1) by (rule own_courses_row)
  show "get_course ident (cw_id v) s = Inr (v, s)"
    using membership_rows_single [OF assms(1) m(1)] m(2) cr(2) by (simp add: get_course_def one_or_none_def view_of_def)
next
  have nf: "member ident cid s = Inl e \<Longrightarrow> e = conversation_not_found" for e
    by (auto simp: member_def split: option.splits)
  show "case list_conversations ident cid s of Inl e \<Rightarrow> e = conversation_not_found
     | Inr vs \<Rightarrow> \<forall>v \<in> set vs. \<exists>c. owned ident (nw_id v) s = Inr c \<and> cn_course_id c = cid \<and> nw_course_id v = cid"
  proof (cases "member ident cid s")
    case (Inr uid)
    have "\<exists>c. owned ident (nw_id v) s = Inr c \<and> cn_course_id c = cid \<and> nw_course_id v = cid"
      if "c \<in> set (newest cn_created_at cn_id (filter (\<lambda>c. cn_course_id c = cid \<and> cn_owner_user_id c = uid) (t_conversations s)))"
        "v = \<lparr>nw_id = cn_id c, nw_course_id = cn_course_id c, nw_created_at = cn_created_at c\<rparr>" for v c
    proof -
      have "c \<in> set (t_conversations s)" "cn_course_id c = cid" "cn_owner_user_id c = uid"
        using subsetD [OF newest_subset that(1)] by simp_all
      then show ?thesis using owned_listed [OF assms(2) Inr] that(2) by auto
    qed
    then show ?thesis using Inr by (auto simp: list_conversations_def)
  qed (use nf in \<open>simp add: list_conversations_def\<close>)
  show "case list_documents ident cid s of Inl e \<Rightarrow> e \<in> {conversation_not_found, APIError 404 ''course_not_found''}
     | Inr ds \<Rightarrow> (\<exists>m \<in> set (t_memberships s). cm_course_id m = cid \<and> cm_role m = TEACHER \<and>
           (\<exists>x \<in> set (t_users s). us_id x = cm_user_id m \<and> has_identity ident x)) \<and>
         (\<forall>d \<in> set ds. \<exists>v \<in> set (t_versions s). dv_id v = dm_version_id d \<and> dv_course_id v = cid)"
  proof (cases "member ident cid s")
    case (Inr uid)
    obtain x where x: "x \<in> set (t_users s)" "has_identity ident x" "us_id x = uid"
      using Inr by (rule member_Inr)
    show ?thesis
    proof (cases "map_option cm_role (find (\<lambda>m. cm_course_id m = cid \<and> cm_user_id m = uid) (t_memberships s)) = Some TEACHER")
      case True
      then obtain m where m: "m \<in> set (t_memberships s)" "cm_course_id m = cid" "cm_user_id m = uid" "cm_role m = TEACHER"
        by (auto dest!: find_SomeD)
      have "\<exists>v \<in> set (t_versions s). dv_id v = dv_id w \<and> dv_course_id v = cid"
        if "(w, t, k) \<in> set (newest (\<lambda>(v, _). dv_created_at v) (\<lambda>(v, _). dv_id v) (version_rows cid s))" for w t k
        using version_rows_version [OF subsetD [OF newest_subset that]] by blast
      then show ?thesis using Inr True m x by (auto simp: list_documents_def)
    qed (simp add: list_documents_def Inr)
  qed (use nf in \<open>simp add: list_documents_def\<close>)
  have "member ident cid s = Inl conversation_not_found"
    if "\<not> (\<exists>x \<in> set (t_users s). has_identity ident x \<and> has_membership cid (us_id x) s)"
    using that by (auto simp: member_def find_None_iff split: option.splits dest!: find_SomeD)
  then show "if \<exists>x \<in> set (t_users s). has_identity ident x \<and> has_membership cid (us_id x) s then True
     else list_conversations ident cid s = Inl conversation_not_found \<and>
          list_documents ident cid s = Inl conversation_not_found"
    by (auto simp: list_conversations_def list_documents_def)
qed

lemma chat_asked_wf: "courses_wf chat_asked" "distinct (map cn_id (t_conversations chat_asked))"
  by (simp_all add: courses_wf_def chat_asked_def chat_db_def empty_db_def)

lemma chat_courses:
  "list_courses chat_ident chat_asked = [view_of (hd (t_courses chat_db)) STUDENT]"
  by (simp add: list_courses_def newest_def own_courses_def chat_asked_def chat_db_def has_identity_def chat_ident_def)

end
