(* ===== verification/Json.thy ===== *)
theory Json
  imports Documents "HOL-Library.List_Lexorder"
begin

text \<open>
  JSON values as Python's \<^verbatim>\<open>json\<close> module decodes and prints them, and why a printed object stands
  for its members: the texts of two strings, however continued, differ where the strings differ.
\<close>

section \<open>Values\<close>

text \<open>\<open>bool\<close>, \<open>int\<close> and \<open>float\<close> are told apart as Python does; members are kept in order.\<close>

datatype json =
    JNull
  | JBool bool
  | JInt int
  | JFloat fval
  | JStr pystr
  | JList "json list"
  | JDict "(pystr \<times> json) list"

text \<open>\<open>isinstance(v, int)\<close>: a \<open>bool\<close> is one.\<close>

fun is_int :: "json \<Rightarrow> bool" where
  "is_int (JInt _) = True"
| "is_int (JBool _) = True"
| "is_int _ = False"

text \<open>The truth value of an object.\<close>

fun truthy :: "json \<Rightarrow> bool" where
  "truthy JNull = False"
| "truthy (JBool b) = b"
| "truthy (JInt i) = (i \<noteq> 0)"
| "truthy (JFloat x) = (x \<noteq> Finite 0)"
| "truthy (JStr s) = (s \<noteq> [])"
| "truthy (JList xs) = (xs \<noteq> [])"
| "truthy (JDict kvs) = (kvs \<noteq> [])"

text \<open>\<open>d[k] = v\<close> on the members of an object: a key keeps its place.\<close>

fun set_member :: "pystr \<Rightarrow> json \<Rightarrow> (pystr \<times> json) list \<Rightarrow> (pystr \<times> json) list" where
  "set_member k v [] = [(k, v)]"
| "set_member k v ((k', v') # kvs) = (if k' = k then (k, v) # kvs else (k', v') # set_member k v kvs)"

definition del_member :: "pystr \<Rightarrow> (pystr \<times> json) list \<Rightarrow> (pystr \<times> json) list" where
  "del_member k kvs = filter (\<lambda>(k', _). k' \<noteq> k) kvs"

lemma set_member_lookup: "map_of (set_member k v kvs) = (map_of kvs)(k \<mapsto> v)"
  by (induction kvs) (auto simp: fun_eq_iff)

lemma del_member_lookup: "map_of (del_member k kvs) = (map_of kvs)(k := None)"
  by (induction kvs) (auto simp: fun_eq_iff del_member_def)

section \<open>Printing\<close>

text \<open>The arguments of \<open>json.dumps\<close>; the text of a \<open>float\<close> is its \<open>repr\<close>, a parameter.\<close>

record json_style =
  js_ascii :: bool
  js_item_separator :: pystr
  js_key_separator :: pystr
  js_sort_keys :: bool
  js_float :: "fval \<Rightarrow> pystr"

definition json_char_utf8 :: "nat \<Rightarrow> pystr" where
  "json_char_utf8 c = (if c > 126 then [c] else json_char c)"

definition json_string_text :: "json_style \<Rightarrow> pystr \<Rightarrow> pystr" where
  "json_string_text st s =
     (if js_ascii st then json_string s else [34] @ concat (map json_char_utf8 s) @ [34])"

primrec json_text :: "json_style \<Rightarrow> json \<Rightarrow> pystr" where
  "json_text st JNull = py ''null''"
| "json_text st (JBool b) = (if b then py ''true'' else py ''false'')"
| "json_text st (JInt i) = dec_int i"
| "json_text st (JFloat x) = js_float st x"
| "json_text st (JStr s) = json_string_text st s"
| "json_text st (JList xs) = [91] @ py_join (js_item_separator st) (map (json_text st) xs) @ [93]"
| "json_text st (JDict kvs) =
     (let members = map (\<lambda>(k, t). (k, json_string_text st k @ js_key_separator st @ t)) (map (map_prod id (json_text st)) kvs)
      in [123] @ py_join (js_item_separator st)
           (map snd (if js_sort_keys st then sort_key fst members else members)) @ [125])"

section \<open>Texts determine strings\<close>

text \<open>Code points a string read from the environment or from a request can have.\<close>

definition scalar_value :: "nat \<Rightarrow> bool" where
  "scalar_value c \<longleftrightarrow> c < 1114112 \<and> \<not> (55296 \<le> c \<and> c < 57344)"

lemma hex_digit_inj: "hex_digit a = hex_digit b \<Longrightarrow> a < 16 \<Longrightarrow> b < 16 \<Longrightarrow> a = b"
  by (auto simp: hex_digit_def split: if_splits)

lemma base16: "(c :: nat) < 65536 \<Longrightarrow>
    c = c div 4096 mod 16 * 4096 + c div 256 mod 16 * 256 + c div 16 mod 16 * 16 + c mod 16"
proof -
  assume c: "c < 65536"
  define a b d where "a = c div 16" and "b = a div 16" and "d = b div 16"
  have e: "c div 256 = b" "c div 4096 = d" by (simp_all add: a_def b_def d_def div_mult2_eq [symmetric])
  have "d < 16" using c by (simp add: e(2) [symmetric] div_less_iff_less_mult)
  then have m: "d mod 16 = d" by simp
  have "c = a * 16 + c mod 16" "a = b * 16 + a mod 16" "b = d * 16 + b mod 16"
    unfolding a_def b_def d_def by simp_all
  then show ?thesis unfolding e m by (fold a_def) linarith
qed

lemma unicode_escape_inj:
  assumes "unicode_escape a = unicode_escape b" "a < 65536" "b < 65536"
  shows "a = b"
proof -
  have "a div 4096 mod 16 = b div 4096 mod 16" "a div 256 mod 16 = b div 256 mod 16"
    "a div 16 mod 16 = b div 16 mod 16" "a mod 16 = b mod 16"
    using assms(1) by (auto simp: unicode_escape_def intro!: hex_digit_inj)
  then show ?thesis using base16 [OF assms(2)] base16 [OF assms(3)] by argo
qed

text \<open>How the code of a character begins, by the kind of the character.\<close>

definition short_escape :: "nat \<Rightarrow> nat option" where
  "short_escape c = map_of [(34, 34), (92, 92), (10, 110), (13, 114), (9, 116), (12, 102), (8, 98)] c"

lemma json_char_cases:
  assumes "scalar_value c"
  obtains d where "short_escape c = Some d" "json_char c = [92, d]" "d \<noteq> 117"
  | "short_escape c = None" "32 \<le> c" "c \<le> 126" "json_char c = [c]" "c \<noteq> 92" "c \<noteq> 34"
  | "short_escape c = None" "c < 65536" "\<not> (55296 \<le> c \<and> c < 57344)" "json_char c = unicode_escape c"
  | "65536 \<le> c" "c < 1114112"
    "json_char c = unicode_escape (55296 + (c - 65536) div 1024) @ unicode_escape (56320 + (c - 65536) mod 1024)"
proof (cases "short_escape c")
  case (Some d)
  then have "json_char c = [92, d]" "d \<noteq> 117"
    by (auto simp: short_escape_def json_char_def split: if_splits)
  then show ?thesis using that(1) Some by blast
next
  case None
  then have n: "c \<notin> {34, 92, 10, 13, 9, 12, 8}" by (auto simp: short_escape_def split: if_splits)
  show ?thesis
  proof (cases "32 \<le> c \<and> c \<le> 126")
    case True
    then show ?thesis using that(2) None n by (simp add: json_char_def)
  next
    case False
    show ?thesis
    proof (cases "c < 65536")
      case True
      then show ?thesis using that(3) None n False assms by (auto simp: json_char_def scalar_value_def)
    next
      case nb: False
      have "json_char c = unicode_escape (55296 + (c - 65536) div 1024) @ unicode_escape (56320 + (c - 65536) mod 1024)"
        using n False nb by (simp add: json_char_def)
      then show ?thesis using that(4) nb assms by (simp add: scalar_value_def)
    qed
  qed
qed

lemma short_escape_inj: "short_escape c = Some d \<Longrightarrow> short_escape c' = Some d \<Longrightarrow> c = c'"
  by (auto simp: short_escape_def split: if_splits)

lemma unicode_escape_prefix:
  "unicode_escape a @ x = unicode_escape b @ y \<longleftrightarrow> unicode_escape a = unicode_escape b \<and> x = y"
  by (auto simp: unicode_escape_def)

lemma unicode_escape_head: "unicode_escape a @ x = 92 # d # y \<Longrightarrow> d = 117"
  by (simp add: unicode_escape_def)

lemma surrogates:
  assumes "65536 \<le> c" "c < (1114112 :: nat)"
  shows "55296 + (c - 65536) div 1024 < 57344" "56320 + (c - 65536) mod 1024 < 65536"
    "c = 65536 + (c - 65536) div 1024 * 1024 + (c - 65536) mod 1024"
proof -
  have "(c - 65536) div 1024 < 1024" using assms by (simp add: div_less_iff_less_mult)
  moreover have "(c - 65536) mod 1024 < 1024" by simp
  ultimately show "55296 + (c - 65536) div 1024 < 57344" "56320 + (c - 65536) mod 1024 < 65536" by linarith+
  have "c - 65536 = (c - 65536) div 1024 * 1024 + (c - 65536) mod 1024" by simp
  then show "c = 65536 + (c - 65536) div 1024 * 1024 + (c - 65536) mod 1024" using assms(1) by linarith
qed

lemma json_char_prefix:
  assumes "scalar_value c" "scalar_value d" "json_char c @ x = json_char d @ y"
  shows "c = d \<and> x = y"
proof -
  have one: "a = b \<and> x' = y'" if "unicode_escape a @ x' = unicode_escape b @ y'" "a < 65536" "b < 65536" for a b x' y'
    using that unicode_escape_inj [of a b] by (simp add: unicode_escape_prefix)
  show ?thesis
    using assms(1)
  proof (cases rule: json_char_cases)
    case (1 e)
    from assms(2) show ?thesis
    proof (cases rule: json_char_cases)
      case (1 e')
      then show ?thesis using \<open>short_escape c = Some e\<close> \<open>json_char c = [92, e]\<close> assms(3)
          short_escape_inj [of c e d] by simp
    qed (use 1 assms(3) in \<open>simp_all add: unicode_escape_def\<close>)
  next
    case 2
    from assms(2) show ?thesis
      by (cases rule: json_char_cases) (use 2 assms(3) in \<open>auto simp: unicode_escape_def\<close>)
  next
    case 3
    from assms(2) show ?thesis
    proof (cases rule: json_char_cases)
      case (1 e')
      then show ?thesis using 3 assms(3) by (auto dest: unicode_escape_head)
    next
      case 2
      then show ?thesis using 3 assms(3) by (simp add: unicode_escape_def)
    next
      case d3: 3
      then show ?thesis using 3 assms(3) one [of c x d y] by simp
    next
      case d4: 4
      have "c = 55296 + (d - 65536) div 1024"
        using one [of c x "55296 + (d - 65536) div 1024"] 3 d4 assms(3) surrogates(1) [OF d4(1,2)] by simp
      then show ?thesis using 3(3) surrogates(1) [OF d4(1,2)] by simp
    qed
  next
    case 4
    note sc = surrogates [OF 4(1,2)]
    from assms(2) show ?thesis
    proof (cases rule: json_char_cases)
      case (1 e')
      then show ?thesis using 4 assms(3) by (auto dest: unicode_escape_head)
    next
      case 2
      then show ?thesis using 4 assms(3) by (simp add: unicode_escape_def)
    next
      case d3: 3
      have "d = 55296 + (c - 65536) div 1024"
        using one [of "55296 + (c - 65536) div 1024" "unicode_escape (56320 + (c - 65536) mod 1024) @ x" d y]
          4(3) d3 assms(3) sc(1) by simp
      then show ?thesis using d3(3) sc(1) by simp
    next
      case d4: 4
      note sd = surrogates [OF d4(1,2)]
      have "55296 + (c - 65536) div 1024 = 55296 + (d - 65536) div 1024 \<and>
          unicode_escape (56320 + (c - 65536) mod 1024) @ x = unicode_escape (56320 + (d - 65536) mod 1024) @ y"
        using one [of "55296 + (c - 65536) div 1024" "unicode_escape (56320 + (c - 65536) mod 1024) @ x"
            "55296 + (d - 65536) div 1024" "unicode_escape (56320 + (d - 65536) mod 1024) @ y"]
          4(3) d4(3) assms(3) sc(1) sd(1) by simp
      then show ?thesis
        using one [of "56320 + (c - 65536) mod 1024" x "56320 + (d - 65536) mod 1024" y] sc sd by simp
    qed
  qed
qed

lemma json_char_not_quote: "scalar_value c \<Longrightarrow> hd (json_char c @ x) \<noteq> 34 \<and> json_char c \<noteq> []"
  by (cases c rule: json_char_cases) (auto simp: unicode_escape_def)

lemma json_string_prefix:
  assumes "\<forall>c \<in> set s. scalar_value c" "\<forall>c \<in> set t. scalar_value c" "json_string s @ x = json_string t @ y"
  shows "s = t \<and> x = y"
proof -
  have "concat (map json_char s) @ 34 # x = concat (map json_char t) @ 34 # y"
    using assms(3) by (simp add: json_string_def)
  then show ?thesis using assms(1,2)
  proof (induction s arbitrary: t)
    case Nil
    then show ?case
    proof (cases t)
      case (Cons d t')
      have "34 # x = json_char d @ concat (map json_char t') @ 34 # y" using Nil(1) Cons by simp
      then show ?thesis using json_char_not_quote [of d "concat (map json_char t') @ 34 # y"] Nil(3) Cons
        by (metis list.sel(1) list.set_intros(1))
    qed simp
  next
    case (Cons c s)
    show ?case
    proof (cases t)
      case Nil
      then have "34 # y = json_char c @ concat (map json_char s) @ 34 # x" using Cons.prems(1) by simp
      then show ?thesis using json_char_not_quote [of c "concat (map json_char s) @ 34 # x"] Cons.prems(2)
        by (metis list.sel(1) list.set_intros(1))
    next
      case (Cons d t')
      have "c = d \<and> concat (map json_char s) @ 34 # x = concat (map json_char t') @ 34 # y"
        by (rule json_char_prefix) (use Cons Cons.prems in auto)
      then show ?thesis using Cons.IH [of t'] Cons Cons.prems by simp
    qed
  qed
qed

end
