(* ===== verification/Retrieval.thy ===== *)
theory Retrieval
  imports Turns Processing
begin

text \<open>
  \<^verbatim>\<open>retrieval_auth.py\<close>, \<^verbatim>\<open>postgres_retriever.py\<close>, \<^verbatim>\<open>dense_retriever.py\<close> and
  \<^verbatim>\<open>retriever_factory.py\<close>: the check every retriever makes of the captured scope, the full-text
  and the dense retriever, and the port both implement. PostgreSQL's text search (stemming,
  matching, ranking) and the vector distance are parameters.
\<close>

section \<open>Authorization\<close>

text \<open>The join of message, conversation, membership and corpus; \<open>func.now()\<close> is the start of the
  transaction. The fields of a typed scope are UUIDs, which are never false, so that
  \<open>validate_scope\<close> has nothing left to refuse.\<close>

definition retrieval_authorized :: "retrieval_scope \<Rightarrow> pystr \<Rightarrow> time \<Rightarrow> db \<Rightarrow> message \<Rightarrow> bool" where
  "retrieval_authorized sc query now s m \<longleftrightarrow>
     ms_id m = rs_message_id sc \<and> ms_course_id m = rs_course_id sc \<and>
     ms_corpus_version_id m = Some (rs_corpus_version_id sc) \<and>
     ms_conversation_id m = rs_conversation_id sc \<and> ms_state m = MSG_PENDING \<and>
     (case ms_retrieval_query m of None \<Rightarrow> ms_question m | Some q \<Rightarrow> q) = query \<and>
     ms_deadline_at m > now \<and>
     exists_where (\<lambda>c. cn_id c = ms_conversation_id m \<and> cn_owner_user_id c = rs_principal_user_id sc \<and>
       has_membership (cn_course_id c) (cn_owner_user_id c) s) (t_conversations s) \<and>
     exists_where (\<lambda>v. Some (cv_id v) = ms_corpus_version_id m \<and> cv_course_id v = ms_course_id m \<and>
       cv_state v = CV_READY) (t_corpora s)"

definition scope_invalid :: exn where
  "scope_invalid = RAGFailure ''RETRIEVAL_SCOPE_INVALID''"

definition authorize_retrieval :: "retrieval_scope \<Rightarrow> pystr \<Rightarrow> time \<Rightarrow> db \<Rightarrow> (exn, unit) result" where
  "authorize_retrieval sc query now s =
     (case find (retrieval_authorized sc query now s) (t_messages s) of
        None \<Rightarrow> Inl scope_invalid | Some _ \<Rightarrow> Inr ())"

section \<open>Lexemes of a text query\<close>

text \<open>The pattern \<open>'((?:[^'\\]|''|\\.)*)'\<close> after its opening quote: the alternatives begin with
  different characters, so that backtracking can only give up a doubled quote and close
  at its first half.\<close>

fun quoted_body :: "pystr \<Rightarrow> (pystr \<times> pystr) option" where
  "quoted_body [] = None"
| "quoted_body (c # cs) =
     (if c = 39 then
        (case cs of
           [] \<Rightarrow> Some ([], [])
         | d # ds \<Rightarrow>
             if d = 39 then (case quoted_body ds of Some (raw, rest) \<Rightarrow> Some (39 # 39 # raw, rest)
                             | None \<Rightarrow> Some ([], cs))
             else Some ([], cs))
      else if c = 92 then
        (case cs of [] \<Rightarrow> None
         | d # ds \<Rightarrow> if d = 10 then None
             else map_option (\<lambda>(raw, rest). (92 # d # raw, rest)) (quoted_body ds))
      else map_option (\<lambda>(raw, rest). (c # raw, rest)) (quoted_body cs))"

lemma quoted_body_shorter: "quoted_body s = Some (raw, rest) \<Longrightarrow> length rest < length s"
proof (induction s arbitrary: raw rest rule: quoted_body.induct)
  case (2 c cs)
  then show ?case by (fastforce split: if_splits list.splits option.splits)
qed simp

text \<open>\<open>findall\<close>.\<close>

function find_lexemes :: "pystr \<Rightarrow> pystr list" where
  "find_lexemes [] = []"
| "find_lexemes (c # cs) =
     (if c = 39 then
        (case quoted_body cs of None \<Rightarrow> find_lexemes cs
         | Some (raw, rest) \<Rightarrow> raw # find_lexemes rest)
      else find_lexemes cs)"
  by pat_completeness auto
termination
  by (relation "measure length") (auto dest: quoted_body_shorter)

text \<open>\<open>sub\<close> of \<open>''|\\(.)\<close> by the character after the backslash or a single quote.\<close>

fun unescape :: "pystr \<Rightarrow> pystr" where
  "unescape [] = []"
| "unescape [c] = [c]"
| "unescape (c # d # cs) =
     (if c = 39 \<and> d = 39 then 39 # unescape cs
      else if c = 92 \<and> d \<noteq> 10 then d # unescape cs
      else c # unescape (d # cs))"

text \<open>\<open>tuple(dict.fromkeys(xs))\<close> keeps first occurrences.\<close>

fun dedup :: "'a list \<Rightarrow> 'a list" where
  "dedup [] = []"
| "dedup (x # xs) = x # filter (\<lambda>y. y \<noteq> x) (dedup xs)"

definition query_lexemes :: "pystr \<Rightarrow> pystr list" where
  "query_lexemes plain_query_text = dedup (map unescape (find_lexemes plain_query_text))"

definition escape_char :: "nat \<Rightarrow> pystr" where
  "escape_char c = (if c = 92 then [92, 92] else if c = 39 then [39, 39] else [c])"

definition or_tsquery_text :: "pystr list \<Rightarrow> pystr" where
  "or_tsquery_text lexemes =
     py_join (py '' | '') (map (\<lambda>l. [39] @ concat (map escape_char l) @ [39]) lexemes)"

section \<open>The full-text retriever\<close>

text \<open>\<open>plainto_tsquery\<close> as text, \<open>tsvector_to_array\<close>, \<open>@@\<close> with a query given as text, and
  \<open>ts_rank_cd\<close>.\<close>

record text_search =
  ts_plain :: "pystr \<Rightarrow> pystr option"
  ts_lexemes :: "chunk \<Rightarrow> pystr list"
  ts_matches :: "chunk \<Rightarrow> pystr \<Rightarrow> bool"
  ts_rank :: "chunk \<Rightarrow> pystr \<Rightarrow> rat"

text \<open>The order of the rows: more matched lexemes first, then the higher rank, then the earlier
  chunk.\<close>

datatype rank_key = Rank_key (rk_matched: nat) (rk_rank: rat) (rk_ordinal: int)

instantiation rank_key :: linorder
begin

definition less_eq_rank_key :: "rank_key \<Rightarrow> rank_key \<Rightarrow> bool" where
  "a \<le> b \<longleftrightarrow> rk_matched a > rk_matched b \<or>
     (rk_matched a = rk_matched b \<and> (rk_rank a > rk_rank b \<or>
       (rk_rank a = rk_rank b \<and> rk_ordinal a \<le> rk_ordinal b)))"

definition less_rank_key :: "rank_key \<Rightarrow> rank_key \<Rightarrow> bool" where
  "a < b \<longleftrightarrow> a \<le> b \<and> \<not> b \<le> (a :: rank_key)"

instance
proof
  fix x y z :: rank_key
  show "(x < y) = (x \<le> y \<and> \<not> y \<le> x)" by (rule less_rank_key_def)
  show "x \<le> x" by (simp add: less_eq_rank_key_def)
  show "x \<le> y \<Longrightarrow> y \<le> z \<Longrightarrow> x \<le> z" by (auto simp: less_eq_rank_key_def)
  show "x \<le> y \<Longrightarrow> y \<le> x \<Longrightarrow> x = y" by (cases x; cases y) (auto simp: less_eq_rank_key_def)
  show "x \<le> y \<or> y \<le> x" by (auto simp: less_eq_rank_key_def)
qed

end

type_synonym source_row = "chunk \<times> document_version \<times> document"

text \<open>Chunks of the scope with their INDEXED version and its document.\<close>

definition indexed_rows :: "retrieval_scope \<Rightarrow> db \<Rightarrow> source_row list" where
  "indexed_rows sc s =
     [(c, v, d). c \<leftarrow> t_chunks s, v \<leftarrow> t_versions s, d \<leftarrow> t_documents s,
        dv_id v = ch_document_version_id c \<and> dv_course_id v = ch_course_id c \<and>
        do_id d = dv_document_id v \<and> do_course_id d = ch_course_id c \<and>
        ch_course_id c = rs_course_id sc \<and> ch_corpus_version_id c = rs_corpus_version_id sc \<and>
        dv_state v = DV_INDEXED]"

text \<open>\<open>Evidence(...)\<close>. The digest of an INDEXED version is never NULL; were it, recording the
  evidence would violate the NOT NULL of its column, and the model fails with that error
  here.\<close>

definition evidence_from :: "source_row \<Rightarrow> (exn, evidence) result" where
  "evidence_from = (\<lambda>(c, v, d).
     case dv_object_sha256 v of None \<Rightarrow> Inl IntegrityError
     | Some checksum \<Rightarrow> Inr \<lparr>ev_chunk_id = ch_id c, ev_course_id = ch_course_id c,
         ev_corpus_version_id = ch_corpus_version_id c, ev_document_version_id = ch_document_version_id c,
         ev_document_title = do_title d, ev_document_sha256 = checksum, ev_page_start = ch_page_start c,
         ev_page_end = ch_page_end c, ev_fragment = py ''chunk-'' @ dec_int (ch_ordinal c),
         ev_content = ch_content c, ev_content_hash = ch_content_hash c\<rparr>)"

definition matched :: "text_search \<Rightarrow> pystr list \<Rightarrow> chunk \<Rightarrow> nat" where
  "matched ts lexemes c = length (filter (\<lambda>l. l \<in> set (ts_lexemes ts c)) lexemes)"

definition fts_key :: "text_search \<Rightarrow> pystr list \<Rightarrow> source_row \<Rightarrow> rank_key" where
  "fts_key ts lexemes = (\<lambda>(c, _). Rank_key (matched ts lexemes c)
     (ts_rank ts c (or_tsquery_text lexemes)) (ch_ordinal c))"

definition fts_rows :: "text_search \<Rightarrow> pystr list \<Rightarrow> retrieval_scope \<Rightarrow> db \<Rightarrow> source_row list" where
  "fts_rows ts lexemes sc s =
     take 5 (sort_key (fts_key ts lexemes) (filter (\<lambda>(c, _).
       ts_matches ts c (or_tsquery_text lexemes) \<and> matched ts lexemes c * 3 \<ge> length lexemes * 2)
       (indexed_rows sc s)))"

definition postgres_retrieve ::
  "text_search \<Rightarrow> time \<Rightarrow> retrieval_scope \<Rightarrow> pystr \<Rightarrow> db \<Rightarrow> (exn, evidence list) result" where
  "postgres_retrieve ts now sc question s =
     bindE (authorize_retrieval sc question now s) (\<lambda>_.
       let lexemes = query_lexemes (case ts_plain ts question of None \<Rightarrow> [] | Some t \<Rightarrow> t) in
       if lexemes = [] then Inr [] else mapE evidence_from (fts_rows ts lexemes sc s))"

section \<open>The dense retriever\<close>

text \<open>\<open>split("|")[-2]\<close>.\<close>

definition split_bar_second_last :: "pystr \<Rightarrow> pystr option" where
  "split_bar_second_last s =
     (let rest = dropWhile (\<lambda>c. c \<noteq> 124) (rev s) in
      if rest = [] then None else Some (rev (takeWhile (\<lambda>c. c \<noteq> 124) (tl rest))))"

record dense_config =
  dn_embedder :: embedder
  dn_max_distance :: rat
  dn_version :: pystr
  dn_dimensions :: int

definition make_dense ::
  "(nat \<Rightarrow> nat option) \<Rightarrow> (rat \<Rightarrow> pystr) \<Rightarrow> embedder \<Rightarrow> rat \<Rightarrow> (exn, dense_config) result" where
  "make_dense decimal float_text emb max_distance =
     (let version = py ''dense-cosine-top5-d'' @ float_text max_distance @ py ''-'' @ em_version emb in
      if length version > 100 then Inl (ValueError ''Retrieval version exceeds the stored length'')
      else case Option.bind (split_bar_second_last (em_version emb)) (py_int10 decimal) of
        None \<Rightarrow> Inl (ValueError ''Embedding version does not declare its dimensions'')
      | Some n \<Rightarrow> Inr \<lparr>dn_embedder = emb, dn_max_distance = max_distance, dn_version = version, dn_dimensions = n\<rparr>)"

definition embedding_of :: "dense_config \<Rightarrow> chunk \<Rightarrow> chunk_embedding \<Rightarrow> bool" where
  "embedding_of cfg c e \<longleftrightarrow> ce_chunk_id e = ch_id c \<and> ce_course_id e = ch_course_id c \<and>
     ce_corpus_version_id e = ch_corpus_version_id c \<and>
     ce_embedding_version e = em_version (dn_embedder cfg) \<and> ce_dims e = dn_dimensions cfg"

text \<open>An indexed chunk without an embedding of this version; the join needs no document here.\<close>

definition missing_embedding :: "dense_config \<Rightarrow> retrieval_scope \<Rightarrow> db \<Rightarrow> chunk option" where
  "missing_embedding cfg sc s =
     find (\<lambda>c. ch_course_id c = rs_course_id sc \<and> ch_corpus_version_id c = rs_corpus_version_id sc \<and>
        exists_where (\<lambda>v. dv_id v = ch_document_version_id c \<and> dv_course_id v = ch_course_id c \<and>
                          dv_state v = DV_INDEXED) (t_versions s) \<and>
        \<not> exists_where (embedding_of cfg c) (t_embeddings s)) (t_chunks s)"

text \<open>The rows with their distance; \<open>None\<close> is NaN, which no threshold admits.\<close>

definition candidate_rows ::
  "(fval list \<Rightarrow> fval list \<Rightarrow> rat option) \<Rightarrow> dense_config \<Rightarrow> fval list \<Rightarrow> retrieval_scope \<Rightarrow> db \<Rightarrow>
   (rat option \<times> source_row) list" where
  "candidate_rows cosine cfg vec sc s =
     [(cosine (ce_embedding e) vec, (c, r)). (c, r) \<leftarrow> indexed_rows sc s, e \<leftarrow> t_embeddings s, embedding_of cfg c e]"

definition dense_rows ::
  "(fval list \<Rightarrow> fval list \<Rightarrow> rat option) \<Rightarrow> dense_config \<Rightarrow> fval list \<Rightarrow> retrieval_scope \<Rightarrow> db \<Rightarrow> source_row list" where
  "dense_rows cosine cfg vec sc s =
     map snd (take 5 (sort_key (\<lambda>(d, c, _). (the d, ch_ordinal c))
       (filter (\<lambda>(d, _). case d of None \<Rightarrow> False | Some x \<Rightarrow> x \<le> dn_max_distance cfg)
         (candidate_rows cosine cfg vec sc s))))"

text \<open>The vector of the question, and the search of the second transaction.\<close>

definition dense_query :: "dense_config \<Rightarrow> pystr \<Rightarrow> (exn, fval list) result" where
  "dense_query cfg question =
     (case em_embed_query (dn_embedder cfg) question of
        Inl _ \<Rightarrow> Inl (RAGFailure ''RETRIEVAL_UNAVAILABLE'')
      | Inr vec \<Rightarrow>
          if int (length vec) \<noteq> dn_dimensions cfg \<or> Not_finite \<in> set vec
          then Inl (RAGFailure ''RETRIEVAL_UNAVAILABLE'') else Inr vec)"

definition dense_search ::
  "(fval list \<Rightarrow> fval list \<Rightarrow> rat option) \<Rightarrow> dense_config \<Rightarrow> time \<Rightarrow> fval list \<Rightarrow> retrieval_scope \<Rightarrow> pystr \<Rightarrow> db \<Rightarrow>
   (exn, evidence list) result" where
  "dense_search cosine cfg now vec sc question s =
     bindE (authorize_retrieval sc question now s) (\<lambda>_.
       if missing_embedding cfg sc s \<noteq> None then Inl (RAGFailure ''RETRIEVAL_INDEX_MISSING'')
       else mapE evidence_from (dense_rows cosine cfg vec sc s))"

text \<open>Two transactions with the provider's call between them; \<open>others\<close> is what happens to the
  database meanwhile.\<close>

definition dense_retrieve ::
  "(fval list \<Rightarrow> fval list \<Rightarrow> rat option) \<Rightarrow> dense_config \<Rightarrow> (db \<Rightarrow> db) \<Rightarrow> time \<Rightarrow> time \<Rightarrow>
   retrieval_scope \<Rightarrow> pystr \<Rightarrow> db \<Rightarrow> (exn, evidence list) result \<times> db" where
  "dense_retrieve cosine cfg others now now' sc question s =
     (case bindE (authorize_retrieval sc question now s) (\<lambda>_. dense_query cfg question) of
        Inl e \<Rightarrow> (Inl e, s)
      | Inr vec \<Rightarrow> (dense_search cosine cfg now' vec sc question (others s), others s))"

section \<open>Choosing the retriever\<close>

datatype retrieval_mode = Fts | Dense

datatype retriever_kind = Postgres_retriever | Dense_retriever dense_config

definition build_retriever ::
  "(nat \<Rightarrow> nat option) \<Rightarrow> (rat \<Rightarrow> pystr) \<Rightarrow> retrieval_mode \<Rightarrow> rat option \<Rightarrow> embedder option \<Rightarrow>
   (exn, retriever_kind) result" where
  "build_retriever decimal float_text m max_distance emb =
     (case m of
        Fts \<Rightarrow> Inr Postgres_retriever
      | Dense \<Rightarrow>
          (case emb of None \<Rightarrow> Inl (ValueError ''Dense retrieval requires an embedder'')
           | Some e \<Rightarrow>
          (case max_distance of None \<Rightarrow> Inl (ValueError ''Dense retrieval requires dense_max_distance'')
           | Some d \<Rightarrow> bindE (make_dense decimal float_text e d) (\<lambda>cfg. Inr (Dense_retriever cfg)))))"


text \<open>\<open>Retriever.retrieve\<close> of the implementation that was chosen.\<close>

definition retrieve_with ::
  "text_search \<Rightarrow> (fval list \<Rightarrow> fval list \<Rightarrow> rat option) \<Rightarrow> (db \<Rightarrow> db) \<Rightarrow> time \<Rightarrow> time \<Rightarrow> retriever_kind \<Rightarrow>
   retrieval_scope \<Rightarrow> pystr \<Rightarrow> db \<Rightarrow> (exn, evidence list) result \<times> db" where
  "retrieve_with ts cosine others now now' kind sc question s =
     (case kind of
        Postgres_retriever \<Rightarrow> (postgres_retrieve ts now sc question s, s)
      | Dense_retriever cfg \<Rightarrow> dense_retrieve cosine cfg others now now' sc question s)"


section \<open>Quoting is sound\<close>

lemma quoted_body_escaped:
  assumes "rest = [] \<or> hd rest \<noteq> 39"
  shows "quoted_body (concat (map escape_char l) @ 39 # rest) = Some (concat (map escape_char l), rest)"
proof (induction l)
  case Nil
  then show ?case using assms by (cases rest) simp_all
next
  case (Cons c l)
  then show ?case by (auto simp: escape_char_def)
qed

lemma unescape_escaped: "unescape (concat (map escape_char l)) = l"
proof (induction l)
  case (Cons c l)
  have "unescape (escape_char c @ xs) = c # unescape xs" for xs
    by (cases xs) (auto simp: escape_char_def)
  then show ?case using Cons by simp
qed simp

lemma find_lexemes_or:
  "find_lexemes (or_tsquery_text ls) = map (\<lambda>l. concat (map escape_char l)) ls"
proof (induction ls rule: induct_list012)
  case 1
  show ?case by (simp add: or_tsquery_text_def)
next
  case (2 l)
  show ?case using quoted_body_escaped [of "[]" l] by (simp add: or_tsquery_text_def)
next
  case (3 l k ls)
  have "or_tsquery_text (l # k # ls) =
      39 # concat (map escape_char l) @ 39 # [32, 124, 32] @ or_tsquery_text (k # ls)"
    by (simp add: or_tsquery_text_def py_def)
  moreover have "find_lexemes ([32, 124, 32] @ xs) = find_lexemes xs" for xs by simp
  ultimately show ?case
    using quoted_body_escaped [of "[32, 124, 32] @ or_tsquery_text (k # ls)" l] "3.IH"(2) by simp
qed

section \<open>The port\<close>

definition corpus_keys :: "db \<Rightarrow> bool" where
  "corpus_keys s \<longleftrightarrow> distinct (map ch_id (t_chunks s)) \<and> distinct (map dv_id (t_versions s)) \<and>
     distinct (map do_id (t_documents s)) \<and>
     distinct (map (\<lambda>e. (ce_chunk_id e, ce_embedding_version e)) (t_embeddings s))"

text \<open>A chunk joins with one version and one document.\<close>

lemma chunk_join_single:
  assumes "corpus_keys s" "(c, v, d) \<in> set [(c, v, d). c \<leftarrow> t_chunks s, v \<leftarrow> t_versions s, d \<leftarrow> t_documents s,
     dv_id v = ch_document_version_id c \<and> dv_course_id v = ch_course_id c \<and> do_id d = dv_document_id v \<and>
     do_course_id d = ch_course_id c \<and> P c v d]"
  shows "[(c', v, d). c' \<leftarrow> t_chunks s, v \<leftarrow> t_versions s, d \<leftarrow> t_documents s,
     dv_id v = ch_document_version_id c' \<and> dv_course_id v = ch_course_id c' \<and> do_id d = dv_document_id v \<and>
     do_course_id d = ch_course_id c' \<and> ch_id c' = ch_id c] = [(c, v, d)]"
proof -
  note k = assms(1) [unfolded corpus_keys_def]
  have m: "c \<in> set (t_chunks s)" "v \<in> set (t_versions s)" "d \<in> set (t_documents s)"
    "dv_id v = ch_document_version_id c" "dv_course_id v = ch_course_id c" "do_id d = dv_document_id v"
    "do_course_id d = ch_course_id c"
    using assms(2) by (auto split: if_splits)
  let ?d = "\<lambda>c' v' d'. if dv_id v' = ch_document_version_id c' \<and> dv_course_id v' = ch_course_id c' \<and>
     do_id d' = dv_document_id v' \<and> do_course_id d' = ch_course_id c' \<and> ch_id c' = ch_id c then [(c', v', d')] else []"
  let ?v = "\<lambda>c' v'. concat (map (?d c' v') (t_documents s))"
  let ?c = "\<lambda>c'. concat (map (?v c') (t_versions s))"
  have "concat (map ?c (t_chunks s)) = ?c c"
  proof (rule concat_map_single [OF distinct_mapI m(1)])
    show "distinct (map ch_id (t_chunks s))" using k by simp
    fix y assume "y \<in> set (t_chunks s)" "y \<noteq> c"
    then have "ch_id y \<noteq> ch_id c" using key_eqD [of ch_id "t_chunks s" y c] k m(1) by blast
    then show "?c y = []" by simp
  qed
  also have "\<dots> = ?v c v"
  proof (rule concat_map_single [OF distinct_mapI m(2)])
    show "distinct (map dv_id (t_versions s))" using k by simp
    fix y assume "y \<in> set (t_versions s)" "y \<noteq> v"
    then have "dv_id y \<noteq> ch_document_version_id c" using key_eqD [of dv_id "t_versions s" y v] k m(2,4) by auto
    then show "?v c y = []" by simp
  qed
  also have "\<dots> = ?d c v d"
  proof (rule concat_map_single [OF distinct_mapI m(3)])
    show "distinct (map do_id (t_documents s))" using k by simp
    fix y assume "y \<in> set (t_documents s)" "y \<noteq> d"
    then have "do_id y \<noteq> dv_document_id v" using key_eqD [of do_id "t_documents s" y d] k m(3,6) by auto
    then show "?d c v y = []" by simp
  qed
  finally show ?thesis using m by simp
qed

lemma indexed_rows_stored:
  assumes "corpus_keys s" "(c, v, d) \<in> set (indexed_rows sc s)" "ms_course_id m = rs_course_id sc"
    "ms_corpus_version_id m = Some (rs_corpus_version_id sc)"
  shows "stored_rows m (ch_id c) s = [(c, v, d)]"
proof -
  let ?P = "\<lambda>c v d. ch_course_id c = rs_course_id sc \<and> ch_corpus_version_id c = rs_corpus_version_id sc \<and> dv_state v = DV_INDEXED"
  have in_c: "ch_course_id c = rs_course_id sc" "ch_corpus_version_id c = rs_corpus_version_id sc" "c \<in> set (t_chunks s)"
    using assms(2) by (auto simp: indexed_rows_def split: if_splits)
  have one: "[(c', v, d). c' \<leftarrow> t_chunks s, v \<leftarrow> t_versions s, d \<leftarrow> t_documents s,
     dv_id v = ch_document_version_id c' \<and> dv_course_id v = ch_course_id c' \<and> do_id d = dv_document_id v \<and>
     do_course_id d = ch_course_id c' \<and> ch_id c' = ch_id c] = [(c, v, d)]"
    by (rule chunk_join_single [OF assms(1), where P = ?P]) (use assms(2) in \<open>simp add: indexed_rows_def\<close>)
  have same: "ch_id c' = ch_id c \<Longrightarrow> c' \<in> set (t_chunks s) \<Longrightarrow>
      ch_course_id c' = ms_course_id m \<and> Some (ch_corpus_version_id c') = ms_corpus_version_id m" for c'
    using key_eqD [of ch_id "t_chunks s" c' c] assms(1,3,4) in_c by (auto simp: corpus_keys_def)
  show ?thesis
    unfolding one [symmetric] stored_rows_def
    by (intro arg_cong [where f = concat] map_cong refl) (use same in auto)
qed

lemma evidence_from_agrees:
  assumes "evidence_from (c, v, d) = Inr i" "(c, v, d) \<in> set (indexed_rows sc s)"
  shows "agrees i (c, v, d)" "ev_chunk_id i = ch_id c" "ev_course_id i = rs_course_id sc"
    "ev_corpus_version_id i = rs_corpus_version_id sc"
  using assms by (auto simp: evidence_from_def agrees_def indexed_rows_def split: option.splits if_splits)

lemma flush_evidence_new:
  assumes "evidence_keys (t_evidence s @ (case added of None \<Rightarrow> [] | Some e \<Rightarrow> [e]) @ es)"
  shows "flush_evidence added s = Inr (s\<lparr>t_evidence := t_evidence s @ (case added of None \<Rightarrow> [] | Some e \<Rightarrow> [e])\<rparr>)"
proof (cases added)
  case None
  then show ?thesis by (simp add: flush_evidence_def)
next
  case (Some e)
  then have "(re_message_id e, re_chunk_id e) \<notin> (\<lambda>e. (re_message_id e, re_chunk_id e)) ` set (t_evidence s)"
    using assms by (simp add: evidence_keys_def)
  then have "\<not> (\<exists>x \<in> set (t_evidence s). re_message_id x = re_message_id e \<and> re_chunk_id x = re_chunk_id e)"
    by (metis (mono_tags, lifting) image_eqI)
  then show ?thesis using Some by (simp add: flush_evidence_def exists_where_iff)
qed

lemma evidence_loop_ok:
  assumes "\<forall>i \<in> set items. ev_course_id i = ms_course_id m \<and> Some (ev_corpus_version_id i) = ms_corpus_version_id m \<and>
      (\<exists>row. stored_rows m (ev_chunk_id i) s = [row] \<and> agrees i row)"
    "evidence_keys (t_evidence s @ (case added of None \<Rightarrow> [] | Some e \<Rightarrow> [e]) @ map (evidence_row (ms_id m)) items)"
  shows "\<exists>s'. evidence_loop m added items s = Inr ((), s')"
  using assms
proof (induction items arbitrary: added s)
  case Nil
  then show ?case using flush_evidence_new [of s added "[]"] by simp
next
  case (Cons i items)
  obtain row where row: "stored_rows m (ev_chunk_id i) s = [row]" "agrees i row" using Cons.prems(1) by auto
  let ?s1 = "s\<lparr>t_evidence := t_evidence s @ (case added of None \<Rightarrow> [] | Some e \<Rightarrow> [e])\<rparr>"
  have f: "flush_evidence added s = Inr ?s1"
    by (rule flush_evidence_new [OF Cons.prems(2)])
  have "\<exists>s'. evidence_loop m (Some (evidence_row (ms_id m) i)) items ?s1 = Inr ((), s')"
    by (rule Cons.IH) (use Cons.prems in simp_all)
  then show ?case using Cons.prems(1) f row by (simp add: one_or_none_def)
qed

locale retriever =
  fixes retrieve :: "retrieval_scope \<Rightarrow> pystr \<Rightarrow> db \<Rightarrow> (exn, evidence list) result \<times> db"
  assumes authorized: "retrieve sc q s = (Inr evs, s') \<Longrightarrow>
      \<exists>m \<in> set (t_messages s'). \<exists>now. retrieval_authorized sc q now s' m"
    and sourced: "retrieve sc q s = (Inr evs, s') \<Longrightarrow> corpus_keys s' \<Longrightarrow>
      \<exists>rows. mapE evidence_from rows = Inr evs \<and> length rows \<le> 5 \<and> set rows \<subseteq> set (indexed_rows sc s') \<and>
        distinct (map (\<lambda>(c, _). ch_id c) rows)"
begin

lemma evidence_in_scope:
  assumes "retrieve sc q s = (Inr evs, s')" "corpus_keys s'"
  shows "in_scope sc evs" "length evs \<le> 5"
    "\<And>i. i \<in> set evs \<Longrightarrow> \<exists>row \<in> set (indexed_rows sc s'). evidence_from row = Inr i"
proof -
  obtain rows where r: "mapE evidence_from rows = Inr evs" "length rows \<le> 5"
    "set rows \<subseteq> set (indexed_rows sc s')" "distinct (map (\<lambda>(c, _). ch_id c) rows)"
    using sourced [OF assms] by blast
  from r(1) have all: "list_all2 (\<lambda>x y. evidence_from x = Inr y) rows evs" by (simp add: mapE_Inr_iff)
  show each: "\<exists>row \<in> set (indexed_rows sc s'). evidence_from row = Inr i" if "i \<in> set evs" for i
    using all r(3) that by (fastforce simp: list_all2_conv_all_nth in_set_conv_nth)
  show "length evs \<le> 5" using list_all2_lengthD [OF all] r(2) by simp
  have "map ev_chunk_id evs = map (\<lambda>(c, _). ch_id c) rows"
    using all by (induction rule: list_all2_induct) (auto simp: evidence_from_def split: option.splits prod.splits)
  then show "in_scope sc evs"
    using r(4) each evidence_from_agrees(3,4) by (fastforce simp: in_scope_def list_all_iff)
qed

text \<open>What a retriever returns can be recorded for the message it was retrieved for.\<close>

lemma recordable:
  assumes "retrieve sc q s = (Inr evs, s')" "corpus_keys s'" "conv_inv s'"
    "pending (rs_message_id sc) now s' = Inr m" "\<And>e. e \<in> set (t_evidence s') \<Longrightarrow> re_message_id e \<noteq> rs_message_id sc"
  shows "\<exists>s''. save_evidence (rs_message_id sc) evs now s' = Inr ((), s'')"
proof -
  obtain m' now' where m': "m' \<in> set (t_messages s')" "retrieval_authorized sc q now' s' m'"
    using authorized [OF assms(1)] by blast
  then have "m' = m" using unique_pending [OF assms(3,4) m'(1)] by (simp add: retrieval_authorized_def)
  then have m: "ms_course_id m = rs_course_id sc" "ms_corpus_version_id m = Some (rs_corpus_version_id sc)"
    "ms_id m = rs_message_id sc"
    using m'(2) by (simp_all add: retrieval_authorized_def)
  note ev = evidence_in_scope [OF assms(1,2)]
  have d: "distinct (map ev_chunk_id evs)" using ev(1) by (simp add: in_scope_def)
  have "ev_course_id i = ms_course_id m \<and> Some (ev_corpus_version_id i) = ms_corpus_version_id m \<and>
      (\<exists>row. stored_rows m (ev_chunk_id i) s' = [row] \<and> agrees i row)" if i: "i \<in> set evs" for i
  proof -
    obtain c v d where row: "(c, v, d) \<in> set (indexed_rows sc s')" "evidence_from (c, v, d) = Inr i"
      using ev(3) [OF i] by auto
    show ?thesis
      using evidence_from_agrees [OF row(2,1)] indexed_rows_stored [OF assms(2) row(1) m(1,2)] m by simp
  qed
  moreover have "evidence_keys (t_evidence s' @ map (evidence_row (ms_id m)) evs)"
  proof -
    have "map (\<lambda>e. (re_message_id e, re_chunk_id e)) (map (evidence_row (ms_id m)) evs) =
        map (Pair (ms_id m)) (map ev_chunk_id evs)"
      by (simp add: evidence_row_def)
    moreover have "distinct (map (Pair (ms_id m)) (map ev_chunk_id evs))"
      using d by (simp only: distinct_map inj_on_def) simp
    moreover have "(\<lambda>e. (re_message_id e, re_chunk_id e)) ` set (t_evidence s') \<inter>
        Pair (ms_id m) ` ev_chunk_id ` set evs = {}"
      using assms(5) m(3) by auto
    ultimately show ?thesis
      using assms(3) by (simp add: conv_inv_def evidence_keys_def del: map_map)
  qed
  ultimately have "\<exists>s''. evidence_loop m None evs s' = Inr ((), s'')"
    by (intro evidence_loop_ok) simp_all
  then show ?thesis using assms(4) ev(2) d by (simp add: save_evidence_def)
qed

end


text \<open>Under the keys of the tables a chunk occurs once among the joined rows.\<close>

lemma distinct_comprehension:
  assumes "distinct (map k xs)" "\<And>x. x \<in> set xs \<Longrightarrow> \<exists>y. f x = [] \<or> f x = [y] \<and> g y = k x"
  shows "distinct (map g (concat (map f xs)))"
  using assms
proof (induction xs)
  case (Cons x xs)
  have keys: "g ` set (concat (map f xs)) \<subseteq> k ` set xs"
  proof
    fix z assume "z \<in> g ` set (concat (map f xs))"
    then obtain x' y where "x' \<in> set xs" "y \<in> set (f x')" "z = g y" by auto
    then show "z \<in> k ` set xs" using Cons.prems(2) [of x'] by auto
  qed
  have "distinct (map g (concat (map f xs)))" using Cons by simp
  moreover obtain y where "f x = [] \<or> f x = [y] \<and> g y = k x" using Cons.prems(2) [of x] by auto
  moreover have "k x \<notin> g ` set (concat (map f xs))" using Cons.prems(1) keys by auto
  ultimately show ?case by auto
qed simp

lemma join_single:
  assumes "distinct (map kv vs)" "distinct (map kd ds)" "\<And>v d. C v d \<Longrightarrow> kv v = a" "\<And>v d. C v d \<Longrightarrow> kd d = b v"
  shows "concat (map (\<lambda>v. concat (map (\<lambda>d. if C v d then [h v d] else []) ds)) vs) = [] \<or>
    (\<exists>v \<in> set vs. \<exists>d \<in> set ds. C v d \<and>
       concat (map (\<lambda>v. concat (map (\<lambda>d. if C v d then [h v d] else []) ds)) vs) = [h v d])"
proof (cases "\<exists>v \<in> set vs. \<exists>d \<in> set ds. C v d")
  case True
  then obtain v d where vd: "v \<in> set vs" "d \<in> set ds" "C v d" by blast
  let ?d = "\<lambda>v d. if C v d then [h v d] else []"
  have "concat (map (\<lambda>v. concat (map (?d v) ds)) vs) = concat (map (?d v) ds)"
  proof (rule concat_map_single [OF distinct_mapI [OF assms(1)] vd(1)])
    fix w assume w: "w \<in> set vs" "w \<noteq> v"
    then have "\<not> C w e" for e using key_eqD [OF assms(1) w(1) vd(1)] assms(3) vd(3) by metis
    then show "concat (map (?d w) ds) = []" by simp
  qed
  also have "\<dots> = ?d v d"
  proof (rule concat_map_single [OF distinct_mapI [OF assms(2)] vd(2)])
    fix e assume e: "e \<in> set ds" "e \<noteq> d"
    then have "\<not> C v e" using key_eqD [OF assms(2) e(1) vd(2)] assms(4) vd(3) by metis
    then show "?d v e = []" by simp
  qed
  finally show ?thesis using vd by auto
qed auto

lemma indexed_rows_distinct:
  assumes "corpus_keys s"
  shows "distinct (map (\<lambda>(c, _). ch_id c) (indexed_rows sc s))"
  unfolding indexed_rows_def
proof (rule distinct_comprehension [where k = ch_id])
  show "distinct (map ch_id (t_chunks s))" using assms by (simp add: corpus_keys_def)
  fix c assume "c \<in> set (t_chunks s)"
  have "distinct (map dv_id (t_versions s))" "distinct (map do_id (t_documents s))"
    using assms by (simp_all add: corpus_keys_def)
  from join_single [OF this, where C = "\<lambda>v d. dv_id v = ch_document_version_id c \<and>
      dv_course_id v = ch_course_id c \<and> do_id d = dv_document_id v \<and> do_course_id d = ch_course_id c \<and>
      ch_course_id c = rs_course_id sc \<and> ch_corpus_version_id c = rs_corpus_version_id sc \<and>
      dv_state v = DV_INDEXED" and a = "ch_document_version_id c" and b = dv_document_id and h = "\<lambda>v d. (c, v, d)"]
  show "\<exists>y. concat (map (\<lambda>v. concat (map (\<lambda>d. if dv_id v = ch_document_version_id c \<and>
      dv_course_id v = ch_course_id c \<and> do_id d = dv_document_id v \<and> do_course_id d = ch_course_id c \<and>
      ch_course_id c = rs_course_id sc \<and> ch_corpus_version_id c = rs_corpus_version_id sc \<and>
      dv_state v = DV_INDEXED then [(c, v, d)] else []) (t_documents s))) (t_versions s)) = [] \<or>
    concat (map (\<lambda>v. concat (map (\<lambda>d. if dv_id v = ch_document_version_id c \<and>
      dv_course_id v = ch_course_id c \<and> do_id d = dv_document_id v \<and> do_course_id d = ch_course_id c \<and>
      ch_course_id c = rs_course_id sc \<and> ch_corpus_version_id c = rs_corpus_version_id sc \<and>
      dv_state v = DV_INDEXED then [(c, v, d)] else []) (t_documents s))) (t_versions s)) = [y] \<and>
      (case y of (c, _) \<Rightarrow> ch_id c) = ch_id c"
    by fastforce
qed


lemma distinct_selected:
  assumes "distinct (map g xs)"
  shows "distinct (map g (take n (sort_key f (filter P xs))))"
proof -
  have "distinct (map g (filter P xs))" using assms by (rule distinct_map_filter)
  then have "distinct (map g (sort_key f (filter P xs)))" by (simp add: distinct_map)
  then show ?thesis by (simp add: take_map [symmetric])
qed

lemma fts_rows_sound:
  assumes "corpus_keys s"
  shows "length (fts_rows ts lexemes sc s) \<le> 5" "set (fts_rows ts lexemes sc s) \<subseteq> set (indexed_rows sc s)"
    "distinct (map (\<lambda>(c, _). ch_id c) (fts_rows ts lexemes sc s))"
proof -
  show "length (fts_rows ts lexemes sc s) \<le> 5" by (simp add: fts_rows_def)
  show "set (fts_rows ts lexemes sc s) \<subseteq> set (indexed_rows sc s)"
    by (auto simp: fts_rows_def dest!: in_set_takeD)
  show "distinct (map (\<lambda>(c, _). ch_id c) (fts_rows ts lexemes sc s))"
    unfolding fts_rows_def by (rule distinct_selected [OF indexed_rows_distinct [OF assms]])
qed

lemma candidate_rows_distinct:
  assumes "corpus_keys s"
  shows "distinct (map (\<lambda>x. ch_id (fst (snd x))) (candidate_rows cosine cfg vec sc s))"
  unfolding candidate_rows_def
proof (rule distinct_comprehension [where k = "\<lambda>(c, _). ch_id c"])
  show "distinct (map (\<lambda>(c, _). ch_id c) (indexed_rows sc s))" by (rule indexed_rows_distinct [OF assms])
  fix x assume "x \<in> set (indexed_rows sc s)"
  obtain c r where x: "x = (c, r)" by (cases x)
  have k: "distinct (map (\<lambda>e. (ce_chunk_id e, ce_embedding_version e)) (t_embeddings s))"
    using assms by (simp add: corpus_keys_def)
  let ?f = "\<lambda>e. if embedding_of cfg c e then [(cosine (ce_embedding e) vec, c, r)] else []"
  have "\<exists>y. concat (map ?f (t_embeddings s)) = [] \<or> concat (map ?f (t_embeddings s)) = [y] \<and> ch_id (fst (snd y)) = ch_id c"
  proof (cases "\<exists>e \<in> set (t_embeddings s). embedding_of cfg c e")
    case True
    then obtain e where e: "e \<in> set (t_embeddings s)" "embedding_of cfg c e" by blast
    have "concat (map ?f (t_embeddings s)) = ?f e"
    proof (rule concat_map_single [OF distinct_mapI [OF k] e(1)])
      fix y assume "y \<in> set (t_embeddings s)" "y \<noteq> e"
      then show "?f y = []" using key_eqD [OF k, of y e] e by (auto simp: embedding_of_def)
    qed
    then show ?thesis using e(2) by simp
  qed auto
  then show "\<exists>y. (case x of (c, r) \<Rightarrow> concat (map (\<lambda>e. if embedding_of cfg c e then [(cosine (ce_embedding e) vec, c, r)] else []) (t_embeddings s))) = [] \<or>
      (case x of (c, r) \<Rightarrow> concat (map (\<lambda>e. if embedding_of cfg c e then [(cosine (ce_embedding e) vec, c, r)] else []) (t_embeddings s))) = [y] \<and>
      ch_id (fst (snd y)) = (case x of (c, _) \<Rightarrow> ch_id c)"
    by (simp add: x)
qed

lemma dense_rows_sound:
  assumes "corpus_keys s"
  shows "length (dense_rows cosine cfg vec sc s) \<le> 5"
    "set (dense_rows cosine cfg vec sc s) \<subseteq> set (indexed_rows sc s)"
    "distinct (map (\<lambda>(c, _). ch_id c) (dense_rows cosine cfg vec sc s))"
proof -
  show "length (dense_rows cosine cfg vec sc s) \<le> 5" by (simp add: dense_rows_def)
  show "set (dense_rows cosine cfg vec sc s) \<subseteq> set (indexed_rows sc s)"
    by (auto simp: dense_rows_def candidate_rows_def dest!: in_set_takeD split: if_splits)
  have "map (\<lambda>(c, _). ch_id c) (map snd xs) = map (\<lambda>x. ch_id (fst (snd x))) xs"
    for xs :: "(rat option \<times> source_row) list" by (auto simp: split_def)
  then show "distinct (map (\<lambda>(c, _). ch_id c) (dense_rows cosine cfg vec sc s))"
    unfolding dense_rows_def using distinct_selected [OF candidate_rows_distinct [OF assms]] by metis
qed

lemma authorize_retrieval_Inr:
  assumes "authorize_retrieval sc q now s = Inr ()"
  shows "\<exists>m \<in> set (t_messages s). retrieval_authorized sc q now s m"
  using assms by (auto simp: authorize_retrieval_def split: option.splits dest!: find_SomeD)

interpretation fts: retriever "\<lambda>sc q s. (postgres_retrieve ts now sc q s, s)" for ts now
proof unfold_locales
  fix sc q s evs s'
  assume "(postgres_retrieve ts now sc q s, s) = (Inr evs, s')"
  note eq = this
  have r: "postgres_retrieve ts now sc q s = Inr evs" using eq by (rule Pair_inject)
  have s': "s' = s" using eq by auto
  from r have a: "authorize_retrieval sc q now s = Inr ()" by (auto simp: postgres_retrieve_def result_simps)
  show "\<exists>m \<in> set (t_messages s'). \<exists>now. retrieval_authorized sc q now s' m"
    using authorize_retrieval_Inr [OF a] s' by blast
  assume k: "corpus_keys s'"
  show "\<exists>rows. mapE evidence_from rows = Inr evs \<and> length rows \<le> 5 \<and> set rows \<subseteq> set (indexed_rows sc s') \<and>
      distinct (map (\<lambda>(c, _). ch_id c) rows)"
  proof (cases "evs = []")
    case True
    then show ?thesis by (intro exI [of _ "[]"]) simp
  next
    case False
    then have "mapE evidence_from (fts_rows ts (query_lexemes (case ts_plain ts q of None \<Rightarrow> [] | Some t \<Rightarrow> t)) sc s) = Inr evs"
      using r a by (auto simp: postgres_retrieve_def Let_def split: if_splits)
    then show ?thesis using fts_rows_sound [OF k] s' by blast
  qed
qed

lemma dense_retrieve_Inr:
  assumes "dense_retrieve cosine cfg others now now' sc q s = (Inr evs, s')"
  obtains vec where "dense_query cfg q = Inr vec" "s' = others s"
    "dense_search cosine cfg now' vec sc q s' = Inr evs"
  using assms by (auto simp: dense_retrieve_def split: sum.splits if_splits simp: result_simps)

lemma dense_search_Inr:
  assumes "dense_search cosine cfg now vec sc q s = Inr evs"
  shows "authorize_retrieval sc q now s = Inr ()" "mapE evidence_from (dense_rows cosine cfg vec sc s) = Inr evs"
  using assms by (auto simp: dense_search_def result_simps split: if_splits)

interpretation dense: retriever "dense_retrieve cosine cfg others now now'" for cosine cfg others now now'
proof unfold_locales
  fix sc q s evs s'
  assume "dense_retrieve cosine cfg others now now' sc q s = (Inr evs, s')"
  then obtain vec where "dense_search cosine cfg now' vec sc q s' = Inr evs" by (rule dense_retrieve_Inr)
  note d = dense_search_Inr [OF this]
  show "\<exists>m \<in> set (t_messages s'). \<exists>now. retrieval_authorized sc q now s' m"
    using authorize_retrieval_Inr [OF d(1)] by blast
  assume "corpus_keys s'"
  from dense_rows_sound [OF this] d(2)
  show "\<exists>rows. mapE evidence_from rows = Inr evs \<and> length rows \<le> 5 \<and> set rows \<subseteq> set (indexed_rows sc s') \<and>
      distinct (map (\<lambda>(c, _). ch_id c) rows)"
    by blast
qed

interpretation either: retriever "retrieve_with ts cosine others now now' kind" for ts cosine others now now' kind
proof (cases kind)
  case Postgres_retriever
  then have "retrieve_with ts cosine others now now' kind = (\<lambda>sc q s. (postgres_retrieve ts now sc q s, s))"
    by (simp add: retrieve_with_def fun_eq_iff)
  then show "retriever (retrieve_with ts cosine others now now' kind)" by (simp only: fts.retriever_axioms)
next
  case (Dense_retriever cfg)
  then have "retrieve_with ts cosine others now now' kind = dense_retrieve cosine cfg others now now'"
    by (simp add: retrieve_with_def fun_eq_iff)
  then show "retriever (retrieve_with ts cosine others now now' kind)" by (simp only: dense.retriever_axioms)
qed

text \<open>The rows kept are the best ones, in order.\<close>

definition best_of :: "('a \<Rightarrow> 'k::linorder) \<Rightarrow> nat \<Rightarrow> 'a list \<Rightarrow> 'a list \<Rightarrow> bool" where
  "best_of key n pool rows \<longleftrightarrow> length rows \<le> n \<and> set rows \<subseteq> set pool \<and> sorted (map key rows) \<and>
     (\<forall>x \<in> set pool. x \<notin> set rows \<longrightarrow> length rows = n \<and> (\<forall>r \<in> set rows. key r \<le> key x))"

lemma best_of_take_sort: "best_of key n pool (take n (sort_key key pool))"
proof -
  let ?s = "sort_key key pool"
  have sorted: "sorted (map key ?s)" by simp
  have "length (take n ?s) = n \<and> (\<forall>r \<in> set (take n ?s). key r \<le> key x)"
    if x: "x \<in> set pool" "x \<notin> set (take n ?s)" for x
  proof -
    have d: "x \<in> set (drop n ?s)" using x by (metis append_take_drop_id set_append set_sort Un_iff)
    then have "n \<le> length ?s" by (cases "n \<le> length ?s") simp_all
    moreover have "key r \<le> key x" if "r \<in> set (take n ?s)" for r
    proof -
      have "sorted (map key (take n ?s) @ map key (drop n ?s))" using sorted by (simp flip: map_append)
      then show ?thesis using d that by (auto simp: sorted_append)
    qed
    ultimately show ?thesis by simp
  qed
  moreover have "sorted (map key (take n ?s))" using sorted by (simp flip: take_map add: sorted_wrt_take)
  moreover have "set (take n ?s) \<subseteq> set pool" by (auto dest: in_set_takeD)
  ultimately show ?thesis unfolding best_of_def by simp
qed

lemma fts_rows_best:
  "best_of (fts_key ts ls) 5
     (filter (\<lambda>(c, _). ts_matches ts c (or_tsquery_text ls) \<and> matched ts ls c * 3 \<ge> length ls * 2)
       (indexed_rows sc s)) (fts_rows ts ls sc s)"
  unfolding fts_rows_def by (rule best_of_take_sort)

end
