(* ===== verification/Embedding.thy ===== *)
theory Embedding
  imports Json Retrieval
begin

text \<open>
  \<^verbatim>\<open>embedding.py\<close>: the version under which vectors are stored. It carries the dimensions, which the
  worker and the dense retriever read back, and a hash of everything else that shapes a vector.
\<close>

section \<open>The version\<close>

definition TEXT_PLACEHOLDER :: pystr where
  "TEXT_PLACEHOLDER = py ''{text}''"

definition MAX_EMBEDDING_VERSION_LENGTH :: nat where
  "MAX_EMBEDDING_VERSION_LENGTH = 200"

definition MAX_EMBEDDING_DIMENSIONS :: nat where
  "MAX_EMBEDDING_DIMENSIONS = 16000"

definition HASH_LENGTH :: nat where
  "HASH_LENGTH = 8"

definition MAX_EMBED_MODEL_LENGTH :: nat where
  "MAX_EMBED_MODEL_LENGTH =
     MAX_EMBEDDING_VERSION_LENGTH - 2 - length (dec_nat MAX_EMBEDDING_DIMENSIONS) - HASH_LENGTH"

definition canonical_style :: "(fval \<Rightarrow> pystr) \<Rightarrow> json_style" where
  "canonical_style float_text = \<lparr>js_ascii = True, js_item_separator = [44], js_key_separator = [58],
     js_sort_keys = True, js_float = float_text\<rparr>"

definition canonical_text :: "(fval \<Rightarrow> pystr) \<Rightarrow> pystr \<Rightarrow> pystr \<Rightarrow> pystr \<Rightarrow> json \<Rightarrow> pystr" where
  "canonical_text float_text query_template document_template input_type provider_routing =
     json_text (canonical_style float_text)
       (JDict [(py ''query_template'', JStr query_template), (py ''document_template'', JStr document_template),
               (py ''input_type'', JStr input_type), (py ''provider_routing'', provider_routing)])"

text \<open>\<open>sha256_hex\<close> is \<open>hashlib.sha256(text.encode("utf-8")).hexdigest()\<close>.\<close>

definition derive_embedding_version ::
  "(fval \<Rightarrow> pystr) \<Rightarrow> (pystr \<Rightarrow> pystr) \<Rightarrow> pystr \<Rightarrow> int \<Rightarrow> pystr \<Rightarrow> pystr \<Rightarrow> pystr \<Rightarrow> json \<Rightarrow> (exn, pystr) result" where
  "derive_embedding_version float_text sha256_hex model dimensions query_template document_template input_type
     provider_routing =
     (let digest = take HASH_LENGTH
            (sha256_hex (canonical_text float_text query_template document_template input_type provider_routing));
          version = model @ [124] @ dec_int dimensions @ [124] @ digest
      in if length version > MAX_EMBEDDING_VERSION_LENGTH
         then Inl (ValueError ''embedding version exceeds the stored length'') else Inr version)"

section \<open>Decimal numbers\<close>

lemma dec_nat_digits: "c \<in> set (dec_nat n) \<Longrightarrow> 48 \<le> c \<and> c \<le> 57"
proof (induction n rule: dec_nat.induct)
  case (1 n)
  show ?case
  proof (cases "n < 10")
    case False
    have "c \<in> set (dec_nat (n div 10)) \<or> c = 48 + n mod 10"
      using 1(2) False by (subst (asm) dec_nat.simps) auto
    then show ?thesis using 1(1) [OF False] by auto
  qed (use 1(2) in \<open>subst (asm) dec_nat.simps, auto\<close>)
qed

lemma dec_digits_value_append:
  assumes "\<forall>c \<in> set xs. 48 \<le> c \<and> c \<le> 57"
  shows "dec_digits_value decimal acc (xs @ ys) =
     (case dec_digits_value decimal acc xs of None \<Rightarrow> None | Some v \<Rightarrow> dec_digits_value decimal v ys)"
  using assms by (induction xs arbitrary: acc) (auto simp: Let_def)

lemma dec_digits_value_dec_nat: "dec_digits_value decimal 0 (dec_nat n) = Some n"
proof (induction n rule: dec_nat.induct)
  case (1 n)
  have d: "\<forall>c \<in> set (dec_nat (n div 10)). 48 \<le> c \<and> c \<le> 57" using dec_nat_digits by blast
  show ?case
  proof (cases "n < 10")
    case True
    then show ?thesis by (subst dec_nat.simps) simp
  next
    case False
    then have "dec_digits_value decimal 0 (dec_nat n) =
        dec_digits_value decimal 0 (dec_nat (n div 10) @ [48 + n mod 10])" by (subst dec_nat.simps) simp
    also have "\<dots> = Some (10 * (n div 10) + n mod 10)"
      using 1 [OF False] by (simp add: dec_digits_value_append [OF d])
    finally show ?thesis by simp
  qed
qed

lemma strip_visible:
  assumes "\<forall>c \<in> set s. \<not> is_space c"
  shows "strip s = s"
  by (rule strip_id) (use assms in \<open>cases "s = []"; auto\<close>)

lemma digit_not_space: "48 \<le> c \<Longrightarrow> c \<le> 57 \<Longrightarrow> \<not> is_space c"
  by (simp add: is_space_def)

lemma dec_int_chars: "c \<in> set (dec_int i) \<Longrightarrow> c = 45 \<or> (48 \<le> c \<and> c \<le> 57)"
  by (auto simp: dec_int_def dest: dec_nat_digits split: if_splits)

lemma py_int10_dec_int [simp]: "py_int10 decimal (dec_int i) = Some i"
proof -
  have s: "strip (dec_int i) = dec_int i"
    using dec_int_chars digit_not_space by (intro strip_visible) (fastforce simp: is_space_def)
  have h: "dec_nat n \<noteq> [] \<and> hd (dec_nat n) \<noteq> 45 \<and> hd (dec_nat n) \<noteq> 43 \<and> hd (dec_nat n) \<noteq> 95" for n
    using dec_nat_digits [of "hd (dec_nat n)" n] by auto
  show ?thesis
  proof (cases "i < 0")
    case True
    then show ?thesis using s h [of "nat (- i)"]
      by (simp add: py_int10_def Let_def dec_int_def dec_digits_value_dec_nat)
  next
    case False
    then show ?thesis using s h [of "nat i"]
      by (simp add: py_int10_def Let_def dec_int_def dec_digits_value_dec_nat)
  qed
qed

lemma dec_int_inj: "dec_int i = dec_int j \<Longrightarrow> i = j"
  by (metis option.inject py_int10_dec_int)

lemma length_dec_nat: "n < 10 ^ k \<Longrightarrow> 0 < k \<Longrightarrow> length (dec_nat n) \<le> k"
proof (induction k arbitrary: n)
  case (Suc k)
  show ?case
  proof (cases "n < 10")
    case True
    then show ?thesis by (subst dec_nat.simps) simp
  next
    case False
    then have "k \<noteq> 0" using Suc.prems by (cases k) auto
    moreover have "n div 10 < 10 ^ k" using Suc.prems(1) by (simp add: div_less_iff_less_mult)
    ultimately have "length (dec_nat (n div 10)) \<le> k" using Suc.IH by simp
    then show ?thesis using False by (subst dec_nat.simps) simp
  qed
qed simp

section \<open>The two readers of the version\<close>

lemma bar_split:
  assumes "124 \<notin> set d" "124 \<notin> set h"
  shows "split_bar_second_last (m @ [124] @ d @ [124] @ h) = Some d"
    "rsplit_bar_1 (m @ [124] @ d @ [124] @ h) = Some d"
proof -
  have r: "rev (m @ [124] @ d @ [124] @ h) = rev h @ 124 # rev d @ 124 # rev m" by simp
  have d1: "dropWhile (\<lambda>c. c \<noteq> 124) (rev h @ 124 # ys) = 124 # ys" for ys
    using assms(2) by (induction h rule: rev_induct) auto
  have t1: "takeWhile (\<lambda>c. c \<noteq> 124) (rev d @ 124 # ys) = rev d" for ys
    using assms(1) by (induction d rule: rev_induct) auto
  show "split_bar_second_last (m @ [124] @ d @ [124] @ h) = Some d"
    unfolding split_bar_second_last_def r by (simp add: d1 t1 Let_def)
  show "rsplit_bar_1 (m @ [124] @ d @ [124] @ h) = Some d"
    unfolding rsplit_bar_1_def r by (simp add: d1 t1 Let_def)
qed

text \<open>Hexadecimal digests have no bar.\<close>

definition hexdigest :: "(pystr \<Rightarrow> pystr) \<Rightarrow> bool" where
  "hexdigest sha \<longleftrightarrow> (\<forall>t. length (sha t) = 64 \<and> list_all hex_lower (sha t))"

lemma hexdigest_char: "hexdigest sha \<Longrightarrow> c \<in> set (sha t) \<Longrightarrow> hex_lower c"
  by (auto simp: hexdigest_def list_all_iff)

lemma derive_Inr:
  assumes "derive_embedding_version float_text sha model dims q d it routing = Inr v"
  shows "v = model @ [124] @ dec_int dims @ [124] @ take HASH_LENGTH (sha (canonical_text float_text q d it routing))"
    "length v \<le> MAX_EMBEDDING_VERSION_LENGTH"
  using assms by (auto simp: derive_embedding_version_def Let_def split: if_splits)

lemma version_dimensions:
  assumes "hexdigest sha"
  shows "case derive_embedding_version float_text sha model dims q d it routing of
      Inr v \<Rightarrow> length v \<le> MAX_EMBEDDING_VERSION_LENGTH \<and>
        Option.bind (rsplit_bar_1 v) (py_int10 decimal) = Some dims \<and>
        Option.bind (split_bar_second_last v) (py_int10 decimal) = Some dims
    | Inl e \<Rightarrow> \<not> (length model \<le> MAX_EMBED_MODEL_LENGTH \<and> 1 \<le> dims \<and> dims \<le> int MAX_EMBEDDING_DIMENSIONS)"
proof (cases "derive_embedding_version float_text sha model dims q d it routing")
  case (Inr v)
  let ?h = "take HASH_LENGTH (sha (canonical_text float_text q d it routing))"
  have "124 \<notin> set ?h"
    using hexdigest_char [OF assms, of 124] by (auto simp: hex_lower_def dest!: in_set_takeD)
  moreover have "124 \<notin> set (dec_int dims)" using dec_int_chars [of 124 dims] by auto
  ultimately show ?thesis using derive_Inr [OF Inr] Inr bar_split [of "dec_int dims" ?h model] by simp
next
  case (Inl e)
  let ?h = "take HASH_LENGTH (sha (canonical_text float_text q d it routing))"
  have "MAX_EMBEDDING_VERSION_LENGTH < length (model @ [124] @ dec_int dims @ [124] @ ?h)"
    using Inl by (auto simp: derive_embedding_version_def Let_def split: if_splits)
  then have long: "190 < length model + length (dec_int dims)"
    by (simp add: MAX_EMBEDDING_VERSION_LENGTH_def HASH_LENGTH_def min_def split: if_splits)
  have m: "MAX_EMBED_MODEL_LENGTH = 185"
    by (simp add: MAX_EMBED_MODEL_LENGTH_def MAX_EMBEDDING_VERSION_LENGTH_def MAX_EMBEDDING_DIMENSIONS_def
        HASH_LENGTH_def dec_nat.simps)
  have "length (dec_int dims) \<le> 5" if "1 \<le> dims" "dims \<le> int MAX_EMBEDDING_DIMENSIONS"
    using that length_dec_nat [of "nat dims" 5] by (simp add: dec_int_def MAX_EMBEDDING_DIMENSIONS_def)
  then show ?thesis using Inl long m by auto
qed

text \<open>The dimensions of a version are read back. Whatever the name of the model, both the worker
  and the dense retriever find in a derived version the number of dimensions it was derived for;
  for the models and dimensions the settings accept, deriving a version never fails, and no
  version is longer than its column.\<close>

lemma version_carries_dimensions:
  assumes "hexdigest sha"
  shows "case derive_embedding_version float_text sha model dims q d it routing of
      Inr v \<Rightarrow> length v \<le> MAX_EMBEDDING_VERSION_LENGTH \<and>
        Option.bind (rsplit_bar_1 v) (py_int10 decimal) = Some dims \<and>
        Option.bind (split_bar_second_last v) (py_int10 decimal) = Some dims
    | Inl e \<Rightarrow> \<not> (length model \<le> MAX_EMBED_MODEL_LENGTH \<and> 1 \<le> dims \<and> dims \<le> int MAX_EMBEDDING_DIMENSIONS)"
  by (rule version_dimensions [OF assms])

definition sample_sha :: "pystr \<Rightarrow> pystr" where
  "sample_sha t = replicate 64 48"

lemma version_carries_dimensions_example:
  "derive_embedding_version (\<lambda>_. []) sample_sha (py ''a|b'') 3 [] [] [] JNull = Inr (py ''a|b|3|00000000'') \<and>
   Option.bind (rsplit_bar_1 (py ''a|b|3|00000000'')) (py_int10 (\<lambda>_. None)) = Some 3"
proof -
  have h: "hexdigest sample_sha"
    unfolding hexdigest_def sample_sha_def by (simp add: list_all_iff hex_lower_def)
  have v: "derive_embedding_version (\<lambda>_. []) sample_sha (py ''a|b'') 3 [] [] [] JNull = Inr (py ''a|b|3|00000000'')"
    by (simp add: derive_embedding_version_def sample_sha_def HASH_LENGTH_def MAX_EMBEDDING_VERSION_LENGTH_def
        py_def dec_int_def dec_nat.simps numeral_eq_Suc)
  then show ?thesis
    using version_carries_dimensions [OF h, where model = "py ''a|b''" and dims = 3 and float_text = "\<lambda>_. []" and q = "[]" and d = "[]" and it = "[]" and routing = JNull and decimal = "\<lambda>_. None"] by simp
qed

section \<open>Hashed texts distinguish what they stand for\<close>

lemma canonical_text_members:
  "canonical_text float_text q d it routing =
     [123] @ json_string (py ''document_template'') @ [58] @ json_string d @ [44] @
     json_string (py ''input_type'') @ [58] @ json_string it @ [44] @
     json_string (py ''provider_routing'') @ [58] @ json_text (canonical_style float_text) routing @ [44] @
     json_string (py ''query_template'') @ [58] @ json_string q @ [125]"
proof -
  have s: "sort_key fst [(k4, w), (k1, x), (k2, y), (k3, z)] = [(k1, x), (k2, y), (k3, z), (k4, w)]"
    if "k1 < k2" "k2 < k3" "k3 < k4" for k1 k2 k3 k4 :: pystr and w x y z :: pystr
    using that by (auto simp: less_imp_le)
  have o: "py ''document_template'' < py ''input_type''" "py ''input_type'' < py ''provider_routing''"
    "py ''provider_routing'' < py ''query_template''"
    by (simp_all add: py_def)
  show ?thesis
    by (simp only: canonical_text_def canonical_style_def json_string_text_def json_text.simps list.map map_prod_simp
        prod.case id_apply Let_def json_style.simps if_True s [OF o] snd_conv py_join.simps append.assoc)
qed

lemma strings_agree:
  assumes "json_string s @ x = json_string t @ y" "list_all scalar_value s" "list_all scalar_value t"
  shows "s = t" "x = y"
  using json_string_prefix [of s t x y] assms by (simp_all add: list_all_iff)

lemma dec_int_end: "dec_int i @ [125] = dec_int j @ [125] \<Longrightarrow> i = j"
  using dec_int_inj by simp

text \<open>Requests and embedders are told apart by what is hashed. Two uploads whose canonical texts
  are equal have the same name, size, digest and media type, and two embedders with the same routing
  whose canonical texts are equal use the same templates and input type: no quoting trick makes one
  look like the other.\<close>

lemma hashed_texts_distinguish:
  assumes "\<forall>s \<in> {f, h, ct, f', h', ct', q, d, it, q', d', it'}. list_all scalar_value s"
  shows "(request_hash id (upload_payload f n h ct) = request_hash id (upload_payload f' n' h' ct') \<longrightarrow>
       f = f' \<and> n = n' \<and> h = h' \<and> ct = ct') \<and>
    (canonical_text float_text q d it routing = canonical_text float_text q' d' it' routing \<longrightarrow>
       q = q' \<and> d = d' \<and> it = it')"
proof (intro conjI impI)
  assume "request_hash id (upload_payload f n h ct) = request_hash id (upload_payload f' n' h' ct')"
  then have e: "json_string ct @ [44] @ json_string (py ''filename'') @ [58] @ json_string f @ [44] @
      json_string (py ''sha256'') @ [58] @ json_string h @ [44] @ json_string (py ''size_bytes'') @ [58] @ dec_int n @ [125] =
    json_string ct' @ [44] @ json_string (py ''filename'') @ [58] @ json_string f' @ [44] @
      json_string (py ''sha256'') @ [58] @ json_string h' @ [44] @ json_string (py ''size_bytes'') @ [58] @ dec_int n' @ [125]"
    by (simp add: request_hash_def upload_payload_def)
  note e1 = strings_agree [OF e]
  have ct: "ct = ct'" using e1(1) assms by simp
  have "json_string f @ [44] @ json_string (py ''sha256'') @ [58] @ json_string h @ [44] @ json_string (py ''size_bytes'') @ [58] @ dec_int n @ [125] =
    json_string f' @ [44] @ json_string (py ''sha256'') @ [58] @ json_string h' @ [44] @ json_string (py ''size_bytes'') @ [58] @ dec_int n' @ [125]"
    using e1(2) assms by simp
  note e2 = strings_agree [OF this]
  have f: "f = f'" using e2(1) assms by simp
  have "json_string h @ [44] @ json_string (py ''size_bytes'') @ [58] @ dec_int n @ [125] =
    json_string h' @ [44] @ json_string (py ''size_bytes'') @ [58] @ dec_int n' @ [125]"
    using e2(2) assms by simp
  note e3 = strings_agree [OF this]
  have h: "h = h'" using e3(1) assms by simp
  have "dec_int n @ [125] = dec_int n' @ [125]" using e3(2) assms by simp
  then have "n = n'" by (rule dec_int_end)
  then show "f = f'" "n = n'" "h = h'" "ct = ct'" using ct f h by simp_all
next
  assume "canonical_text float_text q d it routing = canonical_text float_text q' d' it' routing"
  then have "json_string d @ [44] @ json_string (py ''input_type'') @ [58] @ json_string it @ [44] @
     json_string (py ''provider_routing'') @ [58] @ json_text (canonical_style float_text) routing @ [44] @
     json_string (py ''query_template'') @ [58] @ json_string q @ [125] =
    json_string d' @ [44] @ json_string (py ''input_type'') @ [58] @ json_string it' @ [44] @
     json_string (py ''provider_routing'') @ [58] @ json_text (canonical_style float_text) routing @ [44] @
     json_string (py ''query_template'') @ [58] @ json_string q' @ [125]"
    unfolding canonical_text_members by simp
  note e1 = strings_agree [OF this]
  have d: "d = d'" using e1(1) assms by simp
  have "json_string it @ [44] @
     json_string (py ''provider_routing'') @ [58] @ json_text (canonical_style float_text) routing @ [44] @
     json_string (py ''query_template'') @ [58] @ json_string q @ [125] =
    json_string it' @ [44] @
     json_string (py ''provider_routing'') @ [58] @ json_text (canonical_style float_text) routing @ [44] @
     json_string (py ''query_template'') @ [58] @ json_string q' @ [125]"
    using e1(2) assms by simp
  note e2 = strings_agree [OF this]
  have it: "it = it'" using e2(1) assms by simp
  have "json_string q @ [125] = json_string q' @ [125]" using e2(2) assms by simp
  note e3 = strings_agree [OF this]
  show "q = q'" "d = d'" "it = it'" using e3(1) assms d it by simp_all
qed

end
