(* ===== verification/Embedding_Http.thy ===== *)
theory Embedding_Http
  imports Embedding "HOL-Library.Log_Nat" "HOL-Library.Multiset"
begin

text \<open>
  \<^verbatim>\<open>embedding_http.py\<close>: the adapter of an embeddings endpoint. Texts are sent in batches, the answer is
  put in the order of its indexes and checked before a vector is used; the transport is a parameter.
\<close>

section \<open>Text templates and numbers\<close>

text \<open>\<open>s.count(old)\<close> for a non-empty \<open>old\<close>: occurrences from the left, without overlap.\<close>

function py_count :: "pystr \<Rightarrow> pystr \<Rightarrow> nat" where
  "py_count old s =
     (if s = [] then 0
      else if old \<noteq> [] \<and> prefix old s then Suc (py_count old (drop (length old) s))
      else py_count old (tl s))"
  by pat_completeness auto
termination by (relation "measure (\<lambda>(old, s). length s)") auto

declare py_count.simps [simp del]

text \<open>\<open>float(i)\<close> of an \<open>int\<close>: the nearest number of 53 significant bits, ties to even; \<open>None\<close> is the
  \<open>OverflowError\<close>.\<close>

definition float_of_int :: "int \<Rightarrow> rat option" where
  "float_of_int i =
     (if \<bar>i\<bar> \<le> 2 ^ 53 then Some (of_int i)
      else let e = floorlog 2 (nat \<bar>i\<bar>) - 53;
               r = round_half_even (of_int i / 2 ^ e) * 2 ^ e
           in if \<bar>r\<bar> \<ge> 2 ^ 1024 then None else Some (of_int r))"

section \<open>The adapter\<close>

text \<open>\<open>Http_error\<close> is any \<open>httpx.HTTPError\<close>; \<open>None\<close> is a body that is not JSON.\<close>

datatype http_response = Http_error | Response int "json option"

record http_embedder =
  he_endpoint :: pystr
  he_model :: pystr
  he_api_key :: pystr
  he_dimensions :: int
  he_batch_size :: nat
  he_query_template :: pystr
  he_document_template :: pystr
  he_input_type :: pystr
  he_provider_routing :: "(pystr \<times> json) list option"
  he_version :: pystr

definition make_http_embedder ::
  "(fval \<Rightarrow> pystr) \<Rightarrow> (pystr \<Rightarrow> pystr) \<Rightarrow> pystr \<Rightarrow> pystr \<Rightarrow> pystr \<Rightarrow> int \<Rightarrow> nat \<Rightarrow> pystr \<Rightarrow> pystr \<Rightarrow> pystr \<Rightarrow>
   (pystr \<times> json) list option \<Rightarrow> (exn, http_embedder) result" where
  "make_http_embedder float_text sha endpoint model api_key dimensions batch_size query_template document_template
     input_type provider_routing =
     (let routing = (case provider_routing of None \<Rightarrow> None | Some kvs \<Rightarrow> if kvs = [] then None else Some kvs) in
      bindE (derive_embedding_version float_text sha model dimensions query_template document_template input_type
               (case routing of None \<Rightarrow> JNull | Some kvs \<Rightarrow> JDict kvs))
        (\<lambda>version. Inr \<lparr>he_endpoint = endpoint, he_model = model, he_api_key = api_key, he_dimensions = dimensions,
           he_batch_size = batch_size, he_query_template = query_template, he_document_template = document_template,
           he_input_type = input_type, he_provider_routing = routing, he_version = version\<rparr>))"

datatype embed_kind = Query_text | Document_text

definition nvidia_input_type :: "embed_kind \<Rightarrow> pystr" where
  "nvidia_input_type kind = (case kind of Query_text \<Rightarrow> py ''query'' | Document_text \<Rightarrow> py ''passage'')"

definition request_body :: "http_embedder \<Rightarrow> pystr list \<Rightarrow> embed_kind \<Rightarrow> json" where
  "request_body e inputs kind =
     JDict ([(py ''model'', JStr (he_model e)), (py ''input'', JList (map JStr inputs)),
             (py ''encoding_format'', JStr (py ''float''))] @
       (if he_input_type e = py ''nvidia'' then [(py ''input_type'', JStr (nvidia_input_type kind))] else []) @
       (case he_provider_routing e of None \<Rightarrow> [] | Some kvs \<Rightarrow> if kvs = [] then [] else [(py ''provider'', JDict kvs)]))"

text \<open>\<open>item.get("index", default)\<close> as a number. An item that is no object raises \<open>AttributeError\<close>; an
  index that is no finite number is told from every position, whether sorting fails on it or not.\<close>

fun number_value :: "json \<Rightarrow> rat option" where
  "number_value (JInt i) = Some (of_int i)"
| "number_value (JBool b) = Some (if b then 1 else 0)"
| "number_value (JFloat (Finite r)) = Some r"
| "number_value _ = None"

fun item_index :: "rat \<Rightarrow> json \<Rightarrow> rat option" where
  "item_index dflt (JDict kvs) =
     (case map_of kvs (py ''index'') of None \<Rightarrow> Some dflt | Some v \<Rightarrow> number_value v)"
| "item_index dflt _ = None"

definition in_index_order :: "json list \<Rightarrow> (exn, json list) result" where
  "in_index_order items =
     (if list_ex (\<lambda>x. item_index 0 x = None) items then Inl EmbeddingInvalid
      else let ordered = sort_key (\<lambda>x. the (item_index 0 x)) items in
        if list_all (\<lambda>(i, x). item_index (of_nat i) x = Some (of_nat i)) (enumerate 0 ordered)
        then Inr ordered else Inl EmbeddingInvalid)"

fun embedding_member :: "json \<Rightarrow> (exn, json) result" where
  "embedding_member (JDict kvs) =
     (case map_of kvs (py ''embedding'') of None \<Rightarrow> Inl EmbeddingInvalid | Some v \<Rightarrow> Inr v)"
| "embedding_member _ = Inl EmbeddingInvalid"

text \<open>The test of each value, up to the first that fails it; \<open>math.isfinite\<close> converts an \<open>int\<close>.\<close>

fun finite_values :: "json list \<Rightarrow> (exn, bool) result" where
  "finite_values [] = Inr True"
| "finite_values (JInt i # vs) = (case float_of_int i of None \<Rightarrow> Inl OverflowError | Some _ \<Rightarrow> finite_values vs)"
| "finite_values (JFloat (Finite r) # vs) = finite_values vs"
| "finite_values (_ # vs) = Inr False"

fun check_vector :: "int \<Rightarrow> json \<Rightarrow> (exn, unit) result" where
  "check_vector dims (JList xs) =
     (if int (length xs) \<noteq> dims then Inl EmbeddingInvalid
      else bindE (finite_values xs) (\<lambda>ok. if ok then Inr () else Inl EmbeddingInvalid))"
| "check_vector dims _ = Inl EmbeddingInvalid"

fun float_value :: "json \<Rightarrow> fval" where
  "float_value (JInt i) = (case float_of_int i of None \<Rightarrow> Not_finite | Some r \<Rightarrow> Finite r)"
| "float_value (JFloat x) = x"
| "float_value _ = Not_finite"

fun float_values :: "json \<Rightarrow> fval list" where
  "float_values (JList xs) = map float_value xs"
| "float_values _ = []"

definition parse_response :: "http_embedder \<Rightarrow> json option \<Rightarrow> nat \<Rightarrow> (exn, fval list list) result" where
  "parse_response e body expected =
     (case body of
        Some (JDict kvs) \<Rightarrow>
          (case map_of kvs (py ''data'') of
             Some (JList items) \<Rightarrow>
               bindE (in_index_order items) (\<lambda>ordered.
               bindE (mapE embedding_member ordered) (\<lambda>vectors.
                 if length vectors \<noteq> expected then Inl EmbeddingInvalid
                 else bindE (mapE (check_vector (he_dimensions e)) vectors) (\<lambda>_. Inr (map float_values vectors))))
           | _ \<Rightarrow> Inl EmbeddingInvalid)
      | _ \<Rightarrow> Inl EmbeddingInvalid)"

definition embed_request ::
  "(json \<Rightarrow> http_response) \<Rightarrow> http_embedder \<Rightarrow> pystr list \<Rightarrow> embed_kind \<Rightarrow> (exn, fval list list) result" where
  "embed_request post e inputs kind =
     (case post (request_body e inputs kind) of
        Http_error \<Rightarrow> Inl EmbeddingUnavailable
      | Response status body \<Rightarrow>
          if status \<ge> 500 \<or> status \<in> {408, 425, 429} then Inl EmbeddingUnavailable
          else if status \<noteq> 200 then Inl EmbeddingInvalid
          else parse_response e body (length inputs))"

text \<open>The loop over the batches; \<open>range\<close> refuses a step of zero.\<close>

function embed_in_batches ::
  "(json \<Rightarrow> http_response) \<Rightarrow> http_embedder \<Rightarrow> pystr list \<Rightarrow> (exn, fval list list) result" where
  "embed_in_batches post e inputs =
     (if he_batch_size e = 0 then Inl (ValueError ''range() arg 3 must not be zero'')
      else if inputs = [] then Inr []
      else bindE (embed_request post e (take (he_batch_size e) inputs) Document_text) (\<lambda>vectors.
           bindE (embed_in_batches post e (drop (he_batch_size e) inputs)) (\<lambda>rest. Inr (vectors @ rest))))"
  by pat_completeness auto
termination by (relation "measure (\<lambda>(post, e, inputs). length inputs)") auto

declare embed_in_batches.simps [simp del]

definition embed_documents ::
  "(json \<Rightarrow> http_response) \<Rightarrow> http_embedder \<Rightarrow> pystr list \<Rightarrow> (exn, fval list list) result" where
  "embed_documents post e texts =
     embed_in_batches post e (map (\<lambda>t. py_replace TEXT_PLACEHOLDER t (he_document_template e)) texts)"

definition embed_query :: "(json \<Rightarrow> http_response) \<Rightarrow> http_embedder \<Rightarrow> pystr \<Rightarrow> (exn, fval list) result" where
  "embed_query post e t =
     bindE (embed_request post e [py_replace TEXT_PLACEHOLDER t (he_query_template e)] Query_text)
       (\<lambda>vectors. case vectors of [] \<Rightarrow> Inl IndexError | v # _ \<Rightarrow> Inr v)"

definition as_embedder :: "(json \<Rightarrow> http_response) \<Rightarrow> http_embedder \<Rightarrow> embedder" where
  "as_embedder post e = \<lparr>em_version = he_version e, em_embed_documents = embed_documents post e,
     em_embed_query = embed_query post e\<rparr>"

section \<open>What a response yields\<close>

lemma float_of_int_small [simp]: "\<bar>i\<bar> \<le> 2 ^ 53 \<Longrightarrow> float_of_int i = Some (of_int i)"
  by (simp add: float_of_int_def)

lemma finite_values_True:
  "finite_values xs = Inr True \<Longrightarrow> Not_finite \<notin> set (map float_value xs)"
  by (induction xs rule: finite_values.induct) (auto split: option.splits)

lemma finite_values_Inl: "finite_values xs = Inl err \<Longrightarrow> err = OverflowError"
  by (induction xs rule: finite_values.induct) (auto split: option.splits)

lemma check_vector_Inr:
  "check_vector dims v = Inr () \<Longrightarrow> int (length (float_values v)) = dims \<and> Not_finite \<notin> set (float_values v)"
  by (cases v) (auto simp: bindE_eq_Inr dest: finite_values_True split: if_splits)

lemma check_vector_Inl: "check_vector dims v = Inl err \<Longrightarrow> err \<in> {EmbeddingInvalid, OverflowError}"
  by (cases v) (auto simp: bindE_eq_Inl dest: finite_values_Inl split: if_splits)

lemma mapE_Inl: "mapE f xs = Inl e \<Longrightarrow> \<exists>x \<in> set xs. f x = Inl e"
  by (induction xs) (auto simp: bindE_eq_Inl split: sum.splits)

lemma embedding_member_Inl: "embedding_member x = Inl err \<Longrightarrow> err = EmbeddingInvalid"
  by (cases x) (auto split: option.splits)

lemma in_index_order_Inl: "in_index_order xs = Inl err \<Longrightarrow> err = EmbeddingInvalid"
  by (auto simp: in_index_order_def Let_def split: if_splits)

lemma parse_response_Inr:
  assumes "parse_response e body n = Inr vs"
  shows "length vs = n" "v \<in> set vs \<Longrightarrow> int (length v) = he_dimensions e \<and> Not_finite \<notin> set v"
proof -
  obtain vectors us where v: "length vectors = n" "mapE (check_vector (he_dimensions e)) vectors = Inr us"
    "vs = map float_values vectors"
    using assms by (auto simp: parse_response_def bindE_eq_Inr split: option.splits json.splits if_splits)
  show "length vs = n" using v by simp
  assume "v \<in> set vs"
  then obtain w where w: "w \<in> set vectors" "v = float_values w" using v(3) by auto
  then obtain u where "check_vector (he_dimensions e) w = Inr u"
    using v(2) by (auto simp: mapE_Inr_iff list_all2_conv_all_nth in_set_conv_nth)
  then show "int (length v) = he_dimensions e \<and> Not_finite \<notin> set v" using check_vector_Inr w(2) by simp
qed

lemma parse_response_Inl:
  "parse_response e body n = Inl err \<Longrightarrow> err \<in> {EmbeddingInvalid, OverflowError}"
  by (auto simp: parse_response_def bindE_eq_Inl split: option.splits json.splits if_splits
      dest!: in_index_order_Inl mapE_Inl embedding_member_Inl check_vector_Inl)

lemma embed_request_Inr:
  assumes "embed_request post e inputs kind = Inr vs"
  shows "length vs = length inputs" "v \<in> set vs \<Longrightarrow> int (length v) = he_dimensions e \<and> Not_finite \<notin> set v"
  using assms parse_response_Inr by (auto simp: embed_request_def split: http_response.splits if_splits)

lemma embed_request_Inl:
  "embed_request post e inputs kind = Inl err \<Longrightarrow> err \<in> {EmbeddingUnavailable, EmbeddingInvalid, OverflowError}"
  by (auto simp: embed_request_def split: http_response.splits if_splits dest!: parse_response_Inl)

lemma embed_in_batches_result:
  assumes "he_batch_size e \<noteq> 0"
  shows "case embed_in_batches post e inputs of
      Inr vs \<Rightarrow> length vs = length inputs \<and> (\<forall>v \<in> set vs. int (length v) = he_dimensions e \<and> Not_finite \<notin> set v)
    | Inl err \<Rightarrow> err \<in> {EmbeddingUnavailable, EmbeddingInvalid, OverflowError}"
  using assms
proof (induction post e inputs rule: embed_in_batches.induct)
  case (1 post e inputs)
  let ?b = "he_batch_size e"
  show ?case
  proof (cases "inputs = []")
    case True
    then show ?thesis using 1(2) by (simp add: embed_in_batches.simps)
  next
    case False
    show ?thesis
    proof (cases "embed_request post e (take ?b inputs) Document_text")
      case (Inl err)
      then show ?thesis using embed_request_Inl [OF Inl] False 1(2)
        by (subst embed_in_batches.simps) simp
    next
      case (Inr vs)
      note vs = embed_request_Inr [OF Inr]
      have ih: "case embed_in_batches post e (drop ?b inputs) of
          Inr ws \<Rightarrow> length ws = length (drop ?b inputs) \<and>
            (\<forall>v \<in> set ws. int (length v) = he_dimensions e \<and> Not_finite \<notin> set v)
        | Inl err \<Rightarrow> err \<in> {EmbeddingUnavailable, EmbeddingInvalid, OverflowError}"
        using 1(1) [OF 1(2) False 1(2)] .
      have st: "embed_in_batches post e inputs =
          bindE (embed_in_batches post e (drop ?b inputs)) (\<lambda>rest. Inr (vs @ rest))"
        using False Inr 1(2) by (subst embed_in_batches.simps) simp
      show ?thesis
        using ih vs by (cases "embed_in_batches post e (drop ?b inputs)") (auto simp: st)
    qed
  qed
qed

section \<open>The order of the answer\<close>

lemma sort_key_of_mset:
  assumes "mset xs = mset (map g [0..<n])" "\<And>i. i < n \<Longrightarrow> k (g i) = (of_nat i :: rat)"
  shows "sort_key k xs = map g [0..<n]"
proof -
  have d: "distinct (map k (map g [0..<n]))" using assms(2) by (auto simp: distinct_map inj_on_def)
  have s: "sorted (map k (map g [0..<n]))"
    using assms(2) by (simp add: sorted_wrt_map sorted_wrt_iff_nth_less)
  have e: "set xs = set (map g [0..<n])" "mset (sort_key k xs) = mset (map g [0..<n])"
    using mset_eq_setD [OF assms(1)] assms(1) by simp_all
  have i: "inj_on k (set (map g [0..<n]))" using d by (simp only: distinct_map)
  have "distinct (map k (sort_key k xs))"
    using d e(2) by (metis mset_eq_imp_distinct_iff mset_map)
  then show ?thesis
    using e s d i by (intro map_sorted_distinct_set_unique [where f = k]) simp_all
qed

text \<open>The item an endpoint sends for position \<open>i\<close> of a request.\<close>

definition response_item :: "(pystr \<Rightarrow> rat list) \<Rightarrow> pystr list \<Rightarrow> nat \<Rightarrow> json" where
  "response_item f inputs i =
     JDict [(py ''index'', JInt (int i)), (py ''embedding'', JList (map (JFloat \<circ> Finite) (f (inputs ! i))))]"

lemma item_index_response [simp]: "item_index d (response_item f inputs i) = Some (of_nat i)"
  by (simp add: response_item_def)

lemma embedding_member_response [simp]:
  "embedding_member (response_item f inputs i) = Inr (JList (map (JFloat \<circ> Finite) (f (inputs ! i))))"
  by (simp add: response_item_def py_def)

lemma finite_values_finite [simp]: "finite_values (map (JFloat \<circ> Finite) xs) = Inr True"
  by (induction xs) simp_all

lemma mapE_eq_map: "(\<And>x. x \<in> set xs \<Longrightarrow> f x = Inr (g x)) \<Longrightarrow> mapE f xs = Inr (map g xs)"
  by (induction xs) simp_all

text \<open>What an endpoint documents: it answers each request of documents with one item per input, in any
  order, each with the index of its input.\<close>

definition honest_endpoint :: "(json \<Rightarrow> http_response) \<Rightarrow> http_embedder \<Rightarrow> (pystr \<Rightarrow> rat list) \<Rightarrow> bool" where
  "honest_endpoint post e f \<longleftrightarrow>
     (\<forall>inputs. \<exists>kvs items. post (request_body e inputs Document_text) = Response 200 (Some (JDict kvs)) \<and>
        map_of kvs (py ''data'') = Some (JList items) \<and>
        mset items = mset (map (response_item f inputs) [0..<length inputs]))"

lemma honest_request:
  assumes "honest_endpoint post e f" "\<And>t. int (length (f t)) = he_dimensions e"
  shows "embed_request post e inputs Document_text = Inr (map (map Finite \<circ> f) inputs)"
proof -
  obtain kvs items where r: "post (request_body e inputs Document_text) = Response 200 (Some (JDict kvs))"
    "map_of kvs (py ''data'') = Some (JList items)"
    "mset items = mset (map (response_item f inputs) [0..<length inputs])"
    using assms(1) unfolding honest_endpoint_def by blast
  let ?items = "map (response_item f inputs) [0..<length inputs]"
  have "set items = set ?items" using r(3) by (rule mset_eq_setD)
  then have "list_ex (\<lambda>x. item_index 0 x = None) items = False" by (auto simp: list_ex_iff)
  moreover have "sort_key (\<lambda>x. the (item_index 0 x)) items = ?items"
    by (rule sort_key_of_mset [OF r(3)]) simp
  moreover have "list_all (\<lambda>(i, x). item_index (of_nat i) x = Some (of_nat i)) (enumerate 0 ?items)"
    by (auto simp: list_all_iff in_set_enumerate_eq)
  ultimately have o: "in_index_order items = Inr ?items" by (simp add: in_index_order_def Let_def)
  let ?vectors = "map (\<lambda>t. JList (map (JFloat \<circ> Finite) (f t))) inputs"
  have "mapE embedding_member ?items = Inr (map (\<lambda>i. JList (map (JFloat \<circ> Finite) (f (inputs ! i)))) [0..<length inputs])"
    by (subst mapE_eq_map [where g = "\<lambda>x. case embedding_member x of Inr v \<Rightarrow> v | Inl _ \<Rightarrow> JNull"]) auto
  also have "map (\<lambda>i. JList (map (JFloat \<circ> Finite) (f (inputs ! i)))) [0..<length inputs] = ?vectors"
    by (rule nth_equalityI) simp_all
  finally have m: "mapE embedding_member ?items = Inr ?vectors" .
  have "check_vector (he_dimensions e) v = Inr ()" if "v \<in> set ?vectors" for v
    using that assms(2) by auto
  then have "mapE (check_vector (he_dimensions e)) ?vectors = Inr (map (\<lambda>_. ()) ?vectors)" by (rule mapE_eq_map)
  then show ?thesis
    using r(1,2) o m by (simp add: embed_request_def parse_response_def comp_def)
qed

lemma honest_batches:
  assumes "honest_endpoint post e f" "\<And>t. int (length (f t)) = he_dimensions e" "he_batch_size e \<noteq> 0"
  shows "embed_in_batches post e inputs = Inr (map (map Finite \<circ> f) inputs)"
  using assms
proof (induction post e inputs rule: embed_in_batches.induct)
  case (1 post e inputs)
  show ?case
  proof (cases "inputs = []")
    case False
    note r = honest_request [OF 1(2,3), of "take (he_batch_size e) inputs"]
    have "embed_in_batches post e (drop (he_batch_size e) inputs) = Inr (map (map Finite \<circ> f) (drop (he_batch_size e) inputs))"
      using 1(1) [OF 1(4) False 1(2,3,4)] .
    then show ?thesis using False 1(4) r
      by (subst embed_in_batches.simps) (simp flip: map_append)
  qed (use 1(4) in \<open>simp add: embed_in_batches.simps\<close>)
qed

section \<open>Vectors for the worker and the retriever\<close>

lemma embed_batches_http:
  assumes "he_batch_size e \<noteq> 0"
  shows "case embed_batches (as_embedder post e) (he_dimensions e) late k texts of
      Inr vs \<Rightarrow> length vs = length texts
    | Inl err \<Rightarrow> err \<in> {EmbeddingUnavailable, embedding_invalid, OverflowError}"
proof (induction "as_embedder post e" "he_dimensions e" late k texts rule: embed_batches.induct)
  case (1 late k texts)
  show ?case
  proof (cases "texts = [] \<or> late k")
    case True
    then show ?thesis by (subst embed_batches.simps) auto
  next
    case False
    let ?batch = "take 32 texts"
    have d: "case em_embed_documents (as_embedder post e) ?batch of
        Inr vs \<Rightarrow> length vs = length ?batch \<and> (\<forall>v \<in> set vs. int (length v) = he_dimensions e \<and> Not_finite \<notin> set v)
      | Inl err \<Rightarrow> err \<in> {EmbeddingUnavailable, EmbeddingInvalid, OverflowError}"
      using embed_in_batches_result [OF assms, where post = post
          and inputs = "map (\<lambda>t. py_replace TEXT_PLACEHOLDER t (he_document_template e)) ?batch"]
      unfolding as_embedder_def embed_documents_def embedder.simps length_map .
    show ?thesis
    proof (cases "em_embed_documents (as_embedder post e) ?batch")
      case (Inl err)
      then show ?thesis using False d by (subst embed_batches.simps) auto
    next
      case (Inr vs)
      then have ok: "\<not> (length vs \<noteq> length ?batch \<or>
          list_ex (\<lambda>v. int (length v) \<noteq> he_dimensions e \<or> Not_finite \<in> set v) vs)"
        using d by (auto simp: list_ex_iff)
      have ih: "case embed_batches (as_embedder post e) (he_dimensions e) late (Suc k) (drop 32 texts) of
          Inr ws \<Rightarrow> length ws = length (drop 32 texts)
        | Inl err \<Rightarrow> err \<in> {EmbeddingUnavailable, embedding_invalid, OverflowError}"
        using 1 [OF _ _ refl Inr ok] False by simp
      have st: "embed_batches (as_embedder post e) (he_dimensions e) late k texts =
          bindE (embed_batches (as_embedder post e) (he_dimensions e) late (Suc k) (drop 32 texts)) (\<lambda>rest. Inr (vs @ rest))"
        using False Inr ok by (subst embed_batches.simps) simp
      show ?thesis
        using ih ok by (cases "embed_batches (as_embedder post e) (he_dimensions e) late (Suc k) (drop 32 texts)")
          (auto simp: st)
    qed
  qed
qed

text \<open>C22: batching and the order of an answer do not matter. Against an endpoint that answers every
  request of documents with one item per input, in whatever order, each with the index of its
  input, the result for any list of texts is the vector of each text in the order of the texts,
  whatever the batch size.\<close>

theorem embedding_ignores_order:
  assumes "honest_endpoint post e f" "\<And>t. int (length (f t)) = he_dimensions e" "0 < he_batch_size e"
  shows "embed_documents post e texts =
    Inr (map (\<lambda>t. map Finite (f (py_replace TEXT_PLACEHOLDER t (he_document_template e)))) texts)"
  using honest_batches [OF assms(1,2)] assms(3) by (simp add: embed_documents_def comp_def)

text \<open>C23: no response is trusted. Whatever the endpoint answers, the adapter returns one vector per text,
  each of the configured length and free of NaN and infinities, or raises: for the worker the only
  outcomes are one vector per chunk, a transient outage, the recorded failure
  \<open>EMBEDDING_INVALID\<close>, or an \<open>OverflowError\<close> that no clause of the adapter catches.\<close>

theorem embedding_never_trusts:
  assumes "0 < he_batch_size e"
    and "Option.bind (rsplit_bar_1 (he_version e)) (py_int10 decimal) = Some (he_dimensions e)"
  shows "(case embed_documents post e texts of
       Inr vs \<Rightarrow> length vs = length texts \<and> (\<forall>v \<in> set vs. int (length v) = he_dimensions e \<and> Not_finite \<notin> set v)
     | Inl err \<Rightarrow> err \<in> {EmbeddingUnavailable, EmbeddingInvalid, OverflowError}) \<and>
    (case embed_query post e t of
       Inr v \<Rightarrow> int (length v) = he_dimensions e \<and> Not_finite \<notin> set v
     | Inl err \<Rightarrow> err \<in> {EmbeddingUnavailable, EmbeddingInvalid, OverflowError}) \<and>
    (case embed_chunks decimal lease clock (Some (as_embedder post e)) chunks of
       Inr vs \<Rightarrow> \<exists>ws. vs = Some ws \<and> length ws = length chunks
     | Inl err \<Rightarrow> err \<in> {EmbeddingUnavailable, embedding_invalid, OverflowError})"
proof (intro conjI)
  have b: "he_batch_size e \<noteq> 0" using assms(1) by simp
  show "case embed_documents post e texts of
       Inr vs \<Rightarrow> length vs = length texts \<and> (\<forall>v \<in> set vs. int (length v) = he_dimensions e \<and> Not_finite \<notin> set v)
     | Inl err \<Rightarrow> err \<in> {EmbeddingUnavailable, EmbeddingInvalid, OverflowError}"
    using embed_in_batches_result [OF b, where post = post
        and inputs = "map (\<lambda>t. py_replace TEXT_PLACEHOLDER t (he_document_template e)) texts"]
    unfolding embed_documents_def length_map .
  show "case embed_query post e t of
       Inr v \<Rightarrow> int (length v) = he_dimensions e \<and> Not_finite \<notin> set v
     | Inl err \<Rightarrow> err \<in> {EmbeddingUnavailable, EmbeddingInvalid, OverflowError}"
  proof (cases "embed_request post e [py_replace TEXT_PLACEHOLDER t (he_query_template e)] Query_text")
    case (Inr vs)
    obtain v where "vs = [v]" using embed_request_Inr(1) [OF Inr] by (cases vs) auto
    then show ?thesis using Inr embed_request_Inr(2) [OF Inr, of v] by (simp add: embed_query_def)
  qed (use embed_request_Inl in \<open>auto simp: embed_query_def\<close>)
  show "case embed_chunks decimal lease clock (Some (as_embedder post e)) chunks of
       Inr vs \<Rightarrow> \<exists>ws. vs = Some ws \<and> length ws = length chunks
     | Inl err \<Rightarrow> err \<in> {EmbeddingUnavailable, embedding_invalid, OverflowError}"
  proof -
    have v: "em_version (as_embedder post e) = he_version e" by (simp add: as_embedder_def)
    have "embed_chunks decimal lease clock (Some (as_embedder post e)) chunks =
        bindE (embed_batches (as_embedder post e) (he_dimensions e) (\<lambda>k. clock (Suc k) \<ge> clock 0 + 800000 * lease) 0
          (map pc_content chunks)) (\<lambda>vs. Inr (Some vs))"
      using assms(2) by (simp add: embed_chunks_def v)
    then show ?thesis
      using embed_batches_http [OF b, where post = post and late = "\<lambda>k. clock (Suc k) \<ge> clock 0 + 800000 * lease"
          and k = 0 and texts = "map pc_content chunks"]
      by (auto split: sum.splits)
  qed
qed

text \<open>An integer too large for a \<open>float\<close> escapes. A response whose vector has the right length but an
  integer of \<open>2 ^ 1024\<close> or more as a value is not refused as invalid: \<open>math.isfinite\<close> raises an
  \<open>OverflowError\<close>, and the worker then records \<open>DOCUMENT_PROCESSING_FAILED\<close> where every other
  unusable response is recorded as \<open>EMBEDDING_INVALID\<close>.\<close>

lemma huge_integer_escapes:
  assumes "he_dimensions e = 1" "float_of_int i = None"
    and "post (request_body e [x] Document_text) =
      Response 200 (Some (JDict [(py ''data'', JList [JDict [(py ''embedding'', JList [JInt i])]])]))"
  shows "embed_request post e [x] Document_text = Inl OverflowError \<and>
    failure_of OverflowError = Some (''DOCUMENT_PROCESSING_FAILED'', DV_FAILED, False) \<and>
    failure_of embedding_invalid = Some (''EMBEDDING_INVALID'', DV_FAILED, False)"
proof -
  let ?item = "JDict [(py ''embedding'', JList [JInt i])]"
  have n: "py ''embedding'' \<noteq> py ''index''" by (simp add: py_def)
  have o: "in_index_order [?item] = Inr [?item]"
    using n by (simp add: in_index_order_def Let_def)
  show ?thesis
    using assms o by (simp add: embed_request_def parse_response_def embedding_invalid_def)
qed

section \<open>Evaluation\<close>

text \<open>An endpoint that embeds a text as its length and answers in reverse order.\<close>

definition sample_lengths :: "pystr \<Rightarrow> rat list" where
  "sample_lengths t = [of_nat (length t)]"

fun sample_post :: "json \<Rightarrow> http_response" where
  "sample_post (JDict kvs) =
     (case map_of kvs (py ''input'') of
        Some (JList xs) \<Rightarrow> Response 200 (Some (JDict [(py ''data'', JList (rev
          (map (response_item sample_lengths (map (\<lambda>x. case x of JStr t \<Rightarrow> t | _ \<Rightarrow> []) xs)) [0..<length xs])))]))
      | _ \<Rightarrow> Http_error)"
| "sample_post _ = Http_error"

definition sample_http :: http_embedder where
  "sample_http = \<lparr>he_endpoint = [], he_model = py ''m'', he_api_key = [], he_dimensions = 1, he_batch_size = 2,
     he_query_template = TEXT_PLACEHOLDER, he_document_template = TEXT_PLACEHOLDER, he_input_type = py ''off'',
     he_provider_routing = None, he_version = py ''m|1|h''\<rparr>"

lemma sample_post_honest: "honest_endpoint sample_post sample_http sample_lengths"
proof -
  have m: "map_of [(py ''model'', a), (py ''input'', JList xs), (py ''encoding_format'', b)] (py ''input'') = Some (JList xs)" for a b xs
    by (simp add: py_def)
  have j: "map (\<lambda>x. case x of JStr t \<Rightarrow> t | _ \<Rightarrow> []) (map JStr inputs) = inputs" for inputs
    by (simp add: comp_def)
  have "sample_post (request_body sample_http inputs Document_text) = Response 200 (Some (JDict [(py ''data'', JList (rev
      (map (response_item sample_lengths inputs) [0..<length inputs])))]))" for inputs
    unfolding request_body_def sample_post.simps
    by (simp add: m j sample_http_def py_def [of "''nvidia''"] py_def [of "''off''"] del: map_of.simps map_map)
  then show ?thesis unfolding honest_endpoint_def by (metis map_of_Cons_code(2) mset_rev)
qed

theorem embedding_ignores_order_witness:
  "embed_documents sample_post sample_http [py ''ab'', py ''a'', py ''abc''] = Inr [[Finite 2], [Finite 1], [Finite 3]]"
proof -
  have r: "py_replace TEXT_PLACEHOLDER t TEXT_PLACEHOLDER = t" for t
    by (simp add: TEXT_PLACEHOLDER_def py_def py_replace.simps)
  have "\<And>t. int (length (sample_lengths t)) = he_dimensions sample_http" "0 < he_batch_size sample_http"
    "he_document_template sample_http = TEXT_PLACEHOLDER"
    by (simp_all add: sample_lengths_def sample_http_def)
  then show ?thesis
    using embedding_ignores_order [OF sample_post_honest, of "[py ''ab'', py ''a'', py ''abc'']"]
    by (simp add: r sample_lengths_def)
qed

theorem embedding_never_trusts_witness:
  "\<exists>err \<in> {EmbeddingUnavailable, EmbeddingInvalid, OverflowError}.
     embed_documents (\<lambda>_. Http_error) sample_http [py ''a''] = Inl err"
proof -
  have b: "0 < he_batch_size sample_http" by (simp add: sample_http_def)
  have v: "Option.bind (rsplit_bar_1 (he_version sample_http)) (py_int10 (\<lambda>_. None)) = Some (he_dimensions sample_http)"
    using py_int10_dec_int [of "\<lambda>_. None" 1]
    by (simp add: sample_http_def rsplit_bar_1_def py_def Let_def dec_int_def dec_nat.simps)
  have "embed_documents (\<lambda>_. Http_error) sample_http [py ''a''] = Inl EmbeddingUnavailable"
    by (simp add: embed_documents_def embed_in_batches.simps embed_request_def sample_http_def)
  then show ?thesis
    using embedding_never_trusts [OF b v, where post = "\<lambda>_. Http_error" and texts = "[py ''a'']"] by simp
qed

lemma huge_float: "float_of_int (2 ^ 1024) = None"
proof -
  have f: "floorlog 2 (nat \<bar>(2 :: int) ^ 1024\<bar>) = 1025"
  proof -
    have "floorlog 2 (1 :: nat) = 1" by (simp add: compute_floorlog)
    moreover have "nat \<bar>(2 :: int) ^ 1024\<bar> = 1 * 2 ^ 1024" by (simp add: nat_power_eq)
    ultimately show ?thesis using floorlog_power [of 1 2 1024] by (simp add: nat_power_eq del: power_numeral)
  qed
  have "(of_int (2 ^ 1024) / 2 ^ 972 :: rat) = of_int (2 ^ 52)"
    by (simp add: power_diff [symmetric] divide_eq_eq flip: power_add)
  then have "round_half_even (of_int (2 ^ 1024) / 2 ^ 972) = 2 ^ 52" by (simp only: round_half_even_of_int)
  then show ?thesis
    using f by (simp add: float_of_int_def Let_def flip: power_add)
qed

lemma huge_integer_escapes_example:
  "embed_request (\<lambda>_. Response 200 (Some (JDict [(py ''data'', JList [JDict [(py ''embedding'', JList [JInt (2 ^ 1024)])]])])))
     sample_http [py ''a''] Document_text = Inl OverflowError"
  using huge_integer_escapes [OF _ huge_float refl, of sample_http "py ''a''"] by (simp add: sample_http_def)

end
