(* ===== verification/Object_Storage.thy ===== *)
theory Object_Storage
  imports Documents Processing
begin

text \<open>
  \<^verbatim>\<open>object_storage.py\<close> and \<^verbatim>\<open>s3_object_storage.py\<close>: the storage port and its two implementations.
  The boto3 client is a parameter; what the adapter makes of its answers is modelled: a URL is
  only signed for a versioned bucket, an object is read whole or not at all, and every failure of
  the client becomes one of the three exceptions of the port.
\<close>

section \<open>The client\<close>

text \<open>A call of the client: its answer, a \<open>ClientError\<close> with the HTTP status and the error code of the
  response where present, or a \<open>BotoCoreError\<close>.\<close>

datatype 'a boto = Answer 'a | Client_error "int option" "string option" | Boto_core_error

record head_object =
  ho_content_length :: int
  ho_content_type :: "pystr option"
  ho_metadata :: "(pystr \<times> pystr) list"
  ho_version_id :: "pystr option"

text \<open>\<open>get_object\<close> answers with a body, read by amount; the listing has the keys and versions under
  \<open>Versions\<close> and under \<open>DeleteMarkers\<close>. Signing is local, it does not change the storage.\<close>

record 's s3_client =
  s3_head_bucket :: "'s \<Rightarrow> unit boto \<times> 's"
  s3_create_bucket :: "pystr option \<Rightarrow> 's \<Rightarrow> unit boto \<times> 's"
  s3_put_versioning :: "'s \<Rightarrow> unit boto \<times> 's"
  s3_presign :: "pystr \<Rightarrow> pystr \<Rightarrow> pystr \<Rightarrow> int \<Rightarrow> pystr boto"
  s3_head_object :: "pystr \<Rightarrow> 's \<Rightarrow> head_object boto"
  s3_get_object :: "pystr \<Rightarrow> pystr \<Rightarrow> 's \<Rightarrow> (nat \<Rightarrow> bytes boto) boto"
  s3_list_versions :: "pystr \<Rightarrow> 's \<Rightarrow> ((pystr \<times> pystr) list \<times> (pystr \<times> pystr) list) boto"
  s3_delete_objects :: "(pystr \<times> pystr) list \<Rightarrow> 's \<Rightarrow> unit boto \<times> 's"

record s3_config =
  s3_region :: pystr
  s3_upload_ttl_seconds :: int

record upload_authorization =
  ua_url :: pystr
  ua_headers :: "(string \<times> pystr) list"
  ua_expires_at :: time

section \<open>The adapter\<close>

text \<open>Both families of exceptions become \<open>ObjectStorageUnavailable\<close>.\<close>

definition unavailable :: "'a boto \<Rightarrow> (exn, 'a) result" where
  "unavailable r = (case r of Answer x \<Rightarrow> Inr x | _ \<Rightarrow> Inl ObjectStorageUnavailable)"

text \<open>Where a missing object is told apart.\<close>

definition not_found :: "'a boto \<Rightarrow> (exn, 'a) result" where
  "not_found r =
     (case r of Answer x \<Rightarrow> Inr x
      | Client_error status _ \<Rightarrow> Inl (if status = Some 404 then StoredObjectNotFound else ObjectStorageUnavailable)
      | Boto_core_error \<Rightarrow> Inl ObjectStorageUnavailable)"

definition bucket_exists :: "unit boto \<Rightarrow> (exn, bool) result" where
  "bucket_exists r =
     (case r of Answer _ \<Rightarrow> Inr True
      | Client_error status _ \<Rightarrow>
          if status \<notin> {Some 400, Some 404} then Inl ObjectStorageUnavailable else Inr False
      | Boto_core_error \<Rightarrow> Inl ObjectStorageUnavailable)"

definition bucket_created :: "unit boto \<Rightarrow> (exn, unit) result" where
  "bucket_created r =
     (case r of Answer _ \<Rightarrow> Inr ()
      | Client_error _ code \<Rightarrow>
          if code \<notin> {Some ''BucketAlreadyExists'', Some ''BucketAlreadyOwnedByYou''}
          then Inl ObjectStorageUnavailable else Inr ()
      | Boto_core_error \<Rightarrow> Inl ObjectStorageUnavailable)"

definition ensure_bucket :: "'s s3_client \<Rightarrow> s3_config \<Rightarrow> 's \<Rightarrow> (exn, unit) result \<times> 's" where
  "ensure_bucket cl cfg s =
     (case s3_head_bucket cl s of (h, s1) \<Rightarrow>
      (case bucket_exists h of
         Inl e \<Rightarrow> (Inl e, s1)
       | Inr present \<Rightarrow>
           (case (if present then (Inr (), s1)
                  else case s3_create_bucket cl (if s3_region cfg \<noteq> py ''us-east-1'' then Some (s3_region cfg) else None) s1
                       of (c, s2) \<Rightarrow> (bucket_created c, s2)) of
              (Inl e, s2) \<Rightarrow> (Inl e, s2)
            | (Inr _, s2) \<Rightarrow>
                (case s3_put_versioning cl s2 of (p, s3) \<Rightarrow> (unavailable p, s3)))))"

definition create_upload_authorization ::
  "'s s3_client \<Rightarrow> s3_config \<Rightarrow> time \<Rightarrow> pystr \<Rightarrow> pystr \<Rightarrow> pystr \<Rightarrow> 's \<Rightarrow> (exn, upload_authorization) result \<times> 's" where
  "create_upload_authorization cl cfg now skey media_type sha s =
     (case ensure_bucket cl cfg s of
        (Inl e, s') \<Rightarrow> (Inl e, s')
      | (Inr _, s') \<Rightarrow>
          (bindE (unavailable (s3_presign cl skey media_type sha (s3_upload_ttl_seconds cfg)))
             (\<lambda>url. Inr \<lparr>ua_url = url,
                ua_headers = [(''content-type'', media_type), (''x-amz-meta-sha256'', sha)],
                ua_expires_at = now + seconds (s3_upload_ttl_seconds cfg)\<rparr>), s'))"

text \<open>The loop over the metadata: names fold to lower case, two values for one name are refused.\<close>

fun collect_metadata ::
  "unicode_db \<Rightarrow> (pystr \<times> pystr) list \<Rightarrow> (pystr \<times> pystr) list \<Rightarrow> (exn, (pystr \<times> pystr) list) result" where
  "collect_metadata u acc [] = Inr acc"
| "collect_metadata u acc ((key, content) # rest) =
     (case map_of acc (lower u key) of
        Some c \<Rightarrow> if c \<noteq> content then Inl ObjectStorageUnavailable else collect_metadata u acc rest
      | None \<Rightarrow> collect_metadata u (acc @ [(lower u key, content)]) rest)"

definition s3_inspect ::
  "unicode_db \<Rightarrow> 's s3_client \<Rightarrow> pystr \<Rightarrow> 's \<Rightarrow> (exn, stored_object_metadata) result" where
  "s3_inspect u cl skey s =
     bindE (not_found (s3_head_object cl skey s)) (\<lambda>response.
     bindE (collect_metadata u [] (ho_metadata response)) (\<lambda>metadata.
       Inr \<lparr>so_size_bytes = ho_content_length response, so_media_type = ho_content_type response,
            so_metadata = (\<lambda>k. map_of metadata (py k)), so_version_id = ho_version_id response\<rparr>))"

text \<open>One byte more than allowed is read, so that a longer object is told from one that fits.\<close>

definition s3_read ::
  "'s s3_client \<Rightarrow> 's \<Rightarrow> pystr \<Rightarrow> pystr \<Rightarrow> nat \<Rightarrow> (exn, bytes) result" where
  "s3_read cl s skey version_id max_bytes =
     bindE (not_found (s3_get_object cl skey version_id s)) (\<lambda>body.
     bindE (not_found (body (max_bytes + 1))) (\<lambda>content.
       if length content > max_bytes then Inl StoredObjectTooLarge else Inr content))"

definition s3_delete :: "'s s3_client \<Rightarrow> pystr \<Rightarrow> 's \<Rightarrow> (exn, unit) result \<times> 's" where
  "s3_delete cl skey s =
     (case unavailable (s3_list_versions cl skey s) of
        Inl e \<Rightarrow> (Inl e, s)
      | Inr (versions, markers) \<Rightarrow>
          let objects = filter (\<lambda>(key, _). key = skey) (versions @ markers) in
          if objects = [] then (Inr (), s)
          else (case s3_delete_objects cl objects s of (r, s') \<Rightarrow> (unavailable r, s')))"

text \<open>\<open>UnconfiguredObjectStorage\<close>.\<close>

definition unconfigured_authorization ::
  "pystr \<Rightarrow> pystr \<Rightarrow> pystr \<Rightarrow> 's \<Rightarrow> (exn, upload_authorization) result \<times> 's" where
  "unconfigured_authorization skey media_type sha s = (Inl ObjectStorageUnavailable, s)"

definition unconfigured_inspect :: "pystr \<Rightarrow> 's \<Rightarrow> (exn, stored_object_metadata) result" where
  "unconfigured_inspect skey s = Inl ObjectStorageUnavailable"

definition unconfigured_read :: "'s \<Rightarrow> pystr \<Rightarrow> pystr \<Rightarrow> nat \<Rightarrow> (exn, bytes) result" where
  "unconfigured_read s skey version_id max_bytes = Inl ObjectStorageUnavailable"

section \<open>The port\<close>

text \<open>What the services rely on: reads are bounded and failures are those of the port.\<close>

locale object_storage =
  fixes authorize :: "pystr \<Rightarrow> pystr \<Rightarrow> pystr \<Rightarrow> 's \<Rightarrow> (exn, upload_authorization) result \<times> 's"
    and inspect :: "pystr \<Rightarrow> 's \<Rightarrow> (exn, stored_object_metadata) result"
    and read_object :: "'s \<Rightarrow> pystr \<Rightarrow> pystr \<Rightarrow> nat \<Rightarrow> (exn, bytes) result"
  assumes read_bounded: "read_object s k v n = Inr b \<Longrightarrow> length b \<le> n"
    and read_errors: "read_object s k v n = Inl e \<Longrightarrow>
      e \<in> {StoredObjectNotFound, ObjectStorageUnavailable, StoredObjectTooLarge}"
    and inspect_errors: "inspect k s = Inl e \<Longrightarrow> e \<in> {StoredObjectNotFound, ObjectStorageUnavailable}"
    and authorize_errors: "authorize k m h s = (Inl e, s') \<Longrightarrow> e = ObjectStorageUnavailable"
begin

text \<open>The worker has a failure code for every failed read, and the routes have a status for every
  failure of the other two.\<close>

lemma read_failure_recorded: "read_object s k v n = Inl e \<Longrightarrow> failure_of e \<noteq> None"
  using read_errors [of s k v n e] by auto

lemma route_errors:
  "inspect k s = Inl e \<Longrightarrow> raise_document_api_error e \<in> {APIError 404 ''resource_not_found'', APIError 503 ''object_storage_unavailable''}"
  "authorize k m h s = (Inl e, s') \<Longrightarrow> raise_document_api_error e = APIError 503 ''object_storage_unavailable''"
  using inspect_errors [of k s e] authorize_errors [of k m h s e s'] by auto

lemma processed_size:
  assumes "process_document decimal cfg (sv\<lparr>sv_read := read_object s\<rparr>) c = Inr r"
  shows "br_size_bytes r \<le> int (wk_max_document_bytes cfg)"
  using assms
proof (cases rule: process_document_Inr)
  case (1 content parsed)
  then have "read_object s (cl_storage_key c) (cl_storage_version_id c) (wk_max_document_bytes cfg) = Inr content"
    by simp
  then show ?thesis using read_bounded 1(2,8) by fastforce
qed

end

lemma unavailable_cases: "unavailable r = Inl e \<Longrightarrow> e = ObjectStorageUnavailable"
  by (auto simp: unavailable_def split: boto.splits)

lemma not_found_cases: "not_found r = Inl e \<Longrightarrow> e \<in> {StoredObjectNotFound, ObjectStorageUnavailable}"
  by (auto simp: not_found_def split: boto.splits if_splits)

lemma not_found_Answer: "not_found r = Inr x \<longleftrightarrow> r = Answer x"
  by (auto simp: not_found_def split: boto.splits if_splits)

lemma unavailable_Answer: "unavailable r = Inr x \<longleftrightarrow> r = Answer x"
  by (auto simp: unavailable_def split: boto.splits)

lemma collect_metadata_error: "collect_metadata u acc xs = Inl e \<Longrightarrow> e = ObjectStorageUnavailable"
  by (induction u acc xs rule: collect_metadata.induct) (auto split: option.splits if_splits)

lemma ensure_bucket_error: "ensure_bucket cl cfg s = (Inl e, s') \<Longrightarrow> e = ObjectStorageUnavailable"
  by (auto simp: ensure_bucket_def bucket_exists_def bucket_created_def dest!: unavailable_cases
      split: prod.splits sum.splits boto.splits if_splits)

interpretation s3: object_storage "create_upload_authorization cl cfg now" "s3_inspect u cl" "s3_read cl"
  for cl :: "'s s3_client" and cfg now u
proof unfold_locales
  fix s k v n b e
  show "s3_read cl s k v n = Inr b \<Longrightarrow> length b \<le> n"
    by (auto simp: s3_read_def bindE_eq_Inr split: if_splits)
  show "s3_read cl s k v n = Inl e \<Longrightarrow> e \<in> {StoredObjectNotFound, ObjectStorageUnavailable, StoredObjectTooLarge}"
    by (auto simp: s3_read_def bindE_eq_Inl split: if_splits dest!: not_found_cases)
next
  fix k s e
  show "s3_inspect u cl k s = Inl e \<Longrightarrow> e \<in> {StoredObjectNotFound, ObjectStorageUnavailable}"
    by (auto simp: s3_inspect_def bindE_eq_Inl dest!: not_found_cases collect_metadata_error)
next
  fix k m h s e s'
  show "create_upload_authorization cl cfg now k m h s = (Inl e, s') \<Longrightarrow> e = ObjectStorageUnavailable"
    by (auto simp: create_upload_authorization_def bindE_eq_Inl dest!: unavailable_cases ensure_bucket_error
        split: prod.splits sum.splits)
qed

interpretation unconfigured: object_storage unconfigured_authorization unconfigured_inspect unconfigured_read
  by unfold_locales (auto simp: unconfigured_authorization_def unconfigured_inspect_def unconfigured_read_def)

section \<open>What the client promises\<close>

text \<open>\<open>stored s k v\<close> are the bytes of version \<open>v\<close> of the object \<open>k\<close>. A body read with an amount gives at
  most so many bytes from the start; the metadata of an object are those of its current version;
  versioning is on after it was put.\<close>

definition s3_documented ::
  "'s s3_client \<Rightarrow> ('s \<Rightarrow> pystr \<Rightarrow> pystr \<Rightarrow> bytes option) \<Rightarrow> ('s \<Rightarrow> bool) \<Rightarrow> bool" where
  "s3_documented cl stored versioned \<longleftrightarrow>
     (\<forall>k v s body n c. s3_get_object cl k v s = Answer body \<longrightarrow> body n = Answer c \<longrightarrow>
        (\<exists>b. stored s k v = Some b \<and> c = take n b)) \<and>
     (\<forall>k s r v. s3_head_object cl k s = Answer r \<longrightarrow> ho_version_id r = Some v \<longrightarrow>
        (\<exists>b. stored s k v = Some b \<and> ho_content_length r = int (length b))) \<and>
     (\<forall>s s'. s3_put_versioning cl s = (Answer (), s') \<longrightarrow> versioned s')"

lemma s3_documentedD:
  assumes "s3_documented cl stored versioned"
  shows "s3_get_object cl k v s = Answer body \<Longrightarrow> body n = Answer c \<Longrightarrow> \<exists>b. stored s k v = Some b \<and> c = take n b"
    "s3_head_object cl k s = Answer r \<Longrightarrow> ho_version_id r = Some v \<Longrightarrow>
      \<exists>b. stored s k v = Some b \<and> ho_content_length r = int (length b)"
    "s3_put_versioning cl s = (Answer (), s') \<Longrightarrow> versioned s'"
  using assms unfolding s3_documented_def by blast+

lemma s3_read_whole:
  assumes "s3_documented cl stored versioned"
  shows "case s3_read cl s k v n of
      Inr c \<Rightarrow> stored s k v = Some c \<and> length c \<le> n
    | Inl e \<Rightarrow> if e = StoredObjectTooLarge then \<exists>b. stored s k v = Some b \<and> length b > n
              else e \<in> {StoredObjectNotFound, ObjectStorageUnavailable}"
proof (cases "s3_read cl s k v n")
  case (Inr c)
  then obtain body where b: "s3_get_object cl k v s = Answer body" "body (n + 1) = Answer c" "length c \<le> n"
    by (auto simp: s3_read_def bindE_eq_Inr not_found_Answer split: if_splits)
  obtain x where x: "stored s k v = Some x" "c = take (n + 1) x"
    using s3_documentedD(1) [OF assms b(1,2)] by blast
  then have "length x \<le> n + 1" "c = x" using b(3) by (auto simp: min_def split: if_splits)
  then show ?thesis using Inr x b(3) by simp
next
  case (Inl e)
  consider "e \<in> {StoredObjectNotFound, ObjectStorageUnavailable}"
    | body c where "e = StoredObjectTooLarge" "s3_get_object cl k v s = Answer body" "body (n + 1) = Answer c" "length c > n"
    using Inl by (auto simp: s3_read_def bindE_eq_Inl not_found_Answer split: if_splits dest!: not_found_cases)
  then show ?thesis
  proof cases
    case 2
    then obtain x where "stored s k v = Some x" "c = take (n + 1) x"
      using s3_documentedD(1) [OF assms] by blast
    then show ?thesis using Inl 2 by auto
  qed (use Inl in auto)
qed

lemma collect_metadata_lookup:
  assumes "collect_metadata u acc xs = Inr m"
  shows "(\<forall>k c. map_of acc k = Some c \<longrightarrow> map_of m k = Some c) \<and> (\<forall>(k, c) \<in> set xs. map_of m (lower u k) = Some c)"
  using assms
proof (induction u acc xs rule: collect_metadata.induct)
  case (2 u acc key content rest)
  show ?case
  proof (cases "map_of acc (lower u key)")
    case None
    have "collect_metadata u (acc @ [(lower u key, content)]) rest = Inr m" using "2.prems" None by simp
    note r = "2.IH" (1) [OF None this]
    have "map_of (acc @ [(lower u key, content)]) k = Some c" if "map_of acc k = Some c" for k c
      using that by (simp add: map_add_Some_iff)
    moreover have "map_of (acc @ [(lower u key, content)]) (lower u key) = Some content"
      using None by (simp add: map_add_Some_iff)
    ultimately show ?thesis using r by auto
  next
    case (Some c)
    have c: "c = content" "collect_metadata u acc rest = Inr m" using "2.prems" Some by (auto split: if_splits)
    then show ?thesis using "2.IH" (2) [OF Some _ c(2)] Some by auto
  qed
qed simp

lemma ensure_bucket_versioned:
  assumes "s3_documented cl stored versioned" "ensure_bucket cl cfg s = (Inr (), s')"
  shows "versioned s'"
  using assms(2) s3_documentedD(3) [OF assms(1)]
  by (auto simp: ensure_bucket_def unavailable_Answer split: prod.splits sum.splits if_splits)

section \<open>The adapter keeps the port's contract\<close>

text \<open>C21: an upload is only authorized on a bucket whose versioning is on, for the key, media type and
  digest that were asked, until the time the client is told; an object is read whole or refused,
  never cut: what is returned are the bytes of that very version, and an object too large is
  always recognised; metadata are found under their name in lower case, whatever case was sent.\<close>

theorem s3_keeps_contract:
  assumes "s3_documented cl stored versioned"
  shows "(case create_upload_authorization cl cfg now k m h s of
       (Inr a, s') \<Rightarrow> versioned s' \<and> s3_presign cl k m h (s3_upload_ttl_seconds cfg) = Answer (ua_url a) \<and>
         ua_headers a = [(''content-type'', m), (''x-amz-meta-sha256'', h)] \<and>
         ua_expires_at a = now + seconds (s3_upload_ttl_seconds cfg)
     | (Inl e, s') \<Rightarrow> e = ObjectStorageUnavailable) \<and>
    (case s3_read cl s k v n of
       Inr c \<Rightarrow> stored s k v = Some c \<and> length c \<le> n
     | Inl e \<Rightarrow> if e = StoredObjectTooLarge then \<exists>b. stored s k v = Some b \<and> length b > n
               else e \<in> {StoredObjectNotFound, ObjectStorageUnavailable}) \<and>
    (case s3_inspect u cl k s of
       Inr x \<Rightarrow> \<exists>r. s3_head_object cl k s = Answer r \<and> so_size_bytes x = ho_content_length r \<and>
         (\<forall>(name, c) \<in> set (ho_metadata r). \<forall>l. lower u name = py l \<longrightarrow> so_metadata x l = Some c)
     | Inl e \<Rightarrow> e \<in> {StoredObjectNotFound, ObjectStorageUnavailable})"
proof (intro conjI)
  show "case create_upload_authorization cl cfg now k m h s of
       (Inr a, s') \<Rightarrow> versioned s' \<and> s3_presign cl k m h (s3_upload_ttl_seconds cfg) = Answer (ua_url a) \<and>
         ua_headers a = [(''content-type'', m), (''x-amz-meta-sha256'', h)] \<and>
         ua_expires_at a = now + seconds (s3_upload_ttl_seconds cfg)
     | (Inl e, s') \<Rightarrow> e = ObjectStorageUnavailable"
    by (auto simp: create_upload_authorization_def bindE_eq_Inr bindE_eq_Inl unavailable_Answer
        dest: ensure_bucket_versioned [OF assms] ensure_bucket_error unavailable_cases split: prod.splits sum.splits)
  show "case s3_read cl s k v n of
       Inr c \<Rightarrow> stored s k v = Some c \<and> length c \<le> n
     | Inl e \<Rightarrow> if e = StoredObjectTooLarge then \<exists>b. stored s k v = Some b \<and> length b > n
               else e \<in> {StoredObjectNotFound, ObjectStorageUnavailable}"
    by (rule s3_read_whole [OF assms])
  show "case s3_inspect u cl k s of
       Inr x \<Rightarrow> \<exists>r. s3_head_object cl k s = Answer r \<and> so_size_bytes x = ho_content_length r \<and>
         (\<forall>(name, c) \<in> set (ho_metadata r). \<forall>l. lower u name = py l \<longrightarrow> so_metadata x l = Some c)
     | Inl e \<Rightarrow> e \<in> {StoredObjectNotFound, ObjectStorageUnavailable}"
  proof (cases "s3_inspect u cl k s")
    case (Inr x)
    then obtain r md where r: "s3_head_object cl k s = Answer r" "collect_metadata u [] (ho_metadata r) = Inr md"
      "so_size_bytes x = ho_content_length r" "so_metadata x = (\<lambda>k. map_of md (py k))"
      by (auto simp: s3_inspect_def bindE_eq_Inr not_found_Answer)
    show ?thesis using collect_metadata_lookup [OF r(2)] r(1,3,4) Inr by auto
  qed (auto dest: s3.inspect_errors)
qed

text \<open>What is processed is what was confirmed. If the storage keeps versions once written, then a
  version that passed validation when its upload was confirmed is the one the worker reads, however
  often the object was overwritten since: its bytes are read whole, have the announced size and are
  those whose digest and size the published build records; otherwise the read fails as not found or
  unavailable, never as too large.\<close>

lemma processed_is_confirmed:
  assumes "s3_documented cl stored versioned"
    and "s3_inspect u cl (cl_storage_key c) s0 = Inr m" "so_version_id m = Some (cl_storage_version_id c)"
    and "validate_stored_object u sc m record = Inr ()"
    and "\<And>k v b. stored s0 k v = Some b \<Longrightarrow> stored s1 k v = Some b"
    and "cl_expected_size_bytes c = dv_expected_size_bytes record"
    and "sc_max_document_bytes sc \<le> int (wk_max_document_bytes cfg)"
  shows "\<exists>b. stored s0 (cl_storage_key c) (cl_storage_version_id c) = Some b \<and>
     int (length b) = cl_expected_size_bytes c \<and>
     s3_read cl s1 (cl_storage_key c) (cl_storage_version_id c) (wk_max_document_bytes cfg)
       \<in> {Inr b, Inl StoredObjectNotFound, Inl ObjectStorageUnavailable} \<and>
     (case process_document decimal cfg (sv\<lparr>sv_read := s3_read cl s1\<rparr>) c of
        Inl _ \<Rightarrow> True
      | Inr r \<Rightarrow> br_size_bytes r = int (length b) \<and> br_sha256 r = sv_digest sv b \<and> sv_digest sv b = cl_expected_sha256 c)"
proof -
  let ?k = "cl_storage_key c" and ?v = "cl_storage_version_id c" and ?n = "wk_max_document_bytes cfg"
  obtain r where r: "s3_head_object cl ?k s0 = Answer r" "so_size_bytes m = ho_content_length r"
    "so_version_id m = ho_version_id r"
    using assms(2) by (auto simp: s3_inspect_def bindE_eq_Inr not_found_Answer)
  then have "ho_version_id r = Some ?v" using assms(3) by simp
  then obtain b where b: "stored s0 ?k ?v = Some b" "ho_content_length r = int (length b)"
    using s3_documentedD(2) [OF assms(1) r(1)] by blast
  have val: "so_size_bytes m \<le> sc_max_document_bytes sc" "so_size_bytes m = dv_expected_size_bytes record"
    using assms(4) by (auto simp: validate_stored_object_def split: if_splits)
  then have len: "int (length b) = cl_expected_size_bytes c" "length b \<le> ?n"
    using b(2) r(2) assms(6,7) by simp_all
  note b1 = assms(5) [OF b(1)]
  have rd: "s3_read cl s1 ?k ?v ?n \<in> {Inr b, Inl StoredObjectNotFound, Inl ObjectStorageUnavailable}"
    using s3_read_whole [OF assms(1), of s1 ?k ?v ?n] b1 len(2)
    by (auto split: sum.splits if_splits)
  have "case process_document decimal cfg (sv\<lparr>sv_read := s3_read cl s1\<rparr>) c of
        Inl _ \<Rightarrow> True
      | Inr r \<Rightarrow> br_size_bytes r = int (length b) \<and> br_sha256 r = sv_digest sv b \<and> sv_digest sv b = cl_expected_sha256 c"
  proof (cases "process_document decimal cfg (sv\<lparr>sv_read := s3_read cl s1\<rparr>) c")
    case (Inr r)
    then show ?thesis
    proof (cases rule: process_document_Inr)
      case (1 content parsed)
      then have "content = b" using rd by auto
      then show ?thesis using 1 Inr len(1) by simp
    qed
  qed simp
  then show ?thesis using b(1) len(1) rd by blast
qed

text \<open>A bucket with one versioned object of three bytes, and a read that fits, or not.\<close>

definition sample_s3 :: "unit s3_client" where
  "sample_s3 = \<lparr>s3_head_bucket = (\<lambda>s. (Client_error (Some 404) None, s)),
     s3_create_bucket = (\<lambda>_ s. (Client_error None (Some ''BucketAlreadyOwnedByYou''), s)),
     s3_put_versioning = (\<lambda>s. (Answer (), s)), s3_presign = (\<lambda>k m h n. Answer (py ''url'')),
     s3_head_object = (\<lambda>k s. Answer \<lparr>ho_content_length = 3, ho_content_type = Some (py ''application/pdf''),
        ho_metadata = [(py ''Sha256'', py ''h'')], ho_version_id = Some (py ''sv'')\<rparr>),
     s3_get_object = (\<lambda>k v s. Answer (\<lambda>n. Answer (take n [1, 2, 3]))),
     s3_list_versions = (\<lambda>k s. Answer ([], [])), s3_delete_objects = (\<lambda>ks s. (Answer (), s))\<rparr>"

lemma sample_s3_documented: "s3_documented sample_s3 (\<lambda>s k v. Some [1, 2, 3]) (\<lambda>s. True)"
  by (simp add: s3_documented_def sample_s3_def)

theorem s3_keeps_contract_witness:
  "s3_read sample_s3 () (py ''k'') (py ''v'') 2 = Inl StoredObjectTooLarge \<and>
   s3_read sample_s3 () (py ''k'') (py ''v'') 3 = Inr [1, 2, 3] \<and>
   (\<exists>b. Some [1, 2, 3 :: 8 word] = Some b \<and> length b > 2)"
proof -
  have r: "s3_read sample_s3 () (py ''k'') (py ''v'') 2 = Inl StoredObjectTooLarge"
    "s3_read sample_s3 () (py ''k'') (py ''v'') 3 = Inr [1, 2, 3]"
    by (simp_all add: s3_read_def sample_s3_def not_found_def bindE_def numeral_eq_Suc)
  have "case s3_read sample_s3 () (py ''k'') (py ''v'') 2 of
       Inr c \<Rightarrow> Some [1, 2, 3] = Some c \<and> length c \<le> 2
     | Inl e \<Rightarrow> if e = StoredObjectTooLarge then \<exists>b. Some [1, 2, 3 :: 8 word] = Some b \<and> length b > 2
               else e \<in> {StoredObjectNotFound, ObjectStorageUnavailable}"
    by (rule s3_keeps_contract [OF sample_s3_documented, THEN conjunct2, THEN conjunct1])
  then show ?thesis using r by simp
qed

lemma sample_inspected:
  "\<exists>m. s3_inspect ascii_db sample_s3 (cl_storage_key sample_claim) () = Inr m \<and>
     so_version_id m = Some (cl_storage_version_id sample_claim) \<and>
     validate_stored_object ascii_db sample_service m sample_version = Inr ()"
proof -
  have l: "lower ascii_db (py ''Sha256'') = py ''sha256''" "lower ascii_db (py ''h'') = py ''h''"
    "lower ascii_db (py ''application/pdf'') = py ''application/pdf''"
    by (simp_all add: lower_ascii py_def ascii_lower_def)
  have b: "media_base ascii_db (Some (py ''application/pdf'')) = py ''application/pdf''"
    using l(3) by (simp add: media_base_def py_def strip_def is_space_def)
  let ?m = "\<lparr>so_size_bytes = 3, so_media_type = Some (py ''application/pdf''),
    so_metadata = (\<lambda>k. map_of [(py ''sha256'', py ''h'')] (py k)), so_version_id = Some (py ''sv'')\<rparr>"
  have "s3_inspect ascii_db sample_s3 (cl_storage_key sample_claim) () = Inr ?m"
    by (simp add: s3_inspect_def sample_s3_def not_found_def bindE_def l)
  moreover have "validate_stored_object ascii_db sample_service ?m sample_version = Inr ()"
    using b l(2) by (simp add: validate_stored_object_def sample_service_def sample_version_def)
  ultimately show ?thesis by (intro exI [of _ ?m]) (simp add: sample_claim_def)
qed

end
