(* ===== verification/Conversation_Runtime.thy ===== *)
theory Conversation_Runtime
  imports Conversation_Runs Retrieval
begin

text \<open>
  \<^verbatim>\<open>conversation_runtime.py\<close>: every accepted question gets one task that retrieves evidence, asks
  the tutor model, validates its draft and stores the outcome. A task is the phase it awaits;
  between two awaits the event loop runs the code in one piece. An await can be cut by
  cancellation, by the timeout or by a failing database, and then the thread that ran its
  transaction is left alone: its call may still take effect at any later time, or never.
\<close>

section \<open>Failure codes\<close>

definition SAFE_FAILURES :: "string list" where
  "SAFE_FAILURES =
     [''COURSE_CORPUS_NOT_READY'', ''MODEL_NOT_CONFIGURED'', ''MODEL_UNAVAILABLE'', ''MODEL_OUTPUT_INVALID'',
      ''RETRIEVAL_SCOPE_INVALID'', ''RETRIEVAL_UNAVAILABLE'', ''RETRIEVAL_INDEX_MISSING'',
      ''PROCESSING_INTERRUPTED'', ''PERSISTENCE_UNAVAILABLE'']"

text \<open>The \<open>except\<close> clauses of \<open>_run\<close>.\<close>

definition failure_code_of :: "exn \<Rightarrow> string" where
  "failure_code_of e =
     (case e of
        TimeoutError \<Rightarrow> ''PROCESSING_INTERRUPTED''
      | RAGFailure code \<Rightarrow> if code \<in> set SAFE_FAILURES then code else ''INTERNAL_ERROR''
      | _ \<Rightarrow> if is_sqlalchemy_error e then ''PERSISTENCE_UNAVAILABLE'' else ''INTERNAL_ERROR'')"

definition stored_codes :: "string set" where
  "stored_codes = insert ''INTERNAL_ERROR'' (set SAFE_FAILURES)"

section \<open>Tasks\<close>

datatype phase =
    Requesting
  | Retrieving tutor_request
  | Searching tutor_request dense_config "fval list"
  | Saving tutor_request "evidence list"
  | Generating tutor_request
  | Completing tutor_draft
  | Failing string

record task =
  tk_accepted :: accepted_message
  tk_phase :: phase
  tk_progress :: "string list"

text \<open>The collaborators: the text search and the vector distance of PostgreSQL, the chosen
  retriever and the validator.\<close>

record runtime_config =
  rn_text :: text_search
  rn_cosine :: "fval list \<Rightarrow> fval list \<Rightarrow> rat option"
  rn_retriever :: retriever_kind
  rn_validate :: "tutor_draft \<Rightarrow> tutor_request \<Rightarrow> (exn, tutor_draft) result"

definition fail_with :: "exn \<Rightarrow> phase" where
  "fail_with e = Failing (failure_code_of e)"

section \<open>Between two awaits\<close>

text \<open>Each piece ends in the phase that is awaited next, after the events \<open>_phase\<close> reported on the
  way.\<close>

type_synonym flow = "string list \<times> phase"

definition validate_draft :: "runtime_config \<Rightarrow> tutor_request \<Rightarrow> (exn, tutor_draft) result \<Rightarrow> flow" where
  "validate_draft rn req draft =
     (case draft of
        Inl e \<Rightarrow> ([], fail_with e)
      | Inr d \<Rightarrow> ([''validation.started''],
          case rn_validate rn d req of Inl e \<Rightarrow> fail_with e | Inr d' \<Rightarrow> Completing d'))"

definition reporting :: "string list \<Rightarrow> flow \<Rightarrow> flow" where
  "reporting xs = (\<lambda>(ys, p). (xs @ ys, p))"

definition after_request :: "runtime_config \<Rightarrow> tutor_request \<Rightarrow> flow" where
  "after_request rn req =
     (if tr_needs_antecedent req
      then reporting [''clarification.started''] (validate_draft rn req clarification)
      else ([''retrieval.started''], Retrieving req))"

definition query_of :: "tutor_request \<Rightarrow> pystr" where
  "query_of req = or_else (tr_retrieval_query req) (tr_question req)"

definition after_retrieval :: "tutor_request \<Rightarrow> (exn, evidence list) result \<Rightarrow> phase" where
  "after_retrieval req r = (case r of Inl e \<Rightarrow> fail_with e | Inr evs \<Rightarrow> Saving req evs)"

definition after_save :: "runtime_config \<Rightarrow> tutor_request \<Rightarrow> evidence list \<Rightarrow> flow" where
  "after_save rn req evs =
     (let r = req\<lparr>tr_evidence := evs\<rparr> in reporting [''retrieval.completed'']
        (if evs \<noteq> [] then ([''generation.started''], Generating r)
         else validate_draft rn r (Inr abstention)))"

text \<open>What a step draws: two readings of the clock, and what the model answers.\<close>

record advance_env =
  ad_now :: time
  ad_later :: time
  ad_answer :: "(exn, tutor_draft) result"

text \<open>The awaited call returns, and the task runs to its next await; \<open>None\<close> is a finished task.\<close>

definition go_on :: "flow \<Rightarrow> string list \<times> phase option" where
  "go_on = (\<lambda>(reports, p). (reports, Some p))"

fun advance ::
  "runtime_config \<Rightarrow> advance_env \<Rightarrow> accepted_message \<Rightarrow> phase \<Rightarrow> db \<Rightarrow>
   (string list \<times> phase option) \<times> db" where
  "advance rn env a Requesting s =
     (case session (tutor_request_of a []) s of
        (Inl e, s') \<Rightarrow> (([], Some (fail_with e)), s')
      | (Inr req, s') \<Rightarrow> (go_on (after_request rn req), s'))"
| "advance rn env a (Retrieving req) s =
     (([], Some (case rn_retriever rn of
        Postgres_retriever \<Rightarrow>
          after_retrieval req (postgres_retrieve (rn_text rn) (ad_now env) (tr_scope req) (query_of req) s)
      | Dense_retriever cfg \<Rightarrow>
          (case bindE (authorize_retrieval (tr_scope req) (query_of req) (ad_now env) s)
                  (\<lambda>_. dense_query cfg (query_of req)) of
             Inl e \<Rightarrow> fail_with e | Inr vec \<Rightarrow> Searching req cfg vec))), s)"
| "advance rn env a (Searching req cfg vec) s =
     (([], Some (after_retrieval req
        (dense_search (rn_cosine rn) cfg (ad_now env) vec (tr_scope req) (query_of req) s))), s)"
| "advance rn env a (Saving req evs) s =
     (case session (save_evidence (mv_id (am_message a)) evs (ad_now env)) s of
        (Inl e, s') \<Rightarrow> (([], Some (fail_with e)), s')
      | (Inr _, s') \<Rightarrow> (go_on (after_save rn req evs), s'))"
| "advance rn env a (Generating req) s = (go_on (validate_draft rn req (ad_answer env)), s)"
| "advance rn env a (Completing d) s =
     (case session (complete (mv_id (am_message a)) d (ad_now env) (ad_later env)) s of
        (Inl e, s') \<Rightarrow> (([], Some (fail_with e)), s') | (Inr _, s') \<Rightarrow> (([], None), s'))"
| "advance rn env a (Failing code) s =
     (([], None), fail_message (mv_id (am_message a)) code (ad_now env) s)"

section \<open>Calls in flight\<close>

datatype call =
    Save_call uuid "evidence list"
  | Complete_call uuid tutor_draft
  | Fail_call uuid string

fun call_of :: "uuid \<Rightarrow> phase \<Rightarrow> call option" where
  "call_of mid (Saving req evs) = Some (Save_call mid evs)"
| "call_of mid (Completing d) = Some (Complete_call mid d)"
| "call_of mid (Failing code) = Some (Fail_call mid code)"
| "call_of mid _ = None"

fun run_call :: "time \<Rightarrow> time \<Rightarrow> call \<Rightarrow> db \<Rightarrow> db" where
  "run_call now later (Save_call mid evs) s = snd (session (save_evidence mid evs now) s)"
| "run_call now later (Complete_call mid d) s = snd (session (complete mid d now later) s)"
| "run_call now later (Fail_call mid code) s = fail_message mid code now s"

text \<open>A cut task records the failure; one that is cut while recording it, or whose process dies, is
  gone.\<close>

datatype interruption = Cancelled | Storage_down | Process_dies

fun interrupted :: "interruption \<Rightarrow> phase \<Rightarrow> phase option" where
  "interrupted Process_dies p = None"
| "interrupted i (Failing code) = None"
| "interrupted Cancelled p = Some (Failing ''PROCESSING_INTERRUPTED'')"
| "interrupted Storage_down p = Some (Failing ''PERSISTENCE_UNAVAILABLE'')"

section \<open>The runtime\<close>

text \<open>\<open>rt_invocations\<close> records the requests the tutor model was given.\<close>

record conversation_runtime =
  rt_db :: db
  rt_tasks :: "uuid \<rightharpoonup> task"
  rt_abandoned :: "call list"
  rt_invocations :: "tutor_request list"

definition start_task :: "accepted_message \<Rightarrow> conversation_runtime \<Rightarrow> conversation_runtime" where
  "start_task a r =
     (if \<not> am_created a then r
      else r\<lparr>rt_tasks := (rt_tasks r)(mv_id (am_message a) \<mapsto>
             \<lparr>tk_accepted = a, tk_phase = Requesting, tk_progress = []\<rparr>)\<rparr>)"

definition moved :: "task \<Rightarrow> string list \<Rightarrow> phase option \<Rightarrow> task option" where
  "moved t reports p = map_option (\<lambda>q. t\<lparr>tk_phase := q, tk_progress := tk_progress t @ reports\<rparr>) p"

definition invoked :: "phase option \<Rightarrow> tutor_request list" where
  "invoked p = (case p of Some (Generating req) \<Rightarrow> [req] | _ \<Rightarrow> [])"

datatype runtime_event =
    Ask authenticated_identity uuid question_request "pystr option" pystr accept_env
  | Client turn_event
  | Advance uuid advance_env
  | Interrupt uuid interruption
  | Late nat time time

text \<open>Clients create, read and ask; the reaper expires. An \<open>Accept\<close> that is followed by no task is a
  process that died between the commit and \<open>start\<close>.\<close>

fun from_client :: "turn_event \<Rightarrow> bool" where
  "from_client (Save_evidence _ _ _) = False"
| "from_client (Complete _ _ _ _) = False"
| "from_client (Fail _ _ _) = False"
| "from_client _ = True"

fun runtime_step ::
  "unicode_db \<Rightarrow> conversation_config \<Rightarrow> runtime_config \<Rightarrow> runtime_event \<Rightarrow> conversation_runtime \<Rightarrow>
   conversation_runtime" where
  "runtime_step u cfg rn (Ask ident cid q key corr env) r =
     (case session (accept u cfg ident cid q key corr env) (rt_db r) of
        (Inl _, s) \<Rightarrow> r\<lparr>rt_db := s\<rparr> | (Inr a, s) \<Rightarrow> start_task a (r\<lparr>rt_db := s\<rparr>))"
| "runtime_step u cfg rn (Client e) r =
     (if from_client e then r\<lparr>rt_db := turn_step u cfg e (rt_db r)\<rparr> else r)"
| "runtime_step u cfg rn (Advance mid env) r =
     (case rt_tasks r mid of
        None \<Rightarrow> r
      | Some t \<Rightarrow>
          (case advance rn env (tk_accepted t) (tk_phase t) (rt_db r) of
             ((reports, p), s) \<Rightarrow> r\<lparr>rt_db := s, rt_tasks := (rt_tasks r)(mid := moved t reports p),
                         rt_invocations := rt_invocations r @ invoked p\<rparr>))"
| "runtime_step u cfg rn (Interrupt mid i) r =
     (case rt_tasks r mid of
        None \<Rightarrow> r
      | Some t \<Rightarrow>
          r\<lparr>rt_tasks := (rt_tasks r)(mid := moved t [] (interrupted i (tk_phase t))),
            rt_abandoned := rt_abandoned r @
              (case call_of mid (tk_phase t) of None \<Rightarrow> [] | Some c \<Rightarrow> [c])\<rparr>)"
| "runtime_step u cfg rn (Late n now later) r =
     (if n < length (rt_abandoned r)
      then r\<lparr>rt_db := run_call now later (rt_abandoned r ! n) (rt_db r),
             rt_abandoned := take n (rt_abandoned r) @ drop (Suc n) (rt_abandoned r)\<rparr>
      else r)"

end
