(* ===== verification/Runtime_Runs.thy ===== *)
theory Runtime_Runs
  imports Conversation_Runtime
begin

text \<open>
  The runtime as a state machine: tasks, clients, interruptions and late transactions in any
  order. Runs keep what is stored honest: answers quote the evidence recorded for their question
  and failures carry a known code; and a task is finished after at most seven steps.
\<close>

section \<open>What is stored\<close>

definition quoted_in :: "retrieved_evidence list \<Rightarrow> uuid \<Rightarrow> draft_citation \<Rightarrow> bool" where
  "quoted_in es mid c \<longleftrightarrow>
     (\<exists>e \<in> set es. re_message_id e = mid \<and> re_chunk_id e = dc_chunk_id c \<and> sublist (dc_quote c) (re_content e))"

definition backed :: "retrieved_evidence list \<Rightarrow> uuid \<Rightarrow> tutor_draft \<Rightarrow> bool" where
  "backed es mid d \<longleftrightarrow> (td_grounded d \<longleftrightarrow> td_citations d \<noteq> []) \<and> (\<forall>c \<in> set (td_citations d). quoted_in es mid c)"

definition answer_ok :: "db \<Rightarrow> message \<Rightarrow> bool" where
  "answer_ok s m \<longleftrightarrow>
     (\<forall>code. ms_failure_code m = Some code \<longrightarrow> code \<in> stored_codes) \<and>
     (ms_state m = MSG_COMPLETED \<longrightarrow>
        (\<exists>g. ms_grounded m = Some g \<and> (g \<longleftrightarrow> (\<exists>c \<in> set (t_citations s). ct_message_id c = ms_id m))))"

definition quote_ok :: "db \<Rightarrow> citation \<Rightarrow> bool" where
  "quote_ok s c \<longleftrightarrow> (\<exists>e \<in> set (t_evidence s). re_message_id e = ct_message_id c \<and>
     re_chunk_id e = ct_chunk_id c \<and> sublist (ct_quote c) (re_content e))"

definition db_ok :: "db \<Rightarrow> bool" where
  "db_ok s \<longleftrightarrow> conv_inv s \<and> (\<forall>m \<in> set (t_messages s). answer_ok s m) \<and> (\<forall>c \<in> set (t_citations s). quote_ok s c)"

lemma citation_rows_of_back:
  assumes "q \<in> set cs"
  shows "\<exists>c \<in> set (citation_rows_of m cs). ct_message_id c = ms_id m"
proof -
  from assms obtain n where "n < length cs" "cs ! n = q" by (auto simp: in_set_conv_nth)
  then have "(n, q) \<in> set (enumerate 0 cs)" by (simp add: in_set_enumerate_eq)
  then show ?thesis by (force simp: citation_rows_of_def)
qed

lemma answer_ok_pending:
  "ms_state m = MSG_PENDING \<Longrightarrow> ms_failure_code m = None \<Longrightarrow> answer_ok s m"
  by (simp add: answer_ok_def)

lemma fail_where_ok:
  assumes "db_ok s" "code \<in> stored_codes" "\<And>m. m \<in> set (t_messages s) \<Longrightarrow> p m \<Longrightarrow> is_pending m"
  shows "db_ok (s\<lparr>t_messages := update_where p (failed_with code now) (t_messages s)\<rparr>)"
proof -
  have "conv_inv (s\<lparr>t_messages := update_where p (failed_with code now) (t_messages s)\<rparr>)"
    using assms by (intro settle_inv [OF _ settles_failed]) (auto simp: db_ok_def)
  then show ?thesis
    using assms(1,2) by (auto simp: db_ok_def answer_ok_def quote_ok_def set_update_where failed_with_def)
qed

lemma fail_ok:
  assumes "db_ok s" "code \<in> stored_codes"
  shows "db_ok (fail_message mid code now s)"
  unfolding fail_message_def by (rule fail_where_ok [OF assms]) (simp add: is_pending_def)

lemma expire_ok: "db_ok s \<Longrightarrow> db_ok (expire_messages cid now s)"
  unfolding expire_messages_def
  by (rule fail_where_ok) (auto simp: stored_codes_def SAFE_FAILURES_def expired_def is_pending_def)

lemma save_ok:
  assumes "db_ok s" "save_evidence mid evs now s = Inr (x, s')"
  shows "db_ok s'"
proof -
  have "conv_inv s'" using save_evidence_inv assms by (auto simp: db_ok_def)
  moreover obtain es where "s' = s\<lparr>t_evidence := t_evidence s @ es\<rparr>"
    using assms(2) by (rule save_evidence_Inr) blast
  ultimately show ?thesis using assms(1) by (auto simp: db_ok_def answer_ok_def quote_ok_def)
qed

lemma complete_ok:
  assumes "db_ok s" "complete mid d now now' s = Inr (x, s')" "backed (t_evidence s) mid d"
  shows "db_ok s'"
  using assms(2)
proof (cases rule: complete_Inr)
  case (1 m)
  have inv: "conv_inv s" using assms(1) by (simp add: db_ok_def)
  note p = pending_Inr [OF 1(1)]
  let ?rows = "citation_rows_of m (td_citations d)"
  have none: "ct_message_id c \<noteq> mid" if c: "c \<in> set (t_citations s)" for c
  proof
    assume "ct_message_id c = mid"
    then obtain r where r: "r \<in> set (t_messages s)" "ms_id r = mid" "ms_state r = MSG_COMPLETED"
      using inv c by (fastforce simp: conv_inv_def citation_of_def)
    then show False using unique_pending [OF inv 1(1) r(1,2)] p(3) by (simp add: is_pending_def)
  qed
  have rows: "ct_message_id c = mid" "quote_ok s' c" if c: "c \<in> set ?rows" for c
  proof -
    note f = citation_rows_of_fields [OF c]
    show i: "ct_message_id c = mid" using f(1) p(2) by simp
    obtain q where "q \<in> set (td_citations d)" "ct_chunk_id c = dc_chunk_id q" "ct_quote c = dc_quote q"
      using f(3) by blast
    then show "quote_ok s' c"
      using assms(3) i 1(3) by (auto simp: backed_def quoted_in_def quote_ok_def)
  qed
  have cited: "(\<exists>c \<in> set (t_citations s'). ct_message_id c = mid) \<longleftrightarrow> td_grounded d"
  proof -
    have "(\<exists>c \<in> set ?rows. ct_message_id c = mid) \<longleftrightarrow> td_citations d \<noteq> []"
      using citation_rows_of_back [of _ "td_citations d" m] p(2)
      by (cases "td_citations d") (auto simp: citation_rows_of_def)
    then show ?thesis using assms(3) none 1(3) by (auto simp: backed_def)
  qed
  have "answer_ok s' r" if r: "r \<in> set (t_messages s')" for r
  proof -
    obtain r0 where r0: "r0 \<in> set (t_messages s)" "r = (if ms_id r0 = mid then completed_with d now' r0 else r0)"
      using r 1(3) by (auto simp: set_update_where)
    have old: "answer_ok s r0" using assms(1) r0(1) by (simp add: db_ok_def)
    show ?thesis
    proof (cases "ms_id r0 = mid")
      case True
      have "ms_failure_code r = ms_failure_code r0" "ms_grounded r = Some (td_grounded d)"
        "ms_id r = mid"
        using r0(2) True by (simp_all add: completed_with_def Let_def split: option.splits)
      then show ?thesis using old cited by (simp add: answer_ok_def)
    next
      case False
      have "(\<exists>c \<in> set (t_citations s'). ct_message_id c = ms_id r0) \<longleftrightarrow>
          (\<exists>c \<in> set (t_citations s). ct_message_id c = ms_id r0)"
        using rows(1) False 1(3) by auto
      then show ?thesis using old r0(2) False by (simp add: answer_ok_def)
    qed
  qed
  moreover have "quote_ok s' c" if "c \<in> set (t_citations s')" for c
    using that rows(2) assms(1) 1(3) by (auto simp: db_ok_def quote_ok_def)
  moreover have "conv_inv s'" by (rule complete_inv [OF inv assms(2)])
  ultimately show ?thesis by (simp add: db_ok_def)
qed

lemma accept_ok:
  assumes "db_ok s" "accept u cfg ident cid q key corr env s = Inr (a, s')"
  shows "db_ok s'"
  using assms(2)
proof (cases rule: accept_Inr)
  case (replayed c k m v)
  then show ?thesis using expire_ok [OF assms(1)] by simp
next
  case (created c k s1 turn m v)
  have "db_ok s1" using expire_ok [OF assms(1)] created(3) by simp
  moreover have "conv_inv s'" using accept_inv assms by (auto simp: db_ok_def)
  moreover have "answer_ok s' m"
    by (rule answer_ok_pending) (simp_all add: created(6) new_message_def split: prod.splits)
  ultimately show ?thesis
    by (auto simp: db_ok_def answer_ok_def quote_ok_def created(8) with_message_def)
qed

lemma create_ok:
  assumes "db_ok s" "create_conversation ident course_id key new_id start s = Inr (v, s')"
  shows "db_ok s'"
proof -
  have "conv_inv s'" using create_conversation_inv assms by (auto simp: db_ok_def)
  moreover have "t_messages s' = t_messages s" "t_citations s' = t_citations s" "t_evidence s' = t_evidence s"
    using assms(2) by (auto elim!: create_conversation_Inr)
  ultimately show ?thesis using assms(1) by (simp add: db_ok_def answer_ok_def quote_ok_def)
qed

lemma client_ok:
  assumes "db_ok s" "from_client e"
  shows "db_ok (turn_step u cfg e s)"
proof (cases e)
  case (Create_conversation ident course_id key new_id start)
  then show ?thesis
    by (cases rule: session_cases [of "create_conversation ident course_id key new_id start" s])
      (use assms create_ok in auto)
next
  case (Accept ident cid q key corr env)
  then show ?thesis
    by (cases rule: session_cases [of "accept u cfg ident cid q key corr env" s]) (use assms accept_ok in auto)
next
  case (History ident cid after limit now)
  then show ?thesis
    by (cases rule: session_cases [of "history ident cid after limit now" s])
      (use assms expire_ok in \<open>auto dest!: history_Inr\<close>)
next
  case (Read_message ident cid mid now)
  then show ?thesis
    by (cases rule: session_cases [of "read_message ident cid mid now" s])
      (use assms expire_ok in \<open>auto dest!: read_message_Inr\<close>)
qed (use assms expire_ok in auto)

section \<open>Tasks and calls\<close>

definition req_id :: "tutor_request \<Rightarrow> uuid" where
  "req_id req = rs_message_id (tr_scope req)"

definition fresh :: "uuid \<Rightarrow> tutor_request list \<Rightarrow> bool" where
  "fresh mid invs \<longleftrightarrow> mid \<notin> req_id ` set invs"

definition recorded :: "retrieved_evidence list \<Rightarrow> uuid \<Rightarrow> tutor_request \<Rightarrow> bool" where
  "recorded es mid req \<longleftrightarrow> req_id req = mid \<and> (\<forall>i \<in> set (tr_evidence req). evidence_row mid i \<in> set es)"

fun phase_ok :: "retrieved_evidence list \<Rightarrow> tutor_request list \<Rightarrow> uuid \<Rightarrow> phase \<Rightarrow> bool" where
  "phase_ok es invs mid Requesting \<longleftrightarrow> fresh mid invs"
| "phase_ok es invs mid (Retrieving req) \<longleftrightarrow> fresh mid invs \<and> req_id req = mid"
| "phase_ok es invs mid (Searching req _ _) \<longleftrightarrow> fresh mid invs \<and> req_id req = mid"
| "phase_ok es invs mid (Saving req _) \<longleftrightarrow> fresh mid invs \<and> req_id req = mid"
| "phase_ok es invs mid (Generating req) \<longleftrightarrow> recorded es mid req"
| "phase_ok es invs mid (Completing d) \<longleftrightarrow> backed es mid d"
| "phase_ok es invs mid (Failing code) \<longleftrightarrow> code \<in> stored_codes"

fun call_ok :: "retrieved_evidence list \<Rightarrow> call \<Rightarrow> bool" where
  "call_ok es (Save_call mid evs) \<longleftrightarrow> True"
| "call_ok es (Complete_call mid d) \<longleftrightarrow> backed es mid d"
| "call_ok es (Fail_call mid code) \<longleftrightarrow> code \<in> stored_codes"

definition known :: "db \<Rightarrow> uuid \<Rightarrow> bool" where
  "known s mid \<longleftrightarrow> mid \<in> ms_id ` set (t_messages s)"

definition invocation_ok :: "db \<Rightarrow> tutor_request \<Rightarrow> bool" where
  "invocation_ok s req \<longleftrightarrow> known s (req_id req) \<and> tr_evidence req \<noteq> [] \<and> recorded (t_evidence s) (req_id req) req"

definition task_ok :: "conversation_runtime \<Rightarrow> uuid \<Rightarrow> task \<Rightarrow> bool" where
  "task_ok r mid t \<longleftrightarrow> mv_id (am_message (tk_accepted t)) = mid \<and> known (rt_db r) mid \<and>
     phase_ok (t_evidence (rt_db r)) (rt_invocations r) mid (tk_phase t)"

definition rt_inv :: "conversation_runtime \<Rightarrow> bool" where
  "rt_inv r \<longleftrightarrow> db_ok (rt_db r) \<and>
     (\<forall>mid t. rt_tasks r mid = Some t \<longrightarrow> task_ok r mid t) \<and>
     (\<forall>c \<in> set (rt_abandoned r). call_ok (t_evidence (rt_db r)) c) \<and>
     distinct (map req_id (rt_invocations r)) \<and>
     (\<forall>req \<in> set (rt_invocations r). invocation_ok (rt_db r) req)"

section \<open>Growth\<close>

definition grows :: "db \<Rightarrow> db \<Rightarrow> bool" where
  "grows s t \<longleftrightarrow> set (t_evidence s) \<subseteq> set (t_evidence t) \<and> (\<forall>mid. known s mid \<longrightarrow> known t mid)"

lemma grows_progress: "turns_progress s t \<Longrightarrow> grows s t"
proof -
  assume p: "turns_progress s t"
  have "known t mid" if "known s mid" for mid
  proof -
    obtain m where m: "m \<in> set (t_messages s)" "mid = ms_id m" using \<open>known s mid\<close> by (auto simp: known_def)
    then obtain m' where "m' \<in> set (t_messages t)" "fixed_part m' = fixed_part m"
      using p by (fastforce simp: turns_progress_def)
    then show ?thesis using m(2) fixed_part_fields(1) [of m' m] unfolding known_def by (metis image_eqI)
  qed
  then show ?thesis using p by (simp add: grows_def turns_progress_def)
qed

lemma backed_mono: "backed es mid d \<Longrightarrow> set es \<subseteq> set es' \<Longrightarrow> backed es' mid d"
  by (fastforce simp: backed_def quoted_in_def)

lemma phase_ok_mono:
  "phase_ok es invs mid p \<Longrightarrow> set es \<subseteq> set es' \<Longrightarrow> \<forall>req \<in> set new. req_id req \<noteq> mid \<Longrightarrow>
   phase_ok es' (invs @ new) mid p"
  by (cases p) (auto simp: fresh_def recorded_def intro: backed_mono)

lemma call_ok_mono: "call_ok es c \<Longrightarrow> set es \<subseteq> set es' \<Longrightarrow> call_ok es' c"
  by (cases c) (auto intro: backed_mono)

lemma invocation_ok_mono: "invocation_ok s req \<Longrightarrow> grows s t \<Longrightarrow> invocation_ok t req"
  by (auto simp: invocation_ok_def grows_def recorded_def)

section \<open>The effect on the database\<close>

lemma message_view_id: "message_view_of s m = Inr v \<Longrightarrow> mv_id v = ms_id m"
  by (auto simp: message_view_of_def result_simps)

lemma tutor_request_of_Inr:
  assumes "tutor_request_of a evs s = Inr (req, s')"
  shows "s' = s" "req_id req = mv_id (am_message a)" "tr_evidence req = evs"
  using assms by (auto simp: tutor_request_of_def req_id_def scope_of_def split: option.splits)

lemma run_call_turn:
  "\<exists>e. run_call now later c s = turn_step u cfg e s"
proof (cases c)
  case (Save_call mid evs)
  then show ?thesis by (intro exI [of _ "Save_evidence mid evs now"]) simp
next
  case (Complete_call mid d)
  then show ?thesis by (intro exI [of _ "Complete mid d now later"]) simp
next
  case (Fail_call mid code)
  then show ?thesis by (intro exI [of _ "Fail mid code now"]) simp
qed

text \<open>A step of a task makes the call it awaits.\<close>

lemma advance_db:
  "snd (advance rn env a p s) =
     (case call_of (mv_id (am_message a)) p of None \<Rightarrow> s | Some c \<Rightarrow> run_call (ad_now env) (ad_later env) c s)"
proof (cases p)
  case Requesting
  then show ?thesis
    by (cases rule: session_cases [of "tutor_request_of a []" s]) (simp_all add: tutor_request_of_Inr(1))
next
  case (Saving req evs)
  then show ?thesis by (auto split: prod.splits sum.splits)
next
  case (Completing d)
  then show ?thesis by (auto split: prod.splits sum.splits)
qed simp_all

lemma runtime_step_db:
  "\<exists>es. rt_db (runtime_step u cfg rn e r) = fold (turn_step u cfg) es (rt_db r)"
proof -
  have one: "\<exists>es. turn_step u cfg x (rt_db r) = fold (turn_step u cfg) es (rt_db r)" for x
    by (intro exI [of _ "[x]"]) simp
  have none: "\<exists>es. rt_db r = fold (turn_step u cfg) es (rt_db r)"
    by (intro exI [of _ "[]"]) simp
  have call: "\<exists>es. run_call now later c (rt_db r) = fold (turn_step u cfg) es (rt_db r)" for now later c
    using run_call_turn [of now later c "rt_db r" u cfg] one by metis
  show ?thesis
  proof (cases e)
    case (Ask ident cid q key corr env)
    have "rt_db (runtime_step u cfg rn e r) = turn_step u cfg (Accept ident cid q key corr env) (rt_db r)"
      by (simp add: Ask start_task_def split: prod.splits sum.splits)
    then show ?thesis using one by metis
  next
    case (Client x)
    then show ?thesis using one [of x] none by simp
  next
    case (Advance mid env)
    show ?thesis
    proof (cases "rt_tasks r mid")
      case None
      then show ?thesis using Advance none by simp
    next
      case (Some t)
      have "rt_db (runtime_step u cfg rn e r) = snd (advance rn env (tk_accepted t) (tk_phase t) (rt_db r))"
        by (simp add: Advance Some split: prod.splits)
      then have "rt_db (runtime_step u cfg rn e r) \<in> insert (rt_db r)
          (range (\<lambda>c. run_call (ad_now env) (ad_later env) c (rt_db r)))"
        by (simp add: advance_db split: option.splits)
      then show ?thesis using none call by fastforce
    qed
  next
    case (Interrupt mid i)
    then show ?thesis using none by (cases "rt_tasks r mid") simp_all
  next
    case (Late n now later)
    then show ?thesis using none call by simp
  qed
qed

lemma runtime_step_grows:
  assumes "db_ok (rt_db r)"
  shows "grows (rt_db r) (rt_db (runtime_step u cfg rn e r))"
proof -
  obtain es where "rt_db (runtime_step u cfg rn e r) = fold (turn_step u cfg) es (rt_db r)"
    using runtime_step_db by blast
  then show ?thesis
    using turns.rel_run [of "rt_db r" u cfg es] assms by (simp add: db_ok_def grows_progress)
qed

section \<open>Tasks keep what they promise\<close>

lemma snd_reporting [simp]: "snd (reporting xs f) = snd f"
  by (cases f) (simp add: reporting_def)

lemma go_on_pair [simp]: "go_on f = (fst f, Some (snd f))"
  by (cases f) (simp add: go_on_def)

lemma fail_with_ok [simp]: "phase_ok es invs mid (fail_with e)"
  by (cases e) (auto simp: fail_with_def failure_code_of_def stored_codes_def SAFE_FAILURES_def)

lemma invoked_fail_with [simp]: "invoked (Some (fail_with e)) = []"
  by (simp add: fail_with_def invoked_def)

lemma invoked_Searching [simp]: "invoked (Some (Searching req cfg vec)) = []"
  by (simp add: invoked_def)

lemma after_retrieval_ok:
  assumes "fresh mid invs" "req_id req = mid"
  shows "phase_ok es invs mid (after_retrieval req res)" "invoked (Some (after_retrieval req res)) = []"
  using assms by (auto simp: after_retrieval_def invoked_def fail_with_def [symmetric] split: sum.splits)
    (simp add: fail_with_def)

text \<open>A step keeps the promise of the phase, and gives the model at most one request, whose
  evidence is recorded.\<close>

definition step_ok :: "tutor_request list \<Rightarrow> uuid \<Rightarrow> phase option \<Rightarrow> db \<Rightarrow> bool" where
  "step_ok invs mid p s \<longleftrightarrow> db_ok s \<and>
     (\<forall>q. p = Some q \<longrightarrow> phase_ok (t_evidence s) (invs @ invoked p) mid q) \<and>
     (invoked p = [] \<or> (\<exists>req. invoked p = [req] \<and> fresh mid invs \<and> tr_evidence req \<noteq> [] \<and>
        recorded (t_evidence s) mid req))"

text \<open>Every step brings a task closer to its end.\<close>

fun rank :: "phase \<Rightarrow> nat" where
  "rank Requesting = 7"
| "rank (Retrieving _) = 6"
| "rank (Searching _ _ _) = 5"
| "rank (Saving _ _) = 4"
| "rank (Generating _) = 3"
| "rank (Completing _) = 2"
| "rank (Failing _) = 1"

definition steps_left :: "conversation_runtime \<Rightarrow> uuid \<Rightarrow> nat" where
  "steps_left r mid = (case rt_tasks r mid of None \<Rightarrow> 0 | Some t \<Rightarrow> rank (tk_phase t))"

fun drives :: "uuid \<Rightarrow> runtime_event \<Rightarrow> bool" where
  "drives mid (Advance i _) \<longleftrightarrow> i = mid"
| "drives mid (Interrupt i _) \<longleftrightarrow> i = mid"
| "drives _ _ \<longleftrightarrow> False"

fun interrupts :: "uuid \<Rightarrow> runtime_event \<Rightarrow> bool" where
  "interrupts mid (Interrupt i _) \<longleftrightarrow> i = mid"
| "interrupts _ _ \<longleftrightarrow> False"

lemma rank_fail_with [simp]: "rank (fail_with e) = 1"
  by (simp add: fail_with_def)

lemma rank_validate: "rank (snd (validate_draft rn req d)) \<le> 2"
  by (auto simp: validate_draft_def split: sum.splits)

lemma rank_after_retrieval: "rank (after_retrieval req x) \<le> 4"
  by (auto simp: after_retrieval_def split: sum.splits)

lemma advance_rank:
  assumes "advance rn env a p s = ((reports, Some q), s')"
  shows "rank q < rank p"
proof -
  have le: "rank (snd (validate_draft rn req d)) < 7" "rank (snd (validate_draft rn req d)) < 4"
    "rank (snd (validate_draft rn req d)) < 3" "rank (after_retrieval req x) < 6" "rank (after_retrieval req x) < 5"
    for rn req d x
    using rank_validate [of rn req d] rank_after_retrieval [of req x] by simp_all
  show ?thesis
  proof (cases p)
    case (Retrieving req)
    then show ?thesis using assms le(4) by (cases "rn_retriever rn") (auto split: sum.splits)
  qed (use assms le in \<open>auto simp: after_request_def after_save_def Let_def split: prod.splits sum.splits if_splits\<close>)
qed

lemma interrupted_rank: "interrupted i p = Some q \<Longrightarrow> rank q < rank p"
  by (cases i; cases p) auto

lemma advance_done:
  assumes "advance rn env a p s = ((reports, None), s')" "conv_inv s" "m \<in> set (t_messages s')"
    "ms_id m = mv_id (am_message a)"
  shows "\<not> is_pending m"
proof (cases p)
  case (Completing d)
  then obtain x where c: "complete (mv_id (am_message a)) d (ad_now env) (ad_later env) s = Inr (x, s')"
    using assms(1) by (cases rule: session_cases [of "complete (mv_id (am_message a)) d (ad_now env) (ad_later env)" s]) auto
  then obtain r where "r \<in> set (t_messages s)"
    "m = (if ms_id r = mv_id (am_message a) then completed_with d (ad_later env) r else r)"
    using assms(3) by (auto elim!: complete_Inr simp: set_update_where)
  then show ?thesis using assms(4) by (auto simp: completed_with_def Let_def is_pending_def split: option.splits if_splits)
next
  case (Failing code)
  then have "s' = fail_message (mv_id (am_message a)) code (ad_now env) s" using assms(1) by simp
  then show ?thesis
    using assms(3,4) by (auto simp: fail_message_def set_update_where failed_with_def is_pending_def)
qed (use assms(1) in \<open>auto split: prod.splits sum.splits\<close>)

definition settled :: "db \<Rightarrow> uuid \<Rightarrow> bool" where
  "settled s mid \<longleftrightarrow> known s mid \<and> (\<forall>m \<in> set (t_messages s). ms_id m = mid \<longrightarrow> \<not> is_pending m)"

lemma settled_progress:
  assumes "settled s mid" "turns_progress s t" "conv_inv t"
  shows "settled t mid"
proof -
  obtain m where m: "m \<in> set (t_messages s)" "ms_id m = mid" "\<not> is_pending m"
    using assms(1) by (auto simp: settled_def known_def)
  then have mt: "m \<in> set (t_messages t)" using assms(2) unfolding turns_progress_def by metis
  have "r = m" if "r \<in> set (t_messages t)" "ms_id r = mid" for r
    using key_eqD [of ms_id "t_messages t" r m] assms(3) that mt m(2) by (simp add: conv_inv_def message_keys_def)
  then show ?thesis using m mt unfolding settled_def known_def by (metis image_eqI)
qed

text \<open>A question that is accepted is new.\<close>

lemma accepted_new:
  assumes "accept u cfg ident cid q key corr env s = Inr (a, s')" "am_created a"
  shows "\<not> known s (mv_id (am_message a))" "known s' (mv_id (am_message a))"
proof -
  obtain c s1 m v where m: "s1 = expire_messages (Some cid) (ac_expiry env) s" "message_insertable m s1"
    "s' = with_message c m s1" "message_view_of s' m = Inr v" "am_message a = v"
    using assms(1) by (rule accept_Inr) (use assms(2) in auto)
  have "map ms_id (t_messages s1) = map ms_id (t_messages s)"
    by (simp add: m(1) expire_messages_def map_update_where failed_with_def)
  then have "ms_id ` set (t_messages s1) = ms_id ` set (t_messages s)" by (metis set_map)
  moreover have "ms_id m \<notin> ms_id ` set (t_messages s1)"
    using m(2) by (force simp: message_insertable_def exists_where_iff)
  ultimately show "\<not> known s (mv_id (am_message a))" "known s' (mv_id (am_message a))"
    using message_view_id [OF m(4)] m(5) by (simp_all add: known_def m(3) with_message_def)
qed

locale tutoring = response_validator "rn_validate rn" for rn :: runtime_config
begin

lemma validated_phase:
  assumes "recorded es mid req"
  shows "phase_ok es invs mid (snd (validate_draft rn req draft))"
    "invoked (Some (snd (validate_draft rn req draft))) = []"
proof -
  have ok: "phase_ok es invs mid (snd (validate_draft rn req draft)) \<and>
    invoked (Some (snd (validate_draft rn req draft))) = []"
  proof (cases draft)
    case (Inr d)
    show ?thesis
    proof (cases "rn_validate rn d req")
      case (Inr d')
      note c = stored_citations [OF this]
      have "quoted_in es mid q" if q: "q \<in> set (td_citations d')" for q
      proof -
        obtain i where i: "i \<in> set (tr_evidence req)" "ev_chunk_id i = dc_chunk_id q" "sublist (dc_quote q) (ev_content i)"
          using c(2) [OF q] by (auto simp: cites_def)
        then have "evidence_row mid i \<in> set es" using assms by (simp add: recorded_def)
        then show ?thesis
          unfolding quoted_in_def by (rule bexI [rotated]) (use i in \<open>simp add: evidence_row_def\<close>)
      qed
      then have "backed es mid d'" using c(3) by (simp add: backed_def)
      then show ?thesis using Inr \<open>draft = Inr d\<close> by (simp add: validate_draft_def invoked_def)
    qed (simp add: validate_draft_def Inr)
  qed (simp add: validate_draft_def)
  then show "phase_ok es invs mid (snd (validate_draft rn req draft))"
    "invoked (Some (snd (validate_draft rn req draft))) = []" by simp_all
qed

lemma advance_ok:
  assumes "db_ok s" "phase_ok (t_evidence s) invs mid p" "mv_id (am_message a) = mid"
    "advance rn env a p s = ((reports, p'), s')"
  shows "step_ok invs mid p' s'"
proof (cases p)
  case Requesting
  show ?thesis
  proof (cases rule: session_cases [of "tutor_request_of a []" s])
    case (raised e)
    then show ?thesis using assms Requesting by (auto simp: step_ok_def)
  next
    case (committed req t)
    note r = tutor_request_of_Inr [OF committed(1)]
    have p': "p' = Some (snd (after_request rn req))" "s' = s"
      using assms(4) committed r(1) by (simp_all add: Requesting)
    have "recorded (t_evidence s) mid req" using r assms(3) by (simp add: recorded_def)
    note v = validated_phase [OF this]
    have "phase_ok (t_evidence s) (invs @ invoked p') mid (snd (after_request rn req)) \<and> invoked p' = []"
    proof (cases "tr_needs_antecedent req")
      case True
      then show ?thesis using v by (simp add: p' after_request_def)
    next
      case False
      then show ?thesis using assms(2,3) r(2) by (simp add: p' after_request_def Requesting invoked_def)
    qed
    then show ?thesis using assms(1) p' by (auto simp: step_ok_def)
  qed
next
  case (Retrieving req)
  then have f: "fresh mid invs" "req_id req = mid" using assms(2) by simp_all
  note a = after_retrieval_ok [OF f]
  have s': "s' = s" using assms(4) by (simp add: Retrieving)
  have p': "p' = Some (case rn_retriever rn of
        Postgres_retriever \<Rightarrow>
          after_retrieval req (postgres_retrieve (rn_text rn) (ad_now env) (tr_scope req) (query_of req) s)
      | Dense_retriever cfg \<Rightarrow>
          (case bindE (authorize_retrieval (tr_scope req) (query_of req) (ad_now env) s)
                  (\<lambda>_. dense_query cfg (query_of req)) of
             Inl e \<Rightarrow> fail_with e | Inr vec \<Rightarrow> Searching req cfg vec))"
    using assms(4) by (simp add: Retrieving)
  have "phase_ok (t_evidence s) (invs @ invoked p') mid (the p') \<and> invoked p' = []"
    unfolding p' using a f
    by (cases "rn_retriever rn") (auto split: sum.splits)
  then show ?thesis using assms(1) s' by (auto simp: step_ok_def)
next
  case (Searching req cfg vec)
  then have f: "fresh mid invs" "req_id req = mid" using assms(2) by simp_all
  show ?thesis using assms(1,4) after_retrieval_ok [OF f] by (auto simp: Searching step_ok_def)
next
  case (Saving req evs)
  then have f: "fresh mid invs" "req_id req = mid" using assms(2) by simp_all
  show ?thesis
  proof (cases rule: session_cases [of "save_evidence (mv_id (am_message a)) evs (ad_now env)" s])
    case (raised e)
    then show ?thesis using assms Saving by (auto simp: step_ok_def)
  next
    case (committed x t)
    have p': "p' = Some (snd (after_save rn req evs))" "s' = t"
      using assms(4) committed(2) by (simp_all add: Saving)
    have t: "t_evidence t = t_evidence s @ map (evidence_row mid) evs"
      using committed(1) assms(3) by (auto elim!: save_evidence_Inr)
    have rec: "recorded (t_evidence t) mid (req\<lparr>tr_evidence := evs\<rparr>)"
      using f(2) t by (simp add: recorded_def req_id_def)
    have ok: "db_ok t" by (rule save_ok [OF assms(1) committed(1)])
    show ?thesis
    proof (cases "evs = []")
      case True
      then show ?thesis
        using validated_phase [OF rec] ok p' by (auto simp: step_ok_def after_save_def Let_def)
    next
      case False
      then show ?thesis
        using rec ok p' f by (auto simp: step_ok_def after_save_def Let_def invoked_def)
    qed
  qed
next
  case (Generating req)
  then have "recorded (t_evidence s) mid req" using assms(2) by simp
  note v = validated_phase [OF this]
  show ?thesis
    using assms(1,4) v(1) [of invs "ad_answer env"] v(2) [of "ad_answer env"] by (auto simp: Generating step_ok_def)
next
  case (Completing d)
  show ?thesis
  proof (cases rule: session_cases [of "complete (mv_id (am_message a)) d (ad_now env) (ad_later env)" s])
    case (raised e)
    then show ?thesis using assms Completing by (auto simp: step_ok_def)
  next
    case (committed x t)
    have "backed (t_evidence s) (mv_id (am_message a)) d" using assms(2,3) Completing by simp
    then have "db_ok t" by (rule complete_ok [OF assms(1) committed(1)])
    then show ?thesis using assms(4) committed(2) by (auto simp: Completing step_ok_def invoked_def)
  qed
next
  case (Failing code)
  then show ?thesis using assms fail_ok by (auto simp: step_ok_def invoked_def)
qed

lemma task_ok_kept:
  assumes "task_ok r mid t" "set (t_evidence (rt_db r)) \<subseteq> set (t_evidence s)" "known s mid"
    "rt_db r' = s" "rt_invocations r' = rt_invocations r @ new" "\<forall>req \<in> set new. req_id req \<noteq> mid"
  shows "task_ok r' mid t"
  using assms phase_ok_mono by (auto simp: task_ok_def)

lemma ask_ok:
  assumes "rt_inv r" "accept u cfg ident cid q key corr env (rt_db r) = Inr (a, s)"
  shows "rt_inv (start_task a (r\<lparr>rt_db := s\<rparr>))"
proof -
  have ok: "db_ok s" using accept_ok assms by (auto simp: rt_inv_def)
  have g: "grows (rt_db r) s" using accept_progress [OF assms(2)] by (rule grows_progress)
  have calls: "\<forall>c \<in> set (rt_abandoned r). call_ok (t_evidence s) c" "\<forall>req \<in> set (rt_invocations r). invocation_ok s req"
    using assms(1) g call_ok_mono invocation_ok_mono [OF _ g] by (auto simp: rt_inv_def grows_def)
  have old: "task_ok r' mid t" if "rt_tasks r mid = Some t" "rt_db r' = s" "rt_invocations r' = rt_invocations r" for r' mid t
  proof -
    have t: "task_ok r mid t" using assms(1) that(1) by (simp add: rt_inv_def)
    then have "known s mid" using g by (simp add: task_ok_def grows_def)
    from task_ok_kept [OF t _ this that(2), where new = "[]"] show ?thesis using g that(3) by (simp add: grows_def)
  qed
  show ?thesis
  proof (cases "am_created a")
    case False
    then show ?thesis using assms(1) ok calls old by (auto simp: start_task_def rt_inv_def)
  next
    case True
    let ?mid = "mv_id (am_message a)"
    have new: "\<not> known (rt_db r) ?mid" "known s ?mid" using accepted_new [OF assms(2) True] by simp_all
    from new(1) have "fresh ?mid (rt_invocations r)"
      using assms(1) by (auto simp: fresh_def rt_inv_def invocation_ok_def)
    then have "task_ok (start_task a (r\<lparr>rt_db := s\<rparr>)) ?mid \<lparr>tk_accepted = a, tk_phase = Requesting, tk_progress = []\<rparr>"
      using new(2) True by (simp add: task_ok_def start_task_def)
    then show ?thesis
      using assms(1) ok calls old True by (auto simp: start_task_def rt_inv_def)
  qed
qed

lemma inv_db:
  assumes "rt_inv r" "db_ok s" "grows (rt_db r) s"
  shows "rt_inv (r\<lparr>rt_db := s\<rparr>)"
proof -
  have "task_ok (r\<lparr>rt_db := s\<rparr>) mid t" if t: "rt_tasks r mid = Some t" for mid t
  proof -
    have ok: "task_ok r mid t" using assms(1) t by (simp add: rt_inv_def)
    then have "known s mid" using assms(3) by (simp add: task_ok_def grows_def)
    from task_ok_kept [OF ok _ this, where new = "[]"] show ?thesis using assms(3) by (simp add: grows_def)
  qed
  moreover have "\<forall>c \<in> set (rt_abandoned r). call_ok (t_evidence s) c"
    using assms(1,3) call_ok_mono by (auto simp: rt_inv_def grows_def)
  moreover have "\<forall>req \<in> set (rt_invocations r). invocation_ok s req"
    using assms(1) invocation_ok_mono [OF _ assms(3)] by (auto simp: rt_inv_def)
  ultimately show ?thesis using assms(1,2) by (simp add: rt_inv_def)
qed

lemma run_call_ok:
  assumes "db_ok s" "call_ok (t_evidence s) c"
  shows "db_ok (run_call now later c s)"
proof (cases c)
  case (Save_call mid evs)
  then show ?thesis
    by (cases rule: session_cases [of "save_evidence mid evs now" s]) (use assms save_ok in auto)
next
  case (Complete_call mid d)
  then show ?thesis
    by (cases rule: session_cases [of "complete mid d now later" s]) (use assms complete_ok in auto)
next
  case (Fail_call mid code)
  then show ?thesis using assms fail_ok by simp
qed

lemma call_of_ok: "phase_ok es invs mid p \<Longrightarrow> call_of mid p = Some c \<Longrightarrow> call_ok es c"
  by (cases p) auto

lemma interrupted_ok: "interrupted i p = Some q \<Longrightarrow> phase_ok es invs mid q"
  by (cases i; cases p) (auto simp: stored_codes_def SAFE_FAILURES_def)

lemma moved_Some:
  "moved t reports p = Some t' \<longleftrightarrow> (\<exists>q. p = Some q \<and> t' = t\<lparr>tk_phase := q, tk_progress := tk_progress t @ reports\<rparr>)"
  by (cases p) (auto simp: moved_def)

lemma advance_inv:
  assumes "rt_inv r" "rt_tasks r mid = Some t"
    "advance rn env (tk_accepted t) (tk_phase t) (rt_db r) = ((reports, p), s)" "grows (rt_db r) s"
  shows "rt_inv (r\<lparr>rt_db := s, rt_tasks := (rt_tasks r)(mid := moved t reports p),
    rt_invocations := rt_invocations r @ invoked p\<rparr>)"
proof -
  let ?r = "r\<lparr>rt_db := s, rt_tasks := (rt_tasks r)(mid := moved t reports p),
    rt_invocations := rt_invocations r @ invoked p\<rparr>"
  have t: "task_ok r mid t" using assms(1,2) by (simp add: rt_inv_def)
  have st: "step_ok (rt_invocations r) mid p s"
    by (rule advance_ok [OF _ _ _ assms(3)]) (use t assms(1) in \<open>auto simp: rt_inv_def task_ok_def\<close>)
  have ev: "set (t_evidence (rt_db r)) \<subseteq> set (t_evidence s)" using assms(4) by (simp add: grows_def)
  have kn: "known s mid" using t assms(4) by (simp add: task_ok_def grows_def)
  have ids: "\<forall>req \<in> set (invoked p). req_id req = mid" using st by (auto simp: step_ok_def recorded_def)
  have "task_ok ?r mid' t'" if t': "rt_tasks ?r mid' = Some t'" for mid' t'
  proof (cases "mid' = mid")
    case True
    then obtain q where "p = Some q" "t' = t\<lparr>tk_phase := q, tk_progress := tk_progress t @ reports\<rparr>"
      using t' by (auto simp: moved_Some)
    then show ?thesis using t st kn True by (simp add: task_ok_def step_ok_def)
  next
    case False
    then have ok: "task_ok r mid' t'" using t' assms(1) by (simp add: rt_inv_def)
    then have "known s mid'" using assms(4) by (simp add: task_ok_def grows_def)
    from task_ok_kept [OF ok ev this, of ?r "invoked p"] show ?thesis using ids False by simp
  qed
  moreover have "\<forall>c \<in> set (rt_abandoned r). call_ok (t_evidence s) c"
    using assms(1) ev call_ok_mono by (auto simp: rt_inv_def)
  moreover have "distinct (map req_id (rt_invocations r @ invoked p))"
    using st assms(1) by (auto simp: step_ok_def rt_inv_def fresh_def recorded_def) (metis image_eqI)
  moreover have "invocation_ok s req" if "req \<in> set (rt_invocations r @ invoked p)" for req
    using that st kn assms(1) invocation_ok_mono [OF _ assms(4)]
    by (auto simp: rt_inv_def step_ok_def invocation_ok_def recorded_def)
  ultimately show ?thesis using st assms(1) by (simp add: rt_inv_def step_ok_def)
qed

lemma runtime_step_inv:
  assumes "rt_inv r"
  shows "rt_inv (runtime_step u cfg rn e r)"
proof -
  have ok: "db_ok (rt_db r)" using assms by (simp add: rt_inv_def)
  note g = runtime_step_grows [OF ok, of u cfg rn e]
  show ?thesis
  proof (cases e)
    case (Ask ident cid q key corr env)
    then show ?thesis
      by (cases rule: session_cases [of "accept u cfg ident cid q key corr env" "rt_db r"])
        (use assms ask_ok in simp_all)
  next
    case (Client x)
    then show ?thesis using assms inv_db [OF assms client_ok [OF ok, of x]] g by (cases "from_client x") simp_all
  next
    case (Advance mid env)
    show ?thesis
    proof (cases "rt_tasks r mid")
      case None
      then show ?thesis using Advance assms by simp
    next
      case (Some t)
      obtain reports p s where a: "advance rn env (tk_accepted t) (tk_phase t) (rt_db r) = ((reports, p), s)"
        by (metis prod.exhaust)
      show ?thesis using advance_inv [OF assms Some a] g by (simp add: Advance Some a)
    qed
  next
    case (Interrupt mid i)
    show ?thesis
    proof (cases "rt_tasks r mid")
      case None
      then show ?thesis using Interrupt assms by simp
    next
      case (Some t)
      then have t: "task_ok r mid t" using assms by (simp add: rt_inv_def)
      have "call_ok (t_evidence (rt_db r)) c" if "call_of mid (tk_phase t) = Some c" for c
        using call_of_ok [OF _ that] t by (auto simp: task_ok_def)
      then show ?thesis
        using assms t interrupted_ok
        by (auto simp: Interrupt Some rt_inv_def task_ok_def moved_Some split: option.splits if_splits)
    qed
  next
    case (Late n now later)
    show ?thesis
    proof (cases "n < length (rt_abandoned r)")
      case True
      then have "call_ok (t_evidence (rt_db r)) (rt_abandoned r ! n)" using assms by (simp add: rt_inv_def)
      then have "rt_inv (r\<lparr>rt_db := run_call now later (rt_abandoned r ! n) (rt_db r)\<rparr>)"
        using inv_db [OF assms run_call_ok [OF ok]] g True Late by simp
      then show ?thesis
        using True by (auto simp: Late rt_inv_def task_ok_def dest: in_set_takeD in_set_dropD)
    qed (use assms Late in simp)
  qed
qed

text \<open>A question that is known has no second task.\<close>

lemma ask_keeps:
  assumes "rt_inv r" "known (rt_db r) mid"
  shows "rt_tasks (runtime_step u cfg rn (Ask ident cid q key corr env) r) mid = rt_tasks r mid"
proof (cases rule: session_cases [of "accept u cfg ident cid q key corr env" "rt_db r"])
  case (committed a s)
  then show ?thesis using accepted_new(1) [OF committed(1)] assms(2) by (auto simp: start_task_def)
qed simp

lemma steps_left_step:
  assumes "rt_inv r" "known (rt_db r) mid"
  shows "steps_left (runtime_step u cfg rn e r) mid \<le> steps_left r mid - (if drives mid e then 1 else 0)"
proof (cases e)
  case (Ask ident cid q key corr env)
  then show ?thesis using ask_keeps [OF assms] by (simp only: steps_left_def) simp
next
  case (Advance i env)
  show ?thesis
  proof (cases "rt_tasks r i")
    case (Some t)
    obtain reports p s where a: "advance rn env (tk_accepted t) (tk_phase t) (rt_db r) = ((reports, p), s)"
      by (metis prod.exhaust)
    have "rank q < rank (tk_phase t)" if "p = Some q" for q
      by (rule advance_rank [of rn env "tk_accepted t" _ "rt_db r"]) (use a that in simp)
    then show ?thesis
      using Some by (cases "i = mid"; cases p) (simp_all add: Advance a steps_left_def moved_def)
  qed (auto simp: Advance steps_left_def)
next
  case (Interrupt i x)
  show ?thesis
  proof (cases "rt_tasks r i")
    case (Some t)
    have "rank q < rank (tk_phase t)" if "interrupted x (tk_phase t) = Some q" for q
      by (rule interrupted_rank [OF that])
    then show ?thesis
      using Some
      by (cases "i = mid"; cases "interrupted x (tk_phase t)") (simp_all add: Interrupt steps_left_def moved_def)
  qed (auto simp: Interrupt steps_left_def)
qed (simp_all add: steps_left_def)

lemma steps_left_run:
  assumes "rt_inv r" "known (rt_db r) mid"
  shows "steps_left (fold (runtime_step u cfg rn) es r) mid \<le> steps_left r mid - length (filter (drives mid) es)"
  using assms
proof (induction es arbitrary: r)
  case (Cons e es)
  let ?r = "runtime_step u cfg rn e r"
  have "known (rt_db ?r) mid"
    using runtime_step_grows [of r u cfg rn e] Cons.prems by (simp add: rt_inv_def grows_def)
  then have "steps_left (fold (runtime_step u cfg rn) (e # es) r) mid \<le>
      steps_left ?r mid - length (filter (drives mid) es)"
    using Cons.IH [OF runtime_step_inv [OF Cons.prems(1)]] by simp
  moreover note steps_left_step [OF Cons.prems, of u cfg e]
  ultimately show ?case by (cases "drives mid e") simp_all
qed simp

text \<open>Unless it is interrupted, a task is only over when its question is settled.\<close>

lemma settled_step:
  assumes "rt_inv r" "known (rt_db r) mid" "rt_tasks r mid \<noteq> None \<or> settled (rt_db r) mid" "\<not> interrupts mid e"
  shows "rt_tasks (runtime_step u cfg rn e r) mid \<noteq> None \<or> settled (rt_db (runtime_step u cfg rn e r)) mid"
proof (cases "settled (rt_db r) mid")
  case True
  have ok: "db_ok (rt_db r)" "db_ok (rt_db (runtime_step u cfg rn e r))"
    using assms(1) runtime_step_inv [OF assms(1)] by (simp_all add: rt_inv_def)
  obtain es where "rt_db (runtime_step u cfg rn e r) = fold (turn_step u cfg) es (rt_db r)"
    using runtime_step_db by blast
  then have "turns_progress (rt_db r) (rt_db (runtime_step u cfg rn e r))"
    using turns.rel_run [of "rt_db r" u cfg es] ok(1) by (simp add: db_ok_def)
  then show ?thesis using settled_progress [OF True] ok(2) by (simp add: db_ok_def)
next
  case False
  then obtain t where t: "rt_tasks r mid = Some t" using assms(3) by auto
  show ?thesis
  proof (cases e)
    case (Ask ident cid q key corr env)
    then show ?thesis using ask_keeps [OF assms(1,2)] t by simp
  next
    case (Advance i env)
    show ?thesis
    proof (cases "i = mid")
      case True
      obtain reports p s where a: "advance rn env (tk_accepted t) (tk_phase t) (rt_db r) = ((reports, p), s)"
        by (metis prod.exhaust)
      have st: "rt_db (runtime_step u cfg rn e r) = s" by (simp add: Advance True t a)
      have kn: "known s mid"
        using runtime_step_grows [of r u cfg rn e] assms(1,2) by (simp add: st rt_inv_def grows_def)
      have "settled s mid" if "p = None"
        using advance_done [of rn env "tk_accepted t" "tk_phase t" "rt_db r" reports s] a that assms(1) t kn
        by (auto simp: settled_def rt_inv_def db_ok_def task_ok_def)
      then show ?thesis by (cases p) (simp_all add: Advance True t a moved_def)
    next
      case False
      then show ?thesis using t by (cases "rt_tasks r i") (simp_all add: Advance split: prod.splits)
    qed
  next
    case (Interrupt i x)
    then show ?thesis using t assms(4) by (cases "rt_tasks r i") simp_all
  qed (use t in simp_all)
qed

lemma settled_run:
  assumes "rt_inv r" "known (rt_db r) mid" "rt_tasks r mid \<noteq> None \<or> settled (rt_db r) mid"
    "\<forall>e \<in> set es. \<not> interrupts mid e"
  shows "rt_tasks (fold (runtime_step u cfg rn) es r) mid \<noteq> None \<or>
    settled (rt_db (fold (runtime_step u cfg rn) es r)) mid"
  using assms
proof (induction es arbitrary: r)
  case (Cons e es)
  let ?r = "runtime_step u cfg rn e r"
  have "known (rt_db ?r) mid"
    using runtime_step_grows [of r u cfg rn e] Cons.prems by (simp add: rt_inv_def grows_def)
  moreover have "rt_tasks ?r mid \<noteq> None \<or> settled (rt_db ?r) mid"
    by (rule settled_step) (use Cons.prems in simp_all)
  ultimately show ?case
    using Cons.IH [OF runtime_step_inv [OF Cons.prems(1)]] Cons.prems(4) by simp
qed simp

end

sublocale tutoring \<subseteq> runs: step_invariant "runtime_step u cfg rn" rt_inv for u cfg
  by unfold_locales (rule runtime_step_inv)

section \<open>The application\<close>

text \<open>\<open>create_app\<close> hands the runtime the evidence validator.\<close>

definition app_runtime ::
  "unicode_db \<Rightarrow> text_search \<Rightarrow> (fval list \<Rightarrow> fval list \<Rightarrow> rat option) \<Rightarrow> retriever_kind \<Rightarrow> runtime_config" where
  "app_runtime u ts cosine kind =
     \<lparr>rn_text = ts, rn_cosine = cosine, rn_retriever = kind, rn_validate = validate_response u\<rparr>"

interpretation app: tutoring "app_runtime u ts cosine kind" for u ts cosine kind
proof -
  have "rn_validate (app_runtime u ts cosine kind) = validate_response u" by (simp add: app_runtime_def)
  then show "tutoring (app_runtime u ts cosine kind)"
    by (simp only: tutoring_def evidence_validator.response_validator_axioms)
qed

definition idle :: "db \<Rightarrow> conversation_runtime" where
  "idle s = \<lparr>rt_db = s, rt_tasks = Map.empty, rt_abandoned = [], rt_invocations = []\<rparr>"

lemma idle_inv:
  assumes "t_conversations s = []" "t_messages s = []" "t_evidence s = []" "t_citations s = []"
  shows "rt_inv (idle s)"
  using assms
  by (simp add: idle_def rt_inv_def db_ok_def conv_inv_def conversation_keys_def message_keys_def evidence_keys_def)

end
