(* ===== verification/Retrieval_Service.thy ===== *)
theory Retrieval_Service
  imports Conversation_Service Retrieval
begin

text \<open>
  What retrieval promises the conversation service: the text query means the lexemes it was made
  of, and what a retriever returns lies in the captured scope and can be recorded as evidence.
\<close>

section \<open>Text queries\<close>

lemma dedup_set: "set (dedup xs) = set xs" "distinct (dedup xs)"
  by (induction xs) auto

lemma dedup_distinct: "distinct xs \<Longrightarrow> dedup xs = xs"
  by (induction xs) (auto simp: filter_id_conv)

text \<open>Reading the text of an OR query back gives the lexemes it was made of, each once and in
  order, whatever quotes, backslashes or operators they contain: no lexeme can break or extend
  the query. What \<open>_query_lexemes\<close> itself returns survives the round trip unchanged.\<close>

lemma lexeme_roundtrip:
  "query_lexemes (or_tsquery_text ls) = dedup ls \<and> set (query_lexemes (or_tsquery_text ls)) = set ls \<and>
   query_lexemes (or_tsquery_text (query_lexemes q)) = query_lexemes q"
proof -
  have rt: "query_lexemes (or_tsquery_text xs) = dedup xs" for xs
    by (simp add: query_lexemes_def find_lexemes_or unescape_escaped comp_def)
  have "dedup (query_lexemes q) = query_lexemes q"
    by (simp add: query_lexemes_def dedup_distinct dedup_set(2))
  then show ?thesis by (simp add: rt dedup_set(1))
qed

section \<open>Evidence\<close>


definition chat_search :: text_search where
  "chat_search = \<lparr>ts_plain = (\<lambda>_. Some [39, 119, 39]), ts_lexemes = (\<lambda>_. [[119]]), ts_matches = (\<lambda>_ _. True),
     ts_rank = (\<lambda>_ _. 1)\<rparr>"

lemma asked_run:
  "fold (turn_step ascii_db chat_cfg) (take 2 chat_events) chat_db = asked_db"
proof -
  obtain v where a: "accept ascii_db chat_cfg chat_ident 20 chat_question (Some (py ''q1'')) (py ''r'') chat_env chat_asked =
     Inr (\<lparr>am_message = v, am_created = True, am_owner_user_id = 1, am_correlation_id = py ''r''\<rparr>, asked_db)"
    using chat_accepted by blast
  have "take 2 chat_events = [Create_conversation chat_ident 3 (Some (py ''k'')) 20 0,
     Accept chat_ident 20 chat_question (Some (py ''q1'')) (py ''r'') chat_env]"
    by (simp add: chat_events_def)
  then show ?thesis using a by (simp add: chat_created flip: chat_asked_def)
qed

lemma asked_keys: "corpus_keys asked_db"
  by (simp add: corpus_keys_def asked_db_def chat_db_def empty_db_def)

lemma asked_authorized: "authorize_retrieval sample_scope (py ''why?'') 5 asked_db = Inr ()"
  by (simp add: authorize_retrieval_def retrieval_authorized_def asked_db_def chat_message_def new_message_def
      sample_scope_def chat_conversation_def chat_question_def chat_env_def chat_cfg_def seconds_def chat_db_def
      exists_where_def has_membership_def)

lemma asked_rows: "indexed_rows sample_scope asked_db = [(hd (t_chunks chat_db), chat_version, hd (t_documents chat_db))]"
  by (simp add: indexed_rows_def asked_db_def chat_db_def sample_scope_def chat_version_def)

lemma asked_retrieved:
  "retrieve_with chat_search (\<lambda>_ _. None) id 5 5 Postgres_retriever sample_scope (py ''why?'') asked_db =
     (Inr [sample_evidence], asked_db)"
proof -
  have l: "query_lexemes [39, 119, 39] = [[119]]" by (simp add: query_lexemes_def)
  show ?thesis
    by (simp add: retrieve_with_def postgres_retrieve_def asked_authorized [unfolded py_def, simplified] asked_authorized chat_search_def l fts_rows_def asked_rows
        matched_def evidence_from_def chat_version_def chat_db_def sample_evidence_def dec_int_def dec_nat.simps py_def)
qed


end
