(* ===== verification/Tutoring.thy ===== *)
theory Tutoring
  imports Runtime_Runs Retrieval_Service
begin

text \<open>
  What a student can rely on, whatever the tutor model answers, however tasks, clients and
  interruptions interleave and whenever abandoned transactions take effect: answers quote the
  course material, the model is asked at most once per question, and every question ends.
\<close>

section \<open>Evidence is course material\<close>

text \<open>A row of evidence repeats a stored chunk.\<close>

definition source_of :: "db \<Rightarrow> retrieved_evidence \<Rightarrow> chunk \<Rightarrow> bool" where
  "source_of s e c \<longleftrightarrow> ch_id c = re_chunk_id e \<and> ch_course_id c = re_course_id e \<and>
     ch_corpus_version_id c = re_corpus_version_id e \<and> ch_content c = re_content e \<and>
     ch_document_version_id c = re_document_version_id e"

definition sourced :: "db \<Rightarrow> bool" where
  "sourced s \<longleftrightarrow> (\<forall>e \<in> set (t_evidence s). \<exists>c \<in> set (t_chunks s). source_of s e c)"

lemma authentic_source:
  assumes "authentic m s i"
  shows "\<exists>c \<in> set (t_chunks s). source_of s (evidence_row mid i) c"
proof -
  obtain c v d where row: "(c, v, d) \<in> set (stored_rows m (ev_chunk_id i) s)" "agrees i (c, v, d)"
    "ev_course_id i = ms_course_id m" "Some (ev_corpus_version_id i) = ms_corpus_version_id m"
    using assms by (auto simp: authentic_def)
  have "c \<in> set (t_chunks s)" "ch_id c = ev_chunk_id i" "ch_course_id c = ms_course_id m"
    "Some (ch_corpus_version_id c) = ms_corpus_version_id m" "dv_id v = ch_document_version_id c"
    using row(1) by (auto simp: stored_rows_def split: if_splits)
  moreover from this row(4) have "ch_corpus_version_id c = ev_corpus_version_id i" by (metis option.inject)
  ultimately show ?thesis
    using row(2-4) by (intro bexI [of _ c]) (auto simp: agrees_def source_of_def evidence_row_def)
qed

lemma chunks_kept: "other_tables t = other_tables s \<Longrightarrow> t_chunks t = t_chunks s"
  by (cases s; cases t) (simp add: other_tables_def)

lemma sourced_step:
  assumes "sourced s"
  shows "sourced (turn_step u cfg e s)"
proof -
  have c: "t_chunks (turn_step u cfg e s) = t_chunks s" by (rule chunks_kept [OF turn_step_others])
  show ?thesis
  proof (cases rule: turn_step_cases [of u cfg e s])
    case (saved mid evs now x)
    then show ?thesis
    proof (cases rule: save_evidence_Inr)
      case (1 m)
      have ev: "t_evidence (turn_step u cfg e s) = t_evidence s @ map (evidence_row mid) evs" by (simp add: 1(4))
      have "\<exists>c \<in> set (t_chunks s). source_of s (evidence_row mid i) c" if "i \<in> set evs" for i
        using authentic_source 1(5) that by blast
      then show ?thesis using assms c ev by (auto simp: sourced_def source_of_def)
    qed
  next
    case (created ident course_id key new_id start v)
    then have "t_evidence (turn_step u cfg e s) = t_evidence s" by (auto elim!: create_conversation_Inr)
    then show ?thesis using assms c by (simp add: sourced_def source_of_def)
  next
    case (accepted ident cid q key corr env a)
    then have "t_evidence (turn_step u cfg e s) = t_evidence s"
      by (cases rule: accept_Inr) (simp_all add: with_message_def expire_messages_def)
    then show ?thesis using assms c by (simp add: sourced_def source_of_def)
  next
    case (completed mid d now now' x)
    then have "t_evidence (turn_step u cfg e s) = t_evidence s" by (cases rule: complete_Inr) simp
    then show ?thesis using assms c by (simp add: sourced_def source_of_def)
  qed (use assms in \<open>simp_all add: sourced_def source_of_def expire_messages_def fail_message_def\<close>)
qed

interpretation sources: step_invariant "turn_step u cfg" sourced for u cfg
  by unfold_locales (rule sourced_step)

lemma runtime_run_db:
  "\<exists>ts. rt_db (fold (runtime_step u cfg rn) es r) = fold (turn_step u cfg) ts (rt_db r)"
proof (induction es arbitrary: r)
  case Nil
  show ?case by (intro exI [of _ "[]"]) simp
next
  case (Cons e es)
  obtain ts where "rt_db (runtime_step u cfg rn e r) = fold (turn_step u cfg) ts (rt_db r)"
    using runtime_step_db by blast
  moreover obtain ts' where "rt_db (fold (runtime_step u cfg rn) es (runtime_step u cfg rn e r)) =
      fold (turn_step u cfg) ts' (rt_db (runtime_step u cfg rn e r))"
    using Cons.IH by blast
  ultimately show ?case by (intro exI [of _ "ts @ ts'"]) simp
qed

section \<open>A run\<close>

definition chat_request :: tutor_request where
  "chat_request = \<lparr>tr_scope = sample_scope, tr_question = py ''why?'', tr_evidence = [], tr_history = [],
     tr_turn_kind = Question_turn, tr_turn_intent = None, tr_retrieval_query = None, tr_needs_antecedent = False\<rparr>"

definition chat_step :: "(exn, tutor_draft) result \<Rightarrow> runtime_event" where
  "chat_step answer = Advance 21 \<lparr>ad_now = 5, ad_later = 5, ad_answer = answer\<rparr>"

definition chat_rn :: runtime_config where
  "chat_rn = app_runtime ascii_db chat_search (\<lambda>_ _. None) Postgres_retriever"

definition chat_opening :: "runtime_event list" where
  "chat_opening = [Client (Create_conversation chat_ident 3 (Some (py ''k'')) 20 0),
     Ask chat_ident 20 chat_question (Some (py ''q1'')) (py ''r'') chat_env]"

definition chat_turn :: "runtime_event list" where
  "chat_turn = replicate 3 (chat_step (Inl TimeoutError)) @ replicate 4 (chat_step (Inr (sample_draft (py ''ten letters''))))"

lemma chat_opened:
  "\<exists>v. fold (runtime_step ascii_db chat_cfg chat_rn) chat_opening (idle chat_db) =
     \<lparr>rt_db = asked_db, rt_tasks = [21 \<mapsto> \<lparr>tk_accepted = \<lparr>am_message = v, am_created = True,
        am_owner_user_id = 1, am_correlation_id = py ''r''\<rparr>, tk_phase = Requesting, tk_progress = []\<rparr>],
      rt_abandoned = [], rt_invocations = []\<rparr> \<and>
     mv_id v = 21 \<and> message_view_of asked_db chat_message = Inr v"
proof -
  obtain v where v: "accept ascii_db chat_cfg chat_ident 20 chat_question (Some (py ''q1'')) (py ''r'') chat_env chat_asked =
     Inr (\<lparr>am_message = v, am_created = True, am_owner_user_id = 1, am_correlation_id = py ''r''\<rparr>, asked_db)"
    "mv_id v = 21" "message_view_of asked_db chat_message = Inr v"
    using chat_accepted by blast
  have "turn_step ascii_db chat_cfg (Create_conversation chat_ident 3 (Some (py ''k'')) 20 0) chat_db = chat_asked"
    by (simp add: chat_created chat_asked_def)
  then show ?thesis
    using v by (intro exI [of _ v]) (simp add: chat_opening_def idle_def start_task_def)
qed

lemma chat_requested:
  assumes "message_view_of asked_db chat_message = Inr v"
  shows "tutor_request_of \<lparr>am_message = v, am_created = True, am_owner_user_id = 1,
      am_correlation_id = py ''r''\<rparr> [] asked_db = Inr (chat_request, asked_db)"
proof -
  have v: "mv_id v = 21" "mv_corpus_version_id v = Some 8" "mv_course_id v = 3" "mv_conversation_id v = 20"
    "mv_question v = py ''why?''" "mv_sequence v = 1"
    using assms
    by (auto simp: message_view_of_def answer_view_of_def chat_message_def new_message_def chat_env_def
        chat_conversation_def chat_question_def)
  have m: "t_messages asked_db = [chat_message]" "ms_id chat_message = 21" "ms_sequence chat_message = 1"
    "ms_kind chat_message = Question_turn" "ms_intent chat_message = None" "ms_retrieval_query chat_message = None"
    by (simp_all add: asked_db_def chat_message_def new_message_def chat_env_def chat_conversation_def)
  show ?thesis
    by (simp add: tutor_request_of_def v m scope_of_def previous_messages_def chat_request_def sample_scope_def)
qed

lemma chat_validated:
  "rn_validate chat_rn (sample_draft (py ''ten letters'')) (chat_request\<lparr>tr_evidence := [sample_evidence]\<rparr>) =
     Inr (sample_draft (py ''Ten Letters''))"
proof -
  have "validate_response u d (chat_request\<lparr>tr_evidence := [sample_evidence]\<rparr>) = validate_response u d sample_tutor_request"
    for u d
  proof -
    have "validate_evidence u x (chat_request\<lparr>tr_evidence := [sample_evidence]\<rparr>) = validate_evidence u x sample_tutor_request"
      for x
      by (simp add: validate_evidence_def chat_request_def sample_tutor_request_def)
    then show ?thesis by (simp only: validate_response_def)
  qed
  then show ?thesis using sample_draft_repaired by (simp add: chat_rn_def app_runtime_def)
qed

lemma chat_found:
  "postgres_retrieve (rn_text chat_rn) 5 (tr_scope chat_request) (query_of chat_request) asked_db = Inr [sample_evidence]"
proof -
  have "query_of chat_request = py ''why?''" by (simp add: query_of_def chat_request_def or_else_def)
  then show ?thesis
    using asked_retrieved by (simp add: retrieve_with_def chat_rn_def app_runtime_def chat_request_def)
qed

lemma chat_taught:
  "\<exists>r. fold (runtime_step ascii_db chat_cfg chat_rn) (chat_opening @ chat_turn) (idle chat_db) = r \<and>
     rt_db r = answered_db \<and> rt_tasks r 21 = None \<and>
     rt_invocations r = [chat_request\<lparr>tr_evidence := [sample_evidence]\<rparr>]"
proof -
  obtain v where v: "fold (runtime_step ascii_db chat_cfg chat_rn) chat_opening (idle chat_db) =
     \<lparr>rt_db = asked_db, rt_tasks = [21 \<mapsto> \<lparr>tk_accepted = \<lparr>am_message = v, am_created = True,
        am_owner_user_id = 1, am_correlation_id = py ''r''\<rparr>, tk_phase = Requesting, tk_progress = []\<rparr>],
      rt_abandoned = [], rt_invocations = []\<rparr>" "mv_id v = 21" "message_view_of asked_db chat_message = Inr v"
    using chat_opened by blast
  have k: "rn_retriever chat_rn = Postgres_retriever" by (simp add: chat_rn_def app_runtime_def)
  have a: "after_request chat_rn chat_request = ([''retrieval.started''], Retrieving chat_request)"
    by (simp add: after_request_def chat_request_def)
  show ?thesis
    by (simp add: v chat_turn_def chat_step_def numeral_eq_Suc chat_requested [OF v(3)] a go_on_def k chat_found
        after_retrieval_def chat_saved after_save_def reporting_def validate_draft_def chat_validated
        chat_completed moved_def invoked_def)
qed


section \<open>Promises\<close>

text \<open>C7: whatever the model writes, the answers students see are backed by their course. After any
  interleaving of clients, tasks, interruptions and late transactions, a completed message is
  grounded exactly if it has citations; every citation is a verbatim part of a stored chunk of the
  course and corpus its question was asked against, which was recorded as evidence for that very
  question; and a failed message carries one of the codes a client may see.\<close>

theorem answers_quote_sources:
  assumes "t_conversations s0 = []" "t_messages s0 = []" "t_evidence s0 = []" "t_citations s0 = []"
    "s = rt_db (fold (runtime_step u cfg (app_runtime u' ts cosine kind)) es (idle s0))"
  shows "(\<forall>m \<in> set (t_messages s).
       (case ms_failure_code m of None \<Rightarrow> ms_state m \<noteq> MSG_FAILED | Some code \<Rightarrow> code \<in> stored_codes) \<and>
       (ms_state m = MSG_COMPLETED \<longrightarrow>
          ms_grounded m = Some (\<exists>c \<in> set (t_citations s). ct_message_id c = ms_id m))) \<and>
    (\<forall>c \<in> set (t_citations s). \<exists>m \<in> set (t_messages s). \<exists>e \<in> set (t_evidence s). \<exists>k \<in> set (t_chunks s).
       ms_id m = ct_message_id c \<and> ms_state m = MSG_COMPLETED \<and> re_message_id e = ms_id m \<and> source_of s e k \<and>
       ch_id k = ct_chunk_id c \<and> ch_course_id k = ms_course_id m \<and>
       Some (ch_corpus_version_id k) = ms_corpus_version_id m \<and> sublist (ct_quote c) (ch_content k))"
proof -
  have "rt_inv (fold (runtime_step u cfg (app_runtime u' ts cosine kind)) es (idle s0))"
    by (rule app.runs.inv_run [OF idle_inv [OF assms(1-4)]])
  then have ok: "db_ok s" by (simp add: rt_inv_def assms(5))
  then have inv: "conv_inv s" by (simp add: db_ok_def)
  have src: "sourced s"
  proof -
    obtain ts' where "s = fold (turn_step u cfg) ts' s0"
      using runtime_run_db [of u cfg "app_runtime u' ts cosine kind" es "idle s0"] assms(5) by (auto simp: idle_def)
    then show ?thesis using sources.inv_run [of s0] assms(3) by (simp add: sourced_def)
  qed
  have "(case ms_failure_code m of None \<Rightarrow> ms_state m \<noteq> MSG_FAILED | Some code \<Rightarrow> code \<in> stored_codes) \<and>
       (ms_state m = MSG_COMPLETED \<longrightarrow> ms_grounded m = Some (\<exists>c \<in> set (t_citations s). ct_message_id c = ms_id m))"
    if m: "m \<in> set (t_messages s)" for m
  proof -
    have "answer_ok s m" "ck_terminal_payload m" using ok m inv by (auto simp: db_ok_def conv_inv_def row_ok_def)
    then show ?thesis by (auto simp: answer_ok_def ck_terminal_payload_def split: option.splits)
  qed
  moreover have "\<exists>m \<in> set (t_messages s). \<exists>e \<in> set (t_evidence s). \<exists>k \<in> set (t_chunks s).
       ms_id m = ct_message_id c \<and> ms_state m = MSG_COMPLETED \<and> re_message_id e = ms_id m \<and> source_of s e k \<and>
       ch_id k = ct_chunk_id c \<and> ch_course_id k = ms_course_id m \<and>
       Some (ch_corpus_version_id k) = ms_corpus_version_id m \<and> sublist (ct_quote c) (ch_content k)"
    if c: "c \<in> set (t_citations s)" for c
  proof -
    obtain m where m: "m \<in> set (t_messages s)" "ms_id m = ct_message_id c" "ms_state m = MSG_COMPLETED"
      using inv c by (auto simp: conv_inv_def citation_of_def)
    obtain e where e: "e \<in> set (t_evidence s)" "re_message_id e = ct_message_id c" "re_chunk_id e = ct_chunk_id c"
      "sublist (ct_quote c) (re_content e)"
      using ok c by (auto simp: db_ok_def quote_ok_def)
    obtain k where k: "k \<in> set (t_chunks s)" "source_of s e k" using src e(1) by (auto simp: sourced_def)
    obtain m' where m': "m' \<in> set (t_messages s)" "ms_id m' = re_message_id e" "ms_course_id m' = re_course_id e"
      "ms_corpus_version_id m' = Some (re_corpus_version_id e)"
      using inv e(1) by (auto simp: conv_inv_def evidence_of_def)
    have "m' = m"
      using key_eqD [of ms_id "t_messages s" m' m] inv m m' e(2) by (simp add: conv_inv_def message_keys_def)
    then show ?thesis using m e k m' by (intro bexI [of _ m] bexI [of _ e] bexI [of _ k]) (simp_all add: source_of_def)
  qed
  ultimately show ?thesis by blast
qed

theorem answers_quote_sources_witness:
  "\<exists>k \<in> set (t_chunks answered_db). sublist (py ''Ten Letters'') (ch_content k)"
proof -
  have s: "answered_db = rt_db (fold (runtime_step ascii_db chat_cfg
      (app_runtime ascii_db chat_search (\<lambda>_ _. None) Postgres_retriever)) (chat_opening @ chat_turn) (idle chat_db))"
    using chat_taught by (simp add: chat_rn_def)
  have c: "\<lparr>ct_message_id = 21, ct_chunk_id = 7, ct_course_id = 3, ct_ordinal = 0, ct_quote = py ''Ten Letters''\<rparr>
      \<in> set (t_citations answered_db)"
    by (simp add: answered_db_def)
  from answers_quote_sources [OF chat_db_start s] c show ?thesis by force
qed

text \<open>C9: the tutor model is given each question at most once, never without evidence, and only with
  evidence that is recorded for that question; a timeout, an outage or a late transaction never
  repeats the call.\<close>

theorem model_called_once:
  assumes "t_conversations s0 = []" "t_messages s0 = []" "t_evidence s0 = []" "t_citations s0 = []"
    "r = fold (runtime_step u cfg (app_runtime u' ts cosine kind)) es (idle s0)"
  shows "distinct (map (\<lambda>req. rs_message_id (tr_scope req)) (rt_invocations r)) \<and>
    (\<forall>req \<in> set (rt_invocations r). tr_evidence req \<noteq> [] \<and>
       (\<exists>m \<in> set (t_messages (rt_db r)). ms_id m = rs_message_id (tr_scope req)) \<and>
       (\<forall>i \<in> set (tr_evidence req). evidence_row (rs_message_id (tr_scope req)) i \<in> set (t_evidence (rt_db r))))"
proof -
  have "rt_inv r" unfolding assms(5) by (rule app.runs.inv_run [OF idle_inv [OF assms(1-4)]])
  then show ?thesis by (auto simp: rt_inv_def invocation_ok_def recorded_def known_def req_id_def [abs_def] image_iff) metis
qed

theorem model_called_once_witness:
  "evidence_row 21 sample_evidence \<in> set (t_evidence answered_db)"
proof -
  obtain r where r: "r = fold (runtime_step ascii_db chat_cfg
      (app_runtime ascii_db chat_search (\<lambda>_ _. None) Postgres_retriever)) (chat_opening @ chat_turn) (idle chat_db)"
    "rt_db r = answered_db" "rt_invocations r = [chat_request\<lparr>tr_evidence := [sample_evidence]\<rparr>]"
    using chat_taught by (auto simp: chat_rn_def)
  from model_called_once [OF chat_db_start r(1)] r(2,3)
  show ?thesis by (simp add: chat_request_def sample_scope_def)
qed

text \<open>C8: every question ends. A task is over after at most seven steps, interrupted or not; if it was
  not interrupted its question is then answered or failed, whatever else happened; and the reaper
  fails every question that is still pending at its deadline.\<close>

theorem every_question_ends:
  assumes "t_conversations s0 = []" "t_messages s0 = []" "t_evidence s0 = []" "t_citations s0 = []"
    "r = fold (runtime_step u cfg (app_runtime u' ts cosine kind)) es (idle s0)"
    "rt_tasks r mid = Some t" "7 \<le> length (filter (drives mid) es')"
    "r' = fold (runtime_step u cfg (app_runtime u' ts cosine kind)) es' r"
  shows "rt_tasks r' mid = None \<and>
    (if \<exists>e \<in> set es'. interrupts mid e then True
     else \<forall>m \<in> set (t_messages (rt_db r')). ms_id m = mid \<longrightarrow> ms_state m \<noteq> MSG_PENDING) \<and>
    (\<forall>m \<in> set (t_messages (turn_step u cfg (Expire now) (rt_db r'))). ms_deadline_at m \<le> now \<longrightarrow>
       ms_state m \<noteq> MSG_PENDING)"
proof -
  have inv: "rt_inv r" unfolding assms(5) by (rule app.runs.inv_run [OF idle_inv [OF assms(1-4)]])
  then have kn: "known (rt_db r) mid" using assms(6) by (simp add: rt_inv_def task_ok_def)
  have "steps_left r mid \<le> 7" using assms(6) by (cases "tk_phase t") (simp_all add: steps_left_def)
  then have "steps_left r' mid = 0"
    using app.steps_left_run [OF inv kn, of u cfg u' ts cosine kind es'] assms(7,8) by simp
  moreover have pos: "rank p \<noteq> 0" for p by (cases p) simp_all
  ultimately have none: "rt_tasks r' mid = None" by (auto simp only: steps_left_def pos split: option.splits)
  have "settled (rt_db r') mid" if "\<not> (\<exists>e \<in> set es'. interrupts mid e)"
    using app.settled_run [OF inv kn, of es' u cfg u' ts cosine kind] assms(6,8) that none by simp
  then show ?thesis
    using none
    by (auto simp: settled_def is_pending_def expire_messages_def set_update_where expired_def failed_with_def)
qed

theorem every_question_ends_witness:
  "\<exists>r :: conversation_runtime. rt_tasks r 21 = None \<and> rt_db r = answered_db \<and> (\<forall>m \<in> set (t_messages answered_db). ms_state m = MSG_COMPLETED)"
proof -
  let ?rn = "app_runtime ascii_db chat_search (\<lambda>_ _. None) Postgres_retriever"
  obtain v where v: "rt_tasks (fold (runtime_step ascii_db chat_cfg ?rn) chat_opening (idle chat_db)) 21 = Some v"
    using chat_opened by (auto simp: chat_rn_def)
  have n: "7 \<le> length (filter (drives 21) chat_turn)" by (simp add: chat_turn_def chat_step_def)
  define r where "r = fold (runtime_step ascii_db chat_cfg ?rn) chat_turn
      (fold (runtime_step ascii_db chat_cfg ?rn) chat_opening (idle chat_db))"
  have "rt_tasks r 21 = None" using every_question_ends [OF chat_db_start refl v n r_def] by blast
  moreover have "rt_db r = answered_db" using chat_taught by (auto simp: r_def chat_rn_def)
  moreover have "\<forall>m \<in> set (t_messages answered_db). ms_state m = MSG_COMPLETED"
    by (simp add: answered_db_def completed_with_def Let_def sample_draft_def)
  ultimately show ?thesis by blast
qed

end
