(* ===== verification/Conversation_Routes.thy ===== *)
theory Conversation_Routes
  imports Tutoring
begin

text \<open>
  \<^verbatim>\<open>conversation_routes.py\<close> and the correlation identifier of \<^verbatim>\<open>main.py\<close>: errors of the storage,
  the question an action stands for, and the events a client of a question is sent.
\<close>

section \<open>Requests\<close>

text \<open>\<open>_database_call\<close>.\<close>

definition database_call :: "(exn, 'a) result \<Rightarrow> (exn, 'a) result" where
  "database_call r =
     (case r of Inr x \<Rightarrow> Inr x
      | Inl e \<Rightarrow> if is_sqlalchemy_error e then Inl (APIError 503 ''persistence_unavailable'') else Inl e)"

text \<open>\<open>perform_action\<close> up to the call of \<open>ask_question\<close>.\<close>

definition action_question :: "action_request \<Rightarrow> (exn, question_request) result" where
  "action_question payload =
     make_question_request
       (or_else (ar_question payload)
         (if ar_action payload = Intent_another_hint then py ''Otra pista'' else py ''Expl'' @ [237] @ py ''came eso''))
       Action_turn (Some (ar_action payload)) (Some (ar_parent_message_id payload))"

text \<open>The identifier a client may supply; \<open>fresh\<close> is \<open>str(uuid4())\<close>.\<close>

definition request_id_char :: "nat \<Rightarrow> bool" where
  "request_id_char c \<longleftrightarrow> c < 128 \<and> (48 \<le> c \<and> c \<le> 57 \<or> 65 \<le> c \<and> c \<le> 90 \<or> 97 \<le> c \<and> c \<le> 122 \<or> c \<in> {45, 46, 95})"

definition request_id :: "pystr \<Rightarrow> pystr \<Rightarrow> pystr" where
  "request_id supplied fresh_id =
     (if 0 < length supplied \<and> length supplied \<le> 100 \<and> list_all request_id_char supplied then supplied else fresh_id)"

text \<open>C20: an accepted action is asked as an action about the answer it names, with the intent and a
  question that is never blank, unless the client sent a text of white space only: then the
  question is refused by a validation error raised inside the handler.\<close>

theorem action_question_outcome:
  assumes "make_action_request act parent q = Inr payload"
  shows "if \<exists>t. q = Some t \<and> t \<noteq> [] \<and> strip t = [] then \<exists>x. action_question payload = Inl (ValueError x)
    else \<exists>req. action_question payload = Inr req \<and> qr_kind req = Action_turn \<and>
      qr_parent_message_id req = Some parent \<and> qr_intent req = Some act \<and> strip (qr_question req) \<noteq> [] \<and>
      (case q of None \<Rightarrow> True | Some t \<Rightarrow> t = [] \<or> qr_question req = t)"
proof -
  have p: "payload = \<lparr>ar_action = act, ar_parent_message_id = parent, ar_question = q\<rparr>"
    "case q of None \<Rightarrow> True | Some t \<Rightarrow> length t \<le> 4000"
    using assms by (auto simp: make_action_request_def split: if_splits option.splits)
  have d: "strip (py ''Otra pista'') \<noteq> []" "strip (py ''Expl'' @ [237] @ py ''came eso'') \<noteq> []"
    "len_between 1 4000 (py ''Otra pista'')" "len_between 1 4000 (py ''Expl'' @ [237] @ py ''came eso'')"
    by (simp_all add: strip_Nil_iff py_def is_space_def len_between_def)
  have l: "len_between 1 4000 t" if "q = Some t" "t \<noteq> []" for t
    using p(2) that by (cases t) (auto simp: len_between_def)
  show ?thesis
    using d l by (cases q) (auto simp: action_question_def make_question_request_def p or_else_def)
qed

theorem action_question_outcome_witness:
  "\<exists>payload x. make_action_request Intent_explain 7 (Some (py '' '')) = Inr payload \<and>
     action_question payload = Inl (ValueError x)"
proof -
  have "make_action_request Intent_explain 7 (Some (py '' '')) =
      Inr \<lparr>ar_action = Intent_explain, ar_parent_message_id = 7, ar_question = Some (py '' '')\<rparr>"
    by (simp add: make_action_request_def py_def)
  moreover from action_question_outcome [OF this]
  have "\<exists>x. action_question \<lparr>ar_action = Intent_explain, ar_parent_message_id = 7, ar_question = Some (py '' '')\<rparr> =
      Inl (ValueError x)"
    by (simp add: strip_Nil_iff py_def is_space_def)
  ultimately show ?thesis by blast
qed

section \<open>The events of a question\<close>

datatype sse = Accepted message_view | Progress string | Terminal message_view | Heartbeat

text \<open>A poll is the outcome of reading the message and the progress reported so far; the stream ends
  with the polls when the client goes away, and silently when a read fails.\<close>

type_synonym poll = "(exn, message_view) result \<times> string list"

fun stream :: "nat \<Rightarrow> nat \<Rightarrow> poll list \<Rightarrow> sse list" where
  "stream seen heartbeat [] = []"
| "stream seen heartbeat ((Inl e, progress) # polls) = []"
| "stream seen heartbeat ((Inr current, progress) # polls) =
     map Progress (drop seen progress) @
     (if mv_state current \<noteq> MSG_PENDING then [Terminal current]
      else (if Suc heartbeat mod 50 = 0 then [Heartbeat] else []) @ stream (length progress) (Suc heartbeat) polls)"

definition events :: "message_view \<Rightarrow> poll list \<Rightarrow> sse list" where
  "events accepted polls = Accepted accepted # stream 0 0 polls"

text \<open>The polls the stream consumes.\<close>

fun consumed :: "poll list \<Rightarrow> poll list" where
  "consumed [] = []"
| "consumed ((Inl e, progress) # polls) = []"
| "consumed ((Inr v, progress) # polls) =
     (Inr v, progress) # (if mv_state v \<noteq> MSG_PENDING then [] else consumed polls)"

definition phases_of :: "sse list \<Rightarrow> string list" where
  "phases_of es = concat (map (\<lambda>e. case e of Progress p \<Rightarrow> [p] | _ \<Rightarrow> []) es)"

definition terminals_of :: "sse list \<Rightarrow> message_view list" where
  "terminals_of es = concat (map (\<lambda>e. case e of Terminal v \<Rightarrow> [v] | _ \<Rightarrow> []) es)"

lemma phases_of_simps [simp]:
  "phases_of [] = []" "phases_of (xs @ ys) = phases_of xs @ phases_of ys" "phases_of (map Progress ps) = ps"
  "phases_of (Progress p # es) = p # phases_of es" "phases_of (Terminal v # es) = phases_of es"
  "phases_of (Heartbeat # es) = phases_of es" "phases_of (Accepted v # es) = phases_of es"
  by (induction ps) (simp_all add: phases_of_def)

lemma terminals_of_simps [simp]:
  "terminals_of [] = []" "terminals_of (xs @ ys) = terminals_of xs @ terminals_of ys" "terminals_of (map Progress ps) = []"
  "terminals_of (Progress p # es) = terminals_of es" "terminals_of (Terminal v # es) = v # terminals_of es"
  "terminals_of (Heartbeat # es) = terminals_of es" "terminals_of (Accepted v # es) = terminals_of es"
  by (induction ps) (simp_all add: terminals_of_def)

lemma stream_phases:
  assumes "sorted_wrt prefix (p0 # map snd polls)"
  shows "p0 @ phases_of (stream (length p0) k polls) = last (p0 # map snd (consumed polls))"
  using assms
proof (induction polls arbitrary: p0 k)
  case (Cons x polls)
  obtain r p where x: "x = (r, p)" by (cases x)
  have pre: "prefix p0 p" "sorted_wrt prefix (p # map snd polls)" using Cons.prems by (simp_all add: x)
  then have p: "p0 @ drop (length p0) p = p" by (auto elim: prefixE)
  show ?case
  proof (cases r)
    case (Inr v)
    have "p0 @ phases_of (stream (length p0) k (x # polls)) =
        p @ (if mv_state v = MSG_PENDING then phases_of (stream (length p) (Suc k) polls) else [])"
      using p by (simp add: x Inr flip: append_assoc)
    then show ?thesis using Cons.IH [OF pre(2), of "Suc k"] by (cases "mv_state v = MSG_PENDING") (simp_all add: x Inr)
  qed (simp add: x)
qed simp

lemma stream_terminals:
  "terminals_of (stream n k polls) = (case rev (consumed polls) of
     (Inr v, _) # _ \<Rightarrow> if mv_state v \<noteq> MSG_PENDING then [v] else [] | _ \<Rightarrow> [])"
proof (induction polls arbitrary: n k rule: consumed.induct)
  case (3 v progress polls)
  show ?case
  proof (cases "mv_state v = MSG_PENDING")
    case True
    show ?thesis
    proof (cases "consumed polls")
      case Nil
      then show ?thesis using 3 True by (simp split: if_splits)
    next
      case (Cons y ys)
      then obtain z zs where "rev (consumed polls) = z # zs" by (cases "rev (consumed polls)") auto
      then show ?thesis using 3 True by (auto split: prod.splits sum.splits)
    qed
  qed simp
qed simp_all

lemma terminals_of_butlast: "terminals_of xs = [] \<Longrightarrow> terminals_of (butlast xs) = []"
  by (cases xs rule: rev_cases) simp_all

lemma stream_last_terminal: "terminals_of (butlast (stream n k polls)) = []"
proof (induction polls arbitrary: n k rule: consumed.induct)
  case (3 current progress polls)
  let ?ps = "map Progress (drop n progress)"
  show ?case
  proof (cases "mv_state current = MSG_PENDING")
    case True
    let ?h = "if Suc k mod 50 = 0 then [Heartbeat] else []"
    have "terminals_of (?ps @ ?h) = []" by simp
    then show ?thesis
      using True 3 terminals_of_butlast [of "?ps @ ?h"]
      by (cases "stream (length progress) (Suc k) polls = []") (simp_all add: butlast_append)
  qed (simp add: butlast_append)
qed simp_all

text \<open>C19: clients see what happened, in order and once. If the progress reported so far only grows,
  the phases sent are exactly those of the last successful poll; at most one terminal event is
  sent, it is the last event, and it shows the outcome read from the database by the poll that
  found the message no longer pending: a failed read never ends in a terminal event.\<close>

theorem events_faithful:
  assumes "sorted_wrt prefix (map snd polls)"
  shows "phases_of (events a polls) = last ([] # map snd (consumed polls)) \<and>
    terminals_of (events a polls) = (case rev (consumed polls) of
       (Inr v, _) # _ \<Rightarrow> if mv_state v \<noteq> MSG_PENDING then [v] else [] | _ \<Rightarrow> []) \<and>
    terminals_of (butlast (events a polls)) = []"
proof (intro conjI)
  show "phases_of (events a polls) = last ([] # map snd (consumed polls))"
    using stream_phases [of "[]" polls 0] assms by (simp add: events_def)
  show "terminals_of (events a polls) = (case rev (consumed polls) of
       (Inr v, _) # _ \<Rightarrow> if mv_state v \<noteq> MSG_PENDING then [v] else [] | _ \<Rightarrow> [])"
    by (simp add: events_def stream_terminals)
  show "terminals_of (butlast (events a polls)) = []"
    using stream_last_terminal [of 0 0 polls] by (simp add: events_def)
qed

theorem events_faithful_witness:
  "\<exists>v w. message_view_of asked_db chat_message = Inr v \<and> mv_state w = MSG_COMPLETED \<and>
     phases_of (events v [(Inr v, [''retrieval.started'']), (Inr w, [''retrieval.started'', ''validation.started''])]) =
       [''retrieval.started'', ''validation.started''] \<and>
     terminals_of (events v [(Inr v, [''retrieval.started'']), (Inr w, [''retrieval.started'', ''validation.started''])]) = [w]"
proof -
  obtain v where v: "message_view_of asked_db chat_message = Inr v" using chat_accepted by blast
  then have p: "mv_state v = MSG_PENDING"
    by (auto simp: message_view_of_def answer_view_of_def chat_message_def new_message_def)
  define w where "w = v\<lparr>mv_state := MSG_COMPLETED\<rparr>"
  have w: "mv_state w = MSG_COMPLETED" by (simp add: w_def)
  let ?polls = "[(Inr v, [''retrieval.started'']), (Inr w, [''retrieval.started'', ''validation.started''])]"
  have "sorted_wrt prefix (map snd ?polls)" by simp
  from events_faithful [OF this, of v] show ?thesis using v w p by (intro exI [of _ v] exI [of _ w]) simp
qed

end
