(* ===== verification/Config.thy ===== *)
theory Config
  imports Embedding_Http Object_Storage Worker_Pool Conversation_Routes
begin

text \<open>
  \<^verbatim>\<open>config.py\<close>, \<open>build_embedder\<close> of \<^verbatim>\<open>embedding_http.py\<close>, and what \<^verbatim>\<open>main.py\<close> and \<^verbatim>\<open>worker.py\<close> build from the
  settings. Values come parsed from the environment: URLs with their parts, secrets as their text.
\<close>

section \<open>Settings\<close>

datatype environment = Env_development | Env_test | Env_production

datatype schema_profile = Schema_standard | Schema_llama_cpp

datatype tutor_provider = Provider_chat_completions | Provider_unsloth

datatype input_types = Input_off | Input_nvidia

text \<open>\<open>None\<close> is a part the URL does not have.\<close>

record url =
  ul_text :: pystr
  ul_scheme :: pystr
  ul_username :: "pystr option"
  ul_password :: "pystr option"
  ul_query :: "pystr option"
  ul_fragment :: "pystr option"

record settings =
  environment :: environment
  database_url :: pystr
  storage_health_url :: url
  dependency_timeout_seconds :: int
  oidc_issuer :: "url option"
  oidc_audience :: "pystr option"
  oidc_jwks_url :: "url option"
  s3_endpoint_url :: "url option"
  s3_public_endpoint_url :: "url option"
  s3_access_key :: "pystr option"
  s3_secret_key :: "pystr option"
  s3_bucket :: pystr
  s3_region_name :: pystr
  upload_ttl_seconds :: int
  max_document_bytes :: int
  max_document_pages :: int
  chunk_size_characters :: int
  chunk_overlap_characters :: int
  pipeline_version :: pystr
  redis_url :: pystr
  redis_stream :: pystr
  redis_group :: pystr
  job_lease_seconds :: int
  job_max_attempts :: int
  job_retry_base_seconds :: rat
  job_reconcile_seconds :: int
  tutor_endpoint_url :: "url option"
  tutor_model_name :: "pystr option"
  tutor_api_key :: "pystr option"
  tutor_timeout_seconds :: int
  tutor_max_output_tokens :: int
  tutor_schema_profile :: schema_profile
  tutor_provider :: tutor_provider
  message_timeout_seconds :: int
  retrieval_mode :: retrieval_mode
  embed_endpoint_url :: "url option"
  embed_model :: "pystr option"
  embed_api_key :: "pystr option"
  embed_dimensions :: "int option"
  embed_timeout_seconds :: int
  embed_batch_size :: int
  embed_query_template :: pystr
  embed_document_template :: pystr
  embed_input_type :: input_types
  embed_provider_routing :: "(pystr \<times> json) list option"
  dense_max_distance :: "rat option"

section \<open>Validation\<close>

definition between :: "'a :: linorder \<Rightarrow> 'a \<Rightarrow> 'a \<Rightarrow> bool" where
  "between lo hi x \<longleftrightarrow> lo \<le> x \<and> x \<le> hi"

fun given :: "('a \<Rightarrow> bool) \<Rightarrow> 'a option \<Rightarrow> bool" where
  "given p None = True"
| "given p (Some x) = p x"

text \<open>The constraints of the fields.\<close>

definition fields_ok :: "settings \<Rightarrow> bool" where
  "fields_ok s \<longleftrightarrow>
     between 1 30 (dependency_timeout_seconds s) \<and> given (\<lambda>a. a \<noteq> []) (oidc_audience s) \<and>
     given (\<lambda>k. k \<noteq> []) (s3_access_key s) \<and> between 3 63 (length (s3_bucket s)) \<and> s3_region_name s \<noteq> [] \<and>
     between 60 3600 (upload_ttl_seconds s) \<and> 0 < max_document_bytes s \<and> between 1 2000 (max_document_pages s) \<and>
     between 400 8000 (chunk_size_characters s) \<and> between 0 1000 (chunk_overlap_characters s) \<and>
     between 1 100 (length (pipeline_version s)) \<and> redis_stream s \<noteq> [] \<and> redis_group s \<noteq> [] \<and>
     between 1 3600 (job_lease_seconds s) \<and> between 1 10 (job_max_attempts s) \<and>
     0 < job_retry_base_seconds s \<and> job_retry_base_seconds s \<le> 60 \<and> between 1 300 (job_reconcile_seconds s) \<and>
     given (\<lambda>m. between 1 255 (length m)) (tutor_model_name s) \<and> between 1 179 (tutor_timeout_seconds s) \<and>
     between 128 8000 (tutor_max_output_tokens s) \<and> between 5 180 (message_timeout_seconds s) \<and>
     given (\<lambda>m. between 1 MAX_EMBED_MODEL_LENGTH (length m)) (embed_model s) \<and>
     given (between 1 (int MAX_EMBEDDING_DIMENSIONS)) (embed_dimensions s) \<and>
     between 1 60 (embed_timeout_seconds s) \<and> between 1 256 (embed_batch_size s) \<and>
     given (\<lambda>d. 0 < d \<and> d \<le> 2) (dense_max_distance s)"

definition count_given :: "bool list \<Rightarrow> nat" where
  "count_given xs = length (filter id xs)"

definition url_extra :: "url \<Rightarrow> bool" where
  "url_extra x \<longleftrightarrow> list_ex (\<lambda>p. case p of None \<Rightarrow> False | Some t \<Rightarrow> t \<noteq> [])
     [ul_username x, ul_password x, ul_query x, ul_fragment x]"

text \<open>\<open>Some\<close> is the message of the \<open>ValueError\<close>; the first that applies is raised.\<close>

fun first_error :: "(bool \<times> string) list \<Rightarrow> (exn, unit) result" where
  "first_error [] = Inr ()"
| "first_error ((wrong, message) # rest) = (if wrong then Inl (ValueError message) else first_error rest)"

definition production :: "settings \<Rightarrow> bool" where
  "production s \<longleftrightarrow> environment s = Env_production"

definition embedder_values :: "settings \<Rightarrow> nat" where
  "embedder_values s = count_given [embed_endpoint_url s \<noteq> None, embed_model s \<noteq> None, embed_api_key s \<noteq> None,
     embed_dimensions s \<noteq> None]"

definition free_model :: "unicode_db \<Rightarrow> pystr \<Rightarrow> bool" where
  "free_model u m \<longleftrightarrow> ends_with (py '':free'') (lower u (filter (\<lambda>c. \<not> is_space c) m))"

definition validate_embedder_configuration :: "unicode_db \<Rightarrow> settings \<Rightarrow> (exn, unit) result" where
  "validate_embedder_configuration u s =
     bindE (first_error
       [(embedder_values s \<notin> {0, 4}, ''Embedding endpoint, model, API key and dimensions must be configured together''),
        (retrieval_mode s = Dense \<and> embedder_values s = 0, ''Dense retrieval requires an embedder configuration''),
        (retrieval_mode s = Dense \<and> dense_max_distance s = None, ''Dense retrieval requires a maximum distance threshold''),
        (py_count TEXT_PLACEHOLDER (embed_query_template s) \<noteq> 1, ''Embedding templates must contain {text} exactly once''),
        (py_count TEXT_PLACEHOLDER (embed_document_template s) \<noteq> 1, ''Embedding templates must contain {text} exactly once''),
        (case embed_provider_routing s of None \<Rightarrow> False
           | Some r \<Rightarrow> r = [] \<or> map_of r (py ''allow_fallbacks'') \<noteq> Some (JBool False),
         ''Embedding provider routing must set allow_fallbacks to false'')])
     (\<lambda>_. if embedder_values s = 0 then Inr ()
          else first_error
       [(strip (the (embed_api_key s)) = [], ''Embedding API key must not be blank''),
        (url_extra (the (embed_endpoint_url s)), ''Embedding endpoint must not contain credentials, query or fragment''),
        (production s \<and> ul_scheme (the (embed_endpoint_url s)) \<noteq> py ''https'', ''Embedding endpoint requires HTTPS in production''),
        (production s \<and> free_model u (the (embed_model s)), ''Free embedding model variants are not allowed in production''),
        (retrieval_mode s = Dense \<and> embed_timeout_seconds s + tutor_timeout_seconds s \<ge> message_timeout_seconds s,
         ''Embedding plus tutor timeout must be shorter than message timeout'')])"

definition validate_tutor_configuration :: "settings \<Rightarrow> (exn, unit) result" where
  "validate_tutor_configuration s = first_error
     [(count_given [tutor_endpoint_url s \<noteq> None, tutor_model_name s \<noteq> None, tutor_api_key s \<noteq> None] \<notin> {0, 3},
       ''Tutor endpoint, model and API key must be configured together''),
      (case tutor_api_key s of None \<Rightarrow> False | Some k \<Rightarrow> strip k = [], ''Tutor API key must not be blank''),
      (tutor_timeout_seconds s \<ge> message_timeout_seconds s, ''Tutor timeout must be shorter than message timeout''),
      (case tutor_endpoint_url s of None \<Rightarrow> False | Some x \<Rightarrow> url_extra x,
       ''Tutor endpoint must not contain credentials, query or fragment''),
      (case tutor_endpoint_url s of None \<Rightarrow> False | Some x \<Rightarrow> production s \<and> ul_scheme x \<noteq> py ''https'',
       ''Tutor endpoint requires HTTPS in production'')]"

text \<open>\<open>urlsplit\<close> gives scheme and host name of the URL, or raises \<open>ValueError\<close> (\<open>None\<close>).\<close>

definition validate_redis_configuration :: "(pystr \<Rightarrow> (pystr \<times> pystr option) option) \<Rightarrow> settings \<Rightarrow> (exn, unit) result" where
  "validate_redis_configuration urlsplit s =
     (case urlsplit (redis_url s) of
        None \<Rightarrow> Inl (ValueError ''Invalid URL'')
      | Some (scheme, hostname) \<Rightarrow>
          if scheme \<notin> {py ''redis'', py ''rediss''} \<or> hostname \<in> {None, Some []}
          then Inl (ValueError ''Redis URL must use redis or rediss with a hostname'') else Inr ())"

definition oidc_values :: "settings \<Rightarrow> nat" where
  "oidc_values s = count_given [oidc_issuer s \<noteq> None, oidc_audience s \<noteq> None, oidc_jwks_url s \<noteq> None]"

definition storage_values :: "settings \<Rightarrow> nat" where
  "storage_values s = count_given [s3_endpoint_url s \<noteq> None, s3_access_key s \<noteq> None, s3_secret_key s \<noteq> None]"

definition validate_oidc_configuration :: "settings \<Rightarrow> (exn, unit) result" where
  "validate_oidc_configuration s = first_error
     [(oidc_values s \<notin> {0, 3}, ''OIDC issuer, audience and JWKS URL must be configured together''),
      (production s \<and> oidc_values s = 0, ''OIDC configuration is required in production''),
      (storage_values s \<notin> {0, 3}, ''S3 endpoint, access key and secret key must be configured together''),
      (production s \<and> storage_values s = 0, ''S3-compatible object storage is required in production''),
      (s3_public_endpoint_url s \<noteq> None \<and> storage_values s \<noteq> 3, ''Public S3 endpoint requires configured object storage''),
      (case s3_public_endpoint_url s of None \<Rightarrow> False | Some x \<Rightarrow> production s \<and> ul_scheme x \<noteq> py ''https'',
       ''Public S3 endpoint requires HTTPS in production''),
      (chunk_overlap_characters s \<ge> chunk_size_characters s, ''chunk overlap must be smaller than chunk size'')]"

definition make_settings ::
  "unicode_db \<Rightarrow> (pystr \<Rightarrow> (pystr \<times> pystr option) option) \<Rightarrow> settings \<Rightarrow> (exn, settings) result" where
  "make_settings u urlsplit s =
     (if \<not> fields_ok s then Inl (ValueError ''field constraint'')
      else bindE (validate_embedder_configuration u s) (\<lambda>_.
           bindE (validate_tutor_configuration s) (\<lambda>_.
           bindE (validate_redis_configuration urlsplit s) (\<lambda>_.
           bindE (validate_oidc_configuration s) (\<lambda>_. Inr s)))))"

definition embedder_configured :: "settings \<Rightarrow> bool" where
  "embedder_configured s \<longleftrightarrow> embed_endpoint_url s \<noteq> None"

definition oidc_configured :: "settings \<Rightarrow> bool" where
  "oidc_configured s \<longleftrightarrow> oidc_issuer s \<noteq> None \<and> oidc_audience s \<noteq> None \<and> oidc_jwks_url s \<noteq> None"

definition object_storage_configured :: "settings \<Rightarrow> bool" where
  "object_storage_configured s \<longleftrightarrow> s3_endpoint_url s \<noteq> None \<and> s3_access_key s \<noteq> None \<and> s3_secret_key s \<noteq> None"

section \<open>What is built from the settings\<close>

text \<open>\<open>assert\<close>.\<close>

definition asserted :: "bool \<Rightarrow> (exn, 'a) result \<Rightarrow> (exn, 'a) result" where
  "asserted b r = (if b then r else Inl AssertionError)"

definition input_type_text :: "input_types \<Rightarrow> pystr" where
  "input_type_text t = (case t of Input_off \<Rightarrow> py ''off'' | Input_nvidia \<Rightarrow> py ''nvidia'')"

text \<open>The truth value of an optional text; a URL is always true.\<close>

definition some_text :: "pystr option \<Rightarrow> bool" where
  "some_text t \<longleftrightarrow> t \<noteq> None \<and> t \<noteq> Some []"

definition build_embedder ::
  "(fval \<Rightarrow> pystr) \<Rightarrow> (pystr \<Rightarrow> pystr) \<Rightarrow> settings \<Rightarrow> (exn, http_embedder option) result" where
  "build_embedder float_text sha s =
     (if \<not> embedder_configured s then Inr None
      else asserted (embed_endpoint_url s \<noteq> None \<and> some_text (embed_model s) \<and> some_text (embed_api_key s))
        (asserted (embed_dimensions s \<notin> {None, Some 0})
        (bindE (make_http_embedder float_text sha (ul_text (the (embed_endpoint_url s))) (the (embed_model s))
             (the (embed_api_key s)) (the (embed_dimensions s)) (nat (embed_batch_size s)) (embed_query_template s)
             (embed_document_template s) (input_type_text (embed_input_type s)) (embed_provider_routing s))
          (\<lambda>e. Inr (Some e)))))"

datatype identity_choice =
    Choose_unconfigured_identity
  | Choose_oidc (oc_issuer: pystr) (oc_audience: pystr) (oc_jwks_url: pystr) (oc_timeout: int)

definition default_identity_provider :: "settings \<Rightarrow> (exn, identity_choice) result" where
  "default_identity_provider s =
     (if \<not> oidc_configured s then Inr Choose_unconfigured_identity
      else asserted (oidc_issuer s \<noteq> None) (asserted (oidc_audience s \<noteq> None) (asserted (oidc_jwks_url s \<noteq> None)
        (Inr (Choose_oidc (ul_text (the (oidc_issuer s))) (the (oidc_audience s)) (ul_text (the (oidc_jwks_url s)))
           (dependency_timeout_seconds s))))))"

record s3_choice =
  so_endpoint :: pystr
  so_public_endpoint :: "pystr option"
  so_access_key :: pystr
  so_secret_key :: pystr
  so_bucket :: pystr
  so_config :: s3_config
  so_timeout :: int

definition default_object_storage :: "settings \<Rightarrow> (exn, s3_choice option) result" where
  "default_object_storage s =
     (if \<not> object_storage_configured s then Inr None
      else asserted (s3_endpoint_url s \<noteq> None) (asserted (s3_access_key s \<noteq> None) (asserted (s3_secret_key s \<noteq> None)
        (Inr (Some \<lparr>so_endpoint = ul_text (the (s3_endpoint_url s)),
           so_public_endpoint = map_option ul_text (s3_public_endpoint_url s),
           so_access_key = the (s3_access_key s), so_secret_key = the (s3_secret_key s), so_bucket = s3_bucket s,
           so_config = \<lparr>s3_region = s3_region_name s, s3_upload_ttl_seconds = upload_ttl_seconds s\<rparr>,
           so_timeout = dependency_timeout_seconds s\<rparr>)))))"

definition default_retriever ::
  "(nat \<Rightarrow> nat option) \<Rightarrow> (rat \<Rightarrow> pystr) \<Rightarrow> (fval \<Rightarrow> pystr) \<Rightarrow> (pystr \<Rightarrow> pystr) \<Rightarrow> (json \<Rightarrow> http_response) \<Rightarrow> settings \<Rightarrow>
   (exn, retriever_kind) result" where
  "default_retriever decimal rat_text float_text sha post s =
     bindE (if retrieval_mode s = Dense then build_embedder float_text sha s else Inr None) (\<lambda>e.
       build_retriever decimal rat_text (retrieval_mode s) (dense_max_distance s) (map_option (as_embedder post) e))"

record tutor_choice =
  tu_endpoint :: pystr
  tu_model :: pystr
  tu_api_key :: pystr
  tu_timeout_seconds :: int
  tu_max_output_tokens :: int
  tu_schema_profile :: schema_profile
  tu_provider :: tutor_provider

definition default_tutor_model :: "settings \<Rightarrow> (exn, tutor_choice option) result" where
  "default_tutor_model s =
     (if tutor_endpoint_url s = None then Inr None
      else asserted (tutor_model_name s \<noteq> None \<and> tutor_api_key s \<noteq> None)
        (Inr (Some \<lparr>tu_endpoint = ul_text (the (tutor_endpoint_url s)), tu_model = the (tutor_model_name s),
           tu_api_key = the (tutor_api_key s), tu_timeout_seconds = tutor_timeout_seconds s,
           tu_max_output_tokens = tutor_max_output_tokens s, tu_schema_profile = tutor_schema_profile s,
           tu_provider = tutor_provider s\<rparr>)))"

text \<open>\<open>version\<close> of the two retrievers and of the tutor models.\<close>

definition retriever_version :: "retriever_kind \<Rightarrow> pystr" where
  "retriever_version kind = (case kind of Postgres_retriever \<Rightarrow> py ''spanish-fts-coverage-top5-v2'' | Dense_retriever d \<Rightarrow> dn_version d)"

definition tutor_version :: "tutor_choice option \<Rightarrow> pystr" where
  "tutor_version t = (case t of None \<Rightarrow> py ''unconfigured'' | Some c \<Rightarrow> tu_model c)"

text \<open>The services of \<open>create_app\<close> when none is passed in.\<close>

record app =
  ap_documents :: service_config
  ap_storage :: "s3_choice option"
  ap_identity :: identity_choice
  ap_tutor :: "tutor_choice option"
  ap_retriever :: retriever_kind
  ap_conversations :: conversation_config

definition environment_text :: "environment \<Rightarrow> pystr" where
  "environment_text e = (case e of Env_development \<Rightarrow> py ''development'' | Env_test \<Rightarrow> py ''test'' | Env_production \<Rightarrow> py ''production'')"

definition create_app ::
  "(nat \<Rightarrow> nat option) \<Rightarrow> (rat \<Rightarrow> pystr) \<Rightarrow> (fval \<Rightarrow> pystr) \<Rightarrow> (pystr \<Rightarrow> pystr) \<Rightarrow> (json \<Rightarrow> http_response) \<Rightarrow> settings \<Rightarrow>
   (exn, app) result" where
  "create_app decimal rat_text float_text sha post s =
     bindE (default_object_storage s) (\<lambda>storage.
     bindE (default_tutor_model s) (\<lambda>tutor.
     bindE (default_retriever decimal rat_text float_text sha post s) (\<lambda>kind.
     bindE (default_identity_provider s) (\<lambda>provider.
       Inr \<lparr>ap_documents = \<lparr>sc_environment = environment_text (environment s),
              sc_max_document_bytes = max_document_bytes s, sc_pipeline_version = pipeline_version s\<rparr>,
            ap_storage = storage, ap_identity = provider, ap_tutor = tutor, ap_retriever = kind,
            ap_conversations = \<lparr>cc_model_version = tutor_version tutor, cc_retrieval_version = retriever_version kind,
              cc_message_timeout_seconds = message_timeout_seconds s\<rparr>\<rparr>))))"

text \<open>\<open>WorkerRuntime\<close>: the configuration of the ingestion worker and its embedder.\<close>

definition worker_of ::
  "(fval \<Rightarrow> pystr) \<Rightarrow> (pystr \<Rightarrow> pystr) \<Rightarrow> settings \<Rightarrow> (exn, worker_config \<times> http_embedder option) result" where
  "worker_of float_text sha s =
     (if \<not> object_storage_configured s then Inl (ValueError ''worker requires S3-compatible object storage'')
      else bindE (build_embedder float_text sha s) (\<lambda>e.
        Inr (\<lparr>wk_max_document_bytes = nat (max_document_bytes s), wk_chunk_size = nat (chunk_size_characters s),
              wk_chunk_overlap = nat (chunk_overlap_characters s), wk_lease_seconds = job_lease_seconds s,
              wk_max_attempts = job_max_attempts s, wk_retry_base_seconds = job_retry_base_seconds s\<rparr>, e)))"

section \<open>Accepted settings\<close>

lemma first_error_Inr: "first_error xs = Inr () \<longleftrightarrow> list_all (\<lambda>(wrong, _). \<not> wrong) xs"
  by (induction xs rule: first_error.induct) auto

declare first_error.simps [simp del]

lemma count_given_simps [simp]:
  "count_given [] = 0" "count_given (x # xs) = (if x then Suc (count_given xs) else count_given xs)"
  by (simp_all add: count_given_def)

lemma make_settings_Inr:
  assumes "make_settings u urlsplit s = Inr s'"
  shows "s' = s" "fields_ok s" "validate_embedder_configuration u s = Inr ()" "validate_tutor_configuration s = Inr ()"
    "validate_redis_configuration urlsplit s = Inr ()" "validate_oidc_configuration s = Inr ()"
  using assms by (auto simp: make_settings_def bindE_eq_Inr split: if_splits)

lemma embedder_all:
  assumes "validate_embedder_configuration u s = Inr ()"
  shows "embedder_configured s \<longleftrightarrow> embed_model s \<noteq> None" "embedder_configured s \<longleftrightarrow> embed_api_key s \<noteq> None"
    "embedder_configured s \<longleftrightarrow> embed_dimensions s \<noteq> None"
    "retrieval_mode s = Dense \<Longrightarrow> embedder_configured s \<and> dense_max_distance s \<noteq> None"
    "py_count TEXT_PLACEHOLDER (embed_query_template s) = 1" "py_count TEXT_PLACEHOLDER (embed_document_template s) = 1"
  using assms by (auto simp: validate_embedder_configuration_def first_error_Inr bindE_eq_Inr embedder_values_def
      embedder_configured_def split: if_splits)

lemma embedder_given:
  assumes "validate_embedder_configuration u s = Inr ()" "embedder_configured s"
  shows "strip (the (embed_api_key s)) \<noteq> []" "\<not> url_extra (the (embed_endpoint_url s))"
    "production s \<Longrightarrow> ul_scheme (the (embed_endpoint_url s)) = py ''https''"
    "retrieval_mode s = Dense \<Longrightarrow> embed_timeout_seconds s + tutor_timeout_seconds s < message_timeout_seconds s"
proof -
  have "embedder_values s \<noteq> 0" using assms(2) by (simp add: embedder_values_def embedder_configured_def)
  then show "strip (the (embed_api_key s)) \<noteq> []" "\<not> url_extra (the (embed_endpoint_url s))"
    "production s \<Longrightarrow> ul_scheme (the (embed_endpoint_url s)) = py ''https''"
    "retrieval_mode s = Dense \<Longrightarrow> embed_timeout_seconds s + tutor_timeout_seconds s < message_timeout_seconds s"
    using assms(1) by (auto simp: validate_embedder_configuration_def first_error_Inr bindE_eq_Inr)
qed

text \<open>A template with one placeholder puts every text verbatim at the same place.\<close>

lemma py_count_0: "old \<noteq> [] \<Longrightarrow> py_count old s = 0 \<Longrightarrow> py_replace old new s = s"
proof (induction old s rule: py_count.induct)
  case (1 old s)
  show ?case
  proof (cases "s = []")
    case False
    then have "\<not> prefix old s" "py_count old (tl s) = 0"
      using 1(3,4) by (auto simp: py_count.simps [of old s] split: if_splits)
    then show ?thesis using 1 False by (simp add: py_replace.simps [of old new s])
  qed (simp add: py_replace.simps)
qed

lemma py_count_1:
  assumes "old \<noteq> []" "py_count old s = 1"
  shows "\<exists>pre suf. s = pre @ old @ suf \<and> (\<forall>new. py_replace old new s = pre @ new @ suf)"
  using assms
proof (induction old s rule: py_count.induct)
  case (1 old s)
  have ne: "s \<noteq> []" using 1(4) by (auto simp: py_count.simps)
  show ?case
  proof (cases "prefix old s")
    case True
    then obtain suf where s: "s = old @ suf" by (auto elim: prefixE)
    have "py_count old s = Suc (py_count old (drop (length old) s))"
      using 1(3) ne True by (subst py_count.simps) simp
    then have "py_count old suf = 0" using 1(4) s by simp
    moreover have "py_replace old new s = new @ py_replace old new (drop (length old) s)" for new
      using 1(3) ne True by (subst py_replace.simps) simp
    ultimately have "\<forall>new. py_replace old new s = [] @ new @ suf"
      using py_count_0 [OF 1(3)] s by simp
    then show ?thesis using s by (intro exI [of _ "[]"] exI [of _ suf]) simp
  next
    case False
    then have "py_count old (tl s) = 1" using 1(4) ne by (simp add: py_count.simps [of old s])
    then obtain pre suf where p: "tl s = pre @ old @ suf" "\<forall>new. py_replace old new (tl s) = pre @ new @ suf"
      using 1(2) [OF ne] False 1(3) by blast
    have "s = hd s # tl s" using ne by simp
    moreover have "py_replace old new s = hd s # py_replace old new (tl s)" for new
      using 1(3) ne False by (subst py_replace.simps) simp
    ultimately have "s = (hd s # pre) @ old @ suf \<and> (\<forall>new. py_replace old new s = (hd s # pre) @ new @ suf)"
      using p by (metis append_Cons)
    then show ?thesis by blast
  qed
qed

lemma some_text_strip: "t \<noteq> None \<Longrightarrow> strip (the t) \<noteq> [] \<Longrightarrow> some_text t"
  by (cases t) (auto simp: some_text_def strip_def)

lemma build_embedder_accepted:
  assumes "make_settings u urlsplit s = Inr s'" "hexdigest sha"
  shows "if embedder_configured s
    then \<exists>e. build_embedder float_text sha s = Inr (Some e) \<and> Some (he_dimensions e) = embed_dimensions s \<and>
      int (he_batch_size e) = embed_batch_size s \<and> 0 < he_batch_size e \<and>
      he_query_template e = embed_query_template s \<and> he_document_template e = embed_document_template s \<and>
      Option.bind (rsplit_bar_1 (he_version e)) (py_int10 decimal) = embed_dimensions s \<and>
      Option.bind (split_bar_second_last (he_version e)) (py_int10 decimal) = embed_dimensions s
    else build_embedder float_text sha s = Inr None"
proof (cases "embedder_configured s")
  case True
  note m = make_settings_Inr [OF assms(1)]
  obtain x mo k d where v: "embed_endpoint_url s = Some x" "embed_model s = Some mo" "embed_api_key s = Some k"
    "embed_dimensions s = Some d"
    using True embedder_all(1,2,3) [OF m(3)] by (auto simp: embedder_configured_def)
  have f: "1 \<le> length mo" "length mo \<le> MAX_EMBED_MODEL_LENGTH" "1 \<le> d" "d \<le> int MAX_EMBEDDING_DIMENSIONS"
    "1 \<le> embed_batch_size s"
    using m(2) v by (auto simp: fields_ok_def between_def)
  have t: "some_text (embed_model s)" "some_text (embed_api_key s)"
    using f(1) v embedder_given(1) [OF m(3) True] by (auto simp: some_text_def strip_def)
  define r where "r = (case (case embed_provider_routing s of None \<Rightarrow> None | Some kvs \<Rightarrow> if kvs = [] then None else Some kvs) of
      None \<Rightarrow> JNull | Some kvs \<Rightarrow> JDict kvs)"
  obtain w where w: "derive_embedding_version float_text sha mo d (embed_query_template s)
      (embed_document_template s) (input_type_text (embed_input_type s)) r = Inr w"
    "Option.bind (rsplit_bar_1 w) (py_int10 decimal) = Some d"
    "Option.bind (split_bar_second_last w) (py_int10 decimal) = Some d"
    using version_dimensions [OF assms(2), where float_text = float_text and model = mo and dims = d
        and q = "embed_query_template s" and d = "embed_document_template s" and it = "input_type_text (embed_input_type s)"
        and routing = r and decimal = decimal] f
    by (auto split: sum.splits)
  show ?thesis
    using True v t w f by (simp add: build_embedder_def asserted_def make_http_embedder_def r_def [symmetric] Let_def)
qed (simp add: build_embedder_def)

lemma choices_accepted:
  assumes "make_settings u urlsplit s = Inr s'"
  shows "\<exists>p. default_identity_provider s = Inr p \<and> (production s \<longrightarrow> p \<noteq> Choose_unconfigured_identity)"
    "\<exists>st. default_object_storage s = Inr st \<and> (production s \<longrightarrow> st \<noteq> None)"
    "\<exists>t. default_tutor_model s = Inr t \<and> length (tutor_version t) \<le> 255"
    "tutor_timeout_seconds s < message_timeout_seconds s"
    "chunk_overlap_characters s < chunk_size_characters s"
proof -
  note m = make_settings_Inr [OF assms]
  have o: "oidc_values s \<in> {0, 3}" "production s \<Longrightarrow> oidc_values s \<noteq> 0" "storage_values s \<in> {0, 3}"
    "production s \<Longrightarrow> storage_values s \<noteq> 0" "chunk_overlap_characters s < chunk_size_characters s"
    using m(6) by (auto simp: validate_oidc_configuration_def first_error_Inr)
  show "\<exists>p. default_identity_provider s = Inr p \<and> (production s \<longrightarrow> p \<noteq> Choose_unconfigured_identity)"
    using o(1,2) by (cases "oidc_configured s") (auto simp: default_identity_provider_def asserted_def oidc_configured_def
        oidc_values_def split: if_splits)
  show "\<exists>st. default_object_storage s = Inr st \<and> (production s \<longrightarrow> st \<noteq> None)"
    using o(3,4) by (cases "object_storage_configured s") (auto simp: default_object_storage_def asserted_def
        object_storage_configured_def storage_values_def split: if_splits)
  have t: "tutor_endpoint_url s \<noteq> None \<Longrightarrow> tutor_model_name s \<noteq> None \<and> tutor_api_key s \<noteq> None"
    "tutor_timeout_seconds s < message_timeout_seconds s"
    using m(4) by (auto simp: validate_tutor_configuration_def first_error_Inr split: if_splits)
  have "given (\<lambda>m. length m \<le> 255) (tutor_model_name s)"
    using m(2) by (cases "tutor_model_name s") (simp_all add: fields_ok_def between_def)
  then show "\<exists>t. default_tutor_model s = Inr t \<and> length (tutor_version t) \<le> 255"
    using t(1) by (auto simp: default_tutor_model_def asserted_def tutor_version_def)
  show "tutor_timeout_seconds s < message_timeout_seconds s" "chunk_overlap_characters s < chunk_size_characters s"
    using t(2) o(5) by simp_all
qed

lemma default_retriever_accepted:
  assumes "make_settings u urlsplit s = Inr s'" "hexdigest sha"
  shows "case default_retriever decimal rat_text float_text sha post s of
      Inr kind \<Rightarrow> length (retriever_version kind) \<le> 100 \<and>
        (case kind of Postgres_retriever \<Rightarrow> retrieval_mode s = Fts
         | Dense_retriever d \<Rightarrow> retrieval_mode s = Dense \<and> Some (dn_dimensions d) = embed_dimensions s)
    | Inl e \<Rightarrow> retrieval_mode s = Dense \<and> e = ValueError ''Retrieval version exceeds the stored length''"
proof (cases "retrieval_mode s")
  case Fts
  then show ?thesis by (simp add: default_retriever_def build_retriever_def retriever_version_def)
next
  case Dense
  note m = make_settings_Inr [OF assms(1)]
  have c: "embedder_configured s" "dense_max_distance s \<noteq> None" using embedder_all(4) [OF m(3) Dense] by simp_all
  obtain e where e: "build_embedder float_text sha s = Inr (Some e)" "Some (he_dimensions e) = embed_dimensions s"
    "Option.bind (split_bar_second_last (he_version e)) (py_int10 decimal) = embed_dimensions s"
    using build_embedder_accepted [OF assms, of float_text decimal] c(1) by auto
  obtain md where md: "dense_max_distance s = Some md" using c(2) by blast
  have v: "em_version (as_embedder post e) = he_version e" by (simp add: as_embedder_def)
  show ?thesis
    using Dense e md
    by (auto simp: default_retriever_def build_retriever_def make_dense_def v Let_def retriever_version_def
        split: option.splits)
qed

text \<open>C24: accepted settings start. If validation accepts the settings, no assertion of \<open>create_app\<close> or of
  the worker fails: the only way not to start is a dense retrieval version longer than its column, or
  a worker without object storage. The versions stored with messages fit their columns; production
  never runs without an identity provider and a storage; a chunk window always advances; the tutor,
  with the query embedding where there is one, ends before the message does.\<close>

theorem accepted_settings_start:
  assumes "make_settings u urlsplit s = Inr s'" "hexdigest sha"
  shows "(case create_app decimal rat_text float_text sha post s of
       Inr a \<Rightarrow> length (cc_model_version (ap_conversations a)) \<le> 255 \<and>
         length (cc_retrieval_version (ap_conversations a)) \<le> 100 \<and>
         (if production s then ap_storage a \<noteq> None \<and> ap_identity a \<noteq> Choose_unconfigured_identity else True)
     | Inl e \<Rightarrow> retrieval_mode s = Dense \<and> e = ValueError ''Retrieval version exceeds the stored length'') \<and>
    (case worker_of float_text sha s of
       Inr (cfg, e) \<Rightarrow> wk_chunk_overlap cfg < wk_chunk_size cfg \<and> 400 \<le> wk_chunk_size cfg \<and> (e \<noteq> None \<longleftrightarrow> embedder_configured s)
     | Inl e \<Rightarrow> \<not> object_storage_configured s) \<and>
    tutor_timeout_seconds s < message_timeout_seconds s \<and>
    (if retrieval_mode s = Dense then embed_timeout_seconds s + tutor_timeout_seconds s < message_timeout_seconds s else True)"
proof (intro conjI)
  note m = make_settings_Inr [OF assms(1)]
  note c = choices_accepted [OF assms(1)]
  note r = default_retriever_accepted [OF assms, of decimal rat_text float_text post]
  obtain p st t where v: "default_identity_provider s = Inr p" "production s \<longrightarrow> p \<noteq> Choose_unconfigured_identity"
    "default_object_storage s = Inr st" "production s \<longrightarrow> st \<noteq> None"
    "default_tutor_model s = Inr t" "length (tutor_version t) \<le> 255"
    using c(1-3) by blast
  show "case create_app decimal rat_text float_text sha post s of
       Inr a \<Rightarrow> length (cc_model_version (ap_conversations a)) \<le> 255 \<and>
         length (cc_retrieval_version (ap_conversations a)) \<le> 100 \<and>
         (if production s then ap_storage a \<noteq> None \<and> ap_identity a \<noteq> Choose_unconfigured_identity else True)
     | Inl e \<Rightarrow> retrieval_mode s = Dense \<and> e = ValueError ''Retrieval version exceeds the stored length''"
  proof (cases "default_retriever decimal rat_text float_text sha post s")
    case (Inl e)
    then show ?thesis using r v by (simp add: create_app_def)
  next
    case (Inr kind)
    then show ?thesis using r v by (simp add: create_app_def)
  qed
  have b: "\<exists>e. build_embedder float_text sha s = Inr e \<and> (e \<noteq> None \<longleftrightarrow> embedder_configured s)"
    using build_embedder_accepted [OF assms, of float_text decimal] by (auto split: if_splits)
  have f: "400 \<le> chunk_size_characters s" "0 \<le> chunk_overlap_characters s"
    using m(2) by (simp_all add: fields_ok_def between_def)
  show "case worker_of float_text sha s of
       Inr (cfg, e) \<Rightarrow> wk_chunk_overlap cfg < wk_chunk_size cfg \<and> 400 \<le> wk_chunk_size cfg \<and> (e \<noteq> None \<longleftrightarrow> embedder_configured s)
     | Inl e \<Rightarrow> \<not> object_storage_configured s"
    using b c(5) f by (auto simp: worker_of_def)
  show "tutor_timeout_seconds s < message_timeout_seconds s" by (rule c(4))
  show "if retrieval_mode s = Dense then embed_timeout_seconds s + tutor_timeout_seconds s < message_timeout_seconds s else True"
    using embedder_all(4) [OF m(3)] embedder_given(4) [OF m(3)] by simp
qed

text \<open>The worker and the retriever speak of the same vectors. Where accepted settings select dense
  retrieval and the application starts, the version and the dimensions under which the worker stores
  embeddings are those by which the retriever looks for them, and both templates put the text, whole
  and once, at a fixed place of what is embedded.\<close>

lemma worker_retriever_agree:
  assumes "make_settings u urlsplit s = Inr s'" "hexdigest sha" "retrieval_mode s = Dense"
    and "create_app decimal rat_text float_text sha post s = Inr a" "worker_of float_text sha s = Inr (cfg, we)"
  shows "\<exists>e d. we = Some e \<and> ap_retriever a = Dense_retriever d \<and>
    em_version (dn_embedder d) = he_version e \<and> dn_dimensions d = he_dimensions e \<and>
    Option.bind (rsplit_bar_1 (he_version e)) (py_int10 decimal) = Some (dn_dimensions d) \<and>
    (\<forall>template \<in> {he_query_template e, he_document_template e}. \<exists>pre suf.
       template = pre @ TEXT_PLACEHOLDER @ suf \<and> (\<forall>t. py_replace TEXT_PLACEHOLDER t template = pre @ t @ suf))"
proof -
  note m = make_settings_Inr [OF assms(1)]
  note ea = embedder_all [OF m(3)]
  have c: "embedder_configured s" using ea(4) [OF assms(3)] by simp
  obtain e where e: "build_embedder float_text sha s = Inr (Some e)" "Some (he_dimensions e) = embed_dimensions s"
    "he_query_template e = embed_query_template s" "he_document_template e = embed_document_template s"
    "Option.bind (rsplit_bar_1 (he_version e)) (py_int10 decimal) = embed_dimensions s"
    "Option.bind (split_bar_second_last (he_version e)) (py_int10 decimal) = embed_dimensions s"
    using build_embedder_accepted [OF assms(1,2), of float_text decimal] c by auto
  have we: "we = Some e" using assms(5) e(1) by (auto simp: worker_of_def split: if_splits)
  obtain kind where k: "default_retriever decimal rat_text float_text sha post s = Inr kind" "ap_retriever a = kind"
    using assms(4) by (auto simp: create_app_def bindE_eq_Inr)
  have v: "em_version (as_embedder post e) = he_version e" by (simp add: as_embedder_def)
  obtain d where d: "kind = Dense_retriever d" "em_version (dn_embedder d) = he_version e"
    "Some (dn_dimensions d) = embed_dimensions s"
    using k(1) e(1,6) assms(3) unfolding default_retriever_def build_retriever_def make_dense_def
    by (auto simp: bindE_eq_Inr v Let_def split: option.splits if_splits)
  have n: "TEXT_PLACEHOLDER \<noteq> []" by (simp add: TEXT_PLACEHOLDER_def py_def)
  have "dn_dimensions d = he_dimensions e" using d(3) e(2) by (metis option.inject)
  then show ?thesis
    using we k(2) d e py_count_1 [OF n ea(5)] py_count_1 [OF n ea(6)]
    by (intro exI [of _ e] exI [of _ d]) auto
qed

definition sample_url :: url where
  "sample_url = \<lparr>ul_text = py ''https://h'', ul_scheme = py ''https'', ul_username = None, ul_password = None,
     ul_query = None, ul_fragment = None\<rparr>"

definition sample_settings :: settings where
  "sample_settings = \<lparr>environment = Env_production, database_url = [], storage_health_url = sample_url,
     dependency_timeout_seconds = 2, oidc_issuer = Some sample_url, oidc_audience = Some (py ''a''),
     oidc_jwks_url = Some sample_url, s3_endpoint_url = Some sample_url, s3_public_endpoint_url = None,
     s3_access_key = Some (py ''k''), s3_secret_key = Some (py ''k''), s3_bucket = py ''docta'',
     s3_region_name = py ''r'', upload_ttl_seconds = 900, max_document_bytes = 10, max_document_pages = 200,
     chunk_size_characters = 1600, chunk_overlap_characters = 160, pipeline_version = py ''v1'', redis_url = [],
     redis_stream = py ''s'', redis_group = py ''g'', job_lease_seconds = 300, job_max_attempts = 3,
     job_retry_base_seconds = 2, job_reconcile_seconds = 30, tutor_endpoint_url = None, tutor_model_name = None,
     tutor_api_key = None, tutor_timeout_seconds = 45, tutor_max_output_tokens = 2000,
     tutor_schema_profile = Schema_standard, tutor_provider = Provider_chat_completions,
     message_timeout_seconds = 90, retrieval_mode = Dense, embed_endpoint_url = Some sample_url,
     embed_model = Some (py ''m''), embed_api_key = Some (py ''k''), embed_dimensions = Some 3,
     embed_timeout_seconds = 10, embed_batch_size = 32, embed_query_template = TEXT_PLACEHOLDER,
     embed_document_template = TEXT_PLACEHOLDER, embed_input_type = Input_off, embed_provider_routing = None,
     dense_max_distance = Some 1\<rparr>"

definition sample_urlsplit :: "pystr \<Rightarrow> (pystr \<times> pystr option) option" where
  "sample_urlsplit t = Some (py ''redis'', Some (py ''h''))"

lemma max_model_length: "MAX_EMBED_MODEL_LENGTH = 185"
  by (simp add: MAX_EMBED_MODEL_LENGTH_def MAX_EMBEDDING_VERSION_LENGTH_def MAX_EMBEDDING_DIMENSIONS_def
      HASH_LENGTH_def dec_nat.simps)

lemma placeholder_count: "py_count TEXT_PLACEHOLDER TEXT_PLACEHOLDER = 1"
  by (simp add: TEXT_PLACEHOLDER_def py_def py_count.simps)

lemma strip_k: "strip (py ''k'') \<noteq> []"
  by (simp add: strip_Nil_iff py_def is_space_def)

lemma not_free_m: "\<not> free_model ascii_db (py ''m'')"
  by (simp add: free_model_def py_def is_space_def lower_ascii ends_with_def)

lemma sample_settings_accepted: "make_settings ascii_db sample_urlsplit sample_settings = Inr sample_settings"
proof -
  have "fields_ok sample_settings"
    by (simp add: fields_ok_def between_def sample_settings_def max_model_length MAX_EMBEDDING_DIMENSIONS_def py_def)
  moreover have "validate_embedder_configuration ascii_db sample_settings = Inr ()"
    by (simp add: validate_embedder_configuration_def first_error_Inr bindE_eq_Inr embedder_values_def sample_settings_def
        placeholder_count [simplified] strip_k url_extra_def sample_url_def production_def not_free_m)
  moreover have "validate_tutor_configuration sample_settings = Inr ()"
    by (simp add: validate_tutor_configuration_def first_error_Inr sample_settings_def)
  moreover have "validate_redis_configuration sample_urlsplit sample_settings = Inr ()"
    by (simp add: validate_redis_configuration_def sample_urlsplit_def py_def)
  moreover have "validate_oidc_configuration sample_settings = Inr ()"
    by (simp add: validate_oidc_configuration_def first_error_Inr sample_settings_def oidc_values_def storage_values_def)
  ultimately show ?thesis by (simp add: make_settings_def)
qed

lemma sample_hexdigest: "hexdigest sample_sha"
  unfolding hexdigest_def sample_sha_def by (simp add: list_all_iff hex_lower_def)

theorem accepted_settings_start_witness:
  "tutor_timeout_seconds sample_settings < message_timeout_seconds sample_settings \<and>
   embed_timeout_seconds sample_settings + tutor_timeout_seconds sample_settings < message_timeout_seconds sample_settings"
  using accepted_settings_start [OF sample_settings_accepted sample_hexdigest, THEN conjunct2, THEN conjunct2]
  by (simp add: sample_settings_def)

lemma sample_started:
  "\<exists>a. create_app (\<lambda>_. None) (\<lambda>_. []) (\<lambda>_. []) sample_sha sample_post sample_settings = Inr a"
  "\<exists>w. worker_of (\<lambda>_. []) sample_sha sample_settings = Inr w"
proof -
  note b = build_embedder_accepted [OF sample_settings_accepted sample_hexdigest, of "\<lambda>_. []" "\<lambda>_. None"]
  have c: "embedder_configured sample_settings" "embed_dimensions sample_settings = Some 3"
    "embed_model sample_settings = Some (py ''m'')" "retrieval_mode sample_settings = Dense"
    "dense_max_distance sample_settings = Some 1" "object_storage_configured sample_settings"
    by (simp_all add: embedder_configured_def object_storage_configured_def sample_settings_def)
  then obtain e where e: "build_embedder (\<lambda>_. []) sample_sha sample_settings = Inr (Some e)"
    "Option.bind (split_bar_second_last (he_version e)) (py_int10 (\<lambda>_. None)) = Some 3"
    using b by auto
  have l: "length (he_version e) = 12"
    using e(1) c(2,3) by (auto simp: build_embedder_def asserted_def make_http_embedder_def Let_def
        bindE_eq_Inr derive_embedding_version_def sample_sha_def HASH_LENGTH_def dec_int_def dec_nat.simps split: if_splits)
  note ch = choices_accepted [OF sample_settings_accepted]
  have "\<exists>kind. default_retriever (\<lambda>_. None) (\<lambda>_. []) (\<lambda>_. []) sample_sha sample_post sample_settings = Inr kind"
    using e l c(4,5) by (simp add: default_retriever_def build_retriever_def make_dense_def as_embedder_def Let_def)
  then show "\<exists>a. create_app (\<lambda>_. None) (\<lambda>_. []) (\<lambda>_. []) sample_sha sample_post sample_settings = Inr a"
    using ch(1-3) by (auto simp: create_app_def)
  show "\<exists>w. worker_of (\<lambda>_. []) sample_sha sample_settings = Inr w"
    using e(1) c(6) by (simp add: worker_of_def)
qed

end
