(* ===== verification/Tutor_Http.thy ===== *)
theory Tutor_Http
  imports Config
begin

text \<open>
  \<^verbatim>\<open>tutor_http.py\<close>: the tutor model behind a chat completions endpoint. The request that is sent, the
  schema it asks for, and what is made of the answer: its size is bounded, blocks are repaired where
  that is possible, and everything passes the contract's validation. The transport, the JSON decoder
  and Pydantic's decoding of an intervention are parameters.
\<close>

section \<open>The schema\<close>

text \<open>Members are dropped at every depth.\<close>

primrec drop_keys :: "pystr set \<Rightarrow> json \<Rightarrow> json" where
  "drop_keys ks JNull = JNull"
| "drop_keys ks (JBool b) = JBool b"
| "drop_keys ks (JInt i) = JInt i"
| "drop_keys ks (JFloat x) = JFloat x"
| "drop_keys ks (JStr s) = JStr s"
| "drop_keys ks (JList xs) = JList (map (drop_keys ks) xs)"
| "drop_keys ks (JDict kvs) = JDict (filter (\<lambda>(k, _). k \<notin> ks) (map (map_prod id (drop_keys ks)) kvs))"

definition renamed_key :: "pystr \<Rightarrow> pystr" where
  "renamed_key k = (if k = py ''oneOf'' then py ''anyOf'' else k)"

primrec without_discriminator :: "json \<Rightarrow> json" where
  "without_discriminator JNull = JNull"
| "without_discriminator (JBool b) = JBool b"
| "without_discriminator (JInt i) = JInt i"
| "without_discriminator (JFloat x) = JFloat x"
| "without_discriminator (JStr s) = JStr s"
| "without_discriminator (JList xs) = JList (map without_discriminator xs)"
| "without_discriminator (JDict kvs) =
     JDict (foldl (\<lambda>acc (k, v). set_member (renamed_key k) v acc) []
       (filter (\<lambda>(k, _). k \<noteq> py ''discriminator'') (map (map_prod id without_discriminator) kvs)))"

text \<open>\<open>d[k] = f(d[k])\<close>, \<open>d[k] = v\<close>, \<open>del d[k]\<close>, \<open>xs.remove(x)\<close> and \<open>xs.append(x)\<close> with what they raise.\<close>

fun update_member :: "pystr \<Rightarrow> (json \<Rightarrow> (exn, json) result) \<Rightarrow> json \<Rightarrow> (exn, json) result" where
  "update_member k f (JDict kvs) =
     (case map_of kvs k of None \<Rightarrow> Inl KeyError | Some v \<Rightarrow> bindE (f v) (\<lambda>w. Inr (JDict (set_member k w kvs))))"
| "update_member k f _ = Inl TypeError"

fun assign_member :: "pystr \<Rightarrow> json \<Rightarrow> json \<Rightarrow> (exn, json) result" where
  "assign_member k v (JDict kvs) = Inr (JDict (set_member k v kvs))"
| "assign_member k v _ = Inl TypeError"

fun delete_member :: "pystr \<Rightarrow> json \<Rightarrow> (exn, json) result" where
  "delete_member k (JDict kvs) = (if map_of kvs k = None then Inl KeyError else Inr (JDict (del_member k kvs)))"
| "delete_member k _ = Inl TypeError"

fun remove_item :: "json \<Rightarrow> json \<Rightarrow> (exn, json) result" where
  "remove_item x (JList xs) = (if x \<in> set xs then Inr (JList (remove1 x xs)) else Inl (ValueError ''list.remove(x): x not in list''))"
| "remove_item x _ = Inl AttributeError"

fun append_item :: "json \<Rightarrow> json \<Rightarrow> (exn, json) result" where
  "append_item x (JList xs) = Inr (JList (xs @ [x]))"
| "append_item x _ = Inl AttributeError"

definition GEMINI_BLOCK_FIELDS :: "(pystr \<times> pystr) list" where
  "GEMINI_BLOCK_FIELDS =
     [(py ''explanations'', py ''ExplanationBlock''), (py ''hints'', py ''HintBlock''), (py ''diagrams'', py ''DiagramBlock''),
      (py ''questions'', py ''QuestionBlock''), (py ''activities'', py ''ActivityBlock''), (py ''source_blocks'', py ''SourcesBlock'')]"

definition gemini_field :: "pystr \<Rightarrow> pystr \<Rightarrow> json \<Rightarrow> (exn, json) result" where
  "gemini_field name block_type schema =
     bindE (update_member (py ''$defs'') (update_member block_type (\<lambda>b.
              bindE (update_member (py ''properties'') (delete_member (py ''type'')) b)
                (update_member (py ''required'') (remove_item (JStr (py ''type'')))))) schema) (\<lambda>schema.
     bindE (update_member (py ''properties'') (assign_member name (JDict [(py ''type'', JStr (py ''array'')),
              (py ''items'', JDict [(py ''$ref'', JStr (py ''#/$defs/'' @ block_type))])])) schema)
       (update_member (py ''required'') (append_item (JStr name))))"

fun gemini_fields :: "(pystr \<times> pystr) list \<Rightarrow> json \<Rightarrow> (exn, json) result" where
  "gemini_fields [] schema = Inr schema"
| "gemini_fields ((name, block_type) # rest) schema = bindE (gemini_field name block_type schema) (gemini_fields rest)"

definition gemini_schema :: "json \<Rightarrow> (exn, json) result" where
  "gemini_schema schema =
     bindE (update_member (py ''properties'') (delete_member (py ''blocks'')) schema) (\<lambda>schema.
     bindE (update_member (py ''required'') (remove_item (JStr (py ''blocks''))) schema) (\<lambda>schema.
     bindE (update_member (py ''properties'') (delete_member (py ''version'')) schema) (\<lambda>schema.
     bindE (update_member (py ''required'') (remove_item (JStr (py ''version''))) schema) (\<lambda>schema.
     bindE (gemini_fields GEMINI_BLOCK_FIELDS schema) (\<lambda>schema.
       Inr (drop_keys {py ''minItems'', py ''maxItems''} schema))))))"

definition GOOGLE_COMPAT_CHAT_COMPLETIONS :: pystr where
  "GOOGLE_COMPAT_CHAT_COMPLETIONS =
     py ''https://generativelanguage.googleapis.com/v1beta/openai/chat/completions''"

definition is_gemini :: "unicode_db \<Rightarrow> tutor_choice \<Rightarrow> bool" where
  "is_gemini u t \<longleftrightarrow> tu_endpoint t = GOOGLE_COMPAT_CHAT_COMPLETIONS \<or>
     sublist (py ''gemini'') (lower u (tu_model t)) \<or> sublist (py ''gemini'') (lower u (tu_endpoint t))"

text \<open>\<open>contract\<close> is \<open>TutorIntervention.model_json_schema()\<close>.\<close>

definition response_schema :: "unicode_db \<Rightarrow> json \<Rightarrow> tutor_choice \<Rightarrow> (exn, json) result" where
  "response_schema u contract t =
     bindE (update_member (py ''properties'') (assign_member (py ''version'')
              (JDict [(py ''type'', JStr (py ''string'')), (py ''const'', JStr (py ''tutor-intervention-v2''))])) contract) (\<lambda>schema.
     bindE (if is_gemini u t then gemini_schema (without_discriminator schema)
            else Inr (without_discriminator schema)) (\<lambda>schema.
       Inr (if tu_schema_profile t = Schema_llama_cpp then drop_keys {py ''maxLength''} schema else schema)))"

section \<open>The request\<close>

definition situation_text :: "situation \<Rightarrow> pystr" where
  "situation_text x = (case x of Ambiguous \<Rightarrow> py ''ambiguous'' | Entry \<Rightarrow> py ''entry''
     | Unsupported_claim \<Rightarrow> py ''unsupported_claim'' | Partial \<Rightarrow> py ''partial''
     | Contrastable_error \<Rightarrow> py ''contrastable_error'' | Missing_concept \<Rightarrow> py ''missing_concept''
     | Blocked \<Rightarrow> py ''blocked'' | Grounded \<Rightarrow> py ''grounded'' | Insufficient_evidence \<Rightarrow> py ''insufficient_evidence'')"

definition kind_text :: "turn_kind \<Rightarrow> pystr" where
  "kind_text k = (case k of Question_turn \<Rightarrow> py ''question'' | Followup_turn \<Rightarrow> py ''followup'' | Action_turn \<Rightarrow> py ''action'')"

definition intent_text :: "turn_intent option \<Rightarrow> json" where
  "intent_text i = (case i of None \<Rightarrow> JNull | Some Intent_another_hint \<Rightarrow> JStr (py ''another_hint'')
     | Some Intent_explain \<Rightarrow> JStr (py ''explain'') | Some Intent_dont_know \<Rightarrow> JStr (py ''dont_know''))"

definition history_json :: "history_turn \<Rightarrow> json" where
  "history_json h = JDict ([(py ''question'', JStr (ht_question h)), (py ''answer'', JStr (ht_answer h))] @
     (case ht_situation h of None \<Rightarrow> [] | Some x \<Rightarrow> [(py ''situation'', JStr (situation_text x))]) @
     (if ht_help_level h \<noteq> 0 then [(py ''help_level'', JInt (ht_help_level h))] else []))"

definition chat_context :: "tutor_request \<Rightarrow> json" where
  "chat_context req = JDict ([(py ''question'', JStr (tr_question req)), (py ''history'', JList (map history_json (tr_history req)))] @
     (if tr_turn_kind req \<noteq> Question_turn \<or> tr_turn_intent req \<noteq> None
      then [(py ''turn'', JDict [(py ''kind'', JStr (kind_text (tr_turn_kind req))), (py ''intent'', intent_text (tr_turn_intent req))])]
      else []) @
     [(py ''sources'', JList (map (\<lambda>e. JDict [(py ''chunk_id'', JStr (uuid_str (ev_chunk_id e))), (py ''text'', JStr (ev_content e))])
        (tr_evidence req)))])"

definition context_style :: "(fval \<Rightarrow> pystr) \<Rightarrow> json_style" where
  "context_style float_text = \<lparr>js_ascii = False, js_item_separator = py '', '', js_key_separator = py '': '',
     js_sort_keys = False, js_float = float_text\<rparr>"

text \<open>\<open>policies\<close> are the system policy and its addition for Gemini.\<close>

definition chat_payload ::
  "unicode_db \<Rightarrow> (fval \<Rightarrow> pystr) \<Rightarrow> pystr \<times> pystr \<Rightarrow> json \<Rightarrow> tutor_choice \<Rightarrow> tutor_request \<Rightarrow> (exn, json) result" where
  "chat_payload u float_text policies contract t req =
     bindE (response_schema u contract t) (\<lambda>schema.
       Inr (JDict (
         [(py ''model'', JStr (tu_model t)),
          (py ''messages'', JList [
             JDict [(py ''role'', JStr (py ''system'')),
                    (py ''content'', JStr (fst policies @ (if is_gemini u t then snd policies else [])))],
             JDict [(py ''role'', JStr (py ''user'')),
                    (py ''content'', JStr (json_text (context_style float_text) (chat_context req)))]]),
          (py ''stream'', JBool False), (py ''max_completion_tokens'', JInt (tu_max_output_tokens t)),
          (py ''response_format'', JDict [(py ''type'', JStr (py ''json_schema'')),
             (py ''json_schema'', JDict [(py ''name'', JStr (py ''docta_tutor_v2'')), (py ''strict'', JBool True),
                (py ''schema'', schema)])])] @
         (if is_gemini u t then [] else [(py ''store'', JBool False)]) @
         (if tu_provider t = Provider_unsloth
          then [(py ''max_tokens'', JInt (tu_max_output_tokens t)), (py ''enable_thinking'', JBool False),
                (py ''enable_tools'', JBool False), (py ''mcp_enabled'', JBool False)] else []))))"

section \<open>The answer\<close>

text \<open>A response that failed, or the pieces of its body; \<open>broken\<close> says whether the connection fails
  after them.\<close>

datatype chat_response = Chat_http_error | Chat_stream "bytes list" bool

fun read_body :: "bytes \<Rightarrow> bytes list \<Rightarrow> bool \<Rightarrow> (exn, bytes) result" where
  "read_body body [] broken = (if broken then Inl (RAGFailure ''MODEL_UNAVAILABLE'') else Inr body)"
| "read_body body (data # rest) broken =
     (if length (body @ data) > 128000 then Inl (RAGFailure ''MODEL_OUTPUT_INVALID'')
      else read_body (body @ data) rest broken)"

text \<open>\<open>v[k]\<close> for a text, \<open>v[0]\<close> and \<open>v.get(k)\<close>.\<close>

fun py_item :: "json \<Rightarrow> pystr \<Rightarrow> (exn, json) result" where
  "py_item (JDict kvs) k = (case map_of kvs k of None \<Rightarrow> Inl KeyError | Some v \<Rightarrow> Inr v)"
| "py_item _ k = Inl TypeError"

fun py_first :: "json \<Rightarrow> (exn, json) result" where
  "py_first (JList []) = Inl IndexError"
| "py_first (JList (x # xs)) = Inr x"
| "py_first (JStr []) = Inl IndexError"
| "py_first (JStr (c # cs)) = Inr (JStr [c])"
| "py_first (JDict _) = Inl KeyError"
| "py_first _ = Inl TypeError"

fun py_get :: "json \<Rightarrow> pystr \<Rightarrow> (exn, json) result" where
  "py_get (JDict kvs) k = Inr (case map_of kvs k of None \<Rightarrow> JNull | Some v \<Rightarrow> v)"
| "py_get _ k = Inl AttributeError"

definition choice_content :: "json \<Rightarrow> (exn, json) result" where
  "choice_content decoded =
     bindE (py_item decoded (py ''choices'')) (\<lambda>choices.
     bindE (py_first choices) (\<lambda>choice.
     bindE (py_item choice (py ''finish_reason'')) (\<lambda>reason.
       if reason \<noteq> JStr (py ''stop'') then Inl (RAGFailure ''MODEL_OUTPUT_INVALID'')
       else bindE (py_item choice (py ''message'')) (\<lambda>msg.
            bindE (py_get msg (py ''refusal'')) (\<lambda>refusal.
              if truthy refusal then Inl (RAGFailure ''MODEL_OUTPUT_INVALID'')
              else py_item msg (py ''content''))))))"

text \<open>The lists of a Gemini answer become one list of tagged blocks, in the order of the fields.\<close>

definition block_tag :: "pystr \<Rightarrow> pystr" where
  "block_tag block_type = map ascii_lower (take (length block_type - 5) block_type)"

fun untagged_blocks :: "json option \<Rightarrow> (pystr \<times> json) list list option" where
  "untagged_blocks (Some (JList xs)) =
     (if list_all (\<lambda>x. case x of JDict kvs \<Rightarrow> map_of kvs (py ''type'') = None | _ \<Rightarrow> False) xs
      then Some (map (\<lambda>x. case x of JDict kvs \<Rightarrow> kvs | _ \<Rightarrow> []) xs) else None)"
| "untagged_blocks _ = None"

definition gemini_blocks :: "(pystr \<times> json) list \<Rightarrow> (pystr \<times> json) list" where
  "gemini_blocks data =
     (if map_of data (py ''blocks'') = None \<and> map_of data (py ''version'') = None \<and>
         list_all (\<lambda>(key, _). untagged_blocks (map_of data key) \<noteq> None) GEMINI_BLOCK_FIELDS
      then let blocks = concat (map (\<lambda>(key, block_type).
                 map (\<lambda>kvs. JDict ((py ''type'', JStr (block_tag block_type)) # kvs)) (the (untagged_blocks (map_of data key))))
                 GEMINI_BLOCK_FIELDS);
               popped = foldl (\<lambda>d (key, _). del_member key d) data GEMINI_BLOCK_FIELDS
           in set_member (py ''version'') (JStr (py ''tutor-intervention-v2'')) (set_member (py ''blocks'') (JList blocks) popped)
      else data)"

definition allowed_fields :: "(pystr \<times> pystr list) list" where
  "allowed_fields =
     [(py ''question'', [py ''type'', py ''text'']), (py ''hint'', [py ''type'', py ''level'', py ''text'']),
      (py ''explanation'', [py ''type'', py ''title'', py ''text'']),
      (py ''diagram'', [py ''type'', py ''kind'', py ''title'', py ''nodes'', py ''edges'']),
      (py ''activity'', [py ''type'', py ''question'', py ''options'', py ''correct_option_id'', py ''hint'', py ''explanation'']),
      (py ''sources'', [py ''type'', py ''citation_indexes''])]"

definition block_default :: "pystr \<Rightarrow> (pystr \<times> json) option" where
  "block_default b_type = map_of
     [(py ''explanation'', (py ''title'', JStr (py ''Explicaci'' @ [243] @ py ''n''))),
      (py ''diagram'', (py ''title'', JStr (py ''Diagrama''))), (py ''hint'', (py ''level'', JInt 1))] b_type"

fun int_value :: "json \<Rightarrow> int option" where
  "int_value (JInt i) = Some i"
| "int_value (JBool b) = Some (if b then 1 else 0)"
| "int_value _ = None"

definition valid_indexes :: "nat \<Rightarrow> json list \<Rightarrow> json list" where
  "valid_indexes n indexes =
     (let valid = filter (\<lambda>x. case int_value x of None \<Rightarrow> False | Some i \<Rightarrow> 0 \<le> i \<and> i < int n) indexes;
          valid' = (if valid = [] \<and> n > 0 then map (\<lambda>i. JInt (int i)) [0..<n] else valid)
      in if valid' = [] then [JInt 0] else valid')"

text \<open>One block: \<open>None\<close> leaves it out; a \<open>type\<close> that cannot be hashed raises.\<close>

definition clean_members :: "nat \<Rightarrow> pystr \<Rightarrow> pystr list \<Rightarrow> (pystr \<times> json) list \<Rightarrow> (pystr \<times> json) list" where
  "clean_members n b_type allowed kvs =
     (let filtered = filter (\<lambda>(k, _). k \<in> set allowed) kvs;
          defaulted = (case block_default b_type of None \<Rightarrow> filtered
            | Some (k, v) \<Rightarrow> (case map_of filtered k of None \<Rightarrow> set_member k v filtered
                | Some w \<Rightarrow> if truthy w then filtered else set_member k v filtered))
      in if b_type = py ''sources''
         then (case map_of defaulted (py ''citation_indexes'') of
                 Some (JList indexes) \<Rightarrow> set_member (py ''citation_indexes'') (JList (valid_indexes n indexes)) defaulted
               | _ \<Rightarrow> defaulted)
         else defaulted)"

fun clean_block :: "nat \<Rightarrow> json \<Rightarrow> (exn, json option) result" where
  "clean_block n (JDict kvs) =
     (case map_of kvs (py ''type'') of
        Some (JStr b_type) \<Rightarrow>
          (case map_of allowed_fields b_type of
             None \<Rightarrow> Inr None
           | Some allowed \<Rightarrow> Inr (Some (JDict (clean_members n b_type allowed kvs))))
      | Some (JList _) \<Rightarrow> Inl TypeError
      | Some (JDict _) \<Rightarrow> Inl TypeError
      | _ \<Rightarrow> Inr None)"
| "clean_block n _ = Inr None"

definition num_citations :: "(pystr \<times> json) list \<Rightarrow> nat" where
  "num_citations data = (case map_of data (py ''citations'') of Some (JList cs) \<Rightarrow> length cs | _ \<Rightarrow> 0)"

definition repair :: "bool \<Rightarrow> json \<Rightarrow> (exn, json) result" where
  "repair gemini data =
     (case data of
        JDict kvs \<Rightarrow>
          let kvs' = (if gemini then gemini_blocks kvs else kvs)
          in (case map_of kvs' (py ''blocks'') of
                Some (JList blocks) \<Rightarrow>
                  bindE (mapE (clean_block (num_citations kvs')) blocks) (\<lambda>cleaned.
                    Inr (JDict (set_member (py ''blocks'') (JList (map the (filter (\<lambda>b. b \<noteq> None) cleaned))) kvs')))
              | _ \<Rightarrow> Inr (JDict kvs'))
      | _ \<Rightarrow> Inr data)"

text \<open>What Pydantic and the JSON decoder make of a value or a text.\<close>

record decoders =
  dc_loads_body :: "bytes \<Rightarrow> (exn, json) result"
  dc_loads :: "json \<Rightarrow> (exn, json) result"
  dc_intervention :: "json \<Rightarrow> (exn, tutor_intervention) result"
  dc_intervention_text :: "json \<Rightarrow> (exn, tutor_intervention) result"
  dc_draft_text :: "json \<Rightarrow> (exn, tutor_draft) result"

definition otherwise :: "('e, 'a) result \<Rightarrow> ('e, 'a) result \<Rightarrow> ('e, 'a) result" where
  "otherwise r r' = (case r of Inl _ \<Rightarrow> r' | Inr x \<Rightarrow> Inr x)"

definition draft_of_content :: "decoders \<Rightarrow> bool \<Rightarrow> json \<Rightarrow> (exn, tutor_draft) result" where
  "draft_of_content dec gemini content =
     otherwise (bindE (dc_loads dec content) (\<lambda>data. bindE (repair gemini data) (\<lambda>data.
                  bindE (dc_intervention dec data) draft_from_intervention)))
       (otherwise (bindE (dc_intervention_text dec content) draft_from_intervention) (dc_draft_text dec content))"

text \<open>The \<open>except\<close> clauses of \<open>generate\<close>; a \<open>RAGFailure\<close> passes.\<close>

fun generate_error :: "exn \<Rightarrow> exn" where
  "generate_error (ValueError x) = RAGFailure ''MODEL_OUTPUT_INVALID''"
| "generate_error KeyError = RAGFailure ''MODEL_OUTPUT_INVALID''"
| "generate_error IndexError = RAGFailure ''MODEL_OUTPUT_INVALID''"
| "generate_error TypeError = RAGFailure ''MODEL_OUTPUT_INVALID''"
| "generate_error e = e"

definition draft_of_response :: "decoders \<Rightarrow> bool \<Rightarrow> chat_response \<Rightarrow> (exn, tutor_draft) result" where
  "draft_of_response dec gemini response =
     (case response of
        Chat_http_error \<Rightarrow> Inl (RAGFailure ''MODEL_UNAVAILABLE'')
      | Chat_stream pieces broken \<Rightarrow>
          (case bindE (read_body [] pieces broken) (\<lambda>body.
                bindE (dc_loads_body dec body) (\<lambda>decoded.
                bindE (choice_content decoded) (draft_of_content dec gemini))) of
             Inl e \<Rightarrow> Inl (generate_error e) | Inr d \<Rightarrow> Inr d))"

definition generate ::
  "unicode_db \<Rightarrow> (fval \<Rightarrow> pystr) \<Rightarrow> pystr \<times> pystr \<Rightarrow> json \<Rightarrow> decoders \<Rightarrow> tutor_choice option \<Rightarrow> (json \<Rightarrow> chat_response) \<Rightarrow>
   tutor_request \<Rightarrow> (exn, tutor_draft) result" where
  "generate u float_text policies contract dec choice post req =
     (case choice of
        None \<Rightarrow> Inl (RAGFailure ''MODEL_NOT_CONFIGURED'')
      | Some t \<Rightarrow>
          bindE (chat_payload u float_text policies contract t req) (\<lambda>payload.
            draft_of_response dec (is_gemini u t) (post payload)))"

section \<open>Schemas without the refused keywords\<close>

text \<open>No member at any depth has one of the names.\<close>

primrec no_key :: "pystr set \<Rightarrow> json \<Rightarrow> bool" where
  "no_key ks JNull = True"
| "no_key ks (JBool b) = True"
| "no_key ks (JInt i) = True"
| "no_key ks (JFloat x) = True"
| "no_key ks (JStr s) = True"
| "no_key ks (JList xs) = list_all id (map (no_key ks) xs)"
| "no_key ks (JDict kvs) = list_all (\<lambda>(k, b). k \<notin> ks \<and> b) (map (map_prod id (no_key ks)) kvs)"

lemma no_key_JDict: "no_key ks (JDict kvs) \<longleftrightarrow> (\<forall>(k, v) \<in> set kvs. k \<notin> ks \<and> no_key ks v)"
  by (auto simp: list_all_iff)

lemma no_key_JList: "no_key ks (JList xs) \<longleftrightarrow> (\<forall>x \<in> set xs. no_key ks x)"
  by (auto simp: list_all_iff)

declare no_key.simps(6,7) [simp del]

lemma drop_keys_no_key: "no_key ks (drop_keys ks j)"
proof (induction j)
  case (JDict kvs)
  then show ?case by (fastforce simp: no_key_JDict)
qed (auto simp: no_key_JList)

lemma drop_keys_keeps: "no_key ks j \<Longrightarrow> no_key ks (drop_keys ks' j)"
proof (induction j)
  case (JDict kvs)
  then show ?case by (fastforce simp: no_key_JDict)
qed (auto simp: no_key_JList)

lemma set_member_set: "set (set_member k v kvs) \<subseteq> insert (k, v) (set kvs)"
  by (induction kvs) (auto split: if_splits)

lemma no_key_set_member:
  "no_key ks (JDict kvs) \<Longrightarrow> k \<notin> ks \<Longrightarrow> no_key ks v \<Longrightarrow> no_key ks (JDict (set_member k v kvs))"
  using set_member_set [of k v kvs] by (fastforce simp: no_key_JDict)

lemma no_key_lookup: "no_key ks (JDict kvs) \<Longrightarrow> map_of kvs k = Some v \<Longrightarrow> k \<notin> ks \<and> no_key ks v"
  using map_of_SomeD by (fastforce simp: no_key_JDict)

definition union_keys :: "pystr set" where
  "union_keys = {py ''oneOf'', py ''discriminator''}"

lemma renamed_key_fine: "k \<noteq> py ''discriminator'' \<Longrightarrow> renamed_key k \<notin> union_keys"
  by (auto simp: renamed_key_def union_keys_def py_def)

lemma without_discriminator_no_key: "no_key union_keys (without_discriminator j)"
proof (induction j)
  case (JDict kvs)
  let ?f = "\<lambda>acc (k, v). set_member (renamed_key k) v acc"
  have fold: "no_key union_keys (JDict (foldl ?f acc xs))"
    if "no_key union_keys (JDict acc)" "\<forall>(k, v) \<in> set xs. k \<noteq> py ''discriminator'' \<and> no_key union_keys v" for acc xs
    using that
  proof (induction xs arbitrary: acc)
    case (Cons x xs)
    obtain k v where x: "x = (k, v)" by (cases x)
    have "no_key union_keys (JDict (set_member (renamed_key k) v acc))"
      using Cons.prems x renamed_key_fine by (intro no_key_set_member) auto
    then show ?case using Cons x by simp
  qed simp
  have "no_key union_keys v" if "(k, v) \<in> set (map (map_prod id without_discriminator) kvs)" for k v
    using that JDict by fastforce
  then show ?case
    unfolding without_discriminator.simps by (intro fold) (auto simp: no_key_JDict)
qed (auto simp: no_key_JList)

lemma update_member_keeps:
  assumes "update_member k f j = Inr j'" "no_key ks j" "\<And>v w. no_key ks v \<Longrightarrow> f v = Inr w \<Longrightarrow> no_key ks w"
  shows "no_key ks j'"
proof -
  obtain kvs v w where j: "j = JDict kvs" "map_of kvs k = Some v" "f v = Inr w" "j' = JDict (set_member k w kvs)"
    using assms(1) by (cases j) (auto simp: bindE_eq_Inr split: option.splits)
  have v: "k \<notin> ks" "no_key ks v" using no_key_lookup [of ks kvs k v] j assms(2) by simp_all
  have "no_key ks w" using assms(3) v(2) j(3) by blast
  then show ?thesis using no_key_set_member [of ks kvs k w] j v assms(2) by simp
qed

lemma small_keeps:
  "assign_member k v j = Inr j' \<Longrightarrow> no_key ks j \<Longrightarrow> k \<notin> ks \<Longrightarrow> no_key ks v \<Longrightarrow> no_key ks j'"
  "delete_member k j = Inr j' \<Longrightarrow> no_key ks j \<Longrightarrow> no_key ks j'"
  "remove_item x j = Inr j' \<Longrightarrow> no_key ks j \<Longrightarrow> no_key ks j'"
  "append_item x j = Inr j' \<Longrightarrow> no_key ks j \<Longrightarrow> no_key ks x \<Longrightarrow> no_key ks j'"
proof -
  show "assign_member k v j = Inr j' \<Longrightarrow> no_key ks j \<Longrightarrow> k \<notin> ks \<Longrightarrow> no_key ks v \<Longrightarrow> no_key ks j'"
    using no_key_set_member by (cases j) auto
  show "delete_member k j = Inr j' \<Longrightarrow> no_key ks j \<Longrightarrow> no_key ks j'"
    by (cases j) (auto simp: no_key_JDict del_member_def split: if_splits)
  show "remove_item x j = Inr j' \<Longrightarrow> no_key ks j \<Longrightarrow> no_key ks j'"
    using set_remove1_subset by (cases j) (fastforce simp: no_key_JList split: if_splits)+
  show "append_item x j = Inr j' \<Longrightarrow> no_key ks j \<Longrightarrow> no_key ks x \<Longrightarrow> no_key ks j'"
    by (cases j) (auto simp: no_key_JList)
qed

lemma gemini_field_keeps:
  assumes "gemini_field name block_type s = Inr s'" "no_key ks s" "name \<notin> ks"
    "ks \<inter> {py ''type'', py ''items'', py ''$ref''} = {}"
  shows "no_key ks s'"
proof -
  let ?ref = "JDict [(py ''type'', JStr (py ''array'')), (py ''items'', JDict [(py ''$ref'', JStr (py ''#/$defs/'' @ block_type))])]"
  have r: "no_key ks ?ref" using assms(4) by (auto simp: no_key_JDict)
  obtain s1 s2 where u: "update_member (py ''$defs'') (update_member block_type (\<lambda>b.
              bindE (update_member (py ''properties'') (delete_member (py ''type'')) b)
                (update_member (py ''required'') (remove_item (JStr (py ''type'')))))) s = Inr s1"
    "update_member (py ''properties'') (assign_member name ?ref) s1 = Inr s2"
    "update_member (py ''required'') (append_item (JStr name)) s2 = Inr s'"
    using assms(1) by (auto simp: gemini_field_def bindE_eq_Inr)
  have "no_key ks w" if "bindE (update_member (py ''properties'') (delete_member (py ''type'')) b)
      (update_member (py ''required'') (remove_item (JStr (py ''type'')))) = Inr w" "no_key ks b" for b w
  proof -
    note h = that
    obtain b1 where b: "update_member (py ''properties'') (delete_member (py ''type'')) b = Inr b1"
      "update_member (py ''required'') (remove_item (JStr (py ''type''))) b1 = Inr w"
      using h(1) by (auto simp: bindE_eq_Inr)
    have "no_key ks b1" by (rule update_member_keeps [OF b(1) h(2)]) (erule small_keeps(2))
    then show ?thesis by (rule update_member_keeps [OF b(2)]) (erule small_keeps(3))
  qed
  then have "no_key ks s1"
    by (intro update_member_keeps [OF u(1) assms(2)]) (erule update_member_keeps, assumption, blast)
  then have "no_key ks s2"
    by (rule update_member_keeps [OF u(2)]) (erule small_keeps(1), use assms(3) r in auto)
  then show ?thesis by (rule update_member_keeps [OF u(3)]) (erule small_keeps(4), auto)
qed

lemma gemini_schema_keeps:
  assumes "gemini_schema s = Inr s'" "no_key ks s" "ks \<inter> fst ` set GEMINI_BLOCK_FIELDS = {}"
    "ks \<inter> {py ''type'', py ''items'', py ''$ref''} = {}"
  shows "no_key ks s'" "no_key {py ''minItems'', py ''maxItems''} s'"
proof -
  obtain s1 s2 s3 s4 s5 where u:
    "update_member (py ''properties'') (delete_member (py ''blocks'')) s = Inr s1"
    "update_member (py ''required'') (remove_item (JStr (py ''blocks''))) s1 = Inr s2"
    "update_member (py ''properties'') (delete_member (py ''version'')) s2 = Inr s3"
    "update_member (py ''required'') (remove_item (JStr (py ''version''))) s3 = Inr s4"
    "gemini_fields GEMINI_BLOCK_FIELDS s4 = Inr s5" "s' = drop_keys {py ''minItems'', py ''maxItems''} s5"
    using assms(1) by (auto simp: gemini_schema_def bindE_eq_Inr)
  have "no_key ks s1" by (rule update_member_keeps [OF u(1) assms(2)]) (erule small_keeps(2))
  then have "no_key ks s2" by (rule update_member_keeps [OF u(2)]) (erule small_keeps(3))
  then have "no_key ks s3" by (rule update_member_keeps [OF u(3)]) (erule small_keeps(2))
  then have s4: "no_key ks s4" by (rule update_member_keeps [OF u(4)]) (erule small_keeps(3))
  have "no_key ks y" if "gemini_fields fs x = Inr y" "no_key ks x" "ks \<inter> fst ` set fs = {}" for fs x y
    using that
  proof (induction fs x rule: gemini_fields.induct)
    case (2 name block_type rest x)
    then obtain x1 where x1: "gemini_field name block_type x = Inr x1" "gemini_fields rest x1 = Inr y"
      by (auto simp: bindE_eq_Inr)
    have "no_key ks x1" by (rule gemini_field_keeps [OF x1(1) 2(3) _ assms(4)]) (use 2(4) in auto)
    then show ?case using 2(1) x1(2) 2(4) by auto
  qed simp
  from this [OF u(5) s4 assms(3)] have "no_key ks s5" .
  then show "no_key ks s'" unfolding u(6) by (rule drop_keys_keeps)
  show "no_key {py ''minItems'', py ''maxItems''} s'" unfolding u(6) by (rule drop_keys_no_key)
qed

text \<open>The schema sent has none of the keywords its receiver refuses, at any depth: never \<open>oneOf\<close> or a
  discriminator; no bounds of arrays for Gemini; no \<open>maxLength\<close> for llama.cpp.\<close>

lemma schema_portable:
  assumes "response_schema u contract t = Inr schema"
  shows "no_key {py ''oneOf'', py ''discriminator''} schema \<and>
    (if is_gemini u t then no_key {py ''minItems'', py ''maxItems''} schema else True) \<and>
    (if tu_schema_profile t = Schema_llama_cpp then no_key {py ''maxLength''} schema else True)"
proof -
  obtain s1 s2 where s: "(if is_gemini u t then gemini_schema (without_discriminator s1)
      else Inr (without_discriminator s1)) = Inr s2"
    "Inr (if tu_schema_profile t = Schema_llama_cpp then drop_keys {py ''maxLength''} s2 else s2) = (Inr schema :: (exn, json) result)"
    using assms unfolding response_schema_def bindE_eq_Inr by blast
  have w: "no_key union_keys (without_discriminator s1)" by (rule without_discriminator_no_key)
  have d: "union_keys \<inter> fst ` set GEMINI_BLOCK_FIELDS = {}" "union_keys \<inter> {py ''type'', py ''items'', py ''$ref''} = {}"
    by (auto simp: union_keys_def GEMINI_BLOCK_FIELDS_def py_def)
  have k: "no_key union_keys s2" "is_gemini u t \<Longrightarrow> no_key {py ''minItems'', py ''maxItems''} s2"
    using s(1) w gemini_schema_keeps [OF _ w d] by (simp_all split: if_splits)
  have schema: "schema = (if tu_schema_profile t = Schema_llama_cpp then drop_keys {py ''maxLength''} s2 else s2)"
    using s(2) by simp
  show ?thesis
    unfolding union_keys_def [symmetric] schema
    using k drop_keys_keeps drop_keys_no_key by (auto split: if_splits)
qed

section \<open>Repaired blocks\<close>

text \<open>What the repair promises of a block, where the answer has \<open>n\<close> citations.\<close>

definition clean_result :: "nat \<Rightarrow> json \<Rightarrow> bool" where
  "clean_result n b \<longleftrightarrow>
     (case b of JDict kvs \<Rightarrow> (case map_of kvs (py ''type'') of
          Some (JStr t) \<Rightarrow> (case map_of allowed_fields t of None \<Rightarrow> False
             | Some allowed \<Rightarrow> fst ` set kvs \<subseteq> set allowed \<and>
                 (case block_default t of None \<Rightarrow> True
                  | Some (k, _) \<Rightarrow> (case map_of kvs k of None \<Rightarrow> False | Some v \<Rightarrow> truthy v)) \<and>
                 (if t = py ''sources'' then (case map_of kvs (py ''citation_indexes'') of
                    Some (JList xs) \<Rightarrow> xs \<noteq> [] \<and> list_all (\<lambda>x. case int_value x of None \<Rightarrow> False
                       | Some i \<Rightarrow> 0 \<le> i \<and> i < int (max 1 n)) xs
                  | _ \<Rightarrow> True) else True))
        | _ \<Rightarrow> False)
      | _ \<Rightarrow> False)"

lemma valid_indexes_fine:
  "valid_indexes n xs \<noteq> []"
  "list_all (\<lambda>x. case int_value x of None \<Rightarrow> False | Some i \<Rightarrow> 0 \<le> i \<and> i < int (max 1 n)) (valid_indexes n xs)"
  by (auto simp: valid_indexes_def Let_def list_all_iff split: option.splits)

lemma set_member_keys: "fst ` set (set_member k v kvs) = insert k (fst ` set kvs)"
proof (induction kvs)
  case (Cons x xs)
  then show ?case by (cases x) (simp add: insert_commute)
qed simp

lemma map_of_filter_keys: "map_of (filter (\<lambda>(k, _). k \<in> S) kvs) k = (if k \<in> S then map_of kvs k else None)"
  by (induction kvs) auto

lemma allowed_fields_facts:
  assumes "map_of allowed_fields t = Some allowed"
  shows "py ''type'' \<in> set allowed" "t = py ''sources'' \<Longrightarrow> py ''citation_indexes'' \<in> set allowed"
    "block_default t = Some (k, v) \<Longrightarrow> k \<in> set allowed \<and> k \<noteq> py ''type'' \<and> truthy v \<and> t \<noteq> py ''sources''"
    "t = py ''sources'' \<Longrightarrow> block_default t = None"
  using assms by (auto simp: allowed_fields_def block_default_def py_def split: if_splits)

lemma clean_members_fine:
  assumes "map_of kvs (py ''type'') = Some (JStr t)" "map_of allowed_fields t = Some allowed"
  shows "clean_result n (JDict (clean_members n t allowed kvs))"
proof -
  note a = allowed_fields_facts [OF assms(2)]
  define filtered where "filtered = filter (\<lambda>(k, _). k \<in> set allowed) kvs"
  have f: "map_of filtered (py ''type'') = Some (JStr t)" "fst ` set filtered \<subseteq> set allowed"
    using a(1) assms(1) by (auto simp: filtered_def map_of_filter_keys)
  have ne: "py ''type'' \<noteq> py ''citation_indexes''" by (simp add: py_def)
  consider (sources) "t = py ''sources''" | (none) "block_default t = None" "t \<noteq> py ''sources''"
    | (default) k v where "block_default t = Some (k, v)" "t \<noteq> py ''sources''"
    by (cases "block_default t") auto
  then show ?thesis
  proof cases
    case sources
    have m: "clean_members n t allowed kvs = (case map_of filtered (py ''citation_indexes'') of
        Some (JList xs) \<Rightarrow> set_member (py ''citation_indexes'') (JList (valid_indexes n xs)) filtered | _ \<Rightarrow> filtered)"
      using a(4) sources by (simp add: clean_members_def filtered_def [symmetric])
    have s: "block_default t = None" "py ''citation_indexes'' \<in> set allowed" using a(2,4) sources by simp_all
    show ?thesis
    proof (cases "\<exists>xs. map_of filtered (py ''citation_indexes'') = Some (JList xs)")
      case True
      then obtain xs where xs: "map_of filtered (py ''citation_indexes'') = Some (JList xs)" by blast
      have m': "clean_members n t allowed kvs =
          set_member (py ''citation_indexes'') (JList (valid_indexes n xs)) filtered" by (simp add: m xs)
      show ?thesis
        using f s ne assms(2) unfolding clean_result_def m'
        by (simp add: set_member_lookup set_member_keys valid_indexes_fine del: of_nat_max)
    next
      case False
      have other: "(case map_of filtered (py ''citation_indexes'') of Some (JList xs) \<Rightarrow> P xs | _ \<Rightarrow> y) = y" for P :: "json list \<Rightarrow> 'b" and y
        using False by (auto split: option.split json.split)
      have "clean_members n t allowed kvs = filtered" unfolding m other ..
      then show ?thesis using f s assms(2) by (simp add: clean_result_def other)
    qed
  next
    case none
    then have "clean_members n t allowed kvs = filtered" by (simp add: clean_members_def filtered_def)
    then show ?thesis using f none assms(2) by (simp add: clean_result_def)
  next
    case (default k v)
    have k: "k \<in> set allowed" "k \<noteq> py ''type''" "truthy v" using a(3) default by auto
    have "clean_members n t allowed kvs = (case map_of filtered k of None \<Rightarrow> set_member k v filtered
        | Some w \<Rightarrow> if truthy w then filtered else set_member k v filtered)"
      using default by (simp add: clean_members_def filtered_def [symmetric] Let_def)
    then show ?thesis
      using f k default assms(2)
      by (cases "map_of filtered k") (simp_all add: clean_result_def set_member_lookup set_member_keys)
  qed
qed

lemma clean_block_fine: "clean_block n b = Inr (Some b') \<Longrightarrow> clean_result n b'"
  by (cases b) (auto simp: clean_members_fine split: option.splits json.splits)

text \<open>C29: repairing an answer never invents a reference. After the repair every block has a known type,
  only the fields of its type and the field its type has a default for; the sources it refers to,
  where they are a list, are a non-empty list of positions in the list of citations, or the position
  0 where there is none: no negative position survives.\<close>

theorem repair_never_invents:
  assumes "repair gemini data = Inr (JDict kvs)" "map_of kvs (py ''blocks'') = Some (JList blocks)"
  shows "list_all (clean_result (num_citations kvs)) blocks"
proof -
  obtain d where d: "data = JDict d" using assms(1) by (cases data) (auto simp: repair_def)
  define d' where "d' = (if gemini then gemini_blocks d else d)"
  have ne: "py ''citations'' \<noteq> py ''blocks''" by (simp add: py_def)
  show ?thesis
  proof (cases "\<exists>bs. map_of d' (py ''blocks'') = Some (JList bs)")
    case True
    then obtain bs where bs: "map_of d' (py ''blocks'') = Some (JList bs)" by blast
    have "repair gemini data = bindE (mapE (clean_block (num_citations d')) bs) (\<lambda>cleaned.
        Inr (JDict (set_member (py ''blocks'') (JList (map the (filter (\<lambda>b. b \<noteq> None) cleaned))) d')))"
      unfolding repair_def d json.case Let_def d'_def [symmetric] bs option.case ..
    then have "bindE (mapE (clean_block (num_citations d')) bs) (\<lambda>cleaned.
        Inr (JDict (set_member (py ''blocks'') (JList (map the (filter (\<lambda>b. b \<noteq> None) cleaned))) d'))) = Inr (JDict kvs)"
      using assms(1) by (simp only:)
    then obtain cleaned where c: "mapE (clean_block (num_citations d')) bs = Inr cleaned"
      "kvs = set_member (py ''blocks'') (JList (map the (filter (\<lambda>b. b \<noteq> None) cleaned))) d'"
      by (auto simp: bindE_eq_Inr)
    have n: "num_citations kvs = num_citations d'" using ne by (simp add: num_citations_def c(2) set_member_lookup)
    have blocks: "blocks = map the (filter (\<lambda>b. b \<noteq> None) cleaned)"
      using assms(2) by (simp add: c(2) set_member_lookup)
    have "list_all2 (\<lambda>x y. clean_block (num_citations d') x = Inr y) bs cleaned"
      using c(1) by (simp add: mapE_Inr_iff)
    then have "clean_result (num_citations d') y" if "Some y \<in> set cleaned" for y
      using that clean_block_fine by (fastforce simp: list_all2_conv_all_nth in_set_conv_nth)
    then show ?thesis unfolding n blocks by (auto simp: list_all_iff)
  next
    case False
    have "repair gemini data = Inr (JDict d')"
      unfolding repair_def d json.case Let_def d'_def [symmetric]
      using False by (simp split: option.split json.split)
    then have "kvs = d'" using assms(1) by (simp only: sum.inject json.inject)
    then show ?thesis using False assms(2) by blast
  qed
qed


section \<open>What the caller gets\<close>

lemma read_body_Inr:
  "read_body body pieces broken = Inr b \<Longrightarrow> length body \<le> 128000 \<Longrightarrow> b = body @ concat pieces \<and> length b \<le> 128000"
  by (induction body pieces broken rule: read_body.induct) (auto split: if_splits)

lemma read_body_Inl:
  "read_body body pieces broken = Inl e \<Longrightarrow> e = RAGFailure ''MODEL_UNAVAILABLE'' \<or> e = RAGFailure ''MODEL_OUTPUT_INVALID''"
  by (induction body pieces broken rule: read_body.induct) (auto split: if_splits)

lemma py_access_Inl:
  "py_item v k = Inl e \<Longrightarrow> e = KeyError \<or> e = TypeError"
  "py_first v = Inl e \<Longrightarrow> e = KeyError \<or> e = TypeError \<or> e = IndexError"
  "py_get v k = Inl e \<Longrightarrow> e = AttributeError"
proof -
  show "py_item v k = Inl e \<Longrightarrow> e = KeyError \<or> e = TypeError" by (cases v) (auto split: option.splits)
  show "py_first v = Inl e \<Longrightarrow> e = KeyError \<or> e = TypeError \<or> e = IndexError" by (cases v rule: py_first.cases) auto
  show "py_get v k = Inl e \<Longrightarrow> e = AttributeError" by (cases v) auto
qed

lemma choice_content_Inl:
  "choice_content v = Inl e \<Longrightarrow> generate_error e \<in> {RAGFailure ''MODEL_OUTPUT_INVALID'', AttributeError}"
  by (auto simp: choice_content_def bindE_eq_Inl split: if_splits dest!: py_access_Inl)

lemma draft_of_content_Inl: "draft_of_content dec g c = Inl e \<Longrightarrow> dc_draft_text dec c = Inl e"
  by (auto simp: draft_of_content_def otherwise_def split: sum.splits)

lemma draft_of_content_Inr:
  "draft_of_content dec g c = Inr d \<Longrightarrow> dc_draft_text dec c = Inr d \<or>
     (\<exists>i. draft_from_intervention i = Inr d \<and>
        (dc_intervention_text dec c = Inr i \<or> (\<exists>raw data. dc_loads dec c = Inr raw \<and> repair g raw = Inr data \<and> dc_intervention dec data = Inr i)))"
  by (auto simp: draft_of_content_def otherwise_def bindE_eq_Inr split: sum.splits)

lemma generate_error_cases: "generate_error e = RAGFailure ''MODEL_OUTPUT_INVALID'' \<or> generate_error e = e"
  by (cases e) simp_all

lemma draft_of_response_Inl:
  assumes "draft_of_response dec g r = Inl e"
  shows "e \<in> {RAGFailure ''MODEL_UNAVAILABLE'', RAGFailure ''MODEL_OUTPUT_INVALID'', AttributeError} \<or>
    (\<exists>b. length b \<le> 128000 \<and> dc_loads_body dec b = Inl e \<and> generate_error e = e) \<or>
    (\<exists>c. dc_draft_text dec c = Inl e \<and> generate_error e = e)"
proof (cases r)
  case Chat_http_error
  then show ?thesis using assms by (simp add: draft_of_response_def)
next
  case (Chat_stream pieces broken)
  then obtain e' where e': "e = generate_error e'" "bindE (read_body [] pieces broken) (\<lambda>body.
      bindE (dc_loads_body dec body) (\<lambda>decoded. bindE (choice_content decoded) (draft_of_content dec g))) = Inl e'"
    using assms by (auto simp: draft_of_response_def split: sum.splits)
  consider (read) "read_body [] pieces broken = Inl e'"
    | (loads) body where "read_body [] pieces broken = Inr body" "dc_loads_body dec body = Inl e'"
    | (choice) decoded where "choice_content decoded = Inl e'"
    | (content) c where "draft_of_content dec g c = Inl e'"
    using e'(2) by (auto simp: bindE_eq_Inl)
  then show ?thesis
  proof cases
    case read
    then show ?thesis using e'(1) by (auto dest: read_body_Inl)
  next
    case loads
    then show ?thesis using e'(1) read_body_Inr [OF loads(1)] generate_error_cases [of e'] by auto
  next
    case choice
    then show ?thesis using e'(1) choice_content_Inl [OF choice] by auto
  next
    case content
    then show ?thesis using e'(1) generate_error_cases [of e'] draft_of_content_Inl [OF content] by auto
  qed
qed

lemma draft_of_response_Inr:
  assumes "draft_of_response dec g r = Inr d"
  shows "\<exists>pieces body decoded content. body = concat pieces \<and> length body \<le> 128000 \<and>
    dc_loads_body dec body = Inr decoded \<and> choice_content decoded = Inr content \<and>
    (dc_draft_text dec content = Inr d \<or>
     (\<exists>i. draft_from_intervention i = Inr d \<and>
        (dc_intervention_text dec content = Inr i \<or> (\<exists>raw data. dc_loads dec content = Inr raw \<and> repair g raw = Inr data \<and> dc_intervention dec data = Inr i))))"
proof -
  obtain pieces broken where r: "r = Chat_stream pieces broken"
    using assms by (cases r) (simp_all add: draft_of_response_def)
  obtain body decoded content where c: "read_body [] pieces broken = Inr body" "dc_loads_body dec body = Inr decoded"
    "choice_content decoded = Inr content" "draft_of_content dec g content = Inr d"
    using assms by (auto simp: draft_of_response_def r bindE_eq_Inr split: sum.splits)
  have "body = concat pieces" "length body \<le> 128000" using read_body_Inr [OF c(1)] by auto
  then show ?thesis using c(2,3) draft_of_content_Inr [OF c(4)] by blast
qed


text \<open>An answer whose choice stopped but whose message is no object is not reported as an invalid
  output: the \<open>AttributeError\<close> of \<open>.get\<close> is not among the exceptions caught, and the turn fails with
  an internal error.\<close>

lemma malformed_message_escapes:
  assumes "length (concat pieces) \<le> 128000" "dc_loads_body dec (concat pieces) = Inr (JDict decoded)"
    "map_of decoded (py ''choices'') = Some (JList (JDict choice # rest))"
    "map_of choice (py ''finish_reason'') = Some (JStr (py ''stop''))"
    "map_of choice (py ''message'') = Some msg" "case msg of JDict _ \<Rightarrow> False | _ \<Rightarrow> True"
  shows "draft_of_response dec gemini (Chat_stream pieces False) = Inl AttributeError \<and>
    failure_code_of AttributeError = ''INTERNAL_ERROR''"
proof -
  have r: "read_body body ps False = Inr (body @ concat ps)" if "length (body @ concat ps) \<le> 128000" for body ps
    using that by (induction ps arbitrary: body) simp_all
  have "choice_content (JDict decoded) = Inl AttributeError"
    using assms(3-6) by (cases msg) (simp_all add: choice_content_def)
  then show ?thesis
    using assms(1,2) r [of "[]" pieces] by (simp add: draft_of_response_def failure_code_of_def)
qed

section \<open>Witnesses\<close>

definition sample_choice :: tutor_choice where
  "sample_choice = \<lparr>tu_endpoint = py ''h'', tu_model = py ''m'', tu_api_key = [], tu_timeout_seconds = 60,
     tu_max_output_tokens = 2000, tu_schema_profile = Schema_llama_cpp, tu_provider = Provider_unsloth\<rparr>"

definition sample_contract :: json where
  "sample_contract = JDict [(py ''properties'', JDict [(py ''version'', JNull),
     (py ''blocks'', JDict [(py ''oneOf'', JList [JDict [(py ''maxLength'', JInt 3)]]), (py ''discriminator'', JNull)])])]"

definition sample_schema :: json where
  "sample_schema = JDict [(py ''properties'', JDict [
     (py ''version'', JDict [(py ''type'', JStr (py ''string'')), (py ''const'', JStr (py ''tutor-intervention-v2''))]),
     (py ''blocks'', JDict [(py ''anyOf'', JList [JDict []])])])]"

lemma sample_schema_built: "response_schema ascii_db sample_contract sample_choice = Inr sample_schema"
proof -
  have "lower ascii_db (py ''h'') = py ''h''" "lower ascii_db (py ''m'') = py ''m''"
    by (simp_all add: lower_def py_def ascii_lower_def)
  then have "\<not> is_gemini ascii_db sample_choice"
    by (auto simp: is_gemini_def sample_choice_def GOOGLE_COMPAT_CHAT_COMPLETIONS_def py_def dest: sublist_length_le)
  then show ?thesis
    by (simp add: response_schema_def sample_contract_def sample_schema_def renamed_key_def sample_choice_def py_def)
qed

definition sample_answer :: "(pystr \<times> json) list" where
  "sample_answer = [(py ''citations'', JList [JNull, JNull]),
     (py ''blocks'', JList [
        JDict [(py ''type'', JStr (py ''sources'')), (py ''citation_indexes'', JList [JInt (-1), JInt 1, JInt 2]), (py ''url'', JNull)],
        JDict [(py ''type'', JStr (py ''html''))],
        JDict [(py ''type'', JStr (py ''hint'')), (py ''level'', JInt 0)]])]"

definition sample_repaired :: "json list" where
  "sample_repaired = [
     JDict [(py ''type'', JStr (py ''sources'')), (py ''citation_indexes'', JList [JInt 1])],
     JDict [(py ''type'', JStr (py ''hint'')), (py ''level'', JInt 1)]]"

lemma sample_answer_repaired:
  "repair False (JDict sample_answer) = Inr (JDict [(py ''citations'', JList [JNull, JNull]), (py ''blocks'', JList sample_repaired)])"
  by (simp add: repair_def sample_answer_def sample_repaired_def num_citations_def allowed_fields_def block_default_def
      clean_members_def valid_indexes_def py_def)

theorem repair_never_invents_witness:
  "list_all (clean_result 2) sample_repaired"
  using repair_never_invents [OF sample_answer_repaired, of sample_repaired]
  by (simp add: num_citations_def py_def numeral_2_eq_2)

lemma malformed_message_escapes_example:
  "\<exists>decoded. draft_of_response
     \<lparr>dc_loads_body = (\<lambda>b. if b = [1, 2] then Inr (JDict decoded) else Inl (ValueError ''json'')),
      dc_loads = (\<lambda>_. Inl TypeError), dc_intervention = (\<lambda>_. Inl TypeError), dc_intervention_text = (\<lambda>_. Inl TypeError),
      dc_draft_text = (\<lambda>_. Inl TypeError)\<rparr> False (Chat_stream [[1], [2]] False) = Inl AttributeError"
  using malformed_message_escapes [where pieces = "[[1], [2]]" and msg = JNull
      and decoded = "[(py ''choices'', JList [JDict [(py ''finish_reason'', JStr (py ''stop'')), (py ''message'', JNull)]])]"
      and choice = "[(py ''finish_reason'', JStr (py ''stop'')), (py ''message'', JNull)]" and rest = "[]" and gemini = False
      and dec = "\<lparr>dc_loads_body = (\<lambda>b. if b = [1, 2] then Inr (JDict [(py ''choices'',
        JList [JDict [(py ''finish_reason'', JStr (py ''stop'')), (py ''message'', JNull)]])]) else Inl (ValueError ''json'')),
      dc_loads = (\<lambda>_. Inl TypeError), dc_intervention = (\<lambda>_. Inl TypeError), dc_intervention_text = (\<lambda>_. Inl TypeError),
      dc_draft_text = (\<lambda>_. Inl TypeError)\<rparr>"]
  by (auto simp: py_def)

end
