(* ===== verification/Pdf_Parser.thy ===== *)
theory Pdf_Parser
  imports Processing
begin

text \<open>
  \<^verbatim>\<open>pymupdf_parser.py\<close>: from the bytes of an upload to numbered pages of plain text. PyMuPDF and the
  Unicode normalisation are parameters; the checks, their order and what becomes of the text are
  modelled.
\<close>

section \<open>Text of a page\<close>

text \<open>\<open>re.sub(r"(?<=\w)-\s*\n\s*(?=\w)", "", s)\<close>; \<open>previous\<close> is the character before the scanned position.
  No character is both a letter and white space, so the two runs of white space around the line
  break are all the white space there is.\<close>

function dehyphenate :: "unicode_db \<Rightarrow> nat option \<Rightarrow> pystr \<Rightarrow> pystr" where
  "dehyphenate u previous s =
     (case s of [] \<Rightarrow> []
      | c # cs \<Rightarrow>
          let run = takeWhile is_space cs; after = dropWhile is_space cs in
          if c = 45 \<and> (case previous of None \<Rightarrow> False | Some p \<Rightarrow> is_word u p) \<and> 10 \<in> set run \<and>
             after \<noteq> [] \<and> is_word u (hd after)
          then dehyphenate u (Some (last run)) after
          else c # dehyphenate u (Some c) cs)"
  by pat_completeness auto
termination
  by (relation "measure (\<lambda>(u, previous, s). length s)") (auto simp: less_Suc_eq_le length_dropWhile_le)

declare dehyphenate.simps [simp del]

function collapse :: "pystr \<Rightarrow> pystr" where
  "collapse s =
     (case s of [] \<Rightarrow> []
      | c # cs \<Rightarrow> if is_space c then 32 # collapse (dropWhile is_space cs) else c # collapse cs)"
  by pat_completeness auto
termination
  by (relation "measure length") (auto simp: less_Suc_eq_le length_dropWhile_le)

declare collapse.simps [simp del]

lemma collapse_simps [simp]:
  "collapse [] = []"
  "collapse (c # cs) = (if is_space c then 32 # collapse (dropWhile is_space cs) else c # collapse cs)"
  by (simp_all add: collapse.simps)

abbreviation hyphen_break :: "unicode_db \<Rightarrow> nat option \<Rightarrow> nat \<Rightarrow> pystr \<Rightarrow> bool" where
  "hyphen_break u previous c cs \<equiv>
     c = 45 \<and> (case previous of None \<Rightarrow> False | Some p \<Rightarrow> is_word u p) \<and> 10 \<in> set (takeWhile is_space cs) \<and>
     dropWhile is_space cs \<noteq> [] \<and> is_word u (hd (dropWhile is_space cs))"

lemma dehyphenate_Cons:
  "dehyphenate u p (c # cs) =
     (if hyphen_break u p c cs then dehyphenate u (Some (last (takeWhile is_space cs))) (dropWhile is_space cs)
      else c # dehyphenate u (Some c) cs)"
  by (subst dehyphenate.simps) (simp only: list.case Let_def)

lemma dehyphenate_simps:
  "dehyphenate u p [] = []"
  "hyphen_break u p c cs \<Longrightarrow>
     dehyphenate u p (c # cs) = dehyphenate u (Some (last (takeWhile is_space cs))) (dropWhile is_space cs)"
  "\<not> hyphen_break u p c cs \<Longrightarrow> dehyphenate u p (c # cs) = c # dehyphenate u (Some c) cs"
  using dehyphenate.simps [of u p "[]"] by (simp, metis dehyphenate_Cons, metis dehyphenate_Cons)

definition zero_width :: "nat \<Rightarrow> bool" where
  "zero_width c \<longleftrightarrow> c \<in> {8203, 8204, 8205, 65279}"

definition normalize_text :: "unicode_db \<Rightarrow> (pystr \<Rightarrow> pystr) \<Rightarrow> pystr \<Rightarrow> pystr" where
  "normalize_text u nfkc text =
     (let normalized = filter (\<lambda>c. c \<noteq> 173) (nfkc text);
          joined = dehyphenate u None normalized
      in strip (collapse (filter (\<lambda>c. \<not> zero_width c) joined)))"

section \<open>The document\<close>

text \<open>A page is its number and its text, whose extraction may raise.\<close>

record pdf_document =
  pf_needs_pass :: bool
  pf_is_encrypted :: bool
  pf_page_count :: nat
  pf_pages :: "(nat \<times> (exn, pystr) result) list"

definition invalid_document :: exn where
  "invalid_document = DocumentProcessingFailure ''DOCUMENT_INVALID'' DV_REJECTED"

text \<open>\<open>lstrip\<close> of \<open>bytes\<close>.\<close>

definition byte_space :: "8 word \<Rightarrow> bool" where
  "byte_space b \<longleftrightarrow> b = 32 \<or> (9 \<le> b \<and> b \<le> 13)"

definition pdf_header :: "bytes \<Rightarrow> bool" where
  "pdf_header content \<longleftrightarrow> prefix [37, 80, 68, 70, 45] (dropWhile byte_space (take 1024 content))"

definition parse_page ::
  "unicode_db \<Rightarrow> (pystr \<Rightarrow> pystr) \<Rightarrow> nat \<times> (exn, pystr) result \<Rightarrow> (exn, parsed_page) result" where
  "parse_page u nfkc page =
     bindE (snd page) (\<lambda>t. Inr \<lparr>pp_number = int (fst page) + 1, pp_text = normalize_text u nfkc t\<rparr>)"

text \<open>The \<open>except\<close> clauses of the second \<open>try\<close>.\<close>

definition document_error :: "exn \<Rightarrow> exn" where
  "document_error e = (case e of DocumentProcessingFailure code st \<Rightarrow> e | _ \<Rightarrow> invalid_document)"

definition parse_pdf ::
  "unicode_db \<Rightarrow> (pystr \<Rightarrow> pystr) \<Rightarrow> (bytes \<Rightarrow> (exn, pdf_document) result) \<Rightarrow> pystr \<Rightarrow> nat \<Rightarrow> bytes \<Rightarrow>
   (exn, parsed_document) result" where
  "parse_pdf u nfkc open_pdf library_version max_pages content =
     (if \<not> pdf_header content then Inl invalid_document
      else case open_pdf content of
        Inl _ \<Rightarrow> Inl invalid_document
      | Inr d \<Rightarrow>
          if pf_needs_pass d \<or> pf_is_encrypted d
          then Inl (DocumentProcessingFailure ''DOCUMENT_ENCRYPTED'' DV_REJECTED)
          else if pf_page_count d = 0 then Inl invalid_document
          else if pf_page_count d > max_pages
          then Inl (DocumentProcessingFailure ''DOCUMENT_TOO_MANY_PAGES'' DV_REJECTED)
          else (case mapE (parse_page u nfkc) (pf_pages d) of
             Inl e \<Rightarrow> Inl (document_error e)
           | Inr pages \<Rightarrow>
               if \<not> list_ex (\<lambda>p. pp_text p \<noteq> []) pages
               then Inl (DocumentProcessingFailure ''DOCUMENT_OCR_REQUIRED'' DV_OCR_REQUIRED)
               else Inr \<lparr>pd_pages = pages, pd_parser_version = py ''pymupdf-'' @ library_version\<rparr>))"

section \<open>Normal text\<close>

text \<open>No invisible characters, no white space but single spaces, none at the ends.\<close>

fun single_spaced :: "pystr \<Rightarrow> bool" where
  "single_spaced (a # b # s) \<longleftrightarrow> (is_space a \<longrightarrow> a = 32 \<and> \<not> is_space b) \<and> single_spaced (b # s)"
| "single_spaced [a] \<longleftrightarrow> (is_space a \<longrightarrow> a = 32)"
| "single_spaced [] \<longleftrightarrow> True"

definition normal_text :: "pystr \<Rightarrow> bool" where
  "normal_text s \<longleftrightarrow> single_spaced s \<and> strip s = s \<and> list_all (\<lambda>c. c \<noteq> 173 \<and> \<not> zero_width c) s"

lemma is_space_32: "is_space 32"
  by (simp add: is_space_def)

lemma collapse_single: "single_spaced (collapse s) \<and> (collapse s \<noteq> [] \<longrightarrow> is_space (hd (collapse s)) = is_space (hd s))"
proof (induction s rule: collapse.induct)
  case (1 s)
  show ?case
  proof (cases s)
    case (Cons c cs)
    show ?thesis
    proof (cases "is_space c")
      case True
      let ?d = "dropWhile is_space cs"
      have e: "collapse s = 32 # collapse ?d" using Cons True by (simp)
      have ih: "single_spaced (collapse ?d)" "collapse ?d \<noteq> [] \<Longrightarrow> is_space (hd (collapse ?d)) = is_space (hd ?d)"
        using 1(1) [OF Cons True] by simp_all
      have "collapse ?d \<noteq> [] \<Longrightarrow> \<not> is_space (hd ?d)"
        by (metis collapse_simps(1) hd_dropWhile)
      then show ?thesis using ih e True Cons is_space_32 by (cases "collapse ?d") simp_all
    next
      case False
      have e: "collapse s = c # collapse cs" using Cons False by (simp)
      then show ?thesis using 1(2) [OF Cons False] False Cons by (cases "collapse cs") simp_all
    qed
  qed simp
qed

lemma collapse_set: "c \<in> set (collapse s) \<Longrightarrow> c = 32 \<or> c \<in> set s"
proof (induction s rule: collapse.induct)
  case (1 s)
  then show ?case
    by (cases s) (auto simp: split: if_splits dest: set_dropWhileD)
qed

lemma collapse_id: "single_spaced s \<Longrightarrow> collapse s = s"
proof (induction s rule: single_spaced.induct)
  case (1 a b s)
  then show ?case by (cases "is_space a") simp_all
qed simp_all

lemma single_spaced_append: "single_spaced (xs @ ys) \<Longrightarrow> single_spaced ys \<and> single_spaced xs"
proof (induction xs rule: single_spaced.induct)
  case (2 a)
  then show ?case by (cases ys) auto
qed auto

lemma strip_single: "single_spaced s \<Longrightarrow> single_spaced (strip s)"
  by (rule strip_decompose [of s]) (metis single_spaced_append)

lemma set_strip: "set (strip s) \<subseteq> set s"
  using strip_sublist [of s] by (rule set_mono_sublist)

text \<open>The visible characters of a text.\<close>

definition visible :: "pystr \<Rightarrow> pystr" where
  "visible = filter (\<lambda>c. \<not> is_space c \<and> c \<noteq> 45 \<and> c \<noteq> 173 \<and> \<not> zero_width c)"

lemma visible_append [simp]: "visible (xs @ ys) = visible xs @ visible ys"
  by (simp add: visible_def)

lemma visible_Cons: "visible (c # cs) = visible [c] @ visible cs"
  by (simp add: visible_def)

lemma visible_spaces: "list_all is_space xs \<Longrightarrow> visible xs = []"
  by (auto simp: visible_def filter_empty_conv list_all_iff)

lemma visible_dropWhile [simp]: "visible (dropWhile is_space s) = visible s"
  by (induction s) (auto simp: visible_def)

lemma visible_strip [simp]: "visible (strip s) = visible s"
proof -
  obtain l r where "s = l @ strip s @ r" "list_all is_space l" "list_all is_space r" by (rule strip_decompose)
  then show ?thesis by (metis append_Nil append_Nil2 visible_append visible_spaces)
qed

lemma visible_collapse [simp]: "visible (collapse s) = visible s"
proof (induction s rule: collapse.induct)
  case (1 s)
  show ?case
  proof (cases s)
    case (Cons c cs)
    show ?thesis
    proof (cases "is_space c")
      case True
      then have "visible (collapse s) = visible (collapse (dropWhile is_space cs))"
        using Cons is_space_32 by (simp add: visible_def)
      also have "\<dots> = visible cs" using 1(1) [OF Cons True] by simp
      finally show ?thesis using Cons True by (simp add: visible_def)
    next
      case False
      then show ?thesis using 1(2) [OF Cons False] Cons by (simp add: visible_def)
    qed
  qed simp
qed

lemma visible_dehyphenate [simp]: "visible (dehyphenate u p s) = visible s"
proof (induction u p s rule: dehyphenate.induct)
  case (1 u p s)
  show ?case
  proof (cases s)
    case (Cons c cs)
    show ?thesis
    proof (cases "hyphen_break u p c cs")
      case True
      then have "visible (dehyphenate u p s) = visible (dehyphenate u (Some (last (takeWhile is_space cs))) (dropWhile is_space cs))"
        using Cons dehyphenate_simps(2) [of c u p cs] by simp
      also have "\<dots> = visible cs" using 1(1) [OF Cons refl refl True] by simp
      finally show ?thesis using Cons True by (simp add: visible_def)
    next
      case False
      then have "dehyphenate u p s = c # dehyphenate u (Some c) cs"
        using Cons dehyphenate_simps(3) [of c u p cs] by simp
      then show ?thesis using 1(2) [OF Cons refl refl False] Cons visible_Cons by metis
    qed
  qed (simp add: dehyphenate_simps)
qed

lemma dehyphenate_set: "c \<in> set (dehyphenate u p s) \<Longrightarrow> c \<in> set s"
proof (induction u p s rule: dehyphenate.induct)
  case (1 u p s)
  show ?case
  proof (cases s)
    case (Cons x xs)
    show ?thesis
    proof (cases "hyphen_break u p x xs")
      case True
      then show ?thesis using 1(1) [OF Cons refl refl True] 1(3) Cons dehyphenate_simps(2) [of x u p xs]
        by (auto dest: set_dropWhileD)
    next
      case False
      then show ?thesis using 1(2) [OF Cons refl refl False] 1(3) Cons dehyphenate_simps(3) [of x u p xs] by auto
    qed
  qed (use 1(3) in \<open>simp add: dehyphenate_simps\<close>)
qed

lemma dehyphenate_no_break: "10 \<notin> set s \<Longrightarrow> dehyphenate u p s = s"
proof (induction u p s rule: dehyphenate.induct)
  case (1 u p s)
  show ?case
  proof (cases s)
    case (Cons c cs)
    then have "10 \<notin> set (takeWhile is_space cs)" using 1(3) by (auto dest: set_takeWhileD)
    then have nb: "\<not> hyphen_break u p c cs" by simp
    have "10 \<notin> set cs" using 1(3) Cons by simp
    then show ?thesis using 1(2) [OF Cons refl refl nb] Cons dehyphenate_simps(3) [OF nb] by simp
  qed (simp add: dehyphenate_simps)
qed

lemma normalize_normal: "normal_text (normalize_text u nfkc s)"
proof -
  define j where "j = filter (\<lambda>c. \<not> zero_width c) (dehyphenate u None (filter (\<lambda>c. c \<noteq> 173) (nfkc s)))"
  have t: "normalize_text u nfkc s = strip (collapse j)" by (simp add: normalize_text_def j_def Let_def)
  have z: "\<not> zero_width 32" by (simp add: zero_width_def)
  have "c \<noteq> 173 \<and> \<not> zero_width c" if "c \<in> set (strip (collapse j))" for c
  proof -
    have "c = 32 \<or> c \<in> set j" using that set_strip collapse_set by blast
    then show ?thesis using z by (auto simp: j_def dest: dehyphenate_set)
  qed
  then show ?thesis
    using strip_single collapse_single [of j] unfolding t normal_text_def by (simp add: list_all_iff)
qed

lemma visible_normalize: "visible (normalize_text u nfkc s) = visible (nfkc s)"
proof -
  have "visible (filter (\<lambda>c. \<not> zero_width c) x) = visible x" "visible (filter (\<lambda>c. c \<noteq> 173) x) = visible x" for x
    by (auto simp: visible_def intro: filter_cong)
  then show ?thesis by (simp add: normalize_text_def Let_def)
qed

lemma normalize_fixed:
  assumes "normal_text s" "nfkc s = s"
  shows "normalize_text u nfkc s = s"
proof -
  have f: "filter (\<lambda>c. c \<noteq> 173) s = s" "filter (\<lambda>c. \<not> zero_width c) s = s"
    using assms(1) by (auto simp: normal_text_def list_all_iff filter_id_conv)
  have "10 \<notin> set s"
  proof
    assume "10 \<in> set s"
    moreover have "single_spaced s" using assms(1) by (simp add: normal_text_def)
    ultimately show False
    proof (induction s rule: single_spaced.induct)
      case (1 a b s)
      then show ?case by (auto simp: is_space_def)
    qed (auto simp: is_space_def)
  qed
  then show ?thesis
    using assms f collapse_id by (simp add: normalize_text_def dehyphenate_no_break normal_text_def)
qed



section \<open>Parsing\<close>

text \<open>PyMuPDF gives the pages of a document in order, numbered from zero.\<close>

definition pages_in_order :: "(bytes \<Rightarrow> (exn, pdf_document) result) \<Rightarrow> bool" where
  "pages_in_order open_pdf \<longleftrightarrow>
     (\<forall>content d. open_pdf content = Inr d \<longrightarrow>
        pf_page_count d = length (pf_pages d) \<and> map fst (pf_pages d) = [0..<length (pf_pages d)])"

lemma parse_pdf_Inr:
  assumes "parse_pdf u nfkc open_pdf lib max_pages content = Inr doc"
  obtains d pages where "open_pdf content = Inr d" "1 \<le> pf_page_count d" "pf_page_count d \<le> max_pages"
    "list_all2 (\<lambda>x y. parse_page u nfkc x = Inr y) (pf_pages d) (pd_pages doc)"
    "list_ex (\<lambda>p. pp_text p \<noteq> []) (pd_pages doc)"
  using assms by (auto simp: parse_pdf_def mapE_Inr_iff split: if_splits sum.splits)

lemma normal_not_blank: "normal_text t \<Longrightarrow> t \<noteq> [] \<Longrightarrow> \<exists>c \<in> set t. \<not> is_space c"
  using strip_Nil_iff [of t] by (auto simp: normal_text_def list_all_iff)

lemma build_chunks_failure:
  "build_chunks sz ov digest doc = Inl e \<Longrightarrow> e = DocumentProcessingFailure ''DOCUMENT_OCR_REQUIRED'' DV_OCR_REQUIRED"
  by (auto simp: build_chunks_def Let_def split: if_splits)

text \<open>C26: what the parser accepts can be published. An accepted document has between one page and the
  configured limit, numbered from one without gaps, all in normal form, and chunking it always
  succeeds; whatever is wrong with the bytes or raised by the library becomes a failure that the
  worker records and does not retry.\<close>

theorem parse_pdf_publishable:
  assumes "pages_in_order open_pdf" "0 < sz"
  shows "case parse_pdf u nfkc open_pdf lib max_pages content of
      Inr doc \<Rightarrow> pd_pages doc \<noteq> [] \<and> length (pd_pages doc) \<le> max_pages \<and>
        map pp_number (pd_pages doc) = map (\<lambda>i. int i + 1) [0..<length (pd_pages doc)] \<and>
        list_all (\<lambda>p. normal_text (pp_text p)) (pd_pages doc) \<and> (\<exists>cs. build_chunks sz ov digest doc = Inr cs)
    | Inl e \<Rightarrow> \<exists>code st. e = DocumentProcessingFailure code st \<and> failure_of e = Some (code, st, False)"
proof (cases "parse_pdf u nfkc open_pdf lib max_pages content")
  case (Inl e)
  have "\<exists>code st. document_error x = DocumentProcessingFailure code st \<and>
      failure_of (document_error x) = Some (code, st, False)" for x
    by (cases x) (simp_all add: document_error_def invalid_document_def)
  then show ?thesis
    using Inl by (auto simp: parse_pdf_def invalid_document_def split: if_splits sum.splits)
next
  case (Inr doc)
  then obtain d where d: "open_pdf content = Inr d" "1 \<le> pf_page_count d" "pf_page_count d \<le> max_pages"
    "list_all2 (\<lambda>x y. parse_page u nfkc x = Inr y) (pf_pages d) (pd_pages doc)"
    "list_ex (\<lambda>p. pp_text p \<noteq> []) (pd_pages doc)"
    by (rule parse_pdf_Inr)
  have o: "pf_page_count d = length (pf_pages d)" "map fst (pf_pages d) = [0..<length (pf_pages d)]"
    using assms(1) d(1) by (simp_all add: pages_in_order_def)
  note len = list_all2_lengthD [OF d(4)]
  have page: "pp_number (pd_pages doc ! i) = int i + 1 \<and> normal_text (pp_text (pd_pages doc ! i))"
    if "i < length (pd_pages doc)" for i
  proof -
    have i: "i < length (pf_pages d)" using that len by simp
    have "fst (pf_pages d ! i) = i" using o(2) i by (metis add_0 nth_map nth_upt)
    then obtain x where "\<lparr>pp_number = int i + 1, pp_text = normalize_text u nfkc x\<rparr> = pd_pages doc ! i"
      using list_all2_nthD [OF d(4) i] by (auto simp: parse_page_def bindE_eq_Inr)
    then have "pd_pages doc ! i = \<lparr>pp_number = int i + 1, pp_text = normalize_text u nfkc x\<rparr>" by (rule sym)
    then show ?thesis using normalize_normal by simp
  qed
  then have normal: "list_all (\<lambda>p. normal_text (pp_text p)) (pd_pages doc)" by (simp add: list_all_length)
  have "build_chunks sz ov digest doc \<noteq> Inl (DocumentProcessingFailure ''DOCUMENT_OCR_REQUIRED'' DV_OCR_REQUIRED)"
    using ocr_required_iff [OF assms(2), of ov digest doc] d(5) normal normal_not_blank
    by (fastforce simp: list_ex_iff list_all_iff)
  then have "\<exists>cs. build_chunks sz ov digest doc = Inr cs"
    using build_chunks_failure by (cases "build_chunks sz ov digest doc") auto
  moreover have "map pp_number (pd_pages doc) = map (\<lambda>i. int i + 1) [0..<length (pd_pages doc)]"
    using page by (intro nth_equalityI) simp_all
  moreover have "pd_pages doc \<noteq> []" "length (pd_pages doc) \<le> max_pages" using d(2,3) o(1) len by auto
  ultimately show ?thesis using Inr normal by simp
qed

definition sample_open :: "bytes \<Rightarrow> (exn, pdf_document) result" where
  "sample_open b = Inr \<lparr>pf_needs_pass = False, pf_is_encrypted = False, pf_page_count = 1,
     pf_pages = [(0, Inr (py ''a''))]\<rparr>"

theorem parse_pdf_publishable_witness:
  "\<exists>doc cs. parse_pdf ascii_db id sample_open [] 5 [32, 37, 80, 68, 70, 45] = Inr doc \<and>
     map pp_number (pd_pages doc) = [1] \<and> build_chunks 400 0 id doc = Inr cs"
proof -
  have h: "pdf_header [32, 37, 80, 68, 70, 45]" by (simp add: pdf_header_def byte_space_def)
  have s: "strip (py ''a'') = py ''a''" by (rule strip_id) (simp add: py_def is_space_def)
  have n: "normalize_text ascii_db id (py ''a'') = py ''a''"
    using normalize_fixed [of "py ''a''" id ascii_db] s by (simp add: normal_text_def py_def zero_width_def is_space_def)
  have p: "parse_pdf ascii_db id sample_open [] 5 [32, 37, 80, 68, 70, 45] =
      Inr \<lparr>pd_pages = [\<lparr>pp_number = 1, pp_text = py ''a''\<rparr>], pd_parser_version = py ''pymupdf-''\<rparr>"
    using h n by (simp add: parse_pdf_def sample_open_def parse_page_def py_def)
  have "pages_in_order sample_open" by (simp add: pages_in_order_def sample_open_def)
  from parse_pdf_publishable [OF this, where sz = 400 and u = ascii_db and nfkc = id and lib = "[]" and max_pages = 5
      and content = "[32, 37, 80, 68, 70, 45]" and ov = 0 and digest = id]
  show ?thesis by (simp add: p)
qed

end
