(* ===== verification/Document_Routes.thy ===== *)
theory Document_Routes
  imports Conversation_Routes Object_Storage
begin

text \<open>
  The routes of \<^verbatim>\<open>documents.py\<close> with the exception handlers of \<^verbatim>\<open>main.py\<close>, and the readiness check of
  \<^verbatim>\<open>health.py\<close>: what a client is answered, over the services, the object storage and the identity
  provider. A path with malformed identifiers never reaches a handler.
\<close>

section \<open>Answers\<close>

text \<open>\<open>Failure\<close> has the status, the code and the request id; an exception without a handler is an internal
  error.\<close>

datatype 'a reply = Reply int 'a | Failure int string pystr | Internal_error

definition api_reply :: "pystr \<Rightarrow> int \<Rightarrow> (exn, 'a) result \<Rightarrow> 'a reply" where
  "api_reply rid ok r =
     (case r of Inr x \<Rightarrow> Reply ok x
      | Inl e \<Rightarrow> (case e of APIError st code \<Rightarrow> Failure st code rid | _ \<Rightarrow> Internal_error))"

definition invalid_request :: exn where
  "invalid_request = APIError 422 ''invalid_request''"

text \<open>What FastAPI does before a handler runs: the identity, then the members of the body. (A body that is
  no JSON is refused with the same code before either.)\<close>

definition handle ::
  "(exn, authenticated_identity) result \<Rightarrow> (exn, 'p) result \<Rightarrow>
   (authenticated_identity \<Rightarrow> 'p \<Rightarrow> db \<Rightarrow> (exn, 'a) result \<times> db) \<Rightarrow> db \<Rightarrow> (exn, 'a) result \<times> db" where
  "handle ident payload handler s =
     (case ident of Inl e \<Rightarrow> (Inl e, s)
      | Inr i \<Rightarrow> (case payload of Inl _ \<Rightarrow> (Inl invalid_request, s)
          | Inr p \<Rightarrow> (case handler i p s of (r, s') \<Rightarrow>
              (case r of Inl e \<Rightarrow> Inl (raise_document_api_error e) | Inr x \<Rightarrow> Inr x, s'))))"

section \<open>Bodies\<close>

record upload_create_request =
  uq_filename :: pystr
  uq_size_bytes :: int
  uq_sha256 :: pystr
  uq_content_type :: pystr

definition make_upload_create_request ::
  "unicode_db \<Rightarrow> pystr \<Rightarrow> int \<Rightarrow> pystr \<Rightarrow> pystr option \<Rightarrow> (exn, upload_create_request) result" where
  "make_upload_create_request u filename size_bytes sha content_type =
     (if filename = [] \<or> length filename > 255 then Inl (ValueError ''filename'')
      else if size_bytes \<le> 0 then Inl (ValueError ''size_bytes'')
      else if content_type \<notin> {None, Some (py ''application/pdf'')} then Inl (ValueError ''content_type'')
      else bindE (validate_sha256 u sha) (\<lambda>normalized.
        Inr \<lparr>uq_filename = filename, uq_size_bytes = size_bytes, uq_sha256 = normalized,
             uq_content_type = py ''application/pdf''\<rparr>))"

record corpus_activate_request =
  aq_corpus_version_id :: uuid
  aq_expected_course_version :: int

definition make_corpus_activate_request :: "uuid \<Rightarrow> int \<Rightarrow> (exn, corpus_activate_request) result" where
  "make_corpus_activate_request corpus_version_id expected_course_version =
     (if expected_course_version < 0 then Inl (ValueError ''expected_course_version'')
      else Inr \<lparr>aq_corpus_version_id = corpus_version_id, aq_expected_course_version = expected_course_version\<rparr>)"

record upload_response =
  us_document_id :: uuid
  us_version_id :: uuid
  us_state :: document_version_state
  us_upload_url :: pystr
  us_method :: pystr
  us_headers :: "(string \<times> pystr) list"
  us_expires_at :: time

definition upload_response_of :: "upload_record \<times> upload_authorization \<Rightarrow> upload_response" where
  "upload_response_of result =
     \<lparr>us_document_id = ur_document_id (fst result), us_version_id = ur_version_id (fst result),
      us_state = ur_state (fst result), us_upload_url = ua_url (snd result), us_method = py ''PUT'',
      us_headers = ua_headers (snd result), us_expires_at = ua_expires_at (snd result)\<rparr>"

section \<open>Routes\<close>

record document_service =
  ds_unicode :: unicode_db
  ds_digest :: "pystr \<Rightarrow> pystr"
  ds_config :: service_config
  ds_authorize :: "pystr \<Rightarrow> pystr \<Rightarrow> pystr \<Rightarrow> (exn, upload_authorization) result"
  ds_inspect :: "pystr \<Rightarrow> (exn, stored_object_metadata) result"
  ds_dispatch :: dispatcher

definition create_document_upload ::
  "document_service \<Rightarrow> pystr \<Rightarrow> (exn, authenticated_identity) result \<Rightarrow> (exn, upload_create_request) result \<Rightarrow> uuid \<Rightarrow>
   pystr option \<Rightarrow> uuid \<Rightarrow> uuid \<Rightarrow> time \<Rightarrow> db \<Rightarrow> upload_response reply \<times> db" where
  "create_document_upload svc rid ident payload course_id key did vid now s =
     (case handle ident payload (\<lambda>i p s.
          case create_upload (ds_unicode svc) (ds_digest svc) (ds_authorize svc) (ds_config svc) i course_id
              (uq_filename p) (uq_size_bytes p) (uq_sha256 p) (uq_content_type p) key did vid now s of
            (r, s') \<Rightarrow> (map_sum id upload_response_of r, s')) s of
        (r, s') \<Rightarrow> (api_reply rid 201 r, s'))"

definition complete_document_upload ::
  "document_service \<Rightarrow> pystr \<Rightarrow> (exn, authenticated_identity) result \<Rightarrow> uuid \<Rightarrow> uuid \<Rightarrow> uuid \<Rightarrow> pystr option \<Rightarrow>
   (nat \<Rightarrow> db \<Rightarrow> db) \<Rightarrow> confirm_env \<Rightarrow> db \<Rightarrow> version_view reply \<times> db" where
  "complete_document_upload svc rid ident course_id document_id version_id key others env s =
     (case handle ident (Inr ()) (\<lambda>i _.
          confirm_upload (ds_unicode svc) (ds_digest svc) (ds_inspect svc) (ds_dispatch svc) (ds_config svc) others i
            course_id document_id version_id key rid env) s of
        (r, s') \<Rightarrow> (api_reply rid 202 r, s'))"

definition get_document_version ::
  "pystr \<Rightarrow> (exn, authenticated_identity) result \<Rightarrow> uuid \<Rightarrow> uuid \<Rightarrow> uuid \<Rightarrow> db \<Rightarrow> version_view reply \<times> db" where
  "get_document_version rid ident course_id document_id version_id s =
     (case handle ident (Inr ()) (\<lambda>i _. session (get_version_tx i course_id document_id version_id)) s of
        (r, s') \<Rightarrow> (api_reply rid 200 r, s'))"

definition activate_corpus ::
  "pystr \<Rightarrow> (exn, authenticated_identity) result \<Rightarrow> (exn, corpus_activate_request) result \<Rightarrow> uuid \<Rightarrow> time \<Rightarrow> db \<Rightarrow>
   activation_view reply \<times> db" where
  "activate_corpus rid ident payload course_id now s =
     (case handle ident payload (\<lambda>i p. session (activate_corpus_tx i course_id (aq_corpus_version_id p)
          (aq_expected_course_version p) now)) s of
        (r, s') \<Rightarrow> (api_reply rid 200 r, s'))"

section \<open>Readiness\<close>

text \<open>Both probes are asked, one after the other; what they raise is not shown.\<close>

definition check_all :: "(exn, unit) result \<Rightarrow> (exn, unit) result \<Rightarrow> (string \<times> string) list" where
  "check_all postgres storage =
     map (\<lambda>(name, probe). (name, case probe of Inl _ \<Rightarrow> ''unavailable'' | Inr _ \<Rightarrow> ''ok''))
       [(''postgres'', postgres), (''object_storage'', storage)]"

definition ready :: "(exn, unit) result \<Rightarrow> (exn, unit) result \<Rightarrow> int \<times> string \<times> (string \<times> string) list" where
  "ready postgres storage =
     (let checks = check_all postgres storage in
      if list_ex (\<lambda>(_, status). status \<noteq> ''ok'') checks then (503, ''service_not_ready'', checks)
      else (200, ''ready'', checks))"

lemma ready_iff: "fst (ready postgres storage) = 200 \<longleftrightarrow> postgres = Inr () \<and> storage = Inr ()"
  by (cases postgres; cases storage) (simp_all add: ready_def check_all_def Let_def)

section \<open>Every request is answered\<close>

text \<open>The exceptions of the services that the routes turn into an answer.\<close>

definition route_statuses :: "int set" where
  "route_statuses = {400, 401, 404, 409, 413, 422, 503}"

definition answerable :: "exn \<Rightarrow> bool" where
  "answerable e \<longleftrightarrow> (case raise_document_api_error e of APIError st _ \<Rightarrow> st \<in> route_statuses | _ \<Rightarrow> False)"

lemma answerable_simps [simp]:
  "answerable IdempotencyKeyMissing" "answerable IdempotencyKeyReused" "answerable DocumentResourceNotFound"
  "answerable StoredObjectNotFound" "answerable UploadNotReady" "answerable CorpusNotReady"
  "answerable PublicationConflict" "answerable ObjectStorageUnavailable" "answerable IntegrityError"
  "answerable MultipleResultsFound" "answerable (UploadValidationFailure code st) \<longleftrightarrow> st \<in> route_statuses"
  by (simp_all add: answerable_def route_statuses_def)

lemma key_error: "validated_idempotency_key key = Inl e \<Longrightarrow> answerable e"
  by (auto simp: validated_idempotency_key_def split: option.splits if_splits)

lemma teacher_error: "authorized_teacher_user_id ident cid s = Inl e \<Longrightarrow> answerable e"
  by (auto simp: authorized_teacher_user_id_def split: option.splits)

lemma one_or_none_error: "one_or_none rows = Inl e \<Longrightarrow> answerable e"
  by (auto simp: one_or_none_def split: list.splits)

lemma session_error: "session f s = (Inl e, s') \<Longrightarrow> f s = Inl e \<and> s' = s"
  by (auto simp: session_def split: sum.splits)

lemma upload_tx_error: "upload_tx cfg i cid f n h m k rh did vid now s = Inl e \<Longrightarrow> answerable e"
  by (auto simp: upload_tx_def bindE_eq_Inl Let_def dest: teacher_error split: option.splits if_splits)

lemma create_upload_error:
  assumes "\<And>k m h e. authorize k m h = Inl e \<Longrightarrow> e = ObjectStorageUnavailable"
    and "create_upload u digest authorize cfg i cid f n h m key did vid now s = (Inl e, s')"
  shows "answerable e"
  using assms(2)
  by (auto simp: create_upload_def Let_def sanitize_filename_def route_statuses_def
      dest!: key_error session_error upload_tx_error assms(1) split: sum.splits prod.splits if_splits)

lemma get_version_error: "get_version_tx i cid did vid s = Inl e \<Longrightarrow> answerable e"
  by (auto simp: get_version_tx_def bindE_eq_Inl dest!: teacher_error one_or_none_error split: option.splits)

lemma activate_corpus_error: "activate_corpus_tx i cid corp ver now s = Inl e \<Longrightarrow> answerable e"
  by (auto simp: activate_corpus_tx_def bindE_eq_Inl Let_def dest!: teacher_error split: option.splits if_splits)

lemma confirmed_has_job:
  assumes "service_inv mx s" "v \<in> set (t_versions s)" "dv_confirmation_idempotency_key v \<noteq> None"
  shows "jobs_of (dv_id v) s \<noteq> []"
proof -
  have "dv_id v \<in> job_versions s" using assms by (simp add: service_inv_def)
  then show ?thesis by (auto simp: job_versions_def jobs_of_def filter_empty_conv)
qed

lemma one_or_none_mem: "one_or_none rows = Inr (Some x) \<Longrightarrow> x \<in> set rows"
  by (auto simp: one_or_none_def split: list.splits)

lemma existing_confirmation_error:
  assumes "service_inv mx s" "existing_confirmation_tx i cid did vid k h s = Inl e"
  shows "answerable e"
proof -
  define rows where "rows = [(v, j). v \<leftarrow> filter (the_version cid did vid) (t_versions s), j \<leftarrow> outer_rows (jobs_of (dv_id v) s)]"
  consider (teacher) "authorized_teacher_user_id i cid s = Inl e" | (many) "one_or_none rows = Inl e"
    | (row) row where "one_or_none rows = Inr row" "(case row of None \<Rightarrow> Inl DocumentResourceNotFound
      | Some (v, j) \<Rightarrow>
          if dv_confirmation_idempotency_key v = None then Inr (None, s)
          else if dv_confirmation_idempotency_key v \<noteq> Some k \<or> dv_confirmation_request_hash v \<noteq> Some h
          then Inl IdempotencyKeyReused
          else (case j of None \<Rightarrow> Inl (RuntimeError ''confirmed document has no ingestion job'')
             | Some job \<Rightarrow> Inr (Some (ij_id job, ij_state job), s))) = Inl e"
    using assms(2) unfolding existing_confirmation_tx_def rows_def [symmetric] bindE_eq_Inl by blast
  then show ?thesis
  proof cases
    case teacher
    then show ?thesis by (rule teacher_error)
  next
    case many
    then show ?thesis by (rule one_or_none_error)
  next
    case row
    have "j \<noteq> None" if "row = Some (v, j)" "dv_confirmation_idempotency_key v \<noteq> None" for v j
    proof -
      have "(v, j) \<in> set rows" using row(1) that(1) by (simp add: one_or_none_mem)
      then have "v \<in> set (t_versions s)" "j \<in> set (outer_rows (jobs_of (dv_id v) s))" by (auto simp: rows_def)
      then show ?thesis using confirmed_has_job [OF assms(1) _ that(2)] by (auto simp: outer_rows_def)
    qed
    then show ?thesis using row(2) by (auto split: option.splits if_splits)
  qed
qed

lemma existing_confirmation_reads: "existing_confirmation_tx i cid did vid k h s = Inr r \<Longrightarrow> snd r = s"
proof -
  assume "existing_confirmation_tx i cid did vid k h s = Inr r"
  then obtain row :: "(document_version \<times> ingestion_job option) option" where "(case row of None \<Rightarrow> Inl DocumentResourceNotFound
      | Some (v, j) \<Rightarrow>
          if dv_confirmation_idempotency_key v = None then Inr (None, s)
          else if dv_confirmation_idempotency_key v \<noteq> Some k \<or> dv_confirmation_request_hash v \<noteq> Some h
          then Inl IdempotencyKeyReused
          else (case j of None \<Rightarrow> Inl (RuntimeError ''confirmed document has no ingestion job'')
             | Some job \<Rightarrow> Inr (Some (ij_id job, ij_state job), s))) = Inr r"
    unfolding existing_confirmation_tx_def bindE_eq_Inr by blast
  then show "snd r = s"
    by (cases row; cases "the row"; cases "snd (the row)") (auto split: if_splits)
qed

lemma load_upload_error: "load_upload_tx i cid did vid s = Inl e \<Longrightarrow> answerable e"
  by (auto simp: load_upload_tx_def bindE_eq_Inl dest!: teacher_error split: option.splits)

lemma stored_object_error: "validate_stored_object u cfg m r = Inl e \<Longrightarrow> answerable e"
  by (auto simp: validate_stored_object_def route_statuses_def split: if_splits)

lemma confirm_tx_error:
  assumes "service_inv mx s" "confirm_tx outbox_dispatch i cid did vid k h corr m env s = Inl e"
  shows "answerable e"
proof -
  have d: "answerable e" if "outbox_dispatch eid now job t = Inl e" for eid now job t
    using that by (auto simp: outbox_dispatch_def insert_event_def split: if_splits)
  have j: "jobs_of (dv_id v) s \<noteq> []" if "find (the_version cid did vid) (t_versions s) = Some v" "dv_confirmation_idempotency_key v = Some x" for v x
    using confirmed_has_job [OF assms(1)] find_SomeD [OF that(1)] that(2) by blast
  show ?thesis
    using assms(2) d j by (auto simp: confirm_tx_def bindE_eq_Inl Let_def dest: teacher_error split: option.splits if_splits)
qed

lemma confirm_upload_error:
  assumes "service_inv mx s" "\<And>k t. service_inv mx t \<Longrightarrow> service_inv mx (others k t)"
    and "\<And>k e. inspect k = Inl e \<Longrightarrow> e \<in> {StoredObjectNotFound, ObjectStorageUnavailable}"
    and "confirm_upload u digest inspect outbox_dispatch cfg others i cid did vid key corr env s = (Inl e, s')"
  shows "answerable e"
proof (cases "validated_idempotency_key key")
  case (Inl e')
  then show ?thesis using assms(4) key_error by (auto simp: confirm_upload_def)
next
  case (Inr k)
  let ?h = "request_hash digest (confirm_payload cid did vid)"
  note c = assms(4) [unfolded confirm_upload_def Inr sum.case Let_def]
  have inspected: "answerable e" if "inspect k = Inl e" for k e using assms(3) [OF that] by auto
  define t1 where "t1 = others 1 s"
  show ?thesis
  proof (cases "existing_confirmation_tx i cid did vid k ?h s")
    case (Inl e')
    then show ?thesis using c existing_confirmation_error [OF assms(1) Inl] by (simp add: session_def)
  next
    case (Inr r)
    have "snd r = s" by (rule existing_confirmation_reads [OF Inr])
    then obtain x where x: "r = (x, s)" by (cases r) simp
    note c = c [unfolded session_def Inr x sum.case prod.case, folded session_def]
    show ?thesis
    proof (cases x)
      case (Some job)
      then show ?thesis using c by (auto dest!: session_error get_version_error)
    next
      case None
      note c = c [unfolded None option.case, folded t1_def]
      show ?thesis
      proof (cases "load_upload_tx i cid did vid t1")
        case (Inl e')
        then show ?thesis using c load_upload_error by (auto simp: session_def)
      next
        case (Inr r2)
        then obtain v where v: "r2 = (v, t1)" by (auto simp: load_upload_tx_def bindE_eq_Inr split: option.splits)
        have s2: "session (load_upload_tx i cid did vid) t1 = (Inr v, t1)"
          unfolding session_def Inr v sum.case prod.case ..
        have inv: "service_inv mx (others 2 t1)" unfolding t1_def using assms(1,2) by blast
        show ?thesis
          using c inspected stored_object_error confirm_tx_error [OF inv]
          by (auto simp: s2 dest!: session_error get_version_error split: sum.splits prod.splits)
      qed
    qed
  qed
qed

definition answered :: "pystr \<Rightarrow> 'a reply \<Rightarrow> bool" where
  "answered rid r \<longleftrightarrow>
     (case r of Reply st _ \<Rightarrow> st \<in> {200, 201, 202} | Failure st _ rid' \<Rightarrow> st \<in> route_statuses \<and> rid' = rid
      | Internal_error \<Rightarrow> False)"

lemma map_sum_Inl: "map_sum id f r = Inl e \<longleftrightarrow> r = Inl e"
  by (cases r) auto

lemma handle_answered:
  assumes "\<And>e. ident = Inl e \<Longrightarrow> \<exists>st code. e = APIError st code \<and> st \<in> route_statuses"
    and "\<And>i p e s'. handler i p s = (Inl e, s') \<Longrightarrow> answerable e" and "ok \<in> {200, 201, 202}"
  shows "answered rid (case handle ident payload handler s of (r, s') \<Rightarrow> api_reply rid ok r)"
proof (cases ident)
  case (Inl e)
  then show ?thesis using assms(1) by (auto simp: handle_def api_reply_def answered_def)
next
  case (Inr i)
  show ?thesis
  proof (cases payload)
    case (Inl e)
    then show ?thesis using Inr by (simp add: handle_def api_reply_def answered_def invalid_request_def route_statuses_def)
  next
    case p: (Inr p)
    obtain r s' where h: "handler i p s = (r, s')" by (cases "handler i p s")
    show ?thesis
    proof (cases r)
      case (Inl e)
      then have "answerable e" using assms(2) h by blast
      then show ?thesis
        using Inr p h Inl by (auto simp: handle_def api_reply_def answered_def answerable_def split: exn.splits)
    qed (use Inr p h assms(3) in \<open>simp add: handle_def api_reply_def answered_def\<close>)
  qed
qed

text \<open>The services of a deployment: S3, the transactional outbox, OIDC.\<close>

definition deployed ::
  "unicode_db \<Rightarrow> (pystr \<Rightarrow> pystr) \<Rightarrow> service_config \<Rightarrow> 's s3_client \<Rightarrow> s3_config \<Rightarrow> time \<Rightarrow> 's \<Rightarrow> document_service" where
  "deployed u digest cfg cl s3cfg wall st =
     \<lparr>ds_unicode = u, ds_digest = digest, ds_config = cfg,
      ds_authorize = (\<lambda>k m h. fst (create_upload_authorization cl s3cfg wall k m h st)),
      ds_inspect = (\<lambda>k. s3_inspect u cl k st), ds_dispatch = outbox_dispatch\<rparr>"

definition who :: "unicode_db \<Rightarrow> (pystr \<Rightarrow> (decode_failure, claims) result) \<Rightarrow> pystr option \<Rightarrow> (exn, authenticated_identity) result" where
  "who u decode authorization = require_identity (oidc_authenticate u decode) authorization"

lemma who_error: "who u decode a = Inl e \<Longrightarrow> \<exists>st code. e = APIError st code \<and> st \<in> route_statuses"
  using oidc.answered [of u decode a] by (auto simp: who_def route_statuses_def)


definition sample_claims :: claims where
  "sample_claims k = Some (Claim_str (py ''x''))"


end
