(* ===== verification/Url_Text.thy ===== *)
theory Url_Text
  imports Json
begin

text \<open>
  UTF-8 and the encoding of query strings, as \<^verbatim>\<open>str.encode\<close>, \<^verbatim>\<open>urllib.parse.urlencode\<close> and
  \<^verbatim>\<open>urllib.parse.parse_qsl\<close> have them, and why what is encoded reads back. Decoding of bytes is a
  parameter.
\<close>

section \<open>UTF-8\<close>

definition utf8_char :: "nat \<Rightarrow> nat list option" where
  "utf8_char c =
     (if c < 128 then Some [c]
      else if c < 2048 then Some [192 + c div 64, 128 + c mod 64]
      else if 55296 \<le> c \<and> c < 57344 then None
      else if c < 65536 then Some [224 + c div 4096, 128 + c div 64 mod 64, 128 + c mod 64]
      else Some [240 + c div 262144, 128 + c div 4096 mod 64, 128 + c div 64 mod 64, 128 + c mod 64])"

fun utf8_codes :: "pystr \<Rightarrow> nat list option" where
  "utf8_codes [] = Some []"
| "utf8_codes (c # cs) =
     (case (utf8_char c, utf8_codes cs) of (Some xs, Some ys) \<Rightarrow> Some (xs @ ys) | _ \<Rightarrow> None)"

lemma utf8_codes_byte: "utf8_codes s = Some bs \<Longrightarrow> list_all (\<lambda>c. c < 1114112) s \<Longrightarrow> list_all (\<lambda>b. b < 256) bs"
proof (induction s arbitrary: bs)
  case (Cons c s)
  then obtain xs ys where x: "utf8_char c = Some xs" "utf8_codes s = Some ys" "bs = xs @ ys" "c < 1114112"
    by (auto split: option.splits)
  have "list_all (\<lambda>b. b < 256) xs"
    using x(1,4) by (auto simp: utf8_char_def less_mult_imp_div_less split: if_splits)
  then show ?case using Cons x by simp
qed simp

lemma utf8_codes_ascii: "list_all (\<lambda>c. c < 128) s \<Longrightarrow> utf8_codes s = Some s"
  by (induction s) (auto simp: utf8_char_def)

section \<open>Quoting\<close>

definition hex_upper :: "nat \<Rightarrow> nat" where
  "hex_upper n = (if n < 10 then 48 + n else 55 + n)"

definition unreserved :: "nat \<Rightarrow> bool" where
  "unreserved b \<longleftrightarrow> (48 \<le> b \<and> b \<le> 57) \<or> (65 \<le> b \<and> b \<le> 90) \<or> (97 \<le> b \<and> b \<le> 122) \<or> b \<in> {95, 46, 45, 126}"

text \<open>A blank becomes a plus sign.\<close>

definition quote_byte :: "nat \<Rightarrow> pystr" where
  "quote_byte b = (if unreserved b then [b] else if b = 32 then [43] else [37, hex_upper (b div 16), hex_upper (b mod 16)])"

definition quote_plus :: "pystr \<Rightarrow> pystr option" where
  "quote_plus s = map_option (\<lambda>bs. concat (map quote_byte bs)) (utf8_codes s)"

fun quoted_pairs :: "(pystr \<times> pystr) list \<Rightarrow> pystr list option" where
  "quoted_pairs [] = Some []"
| "quoted_pairs ((k, v) # rest) =
     (case (quote_plus k, quote_plus v, quoted_pairs rest) of
        (Some k', Some v', Some ps) \<Rightarrow> Some ((k' @ [61] @ v') # ps) | _ \<Rightarrow> None)"

text \<open>\<open>None\<close> is the \<open>UnicodeEncodeError\<close> of a surrogate.\<close>

definition urlencode :: "(pystr \<times> pystr) list \<Rightarrow> pystr option" where
  "urlencode query = map_option (py_join [38]) (quoted_pairs query)"

section \<open>Reading\<close>

definition hex_digit_value :: "nat \<Rightarrow> nat option" where
  "hex_digit_value c = (if 48 \<le> c \<and> c \<le> 57 then Some (c - 48) else if 65 \<le> c \<and> c \<le> 70 then Some (c - 55)
     else if 97 \<le> c \<and> c \<le> 102 then Some (c - 87) else None)"

fun unquote_to_bytes :: "pystr \<Rightarrow> nat list" where
  "unquote_to_bytes [] = []"
| "unquote_to_bytes (c # a # b # rest) =
     (if c = 37 then
        (case (hex_digit_value a, hex_digit_value b) of
           (Some x, Some y) \<Rightarrow> (16 * x + y) # unquote_to_bytes rest
         | _ \<Rightarrow> c # unquote_to_bytes (a # b # rest))
      else c # unquote_to_bytes (a # b # rest))"
| "unquote_to_bytes (c # rest) = c # unquote_to_bytes rest"

text \<open>Every run of ASCII characters is read on its own; \<open>decode\<close> is \<open>bytes.decode("utf-8", "replace")\<close>.\<close>

function unquote_runs :: "(nat list \<Rightarrow> pystr) \<Rightarrow> pystr \<Rightarrow> pystr" where
  "unquote_runs decode s =
     (if s = [] then []
      else let run = takeWhile (\<lambda>c. c < 128) s in
        if run = [] then hd s # unquote_runs decode (tl s)
        else decode (unquote_to_bytes run) @ unquote_runs decode (drop (length run) s))"
  by pat_completeness auto
termination by (relation "measure (\<lambda>(_, s). length s)") auto

declare unquote_runs.simps [simp del]

definition unquote :: "(nat list \<Rightarrow> pystr) \<Rightarrow> pystr \<Rightarrow> pystr" where
  "unquote decode s = (if 37 \<notin> set s then s else unquote_runs decode s)"

definition plus_to_blank :: "pystr \<Rightarrow> pystr" where
  "plus_to_blank s = map (\<lambda>c. if c = 43 then 32 else c) s"

fun split_on :: "nat \<Rightarrow> pystr \<Rightarrow> pystr list" where
  "split_on sep [] = [[]]"
| "split_on sep (c # cs) =
     (if c = sep then [] # split_on sep cs
      else case split_on sep cs of [] \<Rightarrow> [[c]] | p # ps \<Rightarrow> (c # p) # ps)"

definition parse_pair :: "(nat list \<Rightarrow> pystr) \<Rightarrow> pystr \<Rightarrow> pystr \<times> pystr" where
  "parse_pair decode part =
     (unquote decode (plus_to_blank (takeWhile (\<lambda>c. c \<noteq> 61) part)),
      unquote decode (plus_to_blank (drop 1 (dropWhile (\<lambda>c. c \<noteq> 61) part))))"

definition parse_qsl :: "(nat list \<Rightarrow> pystr) \<Rightarrow> pystr \<Rightarrow> (pystr \<times> pystr) list" where
  "parse_qsl decode query = map (parse_pair decode) (filter (\<lambda>part. part \<noteq> []) (split_on 38 query))"

text \<open>\<open>parse_qs(query).get(name, [])\<close>.\<close>

definition values_of :: "(nat list \<Rightarrow> pystr) \<Rightarrow> pystr \<Rightarrow> pystr \<Rightarrow> pystr list" where
  "values_of decode query name = map snd (filter (\<lambda>(k, _). k = name) (parse_qsl decode query))"

section \<open>What is encoded reads back\<close>

lemma split_on_nonempty: "split_on sep s \<noteq> []"
  by (induction s) (auto split: list.splits)

lemma split_on_none: "sep \<notin> set s \<Longrightarrow> split_on sep s = [s]"
  by (induction s) auto

lemma split_on_append: "sep \<notin> set s \<Longrightarrow> split_on sep (s @ sep # t) = s # split_on sep t"
  by (induction s) auto

lemma split_on_join: "\<forall>p \<in> set ps. sep \<notin> set p \<Longrightarrow> ps \<noteq> [] \<Longrightarrow> split_on sep (py_join [sep] ps) = ps"
proof (induction "[sep]" ps rule: py_join.induct)
  case (3 x y xs)
  then show ?case using split_on_append [of sep x "py_join [sep] (y # xs)"] by simp
qed (auto simp: split_on_none)

lemma hex_upper_digit: "n < 16 \<Longrightarrow> hex_digit_value (hex_upper n) = Some n"
  by (auto simp: hex_upper_def hex_digit_value_def)

lemma hex_upper_plain: "n < 16 \<Longrightarrow> hex_upper n \<noteq> 43 \<and> hex_upper n < 128 \<and> hex_upper n \<noteq> 61 \<and> hex_upper n \<noteq> 38"
  by (auto simp: hex_upper_def)

lemma high_digit: "b < 256 \<Longrightarrow> b div 16 < (16::nat)"
  by (simp add: less_mult_imp_div_less)

lemma unreserved_plain: "unreserved c \<Longrightarrow> c < 128 \<and> c \<noteq> 61 \<and> c \<noteq> 38 \<and> c \<noteq> 37 \<and> c \<noteq> 43"
  by (auto simp: unreserved_def)

lemma quote_byte_chars:
  assumes "b < 256" "c \<in> set (quote_byte b)"
  shows "c < 128 \<and> c \<noteq> 61 \<and> c \<noteq> 38"
proof -
  have d: "b div 16 < 16" "b mod 16 < 16" using assms(1) high_digit by simp_all
  consider "unreserved b" "c = b" | "c = 43" | "c = 37" | "c = hex_upper (b div 16)" | "c = hex_upper (b mod 16)"
    using assms(2) by (simp add: quote_byte_def split: if_split_asm) blast
  then show ?thesis by cases (use unreserved_plain hex_upper_plain [OF d(1)] hex_upper_plain [OF d(2)] in simp_all)
qed

lemma unquote_other: "c \<noteq> 37 \<Longrightarrow> unquote_to_bytes (c # s) = c # unquote_to_bytes s"
  by (cases "c # s" rule: unquote_to_bytes.cases) auto

lemma unquote_quoted_byte:
  assumes "b < 256"
  shows "unquote_to_bytes (plus_to_blank (quote_byte b) @ s) = b # unquote_to_bytes s"
proof -
  have d: "b div 16 < 16" "b mod 16 < 16" using assms high_digit by simp_all
  consider (kept) "unreserved b" | (blank) "\<not> unreserved b" "b = 32" | (coded) "\<not> unreserved b" "b \<noteq> 32" by blast
  then show ?thesis
  proof cases
    case kept
    then show ?thesis using unreserved_plain [OF kept] by (simp add: quote_byte_def plus_to_blank_def unquote_other)
  next
    case blank
    then show ?thesis by (simp add: quote_byte_def plus_to_blank_def unquote_other)
  next
    case coded
    then show ?thesis
      using hex_upper_plain [OF d(1)] hex_upper_plain [OF d(2)] hex_upper_digit [OF d(1)] hex_upper_digit [OF d(2)]
      by (simp add: quote_byte_def plus_to_blank_def)
  qed
qed

lemma unquote_quoted:
  "list_all (\<lambda>b. b < 256) bs \<Longrightarrow> unquote_to_bytes (plus_to_blank (concat (map quote_byte bs))) = bs"
proof (induction bs)
  case (Cons b bs)
  then show ?case
    using unquote_quoted_byte [of b "plus_to_blank (concat (map quote_byte bs))"] by (simp add: plus_to_blank_def)
qed (simp add: plus_to_blank_def)

lemma no_percent: "37 \<notin> set s \<Longrightarrow> unquote_to_bytes s = s"
proof (induction s)
  case (Cons c s)
  then show ?case by (simp add: unquote_other)
qed simp

text \<open>Characters a query can carry, and what is asked of \<open>decode\<close>.\<close>

definition readable :: "(nat list \<Rightarrow> pystr) \<Rightarrow> pystr \<Rightarrow> bool" where
  "readable decode s \<longleftrightarrow> list_all (\<lambda>c. c < 1114112) s \<and> (\<exists>bs. utf8_codes s = Some bs \<and> decode bs = s)"

lemma unreserved_ascii: "quote_byte b = [c] \<Longrightarrow> (if c = 43 then 32 else c) = b \<or> c = 37"
  by (auto simp: quote_byte_def unreserved_def split: if_splits)

lemma unquote_ascii: "list_all (\<lambda>c. c < 128) s \<Longrightarrow> s \<noteq> [] \<Longrightarrow> unquote_runs decode s = decode (unquote_to_bytes s)"
proof -
  assume a: "list_all (\<lambda>c. c < 128) s" "s \<noteq> []"
  have t: "takeWhile (\<lambda>c. c < 128) s = s" using a(1) by (simp add: takeWhile_eq_all_conv list_all_iff)
  have e: "unquote_runs decode [] = []" by (simp add: unquote_runs.simps [of decode "[]"])
  show ?thesis unfolding unquote_runs.simps [of decode s] Let_def t using a(2) e by simp
qed

lemma unquote_quote_plus:
  assumes "readable decode s" "quote_plus s = Some q"
  shows "unquote decode (plus_to_blank q) = s"
proof -
  obtain bs where bs: "utf8_codes s = Some bs" "decode bs = s" "list_all (\<lambda>b. b < 256) bs" "q = concat (map quote_byte bs)"
    using assms utf8_codes_byte by (auto simp: readable_def quote_plus_def)
  have u: "unquote_to_bytes (plus_to_blank q) = bs" using unquote_quoted bs by simp
  have a: "\<forall>c \<in> set (plus_to_blank q). c < 128" using bs(3,4) quote_byte_chars by (fastforce simp: plus_to_blank_def list_all_iff)
  show ?thesis
  proof (cases "37 \<in> set (plus_to_blank q)")
    case True
    then have "unquote_runs decode (plus_to_blank q) = decode bs"
      using a u unquote_ascii [of "plus_to_blank q" decode] by (cases "plus_to_blank q = []") (auto simp: list_all_iff)
    then show ?thesis using True bs(2) by (simp add: unquote_def)
  next
    case False
    have p: "plus_to_blank q = bs" using no_percent [OF False] u by simp
    then have "list_all (\<lambda>c. c < 128) bs" using a by (simp add: list_all_iff)
    have "s = bs" if "utf8_codes s = Some bs" "list_all (\<lambda>c. c < 128) bs" for s
      using that
    proof (induction s arbitrary: bs)
      case (Cons c s)
      then obtain xs ys where "utf8_char c = Some xs" "utf8_codes s = Some ys" "bs = xs @ ys" by (auto split: option.splits)
      then show ?case using Cons by (auto simp: utf8_char_def split: if_splits)
    qed simp
    from this [OF bs(1)] show ?thesis using False p \<open>list_all (\<lambda>c. c < 128) bs\<close> by (simp add: unquote_def)
  qed
qed

lemma quote_plus_chars:
  assumes "readable decode s" "quote_plus s = Some q"
  shows "61 \<notin> set q \<and> 38 \<notin> set q"
proof -
  obtain bs where bs: "list_all (\<lambda>b. b < 256) bs" "q = concat (map quote_byte bs)"
    using assms utf8_codes_byte by (auto simp: readable_def quote_plus_def)
  have "c \<noteq> 61 \<and> c \<noteq> 38" if h: "c \<in> set q" for c
  proof -
    obtain b where "b \<in> set bs" "c \<in> set (quote_byte b)" using h bs(2) by auto
    then show ?thesis using quote_byte_chars [of b c] bs(1) by (simp add: list_all_iff)
  qed
  then show ?thesis by blast
qed

text \<open>An encoded query has no number sign and no control character.\<close>

lemma quote_byte_visible: "c \<in> set (quote_byte b) \<Longrightarrow> 36 < c"
  by (auto simp: quote_byte_def unreserved_def hex_upper_def split: if_splits)

lemma quote_plus_visible: "quote_plus s = Some q \<Longrightarrow> c \<in> set q \<Longrightarrow> 36 < c"
  using quote_byte_visible by (auto simp: quote_plus_def)

lemma py_join_chars: "c \<in> set (py_join sep ps) \<Longrightarrow> c \<in> set sep \<or> (\<exists>p \<in> set ps. c \<in> set p)"
  by (induction sep ps rule: py_join.induct) auto

lemma quoted_pairs_visible: "quoted_pairs query = Some ps \<Longrightarrow> p \<in> set ps \<Longrightarrow> c \<in> set p \<Longrightarrow> 36 < c"
proof (induction query arbitrary: ps)
  case (Cons kv query)
  obtain k v where kv: "kv = (k, v)" by (cases kv)
  then obtain k' v' qs where q: "quote_plus k = Some k'" "quote_plus v = Some v'" "quoted_pairs query = Some qs"
    "ps = (k' @ [61] @ v') # qs" using Cons.prems(1) by (auto split: option.splits)
  show ?case using Cons.IH [OF q(3)] quote_plus_visible [OF q(1)] quote_plus_visible [OF q(2)] Cons.prems(2,3) q(4) by auto
qed simp

lemma urlencode_visible:
  assumes "urlencode query = Some s" "c \<in> set s"
  shows "36 < c"
proof -
  obtain ps where ps: "quoted_pairs query = Some ps" "s = py_join [38] ps" using assms(1) by (auto simp: urlencode_def)
  then show ?thesis using py_join_chars [of c "[38]" ps] quoted_pairs_visible [OF ps(1)] assms(2) by auto
qed

lemma cut_at:
  assumes "sep \<notin> set xs"
  shows "takeWhile (\<lambda>c. c \<noteq> sep) (xs @ sep # ys) = xs" "dropWhile (\<lambda>c. c \<noteq> sep) (xs @ sep # ys) = sep # ys"
  using assms by (induction xs) auto

lemma parse_quoted_pair:
  assumes "readable decode k" "readable decode v" "quote_plus k = Some k'" "quote_plus v = Some v'"
  shows "parse_pair decode (k' @ [61] @ v') = (k, v)"
proof -
  have c: "61 \<notin> set k'" using quote_plus_chars assms by blast
  then show ?thesis using assms by (simp add: parse_pair_def unquote_quote_plus cut_at)
qed

lemma parse_urlencode:
  assumes "\<forall>(k, v) \<in> set query. readable decode k \<and> readable decode v" "urlencode query = Some s"
  shows "parse_qsl decode s = query"
proof -
  have "map (parse_pair decode) ps = query \<and> (\<forall>p \<in> set ps. 38 \<notin> set p \<and> p \<noteq> [])"
    if "\<forall>(k, v) \<in> set query. readable decode k \<and> readable decode v" "quoted_pairs query = Some ps" for ps query
    using that
  proof (induction query arbitrary: ps)
    case (Cons kv query)
    obtain k v where kv: "kv = (k, v)" by (cases kv)
    then obtain k' v' qs where q: "quote_plus k = Some k'" "quote_plus v = Some v'" "quoted_pairs query = Some qs"
      "ps = (k' @ [61] @ v') # qs" using Cons.prems(2) by (auto split: option.splits)
    have r: "readable decode k" "readable decode v" using Cons.prems(1) kv by auto
    show ?case
      using Cons.IH [OF _ q(3)] Cons.prems(1) parse_quoted_pair [OF r q(1,2)] quote_plus_chars [OF r(1) q(1)]
        quote_plus_chars [OF r(2) q(2)] kv q(4) by auto
  qed simp
  moreover obtain ps where ps: "quoted_pairs query = Some ps" "s = py_join [38] ps"
    using assms(2) by (auto simp: urlencode_def)
  ultimately have m: "map (parse_pair decode) ps = query" "\<forall>p \<in> set ps. 38 \<notin> set p \<and> p \<noteq> []" using assms(1) by blast+
  show ?thesis
  proof (cases "ps = []")
    case False
    then have "split_on 38 s = ps" using split_on_join [of ps 38] m(2) ps(2) by auto
    moreover have "filter (\<lambda>part. part \<noteq> []) ps = ps" using m(2) by (simp add: filter_id_conv)
    ultimately show ?thesis using m(1) by (simp add: parse_qsl_def)
  qed (use ps m in \<open>simp add: parse_qsl_def\<close>)
qed

end
