(* ===== verification/Dev_State.thy ===== *)
theory Dev_State
  imports Url_Text Processing "HOL-Library.Sublist"
begin

text \<open>
  \<^verbatim>\<open>scripts/dev_state.py\<close>: the private profile of a development environment and the import of the
  profile of an older checkout, with every point at which the process can die or the file system
  refuse an operation. The old profile is a tree; the shared profile directory is a map from
  relative paths. Permissions and \<open>fsync\<close> are not modelled, and reading is taken to succeed.
\<close>

section \<open>Files\<close>

type_synonym path = "pystr list"

text \<open>A symbolic link only says whether what it points to exists.\<close>

datatype node = File bytes | Folder "(pystr \<times> node) list" | Link bool | Special

datatype entry = Regular bytes | Directory | Symbolic bool | Other

type_synonym files = "path \<rightharpoonup> entry"

fun entry_of :: "node \<Rightarrow> entry" where
  "entry_of (File c) = Regular c"
| "entry_of (Folder kvs) = Directory"
| "entry_of (Link b) = Symbolic b"
| "entry_of Special = Other"

fun at_path :: "node \<Rightarrow> path \<Rightarrow> node option" where
  "at_path n [] = Some n"
| "at_path (Folder kvs) (k # p) = (case map_of kvs k of None \<Rightarrow> None | Some c \<Rightarrow> at_path c p)"
| "at_path _ (k # p) = None"

text \<open>\<open>exists()\<close> follows links, \<open>is_symlink()\<close> does not.\<close>

fun exists :: "entry option \<Rightarrow> bool" where
  "exists None = False"
| "exists (Some (Symbolic b)) = b"
| "exists (Some _) = True"

fun is_symlink :: "entry option \<Rightarrow> bool" where
  "is_symlink (Some (Symbolic _)) = True"
| "is_symlink _ = False"

text \<open>The old profile: \<open>.env\<close> and \<open>state\<close>.\<close>

record legacy_profile =
  lg_env :: "node option"
  lg_state :: "node option"

definition env_name :: pystr where
  "env_name = py ''.env''"

definition state_name :: pystr where
  "state_name = py ''state''"

definition provenance_name :: pystr where
  "provenance_name = py ''.legacy-import.json''"

datatype state_error = StateError string

section \<open>Configuration and identity\<close>

definition PERSISTED_FIELDS :: "pystr list" where
  "PERSISTED_FIELDS = map py
     [''POSTGRES_USER'', ''POSTGRES_PASSWORD'', ''POSTGRES_DB'', ''MINIO_ROOT_USER'', ''MINIO_ROOT_PASSWORD'',
      ''RUSTFS_ACCESS_KEY'', ''RUSTFS_SECRET_KEY'', ''DOCTA_S3_BUCKET'', ''DOCTA_DEV_IAM_DB_USER'',
      ''DOCTA_DEV_IAM_DB_PASSWORD'', ''DOCTA_DEV_IAM_DB_NAME'', ''DOCTA_DEV_IAM_MASTERKEY'',
      ''DOCTA_DEV_LOGIN_USERNAME'', ''DOCTA_DEV_LOGIN_PASSWORD'', ''DOCTA_DEV_ORG_NAME'',
      ''DOCTA_DEV_BOOTSTRAP_USERNAME'', ''DOCTA_DEV_LOGIN_SERVICE_USERNAME'', ''DOCTA_DEV_OIDC_PROJECT_ID'',
      ''DOCTA_DEV_OIDC_CLIENT_ID'', ''DOCTA_WEB_OIDC_CLIENT_ID'', ''DOCTA_WEB_SESSION_SECRET'']"

type_synonym env_values = "pystr \<rightharpoonup> pystr option"

fun legacy_credentials :: "(pystr \<times> pystr) list \<Rightarrow> env_values \<Rightarrow> (state_error, env_values) result" where
  "legacy_credentials [] vals = Inr vals"
| "legacy_credentials ((old, new) # rest) vals =
     (case vals old of
        None \<Rightarrow> legacy_credentials rest vals
      | Some v \<Rightarrow>
          (case vals new of
             None \<Rightarrow> legacy_credentials rest (vals(new \<mapsto> v))
           | Some w \<Rightarrow>
               if v \<noteq> w then Inl (StateError ''Legacy and RustFS credentials disagree; profiles were preserved.'')
               else legacy_credentials rest vals))"

text \<open>\<open>dotenv\<close> is \<open>dotenv_values(path, interpolate=False)\<close>.\<close>

definition managed_values ::
  "(bytes \<Rightarrow> env_values) \<Rightarrow> entry option \<Rightarrow> (state_error, env_values) result" where
  "managed_values dotenv e =
     (case e of
        Some (Regular c) \<Rightarrow>
          if dotenv c (py ''DOCTA_DEV_MANAGED'') \<noteq> Some (Some (py ''1''))
          then Inl (StateError ''Existing development configuration is not managed; preserve it first.'')
          else legacy_credentials [(py ''MINIO_ROOT_USER'', py ''RUSTFS_ACCESS_KEY''),
                 (py ''MINIO_ROOT_PASSWORD'', py ''RUSTFS_SECRET_KEY'')] (dotenv c)
      | _ \<Rightarrow> Inl (StateError ''Private development configuration must be a regular managed file.''))"

text \<open>\<open>json.loads\<close> of a file; \<open>None\<close> is a text it cannot read.\<close>

definition private_identity ::
  "(bytes \<Rightarrow> json option) \<Rightarrow> entry option \<Rightarrow> (state_error, (pystr \<times> json) list) result" where
  "private_identity loads e =
     (if \<not> exists e then Inr []
      else case e of
        Some (Regular c) \<Rightarrow>
          (case loads c of
             None \<Rightarrow> Inl (StateError ''Cannot read private identity state; state was preserved.'')
           | Some (JDict kvs) \<Rightarrow> Inr kvs
           | Some _ \<Rightarrow> Inl (StateError ''Invalid private identity state; state was preserved.''))
      | _ \<Rightarrow> Inl (StateError ''Private identity state must be a regular file; state was preserved.''))"

text \<open>Equal values of Python have the same normal form: \<open>1\<close>, \<open>1.0\<close> and \<open>True\<close> are equal, the order of
  members does not matter. (\<open>NaN\<close> and infinities are not told apart.)\<close>

primrec normal_value :: "json \<Rightarrow> json" where
  "normal_value JNull = JNull"
| "normal_value (JBool b) = JInt (if b then 1 else 0)"
| "normal_value (JInt i) = JInt i"
| "normal_value (JFloat x) = (case x of Finite q \<Rightarrow> if q = of_int \<lfloor>q\<rfloor> then JInt \<lfloor>q\<rfloor> else JFloat x | _ \<Rightarrow> JFloat x)"
| "normal_value (JStr s) = JStr s"
| "normal_value (JList xs) = JList (map normal_value xs)"
| "normal_value (JDict kvs) = JDict (sort_key fst (map (map_prod id normal_value) kvs))"

definition previous_source ::
  "(bytes \<Rightarrow> json option) \<Rightarrow> entry option \<Rightarrow> (state_error, pystr option) result" where
  "previous_source loads e =
     (if \<not> exists e then Inr None
      else case e of
        Some (Regular c) \<Rightarrow>
          (case loads c of
             None \<Rightarrow> Inl (StateError ''Cannot read private migration record; state was preserved.'')
           | Some (JDict kvs) \<Rightarrow>
               if map_option normal_value (map_of kvs (py ''version'')) \<noteq> Some (JInt 1)
               then Inl (StateError ''Invalid private migration record; state was preserved.'')
               else (case map_of kvs (py ''sha256'') of
                  Some (JStr fingerprint) \<Rightarrow>
                    if length fingerprint \<noteq> 64
                    then Inl (StateError ''Invalid private migration record; state was preserved.'')
                    else Inr (Some fingerprint)
                | _ \<Rightarrow> Inl (StateError ''Invalid private migration record; state was preserved.''))
           | Some _ \<Rightarrow> Inl (StateError ''Invalid private migration record; state was preserved.''))
      | _ \<Rightarrow> Inl (StateError ''Invalid private migration record; state was preserved.''))"

section \<open>The fingerprint of an old profile\<close>

text \<open>\<open>rglob\<close> lists every entry below a directory and does not follow links.\<close>

primrec rglob :: "node \<Rightarrow> path \<Rightarrow> (path \<times> node) list" where
  "rglob (File c) p = []"
| "rglob (Folder kvs) p =
     concat (map2 (\<lambda>(k, n) (_, f). (p @ [k], n) # f (p @ [k])) kvs (map (map_prod id rglob) kvs))"
| "rglob (Link b) p = []"
| "rglob Special p = []"

definition utf8 :: "pystr \<Rightarrow> bytes option" where
  "utf8 s = map_option (map of_nat) (utf8_codes s)"

text \<open>\<open>n.to_bytes(8)\<close>: big-endian.\<close>

definition to_bytes_8 :: "nat \<Rightarrow> bytes" where
  "to_bytes_8 n = map (\<lambda>i. of_nat (n div 256 ^ (7 - i))) [0..<8]"

definition cannot_import :: state_error where
  "cannot_import = StateError ''Cannot import the legacy development profile; original files were preserved.''"

fun digested_files :: "(path \<times> node) list \<Rightarrow> (state_error, (bytes \<times> bytes) list) result" where
  "digested_files [] = Inr []"
| "digested_files ((p, n) # rest) =
     (case n of
        Link _ \<Rightarrow> Inl (StateError ''Legacy private state contains a symbolic link; preserve it first.'')
      | Folder _ \<Rightarrow> digested_files rest
      | Special \<Rightarrow> Inl (StateError ''Legacy private state contains an unsupported file; preserve it first.'')
      | File c \<Rightarrow>
          (case utf8 (py_join (py ''/'') p) of
             None \<Rightarrow> Inl cannot_import
           | Some name \<Rightarrow> bindE (digested_files rest) (\<lambda>xs. Inr ((name, c) # xs))))"

definition digested :: "(bytes \<times> bytes) list \<Rightarrow> bytes" where
  "digested xs = concat (map (\<lambda>(name, c). to_bytes_8 (length name) @ name @ to_bytes_8 (length c) @ c) xs)"

definition source_files :: "legacy_profile \<Rightarrow> (state_error, (bytes \<times> bytes) list) result" where
  "source_files legacy =
     (case lg_state legacy of
        Some (Link _) \<Rightarrow> Inl (StateError ''Legacy private state contains a symbolic link; preserve it first.'')
      | Some (File _) \<Rightarrow> Inl (StateError ''Legacy private state must be a directory; state was preserved.'')
      | Some Special \<Rightarrow> Inl (StateError ''Legacy private state must be a directory; state was preserved.'')
      | st \<Rightarrow> digested_files
          ((case lg_env legacy of None \<Rightarrow> [] | Some n \<Rightarrow> [([env_name], n)]) @
           (case st of None \<Rightarrow> [] | Some n \<Rightarrow> sort_key fst (rglob n [state_name]))))"

text \<open>\<open>sha\<close> is \<open>hashlib.sha256\<close> and its \<open>hexdigest\<close>.\<close>

definition source_fingerprint :: "(bytes \<Rightarrow> pystr) \<Rightarrow> legacy_profile \<Rightarrow> (state_error, pystr) result" where
  "source_fingerprint sha legacy = bindE (source_files legacy) (\<lambda>xs. Inr (sha (digested xs)))"

section \<open>Operations on the profile directory\<close>

datatype op = Make_dir path | Create path | Write path bytes | Move path path | Remove path | Refuse

definition apply_op :: "op \<Rightarrow> files \<Rightarrow> files" where
  "apply_op o1 fs =
     (case o1 of
        Make_dir p \<Rightarrow> fs(p \<mapsto> Directory)
      | Create p \<Rightarrow> fs(p \<mapsto> Regular [])
      | Write p c \<Rightarrow> fs(p \<mapsto> Regular c)
      | Move p q \<Rightarrow> (\<lambda>r. if prefix q r then fs (p @ drop (length q) r) else if prefix p r then None else fs r)
      | Remove p \<Rightarrow> (\<lambda>r. if prefix p r then None else fs r)
      | Refuse \<Rightarrow> fs)"

text \<open>An operation succeeds, raises \<open>OSError\<close>, or the process dies in it; the last two may have written
  the beginning of a file.\<close>

datatype fault = Fine | Failed nat | Killed nat

fun partly :: "nat \<Rightarrow> op \<Rightarrow> files \<Rightarrow> files" where
  "partly k (Write p c) fs = fs(p \<mapsto> Regular (take k c))"
| "partly k _ fs = fs"

datatype 'a stop = Returned 'a | Raised state_error | Died

fun run_ops :: "op list \<Rightarrow> fault list \<Rightarrow> files \<Rightarrow> unit stop \<times> fault list \<times> files" where
  "run_ops [] fl fs = (Returned (), fl, fs)"
| "run_ops (Refuse # ops) fl fs =
     (Raised (StateError ''Legacy private state contains an unsupported file; preserve it first.''), fl, fs)"
| "run_ops (o1 # ops) [] fs = run_ops ops [] (apply_op o1 fs)"
| "run_ops (o1 # ops) (Fine # fl) fs = run_ops ops fl (apply_op o1 fs)"
| "run_ops (o1 # ops) (Failed k # fl) fs = (Raised cannot_import, fl, partly k o1 fs)"
| "run_ops (o1 # ops) (Killed k # fl) fs = (Died, fl, partly k o1 fs)"

primrec copy_private :: "node \<Rightarrow> path \<Rightarrow> op list" where
  "copy_private (File c) p = [Create p, Write p c]"
| "copy_private (Folder kvs) p =
     Make_dir p # concat (map (\<lambda>(k, f). f (p @ [k])) (map (map_prod id copy_private) kvs))"
| "copy_private (Link b) p = [Refuse]"
| "copy_private Special p = [Refuse]"

section \<open>The import\<close>

text \<open>What is written as the record of the import.\<close>

definition record_text :: "pystr \<Rightarrow> bytes" where
  "record_text fingerprint = map of_nat
     (json_text \<lparr>js_ascii = True, js_item_separator = py '', '', js_key_separator = py '': '', js_sort_keys = False,
        js_float = (\<lambda>_. [])\<rparr> (JDict [(py ''version'', JInt 1), (py ''sha256'', JStr fingerprint)]))"

definition staging_ops :: "pystr \<Rightarrow> legacy_profile \<Rightarrow> pystr \<Rightarrow> op list" where
  "staging_ops tmp legacy fingerprint =
     Make_dir [tmp] #
     (case lg_state legacy of None \<Rightarrow> [] | Some n \<Rightarrow> copy_private n [tmp, state_name]) @
     (case lg_env legacy of None \<Rightarrow> [Refuse] | Some n \<Rightarrow> copy_private n [tmp, env_name]) @
     [Create [tmp, provenance_name], Write [tmp, provenance_name] (record_text fingerprint)]"

definition publish_ops :: "pystr \<Rightarrow> legacy_profile \<Rightarrow> op list" where
  "publish_ops tmp legacy =
     (if lg_state legacy = None then [] else [Move [tmp, state_name] [state_name]]) @
     [Move [tmp, provenance_name] [provenance_name], Move [tmp, env_name] [env_name]]"

text \<open>\<open>TemporaryDirectory\<close> is removed however its block ends, unless the process died.\<close>

definition import_profile ::
  "pystr \<Rightarrow> fault list \<Rightarrow> legacy_profile \<Rightarrow> pystr \<Rightarrow> files \<Rightarrow> bool stop \<times> files" where
  "import_profile tmp faults legacy fingerprint fs =
     (case run_ops (staging_ops tmp legacy fingerprint @ publish_ops tmp legacy) faults fs of
        (Died, fl, fs1) \<Rightarrow> (Died, fs1)
      | (Returned _, fl, fs1) \<Rightarrow>
          (case run_ops [Remove [tmp]] fl fs1 of
             (Returned _, _, fs2) \<Rightarrow> (Returned True, fs2) | (Raised e, _, fs2) \<Rightarrow> (Raised e, fs2) | (Died, _, fs2) \<Rightarrow> (Died, fs2))
      | (Raised e1, fl, fs1) \<Rightarrow>
          (case run_ops [Remove [tmp]] fl fs1 of
             (Returned _, _, fs2) \<Rightarrow> (Raised e1, fs2) | (Raised e, _, fs2) \<Rightarrow> (Raised e, fs2) | (Died, _, fs2) \<Rightarrow> (Died, fs2)))"

definition conflicting ::
  "env_values \<Rightarrow> env_values \<Rightarrow> (pystr \<times> json) list \<Rightarrow> (pystr \<times> json) list \<Rightarrow> bool" where
  "conflicting legacy_values shared_values legacy_identity shared_identity \<longleftrightarrow>
     list_ex (\<lambda>key. case (legacy_values key, shared_values key) of (Some v, Some w) \<Rightarrow> v \<noteq> w | _ \<Rightarrow> False) PERSISTED_FIELDS \<or>
     list_ex (\<lambda>key. case (map_of legacy_identity key, map_of shared_identity key) of
         (Some v, Some w) \<Rightarrow> normal_value v \<noteq> normal_value w | _ \<Rightarrow> False)
       [py ''instance_id'', py ''project_id'', py ''app_id'']"

definition legacy_entry :: "node option \<Rightarrow> path \<Rightarrow> entry option" where
  "legacy_entry n p = map_option entry_of (Option.bind n (\<lambda>n. at_path n p))"

definition identity_name :: pystr where
  "identity_name = py ''identity.json''"

definition compare_profiles ::
  "(bytes \<Rightarrow> json option) \<Rightarrow> legacy_profile \<Rightarrow> files \<Rightarrow> env_values \<Rightarrow> env_values \<Rightarrow> pystr \<Rightarrow> (state_error, bool) result" where
  "compare_profiles loads legacy fs legacy_values shared_values fingerprint =
     bindE (previous_source loads (fs [provenance_name])) (\<lambda>prev.
       if prev = Some fingerprint then Inr False
       else bindE (private_identity loads (legacy_entry (lg_state legacy) [identity_name])) (\<lambda>legacy_identity.
            bindE (private_identity loads (fs [state_name, identity_name])) (\<lambda>shared_identity.
              if conflicting legacy_values shared_values legacy_identity shared_identity
              then Inl (StateError ''Legacy and shared development profiles identify different persisted environments.'')
              else Inr False)))"

text \<open>The checks before anything is written: \<open>Inr (Some fingerprint)\<close> goes on to import.\<close>

definition admit ::
  "(bytes \<Rightarrow> env_values) \<Rightarrow> (bytes \<Rightarrow> json option) \<Rightarrow> (bytes \<Rightarrow> pystr) \<Rightarrow> legacy_profile \<Rightarrow> files \<Rightarrow>
   (state_error, pystr option) result" where
  "admit dotenv loads sha legacy fs =
     (if is_symlink (fs [env_name]) \<or> is_symlink (fs [state_name]) \<or> is_symlink (fs [provenance_name])
      then Inl (StateError ''Shared private state contains a symbolic link; preserve it first.'')
      else if \<not> exists (fs [env_name]) \<and> (exists (fs [state_name]) \<or> exists (fs [provenance_name]))
      then Inl (StateError ''Incomplete shared development profile: state exists without configuration.'')
      else bindE (if exists (fs [env_name]) then bindE (managed_values dotenv (fs [env_name])) (\<lambda>vals. Inr (Some vals))
                  else Inr None) (\<lambda>shared_values.
        if lg_env legacy = None then Inr None
        else bindE (managed_values dotenv (map_option entry_of (lg_env legacy))) (\<lambda>legacy_values.
             bindE (source_fingerprint sha legacy) (\<lambda>fingerprint.
               case shared_values of
                 Some vals \<Rightarrow>
                   bindE (compare_profiles loads legacy fs legacy_values vals fingerprint) (\<lambda>_. Inr None)
               | None \<Rightarrow> Inr (Some fingerprint)))))"

text \<open>\<open>same\<close>: the profile directory is the directory of the checkout.\<close>

definition migrate_legacy ::
  "bool \<Rightarrow> (bytes \<Rightarrow> env_values) \<Rightarrow> (bytes \<Rightarrow> json option) \<Rightarrow> (bytes \<Rightarrow> pystr) \<Rightarrow> pystr \<Rightarrow> fault list \<Rightarrow>
   legacy_profile \<Rightarrow> files \<Rightarrow> bool stop \<times> files" where
  "migrate_legacy same dotenv loads sha tmp faults legacy fs =
     (if same then (Returned False, fs)
      else case admit dotenv loads sha legacy fs of
        Inl e \<Rightarrow> (Raised e, fs)
      | Inr None \<Rightarrow> (Returned False, fs)
      | Inr (Some fingerprint) \<Rightarrow> import_profile tmp faults legacy fingerprint fs)"

section \<open>Where operations act\<close>

fun under :: "path \<Rightarrow> op \<Rightarrow> bool" where
  "under p (Make_dir q) = prefix p q"
| "under p (Create q) = prefix p q"
| "under p (Write q c) = prefix p q"
| "under p Refuse = True"
| "under p _ = False"

lemma apply_under: "under p o1 \<Longrightarrow> \<not> prefix p q \<Longrightarrow> apply_op o1 fs q = fs q"
  by (cases o1) (auto simp: apply_op_def)

lemma partly_under: "under p o1 \<Longrightarrow> \<not> prefix p q \<Longrightarrow> partly k o1 fs q = fs q"
  by (cases o1) auto

lemma fold_under: "\<forall>o1 \<in> set ops. under p o1 \<Longrightarrow> \<not> prefix p q \<Longrightarrow> fold apply_op ops fs q = fs q"
  by (induction ops arbitrary: fs) (auto simp: apply_under)

lemma under_prefix: "under p o1 \<Longrightarrow> prefix q p \<Longrightarrow> under q o1"
  by (cases o1) (auto intro: prefix_order.trans)

lemma copy_under: "o1 \<in> set (copy_private n p) \<Longrightarrow> under p o1"
proof (induction n arbitrary: p)
  case (Folder kvs)
  then consider "o1 = Make_dir p" | k n where "(k, n) \<in> set kvs" "o1 \<in> set (copy_private n (p @ [k]))" by auto
  then show ?case
  proof cases
    case 2
    then have "under (p @ [k]) o1" using Folder(1) [OF 2(1), of n] by simp
    then show ?thesis by (rule under_prefix) simp
  qed simp
qed auto

text \<open>Real directories have distinct names; what was fingerprinted has no links or devices.\<close>

primrec plain :: "node \<Rightarrow> bool" where
  "plain (File c) = True"
| "plain (Folder kvs) = (distinct (map fst kvs) \<and> list_all snd (map (map_prod id plain) kvs))"
| "plain (Link b) = False"
| "plain Special = False"

lemma plain_Folder: "plain (Folder kvs) \<longleftrightarrow> distinct (map fst kvs) \<and> (\<forall>(k, n) \<in> set kvs. plain n)"
  by (auto simp: list_all_iff)

lemma copy_result: "plain n \<Longrightarrow> (\<And>r. fs (p @ r) = None) \<Longrightarrow>
    fold apply_op (copy_private n p) fs (p @ r) = map_option entry_of (at_path n r)"
proof (induction n arbitrary: p fs r)
  case (File c)
  then show ?case by (cases r) (auto simp: apply_op_def)
next
  case (Folder kvs)
  let ?ops = "\<lambda>kvs. concat (map (\<lambda>(k, f). f (p @ [k])) (map (map_prod id copy_private) kvs))"
  have keep: "fold apply_op (?ops xs) g q = g q" if "\<forall>k \<in> fst ` set xs. \<not> prefix (p @ [k]) q" for xs g q
    using that
  proof (induction xs arbitrary: g)
    case (Cons x xs)
    obtain k n where x: "x = (k, n)" by (cases x)
    have "fold apply_op (copy_private n (p @ [k])) g q = g q"
      by (rule fold_under [where p = "p @ [k]"]) (use Cons.prems x copy_under in auto)
    then show ?case using Cons x by simp
  qed simp
  have inner: "fold apply_op (?ops xs) g (p @ k # r) = map_option entry_of (at_path n r)"
    if "set xs \<subseteq> set kvs" "distinct (map fst xs)" "(k, n) \<in> set xs" "\<And>r. g (p @ k # r) = None" for xs g k n r
    using that
  proof (induction xs arbitrary: g)
    case (Cons x xs)
    obtain k' n' where x: "x = (k', n')" by (cases x)
    show ?case
    proof (cases "k' = k")
      case True
      then have n: "n' = n" using Cons.prems(2,3) x by force
      have "plain n" using Folder(2) Cons.prems(1) x n unfolding plain_Folder by auto
      then have "fold apply_op (copy_private n (p @ [k])) g ((p @ [k]) @ r) = map_option entry_of (at_path n r)"
        by (intro Folder(1) [of "(k, n)" n]) (use Cons.prems(1,4) x n True in \<open>auto simp: snds.simps\<close>)
      moreover have "\<forall>k \<in> fst ` set xs. \<not> prefix (p @ [k]) (p @ k' # r)" using Cons.prems(2) x by auto
      then have "fold apply_op (?ops xs) (fold apply_op (copy_private n (p @ [k])) g) (p @ k # r) =
          fold apply_op (copy_private n (p @ [k])) g (p @ k # r)" using True by (intro keep) simp
      moreover have "?ops (x # xs) = copy_private n (p @ [k]) @ ?ops xs" using x n True by simp
      ultimately show ?thesis by (simp only: fold_append comp_apply) simp
    next
      case False
      have "fold apply_op (copy_private n' (p @ [k'])) g (p @ k # r) = g (p @ k # r)" for r
        by (rule fold_under [where p = "p @ [k']"]) (use False copy_under in auto)
      then show ?thesis using Cons x False by simp
    qed
  qed simp
  define g where "g = apply_op (Make_dir p) fs"
  have g: "g p = Some Directory" "\<And>k r. g (p @ k # r) = None" using Folder(3) by (simp_all add: g_def apply_op_def)
  have e: "fold apply_op (copy_private (Folder kvs) p) fs = fold apply_op (?ops kvs) g" by (simp add: g_def)
  show ?case
  proof (cases r)
    case Nil
    then show ?thesis unfolding e using keep [of kvs p g] g(1) by simp
  next
    case (Cons k r')
    show ?thesis
    proof (cases "map_of kvs k")
      case None
      then have "\<forall>k' \<in> fst ` set kvs. \<not> prefix (p @ [k']) (p @ k # r')" by (auto simp: map_of_eq_None_iff)
      then show ?thesis unfolding e using keep [of kvs "p @ k # r'" g] g(2) None Cons by simp
    next
      case (Some n)
      then show ?thesis
        unfolding e using inner [of kvs k n g r'] Folder(2) g(2) Cons map_of_SomeD [of kvs k n] plain_Folder by auto
    qed
  qed
qed simp_all

section \<open>Runs\<close>

lemma run_ops_prefix:
  "run_ops ops fl fs = (out, fl', fs') \<Longrightarrow>
     (\<exists>k \<le> length ops. fs' = fold apply_op (take k ops) fs \<or>
        (\<exists>j. k < length ops \<and> fs' = partly j (ops ! k) (fold apply_op (take k ops) fs))) \<and>
     (out = Returned () \<longrightarrow> fs' = fold apply_op ops fs)"
proof (induction ops arbitrary: fl fs)
  case (Cons o1 ops)
  consider (stopped) j where "out \<noteq> Returned ()" "fs' = fs \<or> fs' = partly j o1 fs"
    | (goes) fl2 where "run_ops ops fl2 (apply_op o1 fs) = (out, fl', fs')"
    using Cons.prems by (cases "(o1 # ops, fl, fs)" rule: run_ops.cases) auto
  then show ?case
  proof cases
    case stopped
    then show ?thesis by (intro conjI exI [of _ "0 :: nat"]) auto
  next
    case goes
    from Cons.IH [OF goes] obtain k where k: "k \<le> length ops"
      "fs' = fold apply_op (take k ops) (apply_op o1 fs) \<or>
       (\<exists>j. k < length ops \<and> fs' = partly j (ops ! k) (fold apply_op (take k ops) (apply_op o1 fs)))"
      "out = Returned () \<longrightarrow> fs' = fold apply_op ops (apply_op o1 fs)" by blast
    then show ?thesis by (intro conjI exI [of _ "Suc k"]) simp_all
  qed
qed simp

lemma run_ops_fine: "Refuse \<notin> set ops \<Longrightarrow> run_ops ops [] fs = (Returned (), [], fold apply_op ops fs)"
proof (induction ops arbitrary: fs)
  case (Cons o1 ops)
  then show ?case by (cases o1) auto
qed simp

lemma run_ops_single: "run_ops [Remove p] fl fs = (out, fl', fs') \<Longrightarrow>
    fs' = (if out = Returned () then apply_op (Remove p) fs else fs)"
  by (cases fl; cases "hd fl") auto

lemma remove_away: "\<not> prefix p q \<Longrightarrow> apply_op (Remove p) fs q = fs q"
  by (simp add: apply_op_def)

text \<open>Away from the staging directory, an import leaves the profile as a number of its publishing steps
  leave it; it returns \<open>True\<close> only after all of them.\<close>

lemma import_profile_steps:
  assumes "import_profile tmp faults legacy fp fs = (out, fs')"
    and "\<forall>o1 \<in> set (staging_ops tmp legacy fp). under [tmp] o1"
  defines "S \<equiv> fold apply_op (staging_ops tmp legacy fp) fs"
  shows "(\<forall>q. \<not> prefix [tmp] q \<longrightarrow> fs' q = fs q) \<or>
      (\<exists>k \<le> length (publish_ops tmp legacy). \<forall>q. \<not> prefix [tmp] q \<longrightarrow>
         fs' q = fold apply_op (take k (publish_ops tmp legacy)) S q)" (is ?a)
    and "out = Returned b \<Longrightarrow> b \<and> fs' = apply_op (Remove [tmp]) (fold apply_op (publish_ops tmp legacy) S)"
proof -
  let ?st = "staging_ops tmp legacy fp" and ?pb = "publish_ops tmp legacy"
  obtain out1 fl1 fs1 where r1: "run_ops (?st @ ?pb) faults fs = (out1, fl1, fs1)" by (metis prod_cases3)
  have fs': "fs' = fs1 \<or> fs' = apply_op (Remove [tmp]) fs1"
    using assms(1) r1 by (cases out1) (auto simp: import_profile_def split: prod.splits stop.splits dest!: run_ops_single)
  then have eq: "fs' q = fs1 q" if "\<not> prefix [tmp] q" for q using that remove_away by metis
  note p = run_ops_prefix [OF r1]
  obtain k where k: "k \<le> length (?st @ ?pb)" "fs1 = fold apply_op (take k (?st @ ?pb)) fs \<or>
      (\<exists>j. k < length (?st @ ?pb) \<and> fs1 = partly j ((?st @ ?pb) ! k) (fold apply_op (take k (?st @ ?pb)) fs))"
    using p by blast
  have part: "partly j ((?st @ ?pb) ! k) g q = g q" if "k < length (?st @ ?pb)" "\<not> prefix [tmp] q" for j g q
  proof (cases "k < length ?st")
    case True
    then have "under [tmp] ((?st @ ?pb) ! k)" using assms(2) nth_mem [OF True] by (simp add: nth_append)
    then show ?thesis using that(2) by (rule partly_under)
  next
    case False
    then have "(?st @ ?pb) ! k \<in> set ?pb" using that(1) by (auto simp: nth_append)
    then show ?thesis by (auto simp: publish_ops_def split: if_splits)
  qed
  have fs1: "fs1 q = fold apply_op (take k (?st @ ?pb)) fs q" if "\<not> prefix [tmp] q" for q
    using k(2) part that by metis
  show ?a
  proof (cases "k \<le> length ?st")
    case True
    have "fold apply_op (take k (?st @ ?pb)) fs q = fs q" if "\<not> prefix [tmp] q" for q
      by (rule fold_under [OF _ that]) (use True assms(2) in \<open>auto dest: in_set_takeD\<close>)
    then show ?thesis using fs1 eq by simp
  next
    case False
    have "take k (?st @ ?pb) = ?st @ take (k - length ?st) ?pb" using False by simp
    then have "fs' q = fold apply_op (take (k - length ?st) ?pb) S q" if "\<not> prefix [tmp] q" for q
      using fs1 eq that by (simp add: S_def)
    moreover have "k - length ?st \<le> length ?pb" using k(1) by simp
    ultimately show ?thesis by blast
  qed
  show "b \<and> fs' = apply_op (Remove [tmp]) (fold apply_op ?pb S)" if "out = Returned b"
  proof -
    have "out1 = Returned () \<and> b \<and> fs' = apply_op (Remove [tmp]) fs1"
      using assms(1) r1 that
      by (cases out1) (auto simp: import_profile_def split: prod.splits stop.splits dest!: run_ops_single)
    then show ?thesis using p by (simp add: S_def)
  qed
qed

section \<open>What is staged and published\<close>

lemma names_distinct:
  "env_name \<noteq> state_name" "env_name \<noteq> provenance_name" "state_name \<noteq> provenance_name"
  "state_name \<noteq> env_name" "provenance_name \<noteq> env_name" "provenance_name \<noteq> state_name"
  by (simp_all add: env_name_def state_name_def provenance_name_def py_def)

definition temporary :: "pystr \<Rightarrow> bool" where
  "temporary tmp \<longleftrightarrow> prefix (py ''.legacy-import-'') tmp"

lemma temporary_distinct:
  assumes "temporary tmp"
  shows "tmp \<noteq> env_name" "tmp \<noteq> state_name" "tmp \<noteq> provenance_name"
  using assms by (auto simp: temporary_def env_name_def state_name_def provenance_name_def py_def prefix_def)

definition importable :: "legacy_profile \<Rightarrow> bool" where
  "importable legacy \<longleftrightarrow> (\<exists>c. lg_env legacy = Some (File c)) \<and> (case lg_state legacy of None \<Rightarrow> True | Some n \<Rightarrow> plain n)"

lemma staging_under: "importable legacy \<Longrightarrow> \<forall>o1 \<in> set (staging_ops tmp legacy fp). under [tmp] o1"
  by (auto simp: staging_ops_def importable_def split: option.splits dest!: copy_under intro: under_prefix)

lemma copy_no_refuse: "plain n \<Longrightarrow> Refuse \<notin> set (copy_private n p)"
proof (induction n arbitrary: p)
  case (Folder kvs)
  then show ?case unfolding plain_Folder by auto
qed auto

lemma steps_no_refuse: "importable legacy \<Longrightarrow> Refuse \<notin> set (staging_ops tmp legacy fp @ publish_ops tmp legacy)"
  by (auto simp: staging_ops_def publish_ops_def importable_def copy_no_refuse split: option.splits)

lemma staged:
  fixes fp
  assumes "importable legacy" "\<And>r. fs (tmp # r) = None"
  defines "S \<equiv> fold apply_op (staging_ops tmp legacy fp) fs"
  shows "S (tmp # state_name # r) = legacy_entry (lg_state legacy) r"
    and "S (tmp # env_name # r) = legacy_entry (lg_env legacy) r"
    and "S (tmp # provenance_name # r) = (if r = [] then Some (Regular (record_text fp)) else None)"
    and "\<not> prefix [tmp] q \<Longrightarrow> S q = fs q"
proof -
  obtain c where env: "lg_env legacy = Some (File c)" using assms(1) by (auto simp: importable_def)
  define g0 where "g0 = apply_op (Make_dir [tmp]) fs"
  define g1 where "g1 = fold apply_op (case lg_state legacy of None \<Rightarrow> [] | Some n \<Rightarrow> copy_private n [tmp, state_name]) g0"
  have S: "S = apply_op (Write [tmp, provenance_name] (record_text fp)) (apply_op (Create [tmp, provenance_name])
      (apply_op (Write [tmp, env_name] c) (apply_op (Create [tmp, env_name]) g1)))"
    by (simp add: S_def staging_ops_def env g1_def g0_def)
  have g0: "g0 (tmp # k # r) = None" for k r using assms(2) by (simp add: g0_def apply_op_def)
  have g1: "g1 (tmp # state_name # r) = legacy_entry (lg_state legacy) r"
  proof (cases "lg_state legacy")
    case (Some n)
    then have "plain n" using assms(1) by (simp add: importable_def)
    then have "fold apply_op (copy_private n [tmp, state_name]) g0 ([tmp, state_name] @ r) = map_option entry_of (at_path n r)"
      by (rule copy_result) (simp add: g0)
    then show ?thesis by (simp add: g1_def legacy_entry_def Some)
  qed (simp add: g1_def legacy_entry_def g0)
  have g1': "g1 q = g0 q" if "\<not> prefix [tmp, state_name] q" for q
    using that by (auto simp: g1_def split: option.split intro!: fold_under [where p = "[tmp, state_name]"] copy_under)
  show "S (tmp # state_name # r) = legacy_entry (lg_state legacy) r"
    using g1 names_distinct by (simp add: S apply_op_def)
  show "S (tmp # env_name # r) = legacy_entry (lg_env legacy) r"
    using g1' [of "tmp # env_name # r"] g0 names_distinct by (cases r) (simp_all add: S apply_op_def env legacy_entry_def)
  show "S (tmp # provenance_name # r) = (if r = [] then Some (Regular (record_text fp)) else None)"
    using g1' [of "tmp # provenance_name # r"] g0 names_distinct by (simp add: S apply_op_def)
  show "S q = fs q" if "\<not> prefix [tmp] q"
    unfolding S_def by (rule fold_under [OF staging_under [OF assms(1)] that])
qed

text \<open>The profile with the state, the record and the configuration published, or not yet.\<close>

definition published :: "bool \<Rightarrow> bool \<Rightarrow> bool \<Rightarrow> legacy_profile \<Rightarrow> pystr \<Rightarrow> files \<Rightarrow> files" where
  "published a b c legacy fp fs = (\<lambda>q. case q of [] \<Rightarrow> fs []
     | k # r \<Rightarrow> if k = state_name \<and> a then legacy_entry (lg_state legacy) r
         else if k = provenance_name \<and> b then (if r = [] then Some (Regular (record_text fp)) else None)
         else if k = env_name \<and> c then legacy_entry (lg_env legacy) r
         else fs q)"

lemma published_steps:
  fixes fp
  assumes "importable legacy" "\<And>r. fs (tmp # r) = None" "temporary tmp" "\<And>r. fs (state_name # r) = None"
    and "k \<le> length (publish_ops tmp legacy)"
  defines "S \<equiv> fold apply_op (staging_ops tmp legacy fp) fs"
  shows "\<exists>a b c. (c \<longrightarrow> b) \<and> (b \<longrightarrow> a) \<and> (k = length (publish_ops tmp legacy) \<longrightarrow> c) \<and>
    (\<forall>q. \<not> prefix [tmp] q \<longrightarrow> fold apply_op (take k (publish_ops tmp legacy)) S q = published a b c legacy fp fs q)"
proof -
  note d = temporary_distinct [OF assms(3)] names_distinct
  have S: "S (tmp # state_name # r) = legacy_entry (lg_state legacy) r" "S (tmp # env_name # r) = legacy_entry (lg_env legacy) r"
    "S (tmp # provenance_name # r) = (if r = [] then Some (Regular (record_text fp)) else None)" for r
    unfolding S_def using staged(1-3) [where fs = fs and tmp = tmp, OF assms(1,2)] by blast+
  have away: "S q = fs q" if "\<not> prefix [tmp] q" for q
    unfolding S_def using staged(4) [where fs = fs and tmp = tmp, OF assms(1,2) that] .
  define M1 where "M1 = (if lg_state legacy = None then S else apply_op (Move [tmp, state_name] [state_name]) S)"
  define M2 where "M2 = apply_op (Move [tmp, provenance_name] [provenance_name]) M1"
  define M3 where "M3 = apply_op (Move [tmp, env_name] [env_name]) M2"
  have m1: "M1 q = published True False False legacy fp fs q" if "\<not> prefix [tmp] q" for q
    using that away S(1) assms(4) d
    by (cases q) (auto simp: M1_def published_def apply_op_def legacy_entry_def)
  have t1: "M1 (tmp # env_name # r) = S (tmp # env_name # r)" "M1 (tmp # provenance_name # r) = S (tmp # provenance_name # r)" for r
    using d by (auto simp: M1_def apply_op_def)
  have m2: "M2 q = published True True False legacy fp fs q" if "\<not> prefix [tmp] q" for q
    using that m1 [of q] S(3) t1 d by (cases q) (auto simp: M2_def published_def apply_op_def)
  have t2: "M2 (tmp # env_name # r) = S (tmp # env_name # r)" for r
    using d t1 by (auto simp: M2_def apply_op_def)
  have m3: "M3 q = published True True True legacy fp fs q" if "\<not> prefix [tmp] q" for q
    using that m2 [of q] S(2) t2 d by (cases q) (auto simp: M3_def published_def apply_op_def)
  have m0: "S q = published False False False legacy fp fs q" if "\<not> prefix [tmp] q" for q
    using that away by (cases q) (auto simp: published_def)
  show ?thesis
  proof (cases "lg_state legacy")
    case None
    then have M1: "M1 = S" by (simp add: M1_def)
    consider "k = 0" | "k = 1" | "k = 2" using assms(5) None by (force simp: publish_ops_def)
    then show ?thesis
    proof cases
      case 1
      then show ?thesis using None m0 by (intro exI [of _ False]) (simp add: publish_ops_def)
    next
      case 2
      then have "fold apply_op (take k (publish_ops tmp legacy)) S = M2" using None M1 by (simp add: publish_ops_def M2_def)
      then show ?thesis using 2 None m2 by (intro exI [of _ True] exI [of _ False]) (simp add: publish_ops_def)
    next
      case 3
      then have "fold apply_op (take k (publish_ops tmp legacy)) S = M3" using None M1 by (simp add: publish_ops_def M2_def M3_def)
      then show ?thesis using m3 by (intro exI [of _ True]) simp
    qed
  next
    case (Some n)
    then have M1: "M1 = apply_op (Move [tmp, state_name] [state_name]) S" by (simp add: M1_def)
    consider "k = 0" | "k = 1" | "k = 2" | "k = 3" using assms(5) Some by (force simp: publish_ops_def)
    then show ?thesis
    proof cases
      case 1
      then show ?thesis using Some m0 by (intro exI [of _ False]) (simp add: publish_ops_def)
    next
      case 2
      then have "fold apply_op (take k (publish_ops tmp legacy)) S = M1" using Some M1 by (simp add: publish_ops_def)
      then show ?thesis using 2 Some m1 by (intro exI [of _ True] exI [of _ False]) (simp add: publish_ops_def)
    next
      case 3
      then have "fold apply_op (take k (publish_ops tmp legacy)) S = M2"
        using Some M1 by (simp add: publish_ops_def M2_def numeral_2_eq_2)
      then show ?thesis using 3 Some m2 by (intro exI [of _ True] exI [of _ True] exI [of _ False]) (simp add: publish_ops_def)
    next
      case 4
      then have "fold apply_op (take k (publish_ops tmp legacy)) S = M3"
        using Some M1 by (simp add: publish_ops_def M2_def M3_def numeral_3_eq_3)
      then show ?thesis using m3 by (intro exI [of _ True]) simp
    qed
  qed
qed

section \<open>What the import promises\<close>

primrec distinct_names :: "node \<Rightarrow> bool" where
  "distinct_names (File c) = True"
| "distinct_names (Folder kvs) = (distinct (map fst kvs) \<and> list_all snd (map (map_prod id distinct_names) kvs))"
| "distinct_names (Link b) = True"
| "distinct_names Special = True"

lemma distinct_names_Folder:
  "distinct_names (Folder kvs) \<longleftrightarrow> distinct (map fst kvs) \<and> (\<forall>(k, n) \<in> set kvs. distinct_names n)"
  by (auto simp: list_all_iff)

fun copyable :: "node \<Rightarrow> bool" where
  "copyable (File _) = True"
| "copyable (Folder _) = True"
| "copyable _ = False"

lemma digested_copyable: "digested_files xs = Inr ys \<Longrightarrow> (p, n) \<in> set xs \<Longrightarrow> copyable n"
  by (induction xs arbitrary: ys rule: digested_files.induct)
    (auto simp: bindE_eq_Inr split: node.splits option.splits)

lemma rglob_child:
  assumes "(k, n) \<in> set kvs"
  shows "(p @ [k], n) \<in> set (rglob (Folder kvs) p)" "set (rglob n (p @ [k])) \<subseteq> set (rglob (Folder kvs) p)"
  using assms by (induction kvs) auto

lemma rglob_plain:
  "distinct_names n \<Longrightarrow> copyable n \<Longrightarrow> (\<forall>(q, m) \<in> set (rglob n p). copyable m) \<Longrightarrow> plain n"
proof (induction n arbitrary: p)
  case (Folder kvs)
  have "plain n" if kn: "(k, n) \<in> set kvs" for k n
  proof -
    have "distinct_names n" using Folder(2) kn unfolding distinct_names_Folder by blast
    moreover have "copyable n" using Folder(4) rglob_child(1) [OF kn] by blast
    moreover have "\<forall>(q, m) \<in> set (rglob n (p @ [k])). copyable m" using Folder(4) rglob_child(2) [OF kn] by blast
    ultimately show ?thesis by (intro Folder(1) [of "(k, n)" n "p @ [k]"]) (use kn in \<open>auto simp: snds.simps\<close>)
  qed
  then show ?case using Folder(2) unfolding plain_Folder distinct_names_Folder by blast
qed simp_all

definition tidy :: "legacy_profile \<Rightarrow> bool" where
  "tidy legacy \<longleftrightarrow> (case lg_state legacy of None \<Rightarrow> True | Some n \<Rightarrow> distinct_names n)"

lemma managed_regular: "managed_values dotenv e = Inr vals \<Longrightarrow> \<exists>c. e = Some (Regular c)"
  by (auto simp: managed_values_def split: option.splits entry.splits)

lemma admit_import:
  assumes "admit dotenv loads sha legacy fs = Inr (Some fp)" "tidy legacy"
  shows "importable legacy" "fs [env_name] = None" "fs [state_name] = None" "fs [provenance_name] = None"
    "source_fingerprint sha legacy = Inr fp" "\<exists>vals. managed_values dotenv (map_option entry_of (lg_env legacy)) = Inr vals"
proof -
  have absent: "e = None" if "\<not> is_symlink e" "\<not> exists e" for e
    using that by (cases e rule: exists.cases) auto
  note a = assms(1) [unfolded admit_def]
  have ne: "\<not> exists (fs [env_name])"
    using a by (auto simp: bindE_eq_Inr split: if_splits option.splits)
  then show "fs [env_name] = None" "fs [state_name] = None" "fs [provenance_name] = None"
    using a absent by (auto split: if_splits)
  obtain n vals where n: "lg_env legacy = Some n" "managed_values dotenv (Some (entry_of n)) = Inr vals"
    and fp: "source_fingerprint sha legacy = Inr fp"
    using a ne by (auto simp: bindE_eq_Inr split: if_splits)
  show "source_fingerprint sha legacy = Inr fp" by (rule fp)
  show "\<exists>vals. managed_values dotenv (map_option entry_of (lg_env legacy)) = Inr vals" using n by simp
  have env: "\<exists>c. lg_env legacy = Some (File c)" using managed_regular [OF n(2)] n(1) by (cases n) auto
  obtain xs where xs: "source_files legacy = Inr xs" using fp by (auto simp: source_fingerprint_def bindE_eq_Inr)
  have "plain st" if st: "lg_state legacy = Some st" for st
  proof -
    have c: "copyable st" using xs st by (cases st) (simp_all add: source_files_def)
    have "digested_files ((case lg_env legacy of None \<Rightarrow> [] | Some n \<Rightarrow> [([env_name], n)]) @
        sort_key fst (rglob st [state_name])) = Inr xs"
    proof (cases st)
      case (Folder kvs)
      then show ?thesis using xs st by (simp add: source_files_def del: rglob.simps)
    qed (use xs st in \<open>simp_all add: source_files_def\<close>)
    then have "\<forall>(q, m) \<in> set (rglob st [state_name]). copyable m" using digested_copyable by fastforce
    then show ?thesis using rglob_plain [OF _ c] assms(2) st by (simp add: tidy_def)
  qed
  then show "importable legacy" using env by (simp add: importable_def split: option.split)
qed

definition imported :: "legacy_profile \<Rightarrow> pystr \<Rightarrow> files \<Rightarrow> bool" where
  "imported legacy fingerprint fs \<longleftrightarrow>
     (\<forall>r. fs (env_name # r) = legacy_entry (lg_env legacy) r) \<and>
     (\<forall>r. fs (state_name # r) = legacy_entry (lg_state legacy) r) \<and>
     fs [provenance_name] = Some (Regular (record_text fingerprint))"

lemma import_view:
  assumes "import_profile tmp faults legacy fp fs = (out, fs')" "importable legacy"
    "temporary tmp" "\<And>r. fs (tmp # r) = None" "\<And>r. fs (state_name # r) = None"
  obtains a b c where "c \<longrightarrow> b" "b \<longrightarrow> a" "\<forall>q. \<not> prefix [tmp] q \<longrightarrow> fs' q = published a b c legacy fp fs q"
    "case out of Returned x \<Rightarrow> x \<and> c | _ \<Rightarrow> True"
proof -
  note steps = import_profile_steps [OF assms(1) staging_under [OF assms(2)]]
  note pub = published_steps [where fs = fs and tmp = tmp and fp = fp, OF assms(2,4,3,5)]
  have partial: "\<exists>a b c. (c \<longrightarrow> b) \<and> (b \<longrightarrow> a) \<and> (\<forall>q. \<not> prefix [tmp] q \<longrightarrow> fs' q = published a b c legacy fp fs q)"
    using steps(1)
  proof
    assume "\<forall>q. \<not> prefix [tmp] q \<longrightarrow> fs' q = fs q"
    moreover have "published False False False legacy fp fs q = fs q" for q by (simp add: published_def split: list.split)
    ultimately show ?thesis by (intro exI [of _ False]) simp
  next
    assume "\<exists>k \<le> length (publish_ops tmp legacy). \<forall>q. \<not> prefix [tmp] q \<longrightarrow>
      fs' q = fold apply_op (take k (publish_ops tmp legacy)) (fold apply_op (staging_ops tmp legacy fp) fs) q"
    then obtain k where k: "k \<le> length (publish_ops tmp legacy)" "\<And>q. \<not> prefix [tmp] q \<Longrightarrow>
      fs' q = fold apply_op (take k (publish_ops tmp legacy)) (fold apply_op (staging_ops tmp legacy fp) fs) q" by blast
    from pub [OF k(1)] obtain a b c where "c \<longrightarrow> b" "b \<longrightarrow> a" "\<And>q. \<not> prefix [tmp] q \<Longrightarrow>
      fold apply_op (take k (publish_ops tmp legacy)) (fold apply_op (staging_ops tmp legacy fp) fs) q = published a b c legacy fp fs q"
      by blast
    then show ?thesis using k(2) by (intro exI [of _ a] exI [of _ b] exI [of _ c]) simp
  qed
  show ?thesis
  proof (cases out)
    case (Returned x)
    from pub [of "length (publish_ops tmp legacy)"] obtain a b c where v: "c \<longrightarrow> b" "b \<longrightarrow> a" c "\<And>q. \<not> prefix [tmp] q \<Longrightarrow>
        fold apply_op (publish_ops tmp legacy) (fold apply_op (staging_ops tmp legacy fp) fs) q = published a b c legacy fp fs q"
      by auto
    have x: x "fs' = apply_op (Remove [tmp]) (fold apply_op (publish_ops tmp legacy) (fold apply_op (staging_ops tmp legacy fp) fs))"
      using steps(2) [OF Returned] by simp_all
    show ?thesis
      by (rule that [OF v(1,2)]) (use v(3,4) x Returned remove_away in simp_all)
  next
    case (Raised e)
    obtain a b c where "c \<longrightarrow> b" "b \<longrightarrow> a" "\<forall>q. \<not> prefix [tmp] q \<longrightarrow> fs' q = published a b c legacy fp fs q"
      using partial by blast
    then show ?thesis using that [of c b a] Raised by simp
  next
    case Died
    obtain a b c where "c \<longrightarrow> b" "b \<longrightarrow> a" "\<forall>q. \<not> prefix [tmp] q \<longrightarrow> fs' q = published a b c legacy fp fs q"
      using partial by blast
    then show ?thesis using that [of c b a] Died by simp
  qed
qed

text \<open>What a later call does with what an import, completed or not, left behind.\<close>

lemma admit_nothing:
  assumes "admit dotenv loads sha legacy fs = Inr (Some fp)" "tidy legacy"
    "fs' [env_name] = None" "fs' [state_name] = None" "fs' [provenance_name] = None"
  shows "admit dotenv loads sha legacy fs' = Inr (Some fp)"
proof -
  note i = admit_import [OF assms(1,2)]
  obtain vals c where "managed_values dotenv (map_option entry_of (lg_env legacy)) = Inr vals" "lg_env legacy = Some (File c)"
    using i(1,6) by (auto simp: importable_def)
  then show ?thesis using i(5) assms(3-5) by (simp add: admit_def)
qed

lemma admit_incomplete:
  assumes "fs' [env_name] = None" "exists (fs' [state_name]) \<or> exists (fs' [provenance_name])"
    "\<not> is_symlink (fs' [state_name])" "\<not> is_symlink (fs' [provenance_name])"
  shows "admit dotenv loads sha legacy fs' =
    Inl (StateError ''Incomplete shared development profile: state exists without configuration.'')"
  using assms by (simp add: admit_def)

lemma admit_imported:
  assumes "admit dotenv loads sha legacy fs = Inr (Some fp)" "tidy legacy" "imported legacy fp fs'"
    and "loads (record_text fp) = Some (JDict [(py ''version'', JInt 1), (py ''sha256'', JStr fp)])" "length fp = 64"
  shows "admit dotenv loads sha legacy fs' = Inr None"
proof -
  note i = admit_import [OF assms(1,2)]
  obtain c where c: "lg_env legacy = Some (File c)" using i(1) by (auto simp: importable_def)
  obtain vals where vals: "managed_values dotenv (Some (Regular c)) = Inr vals" using i(6) c by auto
  have e: "fs' [env_name] = Some (Regular c)" "fs' [provenance_name] = Some (Regular (record_text fp))"
    using assms(3) c by (simp_all add: imported_def legacy_entry_def)
  have s: "fs' [state_name] = legacy_entry (lg_state legacy) []" using assms(3) by (simp add: imported_def)
  have "\<not> is_symlink (fs' [state_name])"
  proof (cases "lg_state legacy")
    case (Some n)
    then have "plain n" using i(1) by (simp add: importable_def)
    then show ?thesis using Some s by (cases n) (simp_all add: legacy_entry_def)
  qed (simp add: s legacy_entry_def)
  moreover have "previous_source loads (fs' [provenance_name]) = Inr (Some fp)"
    by (simp add: previous_source_def e assms(4,5) py_def)
  ultimately show ?thesis
    by (simp add: admit_def e vals c i(5) compare_profiles_def)
qed

text \<open>C27: a partial import never appears to be a configured profile, and nothing is lost. Wherever the
  process dies and whatever operation fails: the configuration of the profile appears last, when
  everything else was imported; an import that returns is complete; nothing else in the profile
  changes; and calling again either finds the import done, repeats it, or, after a crash between the
  first and the last publishing step, asks for recovery and changes nothing.\<close>

theorem import_crash_safe:
  assumes "admit dotenv loads sha legacy fs = Inr (Some fp)" "tidy legacy"
    and "migrate_legacy False dotenv loads sha tmp faults legacy fs = (out, fs')"
    and "temporary tmp" "\<And>r. fs (tmp # r) = None" "\<And>r. fs (state_name # r) = None" "\<And>r. fs (env_name # r) = None"
    and "temporary tmp'" "\<And>r. fs' (tmp' # r) = None"
    and "loads (record_text fp) = Some (JDict [(py ''version'', JInt 1), (py ''sha256'', JStr fp)])" "length fp = 64"
  shows "(if fs' [env_name] = None then True else imported legacy fp fs') \<and>
    (case out of Returned b \<Rightarrow> b \<and> imported legacy fp fs' | _ \<Rightarrow> True) \<and>
    (\<forall>k r. k \<notin> {tmp, env_name, state_name, provenance_name} \<longrightarrow> fs' (k # r) = fs (k # r)) \<and>
    (case migrate_legacy False dotenv loads sha tmp' [] legacy fs' of (again, fs'') \<Rightarrow>
       if fs' [env_name] \<noteq> None then again = Returned False \<and> fs'' = fs'
       else if fs' [state_name] = None \<and> fs' [provenance_name] = None
       then again = Returned True \<and> imported legacy fp fs''
       else again = Raised (StateError ''Incomplete shared development profile: state exists without configuration.'') \<and>
            fs'' = fs')"
proof -
  note i = admit_import [OF assms(1,2)]
  obtain c where env: "lg_env legacy = Some (File c)" using i(1) by (auto simp: importable_def)
  have run: "import_profile tmp faults legacy fp fs = (out, fs')"
    using assms(1,3) by (simp add: migrate_legacy_def)
  obtain a b e where
    v: "e \<longrightarrow> b" "b \<longrightarrow> a" "\<forall>q. \<not> prefix [tmp] q \<longrightarrow> fs' q = published a b e legacy fp fs q"
    "case out of Returned x \<Rightarrow> x \<and> e | _ \<Rightarrow> True" by (rule import_view [OF run i(1) assms(4,5,6)]) blast
  note d = names_distinct temporary_distinct [OF assms(4)]
  have look: "fs' (env_name # r) = (if e then legacy_entry (lg_env legacy) r else None)"
    "fs' (state_name # r) = (if a then legacy_entry (lg_state legacy) r else None)"
    "fs' [provenance_name] = (if b then Some (Regular (record_text fp)) else None)" for r
    using v(3) d i(4) assms(6,7) by (simp_all add: published_def)
  have none: "fs' [env_name] = None \<longleftrightarrow> \<not> e" using look(1) by (simp add: env legacy_entry_def)
  have imp: "imported legacy fp fs'" if e using that v(1,2) look by (simp add: imported_def)
  have rest: "fs' (k # r) = fs (k # r)" if "k \<notin> {tmp, env_name, state_name, provenance_name}" for k r
    using v(3) [rule_format, of "k # r"] that by (auto simp: published_def)
  have again: "case migrate_legacy False dotenv loads sha tmp' [] legacy fs' of (again, fs'') \<Rightarrow>
       if fs' [env_name] \<noteq> None then again = Returned False \<and> fs'' = fs'
       else if fs' [state_name] = None \<and> fs' [provenance_name] = None
       then again = Returned True \<and> imported legacy fp fs''
       else again = Raised (StateError ''Incomplete shared development profile: state exists without configuration.'') \<and>
            fs'' = fs'"
  proof -
    consider (complete) e | (unpublished) "\<not> e" "fs' [state_name] = None" "fs' [provenance_name] = None"
      | (broken) "\<not> e" "fs' [state_name] \<noteq> None \<or> fs' [provenance_name] \<noteq> None" by blast
    then show ?thesis
    proof cases
      case complete
      then show ?thesis
        using none admit_imported [OF assms(1,2) imp assms(10,11)] by (simp add: migrate_legacy_def)
    next
      case unpublished
      then have "admit dotenv loads sha legacy fs' = Inr (Some fp)"
        using admit_nothing [OF assms(1,2)] none by simp
      moreover obtain again fs'' where r: "import_profile tmp' [] legacy fp fs' = (again, fs'')" by (cases "import_profile tmp' [] legacy fp fs'")
      have s: "fs' (state_name # r) = None" "fs' (env_name # r) = None" for r
      proof -
        show "fs' (env_name # r) = None" using unpublished(1) look(1) by simp
        have "a \<longrightarrow> lg_state legacy = None" using unpublished(2) look(2) [of "[]"] by (cases "lg_state legacy") (auto simp: legacy_entry_def)
        then show "fs' (state_name # r) = None" using look(2) by (auto simp: legacy_entry_def)
      qed
      obtain a' b' e' where
        w: "e' \<longrightarrow> b'" "b' \<longrightarrow> a'" "\<forall>q. \<not> prefix [tmp'] q \<longrightarrow> fs'' q = published a' b' e' legacy fp fs' q"
        "case again of Returned x \<Rightarrow> x \<and> e' | _ \<Rightarrow> True" by (rule import_view [OF r i(1) assms(8,9) s(1)]) blast
      have "again = Returned True"
        using r run_ops_fine [OF steps_no_refuse [OF i(1)]] by (simp add: import_profile_def)
      then have e': e' using w(4) by simp
      have "imported legacy fp fs''"
        using w(1-3) e' temporary_distinct [OF assms(8)] names_distinct by (simp add: imported_def published_def)
      ultimately show ?thesis using unpublished none r \<open>again = Returned True\<close> by (simp add: migrate_legacy_def)
    next
      case broken
      have st: "\<not> is_symlink (fs' [state_name]) \<and> (fs' [state_name] \<noteq> None \<longrightarrow> exists (fs' [state_name]))"
      proof (cases "lg_state legacy")
        case (Some n)
        then have "plain n" using i(1) by (simp add: importable_def)
        then show ?thesis using look(2) [of "[]"] Some by (cases n) (simp_all add: legacy_entry_def)
      qed (use look(2) [of "[]"] in \<open>simp add: legacy_entry_def\<close>)
      have "admit dotenv loads sha legacy fs' =
          Inl (StateError ''Incomplete shared development profile: state exists without configuration.'')"
        by (rule admit_incomplete) (use broken none st look(3) in \<open>auto split: if_splits\<close>)
      then show ?thesis using broken none by (simp add: migrate_legacy_def)
    qed
  qed
  show ?thesis
    using imp none v(4) rest again by (intro conjI) (auto split: stop.splits)
qed

text \<open>A shared profile is authoritative. Where the profile has a configuration, or no checkout profile
  is there, nothing is written; and where both are there, the call only passes if this very checkout
  was imported before or if no identifying value that both profiles have differs.\<close>

lemma shared_profile_kept:
  assumes "fs [env_name] \<noteq> None" "migrate_legacy same dotenv loads sha tmp faults legacy fs = (out, fs')"
  shows "fs' = fs \<and> out \<noteq> Died \<and>
    (case out of
       Returned b \<Rightarrow> \<not> b \<and> (if same \<or> lg_env legacy = None then True else
         \<exists>fp vals shared_vals. source_fingerprint sha legacy = Inr fp \<and>
           managed_values dotenv (map_option entry_of (lg_env legacy)) = Inr vals \<and>
           managed_values dotenv (fs [env_name]) = Inr shared_vals \<and>
           (previous_source loads (fs [provenance_name]) = Inr (Some fp) \<or>
            (\<forall>key v w. key \<in> set PERSISTED_FIELDS \<and> vals key = Some v \<and> shared_vals key = Some w \<longrightarrow> v = w)))
     | Raised e \<Rightarrow> \<not> same | Died \<Rightarrow> False)"
proof -
  have unsym: "exists e \<or> is_symlink e" if "e \<noteq> None" for e using that by (cases e rule: exists.cases) auto
  have m: "fs' = fs" "case out of Returned b \<Rightarrow> \<not> b \<and> (same \<or> admit dotenv loads sha legacy fs = Inr None) | Raised e \<Rightarrow> \<not> same | Died \<Rightarrow> False"
  proof -
    have "admit dotenv loads sha legacy fs \<noteq> Inr (Some fp)" for fp
      using unsym [OF assms(1)] by (auto simp: admit_def bindE_eq_Inr split: if_splits)
    then show "fs' = fs" "case out of Returned b \<Rightarrow> \<not> b \<and> (same \<or> admit dotenv loads sha legacy fs = Inr None) | Raised e \<Rightarrow> \<not> same | Died \<Rightarrow> False"
      using assms(2) by (auto simp: migrate_legacy_def split: if_splits sum.splits option.splits)
  qed
  have "\<exists>fp vals shared_vals. source_fingerprint sha legacy = Inr fp \<and>
      managed_values dotenv (map_option entry_of (lg_env legacy)) = Inr vals \<and>
      managed_values dotenv (fs [env_name]) = Inr shared_vals \<and>
      (previous_source loads (fs [provenance_name]) = Inr (Some fp) \<or>
       (\<forall>key v w. key \<in> set PERSISTED_FIELDS \<and> vals key = Some v \<and> shared_vals key = Some w \<longrightarrow> v = w))"
    if a: "admit dotenv loads sha legacy fs = Inr None" "lg_env legacy \<noteq> None"
  proof -
    have ex: "exists (fs [env_name])" using a(1) unsym [OF assms(1)] by (auto simp: admit_def split: if_splits)
    obtain shared_vals vals fp where v: "managed_values dotenv (fs [env_name]) = Inr shared_vals"
      "managed_values dotenv (map_option entry_of (lg_env legacy)) = Inr vals" "source_fingerprint sha legacy = Inr fp"
      "is_ok (compare_profiles loads legacy fs vals shared_vals fp)"
      using a ex by (auto simp: admit_def bindE_eq_Inr is_ok_def split: if_splits)
    obtain prev where p: "previous_source loads (fs [provenance_name]) = Inr prev"
      using v(4) by (cases "previous_source loads (fs [provenance_name])") (simp_all add: compare_profiles_def is_ok_def)
    have "\<forall>key v w. key \<in> set PERSISTED_FIELDS \<and> vals key = Some v \<and> shared_vals key = Some w \<longrightarrow> v = w" if "prev \<noteq> Some fp"
    proof -
      note fresh = that
      obtain li si where "\<not> conflicting vals shared_vals li si"
        using v(4) fresh p by (auto simp: compare_profiles_def is_ok_def bindE_eq_Inr split: sum.splits if_splits)
      then show ?thesis by (fastforce simp: conflicting_def list_ex_iff)
    qed
    then show ?thesis using v(1-3) p by blast
  qed
  then show ?thesis using m by (cases out) auto
qed

section \<open>Equal fingerprints\<close>

lemma to_bytes_8_inj:
  assumes "to_bytes_8 m = to_bytes_8 n" "m < 2 ^ 64" "n < 2 ^ 64"
  shows "m = n"
proof -
  have b: "(of_nat a :: 8 word) = of_nat b \<longleftrightarrow> a mod 256 = b mod 256" for a b
    by (simp add: word_of_nat_eq_iff take_bit_eq_mod)
  have d: "\<forall>i < 8. m div 256 ^ (7 - i) mod 256 = n div 256 ^ (7 - i) mod 256"
    using assms(1) by (simp add: to_bytes_8_def b)
  have digits: "\<lbrakk>\<forall>i < k. m div 256 ^ i mod 256 = n div 256 ^ i mod 256\<rbrakk> \<Longrightarrow> m mod 256 ^ k = n mod 256 ^ k" for k and m n :: nat
  proof (induction k arbitrary: m n)
    case (Suc k)
    have "\<forall>i < k. m div 256 div 256 ^ i mod 256 = n div 256 div 256 ^ i mod 256"
    proof (intro allI impI)
      fix i assume "i < k"
      then show "m div 256 div 256 ^ i mod 256 = n div 256 div 256 ^ i mod 256"
        using Suc.prems [rule_format, of "Suc i"] by (simp add: div_mult2_eq)
    qed
    then have "m div 256 mod 256 ^ k = n div 256 mod 256 ^ k" by (rule Suc.IH)
    moreover have "m mod 256 = n mod 256" using Suc.prems by (auto dest!: spec [of _ 0])
    ultimately show ?case by (simp add: mod_mult2_eq)
  qed simp
  have "\<forall>i < 8. m div 256 ^ i mod 256 = n div 256 ^ i mod 256"
  proof (intro allI impI)
    fix i :: nat assume "i < 8"
    then show "m div 256 ^ i mod 256 = n div 256 ^ i mod 256" using d [rule_format, of "7 - i"] by simp
  qed
  from digits [OF this] show ?thesis using assms(2,3) by simp
qed

lemma digested_inj:
  assumes "digested xs = digested ys"
    "\<forall>(name, c) \<in> set xs \<union> set ys. length name < 2 ^ 64 \<and> length c < 2 ^ 64"
  shows "xs = ys"
  using assms
proof (induction xs arbitrary: ys)
  case Nil
  then show ?case by (cases ys) (auto simp: digested_def to_bytes_8_def)
next
  case (Cons x xs)
  obtain n c where x: "x = (n, c)" by (cases x)
  have l: "length (to_bytes_8 k) = 8" for k by (simp add: to_bytes_8_def)
  obtain y zs where ys: "ys = y # zs" using Cons.prems(1) by (cases ys) (auto simp: digested_def to_bytes_8_def x)
  obtain n' c' where y: "y = (n', c')" by (cases y)
  have e: "to_bytes_8 (length n) @ n @ to_bytes_8 (length c) @ c @ digested xs =
      to_bytes_8 (length n') @ n' @ to_bytes_8 (length c') @ c' @ digested zs"
    using Cons.prems(1) by (simp add: digested_def x ys y)
  then have e1: "to_bytes_8 (length n) = to_bytes_8 (length n')"
    "n @ to_bytes_8 (length c) @ c @ digested xs = n' @ to_bytes_8 (length c') @ c' @ digested zs"
    using l by simp_all
  have "length n = length n'" using to_bytes_8_inj [OF e1(1)] Cons.prems(2) x ys y by auto
  then have e2: "n = n'" "to_bytes_8 (length c) = to_bytes_8 (length c')" "c @ digested xs = c' @ digested zs"
    using e1(2) l by simp_all
  have "length c = length c'" using to_bytes_8_inj [OF e2(2)] Cons.prems(2) x ys y by auto
  then have "c = c'" "digested xs = digested zs" using e2(3) by simp_all
  moreover have "xs = zs" using Cons.IH [OF calculation(2)] Cons.prems(2) ys by auto
  ultimately show ?case using x y ys e2(1) by simp
qed

text \<open>The fingerprint stands for the files: two old profiles with the same fingerprint have the same files
  under the same names with the same contents, if the digest does not collide on them.\<close>

lemma fingerprint_identifies:
  assumes "source_files legacy = Inr xs" "source_files legacy' = Inr ys"
    "\<forall>(name, c) \<in> set xs \<union> set ys. length name < 2 ^ 64 \<and> length c < 2 ^ 64"
    "source_fingerprint sha legacy = source_fingerprint sha legacy'" "inj_on sha {digested xs, digested ys}"
  shows "xs = ys"
proof -
  have "sha (digested xs) = sha (digested ys)" using assms(4) unfolding source_fingerprint_def assms(1,2) by simp
  then have "digested xs = digested ys" by (rule inj_onD [OF assms(5)]) simp_all
  then show ?thesis by (rule digested_inj [OF _ assms(3)])
qed

section \<open>Witnesses\<close>

definition sample_legacy :: legacy_profile where
  "sample_legacy = \<lparr>lg_env = Some (File [1]), lg_state = Some (Folder [(identity_name, File [2])])\<rparr>"

definition sample_dotenv :: "bytes \<Rightarrow> env_values" where
  "sample_dotenv c = (if c = [1] then [py ''DOCTA_DEV_MANAGED'' \<mapsto> Some (py ''1'')] else Map.empty)"

definition sample_digest :: "bytes \<Rightarrow> pystr" where
  "sample_digest c = replicate 64 48"

definition sample_loads :: "bytes \<Rightarrow> json option" where
  "sample_loads c = (if c = record_text (replicate 64 48)
     then Some (JDict [(py ''version'', JInt 1), (py ''sha256'', JStr (replicate 64 48))]) else None)"

lemma sample_fingerprint: "source_fingerprint sample_digest sample_legacy = Inr (replicate 64 48)"
  by (simp add: source_fingerprint_def source_files_def sample_legacy_def sample_digest_def env_name_def state_name_def
      identity_name_def py_def utf8_def utf8_char_def)

lemma sample_managed: "managed_values sample_dotenv (Some (Regular [1])) = Inr (sample_dotenv [1])"
  by (simp add: managed_values_def sample_dotenv_def py_def)

lemma sample_admitted: "admit sample_dotenv sample_loads sample_digest sample_legacy Map.empty = Inr (Some (replicate 64 48))"
  using sample_fingerprint sample_managed by (simp add: admit_def sample_legacy_def)

theorem import_crash_safe_witness:
  "\<exists>fs. migrate_legacy False sample_dotenv sample_loads sample_digest (py ''.legacy-import-b'') [] sample_legacy Map.empty =
       (Returned True, fs) \<and> imported sample_legacy (replicate 64 48) fs"
proof -
  have r: "migrate_legacy False sample_dotenv sample_loads sample_digest (py ''.legacy-import-a'') [Killed 0] sample_legacy Map.empty =
      (Died, Map.empty)"
    by (simp add: migrate_legacy_def sample_admitted import_profile_def staging_ops_def)
  have t: "tidy sample_legacy" by (simp add: tidy_def sample_legacy_def)
  have p: "temporary (py ''.legacy-import-a'')" "temporary (py ''.legacy-import-b'')" by (simp_all add: temporary_def py_def)
  have l: "sample_loads (record_text (replicate 64 48)) = Some (JDict [(py ''version'', JInt 1), (py ''sha256'', JStr (replicate 64 48))])"
    by (simp only: sample_loads_def if_True refl)
  from import_crash_safe [OF sample_admitted t r p(1) _ _ _ p(2) _ l]
  show ?thesis by (cases "migrate_legacy False sample_dotenv sample_loads sample_digest (py ''.legacy-import-b'') [] sample_legacy Map.empty") simp
qed

definition sample_shared :: files where
  "sample_shared = [[env_name] \<mapsto> Regular [1], [provenance_name] \<mapsto> Regular (record_text (replicate 64 48))]"

end
