(* ===== verification/Url_Split.thy ===== *)
theory Url_Split
  imports Url_Text Identity
begin

text \<open>
  \<^verbatim>\<open>urllib.parse.urlsplit\<close> and \<^verbatim>\<open>urlunsplit\<close> as the tools for developers use them, and why the parts of an
  absolute URL survive being put together and split again. Two checks of the host are parameters: the
  syntax of an address in brackets, and whether a name outside ASCII normalises to a delimiter.
\<close>

section \<open>Splitting\<close>

record host_rules =
  hr_bracketed :: "pystr \<Rightarrow> bool"
  hr_normal :: "pystr \<Rightarrow> bool"

record split_url =
  us_scheme :: pystr
  us_netloc :: pystr
  us_path :: pystr
  us_query :: pystr
  us_fragment :: pystr

text \<open>\<open>s.partition(c)[2]\<close>.\<close>

definition after_char :: "nat \<Rightarrow> pystr \<Rightarrow> pystr" where
  "after_char c s = drop 1 (dropWhile (\<lambda>x. x \<noteq> c) s)"

definition before_char :: "nat \<Rightarrow> pystr \<Rightarrow> pystr" where
  "before_char c s = takeWhile (\<lambda>x. x \<noteq> c) s"

definition rstrip_char :: "nat \<Rightarrow> pystr \<Rightarrow> pystr" where
  "rstrip_char c s = rev (dropWhile (\<lambda>x. x = c) (rev s))"

text \<open>Control characters in front are stripped; tabs and line ends are removed everywhere.\<close>

definition unsafe_char :: "nat \<Rightarrow> bool" where
  "unsafe_char c \<longleftrightarrow> c = 9 \<or> c = 10 \<or> c = 13"

definition cleaned :: "pystr \<Rightarrow> pystr" where
  "cleaned s = filter (\<lambda>c. \<not> unsafe_char c) (dropWhile (\<lambda>c. c \<le> 32) s)"

definition ascii_letter :: "nat \<Rightarrow> bool" where
  "ascii_letter c \<longleftrightarrow> (65 \<le> c \<and> c \<le> 90) \<or> (97 \<le> c \<and> c \<le> 122)"

definition scheme_char :: "nat \<Rightarrow> bool" where
  "scheme_char c \<longleftrightarrow> ascii_letter c \<or> (48 \<le> c \<and> c \<le> 57) \<or> c \<in> {43, 45, 46}"

definition split_scheme :: "pystr \<Rightarrow> pystr \<times> pystr" where
  "split_scheme s =
     (let i = before_char 58 s in
      if 58 \<in> set s \<and> i \<noteq> [] \<and> ascii_letter (hd i) \<and> list_all scheme_char i
      then (map ascii_lower i, after_char 58 s) else ([], s))"

definition delimiter :: "nat \<Rightarrow> bool" where
  "delimiter c \<longleftrightarrow> c = 47 \<or> c = 63 \<or> c = 35"

definition split_netloc :: "pystr \<Rightarrow> pystr \<times> pystr" where
  "split_netloc s =
     (if take 2 s = [47, 47]
      then (takeWhile (\<lambda>c. \<not> delimiter c) (drop 2 s), dropWhile (\<lambda>c. \<not> delimiter c) (drop 2 s)) else ([], s))"

definition netloc_ok :: "host_rules \<Rightarrow> pystr \<Rightarrow> bool" where
  "netloc_ok r n \<longleftrightarrow>
     (91 \<in> set n) = (93 \<in> set n) \<and> (91 \<in> set n \<longrightarrow> hr_bracketed r n) \<and>
     (\<not> list_all (\<lambda>c. c < 128) n \<longrightarrow> hr_normal r n)"

text \<open>\<open>None\<close> is a \<open>ValueError\<close>.\<close>

definition urlsplit :: "host_rules \<Rightarrow> pystr \<Rightarrow> split_url option" where
  "urlsplit r s =
     (let (scheme, rest) = split_scheme (cleaned s);
          (netloc, rest) = split_netloc rest;
          front = before_char 35 rest
      in if netloc_ok r netloc
         then Some \<lparr>us_scheme = scheme, us_netloc = netloc, us_path = before_char 63 front,
                us_query = after_char 63 front, us_fragment = after_char 35 rest\<rparr>
         else None)"

section \<open>The parts of the authority\<close>

definition host_part :: "pystr \<Rightarrow> pystr" where
  "host_part n = rev (before_char 64 (rev n))"

definition user_part :: "pystr \<Rightarrow> pystr" where
  "user_part n = rev (after_char 64 (rev n))"

definition username :: "split_url \<Rightarrow> pystr option" where
  "username p = (if 64 \<in> set (us_netloc p) then Some (before_char 58 (user_part (us_netloc p))) else None)"

definition password :: "split_url \<Rightarrow> pystr option" where
  "password p =
     (if 64 \<in> set (us_netloc p) \<and> 58 \<in> set (user_part (us_netloc p))
      then Some (after_char 58 (user_part (us_netloc p))) else None)"

definition host_and_port :: "pystr \<Rightarrow> pystr \<times> pystr" where
  "host_and_port n =
     (let h = host_part n in
      if 91 \<in> set h
      then (before_char 93 (after_char 91 h), after_char 58 (after_char 93 (after_char 91 h)))
      else (before_char 58 h, after_char 58 h))"

text \<open>The zone of an address keeps its case.\<close>

definition hostname :: "unicode_db \<Rightarrow> split_url \<Rightarrow> pystr option" where
  "hostname u p =
     (let h = fst (host_and_port (us_netloc p)) in
      if h = [] then None else Some (lower u (before_char 37 h) @ dropWhile (\<lambda>c. c \<noteq> 37) h))"

definition decimal_value :: "pystr \<Rightarrow> int" where
  "decimal_value s = foldl (\<lambda>n c. 10 * n + (int c - 48)) 0 s"

text \<open>The outer \<open>None\<close> is a \<open>ValueError\<close>.\<close>

definition port_of :: "split_url \<Rightarrow> int option option" where
  "port_of p =
     (let t = snd (host_and_port (us_netloc p)) in
      if t = [] then Some None
      else if list_all (\<lambda>c. 48 \<le> c \<and> c \<le> 57) t \<and> decimal_value t \<le> 65535 then Some (Some (decimal_value t))
      else None)"

definition non_empty :: "pystr option \<Rightarrow> bool" where
  "non_empty x \<longleftrightarrow> (case x of None \<Rightarrow> False | Some s \<Rightarrow> s \<noteq> [])"

text \<open>\<open>p.query or p.fragment or p.username or p.password\<close>.\<close>

definition extra_parts :: "split_url \<Rightarrow> bool" where
  "extra_parts p \<longleftrightarrow> us_query p \<noteq> [] \<or> us_fragment p \<noteq> [] \<or> non_empty (username p) \<or> non_empty (password p)"

section \<open>Putting together\<close>

definition uses_netloc :: "pystr list" where
  "uses_netloc = map py
     ['''', ''ftp'', ''http'', ''gopher'', ''nntp'', ''telnet'', ''imap'', ''wais'', ''file'', ''mms'', ''https'',
      ''shttp'', ''snews'', ''prospero'', ''rtsp'', ''rtsps'', ''rtspu'', ''rsync'', ''svn'', ''svn+ssh'', ''sftp'',
      ''nfs'', ''git'', ''git+ssh'', ''ws'', ''wss'', ''itms-services'']"

definition urlunsplit :: "split_url \<Rightarrow> pystr" where
  "urlunsplit p =
     (let path = us_path p;
          s = (if us_netloc p \<noteq> [] then
                 [47, 47] @ us_netloc p @ (if path \<noteq> [] \<and> take 1 path \<noteq> [47] then [47] @ path else path)
               else if take 2 path = [47, 47] then [47, 47] @ path
               else if us_scheme p \<noteq> [] \<and> us_scheme p \<in> set uses_netloc \<and> (path = [] \<or> take 1 path = [47])
               then [47, 47] @ path else path);
          s = (if us_scheme p \<noteq> [] then us_scheme p @ [58] @ s else s);
          s = (if us_query p \<noteq> [] then s @ [63] @ us_query p else s)
      in if us_fragment p \<noteq> [] then s @ [35] @ us_fragment p else s)"

section \<open>What is put together splits again\<close>

definition safe :: "pystr \<Rightarrow> bool" where
  "safe s \<longleftrightarrow> list_all (\<lambda>c. \<not> unsafe_char c) s"

definition split_ok :: "host_rules \<Rightarrow> split_url \<Rightarrow> bool" where
  "split_ok r p \<longleftrightarrow>
     list_all (\<lambda>c. scheme_char c \<and> ascii_lower c = c) (us_scheme p) \<and>
     (us_scheme p \<noteq> [] \<longrightarrow> ascii_letter (hd (us_scheme p))) \<and>
     list_all (\<lambda>c. \<not> delimiter c) (us_netloc p) \<and> netloc_ok r (us_netloc p) \<and>
     (us_netloc p \<noteq> [] \<longrightarrow> us_path p = [] \<or> hd (us_path p) = 47) \<and>
     63 \<notin> set (us_path p) \<and> 35 \<notin> set (us_path p) \<and> 35 \<notin> set (us_query p) \<and>
     safe (us_netloc p) \<and> safe (us_path p) \<and> safe (us_query p) \<and> safe (us_fragment p)"

lemma before_char_clear: "c \<notin> set (before_char c s)"
  by (auto simp: before_char_def dest: set_takeWhileD)

lemma before_char_sub: "set (before_char c s) \<subseteq> set s"
  by (auto simp: before_char_def dest: set_takeWhileD)

lemma after_char_sub: "set (after_char c s) \<subseteq> set s"
  unfolding after_char_def by (meson order_trans set_drop_subset set_dropWhileD subsetI)

lemma safe_sub: "safe s \<Longrightarrow> set t \<subseteq> set s \<Longrightarrow> safe t"
  by (auto simp: safe_def list_all_iff)

lemma safe_simps [simp]: "safe []" "safe (c # s) \<longleftrightarrow> \<not> unsafe_char c \<and> safe s" "safe (s @ t) \<longleftrightarrow> safe s \<and> safe t"
  by (simp_all add: safe_def)

lemma safe_cleaned: "safe (cleaned s)"
  by (auto simp: safe_def cleaned_def list_all_iff)

lemma lower_scheme: "scheme_char c \<Longrightarrow> scheme_char (ascii_lower c) \<and> ascii_lower (ascii_lower c) = ascii_lower c"
  by (auto simp: scheme_char_def ascii_letter_def ascii_lower_def)

lemma lower_letter: "ascii_letter c \<Longrightarrow> ascii_letter (ascii_lower c)"
  by (auto simp: ascii_letter_def ascii_lower_def)

lemma split_scheme_ok:
  assumes "split_scheme s = (scheme, rest)"
  shows "list_all (\<lambda>c. scheme_char c \<and> ascii_lower c = c) scheme \<and> (scheme \<noteq> [] \<longrightarrow> ascii_letter (hd scheme)) \<and>
    set rest \<subseteq> set s"
proof (cases "58 \<in> set s \<and> before_char 58 s \<noteq> [] \<and> ascii_letter (hd (before_char 58 s)) \<and>
    list_all scheme_char (before_char 58 s)")
  case True
  then have e: "scheme = map ascii_lower (before_char 58 s)" "rest = after_char 58 s"
    using assms by (simp_all add: split_scheme_def Let_def)
  show ?thesis using True lower_scheme lower_letter after_char_sub [of 58 s]
    unfolding e by (simp add: list_all_iff hd_map)
next
  case False
  then have "scheme = [] \<and> rest = s" using assms unfolding split_scheme_def Let_def by (simp split: if_splits)
  then show ?thesis by simp
qed

lemma split_netloc_ok:
  assumes "split_netloc s = (netloc, rest)"
  shows "list_all (\<lambda>c. \<not> delimiter c) netloc \<and> set netloc \<subseteq> set s \<and> set rest \<subseteq> set s \<and>
    (netloc \<noteq> [] \<longrightarrow> rest = [] \<or> delimiter (hd rest))"
proof (cases "take 2 s = [47, 47]")
  case True
  then have e: "netloc = takeWhile (\<lambda>c. \<not> delimiter c) (drop 2 s)" "rest = dropWhile (\<lambda>c. \<not> delimiter c) (drop 2 s)"
    using assms by (simp_all add: split_netloc_def)
  have "set netloc \<subseteq> set (drop 2 s)" "set rest \<subseteq> set (drop 2 s)"
    unfolding e by (auto dest: set_takeWhileD set_dropWhileD)
  moreover have "list_all (\<lambda>c. \<not> delimiter c) netloc" unfolding e by (auto simp: list_all_iff dest: set_takeWhileD)
  moreover have "rest = [] \<or> delimiter (hd rest)" unfolding e using hd_dropWhile by blast
  ultimately show ?thesis using set_drop_subset [of 2 s] by blast
next
  case False
  then show ?thesis using assms by (simp add: split_netloc_def)
qed

lemma urlsplit_ok:
  assumes "urlsplit r s = Some p"
  shows "split_ok r p"
proof -
  obtain scheme rest where a: "split_scheme (cleaned s) = (scheme, rest)" by force
  obtain netloc tail where b: "split_netloc rest = (netloc, tail)" by force
  have p: "netloc_ok r netloc" "p = \<lparr>us_scheme = scheme, us_netloc = netloc, us_path = before_char 63 (before_char 35 tail),
       us_query = after_char 63 (before_char 35 tail), us_fragment = after_char 35 tail\<rparr>"
    using assms a b by (simp_all add: urlsplit_def Let_def split: if_split_asm)
  note sa = split_scheme_ok [OF a] and sb = split_netloc_ok [OF b]
  have st: "safe netloc" "safe tail" using sa sb safe_sub [OF safe_cleaned [of s]] by (meson order_trans)+
  have front: "35 \<notin> set (before_char 35 tail)" by (rule before_char_clear)
  have path: "netloc \<noteq> [] \<Longrightarrow> before_char 63 (before_char 35 tail) = [] \<or> hd (before_char 63 (before_char 35 tail)) = 47"
    using sb by (cases tail) (auto simp: before_char_def delimiter_def)
  have q: "35 \<notin> set (after_char 63 (before_char 35 tail))" "35 \<notin> set (before_char 63 (before_char 35 tail))"
    using front after_char_sub before_char_sub by (meson subsetD)+
  have sf: "safe (before_char 35 tail)" "safe (after_char 35 tail)"
    using safe_sub [OF st(2)] before_char_sub after_char_sub by blast+
  have sq: "safe (before_char 63 (before_char 35 tail))" "safe (after_char 63 (before_char 35 tail))"
    using safe_sub [OF sf(1)] before_char_sub after_char_sub by blast+
  show ?thesis
    unfolding split_ok_def p(2) split_url.simps
    using sa sb p(1) st(1) path q sf sq before_char_clear by blast
qed

lemma cut_append:
  assumes "c \<notin> set xs"
  shows "before_char c (xs @ c # ys) = xs" "after_char c (xs @ c # ys) = ys"
  using assms cut_at [of c xs ys] by (simp_all add: before_char_def after_char_def)

lemma cut_none: "c \<notin> set xs \<Longrightarrow> before_char c xs = xs \<and> after_char c xs = []"
  by (induction xs) (auto simp: before_char_def after_char_def)

lemma cut_delimiter:
  assumes "list_all (\<lambda>c. \<not> P c) n" "t = [] \<or> P (hd t)"
  shows "takeWhile (\<lambda>c. \<not> P c) (n @ t) = n" "dropWhile (\<lambda>c. \<not> P c) (n @ t) = t"
proof -
  have t: "takeWhile (\<lambda>c. \<not> P c) t = [] \<and> dropWhile (\<lambda>c. \<not> P c) t = t" using assms(2) by (cases t) auto
  show "takeWhile (\<lambda>c. \<not> P c) (n @ t) = n" "dropWhile (\<lambda>c. \<not> P c) (n @ t) = t"
    using assms(1) t by (induction n) auto
qed

lemma cleaned_safe: "safe s \<Longrightarrow> s \<noteq> [] \<Longrightarrow> 32 < hd s \<Longrightarrow> cleaned s = s"
  by (cases s) (auto simp: cleaned_def safe_def list_all_iff filter_id_conv)

lemma scheme_char_plain: "scheme_char c \<Longrightarrow> 32 < c \<and> c \<noteq> 58 \<and> \<not> unsafe_char c"
  by (auto simp: scheme_char_def ascii_letter_def unsafe_char_def)

text \<open>The text of an absolute URL, part by part.\<close>

lemma urlunsplit_absolute:
  assumes "split_ok r p" "us_scheme p \<noteq> []" "us_netloc p \<noteq> []"
  shows "urlunsplit p = us_scheme p @ [58, 47, 47] @ us_netloc p @ us_path p @
      (if us_query p \<noteq> [] then [63] @ us_query p else []) @ (if us_fragment p \<noteq> [] then [35] @ us_fragment p else [])"
proof -
  have "us_path p = [] \<or> take 1 (us_path p) = [47]" using assms by (cases "us_path p") (auto simp: split_ok_def)
  then show ?thesis using assms(2,3) unfolding urlunsplit_def Let_def by simp
qed

lemma urlsplit_urlunsplit:
  assumes "split_ok r p" "us_scheme p \<noteq> []" "us_netloc p \<noteq> []"
  shows "urlsplit r (urlunsplit p) = Some p"
proof -
  define q where "q = (if us_query p \<noteq> [] then [63] @ us_query p else [])"
  define f where "f = (if us_fragment p \<noteq> [] then [35] @ us_fragment p else [])"
  have e: "urlunsplit p = us_scheme p @ 58 # [47, 47] @ us_netloc p @ us_path p @ q @ f"
    using urlunsplit_absolute [OF assms] by (simp add: q_def f_def)
  have w: "list_all (\<lambda>c. scheme_char c \<and> ascii_lower c = c) (us_scheme p)" "ascii_letter (hd (us_scheme p))"
    "list_all (\<lambda>c. \<not> delimiter c) (us_netloc p)" "netloc_ok r (us_netloc p)"
    "us_path p = [] \<or> hd (us_path p) = 47" "63 \<notin> set (us_path p)" "35 \<notin> set (us_path p)" "35 \<notin> set (us_query p)"
    "safe (us_netloc p)" "safe (us_path p)" "safe (us_query p)" "safe (us_fragment p)"
    using assms by (auto simp: split_ok_def)
  have "safe (us_scheme p)" using w(1) scheme_char_plain by (simp add: safe_def list_all_iff)
  then have s: "safe (urlunsplit p)" using w(9-12) unfolding e by (simp add: q_def f_def unsafe_char_def)
  have "32 < hd (urlunsplit p)"
    using w(1) assms(2) scheme_char_plain unfolding e by (cases "us_scheme p") auto
  moreover have "urlunsplit p \<noteq> []" unfolding e by simp
  ultimately have c: "cleaned (urlunsplit p) = urlunsplit p" using cleaned_safe [OF s] by blast
  have n: "58 \<notin> set (us_scheme p)" using w(1) scheme_char_plain by (auto simp: list_all_iff)
  have m: "map ascii_lower (us_scheme p) = us_scheme p" using w(1) by (simp add: list_all_iff map_idI)
  have h: "list_all scheme_char (us_scheme p)" using w(1) by (simp add: list_all_iff)
  have one: "split_scheme (urlunsplit p) = (us_scheme p, [47, 47] @ us_netloc p @ us_path p @ q @ f)"
    unfolding e split_scheme_def Let_def using cut_append [OF n] assms(2) w(2) m h by simp
  define tail where "tail = us_path p @ q @ f"
  have t: "tail = [] \<or> delimiter (hd tail)"
    using w(5) by (cases "us_path p") (auto simp: tail_def q_def f_def delimiter_def)
  have two: "split_netloc ([47, 47] @ us_netloc p @ tail) = (us_netloc p, tail)"
    unfolding split_netloc_def using cut_delimiter [OF w(3) t] by (simp add: numeral_2_eq_2)
  have pq: "35 \<notin> set (us_path p @ q)" using w(7,8) by (auto simp: q_def)
  have three: "before_char 35 tail = us_path p @ q \<and> after_char 35 tail = us_fragment p"
  proof (cases "us_fragment p = []")
    case True
    then have "tail = us_path p @ q" by (simp add: tail_def f_def)
    then show ?thesis using cut_none [OF pq] True by simp
  next
    case False
    then have "tail = (us_path p @ q) @ 35 # us_fragment p" by (simp add: tail_def f_def)
    then show ?thesis using cut_append [OF pq] by metis
  qed
  have four: "before_char 63 (us_path p @ q) = us_path p \<and> after_char 63 (us_path p @ q) = us_query p"
    using cut_append [OF w(6)] cut_none [OF w(6)] by (simp add: q_def)
  show ?thesis
    unfolding urlsplit_def c one Let_def prod.case two [unfolded tail_def] using three four w(4) by (simp add: tail_def)
qed

end
