(* ===== verification/Dev_Token.thy ===== *)
theory Dev_Token
  imports Url_Split
begin

text \<open>
  \<^verbatim>\<open>dev_token.py\<close>: how a developer obtains a token by the authorization code flow with PKCE. The model
  has the settings, the discovery document, the authorization URL, the local listener with the requests
  that reach it, the exchange of the code and the checks of the token. HTTP calls, SHA-256, random bytes,
  the clock, the JWT header and its verification are parameters.
\<close>

section \<open>Errors\<close>

text \<open>\<open>DevTokenError\<close> with its message; the others are not caught by \<open>main\<close>: the \<open>ValueError\<close> of
  \<open>urlsplit\<close>, \<open>UnicodeEncodeError\<close>, \<open>httpx.InvalidURL\<close>, the \<open>TypeError\<close> of \<open>hmac.compare_digest\<close>, and what
  another identity provider raises.\<close>

datatype token_exn =
    DevTokenError pystr
  | Malformed_url
  | Unencodable
  | Invalid_url
  | Uncomparable
  | Provider_raised exn

fun safe_error :: "token_exn \<Rightarrow> bool" where
  "safe_error (DevTokenError m) = True"
| "safe_error e = False"

type_synonym 'a token_result = "(token_exn, 'a) result"

definition fail :: "string \<Rightarrow> 'a token_result" where
  "fail message = Inl (DevTokenError (py message))"

section \<open>Settings\<close>

record dev_environment =
  de_issuer :: pystr
  de_project_id :: "pystr option"
  de_client_id :: "pystr option"
  de_redirect_uri :: pystr
  de_login_hint :: "pystr option"
  de_request_timeout :: rat
  de_callback_timeout :: int

record dev_token_settings =
  dt_issuer :: pystr
  dt_project_id :: pystr
  dt_client_id :: pystr
  dt_redirect_uri :: pystr
  dt_login_hint :: "pystr option"
  dt_request_timeout :: rat
  dt_callback_timeout :: int

definition is_loopback_host :: "pystr option \<Rightarrow> bool" where
  "is_loopback_host h \<longleftrightarrow> h \<in> {Some (py ''localhost''), Some (py ''127.0.0.1''), Some (py ''::1'')}"

text \<open>The pattern \<open>^[1-9][0-9]*$\<close>.\<close>

fun project_number :: "pystr \<Rightarrow> bool" where
  "project_number [] = False"
| "project_number (c # cs) \<longleftrightarrow> 49 \<le> c \<and> c \<le> 57 \<and> list_all (\<lambda>d. 48 \<le> d \<and> d \<le> 57) cs"

text \<open>Location and type of an error of Pydantic.\<close>

type_synonym field_error = "string \<times> string"

definition project_errors :: "pystr option \<Rightarrow> field_error list" where
  "project_errors v = (case v of None \<Rightarrow> [(''project_id'', ''missing'')]
     | Some s \<Rightarrow> if \<not> project_number s then [(''project_id'', ''string_pattern_mismatch'')]
         else if strip s = [] then [(''project_id'', ''value_error'')] else [])"

definition client_errors :: "pystr option \<Rightarrow> field_error list" where
  "client_errors v = (case v of None \<Rightarrow> [(''client_id'', ''missing'')]
     | Some s \<Rightarrow> if s = [] then [(''client_id'', ''string_too_short'')]
         else if strip s = [] then [(''client_id'', ''value_error'')] else [])"

definition range_errors :: "string \<Rightarrow> 'a :: linordered_idom \<Rightarrow> 'a \<Rightarrow> field_error list" where
  "range_errors name hi x =
     (if x \<le> 0 then [(name, ''greater_than'')] else if hi < x then [(name, ''less_than_equal'')] else [])"

definition field_errors :: "dev_environment \<Rightarrow> field_error list" where
  "field_errors e =
     project_errors (de_project_id e) @ client_errors (de_client_id e) @
     range_errors ''request_timeout_seconds'' 30 (de_request_timeout e) @
     range_errors ''callback_timeout_seconds'' 600 (de_callback_timeout e)"

text \<open>\<open>value.strip() or None\<close>.\<close>

definition strip_optional_value :: "pystr option \<Rightarrow> pystr option" where
  "strip_optional_value v = (case v of None \<Rightarrow> None | Some s \<Rightarrow> if strip s = [] then None else Some (strip s))"

definition urls_accepted :: "unicode_db \<Rightarrow> host_rules \<Rightarrow> dev_token_settings \<Rightarrow> bool" where
  "urls_accepted u r s =
     (case urlsplit r (dt_issuer s) of None \<Rightarrow> False
      | Some issuer \<Rightarrow>
     if extra_parts issuer then False
     else if us_scheme issuer = py ''http'' \<and> \<not> is_loopback_host (hostname u issuer) then False
     else case urlsplit r (dt_redirect_uri s) of None \<Rightarrow> False
      | Some redirect \<Rightarrow>
     if us_scheme redirect \<noteq> py ''http'' \<or> \<not> is_loopback_host (hostname u redirect) then False
     else \<not> extra_parts redirect)"

definition make_dev_token_settings ::
  "unicode_db \<Rightarrow> host_rules \<Rightarrow> dev_environment \<Rightarrow> (field_error list, dev_token_settings) result" where
  "make_dev_token_settings u r e =
     (case (field_errors e, de_project_id e, de_client_id e) of
        ([], Some project, Some client) \<Rightarrow>
          (let s = \<lparr>dt_issuer = de_issuer e, dt_project_id = strip project, dt_client_id = strip client,
                 dt_redirect_uri = de_redirect_uri e, dt_login_hint = strip_optional_value (de_login_hint e),
                 dt_request_timeout = de_request_timeout e, dt_callback_timeout = de_callback_timeout e\<rparr>
           in if urls_accepted u r s then Inr s else Inl [('''', ''value_error'')])
      | (errors, _, _) \<Rightarrow> Inl errors)"

definition normalized_issuer :: "dev_token_settings \<Rightarrow> pystr" where
  "normalized_issuer s = rstrip_char 47 (dt_issuer s)"

section \<open>Discovery\<close>

record discovery =
  di_issuer :: pystr
  di_authorization_endpoint :: pystr
  di_token_endpoint :: pystr
  di_jwks_uri :: pystr

text \<open>What a call of the HTTP client does: an \<open>httpx.HTTPError\<close> of the transport, \<open>httpx.InvalidURL\<close>
  (which is no \<open>HTTPError\<close>), or a response, whose body is \<open>None\<close> where \<open>json()\<close> raises \<open>ValueError\<close>.\<close>

datatype client_reply = Transport_error | Refused_url | Answer int "json option"

definition is_success :: "int \<Rightarrow> bool" where
  "is_success status \<longleftrightarrow> 200 \<le> status \<and> status \<le> 299"

definition required_url :: "host_rules \<Rightarrow> (pystr \<times> json) list \<Rightarrow> string \<Rightarrow> pystr token_result" where
  "required_url r document name =
     (case map_of document (py name) of
        Some (JStr v) \<Rightarrow>
          if v = [] then fail (''OIDC Discovery is missing '' @ name @ ''.'')
          else (case urlsplit r v of
                  None \<Rightarrow> Inl Malformed_url
                | Some p \<Rightarrow>
                    if us_scheme p \<notin> {py ''http'', py ''https''} \<or> us_netloc p = [] \<or> us_fragment p \<noteq> []
                    then fail (''OIDC Discovery returned an invalid '' @ name @ ''.'')
                    else Inr (if name = ''issuer'' then rstrip_char 47 v else v))
      | _ \<Rightarrow> fail (''OIDC Discovery is missing '' @ name @ ''.''))"

fun is_text :: "json \<Rightarrow> bool" where
  "is_text (JStr s) = True"
| "is_text _ = False"

fun string_list_contains :: "json option \<Rightarrow> pystr \<Rightarrow> bool" where
  "string_list_contains (Some (JList xs)) expected \<longleftrightarrow> list_all is_text xs \<and> JStr expected \<in> set xs"
| "string_list_contains _ expected = False"

definition from_document :: "host_rules \<Rightarrow> (pystr \<times> json) list \<Rightarrow> pystr \<Rightarrow> discovery token_result" where
  "from_document r document expected_issuer =
     bindE (required_url r document ''issuer'') (\<lambda>issuer.
     if issuer \<noteq> expected_issuer
     then Inl (DevTokenError (py ''OIDC Discovery returned an issuer that does not match the configured issuer ('' @
            expected_issuer @ py '').''))
     else if \<not> string_list_contains (map_of document (py ''code_challenge_methods_supported'')) (py ''S256'')
     then fail ''The OIDC provider does not advertise PKCE with S256.''
     else if \<not> string_list_contains (map_of document (py ''token_endpoint_auth_methods_supported'')) (py ''none'')
     then fail ''The OIDC provider does not advertise public-client token exchange.''
     else bindE (required_url r document ''authorization_endpoint'') (\<lambda>authorization.
          bindE (required_url r document ''token_endpoint'') (\<lambda>token.
          bindE (required_url r document ''jwks_uri'') (\<lambda>jwks.
            Inr \<lparr>di_issuer = issuer, di_authorization_endpoint = authorization, di_token_endpoint = token,
                 di_jwks_uri = jwks\<rparr>))))"

definition fetch_discovery :: "host_rules \<Rightarrow> (pystr \<Rightarrow> client_reply) \<Rightarrow> pystr \<Rightarrow> discovery token_result" where
  "fetch_discovery r http_get issuer =
     (case http_get (issuer @ py ''/.well-known/openid-configuration'') of
        Refused_url \<Rightarrow> Inl Invalid_url
      | Transport_error \<Rightarrow> fail ''OIDC Discovery could not be loaded or parsed.''
      | Answer status body \<Rightarrow>
          if \<not> is_success status then fail ''OIDC Discovery could not be loaded or parsed.''
          else (case body of
                  None \<Rightarrow> fail ''OIDC Discovery could not be loaded or parsed.''
                | Some (JDict document) \<Rightarrow> from_document r document issuer
                | Some _ \<Rightarrow> fail ''OIDC Discovery did not return a JSON object.''))"

section \<open>PKCE\<close>

definition b64_char :: "nat \<Rightarrow> nat" where
  "b64_char n = (if n < 26 then 65 + n else if n < 52 then 71 + n else if n < 62 then n - 4 else if n = 62 then 45 else 95)"

fun urlsafe_b64encode :: "nat list \<Rightarrow> pystr" where
  "urlsafe_b64encode [] = []"
| "urlsafe_b64encode [a] = [b64_char (a div 4), b64_char (a mod 4 * 16), 61, 61]"
| "urlsafe_b64encode [a, b] = [b64_char (a div 4), b64_char (a mod 4 * 16 + b div 16), b64_char (b mod 16 * 4), 61]"
| "urlsafe_b64encode (a # b # c # rest) =
     [b64_char (a div 4), b64_char (a mod 4 * 16 + b div 16), b64_char (b mod 16 * 4 + c div 64), b64_char (c mod 64)] @
     urlsafe_b64encode rest"

text \<open>\<open>secrets.token_urlsafe\<close> on the random bytes it draws.\<close>

definition token_urlsafe :: "nat list \<Rightarrow> pystr" where
  "token_urlsafe random = rstrip_char 61 (urlsafe_b64encode random)"

definition create_pkce_pair :: "(nat list \<Rightarrow> nat list) \<Rightarrow> nat list \<Rightarrow> pystr \<times> pystr" where
  "create_pkce_pair sha256 random =
     (let verifier = token_urlsafe random; digest = sha256 verifier
      in (verifier, rstrip_char 61 (urlsafe_b64encode digest)))"

section \<open>The authorization URL\<close>

definition authorization_parameters :: "dev_token_settings \<Rightarrow> pystr \<Rightarrow> pystr \<Rightarrow> (pystr \<times> pystr) list" where
  "authorization_parameters s state challenge =
     [(py ''response_type'', py ''code''),
      (py ''client_id'', dt_client_id s),
      (py ''redirect_uri'', dt_redirect_uri s),
      (py ''scope'', py_join (py '' '') [py ''openid'', py ''profile'',
          py ''urn:zitadel:iam:org:project:id:'' @ dt_project_id s @ py '':aud'']),
      (py ''state'', state),
      (py ''code_challenge'', challenge),
      (py ''code_challenge_method'', py ''S256'')] @
     (case dt_login_hint s of None \<Rightarrow> [] | Some h \<Rightarrow> if h = [] then [] else [(py ''login_hint'', h)])"

definition build_authorization_url ::
  "host_rules \<Rightarrow> (nat list \<Rightarrow> pystr) \<Rightarrow> discovery \<Rightarrow> dev_token_settings \<Rightarrow> pystr \<Rightarrow> pystr \<Rightarrow> pystr token_result" where
  "build_authorization_url r decode d s state challenge =
     (case urlsplit r (di_authorization_endpoint d) of
        None \<Rightarrow> Inl Malformed_url
      | Some endpoint \<Rightarrow>
          (case urlencode (parse_qsl decode (us_query endpoint) @ authorization_parameters s state challenge) of
             None \<Rightarrow> Inl Unencodable
           | Some query \<Rightarrow> Inr (urlunsplit (endpoint\<lparr>us_query := query\<rparr>))))"

section \<open>The callback\<close>

text \<open>\<open>hmac.compare_digest\<close> on strings refuses characters outside ASCII.\<close>

definition compare_digest :: "pystr \<Rightarrow> pystr \<Rightarrow> bool token_result" where
  "compare_digest a b =
     (if list_all (\<lambda>c. c < 128) a \<and> list_all (\<lambda>c. c < 128) b then Inr (a = b) else Inl Uncomparable)"

definition invalid_state :: token_exn where
  "invalid_state = DevTokenError (py ''The authorization callback contained an invalid state value.'')"

definition validate_callback_query :: "(nat list \<Rightarrow> pystr) \<Rightarrow> pystr \<Rightarrow> pystr \<Rightarrow> pystr token_result" where
  "validate_callback_query decode query expected_state =
     (let states = values_of decode query (py ''state'');
          errors = values_of decode query (py ''error'');
          codes = values_of decode query (py ''code'')
      in if length states \<noteq> 1 then Inl invalid_state
         else bindE (compare_digest (hd states) expected_state) (\<lambda>same.
           if \<not> same then Inl invalid_state
           else if errors \<noteq> []
           then Inl (DevTokenError (py ''Authorization was not completed (error='' @
                  (if length errors = 1 then hd errors else py ''invalid_response'') @ py '').''))
           else if length codes \<noteq> 1 \<or> hd codes = []
           then fail ''The authorization callback did not contain exactly one code.''
           else Inr (hd codes)))"

record callback_server =
  cs_expected_path :: pystr
  cs_expected_state :: pystr
  cs_code :: "pystr option"
  cs_error :: "token_exn option"

text \<open>\<open>Dropped\<close>: the exception of a handler is printed and the connection closed.\<close>

datatype http_answer = Error_page int | Html int string | Dropped

definition do_GET ::
  "host_rules \<Rightarrow> (nat list \<Rightarrow> pystr) \<Rightarrow> pystr \<Rightarrow> callback_server \<Rightarrow> http_answer \<times> callback_server" where
  "do_GET r decode path server =
     (case urlsplit r path of
        None \<Rightarrow> (Dropped, server)
      | Some target \<Rightarrow>
          if us_path target \<noteq> cs_expected_path server then (Error_page 404, server)
          else if length (us_query target) > 8192 then (Error_page 414, server)
          else (case validate_callback_query decode (us_query target) (cs_expected_state server) of
                  Inr code \<Rightarrow>
                    (Html 200 ''Authorization completed. You can close this window.'', server\<lparr>cs_code := Some code\<rparr>)
                | Inl (DevTokenError m) \<Rightarrow>
                    (Html 400 ''Authorization failed. Return to the terminal for details.'',
                     server\<lparr>cs_error := Some (DevTokenError m)\<rparr>)
                | Inl _ \<Rightarrow> (Dropped, server)))"

text \<open>What one call of \<open>handle_request\<close> meets: nobody within its timeout, a GET, a request the base class
  answers itself, or a peer that connects and sends nothing, on which the handler waits without limit.\<close>

datatype arrival = Nobody | Get pystr | Refused_request | Silent

fun handle_request ::
  "host_rules \<Rightarrow> (nat list \<Rightarrow> pystr) \<Rightarrow> arrival \<Rightarrow> callback_server \<Rightarrow> callback_server option" where
  "handle_request r decode Nobody server = Some server"
| "handle_request r decode (Get path) server = Some (snd (do_GET r decode path server))"
| "handle_request r decode Refused_request server = Some server"
| "handle_request r decode Silent server = None"

definition callback_outcome :: "callback_server \<Rightarrow> pystr token_result" where
  "callback_outcome server =
     (case cs_error server of
        Some e \<Rightarrow> Inl e
      | None \<Rightarrow>
          (case cs_code server of
             None \<Rightarrow> fail ''The local authorization callback did not return a code.''
           | Some code \<Rightarrow> Inr code))"

text \<open>The loop: \<open>clock i\<close> is what round \<open>i\<close> reads, \<open>arrivals i\<close> what it meets. \<open>None\<close> is a loop that did
  not end.\<close>

primrec await_callback ::
  "nat \<Rightarrow> host_rules \<Rightarrow> (nat list \<Rightarrow> pystr) \<Rightarrow> (nat \<Rightarrow> rat) \<Rightarrow> (nat \<Rightarrow> arrival) \<Rightarrow> rat \<Rightarrow> nat \<Rightarrow> callback_server \<Rightarrow>
   pystr token_result option" where
  "await_callback 0 r decode clock arrivals deadline i server = None"
| "await_callback (Suc rounds) r decode clock arrivals deadline i server =
     (if cs_code server = None \<and> cs_error server = None
      then (if deadline - clock i \<le> 0
            then Some (fail ''Timed out waiting for the local authorization callback.'')
            else (case handle_request r decode (arrivals i) server of
                    None \<Rightarrow> None
                  | Some server' \<Rightarrow> await_callback rounds r decode clock arrivals deadline (Suc i) server'))
      else Some (callback_outcome server))"

record callback_world =
  cw_can_listen :: "pystr \<Rightarrow> int \<Rightarrow> bool"
  cw_started :: rat
  cw_clock :: "nat \<Rightarrow> rat"
  cw_arrivals :: "nat \<Rightarrow> arrival"
  cw_rounds :: nat

definition callback_path :: "split_url \<Rightarrow> pystr" where
  "callback_path redirect = (if us_path redirect = [] then py ''/'' else us_path redirect)"

definition receive_authorization_code ::
  "unicode_db \<Rightarrow> host_rules \<Rightarrow> (nat list \<Rightarrow> pystr) \<Rightarrow> callback_world \<Rightarrow> pystr \<Rightarrow> pystr \<Rightarrow> int \<Rightarrow>
   pystr token_result option" where
  "receive_authorization_code u r decode w redirect_uri expected_state timeout_seconds =
     (case urlsplit r redirect_uri of
        None \<Rightarrow> Some (Inl Malformed_url)
      | Some redirect \<Rightarrow>
          if \<not> is_loopback_host (hostname u redirect) \<or> us_scheme redirect \<noteq> py ''http''
          then Some (fail ''The callback listener only accepts loopback HTTP redirect URIs.'')
          else (case port_of redirect of
                  None \<Rightarrow> Some (Inl Malformed_url)
                | Some p \<Rightarrow>
                    (let host = the (hostname u redirect);
                         port = (case p of None \<Rightarrow> 80 | Some n \<Rightarrow> if n = 0 then 80 else n)
                     in if \<not> cw_can_listen w host port
                        then Some (Inl (DevTokenError (py ''Could not listen for the OIDC callback on '' @ host @
                               py '':'' @ dec_int port @ py ''.'')))
                        else await_callback (cw_rounds w) r decode (cw_clock w) (cw_arrivals w)
                               (cw_started w + of_int timeout_seconds) 0
                               \<lparr>cs_expected_path = callback_path redirect, cs_expected_state = expected_state,
                                cs_code = None, cs_error = None\<rparr>)))"

section \<open>The exchange\<close>

definition token_request :: "dev_token_settings \<Rightarrow> pystr \<Rightarrow> pystr \<Rightarrow> (pystr \<times> pystr) list" where
  "token_request s code code_verifier =
     [(py ''grant_type'', py ''authorization_code''),
      (py ''client_id'', dt_client_id s),
      (py ''redirect_uri'', dt_redirect_uri s),
      (py ''code'', code),
      (py ''code_verifier'', code_verifier)]"

definition exchange_authorization_code ::
  "unicode_db \<Rightarrow> (pystr \<Rightarrow> (pystr \<times> pystr) list \<Rightarrow> client_reply) \<Rightarrow> discovery \<Rightarrow> dev_token_settings \<Rightarrow>
   pystr \<Rightarrow> pystr \<Rightarrow> pystr token_result" where
  "exchange_authorization_code u http_post d s code code_verifier =
     (case http_post (di_token_endpoint d) (token_request s code code_verifier) of
        Refused_url \<Rightarrow> Inl Invalid_url
      | Transport_error \<Rightarrow> fail ''The authorization code could not be exchanged for a token.''
      | Answer status body \<Rightarrow>
          if \<not> is_success status
          then Inl (DevTokenError (py ''The token endpoint rejected the code (HTTP '' @ dec_int status @ py '').''))
          else (case body of
                  None \<Rightarrow> fail ''The authorization code could not be exchanged for a token.''
                | Some (JDict document) \<Rightarrow>
                    (case map_of document (py ''access_token'') of
                       Some (JStr token) \<Rightarrow>
                         if strip token = [] then fail ''The token endpoint response did not contain an access token.''
                         else (case map_of document (py ''token_type'') of
                                 Some (JStr kind) \<Rightarrow>
                                   if lower u kind \<noteq> py ''bearer''
                                   then fail ''The token endpoint response did not contain a Bearer token.''
                                   else Inr (strip token)
                               | _ \<Rightarrow> fail ''The token endpoint response did not contain a Bearer token.'')
                     | _ \<Rightarrow> fail ''The token endpoint response did not contain an access token.'')
                | Some _ \<Rightarrow> fail ''The token endpoint did not return a JSON object.''))"

section \<open>The checks of the token\<close>

text \<open>\<open>header\<close> is \<open>jwt.get_unverified_header\<close>, \<open>None\<close> where it raises; \<open>provider\<close> is the factory of
  identity providers.\<close>

type_synonym provider_factory = "pystr \<Rightarrow> pystr \<Rightarrow> pystr \<Rightarrow> pystr option \<Rightarrow> (exn, authenticated_identity) result"

definition validate_access_token ::
  "(pystr \<Rightarrow> (pystr \<times> json) list option) \<Rightarrow> provider_factory \<Rightarrow> pystr \<Rightarrow> discovery \<Rightarrow> pystr \<Rightarrow> unit token_result" where
  "validate_access_token header provider token d project_id =
     (if count_list token 46 \<noteq> 2
      then fail ''ZITADEL returned an opaque access token. In the application's Token Settings, set Token Type to JWT and request a new token.''
      else (case header token of
              None \<Rightarrow> fail ''ZITADEL returned a malformed JWT access token.''
            | Some h \<Rightarrow>
                if map_of h (py ''alg'') \<noteq> Some (JStr (py ''RS256''))
                then fail ''ZITADEL returned a JWT access token whose signing algorithm is not RS256.''
                else (case provider (di_issuer d) project_id (di_jwks_uri d) (Some (py ''Bearer '' @ token)) of
                        Inr i \<Rightarrow> Inr ()
                      | Inl e \<Rightarrow>
                          if e = AuthenticationError
                          then fail ''The access token failed signature, issuer, audience, expiry, or subject validation.''
                          else if e = IdentityProviderUnavailable
                          then fail ''The access token signing keys could not be loaded.''
                          else Inl (Provider_raised e))))"

text \<open>The default factory: \<open>verify\<close> is PyJWT with the keys of the provider.\<close>

definition oidc_factory ::
  "unicode_db \<Rightarrow> (pystr \<Rightarrow> pystr \<Rightarrow> pystr \<Rightarrow> pystr \<Rightarrow> (decode_failure, claims) result) \<Rightarrow> provider_factory" where
  "oidc_factory u verify issuer audience jwks = oidc_authenticate u (verify issuer audience jwks)"

section \<open>The command\<close>

record token_world =
  tw_get :: "pystr \<Rightarrow> client_reply"
  tw_post :: "pystr \<Rightarrow> (pystr \<times> pystr) list \<Rightarrow> client_reply"
  tw_sha256 :: "nat list \<Rightarrow> nat list"
  tw_verifier_bytes :: "nat list"
  tw_state_bytes :: "nat list"
  tw_header :: "pystr \<Rightarrow> (pystr \<times> json) list option"
  tw_verify :: "pystr \<Rightarrow> pystr \<Rightarrow> pystr \<Rightarrow> pystr \<Rightarrow> (decode_failure, claims) result"
  tw_callback :: callback_world

text \<open>The authorization URL goes to the browser; what the browser does with it is among the arrivals.\<close>

definition obtain_dev_token ::
  "unicode_db \<Rightarrow> host_rules \<Rightarrow> (nat list \<Rightarrow> pystr) \<Rightarrow> token_world \<Rightarrow> dev_token_settings \<Rightarrow> pystr token_result option" where
  "obtain_dev_token u r decode w s =
     (case fetch_discovery r (tw_get w) (normalized_issuer s) of
        Inl e \<Rightarrow> Some (Inl e)
      | Inr d \<Rightarrow>
     (let (code_verifier, code_challenge) = create_pkce_pair (tw_sha256 w) (tw_verifier_bytes w);
          state = token_urlsafe (tw_state_bytes w)
      in case build_authorization_url r decode d s state code_challenge of
        Inl e \<Rightarrow> Some (Inl e)
      | Inr authorization_url \<Rightarrow>
     (case receive_authorization_code u r decode (tw_callback w) (dt_redirect_uri s) state (dt_callback_timeout s) of
        None \<Rightarrow> None
      | Some (Inl e) \<Rightarrow> Some (Inl e)
      | Some (Inr code) \<Rightarrow> Some (
          bindE (exchange_authorization_code u (tw_post w) d s code code_verifier) (\<lambda>token.
          bindE (validate_access_token (tw_header w) (oidc_factory u (tw_verify w)) token d (dt_project_id s)) (\<lambda>_.
            Inr token))))))"

text \<open>What the process does: exit with a status, having printed a token and a last line of complaint, or end
  with an uncaught exception.\<close>

datatype token_process = Exit (exit_status: int) (printed: "pystr option") (complaint: pystr) | Traceback token_exn

definition client_id_is_missing :: "field_error list \<Rightarrow> bool" where
  "client_id_is_missing errors \<longleftrightarrow> (''client_id'', ''missing'') \<in> set errors"

definition settings_complaint :: "field_error list \<Rightarrow> pystr" where
  "settings_complaint errors =
     (if client_id_is_missing errors
      then py ''DOCTA_DEV_OIDC_CLIENT_ID is required. The ZITADEL Application ID is not the OIDC Client ID; copy the Client ID from the application's configuration and add it to .env.''
      else py ''The DOCTA_DEV_OIDC_* configuration is invalid.'')"

definition token_main ::
  "unicode_db \<Rightarrow> host_rules \<Rightarrow> (nat list \<Rightarrow> pystr) \<Rightarrow> token_world \<Rightarrow> dev_environment \<Rightarrow> token_process option" where
  "token_main u r decode w e =
     (case make_dev_token_settings u r e of
        Inl errors \<Rightarrow> Some (Exit 2 None (settings_complaint errors))
      | Inr s \<Rightarrow>
          (case obtain_dev_token u r decode w s of
             None \<Rightarrow> None
           | Some (Inl (DevTokenError m)) \<Rightarrow> Some (Exit 1 None (py ''Could not obtain a development token: '' @ m))
           | Some (Inl x) \<Rightarrow> Some (Traceback x)
           | Some (Inr token) \<Rightarrow> Some (Exit 0 (Some token) [])))"

section \<open>The listener\<close>

lemma required_url_Inr:
  assumes "required_url r doc name = Inr v"
  obtains t p where "map_of doc (py name) = Some (JStr t)" "urlsplit r t = Some p" "us_scheme p \<in> {py ''http'', py ''https''}"
    "us_netloc p \<noteq> []" "us_fragment p = []" "v = (if name = ''issuer'' then rstrip_char 47 t else t)"
proof -
  obtain t where t: "map_of doc (py name) = Some (JStr t)"
    using assms by (auto simp: required_url_def fail_def split: option.splits json.splits)
  then obtain p where "urlsplit r t = Some p"
    using assms by (auto simp: required_url_def fail_def split: option.splits if_splits)
  then show ?thesis using that [of t p] assms t by (auto simp: required_url_def fail_def split: if_splits)
qed

lemma from_document_Inr:
  assumes "from_document r doc issuer = Inr d"
  shows "di_issuer d = issuer \<and> required_url r doc ''authorization_endpoint'' = Inr (di_authorization_endpoint d) \<and>
    required_url r doc ''token_endpoint'' = Inr (di_token_endpoint d) \<and> required_url r doc ''jwks_uri'' = Inr (di_jwks_uri d) \<and>
    string_list_contains (map_of doc (py ''code_challenge_methods_supported'')) (py ''S256'')"
  using assms by (auto simp: from_document_def fail_def bindE_eq_Inr split: if_splits)

lemma fetch_discovery_Inr:
  assumes "fetch_discovery r http_get issuer = Inr d"
  obtains status doc where "http_get (issuer @ py ''/.well-known/openid-configuration'') = Answer status (Some (JDict doc))"
    "is_success status" "from_document r doc issuer = Inr d"
proof -
  obtain status body where a: "http_get (issuer @ py ''/.well-known/openid-configuration'') = Answer status body"
    using assms by (auto simp: fetch_discovery_def fail_def split: client_reply.splits)
  then obtain doc where "body = Some (JDict doc)" "is_success status"
    using assms by (auto simp: fetch_discovery_def fail_def split: if_splits option.splits json.splits)
  then show ?thesis using that a assms by (simp add: fetch_discovery_def)
qed

text \<open>A callback is accepted with the state of this run exactly once, no error and one code.\<close>

lemma validate_callback_Inr:
  assumes "validate_callback_query decode query expected_state = Inr code"
  shows "values_of decode query (py ''state'') = [expected_state] \<and> values_of decode query (py ''error'') = [] \<and>
    values_of decode query (py ''code'') = [code] \<and> code \<noteq> []"
proof -
  define st er co where "st = values_of decode query (py ''state'')" and "er = values_of decode query (py ''error'')"
    and "co = values_of decode query (py ''code'')"
  have v: "(if length st \<noteq> 1 then Inl invalid_state
         else bindE (compare_digest (hd st) expected_state) (\<lambda>same.
           if \<not> same then Inl invalid_state
           else if er \<noteq> []
           then Inl (DevTokenError (py ''Authorization was not completed (error='' @
                  (if length er = 1 then hd er else py ''invalid_response'') @ py '').''))
           else if length co \<noteq> 1 \<or> hd co = []
           then fail ''The authorization callback did not contain exactly one code.''
           else Inr (hd co))) = Inr code"
    using assms unfolding validate_callback_query_def Let_def st_def er_def co_def .
  then have "length st = 1 \<and> hd st = expected_state \<and> er = [] \<and> length co = 1 \<and> hd co = code \<and> code \<noteq> []"
    by (auto simp: bindE_eq_Inr compare_digest_def fail_def split: if_splits)
  then show ?thesis unfolding st_def [symmetric] er_def [symmetric] co_def [symmetric]
    by (cases st; cases co) auto
qed

definition unsettled :: "callback_server \<Rightarrow> bool" where
  "unsettled server \<longleftrightarrow> cs_code server = None \<and> cs_error server = None"

lemma do_GET_cases:
  obtains "snd (do_GET r decode path server) = server"
  | target code where "urlsplit r path = Some target" "us_path target = cs_expected_path server"
      "length (us_query target) \<le> 8192"
      "validate_callback_query decode (us_query target) (cs_expected_state server) = Inr code"
      "snd (do_GET r decode path server) = server\<lparr>cs_code := Some code\<rparr>"
  | m where "snd (do_GET r decode path server) = server\<lparr>cs_error := Some (DevTokenError m)\<rparr>"
  unfolding do_GET_def by (force split: option.splits if_splits sum.splits token_exn.splits)

text \<open>What the loop returns with success was brought by a request before the deadline, the first that
  was accepted or refused.\<close>

definition accepted_request ::
  "host_rules \<Rightarrow> (nat list \<Rightarrow> pystr) \<Rightarrow> pystr \<Rightarrow> pystr \<Rightarrow> pystr \<Rightarrow> pystr \<Rightarrow> bool" where
  "accepted_request r decode expected_path state path code \<longleftrightarrow>
     (\<exists>target. urlsplit r path = Some target \<and> us_path target = expected_path \<and> length (us_query target) \<le> 8192 \<and>
        values_of decode (us_query target) (py ''state'') = [state] \<and>
        values_of decode (us_query target) (py ''error'') = [] \<and>
        values_of decode (us_query target) (py ''code'') = [code] \<and> code \<noteq> [])"

lemma await_settled:
  assumes "\<not> unsettled server"
  shows "await_callback rounds r decode clock arrivals deadline i server = (if rounds = 0 then None else Some (callback_outcome server))"
  using assms by (cases rounds) (auto simp: unsettled_def)

lemma await_callback_Inr:
  assumes "await_callback rounds r decode clock arrivals deadline i server = Some (Inr code)" "unsettled server"
  shows "\<exists>j path. i \<le> j \<and> j < i + rounds \<and> clock j < deadline \<and> arrivals j = Get path \<and>
    accepted_request r decode (cs_expected_path server) (cs_expected_state server) path code"
  using assms
proof (induction rounds arbitrary: i)
  case (Suc rounds)
  have before: "clock i < deadline"
    using Suc.prems by (auto simp: unsettled_def fail_def split: if_splits)
  obtain server' where s: "handle_request r decode (arrivals i) server = Some server'"
    "await_callback rounds r decode clock arrivals deadline (Suc i) server' = Some (Inr code)"
    using Suc.prems before by (auto simp: unsettled_def split: option.splits)
  consider "server' = server" | path where "arrivals i = Get path" "server' = snd (do_GET r decode path server)"
    using s(1) by (cases "arrivals i") auto
  then show ?case
  proof cases
    case 1
    then obtain j path where "Suc i \<le> j" "j < Suc i + rounds" "clock j < deadline" "arrivals j = Get path"
      "accepted_request r decode (cs_expected_path server) (cs_expected_state server) path code"
      using Suc.IH [of "Suc i"] s(2) Suc.prems(2) by blast
    then show ?thesis by (intro exI [of _ j] exI [of _ path]) simp
  next
    case (2 path)
    show ?thesis
    proof (cases rule: do_GET_cases [of r decode path server])
      case 1
      then obtain j path where "Suc i \<le> j" "j < Suc i + rounds" "clock j < deadline" "arrivals j = Get path"
        "accepted_request r decode (cs_expected_path server) (cs_expected_state server) path code"
        using Suc.IH [of "Suc i"] s(2) Suc.prems(2) 2(2) by auto
      then show ?thesis by (intro exI [of _ j] exI [of _ path]) simp
    next
      case (2 target c)
      have "c = code"
        using s(2) await_settled [of server'] 2(5) \<open>server' = _\<close> Suc.prems(2)
        by (auto simp: unsettled_def callback_outcome_def split: if_splits)
      then have "accepted_request r decode (cs_expected_path server) (cs_expected_state server) path code"
        using 2 validate_callback_Inr [OF 2(4)] unfolding accepted_request_def by blast
      then show ?thesis using before \<open>arrivals i = Get path\<close> by (intro exI [of _ i] exI [of _ path]) simp
    next
      case (3 m)
      then have "False"
        using s(2) await_settled [of server'] \<open>server' = _\<close> Suc.prems(2)
        by (auto simp: unsettled_def callback_outcome_def split: if_splits)
      then show ?thesis ..
    qed
  qed
qed simp

lemma receive_Inr:
  assumes "receive_authorization_code u r decode w redirect_uri state timeout = Some (Inr code)"
  shows "\<exists>redirect i path. urlsplit r redirect_uri = Some redirect \<and> us_scheme redirect = py ''http'' \<and>
    is_loopback_host (hostname u redirect) \<and> i < cw_rounds w \<and> cw_clock w i < cw_started w + of_int timeout \<and>
    cw_arrivals w i = Get path \<and> accepted_request r decode (callback_path redirect) state path code"
proof -
  obtain redirect where u: "urlsplit r redirect_uri = Some redirect"
    using assms by (auto simp: receive_authorization_code_def split: option.splits)
  have l: "is_loopback_host (hostname u redirect)" "us_scheme redirect = py ''http''"
    using assms u by (auto simp: receive_authorization_code_def fail_def split: if_splits)
  obtain p where p: "port_of redirect = Some p"
    using assms u l by (auto simp: receive_authorization_code_def split: option.splits)
  define server where "server = \<lparr>cs_expected_path = callback_path redirect, cs_expected_state = state, cs_code = None, cs_error = None\<rparr>"
  have "await_callback (cw_rounds w) r decode (cw_clock w) (cw_arrivals w) (cw_started w + of_int timeout) 0 server = Some (Inr code)"
    using assms u l p by (simp add: receive_authorization_code_def Let_def server_def split: if_splits)
  from await_callback_Inr [OF this] show ?thesis using u l by (auto simp: unsettled_def server_def)
qed

section \<open>The token\<close>

lemma exchange_Inr:
  assumes "exchange_authorization_code u http_post d s code verifier = Inr token"
  shows "\<exists>status document t kind. http_post (di_token_endpoint d) (token_request s code verifier) = Answer status (Some (JDict document)) \<and>
    is_success status \<and> map_of document (py ''access_token'') = Some (JStr t) \<and> token = strip t \<and> token \<noteq> [] \<and>
    map_of document (py ''token_type'') = Some (JStr kind) \<and> lower u kind = py ''bearer''"
proof -
  obtain status body where a: "http_post (di_token_endpoint d) (token_request s code verifier) = Answer status body"
    using assms by (auto simp: exchange_authorization_code_def fail_def split: client_reply.splits)
  have ok: "is_success status" using assms a by (auto simp: exchange_authorization_code_def split: if_splits)
  obtain document where b: "body = Some (JDict document)"
    using assms a ok by (auto simp: exchange_authorization_code_def fail_def split: option.splits json.splits)
  obtain t where t: "map_of document (py ''access_token'') = Some (JStr t)"
    using assms a ok b by (auto simp: exchange_authorization_code_def fail_def split: option.splits json.splits)
  have n: "strip t \<noteq> []" using assms a ok b t by (auto simp: exchange_authorization_code_def fail_def split: if_splits)
  obtain kind where k: "map_of document (py ''token_type'') = Some (JStr kind)"
    using assms a ok b t n by (auto simp: exchange_authorization_code_def fail_def split: option.splits json.splits)
  have "lower u kind = py ''bearer'' \<and> token = strip t"
    using assms a ok b t n k by (auto simp: exchange_authorization_code_def fail_def split: if_splits)
  then show ?thesis using a ok b t n k by blast
qed

lemma bearer_of_token:
  assumes "strip token = token" "token \<noteq> []"
  shows "bearer_token u (Some (py ''Bearer '' @ token)) = Inr token"
proof -
  have p: "py ''Bearer '' @ token = py ''Bearer'' @ 32 # token" by (simp add: py_def)
  have n: "32 \<notin> set (py ''Bearer'')" by (simp add: py_def)
  have "lower u (py ''Bearer'') = py ''bearer''" by (subst lower_ascii) (simp_all add: py_def ascii_lower_def)
  then show ?thesis
    using assms cut_at [OF n, of token] by (simp add: bearer_token_def p partition_char_def)
qed

lemma validate_Inr:
  assumes "validate_access_token header (oidc_factory u verify) token d project = Inr ()" "strip token = token" "token \<noteq> []"
  shows "count_list token 46 = 2 \<and> (\<exists>h. header token = Some h \<and> map_of h (py ''alg'') = Some (JStr (py ''RS256''))) \<and>
    (\<exists>claims. verify (di_issuer d) project (di_jwks_uri d) token = Inr claims)"
proof -
  have c: "count_list token 46 = 2" using assms(1) by (auto simp: validate_access_token_def fail_def split: if_splits)
  obtain h where h: "header token = Some h"
    using assms(1) c by (auto simp: validate_access_token_def fail_def split: option.splits)
  have alg: "map_of h (py ''alg'') = Some (JStr (py ''RS256''))"
    using assms(1) c h by (auto simp: validate_access_token_def fail_def split: if_splits)
  obtain i where "oidc_factory u verify (di_issuer d) project (di_jwks_uri d) (Some (py ''Bearer '' @ token)) = Inr i"
    using assms(1) c h alg by (auto simp: validate_access_token_def fail_def split: sum.splits if_splits)
  then obtain t claims where "bearer_token u (Some (py ''Bearer '' @ token)) = Inr t"
    "verify (di_issuer d) project (di_jwks_uri d) t = Inr claims" unfolding oidc_factory_def by (rule oidc_Inr)
  then show ?thesis using c h alg bearer_of_token [OF assms(2,3), of u] by auto
qed

lemma validate_Inl:
  assumes "validate_access_token header (oidc_factory u verify) token d project = Inl e"
  shows "safe_error e"
  using assms oidc_Inl unfolding oidc_factory_def
  by (auto simp: validate_access_token_def fail_def split: if_splits option.splits sum.splits)

lemma obtain_Inr:
  assumes "obtain_dev_token u r decode w s = Some (Inr token)"
  obtains d url code where "fetch_discovery r (tw_get w) (normalized_issuer s) = Inr d"
    "build_authorization_url r decode d s (token_urlsafe (tw_state_bytes w)) (snd (create_pkce_pair (tw_sha256 w) (tw_verifier_bytes w))) = Inr url"
    "receive_authorization_code u r decode (tw_callback w) (dt_redirect_uri s) (token_urlsafe (tw_state_bytes w)) (dt_callback_timeout s) = Some (Inr code)"
    "exchange_authorization_code u (tw_post w) d s code (token_urlsafe (tw_verifier_bytes w)) = Inr token"
    "validate_access_token (tw_header w) (oidc_factory u (tw_verify w)) token d (dt_project_id s) = Inr ()"
proof -
  obtain d where d: "fetch_discovery r (tw_get w) (normalized_issuer s) = Inr d"
    using assms by (auto simp: obtain_dev_token_def split: sum.splits)
  obtain verifier challenge where c: "create_pkce_pair (tw_sha256 w) (tw_verifier_bytes w) = (verifier, challenge)" by force
  have v: "verifier = token_urlsafe (tw_verifier_bytes w)" using c by (auto simp: create_pkce_pair_def Let_def)
  obtain url where url: "build_authorization_url r decode d s (token_urlsafe (tw_state_bytes w)) challenge = Inr url"
    using assms d c by (auto simp: obtain_dev_token_def Let_def split: sum.splits)
  obtain code where code: "receive_authorization_code u r decode (tw_callback w) (dt_redirect_uri s)
      (token_urlsafe (tw_state_bytes w)) (dt_callback_timeout s) = Some (Inr code)"
    using assms d c url by (auto simp: obtain_dev_token_def Let_def split: option.splits sum.splits)
  have "exchange_authorization_code u (tw_post w) d s code verifier = Inr token \<and>
      validate_access_token (tw_header w) (oidc_factory u (tw_verify w)) token d (dt_project_id s) = Inr ()"
    using assms d c url code by (auto simp: obtain_dev_token_def Let_def bindE_eq_Inr)
  then show ?thesis using that d url code c v by auto
qed

section \<open>Samples\<close>

definition sample_rules :: host_rules where
  "sample_rules = \<lparr>hr_bracketed = (\<lambda>_. True), hr_normal = (\<lambda>_. True)\<rparr>"

definition sample_dev_environment :: dev_environment where
  "sample_dev_environment = \<lparr>de_issuer = py ''http://localhost:8080/'', de_project_id = Some (py ''7''), de_client_id = Some (py ''web''),
     de_redirect_uri = py ''http://127.0.0.1:8765/callback'', de_login_hint = None, de_request_timeout = 5,
     de_callback_timeout = 180\<rparr>"

definition sample_dev_settings :: dev_token_settings where
  "sample_dev_settings = \<lparr>dt_issuer = py ''http://localhost:8080/'', dt_project_id = py ''7'', dt_client_id = py ''web'',
     dt_redirect_uri = py ''http://127.0.0.1:8765/callback'', dt_login_hint = None, dt_request_timeout = 5,
     dt_callback_timeout = 180\<rparr>"

definition sample_metadata :: "pystr \<Rightarrow> (pystr \<times> json) list" where
  "sample_metadata authorization =
     [(py ''issuer'', JStr (py ''http://localhost:8080'')),
      (py ''code_challenge_methods_supported'', JList [JStr (py ''S256'')]),
      (py ''token_endpoint_auth_methods_supported'', JList [JStr (py ''none'')]),
      (py ''authorization_endpoint'', JStr authorization),
      (py ''token_endpoint'', JStr (py ''http://h/t'')),
      (py ''jwks_uri'', JStr (py ''http://h/k''))]"

definition sample_discovery :: discovery where
  "sample_discovery = \<lparr>di_issuer = py ''http://localhost:8080'', di_authorization_endpoint = py ''http://h/a'',
     di_token_endpoint = py ''http://h/t'', di_jwks_uri = py ''http://h/k''\<rparr>"

lemmas split_defs = urlsplit_def split_scheme_def split_netloc_def cleaned_def unsafe_char_def before_char_def
  after_char_def ascii_letter_def scheme_char_def delimiter_def netloc_ok_def ascii_lower_def Let_def

lemma sample_splits:
  "urlsplit sample_rules (py ''http://h/a'') =
     Some \<lparr>us_scheme = py ''http'', us_netloc = py ''h'', us_path = py ''/a'', us_query = [], us_fragment = []\<rparr>"
  "urlsplit sample_rules (py ''http://h/t'') =
     Some \<lparr>us_scheme = py ''http'', us_netloc = py ''h'', us_path = py ''/t'', us_query = [], us_fragment = []\<rparr>"
  "urlsplit sample_rules (py ''http://h/k'') =
     Some \<lparr>us_scheme = py ''http'', us_netloc = py ''h'', us_path = py ''/k'', us_query = [], us_fragment = []\<rparr>"
  "urlsplit sample_rules (py ''http://localhost:8080'') =
     Some \<lparr>us_scheme = py ''http'', us_netloc = py ''localhost:8080'', us_path = [], us_query = [], us_fragment = []\<rparr>"
  "urlsplit sample_rules (py ''http://localhost:8080/'') =
     Some \<lparr>us_scheme = py ''http'', us_netloc = py ''localhost:8080'', us_path = py ''/'', us_query = [], us_fragment = []\<rparr>"
  "urlsplit sample_rules (py ''http://127.0.0.1:8765/callback'') =
     Some \<lparr>us_scheme = py ''http'', us_netloc = py ''127.0.0.1:8765'', us_path = py ''/callback'', us_query = [], us_fragment = []\<rparr>"
  "urlsplit sample_rules (py ''/callback?state=AAAA&code=c'') =
     Some \<lparr>us_scheme = [], us_netloc = [], us_path = py ''/callback'', us_query = py ''state=AAAA&code=c'', us_fragment = []\<rparr>"
  "urlsplit sample_rules (py ''http://['') = None"
  by (simp_all add: split_defs py_def)

lemma sample_from_document:
  "from_document sample_rules (sample_metadata (py ''http://h/a'')) (py ''http://localhost:8080'') = Inr sample_discovery"
  "from_document sample_rules (sample_metadata (py ''http://['')) (py ''http://localhost:8080'') = Inl Malformed_url"
proof -
  have r: "rstrip_char 47 (py ''http://localhost:8080'') = py ''http://localhost:8080''" by (simp add: rstrip_char_def py_def)
  have n: "py ''h'' \<noteq> []" "py ''localhost:8080'' \<noteq> []" "py ''http://h/a'' \<noteq> []" "py ''http://h/t'' \<noteq> []" "py ''http://h/k'' \<noteq> []"
    "py ''http://localhost:8080'' \<noteq> []" "py ''http://['' \<noteq> []" by (simp_all add: py_def)
  have i: "required_url sample_rules (sample_metadata a) ''issuer'' = Inr (py ''http://localhost:8080'')" for a
    unfolding required_url_def sample_metadata_def by (simp add: sample_splits n r)
  have t: "required_url sample_rules (sample_metadata a) ''token_endpoint'' = Inr (py ''http://h/t'')" for a
    unfolding required_url_def sample_metadata_def by (simp add: sample_splits n) (simp add: py_def)
  have j: "required_url sample_rules (sample_metadata a) ''jwks_uri'' = Inr (py ''http://h/k'')" for a
    unfolding required_url_def sample_metadata_def by (simp add: sample_splits n) (simp add: py_def)
  have m: "string_list_contains (map_of (sample_metadata a) (py ''code_challenge_methods_supported'')) (py ''S256'')"
    "string_list_contains (map_of (sample_metadata a) (py ''token_endpoint_auth_methods_supported'')) (py ''none'')" for a
    by (simp_all add: sample_metadata_def py_def)
  have a: "required_url sample_rules (sample_metadata (py ''http://h/a'')) ''authorization_endpoint'' = Inr (py ''http://h/a'')"
    unfolding required_url_def sample_metadata_def by (simp add: sample_splits n) (simp add: py_def)
  have b: "required_url sample_rules (sample_metadata (py ''http://['')) ''authorization_endpoint'' = Inl Malformed_url"
    unfolding required_url_def sample_metadata_def by (simp add: sample_splits n) (simp add: py_def)
  show "from_document sample_rules (sample_metadata (py ''http://h/a'')) (py ''http://localhost:8080'') = Inr sample_discovery"
    using i t j m a by (simp add: from_document_def sample_discovery_def)
  show "from_document sample_rules (sample_metadata (py ''http://['')) (py ''http://localhost:8080'') = Inl Malformed_url"
    using i m b by (simp add: from_document_def)
qed

lemma sample_accepted: "make_dev_token_settings ascii_db sample_rules sample_dev_environment = Inr sample_dev_settings"
proof -
  have h: "hostname ascii_db \<lparr>us_scheme = a, us_netloc = py ''localhost:8080'', us_path = b, us_query = c, us_fragment = f\<rparr> = Some (py ''localhost'')"
    "hostname ascii_db \<lparr>us_scheme = a, us_netloc = py ''127.0.0.1:8765'', us_path = b, us_query = c, us_fragment = f\<rparr> = Some (py ''127.0.0.1'')" for a b c f
    by (simp_all add: hostname_def host_and_port_def host_part_def before_char_def Let_def py_def lower_ascii ascii_lower_def)
  have e: "\<not> extra_parts \<lparr>us_scheme = a, us_netloc = py ''localhost:8080'', us_path = b, us_query = [], us_fragment = []\<rparr>"
    "\<not> extra_parts \<lparr>us_scheme = a, us_netloc = py ''127.0.0.1:8765'', us_path = b, us_query = [], us_fragment = []\<rparr>" for a b
    by (simp_all add: extra_parts_def username_def password_def non_empty_def py_def)
  have a: "urls_accepted ascii_db sample_rules sample_dev_settings"
    by (simp add: urls_accepted_def sample_dev_settings_def sample_splits h e is_loopback_host_def)
  have f: "field_errors sample_dev_environment = []"
    by (simp add: field_errors_def project_errors_def client_errors_def range_errors_def sample_dev_environment_def
        py_def strip_def is_space_def)
  have s: "strip (py ''7'') = py ''7''" "strip (py ''web'') = py ''web''" by (simp_all add: py_def strip_def is_space_def)
  show ?thesis
    using a f s by (simp add: make_dev_token_settings_def sample_dev_environment_def sample_dev_settings_def
        strip_optional_value_def Let_def)
qed

definition sample_token_world :: token_world where
  "sample_token_world = \<lparr>
     tw_get = (\<lambda>_. Answer 200 (Some (JDict (sample_metadata (py ''http://h/a''))))),
     tw_post = (\<lambda>_ _. Answer 200 (Some (JDict [(py ''access_token'', JStr (py '' a.b.c'')), (py ''token_type'', JStr (py ''Bearer''))]))),
     tw_sha256 = (\<lambda>_. [0, 0, 0]),
     tw_verifier_bytes = [255, 255, 255],
     tw_state_bytes = [0, 0, 0],
     tw_header = (\<lambda>_. Some [(py ''alg'', JStr (py ''RS256''))]),
     tw_verify = (\<lambda>_ _ _ _. Inr (\<lambda>_. Some (Claim_str (py ''x'')))),
     tw_callback = \<lparr>cw_can_listen = (\<lambda>_ _. True), cw_started = 0, cw_clock = (\<lambda>_. 0),
        cw_arrivals = (\<lambda>i. if i = 1 then Get (py ''/callback?state=AAAA&code=c'') else Nobody), cw_rounds = 5\<rparr>\<rparr>"

lemma urlencode_ascii:
  assumes "\<forall>(k, v) \<in> set kvs. list_all (\<lambda>c. c < 128) k \<and> list_all (\<lambda>c. c < 128) v"
  shows "\<exists>q. urlencode kvs = Some q"
proof -
  have "\<exists>ps. quoted_pairs kvs = Some ps"
    using assms
  proof (induction kvs)
    case (Cons kv kvs)
    obtain k v where kv: "kv = (k, v)" by (cases kv)
    then have "list_all (\<lambda>c. c < 128) k" "list_all (\<lambda>c. c < 128) v" "\<exists>ps. quoted_pairs kvs = Some ps" using Cons by auto
    then show ?case using kv utf8_codes_ascii by (auto simp: quote_plus_def)
  qed simp
  then show ?thesis by (auto simp: urlencode_def)
qed

lemma readable_ascii: "list_all (\<lambda>c. c < 128) s \<Longrightarrow> readable (\<lambda>bs. bs) s"
  unfolding readable_def using utf8_codes_ascii by (auto elim!: list.pred_mono_strong)

lemma sample_secrets: "token_urlsafe [0, 0, 0] = py ''AAAA''" "token_urlsafe [255, 255, 255] = py ''____''"
  by (simp_all add: token_urlsafe_def b64_char_def rstrip_char_def py_def)

lemma sample_parameters: "c \<in> set k \<or> c \<in> set v \<Longrightarrow>
  (k, v) \<in> set (authorization_parameters sample_dev_settings (py ''AAAA'') (py ''AAAA'')) \<Longrightarrow> c < 128"
  unfolding authorization_parameters_def sample_dev_settings_def py_def by auto

lemma sample_callback:
  "values_of (\<lambda>bs. bs) (py ''state=AAAA&code=c'') (py ''state'') = [py ''AAAA'']"
  "values_of (\<lambda>bs. bs) (py ''state=AAAA&code=c'') (py ''error'') = []"
  "values_of (\<lambda>bs. bs) (py ''state=AAAA&code=c'') (py ''code'') = [py ''c'']"
  by (simp_all add: values_of_def parse_qsl_def parse_pair_def unquote_def plus_to_blank_def py_def)

lemma sample_received:
  "receive_authorization_code ascii_db sample_rules (\<lambda>bs. bs) (tw_callback sample_token_world)
     (py ''http://127.0.0.1:8765/callback'') (py ''AAAA'') 180 = Some (Inr (py ''c''))"
proof -
  define p where "p = \<lparr>us_scheme = py ''http'', us_netloc = py ''127.0.0.1:8765'', us_path = py ''/callback'', us_query = [], us_fragment = []\<rparr>"
  have h: "hostname ascii_db p = Some (py ''127.0.0.1'')"
    by (simp add: p_def hostname_def host_and_port_def host_part_def before_char_def Let_def py_def lower_ascii ascii_lower_def)
  have o: "port_of p = Some (Some 8765)"
    by (simp add: p_def port_of_def host_and_port_def host_part_def before_char_def after_char_def Let_def py_def decimal_value_def)
  have v: "validate_callback_query (\<lambda>bs. bs) (py ''state=AAAA&code=c'') (py ''AAAA'') = Inr (py ''c'')"
    unfolding validate_callback_query_def sample_callback Let_def by (simp add: compare_digest_def) (simp add: py_def)
  define server where "server = \<lparr>cs_expected_path = py ''/callback'', cs_expected_state = py ''AAAA'', cs_code = None, cs_error = None\<rparr>"
  have g: "snd (do_GET sample_rules (\<lambda>bs. bs) (py ''/callback?state=AAAA&code=c'') server) = server\<lparr>cs_code := Some (py ''c'')\<rparr>"
    by (simp add: do_GET_def sample_splits server_def v)
  have w: "await_callback 5 sample_rules (\<lambda>bs. bs) (\<lambda>_. 0)
      (\<lambda>i. if i = 1 then Get (py ''/callback?state=AAAA&code=c'') else Nobody) 180 0 server = Some (Inr (py ''c''))"
    using g by (simp add: numeral_eq_Suc server_def callback_outcome_def)
  have n: "callback_path p = py ''/callback''" by (simp add: callback_path_def p_def) (simp add: py_def)
  show ?thesis
    using h o n w unfolding receive_authorization_code_def sample_splits [folded p_def]
    by (simp add: is_loopback_host_def sample_token_world_def server_def) (simp add: p_def)
qed

lemma sample_obtained:
  "obtain_dev_token ascii_db sample_rules (\<lambda>bs. bs) sample_token_world sample_dev_settings = Some (Inr (py ''a.b.c''))"
proof -
  have n: "normalized_issuer sample_dev_settings = py ''http://localhost:8080''"
    by (simp add: normalized_issuer_def sample_dev_settings_def rstrip_char_def py_def)
  have d: "fetch_discovery sample_rules (tw_get sample_token_world) (py ''http://localhost:8080'') = Inr sample_discovery"
    by (simp add: fetch_discovery_def sample_token_world_def is_success_def sample_from_document)
  have c: "create_pkce_pair (tw_sha256 sample_token_world) (tw_verifier_bytes sample_token_world) = (py ''____'', py ''AAAA'')"
    using sample_secrets unfolding create_pkce_pair_def token_urlsafe_def by (simp add: sample_token_world_def)
  have s: "token_urlsafe (tw_state_bytes sample_token_world) = py ''AAAA''" using sample_secrets by (simp add: sample_token_world_def)
  obtain q where "urlencode (authorization_parameters sample_dev_settings (py ''AAAA'') (py ''AAAA'')) = Some q"
    using urlencode_ascii sample_parameters by (fastforce simp: list_all_iff)
  then have b: "\<exists>url. build_authorization_url sample_rules (\<lambda>bs. bs) sample_discovery sample_dev_settings (py ''AAAA'') (py ''AAAA'') = Inr url"
    by (simp add: build_authorization_url_def sample_discovery_def sample_splits parse_qsl_def)
  have r: "receive_authorization_code ascii_db sample_rules (\<lambda>bs. bs) (tw_callback sample_token_world)
     (dt_redirect_uri sample_dev_settings) (py ''AAAA'') (dt_callback_timeout sample_dev_settings) = Some (Inr (py ''c''))"
    using sample_received by (simp add: sample_dev_settings_def)
  have l: "lower ascii_db (py ''Bearer'') = py ''bearer''" by (subst lower_ascii) (simp_all add: py_def ascii_lower_def)
  have t: "strip (py '' a.b.c'') = py ''a.b.c''" "py ''a.b.c'' \<noteq> []" "count_list (py ''a.b.c'') 46 = 2" "strip (py ''a.b.c'') = py ''a.b.c''"
    "py ''access_token'' \<noteq> py ''token_type''" by (simp_all add: py_def strip_def is_space_def)
  have e: "exchange_authorization_code ascii_db (tw_post sample_token_world) sample_discovery sample_dev_settings (py ''c'') (py ''____'') = Inr (py ''a.b.c'')"
    using t l by (simp add: exchange_authorization_code_def sample_token_world_def is_success_def)
  have x: "strip (py ''x'') \<noteq> []" by (simp add: py_def strip_def is_space_def)
  have v: "validate_access_token (tw_header sample_token_world) (oidc_factory ascii_db (tw_verify sample_token_world)) (py ''a.b.c'') sample_discovery
      (dt_project_id sample_dev_settings) = Inr ()"
    using t bearer_of_token [OF t(4) t(2)] x
    by (simp add: validate_access_token_def sample_token_world_def oidc_factory_def oidc_authenticate_def claim_text_def)
  show ?thesis using n d c s b r e v by (auto simp: obtain_dev_token_def Let_def)
qed

section \<open>Failures and the end of the wait\<close>

definition named_error :: "token_exn \<Rightarrow> bool" where
  "named_error e \<longleftrightarrow> safe_error e \<or> e \<in> {Malformed_url, Unencodable, Invalid_url}"

lemma named_simps [simp]:
  "named_error (DevTokenError m)" "named_error Malformed_url" "named_error Unencodable" "named_error Invalid_url"
  "fail t = Inl e \<Longrightarrow> named_error e"
  by (auto simp: named_error_def fail_def)

lemma named_safe: "safe_error e \<Longrightarrow> named_error e"
  by (simp add: named_error_def)

lemma required_url_Inl: "required_url r doc name = Inl e \<Longrightarrow> named_error e"
  unfolding required_url_def by (auto split: option.splits json.splits if_splits)

lemma from_document_Inl: "from_document r doc issuer = Inl e \<Longrightarrow> named_error e"
  unfolding from_document_def
  by (auto simp: bindE_eq_Inl dest: required_url_Inl split: if_splits)

lemma fetch_discovery_Inl: "fetch_discovery r http_get issuer = Inl e \<Longrightarrow> named_error e"
  unfolding fetch_discovery_def
  by (auto dest: from_document_Inl split: client_reply.splits option.splits json.splits if_splits)

lemma build_authorization_url_Inl: "build_authorization_url r decode d s state challenge = Inl e \<Longrightarrow> named_error e"
  unfolding build_authorization_url_def by (auto split: option.splits)

lemma exchange_Inl: "exchange_authorization_code u http_post d s code verifier = Inl e \<Longrightarrow> named_error e"
  unfolding exchange_authorization_code_def by (auto split: client_reply.splits option.splits json.splits if_splits)

lemma do_GET_error:
  assumes "cs_error (snd (do_GET r decode path server)) = Some e"
  shows "cs_error server = Some e \<or> named_error e"
  by (cases rule: do_GET_cases [of r decode path server]) (use assms in auto)

lemma await_Inl:
  "await_callback rounds r decode clock arrivals deadline i server = Some (Inl e) \<Longrightarrow>
   (\<forall>e'. cs_error server = Some e' \<longrightarrow> named_error e') \<Longrightarrow> named_error e"
proof (induction rounds arbitrary: i server)
  case (Suc rounds)
  show ?case
  proof (cases "unsettled server")
    case False
    then show ?thesis using Suc.prems await_settled [OF False, of "Suc rounds"]
      by (auto simp: callback_outcome_def split: option.splits)
  next
    case True
    show ?thesis
    proof (cases "deadline - clock i \<le> 0")
      case True
      then show ?thesis using Suc.prems \<open>unsettled server\<close> by (auto simp: unsettled_def)
    next
      case False
      then obtain server' where s: "handle_request r decode (arrivals i) server = Some server'"
        "await_callback rounds r decode clock arrivals deadline (Suc i) server' = Some (Inl e)"
        using Suc.prems(1) \<open>unsettled server\<close> by (auto simp: unsettled_def split: option.splits)
      have "named_error e'" if "cs_error server' = Some e'" for e'
        using s(1) that Suc.prems(2) do_GET_error by (cases "arrivals i") (auto dest!: do_GET_error)
      then show ?thesis using Suc.IH [OF s(2)] by blast
    qed
  qed
qed simp

lemma receive_Inl: "receive_authorization_code u r decode w uri state timeout = Some (Inl e) \<Longrightarrow> named_error e"
  unfolding receive_authorization_code_def Let_def
  by (auto dest: await_Inl split: option.splits if_splits)

lemma obtain_Inl:
  assumes "obtain_dev_token u r decode w s = Some (Inl e)"
  shows "named_error e"
proof (cases "fetch_discovery r (tw_get w) (normalized_issuer s)")
  case (Inl e')
  then show ?thesis using assms fetch_discovery_Inl by (auto simp: obtain_dev_token_def)
next
  case (Inr d)
  obtain verifier challenge where c: "create_pkce_pair (tw_sha256 w) (tw_verifier_bytes w) = (verifier, challenge)" by force
  show ?thesis
  proof (cases "build_authorization_url r decode d s (token_urlsafe (tw_state_bytes w)) challenge")
    case (Inl e')
    then show ?thesis using assms Inr c build_authorization_url_Inl by (auto simp: obtain_dev_token_def Let_def)
  next
    case (Inr url)
    note rest = assms \<open>fetch_discovery r (tw_get w) (normalized_issuer s) = Inr d\<close> c Inr
    show ?thesis
      using rest receive_Inl exchange_Inl validate_Inl [THEN named_safe]
      by (auto simp: obtain_dev_token_def Let_def bindE_eq_Inl split: option.splits sum.splits)
  qed
qed

text \<open>When the listener waits at all.\<close>

definition listening :: "unicode_db \<Rightarrow> host_rules \<Rightarrow> callback_world \<Rightarrow> pystr \<Rightarrow> bool" where
  "listening u r w uri \<longleftrightarrow>
     (\<exists>redirect p. urlsplit r uri = Some redirect \<and> is_loopback_host (hostname u redirect) \<and>
        us_scheme redirect = py ''http'' \<and> port_of redirect = Some p) \<and> (\<forall>host port. cw_can_listen w host port)"

lemma await_ends:
  assumes "n < rounds" "deadline \<le> clock (i + n)" "\<forall>j < n. arrivals (i + j) \<noteq> Silent"
  shows "\<exists>x. await_callback rounds r decode clock arrivals deadline i server = Some x"
  using assms
proof (induction rounds arbitrary: i n server)
  case (Suc rounds)
  show ?case
  proof (cases "unsettled server \<and> clock i < deadline")
    case True
    then have n: "0 < n" using Suc.prems(2) by (cases n) auto
    then have "arrivals i \<noteq> Silent" using spec [OF Suc.prems(3), of 0] by simp
    then obtain server' where s: "handle_request r decode (arrivals i) server = Some server'" by (cases "arrivals i") auto
    have "arrivals (Suc i + j) \<noteq> Silent" if "j < n - 1" for j
      using spec [OF Suc.prems(3), of "Suc j"] that by simp
    moreover have "Suc i + (n - 1) = i + n" "n - 1 < rounds" using n Suc.prems(1) by simp_all
    ultimately show ?thesis using Suc.IH [of "n - 1" "Suc i" server'] Suc.prems(2) True s by (simp add: unsettled_def)
  next
    case False
    then show ?thesis using await_settled [of server "Suc rounds"] by (cases "unsettled server") (auto simp: unsettled_def)
  qed
qed simp

section \<open>Correctness\<close>

text \<open>C31: A token that is printed is a good one. The discovery document named the configured issuer and
  offered PKCE with S256; the code came in a GET to the path of the redirect URI on a loopback host,
  before the deadline, whose query has the state of this run exactly once, no error and this one code; it
  was exchanged at the token endpoint of that document together with the verifier of this run, in a
  response that calls the token a bearer token; the token has the form of a JWT signed with RS256 and its
  signature, issuer and audience were verified with the keys of that document.\<close>

theorem obtained_token_valid:
  assumes "obtain_dev_token u r decode w s = Some (Inr token)"
  shows "\<exists>d document redirect i path code status answer t kind h claims.
      from_document r document (normalized_issuer s) = Inr d \<and> di_issuer d = normalized_issuer s \<and>
      string_list_contains (map_of document (py ''code_challenge_methods_supported'')) (py ''S256'') \<and>
      urlsplit r (dt_redirect_uri s) = Some redirect \<and> is_loopback_host (hostname u redirect) \<and>
      cw_clock (tw_callback w) i < cw_started (tw_callback w) + of_int (dt_callback_timeout s) \<and>
      cw_arrivals (tw_callback w) i = Get path \<and>
      accepted_request r decode (callback_path redirect) (token_urlsafe (tw_state_bytes w)) path code \<and>
      tw_post w (di_token_endpoint d) (token_request s code (token_urlsafe (tw_verifier_bytes w))) =
        Answer status (Some (JDict answer)) \<and> is_success status \<and>
      map_of answer (py ''access_token'') = Some (JStr t) \<and> token = strip t \<and> token \<noteq> [] \<and>
      map_of answer (py ''token_type'') = Some (JStr kind) \<and> lower u kind = py ''bearer'' \<and>
      count_list token 46 = 2 \<and> tw_header w token = Some h \<and> map_of h (py ''alg'') = Some (JStr (py ''RS256'')) \<and>
      tw_verify w (normalized_issuer s) (dt_project_id s) (di_jwks_uri d) token = Inr claims"
proof -
  obtain d url code where o: "fetch_discovery r (tw_get w) (normalized_issuer s) = Inr d"
    "receive_authorization_code u r decode (tw_callback w) (dt_redirect_uri s) (token_urlsafe (tw_state_bytes w)) (dt_callback_timeout s) = Some (Inr code)"
    "exchange_authorization_code u (tw_post w) d s code (token_urlsafe (tw_verifier_bytes w)) = Inr token"
    "validate_access_token (tw_header w) (oidc_factory u (tw_verify w)) token d (dt_project_id s) = Inr ()"
    using obtain_Inr [OF assms] by metis
  obtain document where doc: "from_document r document (normalized_issuer s) = Inr d"
    using fetch_discovery_Inr [OF o(1)] by metis
  note f = from_document_Inr [OF doc] and c = receive_Inr [OF o(2)] and e = exchange_Inr [OF o(3)]
  have t: "strip token = token" "token \<noteq> []" using e by auto
  note v = validate_Inr [OF o(4) t]
  from c obtain redirect i path where c': "urlsplit r (dt_redirect_uri s) = Some redirect" "is_loopback_host (hostname u redirect)"
    "cw_clock (tw_callback w) i < cw_started (tw_callback w) + of_int (dt_callback_timeout s)" "cw_arrivals (tw_callback w) i = Get path"
    "accepted_request r decode (callback_path redirect) (token_urlsafe (tw_state_bytes w)) path code" by blast
  from e obtain status answer t kind where e':
    "tw_post w (di_token_endpoint d) (token_request s code (token_urlsafe (tw_verifier_bytes w))) = Answer status (Some (JDict answer))"
    "is_success status" "map_of answer (py ''access_token'') = Some (JStr t)" "token = strip t" "token \<noteq> []"
    "map_of answer (py ''token_type'') = Some (JStr kind)" "lower u kind = py ''bearer''" by blast
  from v f obtain h claims where v': "count_list token 46 = 2" "tw_header w token = Some h"
    "map_of h (py ''alg'') = Some (JStr (py ''RS256''))" "tw_verify w (normalized_issuer s) (dt_project_id s) (di_jwks_uri d) token = Inr claims"
    by auto
  show ?thesis
    by (rule exI [of _ d], rule exI [of _ document], rule exI [of _ redirect], rule exI [of _ i], rule exI [of _ path],
        rule exI [of _ code], rule exI [of _ status], rule exI [of _ answer], rule exI [of _ t], rule exI [of _ kind],
        rule exI [of _ h], rule exI [of _ claims])
      (use doc f c' e' v' in simp)
qed

theorem obtained_token_valid_witness:
  "\<exists>redirect code. accepted_request sample_rules (\<lambda>bs. bs) (callback_path redirect) (token_urlsafe [0, 0, 0])
     (py ''/callback?state=AAAA&code=c'') code"
proof -
  obtain redirect i path code where "cw_arrivals (tw_callback sample_token_world) i = Get path"
    "accepted_request sample_rules (\<lambda>bs. bs) (callback_path redirect) (token_urlsafe (tw_state_bytes sample_token_world)) path code"
    using obtained_token_valid [OF sample_obtained] by blast
  then show ?thesis by (auto simp: sample_token_world_def split: if_splits)
qed

text \<open>The authorization URL says what was meant. Split and parsed as \<open>urllib\<close> does it, it is the
  endpoint of the discovery document, without a fragment, whose query has the parameters of the endpoint
  followed by those of this request, among them the state and the challenge, character by character,
  whatever the client id, the redirect URI and the login hint contain.\<close>

lemma authorization_url_carries:
  assumes "from_document r document issuer = Inr d"
    and "urlsplit r (di_authorization_endpoint d) = Some endpoint"
    and "build_authorization_url r decode d s state challenge = Inr url"
    and "\<forall>(k, v) \<in> set (parse_qsl decode (us_query endpoint) @ authorization_parameters s state challenge).
           readable decode k \<and> readable decode v"
  shows "\<exists>query. urlsplit r url = Some (endpoint\<lparr>us_query := query\<rparr>) \<and> us_fragment endpoint = [] \<and>
    parse_qsl decode query = parse_qsl decode (us_query endpoint) @ authorization_parameters s state challenge"
proof -
  obtain query where q: "urlencode (parse_qsl decode (us_query endpoint) @ authorization_parameters s state challenge) = Some query"
    "url = urlunsplit (endpoint\<lparr>us_query := query\<rparr>)"
    using assms(2,3) by (auto simp: build_authorization_url_def split: option.splits)
  have "required_url r document ''authorization_endpoint'' = Inr (di_authorization_endpoint d)"
    using from_document_Inr [OF assms(1)] by blast
  then obtain t p where p: "urlsplit r t = Some p" "us_scheme p \<in> {py ''http'', py ''https''}" "us_netloc p \<noteq> []"
    "us_fragment p = []" "di_authorization_endpoint d = t" by (rule required_url_Inr) simp
  then have "endpoint = p" using assms(2) by simp
  moreover have "us_scheme p \<noteq> []" using p(2) by (auto simp: py_def)
  ultimately have e: "us_scheme endpoint \<noteq> []" "us_netloc endpoint \<noteq> []" "us_fragment endpoint = []" using p by simp_all
  have "35 \<notin> set query \<and> safe query"
    using urlencode_visible [OF q(1)] by (fastforce simp: safe_def list_all_iff unsafe_char_def)
  then have "split_ok r (endpoint\<lparr>us_query := query\<rparr>)" using urlsplit_ok [OF assms(2)] by (simp add: split_ok_def)
  then have "urlsplit r url = Some (endpoint\<lparr>us_query := query\<rparr>)" using urlsplit_urlunsplit e q(2) by simp
  then show ?thesis using e(3) parse_urlencode [OF assms(4) q(1)] by blast
qed

text \<open>C32: The wait for the browser ends: once a round reads the deadline, the listener has returned, whatever
  was requested in the meantime. This rests on every peer that connects sending its request. The listener
  gives its connections no timeout, so a first peer that connects in time and stays silent blocks it for
  ever, deadline or not.\<close>

theorem callback_wait_ends:
  assumes "n < cw_rounds w" "cw_started w + of_int timeout \<le> cw_clock w n" "\<forall>j < n. cw_arrivals w j \<noteq> Silent"
  shows "(\<exists>x. receive_authorization_code u r decode w uri state timeout = Some x) \<and>
    (listening u r w uri \<and> cw_clock w 0 < cw_started w + of_int timeout \<longrightarrow>
      receive_authorization_code u r decode (w\<lparr>cw_arrivals := (cw_arrivals w)(0 := Silent), cw_rounds := rounds\<rparr>)
        uri state timeout = None)"
proof
  show "\<exists>x. receive_authorization_code u r decode w uri state timeout = Some x"
    using await_ends [of n "cw_rounds w" _ "cw_clock w" 0 "cw_arrivals w"] assms
    unfolding receive_authorization_code_def Let_def by (simp split: option.splits)
  show "listening u r w uri \<and> cw_clock w 0 < cw_started w + of_int timeout \<longrightarrow>
      receive_authorization_code u r decode (w\<lparr>cw_arrivals := (cw_arrivals w)(0 := Silent), cw_rounds := rounds\<rparr>)
        uri state timeout = None"
    by (cases rounds) (auto simp: listening_def receive_authorization_code_def Let_def split: option.splits)
qed

theorem callback_wait_ends_witness:
  "\<exists>x. receive_authorization_code ascii_db sample_rules (\<lambda>bs. bs)
     (tw_callback sample_token_world\<lparr>cw_clock := (\<lambda>i. of_nat i * 90), cw_arrivals := (\<lambda>_. Refused_request)\<rparr>)
     (py ''http://127.0.0.1:8765/callback'') (py ''AAAA'') 180 = Some x"
  using callback_wait_ends [of 2 "tw_callback sample_token_world\<lparr>cw_clock := (\<lambda>i. of_nat i * 90), cw_arrivals := (\<lambda>_. Refused_request)\<rparr>"
    180 ascii_db sample_rules "\<lambda>bs. bs" "py ''http://127.0.0.1:8765/callback''" "py ''AAAA''" 0]
  by (simp add: sample_token_world_def)

text \<open>C33: What the command does. It prints a token only with status 0, and only one it obtained; status 2 says
  that the settings were refused, status 1 that the token was not obtained, with a message. No other
  exception of the flow ends the process than a URL that cannot be split, text that cannot be encoded and
  a URL the HTTP client refuses. These do end it: a discovery document whose authorization endpoint is
  \<open>http://[\<close> gives a traceback.\<close>

theorem token_main_outcome:
  "(case token_main u r decode w e of
      None \<Rightarrow> True
    | Some (Traceback x) \<Rightarrow> x \<in> {Malformed_url, Unencodable, Invalid_url}
    | Some (Exit status out message) \<Rightarrow>
        (case make_dev_token_settings u r e of
           Inl errors \<Rightarrow> status = 2 \<and> out = None \<and> message = settings_complaint errors
         | Inr s \<Rightarrow>
             (case obtain_dev_token u r decode w s of
                Some (Inr token) \<Rightarrow> status = 0 \<and> out = Some token \<and> message = []
              | Some (Inl (DevTokenError m)) \<Rightarrow> status = 1 \<and> out = None
              | _ \<Rightarrow> False))) \<and>
   token_main ascii_db sample_rules decode
     (w\<lparr>tw_get := \<lambda>_. Answer 200 (Some (JDict (sample_metadata (py ''http://[''))))\<rparr>) sample_dev_environment =
     Some (Traceback Malformed_url)"
proof
  show "case token_main u r decode w e of
      None \<Rightarrow> True
    | Some (Traceback x) \<Rightarrow> x \<in> {Malformed_url, Unencodable, Invalid_url}
    | Some (Exit status out message) \<Rightarrow>
        (case make_dev_token_settings u r e of
           Inl errors \<Rightarrow> status = 2 \<and> out = None \<and> message = settings_complaint errors
         | Inr s \<Rightarrow>
             (case obtain_dev_token u r decode w s of
                Some (Inr token) \<Rightarrow> status = 0 \<and> out = Some token \<and> message = []
              | Some (Inl (DevTokenError m)) \<Rightarrow> status = 1 \<and> out = None
              | _ \<Rightarrow> False))"
  proof (cases "make_dev_token_settings u r e")
    case (Inr s)
    show ?thesis
    proof (cases "obtain_dev_token u r decode w s")
      case (Some x)
      show ?thesis
      proof (cases x)
        case (Inl err)
        then have "named_error err" using obtain_Inl Some by blast
        then show ?thesis using Inr Some Inl by (cases err) (simp_all add: token_main_def named_error_def)
      qed (use Inr Some in \<open>simp add: token_main_def\<close>)
    qed (use Inr in \<open>simp add: token_main_def\<close>)
  qed (simp add: token_main_def)
  have n: "normalized_issuer sample_dev_settings = py ''http://localhost:8080''"
    by (simp add: normalized_issuer_def sample_dev_settings_def rstrip_char_def py_def)
  show "token_main ascii_db sample_rules decode
     (w\<lparr>tw_get := \<lambda>_. Answer 200 (Some (JDict (sample_metadata (py ''http://[''))))\<rparr>) sample_dev_environment =
     Some (Traceback Malformed_url)"
    by (simp add: token_main_def sample_accepted obtain_dev_token_def fetch_discovery_def is_success_def n sample_from_document)
qed

end
