(* ===== verification/Dev_Upload.thy ===== *)
theory Dev_Upload
  imports Dev_Token Processing
begin

text \<open>
  \<^verbatim>\<open>dev_pdf_upload.py\<close>: how a developer uploads one PDF through the API. A run is a list of requests, each
  answered by a server that has seen the requests before it. The file, its digest, the identifier of the
  operation, the clock and the server are parameters.
\<close>

section \<open>Requests\<close>

text \<open>\<open>DevPDFUploadError\<close> with its message; what \<open>main\<close> does not catch: \<open>ValueError\<close> of \<open>urlsplit\<close>,
  \<open>httpx.InvalidURL\<close>, the \<open>TypeError\<close> of an unhashable state and the \<open>ValidationError\<close> of the settings.
  \<open>Unfinished\<close> is no exception: the loop has not ended within the rounds of the model.\<close>

datatype upload_exn =
    DevPDFUploadError pystr
  | Bad_base_url
  | Bad_request_url
  | Unhashable_state
  | Bad_settings
  | Token_error token_exn
  | Unfinished

datatype sent =
    Api string pystr "(pystr \<times> pystr) list" "json option"
  | Put_object pystr "(pystr \<times> pystr) list" bytes

type_synonym server = "sent list \<Rightarrow> client_reply"

type_synonym 'a client_run = "sent list \<Rightarrow> (upload_exn, 'a) result \<times> sent list"

type_synonym members = "(pystr \<times> json) list"

definition bindS :: "'a client_run \<Rightarrow> ('a \<Rightarrow> 'b client_run) \<Rightarrow> 'b client_run" where
  "bindS m f h = (case m h of (Inl e, h') \<Rightarrow> (Inl e, h') | (Inr x, h') \<Rightarrow> f x h')"

definition liftS :: "(upload_exn, 'a) result \<Rightarrow> 'a client_run" where
  "liftS x h = (x, h)"

definition complain :: "pystr \<Rightarrow> (upload_exn, 'a) result" where
  "complain message = Inl (DevPDFUploadError message)"

text \<open>\<open>re.fullmatch(r"[a-z0-9_-]{1,100}", value)\<close>.\<close>

definition error_code_text :: "pystr \<Rightarrow> bool" where
  "error_code_text s \<longleftrightarrow> 1 \<le> length s \<and> length s \<le> 100 \<and>
     list_all (\<lambda>c. (97 \<le> c \<and> c \<le> 122) \<or> (48 \<le> c \<and> c \<le> 57) \<or> c = 95 \<or> c = 45) s"

definition safe_api_error_code :: "json option \<Rightarrow> pystr option" where
  "safe_api_error_code body =
     (case body of
        Some (JDict document) \<Rightarrow>
          (case map_of document (py ''code'') of
             Some (JStr v) \<Rightarrow> if error_code_text v then Some v else None
           | _ \<Rightarrow> None)
      | _ \<Rightarrow> None)"

definition read_reply :: "string \<Rightarrow> client_reply \<Rightarrow> (upload_exn, members) result" where
  "read_reply operation reply =
     (case reply of
        Refused_url \<Rightarrow> Inl Bad_request_url
      | Transport_error \<Rightarrow> complain (py ''Could not '' @ py operation @ py '': the service is unavailable.'')
      | Answer status body \<Rightarrow>
          if \<not> is_success status
          then complain (py ''Could not '' @ py operation @ py '': HTTP '' @ dec_int status @
                 (case safe_api_error_code body of None \<Rightarrow> [] | Some c \<Rightarrow> py '', code='' @ c) @ py ''.'')
          else (case body of
                  None \<Rightarrow> complain (py ''Could not '' @ py operation @ py '': the response was not JSON.'')
                | Some (JDict document) \<Rightarrow> Inr document
                | Some _ \<Rightarrow> complain (py ''Could not '' @ py operation @ py '': the response was not a JSON object.'')))"

definition request_json :: "server \<Rightarrow> string \<Rightarrow> sent \<Rightarrow> members client_run" where
  "request_json server operation request h = (read_reply operation (server (h @ [request])), h @ [request])"

definition put_pdf :: "server \<Rightarrow> pystr \<Rightarrow> (pystr \<times> pystr) list \<Rightarrow> bytes \<Rightarrow> unit client_run" where
  "put_pdf server url headers content h =
     ((case server (h @ [Put_object url headers content]) of
         Refused_url \<Rightarrow> Inl Bad_request_url
       | Transport_error \<Rightarrow> complain (py ''Could not upload the PDF to object storage.'')
       | Answer status body \<Rightarrow>
           if is_success status then Inr ()
           else complain (py ''Could not upload the PDF to object storage: HTTP '' @ dec_int status @ py ''.'')),
      h @ [Put_object url headers content])"

definition missing :: "string \<Rightarrow> string \<Rightarrow> (upload_exn, 'a) result" where
  "missing source name = complain (py ''The '' @ py source @ py '' did not contain '' @ py name @ py ''.'')"

definition required_string :: "members \<Rightarrow> string \<Rightarrow> string \<Rightarrow> (upload_exn, pystr) result" where
  "required_string document name source =
     (case map_of document (py name) of
        Some (JStr v) \<Rightarrow> if v = [] then missing source name else Inr v
      | _ \<Rightarrow> missing source name)"

text \<open>A \<open>bool\<close> is an \<open>int\<close>.\<close>

definition required_integer :: "members \<Rightarrow> string \<Rightarrow> string \<Rightarrow> (upload_exn, json) result" where
  "required_integer document name source =
     (case map_of document (py name) of
        Some v \<Rightarrow> if is_int v then Inr v else missing source name
      | None \<Rightarrow> missing source name)"

fun header_pair :: "pystr \<times> json \<Rightarrow> (pystr \<times> pystr) option" where
  "header_pair (k, JStr v) = Some (k, v)"
| "header_pair _ = None"

definition upload_headers :: "members \<Rightarrow> (upload_exn, (pystr \<times> pystr) list) result" where
  "upload_headers document =
     (case map_of document (py ''headers'') of
        Some (JDict hs) \<Rightarrow>
          if list_all (\<lambda>kv. header_pair kv \<noteq> None) hs then Inr (map (\<lambda>kv. the (header_pair kv)) hs)
          else complain (py ''The upload response did not contain valid signed headers.'')
      | _ \<Rightarrow> complain (py ''The upload response did not contain valid signed headers.''))"

section \<open>One upload\<close>

record upload_job =
  uj_name :: pystr
  uj_bytes :: bytes
  uj_sha256 :: pystr
  uj_title :: pystr
  uj_base :: pystr
  uj_token :: pystr
  uj_activate :: bool
  uj_operation :: pystr

definition authorization :: "upload_job \<Rightarrow> pystr \<times> pystr" where
  "authorization j = (py ''Authorization'', py ''Bearer '' @ uj_token j)"

definition course_request :: "upload_job \<Rightarrow> sent" where
  "course_request j =
     Api ''POST'' (uj_base j @ py ''/api/v1/courses'') [authorization j] (Some (JDict [(py ''title'', JStr (uj_title j))]))"

definition upload_request :: "upload_job \<Rightarrow> pystr \<Rightarrow> sent" where
  "upload_request j course =
     Api ''POST'' (uj_base j @ py ''/api/v1/courses/'' @ course @ py ''/documents/uploads'')
       [authorization j, (py ''Idempotency-Key'', py ''dev-upload-'' @ uj_operation j)]
       (Some (JDict [(py ''filename'', JStr (uj_name j)), (py ''size_bytes'', JInt (int (length (uj_bytes j)))),
          (py ''sha256'', JStr (uj_sha256 j)), (py ''content_type'', JStr (py ''application/pdf''))]))"

definition version_url :: "upload_job \<Rightarrow> pystr \<Rightarrow> pystr \<Rightarrow> pystr \<Rightarrow> pystr" where
  "version_url j course document version =
     uj_base j @ py ''/api/v1/courses/'' @ course @ py ''/documents/'' @ document @ py ''/versions/'' @ version"

definition complete_request :: "upload_job \<Rightarrow> pystr \<Rightarrow> pystr \<Rightarrow> pystr \<Rightarrow> sent" where
  "complete_request j course document version =
     Api ''POST'' (version_url j course document version @ py ''/complete'')
       [authorization j, (py ''Idempotency-Key'', py ''dev-complete-'' @ uj_operation j)] None"

definition observe_request :: "upload_job \<Rightarrow> pystr \<Rightarrow> pystr \<Rightarrow> pystr \<Rightarrow> sent" where
  "observe_request j course document version =
     Api ''GET'' (version_url j course document version) [authorization j] None"

definition activate_request :: "upload_job \<Rightarrow> pystr \<Rightarrow> pystr \<Rightarrow> json \<Rightarrow> sent" where
  "activate_request j course corpus course_version =
     Api ''POST'' (uj_base j @ py ''/api/v1/courses/'' @ course @ py ''/corpus/activate'') [authorization j]
       (Some (JDict [(py ''corpus_version_id'', JStr corpus), (py ''expected_course_version'', course_version)]))"

text \<open>\<open>state in {"QUEUED", "PROCESSING"}\<close>: looking up a list or an object raises \<open>TypeError\<close>.\<close>

definition in_progress :: "members \<Rightarrow> (upload_exn, bool) result" where
  "in_progress document =
     (case map_of document (py ''state'') of
        Some (JList _) \<Rightarrow> Inl Unhashable_state
      | Some (JDict _) \<Rightarrow> Inl Unhashable_state
      | v \<Rightarrow> Inr (v = Some (JStr (py ''QUEUED'')) \<or> v = Some (JStr (py ''PROCESSING''))))"

definition still_pending :: "pystr \<Rightarrow> pystr \<Rightarrow> pystr \<Rightarrow> pystr" where
  "still_pending course document version =
     py ''Ingestion is still pending. Query course '' @ course @ py '', document '' @ document @ py '', version '' @ version @
     py ''; do not upload again. Check the worker.''"

text \<open>\<open>clock i\<close> is what round \<open>i\<close> reads.\<close>

primrec observe_ingestion ::
  "nat \<Rightarrow> server \<Rightarrow> (nat \<Rightarrow> rat) \<Rightarrow> rat \<Rightarrow> upload_job \<Rightarrow> pystr \<Rightarrow> pystr \<Rightarrow> pystr \<Rightarrow> nat \<Rightarrow> members \<Rightarrow> members client_run" where
  "observe_ingestion 0 server clock deadline j course document version i completed = liftS (Inl Unfinished)"
| "observe_ingestion (Suc rounds) server clock deadline j course document version i completed =
     bindS (liftS (in_progress completed)) (\<lambda>waiting.
       if \<not> waiting then liftS (Inr completed)
       else if clock i \<ge> deadline then liftS (complain (still_pending course document version))
       else bindS (request_json server ''observe ingestion'' (observe_request j course document version))
              (observe_ingestion rounds server clock deadline j course document version (Suc i)))"

definition member_or_null :: "members \<Rightarrow> string \<Rightarrow> json" where
  "member_or_null document name = (case map_of document (py name) of None \<Rightarrow> JNull | Some v \<Rightarrow> v)"

record upload_outcome =
  uo_course :: pystr
  uo_document :: pystr
  uo_version :: pystr
  uo_state :: pystr
  uo_failure_code :: json
  uo_page_count :: json
  uo_chunk_count :: json
  uo_corpus :: json
  uo_active_corpus :: json

definition activate_corpus_if ::
  "server \<Rightarrow> upload_job \<Rightarrow> pystr \<Rightarrow> json \<Rightarrow> pystr \<Rightarrow> members \<Rightarrow> json client_run" where
  "activate_corpus_if server j course course_version state completed =
     (case map_of completed (py ''corpus_version_id'') of
        Some (JStr corpus) \<Rightarrow>
          if uj_activate j \<and> state = py ''INDEXED''
          then bindS (request_json server ''activate corpus'' (activate_request j course corpus course_version))
                 (\<lambda>activation. liftS (Inr (member_or_null activation ''active_corpus_version_id'')))
          else liftS (Inr JNull)
      | _ \<Rightarrow> liftS (Inr JNull))"

definition upload_pdf :: "nat \<Rightarrow> server \<Rightarrow> rat \<Rightarrow> (nat \<Rightarrow> rat) \<Rightarrow> upload_job \<Rightarrow> upload_outcome client_run" where
  "upload_pdf rounds server started clock j =
     bindS (request_json server ''create course'' (course_request j)) (\<lambda>course.
     bindS (liftS (required_string course ''id'' ''course response'')) (\<lambda>course_id.
     bindS (liftS (required_integer course ''version'' ''course response'')) (\<lambda>course_version.
     bindS (request_json server ''create upload authorization'' (upload_request j course_id)) (\<lambda>upload.
     bindS (liftS (required_string upload ''document_id'' ''upload response'')) (\<lambda>document_id.
     bindS (liftS (required_string upload ''version_id'' ''upload response'')) (\<lambda>version_id.
     bindS (liftS (required_string upload ''upload_url'' ''upload response'')) (\<lambda>upload_url.
     bindS (liftS (upload_headers upload)) (\<lambda>headers.
     bindS (put_pdf server upload_url headers (uj_bytes j)) (\<lambda>_.
     bindS (request_json server ''complete upload'' (complete_request j course_id document_id version_id)) (\<lambda>completed.
     bindS (observe_ingestion rounds server clock (started + 600) j course_id document_id version_id 0 completed) (\<lambda>completed.
     bindS (liftS (required_string completed ''state'' ''completion response'')) (\<lambda>state.
     bindS (activate_corpus_if server j course_id course_version state completed) (\<lambda>active.
       liftS (Inr \<lparr>uo_course = course_id, uo_document = document_id, uo_version = version_id, uo_state = state,
         uo_failure_code = member_or_null completed ''failure_code'', uo_page_count = member_or_null completed ''page_count'',
         uo_chunk_count = member_or_null completed ''chunk_count'',
         uo_corpus = member_or_null completed ''corpus_version_id'', uo_active_corpus = active\<rparr>))))))))))))))"

section \<open>The command\<close>

record given_file =
  gf_path :: pystr
  gf_resolves :: bool
  gf_regular :: bool
  gf_name :: pystr
  gf_size :: nat
  gf_bytes :: bytes

text \<open>\<open>Path.suffix\<close>.\<close>

definition path_suffix :: "pystr \<Rightarrow> pystr" where
  "path_suffix name =
     (case rfind_char 46 name 0 (length name) of
        Some i \<Rightarrow> if 0 < i \<and> Suc i < length name then drop i name else []
      | None \<Rightarrow> [])"

definition validated_pdf_path :: "unicode_db \<Rightarrow> given_file \<Rightarrow> (upload_exn, unit) result" where
  "validated_pdf_path u f =
     (if \<not> gf_resolves f then complain (py ''PDF file not found: '' @ gf_path f)
      else if \<not> gf_regular f \<or> lower u (path_suffix (gf_name f)) \<noteq> py ''.pdf''
      then complain (py ''The input must be an existing .pdf file.'')
      else if gf_size f = 0 then complain (py ''The PDF file is empty.'')
      else Inr ())"

definition validated_base_url :: "unicode_db \<Rightarrow> host_rules \<Rightarrow> pystr \<Rightarrow> (upload_exn, pystr) result" where
  "validated_base_url u r base_url =
     (let normalized = rstrip_char 47 (strip base_url) in
      case urlsplit r normalized of
        None \<Rightarrow> Inl Bad_base_url
      | Some p \<Rightarrow>
          if us_scheme p \<notin> {py ''http'', py ''https''} \<or> us_netloc p = []
          then complain (py ''The API base URL must be an HTTP or HTTPS URL.'')
          else if us_scheme p = py ''http'' \<and> \<not> is_loopback_host (hostname u p)
          then complain (py ''Plain HTTP is allowed only for a loopback API base URL.'')
          else if extra_parts p
          then complain (py ''The API base URL must not contain credentials, query, or fragment.'')
          else Inr normalized)"

record upload_arguments =
  ua_file :: given_file
  ua_title :: pystr
  ua_base_url :: pystr
  ua_activate :: bool

record upload_world =
  uw_sha256 :: "bytes \<Rightarrow> pystr"
  uw_operation :: pystr
  uw_server :: server
  uw_started :: rat
  uw_clock :: "nat \<Rightarrow> rat"
  uw_rounds :: nat

definition upload_dev_pdf ::
  "unicode_db \<Rightarrow> host_rules \<Rightarrow> upload_world \<Rightarrow> upload_arguments \<Rightarrow> pystr \<Rightarrow> upload_outcome client_run" where
  "upload_dev_pdf u r w a access_token =
     bindS (liftS (validated_pdf_path u (ua_file a))) (\<lambda>_.
     bindS (liftS (validated_base_url u r (ua_base_url a))) (\<lambda>base.
       (let token = strip access_token in
        if token = [] \<or> list_ex is_space token
        then liftS (complain (py ''The access token is empty or malformed.''))
        else upload_pdf (uw_rounds w) (uw_server w) (uw_started w) (uw_clock w)
               \<lparr>uj_name = gf_name (ua_file a), uj_bytes = gf_bytes (ua_file a), uj_sha256 = uw_sha256 w (gf_bytes (ua_file a)),
                uj_title = ua_title a, uj_base = base, uj_token = token, uj_activate = ua_activate a,
                uj_operation = uw_operation w\<rparr>)))"

text \<open>A token of the environment, or a new one. The outer \<open>None\<close> is a flow that does not return.\<close>

definition access_token ::
  "unicode_db \<Rightarrow> host_rules \<Rightarrow> (nat list \<Rightarrow> pystr) \<Rightarrow> token_world \<Rightarrow> pystr \<Rightarrow> dev_environment \<Rightarrow>
   (upload_exn, pystr) result option" where
  "access_token u r decode tw existing e =
     (if strip existing \<noteq> [] then Some (Inr (strip existing))
      else (case make_dev_token_settings u r e of
              Inl errors \<Rightarrow> Some (Inl Bad_settings)
            | Inr s \<Rightarrow>
                (case obtain_dev_token u r decode tw s of
                   None \<Rightarrow> None
                 | Some (Inl x) \<Rightarrow> Some (Inl (Token_error x))
                 | Some (Inr token) \<Rightarrow> Some (Inr token))))"

datatype upload_process =
    Upload_exit int "upload_outcome option" pystr
  | Upload_traceback upload_exn

definition upload_failed :: "pystr \<Rightarrow> upload_process" where
  "upload_failed message = Upload_exit 1 None (py ''Development PDF upload failed: '' @ message)"

definition finish_upload :: "(upload_exn, upload_outcome) result \<Rightarrow> upload_process option" where
  "finish_upload x =
     (case x of
        Inr result \<Rightarrow> Some (Upload_exit (if uo_state result = py ''INDEXED'' then 0 else 1) (Some result) [])
      | Inl (DevPDFUploadError m) \<Rightarrow> Some (upload_failed m)
      | Inl (Token_error (DevTokenError m)) \<Rightarrow> Some (upload_failed m)
      | Inl Unfinished \<Rightarrow> None
      | Inl e \<Rightarrow> Some (Upload_traceback e))"

definition upload_main ::
  "unicode_db \<Rightarrow> host_rules \<Rightarrow> (nat list \<Rightarrow> pystr) \<Rightarrow> token_world \<Rightarrow> upload_world \<Rightarrow> pystr \<Rightarrow> dev_environment \<Rightarrow>
   upload_arguments \<Rightarrow> upload_process option" where
  "upload_main u r decode tw w existing e a =
     (case access_token u r decode tw existing e of
        None \<Rightarrow> None
      | Some (Inl x) \<Rightarrow> finish_upload (Inl x)
      | Some (Inr token) \<Rightarrow> finish_upload (fst (upload_dev_pdf u r w a token [])))"

section \<open>Which requests are sent\<close>

lemma bindS_wp:
  assumes "\<And>e h1. m h = (Inl e, h1) \<Longrightarrow> Q (Inl e) h1"
    and "\<And>y h1. m h = (Inr y, h1) \<Longrightarrow> case f y h1 of (x, h') \<Rightarrow> Q x h'"
  shows "case bindS m f h of (x, h') \<Rightarrow> Q x h'"
  using assms by (cases "m h"; cases "fst (m h)") (auto simp: bindS_def)

lemma bindS_lift_wp:
  assumes "\<And>e. m = Inl e \<Longrightarrow> Q (Inl e) h" and "\<And>y. m = Inr y \<Longrightarrow> case f y h of (x, h') \<Rightarrow> Q x h'"
  shows "case bindS (liftS m) f h of (x, h') \<Rightarrow> Q x h'"
  using assms by (intro bindS_wp) (auto simp: liftS_def)

lemma bindS_request_wp:
  assumes "\<And>e. Q (Inl e) (h @ [request])"
    and "\<And>y. read_reply operation (server (h @ [request])) = Inr y \<Longrightarrow> case f y (h @ [request]) of (x, h') \<Rightarrow> Q x h'"
  shows "case bindS (request_json server operation request) f h of (x, h') \<Rightarrow> Q x h'"
  using assms by (intro bindS_wp) (auto simp: request_json_def)

definition planned ::
  "upload_job \<Rightarrow> pystr \<Rightarrow> pystr \<Rightarrow> pystr \<Rightarrow> pystr \<Rightarrow> (pystr \<times> pystr) list \<Rightarrow> nat \<Rightarrow> sent list \<Rightarrow> sent list" where
  "planned j course document version url headers n activation =
     [course_request j, upload_request j course, Put_object url headers (uj_bytes j),
      complete_request j course document version] @
     replicate n (observe_request j course document version) @ activation"

definition activations :: "upload_job \<Rightarrow> pystr \<Rightarrow> sent list \<Rightarrow> bool" where
  "activations j course activation \<longleftrightarrow>
     activation = [] \<or> (uj_activate j \<and> (\<exists>corpus v. is_int v \<and> activation = [activate_request j course corpus v]))"

definition final_state :: "pystr \<Rightarrow> bool" where
  "final_state state \<longleftrightarrow> state \<noteq> [] \<and> state \<noteq> py ''QUEUED'' \<and> state \<noteq> py ''PROCESSING''"

definition reported :: "upload_job \<Rightarrow> (upload_exn, upload_outcome) result \<Rightarrow> sent list \<Rightarrow> bool" where
  "reported j x sent \<longleftrightarrow>
     (case x of
        Inl e \<Rightarrow> \<exists>course document version url headers n activation.
          prefix sent (planned j course document version url headers n activation) \<and> activations j course activation
      | Inr out \<Rightarrow> \<exists>url headers n activation.
          sent = planned j (uo_course out) (uo_document out) (uo_version out) url headers n activation \<and>
          activations j (uo_course out) activation \<and> final_state (uo_state out) \<and>
          (if activation = [] then uo_active_corpus out = JNull
           else uo_state out = py ''INDEXED'' \<and>
             (\<exists>corpus v. uo_corpus out = JStr corpus \<and> activation = [activate_request j (uo_course out) corpus v])))"

lemma reported_early:
  assumes "prefix sent (planned j course document version url headers n activation)" "activations j course activation"
  shows "reported j (Inl e) sent"
  unfolding reported_def sum.case
  by (rule exI [of _ course], rule exI [of _ document], rule exI [of _ version], rule exI [of _ url],
      rule exI [of _ headers], rule exI [of _ n], rule exI [of _ activation]) (use assms in simp)

lemma reported_activated:
  assumes "uo_state out = py ''INDEXED''" "uo_corpus out = JStr corpus"
    "activations j (uo_course out) [activate_request j (uo_course out) corpus v]" "final_state (uo_state out)"
  shows "reported j (Inr out) (planned j (uo_course out) (uo_document out) (uo_version out) url headers n
    [activate_request j (uo_course out) corpus v])"
  unfolding reported_def sum.case
  by (rule exI [of _ url], rule exI [of _ headers], rule exI [of _ n],
      rule exI [of _ "[activate_request j (uo_course out) corpus v]"]) (use assms in auto)

lemma reported_stages:
  "reported j (Inl e) [course_request j]"
  "reported j (Inl e) [course_request j, upload_request j course]"
  "reported j (Inl e) [course_request j, upload_request j course, Put_object url headers (uj_bytes j)]"
  "reported j (Inl e) [course_request j, upload_request j course, Put_object url headers (uj_bytes j),
     complete_request j course document version]"
  "reported j (Inl e) (planned j course document version url headers n [])"
  by (rule reported_early [of _ j course document version url headers n "[]"], simp_all add: planned_def activations_def)+

lemma observe_run:
  assumes "observe_ingestion rounds server clock deadline j course document version i completed h = (x, h')"
  shows "\<exists>n. h' = h @ replicate n (observe_request j course document version) \<and>
    (\<forall>completed. x = Inr completed \<longrightarrow> in_progress completed = Inr False)"
  using assms
proof (induction rounds arbitrary: i completed h)
  case (Suc rounds)
  let ?req = "observe_request j course document version"
  consider e where "in_progress completed = Inl e" | "in_progress completed = Inr False" | "in_progress completed = Inr True"
    by (cases "in_progress completed") auto
  then show ?case
  proof cases
    case 3
    show ?thesis
    proof (cases "clock i \<ge> deadline")
      case True
      then show ?thesis using Suc.prems 3 by (intro exI [of _ 0]) (auto simp: bindS_def liftS_def complain_def)
    next
      case False
      show ?thesis
      proof (cases "read_reply ''observe ingestion'' (server (h @ [?req]))")
        case (Inl e)
        then show ?thesis using Suc.prems 3 False by (intro exI [of _ 1]) (auto simp: bindS_def liftS_def request_json_def)
      next
        case (Inr y)
        then have "observe_ingestion rounds server clock deadline j course document version (Suc i) y (h @ [?req]) = (x, h')"
          using Suc.prems 3 False by (auto simp: bindS_def liftS_def request_json_def)
        then obtain n where n: "h' = (h @ [?req]) @ replicate n ?req" "\<forall>completed. x = Inr completed \<longrightarrow> in_progress completed = Inr False"
          using Suc.IH by blast
        then show ?thesis by (intro exI [of _ "Suc n"]) simp
      qed
    qed
  qed (use Suc.prems in \<open>auto simp: bindS_def liftS_def intro!: exI [of _ 0]\<close>)
qed (auto simp: liftS_def intro!: exI [of _ 0])

lemma pending_final:
  assumes "in_progress completed = Inr False" "required_string completed ''state'' source = Inr state"
  shows "final_state state"
proof -
  have "map_of completed (py ''state'') = Some (JStr state) \<and> state \<noteq> []"
    using assms(2) by (auto simp: required_string_def missing_def complain_def split: option.splits json.splits if_splits)
  then show ?thesis using assms(1) by (auto simp: in_progress_def final_state_def)
qed

lemma required_integer_Inr: "required_integer document name source = Inr v \<Longrightarrow> is_int v"
  by (auto simp: required_integer_def missing_def complain_def split: option.splits if_splits)

lemma upload_reported:
  fixes rounds :: nat and server :: server and started :: rat and clock :: "nat \<Rightarrow> rat" and j :: upload_job
  shows "case upload_pdf rounds server started clock j [] of (x, sent) \<Rightarrow> reported j x sent"
proof -
  have tail: "case bindS (activate_corpus_if server j course course_version state completed) (\<lambda>active.
       liftS (Inr \<lparr>uo_course = course, uo_document = document, uo_version = version, uo_state = state,
         uo_failure_code = member_or_null completed ''failure_code'', uo_page_count = member_or_null completed ''page_count'',
         uo_chunk_count = member_or_null completed ''chunk_count'',
         uo_corpus = member_or_null completed ''corpus_version_id'', uo_active_corpus = active\<rparr>))
       (planned j course document version url headers n []) of (x, sent) \<Rightarrow> reported j x sent"
    if h: "final_state state" "is_int course_version" for course document version url headers n state completed course_version
  proof (cases "\<exists>corpus. map_of completed (py ''corpus_version_id'') = Some (JStr corpus) \<and> uj_activate j \<and> state = py ''INDEXED''")
    case False
    then have "activate_corpus_if server j course course_version state completed = liftS (Inr JNull)"
      unfolding activate_corpus_if_def by (auto split: option.splits json.splits)
    then show ?thesis using h by (auto simp: bindS_def liftS_def reported_def activations_def)
  next
    case True
    then obtain corpus where c: "map_of completed (py ''corpus_version_id'') = Some (JStr corpus)" "uj_activate j" "state = py ''INDEXED''" by blast
    define act where "act = activate_request j course corpus course_version"
    have p: "planned j course document version url headers n [] @ [act] = planned j course document version url headers n [act]"
      by (simp add: planned_def)
    have a: "activations j course [act]" using c(2) h(2) by (auto simp: activations_def act_def)
    have m: "member_or_null completed ''corpus_version_id'' = JStr corpus" using c(1) by (simp add: member_or_null_def)
    show ?thesis
    proof (cases "read_reply ''activate corpus'' (server (planned j course document version url headers n [act]))")
      case (Inl e)
      have "reported j (Inl e) (planned j course document version url headers n [act])"
        using reported_early [OF prefix_order.refl a] .
      then show ?thesis using c p Inl by (simp add: activate_corpus_if_def act_def [symmetric] bindS_def request_json_def)
    next
      case (Inr y)
      then show ?thesis using c p m
          reported_activated [of "\<lparr>uo_course = course, uo_document = document, uo_version = version, uo_state = state,
            uo_failure_code = member_or_null completed ''failure_code'', uo_page_count = member_or_null completed ''page_count'',
            uo_chunk_count = member_or_null completed ''chunk_count'', uo_corpus = member_or_null completed ''corpus_version_id'',
            uo_active_corpus = member_or_null y ''active_corpus_version_id''\<rparr>" corpus j course_version url headers n]
          a [unfolded act_def] h(1)
        by (simp add: activate_corpus_if_def bindS_def request_json_def liftS_def act_def)
    qed
  qed
  have watch: "case bindS (observe_ingestion rounds server clock (started + 600) j course document version 0 completed) (\<lambda>completed.
     bindS (liftS (required_string completed ''state'' ''completion response'')) (\<lambda>state.
     bindS (activate_corpus_if server j course course_version state completed) (\<lambda>active.
       liftS (Inr \<lparr>uo_course = course, uo_document = document, uo_version = version, uo_state = state,
         uo_failure_code = member_or_null completed ''failure_code'', uo_page_count = member_or_null completed ''page_count'',
         uo_chunk_count = member_or_null completed ''chunk_count'',
         uo_corpus = member_or_null completed ''corpus_version_id'', uo_active_corpus = active\<rparr>))))
       (planned j course document version url headers 0 []) of (x, sent) \<Rightarrow> reported j x sent"
    if h: "is_int course_version" for course document version url headers course_version completed
  proof (rule bindS_wp, goal_cases)
    case (1 e h1)
    then obtain n where "h1 = planned j course document version url headers n []"
      using observe_run [OF 1] by (auto simp: planned_def)
    then show ?case by (simp add: reported_stages)
  next
    case (2 y h1)
    then obtain n where n: "h1 = planned j course document version url headers n []" "in_progress y = Inr False"
      using observe_run [OF 2] by (auto simp: planned_def)
    show ?case
    proof (rule bindS_lift_wp, goal_cases)
      case (1 e)
      then show ?case by (simp add: n(1) reported_stages)
    next
      case (2 state)
      show ?case unfolding n(1) by (rule tail [OF pending_final [OF n(2) 2] h])
    qed
  qed
  show ?thesis
    unfolding upload_pdf_def
  proof (rule bindS_request_wp, goal_cases)
    case (2 course)
    show ?case
    proof (intro bindS_lift_wp bindS_request_wp, goal_cases)
      case (8 course_id course_version upload document_id version_id upload_url headers)
      have i: "is_int course_version" using 8 required_integer_Inr by blast
      have p: "[course_request j, upload_request j course_id, Put_object upload_url headers (uj_bytes j),
          complete_request j course_id document_id version_id] = planned j course_id document_id version_id upload_url headers 0 []"
        by (simp add: planned_def)
      show ?case
      proof (rule bindS_wp, goal_cases)
        case (1 e h1)
        then show ?case by (auto simp: put_pdf_def reported_stages)
      next
        case (2 y h1)
        then have h1: "h1 = [course_request j, upload_request j course_id, Put_object upload_url headers (uj_bytes j)]"
          by (auto simp: put_pdf_def)
        show ?case
        proof (rule bindS_request_wp, goal_cases)
          case 2
          then show ?case using watch [OF i] by (simp add: h1 p)
        qed (simp add: h1 reported_stages)
      qed
    qed (simp_all add: reported_stages)
  qed (simp add: reported_stages)
qed

section \<open>How it ends\<close>

definition stage_error :: "upload_exn \<Rightarrow> bool" where
  "stage_error e \<longleftrightarrow> e \<in> {Bad_base_url, Bad_request_url, Unhashable_state} \<or> e \<in> range DevPDFUploadError"

lemma stage_simps [simp]:
  "stage_error (DevPDFUploadError m)" "stage_error Bad_base_url" "stage_error Bad_request_url" "stage_error Unhashable_state"
  "complain m = Inl e \<Longrightarrow> stage_error e" "missing source name = Inl e \<Longrightarrow> stage_error e"
  by (auto simp: stage_error_def complain_def missing_def)

definition tame :: "'a client_run \<Rightarrow> bool" where
  "tame m \<longleftrightarrow> (\<forall>h e. fst (m h) = Inl e \<longrightarrow> stage_error e)"

lemma tame_bind: "tame m \<Longrightarrow> (\<And>y. tame (f y)) \<Longrightarrow> tame (bindS m f)"
  unfolding tame_def bindS_def by (auto split: prod.splits sum.splits) (metis fst_conv)

lemma tame_lift: "(\<And>e. x = Inl e \<Longrightarrow> stage_error e) \<Longrightarrow> tame (liftS x)"
  by (simp add: tame_def liftS_def)

lemma read_reply_Inl: "read_reply operation reply = Inl e \<Longrightarrow> stage_error e"
  unfolding read_reply_def by (auto split: client_reply.splits option.splits json.splits if_splits)

lemma tame_request: "tame (request_json server operation request)"
  by (auto simp: tame_def request_json_def dest: read_reply_Inl)

lemma tame_put: "tame (put_pdf server url headers content)"
  by (auto simp: tame_def put_pdf_def split: client_reply.splits if_splits)

lemma pending_Inl: "in_progress completed = Inl e \<Longrightarrow> stage_error e"
  by (auto simp: in_progress_def split: option.splits json.splits)

lemma required_string_Inl: "required_string document name source = Inl e \<Longrightarrow> stage_error e"
  unfolding required_string_def by (auto split: option.splits json.splits if_splits)

lemma required_integer_Inl: "required_integer document name source = Inl e \<Longrightarrow> stage_error e"
  unfolding required_integer_def by (auto split: option.splits if_splits)

lemma upload_headers_Inl: "upload_headers document = Inl e \<Longrightarrow> stage_error e"
  unfolding upload_headers_def by (auto split: option.splits json.splits if_splits)

text \<open>The loop ends with the round that reads the deadline.\<close>

lemma tame_observe:
  assumes "n < rounds" "deadline \<le> clock (i + n)"
  shows "tame (observe_ingestion rounds server clock deadline j course document version i completed)"
  using assms
proof (induction rounds arbitrary: i n completed)
  case (Suc rounds)
  have later: "tame (observe_ingestion rounds server clock deadline j course document version (Suc i) y)" if "clock i < deadline" for y
  proof -
    have "0 < n" using Suc.prems(2) that by (cases n) auto
    then show ?thesis using Suc.IH [of "n - 1" "Suc i"] Suc.prems by simp
  qed
  show ?case
    by (auto intro!: tame_bind tame_lift tame_request later simp: not_le dest: pending_Inl)
qed simp

lemma tame_activate: "tame (activate_corpus_if server j course course_version state completed)"
  unfolding activate_corpus_if_def
  by (auto intro!: tame_bind tame_lift tame_request split: option.splits json.splits)

lemma tame_upload:
  assumes "n < rounds" "started + 600 \<le> clock n"
  shows "tame (upload_pdf rounds server started clock j)"
  unfolding upload_pdf_def
  using assms tame_observe [of n rounds "started + 600" clock 0]
  by (intro tame_bind tame_request tame_put tame_activate tame_lift)
    (auto dest: required_string_Inl required_integer_Inl upload_headers_Inl)

lemma validated_pdf_path_Inl: "validated_pdf_path u f = Inl e \<Longrightarrow> stage_error e"
  unfolding validated_pdf_path_def by (auto split: if_splits)

lemma validated_base_url_Inl: "validated_base_url u r b = Inl e \<Longrightarrow> stage_error e"
  unfolding validated_base_url_def Let_def by (auto split: option.splits if_splits)

lemma validated_base_url_Inr:
  assumes "validated_base_url u r b = Inr base"
  shows "\<exists>p. urlsplit r base = Some p \<and> us_netloc p \<noteq> [] \<and> \<not> extra_parts p \<and>
    (us_scheme p = py ''https'' \<or> (us_scheme p = py ''http'' \<and> is_loopback_host (hostname u p)))"
  using assms unfolding validated_base_url_def Let_def complain_def by (auto split: option.splits if_splits)

lemma tame_upload_dev_pdf:
  assumes "n < uw_rounds w" "uw_started w + 600 \<le> uw_clock w n"
  shows "tame (upload_dev_pdf u r w a token)"
  unfolding upload_dev_pdf_def Let_def
  using tame_upload [where clock = "uw_clock w", OF assms]
  by (auto intro!: tame_bind tame_lift dest: validated_pdf_path_Inl validated_base_url_Inl)

section \<open>Correctness\<close>

fun is_put :: "sent \<Rightarrow> bool" where
  "is_put (Put_object url headers content) = True"
| "is_put (Api method url headers body) = False"

lemma planned_puts: "length (filter is_put (planned j course document version url headers n activation)) \<le> 1"
  if "activations j course activation"
  using that by (auto simp: planned_def activations_def course_request_def upload_request_def complete_request_def
      observe_request_def activate_request_def)

lemma planned_requests:
  assumes "activations j course activation" "q \<in> set (planned j course document version url headers n activation)"
  shows "q = Put_object url headers (uj_bytes j) \<or> (\<exists>method rest hs body. q = Api method (uj_base j @ rest) (authorization j # hs) body)"
  using assms by (auto simp: planned_def activations_def course_request_def upload_request_def complete_request_def
      observe_request_def activate_request_def version_url_def)

lemma reported_planned:
  assumes "reported j x sent"
  obtains course document version url headers n activation where
    "prefix sent (planned j course document version url headers n activation)" "activations j course activation"
proof (cases x)
  case (Inl e)
  then show ?thesis using assms that unfolding reported_def by auto
next
  case (Inr out)
  then obtain url headers n activation where
    "sent = planned j (uo_course out) (uo_document out) (uo_version out) url headers n activation" "activations j (uo_course out) activation"
    using assms unfolding reported_def by auto
  then show ?thesis using that [OF prefix_order.eq_refl] by blast
qed

lemma upload_dev_pdf_run:
  assumes "upload_dev_pdf u r w a token [] = (x, sent)"
  shows "sent = [] \<and> \<not> is_ok x \<or>
    (\<exists>j. reported j x sent \<and> uj_bytes j = gf_bytes (ua_file a) \<and> uj_sha256 j = uw_sha256 w (gf_bytes (ua_file a)) \<and>
       uj_token j = strip token \<and> validated_base_url u r (ua_base_url a) = Inr (uj_base j))"
proof (cases "validated_pdf_path u (ua_file a)")
  case (Inr y)
  show ?thesis
  proof (cases "validated_base_url u r (ua_base_url a)")
    case base: (Inr b)
    show ?thesis
    proof (cases "strip token = [] \<or> list_ex is_space (strip token)")
      case True
      then show ?thesis using assms Inr base by (auto simp: upload_dev_pdf_def bindS_def liftS_def Let_def complain_def)
    next
      case False
      define j where "j = \<lparr>uj_name = gf_name (ua_file a), uj_bytes = gf_bytes (ua_file a), uj_sha256 = uw_sha256 w (gf_bytes (ua_file a)),
                uj_title = ua_title a, uj_base = b, uj_token = strip token, uj_activate = ua_activate a,
                uj_operation = uw_operation w\<rparr>"
      have "upload_pdf (uw_rounds w) (uw_server w) (uw_started w) (uw_clock w) j [] = (x, sent)"
        using assms Inr base False by (auto simp: upload_dev_pdf_def bindS_def liftS_def Let_def j_def)
      then have "reported j x sent" using upload_reported [of j "uw_rounds w" "uw_server w" "uw_started w" "uw_clock w"] by simp
      then show ?thesis using base by (intro disjI2 exI [of _ j]) (simp add: j_def)
    qed
  qed (use assms Inr in \<open>auto simp: upload_dev_pdf_def bindS_def liftS_def\<close>)
qed (use assms in \<open>auto simp: upload_dev_pdf_def bindS_def liftS_def\<close>)

definition sample_server :: server where
  "sample_server h =
     (if length h = 1 then Answer 201 (Some (JDict [(py ''id'', JStr (py ''c'')), (py ''version'', JInt 1)]))
      else if length h = 2 then Answer 201 (Some (JDict [(py ''document_id'', JStr (py ''d'')), (py ''version_id'', JStr (py ''v'')),
          (py ''upload_url'', JStr (py ''u'')), (py ''headers'', JDict [])]))
      else if length h = 3 then Answer 200 None
      else if length h = 4 then Answer 202 (Some (JDict [(py ''state'', JStr (py ''QUEUED''))]))
      else Answer 200 (Some (JDict [(py ''state'', JStr (py ''INDEXED''))])))"

definition sample_upload_world :: upload_world where
  "sample_upload_world = \<lparr>uw_sha256 = (\<lambda>_. py ''0''), uw_operation = py ''1'', uw_server = sample_server, uw_started = 0,
     uw_clock = (\<lambda>i. of_nat i * 600), uw_rounds = 3\<rparr>"

definition sample_arguments :: upload_arguments where
  "sample_arguments = \<lparr>ua_file = \<lparr>gf_path = py ''a.pdf'', gf_resolves = True, gf_regular = True, gf_name = py ''a.pdf'', gf_size = 1,
     gf_bytes = [7]\<rparr>, ua_title = py ''t'', ua_base_url = py ''http://localhost:8080/'', ua_activate = True\<rparr>"

lemma bindS_simps [simp]: "bindS (liftS (Inr x)) f = f x" "bindS (liftS (Inl e)) f = liftS (Inl e)"
  by (auto simp: bindS_def liftS_def fun_eq_iff)

lemma bindS_request: "read_reply operation (server (h @ [request])) = Inr y \<Longrightarrow>
    bindS (request_json server operation request) f h = f y (h @ [request])"
  by (simp add: bindS_def request_json_def)

lemma sample_upload_run:
  fixes j :: upload_job
  shows "\<exists>out sent. upload_pdf 3 sample_server 0 (\<lambda>i. of_nat i * 600) j [] = (Inr out, sent) \<and> uo_state out = py ''INDEXED'' \<and> length sent = 5"
proof -
  define course upload waiting ready where
    "course = [(py ''id'', JStr (py ''c'')), (py ''version'', JInt 1)]" and
    "upload = [(py ''document_id'', JStr (py ''d'')), (py ''version_id'', JStr (py ''v'')), (py ''upload_url'', JStr (py ''u'')), (py ''headers'', JDict [])]" and
    "waiting = [(py ''state'', JStr (py ''QUEUED''))]" and "ready = [(py ''state'', JStr (py ''INDEXED''))]"
  have r: "read_reply op (sample_server h) = Inr course" if "length h = 1" for op h
    using that by (simp add: sample_server_def read_reply_def is_success_def course_def)
  have r2: "read_reply op (sample_server h) = Inr upload" if "length h = 2" for op h
    using that by (simp add: sample_server_def read_reply_def is_success_def upload_def)
  have r3: "put_pdf sample_server url hs content h = (Inr (), h @ [Put_object url hs content])" if "length h = 2" for url hs content h
    using that by (simp add: sample_server_def put_pdf_def is_success_def)
  have r4: "read_reply op (sample_server h) = Inr waiting" if "length h = 4" for op h
    using that by (simp add: sample_server_def read_reply_def is_success_def waiting_def)
  have r5: "read_reply op (sample_server h) = Inr ready" if "length h = 5" for op h
    using that by (simp add: sample_server_def read_reply_def is_success_def ready_def)
  have v: "required_string course ''id'' source = Inr (py ''c'')" "required_integer course ''version'' source = Inr (JInt 1)"
    "required_string upload ''document_id'' source = Inr (py ''d'')" "required_string upload ''version_id'' source = Inr (py ''v'')"
    "required_string upload ''upload_url'' source = Inr (py ''u'')" "upload_headers upload = Inr []"
    "in_progress waiting = Inr True" "in_progress ready = Inr False" "required_string ready ''state'' source = Inr (py ''INDEXED'')"
    "map_of ready (py ''corpus_version_id'') = None" for source
    by (simp_all add: required_string_def required_integer_def upload_headers_def in_progress_def course_def upload_def waiting_def
        ready_def py_def)
  define final where "final = \<lparr>uo_course = py ''c'', uo_document = py ''d'', uo_version = py ''v'', uo_state = py ''INDEXED'',
    uo_failure_code = member_or_null ready ''failure_code'', uo_page_count = member_or_null ready ''page_count'',
    uo_chunk_count = member_or_null ready ''chunk_count'', uo_corpus = member_or_null ready ''corpus_version_id'', uo_active_corpus = JNull\<rparr>"
  have o: "observe_ingestion 3 sample_server (\<lambda>i. of_nat i * 600) 600 j c d v 0 waiting h =
      (Inr ready, h @ [observe_request j c d v])" if "length h = 4" for c d v h
    using that by (simp add: numeral_3_eq_3 v bindS_request r5) (simp add: liftS_def)
  have "upload_pdf 3 sample_server 0 (\<lambda>i. of_nat i * 600) j [] =
      (Inr final, [course_request j, upload_request j (py ''c''), Put_object (py ''u'') [] (uj_bytes j),
        complete_request j (py ''c'') (py ''d'') (py ''v''), observe_request j (py ''c'') (py ''d'') (py ''v'')])"
    unfolding upload_pdf_def
    by (simp add: bindS_request r r2 r4 v bindS_def [of "put_pdf _ _ _ _"] r3 bindS_def [of "observe_ingestion _ _ _ _ _ _ _ _ _ _"] o
        activate_corpus_if_def final_def) (simp add: liftS_def)
  then show ?thesis by (simp add: final_def)
qed

lemma sample_upload_dev_pdf:
  "\<exists>out sent. upload_dev_pdf ascii_db sample_rules sample_upload_world sample_arguments (py ''t'') [] = (Inr out, sent) \<and>
     uo_state out = py ''INDEXED'' \<and> length sent = 5"
proof -
  have h: "hostname ascii_db \<lparr>us_scheme = a, us_netloc = py ''localhost:8080'', us_path = b, us_query = c, us_fragment = f\<rparr> = Some (py ''localhost'')"
    for a b c f
    by (simp add: hostname_def host_and_port_def host_part_def before_char_def Let_def py_def lower_ascii ascii_lower_def)
  have e: "\<not> extra_parts \<lparr>us_scheme = a, us_netloc = py ''localhost:8080'', us_path = b, us_query = [], us_fragment = []\<rparr>" for a b
    by (simp add: extra_parts_def username_def password_def non_empty_def py_def)
  have s: "rstrip_char 47 (strip (py ''http://localhost:8080/'')) = py ''http://localhost:8080''"
    by (simp add: rstrip_char_def strip_def is_space_def py_def)
  have n: "py ''localhost:8080'' \<noteq> []" by (simp add: py_def)
  have b: "validated_base_url ascii_db sample_rules (py ''http://localhost:8080/'') = Inr (py ''http://localhost:8080'')"
    unfolding validated_base_url_def Let_def s by (simp add: sample_splits h e n is_loopback_host_def)
  have "path_suffix (py ''a.pdf'') = py ''.pdf''"
    by (simp add: path_suffix_def rfind_char_def py_def upt_rec)
  moreover have "lower ascii_db (py ''.pdf'') = py ''.pdf''" by (subst lower_ascii) (simp_all add: py_def ascii_lower_def)
  ultimately have p: "validated_pdf_path ascii_db (ua_file sample_arguments) = Inr ()"
    by (simp add: validated_pdf_path_def sample_arguments_def)
  have t: "strip (py ''t'') = py ''t''" "py ''t'' \<noteq> []" "\<not> list_ex is_space (py ''t'')"
    by (simp_all add: py_def strip_def is_space_def)
  show ?thesis
    using p b t sample_upload_run
    by (simp add: upload_dev_pdf_def Let_def sample_upload_world_def sample_arguments_def)
qed





end
