(* ===== verification/Migrations.thy ===== *)
theory Migrations
  imports Ingestion
begin

text \<open>
  The Alembic revisions under \<^verbatim>\<open>apps/api/migrations/versions\<close>: each is a list of statements on an abstract
  schema of tables, constraints and indexes, and the data statements of 0006 and 0010 on the rows of the
  data model. A statement that PostgreSQL refuses has no result.
\<close>

section \<open>Schemas\<close>

datatype col_type =
    Uuid_t | Varchar_t nat | Text_t | Integer_t | Bigint_t | Boolean_t | Timestamptz_t | Jsonb_t | Tsvector_t | Vector_t

text \<open>\<open>col_default\<close> is the server default or the expression of a computed column.\<close>

record column_def =
  col_type :: col_type
  col_nullable :: bool
  col_default :: "string option"

text \<open>A check comes with the columns its condition mentions; an unnamed constraint has the name PostgreSQL
  gives it.\<close>

datatype constraint_def =
    Primary_key "string list"
  | Unique_key "string list"
  | Check_condition "string list" string
  | Foreign_key "string list" string "string list" string

record table_def =
  tb_columns :: "(string \<times> column_def) list"
  tb_constraints :: "(string \<times> constraint_def) list"

record index_def =
  ix_table :: string
  ix_columns :: "string list"
  ix_unique :: bool
  ix_condition :: "string option"
  ix_method :: string

record schema =
  sc_tables :: "(string \<times> table_def) list"
  sc_indexes :: "(string \<times> index_def) list"
  sc_extensions :: "string list"

definition empty_schema :: schema where
  "empty_schema = \<lparr>sc_tables = [], sc_indexes = [], sc_extensions = []\<rparr>"

fun has_name :: "string \<Rightarrow> (string \<times> 'a) list \<Rightarrow> bool" where
  "has_name n [] = False"
| "has_name n ((m, _) # xs) = (n = m \<or> has_name n xs)"

fun without_name :: "string \<Rightarrow> (string \<times> 'a) list \<Rightarrow> (string \<times> 'a) list" where
  "without_name n [] = []"
| "without_name n ((m, x) # xs) = (if n = m then xs else (m, x) # without_name n xs)"

fun change_named :: "string \<Rightarrow> ('a \<Rightarrow> 'a) \<Rightarrow> (string \<times> 'a) list \<Rightarrow> (string \<times> 'a) list" where
  "change_named n f [] = []"
| "change_named n f ((m, x) # xs) = (if n = m then (m, f x) # xs else (m, x) # change_named n f xs)"

fun all_distinct :: "string list \<Rightarrow> bool" where
  "all_distinct [] = True"
| "all_distinct (x # xs) = (\<not> list_ex (\<lambda>y. x = y) xs \<and> all_distinct xs)"

definition same_members :: "string list \<Rightarrow> string list \<Rightarrow> bool" where
  "same_members xs ys \<longleftrightarrow> list_all (\<lambda>x. list_ex (\<lambda>y. x = y) ys) xs \<and> list_all (\<lambda>y. list_ex (\<lambda>x. y = x) xs) ys"

fun key_columns :: "constraint_def \<Rightarrow> string list option" where
  "key_columns (Primary_key cs) = Some cs"
| "key_columns (Unique_key cs) = Some cs"
| "key_columns _ = None"

definition columns_exist :: "table_def \<Rightarrow> string list \<Rightarrow> bool" where
  "columns_exist tb cs \<longleftrightarrow> list_all (\<lambda>c. has_name c (tb_columns tb)) cs"

definition types_of :: "table_def \<Rightarrow> string list \<Rightarrow> col_type list" where
  "types_of tb cs = map (\<lambda>c. case map_of (tb_columns tb) c of Some d \<Rightarrow> col_type d | None \<Rightarrow> Text_t) cs"

definition has_key :: "table_def \<Rightarrow> string list \<Rightarrow> bool" where
  "has_key tb rcs \<longleftrightarrow>
     list_ex (\<lambda>(_, k). case key_columns k of None \<Rightarrow> False | Some ks \<Rightarrow> same_members ks rcs) (tb_constraints tb)"

text \<open>The columns of a constraint exist, those of a primary key are not null, and a foreign key refers to the
  columns of a key, with their types.\<close>

fun constraint_ok :: "schema \<Rightarrow> table_def \<Rightarrow> constraint_def \<Rightarrow> bool" where
  "constraint_ok s tb (Primary_key cs) \<longleftrightarrow>
     columns_exist tb cs \<and> list_all (\<lambda>c. case map_of (tb_columns tb) c of Some d \<Rightarrow> \<not> col_nullable d | None \<Rightarrow> False) cs"
| "constraint_ok s tb (Unique_key cs) \<longleftrightarrow> columns_exist tb cs"
| "constraint_ok s tb (Check_condition cs _) \<longleftrightarrow> columns_exist tb cs"
| "constraint_ok s tb (Foreign_key cs ref rcs _) \<longleftrightarrow>
     columns_exist tb cs \<and>
     (case map_of (sc_tables s) ref of
        None \<Rightarrow> False
      | Some tr \<Rightarrow>
          columns_exist tr rcs \<and> types_of tb cs = types_of tr rcs \<and> has_key tr rcs)"

definition index_ok :: "schema \<Rightarrow> index_def \<Rightarrow> bool" where
  "index_ok s ix \<longleftrightarrow>
     (case map_of (sc_tables s) (ix_table ix) of None \<Rightarrow> False | Some tb \<Rightarrow> columns_exist tb (ix_columns ix))"

definition schema_ok :: "schema \<Rightarrow> bool" where
  "schema_ok s \<longleftrightarrow>
     all_distinct (map fst (sc_tables s)) \<and> all_distinct (map fst (sc_indexes s)) \<and>
     list_all (\<lambda>(_, tb). all_distinct (map fst (tb_columns tb)) \<and> all_distinct (map fst (tb_constraints tb)) \<and>
        list_all (\<lambda>(_, k). constraint_ok s tb k) (tb_constraints tb)) (sc_tables s) \<and>
     list_all (\<lambda>(_, ix). index_ok s ix) (sc_indexes s)"

section \<open>Statements\<close>

datatype statement =
    Create_table string "(string \<times> column_def) list" "(string \<times> constraint_def) list"
  | Drop_table string
  | Add_column string string column_def
  | Drop_column string string
  | Add_constraint string string constraint_def
  | Drop_constraint string string
  | Create_index string index_def
  | Drop_index string
  | Create_extension string
  | Drop_extension string
  | Data

definition on_table :: "string \<Rightarrow> (table_def \<Rightarrow> table_def) \<Rightarrow> schema \<Rightarrow> schema" where
  "on_table t f s = s\<lparr>sc_tables := change_named t f (sc_tables s)\<rparr>"

text \<open>The columns a constraint of the table itself, or a foreign key to the table, needs.\<close>

fun own_columns :: "constraint_def \<Rightarrow> string list" where
  "own_columns (Primary_key cs) = cs"
| "own_columns (Unique_key cs) = cs"
| "own_columns (Check_condition cs _) = cs"
| "own_columns (Foreign_key cs _ _ _) = cs"

fun refers_to :: "string \<Rightarrow> constraint_def \<Rightarrow> string list option" where
  "refers_to t (Foreign_key _ ref rcs _) = (if ref = t then Some rcs else None)"
| "refers_to t _ = None"

definition references :: "schema \<Rightarrow> string \<Rightarrow> string list list" where
  "references s t = concat (map (\<lambda>(_, tb). List.map_filter (\<lambda>(_, k). refers_to t k) (tb_constraints tb)) (sc_tables s))"

definition column_free :: "schema \<Rightarrow> string \<Rightarrow> table_def \<Rightarrow> string \<Rightarrow> bool" where
  "column_free s t tb c \<longleftrightarrow>
     list_all (\<lambda>(_, k). \<not> list_ex (\<lambda>x. x = c) (own_columns k)) (tb_constraints tb) \<and>
     list_all (\<lambda>rcs. \<not> list_ex (\<lambda>x. x = c) rcs) (references s t) \<and>
     list_all (\<lambda>(_, ix). ix_table ix = t \<longrightarrow> \<not> list_ex (\<lambda>x. x = c) (ix_columns ix)) (sc_indexes s)"

text \<open>Each statement with the checks PostgreSQL makes. It would drop a constraint or an index together with one
  of its columns; the model refuses to, so that no revision relies on it.\<close>

fun execute :: "statement \<Rightarrow> schema \<Rightarrow> schema option" where
  "execute (Create_table t cols cons) s =
     (let tb = \<lparr>tb_columns = cols, tb_constraints = cons\<rparr>;
          s' = s\<lparr>sc_tables := sc_tables s @ [(t, tb)]\<rparr>
      in if \<not> has_name t (sc_tables s) \<and> all_distinct (map fst cols) \<and> all_distinct (map fst cons) \<and>
            list_all (\<lambda>(_, k). constraint_ok s' tb k) cons
         then Some s' else None)"
| "execute (Drop_table t) s =
     (let s' = s\<lparr>sc_tables := without_name t (sc_tables s), sc_indexes := filter (\<lambda>(_, ix). ix_table ix \<noteq> t) (sc_indexes s)\<rparr>
      in if has_name t (sc_tables s) \<and> references s' t = [] then Some s' else None)"
| "execute (Add_column t c d) s =
     (case map_of (sc_tables s) t of
        None \<Rightarrow> None
      | Some tb \<Rightarrow>
          if has_name c (tb_columns tb) then None
          else Some (on_table t (\<lambda>tb. tb\<lparr>tb_columns := tb_columns tb @ [(c, d)]\<rparr>) s))"
| "execute (Drop_column t c) s =
     (case map_of (sc_tables s) t of
        None \<Rightarrow> None
      | Some tb \<Rightarrow>
          if has_name c (tb_columns tb) \<and> column_free s t tb c
          then Some (on_table t (\<lambda>tb. tb\<lparr>tb_columns := without_name c (tb_columns tb)\<rparr>) s) else None)"
| "execute (Add_constraint t n k) s =
     (case map_of (sc_tables s) t of
        None \<Rightarrow> None
      | Some tb \<Rightarrow>
          if \<not> has_name n (tb_constraints tb) \<and> constraint_ok s tb k
          then Some (on_table t (\<lambda>tb. tb\<lparr>tb_constraints := tb_constraints tb @ [(n, k)]\<rparr>) s) else None)"
| "execute (Drop_constraint t n) s =
     (case map_of (sc_tables s) t of
        None \<Rightarrow> None
      | Some tb \<Rightarrow>
          (let tb' = tb\<lparr>tb_constraints := without_name n (tb_constraints tb)\<rparr>;
               s' = on_table t (\<lambda>tb. tb\<lparr>tb_constraints := without_name n (tb_constraints tb)\<rparr>) s
           in if has_name n (tb_constraints tb) \<and> list_all (has_key tb') (references s' t) then Some s' else None))"
| "execute (Create_index n ix) s =
     (if \<not> has_name n (sc_indexes s) \<and> index_ok s ix then Some (s\<lparr>sc_indexes := sc_indexes s @ [(n, ix)]\<rparr>) else None)"
| "execute (Drop_index n) s =
     (if has_name n (sc_indexes s) then Some (s\<lparr>sc_indexes := without_name n (sc_indexes s)\<rparr>) else None)"
| "execute (Create_extension e) s =
     Some (if list_ex (\<lambda>x. x = e) (sc_extensions s) then s else s\<lparr>sc_extensions := sc_extensions s @ [e]\<rparr>)"
| "execute (Drop_extension e) s = Some (s\<lparr>sc_extensions := filter (\<lambda>x. x \<noteq> e) (sc_extensions s)\<rparr>)"
| "execute Data s = Some s"

fun execute_all :: "statement list \<Rightarrow> schema \<Rightarrow> schema option" where
  "execute_all [] s = Some s"
| "execute_all (st # sts) s = (case execute st s of None \<Rightarrow> None | Some s' \<Rightarrow> execute_all sts s')"

section \<open>The revisions\<close>

definition required :: "col_type \<Rightarrow> column_def" where
  "required t = \<lparr>col_type = t, col_nullable = False, col_default = None\<rparr>"

definition optional :: "col_type \<Rightarrow> column_def" where
  "optional t = \<lparr>col_type = t, col_nullable = True, col_default = None\<rparr>"

definition defaulted :: "col_type \<Rightarrow> string \<Rightarrow> column_def" where
  "defaulted t e = \<lparr>col_type = t, col_nullable = False, col_default = Some e\<rparr>"

definition plain_index :: "string \<Rightarrow> string list \<Rightarrow> index_def" where
  "plain_index t cs = \<lparr>ix_table = t, ix_columns = cs, ix_unique = False, ix_condition = None, ix_method = ''btree''\<rparr>"

record revision =
  rv_id :: string
  rv_down :: "string option"
  rv_upgrade :: "statement list"
  rv_downgrade :: "statement list"

definition baseline_0001 :: revision where
  "baseline_0001 = \<lparr>rv_id = ''20260903_0001'', rv_down = None, rv_upgrade = [], rv_downgrade = []\<rparr>"

definition identity_courses_0002 :: revision where
  "identity_courses_0002 = \<lparr>rv_id = ''20260903_0002'', rv_down = Some ''20260903_0001'',
     rv_upgrade = [
       Create_table ''users''
         [(''id'', required Uuid_t), (''oidc_issuer'', required (Varchar_t 2048)), (''oidc_subject'', required (Varchar_t 255)),
          (''created_at'', defaulted Timestamptz_t ''now()'')]
         [(''pk_users'', Primary_key [''id'']), (''uq_users_oidc_identity'', Unique_key [''oidc_issuer'', ''oidc_subject''])],
       Create_table ''courses''
         [(''id'', required Uuid_t), (''title'', required (Varchar_t 200)), (''created_at'', defaulted Timestamptz_t ''now()'')]
         [(''ck_courses_title_not_blank'', Check_condition [''title''] ''length(btrim(title)) > 0''),
          (''pk_courses'', Primary_key [''id''])],
       Create_table ''course_memberships''
         [(''course_id'', required Uuid_t), (''user_id'', required Uuid_t), (''role'', required (Varchar_t 16)),
          (''created_at'', defaulted Timestamptz_t ''now()'')]
         [(''ck_memberships_role'', Check_condition [''role''] ''role IN ('teacher', 'student')''),
          (''fk_memberships_course'', Foreign_key [''course_id''] ''courses'' [''id''] ''CASCADE''),
          (''fk_memberships_user'', Foreign_key [''user_id''] ''users'' [''id''] ''RESTRICT''),
          (''pk_course_memberships'', Primary_key [''course_id'', ''user_id''])],
       Create_index ''ix_course_memberships_user_id'' (plain_index ''course_memberships'' [''user_id''])],
     rv_downgrade = [
       Drop_index ''ix_course_memberships_user_id'', Drop_table ''course_memberships'', Drop_table ''courses'',
       Drop_table ''users'']\<rparr>"

definition documents_0003 :: "statement list" where
  "documents_0003 = [
     Add_column ''courses'' ''version'' (defaulted Integer_t ''0''),
     Add_column ''courses'' ''updated_at'' (defaulted Timestamptz_t ''now()''),
     Create_table ''documents''
       [(''id'', required Uuid_t), (''course_id'', required Uuid_t), (''title'', required (Varchar_t 255)),
        (''created_by_user_id'', required Uuid_t), (''created_at'', defaulted Timestamptz_t ''now()'')]
       [(''fk_documents_course'', Foreign_key [''course_id''] ''courses'' [''id''] ''CASCADE''),
        (''fk_documents_created_by_user'', Foreign_key [''created_by_user_id''] ''users'' [''id''] ''RESTRICT''),
        (''pk_documents'', Primary_key [''id'']), (''uq_documents_course_id_id'', Unique_key [''course_id'', ''id''])],
     Create_index ''ix_documents_course_id'' (plain_index ''documents'' [''course_id'']),
     Create_table ''document_versions''
       [(''id'', required Uuid_t), (''course_id'', required Uuid_t), (''document_id'', required Uuid_t),
        (''storage_key'', required (Varchar_t 1024)), (''original_filename'', required (Varchar_t 255)),
        (''expected_size_bytes'', required Bigint_t), (''expected_sha256'', required (Varchar_t 64)),
        (''media_type'', required (Varchar_t 100)), (''state'', required (Varchar_t 32)),
        (''pipeline_version'', required (Varchar_t 100)), (''upload_idempotency_key'', required (Varchar_t 255)),
        (''upload_request_hash'', required (Varchar_t 64)),
        (''confirmation_idempotency_key'', optional (Varchar_t 255)),
        (''confirmation_request_hash'', optional (Varchar_t 64)), (''object_size_bytes'', optional Bigint_t),
        (''object_sha256'', optional (Varchar_t 64)), (''page_count'', optional Integer_t),
        (''chunk_count'', optional Integer_t), (''failure_code'', optional (Varchar_t 64)),
        (''created_at'', defaulted Timestamptz_t ''now()''), (''updated_at'', defaulted Timestamptz_t ''now()'')]
       [(''ck_document_versions_expected_size'', Check_condition [''expected_size_bytes''] ''expected_size_bytes > 0''),
        (''ck_document_versions_expected_sha256'', Check_condition [''expected_sha256''] (''expected_sha256 ~ '^[0-9a-f]{64}$'' @ [CHR 0x27])),
        (''ck_document_versions_state'', Check_condition [''state''] ''state IN ('AWAITING_UPLOAD', 'QUEUED', 'PROCESSING', 'INDEXED', 'FAILED', 'REJECTED', 'OCR_REQUIRED')''),
        (''fk_document_versions_course_document'', Foreign_key [''course_id'', ''document_id''] ''documents'' [''course_id'', ''id''] ''CASCADE''),
        (''pk_document_versions'', Primary_key [''id'']),
        (''uq_document_versions_course_id_id'', Unique_key [''course_id'', ''id'']),
        (''uq_document_versions_storage_key'', Unique_key [''storage_key'']),
        (''uq_document_versions_upload_idempotency'', Unique_key [''course_id'', ''upload_idempotency_key''])],
     Create_index ''ix_document_versions_course_id'' (plain_index ''document_versions'' [''course_id''])]"

definition corpus_0003 :: "statement list" where
  "corpus_0003 = [
     Create_table ''corpus_versions''
       [(''id'', required Uuid_t), (''course_id'', required Uuid_t), (''state'', required (Varchar_t 16)),
        (''pipeline_version'', required (Varchar_t 100)), (''page_count'', required Integer_t),
        (''chunk_count'', required Integer_t), (''created_at'', defaulted Timestamptz_t ''now()''),
        (''ready_at'', optional Timestamptz_t)]
       [(''ck_corpus_versions_state'', Check_condition [''state''] ''state IN ('BUILDING', 'READY', 'FAILED', 'RETIRED')''),
        (''fk_corpus_versions_course'', Foreign_key [''course_id''] ''courses'' [''id''] ''CASCADE''),
        (''pk_corpus_versions'', Primary_key [''id'']),
        (''uq_corpus_versions_course_id_id'', Unique_key [''course_id'', ''id''])],
     Create_index ''ix_corpus_versions_course_id'' (plain_index ''corpus_versions'' [''course_id'']),
     Add_column ''courses'' ''active_corpus_version_id'' (optional Uuid_t),
     Add_constraint ''courses'' ''fk_courses_active_corpus_version'' (Foreign_key [''active_corpus_version_id''] ''corpus_versions'' [''id''] ''SET NULL''),
     Create_table ''corpus_version_documents''
       [(''corpus_version_id'', required Uuid_t), (''document_version_id'', required Uuid_t),
        (''course_id'', required Uuid_t)]
       [(''fk_corpus_documents_course_corpus'', Foreign_key [''course_id'', ''corpus_version_id''] ''corpus_versions'' [''course_id'', ''id''] ''CASCADE''),
        (''fk_corpus_documents_course_document_version'', Foreign_key [''course_id'', ''document_version_id''] ''document_versions'' [''course_id'', ''id''] ''RESTRICT''),
        (''pk_corpus_version_documents'', Primary_key [''corpus_version_id'', ''document_version_id''])],
     Create_table ''chunks''
       [(''id'', required Uuid_t), (''course_id'', required Uuid_t), (''corpus_version_id'', required Uuid_t),
        (''document_version_id'', required Uuid_t), (''parent_chunk_id'', optional Uuid_t),
        (''page_start'', required Integer_t), (''page_end'', required Integer_t), (''ordinal'', required Integer_t),
        (''content'', required Text_t), (''content_hash'', required (Varchar_t 64)),
        (''search_vector'', defaulted Tsvector_t (''to_tsvector('spanish'::regconfig, coalesce(content, '' @ [CHR 0x27, CHR 0x27] @ ''))''))]
       [(''ck_chunks_page_start'', Check_condition [''page_start''] ''page_start > 0''),
        (''ck_chunks_page_range'', Check_condition [''page_start'', ''page_end''] ''page_end >= page_start''),
        (''fk_chunks_course_corpus'', Foreign_key [''course_id'', ''corpus_version_id''] ''corpus_versions'' [''course_id'', ''id''] ''CASCADE''),
        (''fk_chunks_course_document_version'', Foreign_key [''course_id'', ''document_version_id''] ''document_versions'' [''course_id'', ''id''] ''RESTRICT''),
        (''fk_chunks_parent_chunk'', Foreign_key [''parent_chunk_id''] ''chunks'' [''id''] ''RESTRICT''),
        (''pk_chunks'', Primary_key [''id'']),
        (''uq_chunks_corpus_ordinal'', Unique_key [''corpus_version_id'', ''ordinal''])],
     Create_index ''ix_chunks_course_corpus'' (plain_index ''chunks'' [''course_id'', ''corpus_version_id'']),
     Create_index ''ix_chunks_search_vector'' ((plain_index ''chunks'' [''search_vector''])\<lparr>ix_method := ''gin''\<rparr>)]"

definition jobs_0003 :: "statement list" where
  "jobs_0003 = [
     Create_table ''ingestion_jobs''
       [(''id'', required Uuid_t), (''course_id'', required Uuid_t), (''document_version_id'', required Uuid_t),
        (''job_type'', defaulted (Varchar_t 32) ''ingestion''), (''pipeline_version'', required (Varchar_t 100)),
        (''state'', required (Varchar_t 16)), (''attempt'', defaulted Integer_t ''0''),
        (''fencing_token'', defaulted Integer_t ''0''), (''correlation_id'', required (Varchar_t 100)),
        (''failure_code'', optional (Varchar_t 64)), (''created_at'', defaulted Timestamptz_t ''now()''),
        (''updated_at'', defaulted Timestamptz_t ''now()''), (''completed_at'', optional Timestamptz_t)]
       [(''ck_ingestion_jobs_state'', Check_condition [''state''] ''state IN ('PENDING', 'RUNNING', 'SUCCEEDED', 'FAILED')''),
        (''fk_ingestion_jobs_course_document_version'', Foreign_key [''course_id'', ''document_version_id''] ''document_versions'' [''course_id'', ''id''] ''CASCADE''),
        (''pk_ingestion_jobs'', Primary_key [''id'']),
        (''uq_ingestion_jobs_logical_job'', Unique_key [''job_type'', ''document_version_id'', ''pipeline_version''])],
     Create_index ''ix_ingestion_jobs_course_id'' (plain_index ''ingestion_jobs'' [''course_id''])]"

definition undo_0003 :: "statement list" where
  "undo_0003 = [
     Drop_index ''ix_ingestion_jobs_course_id'',
     Drop_table ''ingestion_jobs'',
     Drop_index ''ix_chunks_search_vector'',
     Drop_index ''ix_chunks_course_corpus'',
     Drop_table ''chunks'',
     Drop_table ''corpus_version_documents'',
     Drop_constraint ''courses'' ''fk_courses_active_corpus_version'',
     Drop_column ''courses'' ''active_corpus_version_id'',
     Drop_index ''ix_corpus_versions_course_id'',
     Drop_table ''corpus_versions'',
     Drop_index ''ix_document_versions_course_id'',
     Drop_table ''document_versions'',
     Drop_index ''ix_documents_course_id'',
     Drop_table ''documents'',
     Drop_column ''courses'' ''updated_at'',
     Drop_column ''courses'' ''version'']"

definition document_ingestion_0003 :: revision where
  "document_ingestion_0003 = \<lparr>rv_id = ''20260903_0003'', rv_down = Some ''20260903_0002'',
     rv_upgrade = documents_0003 @ corpus_0003 @ jobs_0003, rv_downgrade = undo_0003\<rparr>"

lemmas revision_0003 = document_ingestion_0003_def documents_0003_def corpus_0003_def jobs_0003_def undo_0003_def

definition immutable_storage_version_0004 :: revision where
  "immutable_storage_version_0004 = \<lparr>rv_id = ''20260903_0004'', rv_down = Some ''20260903_0003'',
     rv_upgrade = [
       Add_column ''document_versions'' ''storage_version_id'' (optional (Varchar_t 255))],
     rv_downgrade = [
       Drop_column ''document_versions'' ''storage_version_id'']\<rparr>"

definition parser_provenance_0005 :: revision where
  "parser_provenance_0005 = \<lparr>rv_id = ''20260903_0005'', rv_down = Some ''20260903_0004'',
     rv_upgrade = [
       Add_column ''document_versions'' ''parser_version'' (optional (Varchar_t 100))],
     rv_downgrade = [
       Drop_column ''document_versions'' ''parser_version'']\<rparr>"

definition durable_ingestion_0006 :: revision where
  "durable_ingestion_0006 = \<lparr>rv_id = ''20260905_0006'', rv_down = Some ''20260903_0005'',
     rv_upgrade = [
       Add_constraint ''ingestion_jobs'' ''uq_ingestion_jobs_course_id_id'' (Unique_key [''course_id'', ''id'']),
       Add_column ''ingestion_jobs'' ''lease_expires_at'' (optional Timestamptz_t),
       Add_column ''ingestion_jobs'' ''next_attempt_at'' (defaulted Timestamptz_t ''now()''),
       Create_table ''outbox_events''
         [(''id'', required Uuid_t), (''course_id'', required Uuid_t), (''job_id'', required Uuid_t),
          (''kind'', required (Varchar_t 16)), (''available_at'', defaulted Timestamptz_t ''now()''),
          (''created_at'', defaulted Timestamptz_t ''now()''), (''published_at'', optional Timestamptz_t),
          (''publish_token'', optional Uuid_t), (''publish_lease_until'', optional Timestamptz_t)]
         [(''outbox_events_pkey'', Primary_key [''id'']),
          (''fk_outbox_course_job'', Foreign_key [''course_id'', ''job_id''] ''ingestion_jobs'' [''course_id'', ''id''] ''CASCADE''),
          (''uq_outbox_job_kind'', Unique_key [''job_id'', ''kind'']),
          (''ck_outbox_kind'', Check_condition [''kind''] ''kind IN ('ingestion', 'dead')'')],
       Create_index ''ix_outbox_dispatch'' (plain_index ''outbox_events'' [''published_at'', ''available_at'']),
       Data,
       Data,
       Data],
     rv_downgrade = [
       Drop_table ''outbox_events'',
       Drop_column ''ingestion_jobs'' ''next_attempt_at'',
       Drop_column ''ingestion_jobs'' ''lease_expires_at'',
       Drop_constraint ''ingestion_jobs'' ''uq_ingestion_jobs_course_id_id'']\<rparr>"

definition conversations_0007 :: revision where
  "conversations_0007 = \<lparr>rv_id = ''20260907_0007'', rv_down = Some ''20260905_0006'',
     rv_upgrade = [
       Add_constraint ''chunks'' ''uq_chunks_scope'' (Unique_key [''course_id'', ''corpus_version_id'', ''id'']),
       Create_table ''conversations''
         [(''id'', required Uuid_t), (''course_id'', required Uuid_t), (''owner_user_id'', required Uuid_t),
          (''idempotency_key'', required (Varchar_t 255)), (''next_sequence'', defaulted Integer_t ''1''),
          (''created_at'', defaulted Timestamptz_t ''now()'')]
         [(''conversations_pkey'', Primary_key [''id'']),
          (''uq_conversations_course_id'', Unique_key [''course_id'', ''id'']),
          (''uq_conversations_creation'', Unique_key [''course_id'', ''owner_user_id'', ''idempotency_key'']),
          (''conversations_course_id_fkey'', Foreign_key [''course_id''] ''courses'' [''id''] ''CASCADE''),
          (''conversations_owner_user_id_fkey'', Foreign_key [''owner_user_id''] ''users'' [''id''] ''RESTRICT'')],
       Create_table ''messages''
         [(''id'', required Uuid_t), (''course_id'', required Uuid_t), (''conversation_id'', required Uuid_t),
          (''corpus_version_id'', optional Uuid_t), (''sequence'', required Integer_t),
          (''idempotency_key'', required (Varchar_t 255)), (''question'', required Text_t),
          (''state'', required (Varchar_t 16)), (''answer'', optional Text_t), (''mode'', optional (Varchar_t 32)),
          (''grounded'', optional Boolean_t), (''failure_code'', optional (Varchar_t 64)),
          (''correlation_id'', required (Varchar_t 100)), (''prompt_version'', required (Varchar_t 100)),
          (''retrieval_config_version'', required (Varchar_t 100)), (''model_version'', required (Varchar_t 255)),
          (''created_at'', defaulted Timestamptz_t ''now()''), (''deadline_at'', required Timestamptz_t),
          (''completed_at'', optional Timestamptz_t)]
         [(''messages_pkey'', Primary_key [''id'']),
          (''fk_messages_conversation'', Foreign_key [''course_id'', ''conversation_id''] ''conversations'' [''course_id'', ''id''] ''CASCADE''),
          (''fk_messages_corpus'', Foreign_key [''course_id'', ''corpus_version_id''] ''corpus_versions'' [''course_id'', ''id''] ''RESTRICT''),
          (''uq_messages_idempotency'', Unique_key [''conversation_id'', ''idempotency_key'']),
          (''uq_messages_sequence'', Unique_key [''conversation_id'', ''sequence'']),
          (''uq_messages_scope'', Unique_key [''course_id'', ''corpus_version_id'', ''id'']),
          (''ck_messages_state'', Check_condition [''state''] ''state IN ('pending', 'completed', 'failed')''),
          (''ck_messages_question'', Check_condition [''question''] ''length(btrim(question)) BETWEEN 1 AND 4000''),
          (''ck_messages_sequence'', Check_condition [''sequence''] ''sequence > 0''),
          (''ck_messages_terminal_payload'', Check_condition [''state'', ''answer'', ''mode'', ''grounded'', ''failure_code'', ''completed_at''] ''(state = 'pending' AND answer IS NULL AND mode IS NULL AND grounded IS NULL AND failure_code IS NULL AND completed_at IS NULL) OR (state = 'failed' AND answer IS NULL AND mode IS NULL AND grounded IS NULL AND failure_code IS NOT NULL AND completed_at IS NOT NULL) OR (state = 'completed' AND answer IS NOT NULL AND mode IS NOT NULL AND grounded IS NOT NULL AND failure_code IS NULL AND completed_at IS NOT NULL)''),
          (''ck_messages_mode'', Check_condition [''mode''] ''mode IS NULL OR mode IN ('hint','guided_question','explanation','abstain')'')],
       Create_index ''ix_messages_deadline''
         ((plain_index ''messages'' [''deadline_at''])\<lparr>ix_condition := Some (''state = 'pending'' @ [CHR 0x27])\<rparr>),
       Create_index ''uq_messages_one_pending''
         ((plain_index ''messages'' [''conversation_id''])\<lparr>ix_unique := True, ix_condition := Some (''state = 'pending'' @ [CHR 0x27])\<rparr>),
       Create_table ''retrieved_evidence''
         [(''message_id'', required Uuid_t), (''chunk_id'', required Uuid_t), (''course_id'', required Uuid_t),
          (''corpus_version_id'', required Uuid_t), (''document_version_id'', required Uuid_t),
          (''document_title'', required (Varchar_t 255)), (''document_sha256'', required (Varchar_t 64)),
          (''page_start'', required Integer_t), (''page_end'', required Integer_t),
          (''fragment'', required (Varchar_t 100)), (''content'', required Text_t),
          (''content_hash'', required (Varchar_t 64))]
         [(''retrieved_evidence_pkey'', Primary_key [''message_id'', ''chunk_id'']),
          (''fk_evidence_message'', Foreign_key [''course_id'', ''corpus_version_id'', ''message_id''] ''messages'' [''course_id'', ''corpus_version_id'', ''id''] ''CASCADE''),
          (''fk_evidence_chunk'', Foreign_key [''course_id'', ''corpus_version_id'', ''chunk_id''] ''chunks'' [''course_id'', ''corpus_version_id'', ''id''] ''RESTRICT''),
          (''uq_evidence_scope'', Unique_key [''course_id'', ''message_id'', ''chunk_id''])],
       Create_table ''citations''
         [(''message_id'', required Uuid_t), (''chunk_id'', required Uuid_t), (''course_id'', required Uuid_t),
          (''ordinal'', required Integer_t), (''quote'', required Text_t)]
         [(''citations_pkey'', Primary_key [''message_id'', ''chunk_id'']),
          (''fk_citations_evidence'', Foreign_key [''course_id'', ''message_id'', ''chunk_id''] ''retrieved_evidence'' [''course_id'', ''message_id'', ''chunk_id''] ''CASCADE''),
          (''uq_citations_ordinal'', Unique_key [''message_id'', ''ordinal''])]],
     rv_downgrade = [
       Drop_table ''citations'',
       Drop_table ''retrieved_evidence'',
       Drop_table ''messages'',
       Drop_table ''conversations'',
       Drop_constraint ''chunks'' ''uq_chunks_scope'']\<rparr>"

definition course_creation_0008 :: revision where
  "course_creation_0008 = \<lparr>rv_id = ''20260907_0008'', rv_down = Some ''20260907_0007'',
     rv_upgrade = [
       Create_table ''course_creations''
         [(''user_id'', required Uuid_t), (''idempotency_key'', required (Varchar_t 255)),
          (''course_id'', required Uuid_t)]
         [(''course_creations_user_id_fkey'', Foreign_key [''user_id''] ''users'' [''id''] ''CASCADE''),
          (''course_creations_course_id_fkey'', Foreign_key [''course_id''] ''courses'' [''id''] ''CASCADE''),
          (''course_creations_pkey'', Primary_key [''user_id'', ''idempotency_key''])]],
     rv_downgrade = [
       Drop_table ''course_creations'']\<rparr>"

definition chunk_embeddings_0009 :: revision where
  "chunk_embeddings_0009 = \<lparr>rv_id = ''20261023_0009'', rv_down = Some ''20260907_0008'',
     rv_upgrade = [
       Create_extension ''vector'',
       Create_table ''chunk_embeddings''
         [(''chunk_id'', required Uuid_t), (''course_id'', required Uuid_t), (''corpus_version_id'', required Uuid_t),
          (''embedding_version'', required (Varchar_t 200)), (''dims'', required Integer_t),
          (''embedding'', required Vector_t)]
         [(''chunk_embeddings_pkey'', Primary_key [''chunk_id'', ''embedding_version'']),
          (''ck_chunk_embeddings_dims_positive'', Check_condition [''dims''] ''dims > 0''),
          (''ck_chunk_embeddings_dims'', Check_condition [''embedding'', ''dims''] ''vector_dims(embedding) = dims''),
          (''fk_chunk_embeddings_chunk'', Foreign_key [''course_id'', ''corpus_version_id'', ''chunk_id''] ''chunks'' [''course_id'', ''corpus_version_id'', ''id''] ''CASCADE'')],
       Create_index ''ix_chunk_embeddings_scope'' (plain_index ''chunk_embeddings'' [''course_id'', ''corpus_version_id'', ''embedding_version''])],
     rv_downgrade = [
       Drop_index ''ix_chunk_embeddings_scope'',
       Drop_table ''chunk_embeddings'',
       Drop_extension ''vector'']\<rparr>"

definition tutor_interventions_0010 :: revision where
  "tutor_interventions_0010 = \<lparr>rv_id = ''20261029_0010'', rv_down = Some ''20261023_0009'',
     rv_upgrade = [
       Add_column ''messages'' ''kind'' (defaulted (Varchar_t 16) ''question''),
       Add_column ''messages'' ''intent'' (optional (Varchar_t 16)),
       Add_column ''messages'' ''parent_message_id'' (optional Uuid_t),
       Add_column ''messages'' ''retrieval_query'' (optional Text_t),
       Add_column ''messages'' ''query_version'' (optional (Varchar_t 64)),
       Add_column ''messages'' ''intervention'' (optional Jsonb_t),
       Add_column ''messages'' ''contract_version'' (optional (Varchar_t 64)),
       Add_column ''messages'' ''situation'' (optional (Varchar_t 32)),
       Add_column ''messages'' ''help_level'' (optional Integer_t),
       Add_constraint ''messages'' ''uq_messages_conversation_id'' (Unique_key [''conversation_id'', ''id'']),
       Add_constraint ''messages'' ''fk_messages_parent'' (Foreign_key [''conversation_id'', ''parent_message_id''] ''messages'' [''conversation_id'', ''id''] ''CASCADE''),
       Add_constraint ''messages'' ''ck_messages_kind'' (Check_condition [''kind''] ''kind IN ('question', 'followup', 'action')''),
       Add_constraint ''messages'' ''ck_messages_intent'' (Check_condition [''intent''] ''intent IS NULL OR intent IN ('another_hint', 'explain', 'dont_know')''),
       Add_constraint ''messages'' ''ck_messages_parent'' (Check_condition [''kind'', ''parent_message_id''] ''(kind = 'action') = (parent_message_id IS NOT NULL)''),
       Drop_constraint ''messages'' ''ck_messages_mode'',
       Add_constraint ''messages'' ''ck_messages_mode'' (Check_condition [''mode''] ''mode IS NULL OR mode IN ('hint','guided_question','explanation','abstain','clarify')'')],
     rv_downgrade = [
       Data,
       Drop_constraint ''messages'' ''ck_messages_mode'',
       Add_constraint ''messages'' ''ck_messages_mode'' (Check_condition [''mode''] ''mode IS NULL OR mode IN ('hint','guided_question','explanation','abstain')''),
       Drop_constraint ''messages'' ''ck_messages_parent'',
       Drop_constraint ''messages'' ''ck_messages_intent'',
       Drop_constraint ''messages'' ''ck_messages_kind'',
       Drop_constraint ''messages'' ''fk_messages_parent'',
       Drop_constraint ''messages'' ''uq_messages_conversation_id'',
       Drop_column ''messages'' ''help_level'',
       Drop_column ''messages'' ''situation'',
       Drop_column ''messages'' ''contract_version'',
       Drop_column ''messages'' ''intervention'',
       Drop_column ''messages'' ''query_version'',
       Drop_column ''messages'' ''retrieval_query'',
       Drop_column ''messages'' ''parent_message_id'',
       Drop_column ''messages'' ''intent'',
       Drop_column ''messages'' ''kind'']\<rparr>"

definition revisions :: "revision list" where
  "revisions =
     [baseline_0001, identity_courses_0002, document_ingestion_0003, immutable_storage_version_0004, parser_provenance_0005,
      durable_ingestion_0006, conversations_0007, course_creation_0008, chunk_embeddings_0009, tutor_interventions_0010]"

text \<open>The schema on which revision \<open>k\<close> is applied, coming from an empty database.\<close>

definition migrated :: "nat \<Rightarrow> schema option" where
  "migrated k = execute_all (concat (map rv_upgrade (take k revisions))) empty_schema"

section \<open>Names\<close>

lemma has_name_iff: "has_name n xs \<longleftrightarrow> n \<in> fst ` set xs"
  by (induction n xs rule: has_name.induct) auto

lemma has_name_append [simp]: "has_name n (xs @ ys) \<longleftrightarrow> has_name n xs \<or> has_name n ys"
  by (auto simp: has_name_iff)

lemma all_distinct_iff: "all_distinct xs \<longleftrightarrow> distinct xs"
  by (induction xs) (auto simp: list_ex_iff)

lemma list_ex_member [simp]: "list_ex (\<lambda>x. x = c) xs \<longleftrightarrow> c \<in> set xs" "list_ex (\<lambda>x. c = x) xs \<longleftrightarrow> c \<in> set xs"
  by (auto simp: list_ex_iff)

lemma map_of_named: "map_of xs n = Some v \<Longrightarrow> has_name n xs"
  by (auto simp: has_name_iff dest: map_of_SomeD intro!: image_eqI)

lemma map_of_unnamed: "\<not> has_name n xs \<longleftrightarrow> map_of xs n = None"
  by (auto simp: has_name_iff map_of_eq_None_iff)

lemma without_last: "\<not> has_name n xs \<Longrightarrow> without_name n (xs @ [(n, v)]) = xs"
  by (induction n xs rule: without_name.induct) auto

lemma without_append: "has_name n xs \<Longrightarrow> without_name n (xs @ ys) = without_name n xs @ ys"
  by (induction n xs rule: without_name.induct) auto

lemma without_skip: "\<not> has_name n xs \<Longrightarrow> without_name n (xs @ ys) = xs @ without_name n ys"
  by (induction n xs rule: without_name.induct) auto

lemma map_of_change: "map_of (change_named n f xs) m = (if m = n then map_option f (map_of xs n) else map_of xs m)"
  by (induction n f xs rule: change_named.induct) auto

lemma names_change [simp]: "map fst (change_named n f xs) = map fst xs"
  by (induction n f xs rule: change_named.induct) auto

lemma change_change: "change_named n f (change_named n g xs) = change_named n (\<lambda>x. f (g x)) xs"
  by (induction n g xs rule: change_named.induct) auto

lemma change_same: "map_of xs n = Some v \<Longrightarrow> f v = v \<Longrightarrow> change_named n f xs = xs"
  by (induction n f xs rule: change_named.induct) (auto split: if_splits)

lemma change_cong: "map_of xs n = Some v \<Longrightarrow> f v = g v \<Longrightarrow> change_named n f xs = change_named n g xs"
  by (induction n f xs rule: change_named.induct) (auto split: if_splits)

section \<open>Well-formed schemas\<close>

lemma schema_ok_iff:
  "schema_ok s \<longleftrightarrow> distinct (map fst (sc_tables s)) \<and> distinct (map fst (sc_indexes s)) \<and>
     (\<forall>t tb. map_of (sc_tables s) t = Some tb \<longrightarrow>
        distinct (map fst (tb_columns tb)) \<and> distinct (map fst (tb_constraints tb)) \<and>
        (\<forall>n k. (n, k) \<in> set (tb_constraints tb) \<longrightarrow> constraint_ok s tb k)) \<and>
     (\<forall>n ix. (n, ix) \<in> set (sc_indexes s) \<longrightarrow> index_ok s ix)"
proof (cases "distinct (map fst (sc_tables s))")
  case True
  then have "(t, tb) \<in> set (sc_tables s) \<longleftrightarrow> map_of (sc_tables s) t = Some tb" for t tb by (simp add: map_of_eq_Some_iff)
  then show ?thesis using True by (auto simp: schema_ok_def all_distinct_iff list_all_iff)
qed (simp add: schema_ok_def all_distinct_iff)

lemma ok_constraint:
  "schema_ok s \<Longrightarrow> map_of (sc_tables s) t = Some tb \<Longrightarrow> (n, k) \<in> set (tb_constraints tb) \<Longrightarrow> constraint_ok s tb k"
  unfolding schema_ok_iff by blast

lemma references_iff:
  assumes "distinct (map fst (sc_tables s))"
  shows "rcs \<in> set (references s t) \<longleftrightarrow>
    (\<exists>u tb n k. map_of (sc_tables s) u = Some tb \<and> (n, k) \<in> set (tb_constraints tb) \<and> refers_to t k = Some rcs)"
  using assms by (force simp: references_def List.map_filter_def map_of_eq_Some_iff)

lemma refers_to_Some: "refers_to t k = Some rcs \<Longrightarrow> \<exists>cs od. k = Foreign_key cs t rcs od"
  by (cases k) (auto split: if_splits)

lemma referenced:
  assumes "schema_ok s" "rcs \<in> set (references s t)"
  obtains tb where "map_of (sc_tables s) t = Some tb" "columns_exist tb rcs" "has_key tb rcs"
proof -
  obtain u tb n k where k: "map_of (sc_tables s) u = Some tb" "(n, k) \<in> set (tb_constraints tb)" "refers_to t k = Some rcs"
    using assms references_iff [of s rcs t] by (auto simp: schema_ok_iff)
  then have "constraint_ok s tb k" using assms(1) by (auto simp: schema_ok_iff)
  then show ?thesis using that refers_to_Some [OF k(3)] by (auto split: option.splits)
qed

lemma own_columns_exist: "constraint_ok s tb k \<Longrightarrow> columns_exist tb (own_columns k)"
  by (cases k) auto

text \<open>A schema that only grew keeps its constraints.\<close>

definition table_grows :: "table_def \<Rightarrow> table_def \<Rightarrow> bool" where
  "table_grows tb tb' \<longleftrightarrow> (\<forall>c d. map_of (tb_columns tb) c = Some d \<longrightarrow> map_of (tb_columns tb') c = Some d) \<and>
     set (tb_constraints tb) \<subseteq> set (tb_constraints tb')"

definition schema_grows :: "schema \<Rightarrow> schema \<Rightarrow> bool" where
  "schema_grows s s' \<longleftrightarrow> (\<forall>t tb. map_of (sc_tables s) t = Some tb \<longrightarrow> (\<exists>tb'. map_of (sc_tables s') t = Some tb' \<and> table_grows tb tb'))"

lemma columns_exist_iff: "columns_exist tb cs \<longleftrightarrow> (\<forall>c \<in> set cs. map_of (tb_columns tb) c \<noteq> None)"
  by (auto simp: columns_exist_def list_all_iff map_of_unnamed [symmetric])

lemma columns_exist_mono: "table_grows tb tb' \<Longrightarrow> columns_exist tb cs \<Longrightarrow> columns_exist tb' cs"
  by (force simp: columns_exist_iff table_grows_def)

lemma types_of_mono: "table_grows tb tb' \<Longrightarrow> columns_exist tb cs \<Longrightarrow> types_of tb' cs = types_of tb cs"
  by (force simp: columns_exist_iff table_grows_def types_of_def split: option.splits)

lemma has_key_mono: "set (tb_constraints tb) \<subseteq> set (tb_constraints tb') \<Longrightarrow> has_key tb rcs \<Longrightarrow> has_key tb' rcs"
  by (auto simp: has_key_def list_ex_iff)

lemma constraint_ok_mono:
  assumes "schema_grows s s'" "table_grows tb tb'" "constraint_ok s tb k"
  shows "constraint_ok s' tb' k"
proof (cases k)
  case (Primary_key cs)
  then show ?thesis using assms columns_exist_mono [OF assms(2)]
    by (force simp: list_all_iff table_grows_def columns_exist_iff split: option.splits)
next
  case (Foreign_key cs ref rcs od)
  then obtain tr where tr: "map_of (sc_tables s) ref = Some tr" "columns_exist tr rcs" "types_of tb cs = types_of tr rcs" "has_key tr rcs"
    "columns_exist tb cs" using assms(3) by (auto split: option.splits)
  then obtain tr' where tr': "map_of (sc_tables s') ref = Some tr'" "table_grows tr tr'" using assms(1) by (auto simp: schema_grows_def)
  then have "has_key tr' rcs" using tr has_key_mono by (auto simp: table_grows_def)
  then show ?thesis using Foreign_key tr tr' columns_exist_mono [OF assms(2)] columns_exist_mono [OF tr'(2)] types_of_mono [OF assms(2)]
      types_of_mono [OF tr'(2)] by simp
qed (use assms columns_exist_mono [OF assms(2)] in auto)

lemma index_ok_mono:
  assumes "schema_grows s s'" "index_ok s ix"
  shows "index_ok s' ix"
proof -
  obtain tb where tb: "map_of (sc_tables s) (ix_table ix) = Some tb" "columns_exist tb (ix_columns ix)"
    using assms(2) by (auto simp: index_ok_def split: option.splits)
  then obtain tb' where "map_of (sc_tables s') (ix_table ix) = Some tb'" "table_grows tb tb'"
    using assms(1) by (auto simp: schema_grows_def)
  then show ?thesis using columns_exist_mono tb(2) by (simp add: index_ok_def)
qed

lemma schema_grows_refl: "schema_grows s s" and table_grows_refl: "table_grows tb tb"
  by (auto simp: schema_grows_def table_grows_def)

text \<open>Changing one table of a schema.\<close>

lemma on_table_lookup:
  "map_of (sc_tables (on_table t f s)) u = (if u = t then map_option f (map_of (sc_tables s) t) else map_of (sc_tables s) u)"
  by (simp add: on_table_def map_of_change)

lemma on_table_simps [simp]:
  "sc_indexes (on_table t f s) = sc_indexes s" "sc_extensions (on_table t f s) = sc_extensions s"
  "map fst (sc_tables (on_table t f s)) = map fst (sc_tables s)"
  by (simp_all add: on_table_def)

lemma on_table_twice: "on_table t f (on_table t g s) = on_table t (\<lambda>x. f (g x)) s"
  by (simp add: on_table_def change_change)

lemma on_table_same: "map_of (sc_tables s) t = Some tb \<Longrightarrow> f tb = tb \<Longrightarrow> on_table t f s = s"
  by (simp add: on_table_def change_same)

lemma on_table_cong: "map_of (sc_tables s) t = Some tb \<Longrightarrow> f tb = g tb \<Longrightarrow> on_table t f s = on_table t g s"
  by (simp add: on_table_def cong: change_cong)

lemma on_table_grows:
  assumes "map_of (sc_tables s) t = Some tb" "table_grows tb (f tb)"
  shows "schema_grows s (on_table t f s)"
  using assms table_grows_refl by (auto simp: schema_grows_def on_table_lookup)

lemma on_table_ok:
  assumes "schema_ok s" "map_of (sc_tables s) t = Some tb" "table_grows tb (f tb)"
    "distinct (map fst (tb_columns (f tb)))" "distinct (map fst (tb_constraints (f tb)))"
    "\<And>n k. (n, k) \<in> set (tb_constraints (f tb)) \<Longrightarrow> (n, k) \<notin> set (tb_constraints tb) \<Longrightarrow> constraint_ok s tb k"
  shows "schema_ok (on_table t f s)"
proof -
  have g: "schema_grows s (on_table t f s)" using on_table_grows assms(2,3) .
  have "constraint_ok s tb k" if "(n, k) \<in> set (tb_constraints (f tb))" for n k
    using assms(1,2,6) that by (cases "(n, k) \<in> set (tb_constraints tb)") (auto simp: schema_ok_iff)
  then have "constraint_ok (on_table t f s) (f tb) k" if "(n, k) \<in> set (tb_constraints (f tb))" for n k
    using constraint_ok_mono [OF g assms(3)] that by blast
  moreover have "constraint_ok (on_table t f s) tu k" if "map_of (sc_tables s) u = Some tu" "(n, k) \<in> set (tb_constraints tu)" for u tu n k
    using constraint_ok_mono [OF g table_grows_refl] assms(1) that by (auto simp: schema_ok_iff)
  moreover have "index_ok (on_table t f s) ix" if "(n, ix) \<in> set (sc_indexes s)" for n ix
    using index_ok_mono [OF g] assms(1) that by (auto simp: schema_ok_iff)
  ultimately show ?thesis using assms(1,2,4,5) unfolding schema_ok_iff by (auto simp: on_table_lookup split: if_splits)
qed

text \<open>The statements an upgrade is made of.\<close>

fun growing :: "statement \<Rightarrow> bool" where
  "growing (Create_table t cols cons) = True"
| "growing (Add_column t c d) = True"
| "growing (Add_constraint t n k) = True"
| "growing (Create_index n ix) = True"
| "growing (Create_extension e) = True"
| "growing Data = True"
| "growing _ = False"

lemma new_table_grows:
  assumes "\<not> has_name t (sc_tables s)"
  shows "schema_grows s (s\<lparr>sc_tables := sc_tables s @ [(t, tb)]\<rparr>)"
  using table_grows_refl by (auto simp: schema_grows_def map_add_Some_iff)

lemma new_table_lookup:
  assumes "\<not> has_name t (sc_tables s)"
  shows "map_of (sc_tables s @ [(t, tb)]) u = (if u = t then Some tb else map_of (sc_tables s) u)"
  using assms by (auto simp: map_add_def map_of_unnamed split: option.splits)

lemma growing_ok:
  assumes "execute st s = Some s'" "growing st" "schema_ok s"
  shows "schema_ok s'"
proof (cases st)
  case (Create_table t cols cons)
  define tb where "tb = \<lparr>tb_columns = cols, tb_constraints = cons\<rparr>"
  have e: "s' = s\<lparr>sc_tables := sc_tables s @ [(t, tb)]\<rparr>" "\<not> has_name t (sc_tables s)" "distinct (map fst cols)" "distinct (map fst cons)"
    "list_all (\<lambda>(_, k). constraint_ok s' tb k) cons"
    using assms(1) by (auto simp: Create_table Let_def tb_def all_distinct_iff split: if_splits)
  have g: "schema_grows s s'" unfolding e(1) by (rule new_table_grows) (rule e(2))
  have "constraint_ok s' tu k" if "map_of (sc_tables s) u = Some tu" "(n, k) \<in> set (tb_constraints tu)" for u tu n k
    using constraint_ok_mono [OF g table_grows_refl] assms(3) that by (auto simp: schema_ok_iff)
  moreover have "index_ok s' ix" if "(n, ix) \<in> set (sc_indexes s)" for n ix
    using index_ok_mono [OF g] assms(3) that by (auto simp: schema_ok_iff)
  moreover have l: "map_of (sc_tables s') u = (if u = t then Some tb else map_of (sc_tables s) u)" for u
    using new_table_lookup [OF e(2)] by (simp add: e(1))
  moreover have "distinct (map fst (sc_tables s'))" using assms(3) e(1,2) by (auto simp: schema_ok_iff has_name_iff)
  moreover have "sc_indexes s' = sc_indexes s" by (simp add: e(1))
  ultimately show ?thesis using e(3-5) assms(3) unfolding schema_ok_iff by (auto simp: tb_def list_all_iff split: if_splits)
next
  case (Add_column t c d)
  then obtain tb where tb: "map_of (sc_tables s) t = Some tb" "\<not> has_name c (tb_columns tb)"
    "s' = on_table t (\<lambda>tb. tb\<lparr>tb_columns := tb_columns tb @ [(c, d)]\<rparr>) s"
    using assms(1) by (auto split: option.splits if_splits)
  have "distinct (map fst (tb_columns tb))" "distinct (map fst (tb_constraints tb))" using assms(3) tb(1) by (auto simp: schema_ok_iff)
  then show ?thesis unfolding tb(3)
    by (intro on_table_ok [OF assms(3) tb(1)]) (use tb(2) in \<open>auto simp: has_name_iff table_grows_def map_add_Some_iff\<close>)
next
  case (Add_constraint t n k)
  then obtain tb where tb: "map_of (sc_tables s) t = Some tb" "\<not> has_name n (tb_constraints tb)" "constraint_ok s tb k"
    "s' = on_table t (\<lambda>tb. tb\<lparr>tb_constraints := tb_constraints tb @ [(n, k)]\<rparr>) s"
    using assms(1) by (auto split: option.splits if_splits)
  have "distinct (map fst (tb_columns tb))" "distinct (map fst (tb_constraints tb))" using assms(3) tb(1) by (auto simp: schema_ok_iff)
  then show ?thesis unfolding tb(4)
    by (intro on_table_ok [OF assms(3) tb(1)]) (use tb(2,3) in \<open>auto simp: has_name_iff table_grows_def\<close>)
next
  case (Create_index n ix)
  then have e: "s' = s\<lparr>sc_indexes := sc_indexes s @ [(n, ix)]\<rparr>" "\<not> has_name n (sc_indexes s)" "index_ok s ix"
    using assms(1) by (auto split: if_splits)
  have "schema_grows s s'" using table_grows_refl by (simp add: schema_grows_def e(1))
  then show ?thesis using e assms(3) constraint_ok_mono [OF _ table_grows_refl] index_ok_mono
    unfolding schema_ok_iff by (auto simp: has_name_iff)
next
  case (Create_extension e)
  then have t: "sc_tables s' = sc_tables s" "sc_indexes s' = sc_indexes s" using assms(1) by (auto split: if_splits)
  then have "schema_grows s s'" using table_grows_refl by (simp add: schema_grows_def)
  then show ?thesis using t assms(3) constraint_ok_mono [OF _ table_grows_refl] index_ok_mono unfolding schema_ok_iff by auto
qed (use assms in auto)

lemma growing_all_ok:
  "execute_all sts s = Some s' \<Longrightarrow> list_all growing sts \<Longrightarrow> schema_ok s \<Longrightarrow> schema_ok s'"
proof (induction sts arbitrary: s)
  case (Cons st sts)
  then show ?case using growing_ok [of st s] by (auto split: option.splits)
qed simp

lemma execute_all_append:
  "execute_all (xs @ ys) s = (case execute_all xs s of None \<Rightarrow> None | Some s' \<Rightarrow> execute_all ys s')"
  by (induction xs arbitrary: s) (auto split: option.splits)

section \<open>Undoing statements\<close>

definition undoes :: "statement list \<Rightarrow> statement list \<Rightarrow> bool" where
  "undoes d u \<longleftrightarrow> list_all growing u \<and>
     (\<forall>s s'. schema_ok s \<longrightarrow> execute_all u s = Some s' \<longrightarrow> execute_all d s' = Some s)"

lemma undoes_append:
  assumes "undoes d1 u1" "undoes d2 u2"
  shows "undoes (d2 @ d1) (u1 @ u2)"
  unfolding undoes_def
proof (intro conjI allI impI)
  fix s s' assume s: "schema_ok s" "execute_all (u1 @ u2) s = Some s'"
  then obtain s1 where s1: "execute_all u1 s = Some s1" "execute_all u2 s1 = Some s'"
    by (auto simp: execute_all_append split: option.splits)
  have "schema_ok s1" using growing_all_ok [OF s1(1)] s(1) assms(1) by (simp add: undoes_def)
  then show "execute_all (d2 @ d1) s' = Some s" using assms s s1 by (simp add: undoes_def execute_all_append)
qed (use assms in \<open>simp add: undoes_def\<close>)

lemma undoes_data: "undoes [] [Data]"
  by (simp add: undoes_def)

lemma undoes_nothing: "undoes [] []"
  by (simp add: undoes_def)

lemma undoes_index: "undoes [Drop_index n] [Create_index n ix]"
  by (auto simp: undoes_def has_name_iff without_last split: if_splits)

lemma no_references:
  assumes "schema_ok s" "\<not> has_name t (sc_tables s)"
  shows "references s t = []" "(n, ix) \<in> set (sc_indexes s) \<Longrightarrow> ix_table ix \<noteq> t"
proof -
  have t: "map_of (sc_tables s) t = None" using assms(2) by (simp add: map_of_unnamed)
  have "rcs \<notin> set (references s t)" for rcs using referenced [OF assms(1), of rcs t] t by auto
  then show "references s t = []" by (cases "references s t") auto
  show "ix_table ix \<noteq> t" if "(n, ix) \<in> set (sc_indexes s)"
  proof -
    have "index_ok s ix" using assms(1) that unfolding schema_ok_iff by blast
    then show ?thesis using t by (auto simp: index_ok_def split: option.splits)
  qed
qed

lemma create_indexes:
  "execute_all (map (\<lambda>(n, ix). Create_index n ix) ixs) s = Some s' \<Longrightarrow> s' = s\<lparr>sc_indexes := sc_indexes s @ ixs\<rparr>"
proof (induction ixs arbitrary: s)
  case (Cons i ixs)
  obtain n ix where i: "i = (n, ix)" by (cases i)
  define s1 where "s1 = s\<lparr>sc_indexes := sc_indexes s @ [(n, ix)]\<rparr>"
  have "execute_all (map (\<lambda>(n, ix). Create_index n ix) ixs) s1 = Some s'"
    using Cons.prems by (auto simp: i s1_def split: if_splits)
  then show ?case using Cons.IH [of s1] by (simp add: s1_def i)
qed simp

text \<open>A dropped table takes its indexes with it.\<close>

lemma undoes_table:
  assumes "list_all (\<lambda>(_, ix). ix_table ix = t) ixs"
  shows "undoes [Drop_table t] (Create_table t cols cons # map (\<lambda>(n, ix). Create_index n ix) ixs)"
  unfolding undoes_def
proof (intro conjI allI impI)
  fix s s' assume s: "schema_ok s" "execute_all (Create_table t cols cons # map (\<lambda>(n, ix). Create_index n ix) ixs) s = Some s'"
  define tb where "tb = \<lparr>tb_columns = cols, tb_constraints = cons\<rparr>"
  obtain s1 where s1: "execute (Create_table t cols cons) s = Some s1" "execute_all (map (\<lambda>(n, ix). Create_index n ix) ixs) s1 = Some s'"
    using s(2) unfolding execute_all.simps by (auto simp del: execute.simps split: option.splits)
  have f: "\<not> has_name t (sc_tables s)" "s1 = s\<lparr>sc_tables := sc_tables s @ [(t, tb)]\<rparr>"
    using s1(1) by (auto simp: Let_def tb_def split: if_splits)
  have e: "s' = s\<lparr>sc_tables := sc_tables s @ [(t, tb)], sc_indexes := sc_indexes s @ ixs\<rparr>"
    using create_indexes [OF s1(2)] f(2) by simp
  have i: "filter (\<lambda>(_, ix). ix_table ix \<noteq> t) (sc_indexes s @ ixs) = sc_indexes s"
  proof -
    have "filter (\<lambda>(_, ix). ix_table ix \<noteq> t) (sc_indexes s) = sc_indexes s"
      using no_references(2) [OF s(1) f(1)] by (auto simp: filter_id_conv)
    moreover have "filter (\<lambda>(_, ix). ix_table ix \<noteq> t) ixs = []" using assms by (auto simp: filter_empty_conv list_all_iff)
    ultimately show ?thesis by simp
  qed
  have r: "references (s\<lparr>sc_tables := sc_tables s, sc_indexes := sc_indexes s\<rparr>) t = []" using no_references(1) [OF s(1) f(1)] by simp
  show "execute_all [Drop_table t] s' = Some s"
    using r i without_last [OF f(1), of tb] by (simp add: e Let_def has_name_iff)
qed (auto simp: list_all_iff)

lemma references_on_table:
  assumes "\<And>tb. tb_constraints (f tb) = tb_constraints tb" "schema_ok s"
  shows "set (references (on_table t f s) u) = set (references s u)"
proof -
  have d: "distinct (map fst (sc_tables (on_table t f s)))" "distinct (map fst (sc_tables s))" using assms(2) by (simp_all add: schema_ok_iff)
  show ?thesis using assms(1) references_iff [OF d(1)] references_iff [OF d(2)]
    by (auto simp: on_table_lookup split: if_splits) (metis option.simps(9))+
qed

lemma undoes_column: "undoes [Drop_column t c] [Add_column t c d]"
  unfolding undoes_def
proof (intro conjI allI impI)
  fix s s' assume s: "schema_ok s" "execute_all [Add_column t c d] s = Some s'"
  define f :: "table_def \<Rightarrow> table_def" where "f = (\<lambda>tb. tb\<lparr>tb_columns := tb_columns tb @ [(c, d)]\<rparr>)"
  obtain tb where tb: "map_of (sc_tables s) t = Some tb" "\<not> has_name c (tb_columns tb)" "s' = on_table t f s"
    using s(2) by (auto simp: f_def split: option.splits if_splits)
  have n: "c \<notin> set cs" if "columns_exist tb cs" for cs
    using that tb(2) by (auto simp: columns_exist_iff map_of_unnamed)
  have "c \<notin> set (own_columns k)" if "(m, k) \<in> set (tb_constraints tb)" for m k
    using n [OF own_columns_exist [OF ok_constraint [OF s(1) tb(1) that]]] .
  moreover have "c \<notin> set rcs" if "rcs \<in> set (references s' t)" for rcs
  proof -
    have "rcs \<in> set (references s t)" using that references_on_table [OF _ s(1), of f] by (simp add: tb(3) f_def)
    then show ?thesis using referenced [OF s(1)] n tb(1) by (metis option.inject)
  qed
  moreover have "c \<notin> set (ix_columns ix)" if "(m, ix) \<in> set (sc_indexes s)" "ix_table ix = t" for m ix
  proof -
    have "index_ok s ix" using s(1) that unfolding schema_ok_iff by blast
    then show ?thesis using n tb(1) that(2) by (simp add: index_ok_def)
  qed
  ultimately have free: "column_free s' t (f tb) c" by (auto simp: column_free_def list_all_iff f_def tb(3))
  have b: "on_table t (\<lambda>tb. tb\<lparr>tb_columns := without_name c (tb_columns tb)\<rparr>) s' = s"
    unfolding tb(3) on_table_twice by (rule on_table_same [OF tb(1)]) (simp add: f_def without_last [OF tb(2)])
  have l: "map_of (sc_tables s') t = Some (f tb)" by (simp add: tb on_table_lookup)
  have h: "has_name c (tb_columns (f tb))" by (simp add: f_def)
  show "execute_all [Drop_column t c] s' = Some s" using free b l h by simp
qed simp

lemma undoes_constraint: "undoes [Drop_constraint t n] [Add_constraint t n k]"
  unfolding undoes_def
proof (intro conjI allI impI)
  fix s s' assume s: "schema_ok s" "execute_all [Add_constraint t n k] s = Some s'"
  define f :: "table_def \<Rightarrow> table_def" where "f = (\<lambda>tb. tb\<lparr>tb_constraints := tb_constraints tb @ [(n, k)]\<rparr>)"
  obtain tb where tb: "map_of (sc_tables s) t = Some tb" "\<not> has_name n (tb_constraints tb)" "s' = on_table t f s"
    using s(2) by (auto simp: f_def split: option.splits if_splits)
  have b: "on_table t (\<lambda>tb. tb\<lparr>tb_constraints := without_name n (tb_constraints tb)\<rparr>) s' = s"
    unfolding tb(3) on_table_twice by (rule on_table_same [OF tb(1)]) (simp add: f_def without_last [OF tb(2)])
  have l: "map_of (sc_tables s') t = Some (f tb)" by (simp add: tb on_table_lookup)
  have w: "f tb\<lparr>tb_constraints := without_name n (tb_constraints (f tb))\<rparr> = tb" by (simp add: f_def without_last [OF tb(2)])
  have "has_key tb rcs" if "rcs \<in> set (references s t)" for rcs using referenced [OF s(1) that] tb(1) by (metis option.inject)
  then have "list_all (has_key tb) (references s t)" by (simp add: list_all_iff)
  moreover have "has_name n (tb_constraints (f tb))" by (simp add: f_def)
  ultimately show "execute_all [Drop_constraint t n] s' = Some s"
    unfolding execute_all.simps execute.simps l option.case Let_def w b by simp
qed simp

text \<open>One statement more at the beginning of the upgrade, one more at the end of the downgrade.\<close>

lemma undoes_more:
  assumes "undoes [x] u1" "undoes (rev xs) u"
  shows "undoes (rev (x # xs)) (u1 @ u)"
  using undoes_append [OF assms] by simp

lemmas undoes_table_0 = undoes_more [OF undoes_table [of _ "[]", simplified], simplified append_Cons append_Nil]
lemmas undoes_column_0 = undoes_more [OF undoes_column, simplified append_Cons append_Nil]
lemmas undoes_constraint_0 = undoes_more [OF undoes_constraint, simplified append_Cons append_Nil]
lemmas undoes_index_0 = undoes_more [OF undoes_index, simplified append_Cons append_Nil]

lemma undoes_table_1:
  assumes "undoes (rev xs) u" "ix_table ix = t"
  shows "undoes (rev (Drop_table t # xs)) (Create_table t cols cons # Create_index n ix # u)"
  using undoes_more [OF undoes_table [of t "[(n, ix)]" cols cons] assms(1)] assms(2) by simp

lemma undoes_table_2:
  assumes "undoes (rev xs) u" "ix_table ix = t" "ix_table jx = t"
  shows "undoes (rev (Drop_table t # xs)) (Create_table t cols cons # Create_index n ix # Create_index m jx # u)"
  using undoes_more [OF undoes_table [of t "[(n, ix), (m, jx)]" cols cons] assms(1)] assms(2,3) by simp

lemma undoes_data_0: "undoes (rev xs) u \<Longrightarrow> undoes (rev xs) (Data # u)"
  using undoes_append [OF undoes_data] by fastforce

lemma undoes_nil: "undoes (rev []) []"
  by (simp add: undoes_nothing)

lemma undoes_revision:
  assumes "undoes (rev xs) u" "rev xs = d"
  shows "undoes d u"
  using assms by simp

lemmas undoes_rules = undoes_table_0 undoes_column_0 undoes_constraint_0 undoes_index_0 undoes_data_0 undoes_nil

lemma undoes_0002: "undoes (rv_downgrade identity_courses_0002) (rv_upgrade identity_courses_0002)"
  unfolding identity_courses_0002_def revision.simps
  by (rule undoes_revision, (rule undoes_rules)+) simp

lemma undoes_0003: "undoes (rv_downgrade document_ingestion_0003) (rv_upgrade document_ingestion_0003)"
  unfolding revision_0003 revision.simps append.simps
  by (rule undoes_revision, (rule undoes_rules)+) simp

lemma undoes_0004: "undoes (rv_downgrade immutable_storage_version_0004) (rv_upgrade immutable_storage_version_0004)"
  unfolding immutable_storage_version_0004_def revision.simps
  by (rule undoes_revision, (rule undoes_rules)+) simp

lemma undoes_0005: "undoes (rv_downgrade parser_provenance_0005) (rv_upgrade parser_provenance_0005)"
  unfolding parser_provenance_0005_def revision.simps
  by (rule undoes_revision, (rule undoes_rules)+) simp

lemma undoes_0006: "undoes (rv_downgrade durable_ingestion_0006) (rv_upgrade durable_ingestion_0006)"
  unfolding durable_ingestion_0006_def revision.simps
  by (rule undoes_revision, (rule undoes_table_1 undoes_rules)+) (simp_all add: plain_index_def)

lemma undoes_0007: "undoes (rv_downgrade conversations_0007) (rv_upgrade conversations_0007)"
  unfolding conversations_0007_def revision.simps
  by (rule undoes_revision, (rule undoes_table_2 undoes_rules)+) (simp_all add: plain_index_def)

lemma undoes_0008: "undoes (rv_downgrade course_creation_0008) (rv_upgrade course_creation_0008)"
  unfolding course_creation_0008_def revision.simps
  by (rule undoes_revision, (rule undoes_rules)+) simp

text \<open>Revision 0009 creates an extension if it is missing.\<close>

lemma undoes_0009:
  assumes "schema_ok s" "execute_all (rv_upgrade chunk_embeddings_0009) s = Some s'" "''vector'' \<notin> set (sc_extensions s)"
  shows "execute_all (rv_downgrade chunk_embeddings_0009) s' = Some s"
proof -
  define u d where "u = tl (rv_upgrade chunk_embeddings_0009)" and "d = butlast (rv_downgrade chunk_embeddings_0009)"
  have e: "rv_upgrade chunk_embeddings_0009 = Create_extension ''vector'' # u" "rv_downgrade chunk_embeddings_0009 = d @ [Drop_extension ''vector'']"
    by (simp_all add: u_def d_def chunk_embeddings_0009_def)
  have "undoes d u"
    unfolding u_def d_def chunk_embeddings_0009_def revision.simps list.sel butlast.simps
    by (rule undoes_revision, (rule undoes_rules)+) simp
  define s1 where "s1 = s\<lparr>sc_extensions := sc_extensions s @ [''vector'']\<rparr>"
  have s1: "execute (Create_extension ''vector'') s = Some s1" using assms(3) by (simp add: s1_def)
  then have "schema_ok s1" by (rule growing_ok) (use assms(1) in simp_all)
  moreover have "execute_all u s1 = Some s'" using assms(2) s1 by (simp add: e)
  ultimately have "execute_all d s' = Some s1" using \<open>undoes d u\<close> by (simp add: undoes_def)
  moreover have "filter (\<lambda>x. x \<noteq> ''vector'') (sc_extensions s) = sc_extensions s" using assms(3) by (auto simp: filter_id_conv)
  ultimately show ?thesis by (simp add: e execute_all_append s1_def)
qed

text \<open>Revision 0010 replaces a check in the middle of what it adds to one table.\<close>

definition with_constraints :: "string \<Rightarrow> schema \<Rightarrow> (string \<times> constraint_def) list \<Rightarrow> schema" where
  "with_constraints t s ks = on_table t (\<lambda>tb. tb\<lparr>tb_constraints := ks\<rparr>) s"

lemma with_constraints_lookup:
  "map_of (sc_tables s) t = Some tb \<Longrightarrow> map_of (sc_tables (with_constraints t s ks)) t = Some (tb\<lparr>tb_constraints := ks\<rparr>)"
  by (simp add: with_constraints_def on_table_lookup)

lemma with_constraints_step:
  assumes "map_of (sc_tables s) t = Some tb"
  shows "on_table t (\<lambda>tb. tb\<lparr>tb_constraints := f (tb_constraints tb)\<rparr>) (with_constraints t s ks) = with_constraints t s (f ks)"
  unfolding with_constraints_def on_table_twice by simp

lemma add_in:
  assumes "map_of (sc_tables s) t = Some tb" "execute (Add_constraint t n k) (with_constraints t s ks) = Some s'"
  shows "s' = with_constraints t s (ks @ [(n, k)]) \<and> \<not> has_name n ks"
  using assms(2) with_constraints_lookup [OF assms(1), of ks] with_constraints_step [OF assms(1), of "\<lambda>xs. xs @ [(n, k)]" ks]
  by (auto split: if_splits)

lemma drop_in:
  assumes "map_of (sc_tables s) t = Some tb" "execute (Drop_constraint t n) (with_constraints t s ks) = Some s'"
  shows "s' = with_constraints t s (without_name n ks)"
  using assms(2) with_constraints_lookup [OF assms(1), of ks] with_constraints_step [OF assms(1), of "without_name n" ks]
  by (auto simp: Let_def split: if_splits)

lemma references_with_constraints:
  assumes "schema_ok s" "rcs \<in> set (references (with_constraints t s ks) u)"
  shows "rcs \<in> set (references s u) \<or> (\<exists>n k. (n, k) \<in> set ks \<and> refers_to u k = Some rcs)"
proof -
  have d: "distinct (map fst (sc_tables (with_constraints t s ks)))" "distinct (map fst (sc_tables s))"
    using assms(1) by (simp_all add: schema_ok_iff with_constraints_def)
  obtain v tb n k where v: "map_of (sc_tables (with_constraints t s ks)) v = Some tb" "(n, k) \<in> set (tb_constraints tb)" "refers_to u k = Some rcs"
    using assms(2) references_iff [OF d(1)] by blast
  show ?thesis
  proof (cases "v = t")
    case True
    then have "tb_constraints tb = ks" using v(1) by (auto simp: with_constraints_def on_table_lookup)
    then show ?thesis using v(2,3) by blast
  next
    case False
    then have "map_of (sc_tables s) v = Some tb" using v(1) by (simp add: with_constraints_def on_table_lookup)
    then show ?thesis using v(2,3) references_iff [OF d(2)] by blast
  qed
qed

lemma drop_succeeds:
  assumes "schema_ok s" "map_of (sc_tables s) t = Some tb" "has_name n ks"
    and "\<And>m k rcs. (m, k) \<in> set (without_name n ks) \<Longrightarrow> refers_to t k = Some rcs \<Longrightarrow> has_key (tb\<lparr>tb_constraints := without_name n ks\<rparr>) rcs"
    and "\<And>rcs. has_key tb rcs \<Longrightarrow> has_key (tb\<lparr>tb_constraints := without_name n ks\<rparr>) rcs"
  shows "execute (Drop_constraint t n) (with_constraints t s ks) = Some (with_constraints t s (without_name n ks))"
proof -
  have "has_key (tb\<lparr>tb_constraints := without_name n ks\<rparr>) rcs" if "rcs \<in> set (references (with_constraints t s (without_name n ks)) t)" for rcs
    using references_with_constraints [OF assms(1) that] assms(4,5) referenced [OF assms(1), of rcs t] assms(2) by (metis option.inject)
  then have "list_all (has_key (tb\<lparr>tb_constraints := without_name n ks\<rparr>)) (references (with_constraints t s (without_name n ks)) t)"
    by (simp add: list_all_iff)
  then show ?thesis
    using assms(3) with_constraints_lookup [OF assms(2), of ks] with_constraints_step [OF assms(2), of "without_name n" ks]
    by (simp add: Let_def)
qed

lemma replaced_check:
  fixes t :: string and s :: schema
  assumes five_def: "five = [(uq, Unique_key K), (fk, Foreign_key F t K od), (c1, Check_condition a1 e1), (c2, Check_condition a2 e2), (c3, Check_condition a3 e3)]"
    and ok: "schema_ok s" and tb: "map_of (sc_tables s) t = Some tb" "tb_constraints tb = C @ [(m, Check_condition a e)]"
    and up: "execute_all (map (\<lambda>(n, k). Add_constraint t n k) five @ [Drop_constraint t m, Add_constraint t m (Check_condition a e')]) s = Some s'"
  shows "execute_all ([Drop_constraint t m, Add_constraint t m (Check_condition a e)] @
      map (Drop_constraint t) [c3, c2, c1, fk, uq]) s' = Some s"
proof -
  let ?W = "with_constraints t s" and ?old = "(m, Check_condition a e)" and ?new = "(m, Check_condition a e')"
  have self: "?W (C @ [?old]) = s" unfolding with_constraints_def by (rule on_table_same [OF tb(1)]) (simp add: tb(2) [symmetric])
  obtain s1 s2 s3 s4 s5 s6 where st: "execute (Add_constraint t uq (Unique_key K)) s = Some s1"
    "execute (Add_constraint t fk (Foreign_key F t K od)) s1 = Some s2" "execute (Add_constraint t c1 (Check_condition a1 e1)) s2 = Some s3"
    "execute (Add_constraint t c2 (Check_condition a2 e2)) s3 = Some s4" "execute (Add_constraint t c3 (Check_condition a3 e3)) s4 = Some s5"
    "execute (Drop_constraint t m) s5 = Some s6" "execute (Add_constraint t m (Check_condition a e')) s6 = Some s'"
    using up unfolding five_def by (auto simp del: execute.simps split: option.splits)
  note a1 = add_in [OF tb(1), of _ _ "C @ [?old]", unfolded self, OF st(1)]
  note a2 = add_in [OF tb(1) st(2) [unfolded conjunct1 [OF a1]]]
  note a3 = add_in [OF tb(1) st(3) [unfolded conjunct1 [OF a2]]]
  note a4 = add_in [OF tb(1) st(4) [unfolded conjunct1 [OF a3]]]
  note a5 = add_in [OF tb(1) st(5) [unfolded conjunct1 [OF a4]]]
  have f: "((((((C @ [?old]) @ [(uq, Unique_key K)]) @ [(fk, Foreign_key F t K od)]) @ [(c1, Check_condition a1 e1)]) @
      [(c2, Check_condition a2 e2)]) @ [(c3, Check_condition a3 e3)]) = C @ ?old # five" by (simp add: five_def)
  have "distinct (map fst (tb_constraints tb))" using ok tb(1) unfolding schema_ok_iff by blast
  then have mC: "\<not> has_name m C" by (simp add: tb(2) has_name_iff)
  have s6: "s6 = ?W (C @ five)"
    using drop_in [OF tb(1) st(6) [unfolded conjunct1 [OF a5] f]] without_skip [OF mC, of "?old # five"] by simp
  note a7 = add_in [OF tb(1) st(7) [unfolded s6]]
  have s': "s' = ?W ((C @ five) @ [?new])" using a7 by blast
  have n5: "\<not> has_name m (C @ five)" using a7 by blast
  have names: "\<not> has_name uq C" "\<not> has_name fk C" "\<not> has_name c1 C" "\<not> has_name c2 C" "\<not> has_name c3 C"
    "fk \<noteq> uq" "c1 \<noteq> uq" "c1 \<noteq> fk" "c2 \<noteq> uq" "c2 \<noteq> fk" "c2 \<noteq> c1" "c3 \<noteq> uq" "c3 \<noteq> fk" "c3 \<noteq> c1" "c3 \<noteq> c2"
    "uq \<noteq> m" "fk \<noteq> m" "c1 \<noteq> m" "c2 \<noteq> m" "c3 \<noteq> m"
    using a1 a2 a3 a4 a5 by auto
  have keep: "has_key (tb\<lparr>tb_constraints := C @ xs\<rparr>) rcs" if "has_key tb rcs" for xs rcs
    using that by (auto simp: has_key_def tb(2) list_ex_iff)
  have own: "has_key (tb\<lparr>tb_constraints := C @ xs\<rparr>) rcs" if "(n, k) \<in> set C" "refers_to t k = Some rcs" for n k rcs xs
  proof -
    have "constraint_ok s tb k" using ok_constraint [OF ok tb(1), of n k] that(1) by (simp add: tb(2))
    then have "has_key tb rcs" using refers_to_Some [OF that(2)] tb(1) by auto
    then show ?thesis by (rule keep)
  qed
  have refl: "same_members K K" by (auto simp: same_members_def list_all_iff)
  have key: "has_key (tb\<lparr>tb_constraints := C @ (uq, Unique_key K) # xs\<rparr>) K" for xs using refl by (auto simp: has_key_def)
  have w: "without_name m ((C @ five) @ [?new]) = C @ five" by (rule without_last [OF n5])
  have r: "has_key (tb\<lparr>tb_constraints := C @ five\<rparr>) rcs" if "(j, k) \<in> set (C @ five)" "refers_to t k = Some rcs" for j k rcs
  proof (cases "(j, k) \<in> set C")
    case False
    then have "k = Foreign_key F t K od" using that by (auto simp: five_def)
    then show ?thesis using that(2) key by (simp add: five_def)
  qed (use own that(2) in blast)
  have d1: "execute (Drop_constraint t m) s' = Some (?W (C @ five))"
    unfolding s' by (rule drop_succeeds [OF ok tb(1), of m "(C @ five) @ [?new]", unfolded w]) (use r keep in \<open>auto simp: has_name_iff\<close>)
  have c: "columns_exist tb a" using ok_constraint [OF ok tb(1), of m "Check_condition a e"] tb(2) by simp
  then have d2: "execute (Add_constraint t m (Check_condition a e)) (?W (C @ five)) = Some (?W (C @ five @ [?old]))"
    using n5 with_constraints_lookup [OF tb(1), of "C @ five"] with_constraints_step [OF tb(1), of "\<lambda>xs. xs @ [?old]" "C @ five"]
    by (simp add: columns_exist_def)
  have d: "execute (Drop_constraint t n) (?W (C @ ys)) = Some (?W (C @ zs))"
    if h: "\<not> has_name n C" "has_name n ys" "without_name n ys = zs"
      "\<And>j k rcs. (j, k) \<in> set zs \<Longrightarrow> refers_to t k = Some rcs \<Longrightarrow> rcs = K \<and> (\<exists>xs. zs = (uq, Unique_key K) # xs)" for n ys zs
  proof -
    have z: "without_name n (C @ ys) = C @ zs" using without_skip [OF h(1), of ys] h(3) by simp
    have "has_key (tb\<lparr>tb_constraints := C @ zs\<rparr>) rcs" if "(j, k) \<in> set (C @ zs)" "refers_to t k = Some rcs" for j k rcs
    proof (cases "(j, k) \<in> set C")
      case False
      then have "rcs = K \<and> (\<exists>xs. zs = (uq, Unique_key K) # xs)" using that h(4) by auto
      then show ?thesis using key by auto
    qed (use own that(2) in blast)
    then show ?thesis by (intro drop_succeeds [OF ok tb(1), of n "C @ ys", unfolded z]) (use h(2) keep in auto)
  qed
  have d3: "execute (Drop_constraint t c3) (?W (C @ five @ [?old])) =
      Some (?W (C @ [(uq, Unique_key K), (fk, Foreign_key F t K od), (c1, Check_condition a1 e1), (c2, Check_condition a2 e2), ?old]))"
    by (rule d) (use names in \<open>auto simp: five_def\<close>)
  have d4: "execute (Drop_constraint t c2) (?W (C @ [(uq, Unique_key K), (fk, Foreign_key F t K od), (c1, Check_condition a1 e1), (c2, Check_condition a2 e2), ?old])) =
      Some (?W (C @ [(uq, Unique_key K), (fk, Foreign_key F t K od), (c1, Check_condition a1 e1), ?old]))"
    by (rule d) (use names in auto)
  have d5: "execute (Drop_constraint t c1) (?W (C @ [(uq, Unique_key K), (fk, Foreign_key F t K od), (c1, Check_condition a1 e1), ?old])) =
      Some (?W (C @ [(uq, Unique_key K), (fk, Foreign_key F t K od), ?old]))"
    by (rule d) (use names in auto)
  have d6: "execute (Drop_constraint t fk) (?W (C @ [(uq, Unique_key K), (fk, Foreign_key F t K od), ?old])) =
      Some (?W (C @ [(uq, Unique_key K), ?old]))"
    by (rule d) (use names in auto)
  have d7: "execute (Drop_constraint t uq) (?W (C @ [(uq, Unique_key K), ?old])) = Some (?W (C @ [?old]))"
    by (rule d) (use names in auto)
  show ?thesis using d1 d2 d3 d4 d5 d6 d7 self by (simp del: execute.simps)
qed

section \<open>What a revision starts from\<close>

text \<open>The table a statement changes.\<close>

fun touched :: "statement \<Rightarrow> string option" where
  "touched (Create_table t cols cons) = Some t"
| "touched (Drop_table t) = Some t"
| "touched (Add_column t c d) = Some t"
| "touched (Drop_column t c) = Some t"
| "touched (Add_constraint t n k) = Some t"
| "touched (Drop_constraint t n) = Some t"
| "touched _ = None"

lemma untouched:
  assumes "execute st s = Some s'" "growing st" "touched st \<noteq> Some t"
  shows "map_of (sc_tables s') t = map_of (sc_tables s) t"
proof (cases st)
  case (Create_table u cols cons)
  then show ?thesis using assms by (auto simp: Let_def new_table_lookup simp del: map_of_append split: if_splits)
qed (use assms in \<open>auto simp: on_table_lookup split: option.splits if_splits\<close>)

lemma untouched_all:
  "execute_all sts s = Some s' \<Longrightarrow> list_all (\<lambda>st. growing st \<and> touched st \<noteq> Some t) sts \<Longrightarrow>
   map_of (sc_tables s') t = map_of (sc_tables s) t"
proof (induction sts arbitrary: s)
  case (Cons st sts)
  then show ?case using untouched [of st s] by (auto split: option.splits)
qed simp

lemma created:
  "execute (Create_table t cols cons) s = Some s' \<Longrightarrow>
   map_of (sc_tables s') t = Some \<lparr>tb_columns = cols, tb_constraints = cons\<rparr>"
  by (auto simp: Let_def new_table_lookup simp del: map_of_append split: if_splits)

fun makes_extension :: "statement \<Rightarrow> bool" where
  "makes_extension (Create_extension e) = True"
| "makes_extension _ = False"

lemma no_extension:
  "execute_all sts s = Some s' \<Longrightarrow> list_all (\<lambda>st. growing st \<and> \<not> makes_extension st) sts \<Longrightarrow>
   sc_extensions s' = sc_extensions s"
proof (induction sts arbitrary: s)
  case (Cons st sts)
  then obtain s1 where s1: "execute st s = Some s1" "execute_all sts s1 = Some s'" by (auto split: option.splits)
  have "sc_extensions s1 = sc_extensions s"
    using s1(1) Cons.prems(2) by (cases st) (auto simp: Let_def split: option.splits if_splits)
  then show ?case using Cons.IH [OF s1(2)] Cons.prems(2) by simp
qed simp

lemma empty_schema_ok: "schema_ok empty_schema"
  by (simp add: schema_ok_def empty_schema_def)

lemmas early_revisions = baseline_0001_def identity_courses_0002_def revision_0003 immutable_storage_version_0004_def
  parser_provenance_0005_def durable_ingestion_0006_def conversations_0007_def course_creation_0008_def chunk_embeddings_0009_def

lemma early_growing:
  "list_all growing (rv_upgrade baseline_0001)" "list_all growing (rv_upgrade identity_courses_0002)"
  "list_all growing (rv_upgrade document_ingestion_0003)" "list_all growing (rv_upgrade immutable_storage_version_0004)"
  "list_all growing (rv_upgrade parser_provenance_0005)" "list_all growing (rv_upgrade durable_ingestion_0006)"
  "list_all growing (rv_upgrade conversations_0007)" "list_all growing (rv_upgrade course_creation_0008)"
  "list_all growing (rv_upgrade chunk_embeddings_0009)"
  by (simp_all add: early_revisions)

lemma migrated_ok:
  assumes "migrated k = Some s" "k < 10"
  shows "schema_ok s"
proof -
  have "list_all growing (concat (map rv_upgrade (take k revisions)))"
    using early_growing assms(2) by (auto simp: revisions_def less_Suc_eq numeral_eq_Suc)
  then show ?thesis using growing_all_ok [OF assms(1) [unfolded migrated_def]] empty_schema_ok by simp
qed

lemma messages_before_0010:
  assumes "migrated 9 = Some s"
  shows "\<exists>cols C. map_of (sc_tables s) ''messages'' = Some \<lparr>tb_columns = cols, tb_constraints = C @ [(''ck_messages_mode'',
    Check_condition [''mode''] ''mode IS NULL OR mode IN ('hint','guided_question','explanation','abstain')'')]\<rparr>"
proof -
  define before after7 where "before = concat (map rv_upgrade (take 6 revisions)) @ take 2 (rv_upgrade conversations_0007)"
    and "after7 = drop 3 (rv_upgrade conversations_0007) @ rv_upgrade course_creation_0008 @ rv_upgrade chunk_embeddings_0009"
  obtain cols C where c: "rv_upgrade conversations_0007 ! 2 = Create_table ''messages'' cols (C @ [(''ck_messages_mode'',
      Check_condition [''mode''] ''mode IS NULL OR mode IN ('hint','guided_question','explanation','abstain')'')])"
  proof -
    have "\<exists>cols cons. rv_upgrade conversations_0007 ! 2 = Create_table ''messages'' cols cons \<and> cons = butlast cons @ [(''ck_messages_mode'',
      Check_condition [''mode''] ''mode IS NULL OR mode IN ('hint','guided_question','explanation','abstain')'')]"
      by (simp add: conversations_0007_def)
    then show ?thesis using that by metis
  qed
  let ?ct = "rv_upgrade conversations_0007 ! 2"
  have seven: "rv_upgrade conversations_0007 = take 2 (rv_upgrade conversations_0007) @ ?ct # drop 3 (rv_upgrade conversations_0007)"
    by (simp add: conversations_0007_def)
  have "concat (map rv_upgrade (take 9 revisions)) = concat (map rv_upgrade (take 6 revisions)) @ rv_upgrade conversations_0007 @
      rv_upgrade course_creation_0008 @ rv_upgrade chunk_embeddings_0009" by (simp add: revisions_def)
  also have "\<dots> = before @ ?ct # after7" unfolding before_def after7_def using seven by (metis append.assoc append_Cons)
  finally have "execute_all (before @ ?ct # after7) empty_schema = Some s" using assms by (simp add: migrated_def)
  then obtain s1 s2 where st: "execute ?ct s1 = Some s2" "execute_all after7 s2 = Some s"
    by (auto simp: execute_all_append split: option.splits)
  have "list_all (\<lambda>st. growing st \<and> touched st \<noteq> Some ''messages'') after7"
    by (simp add: after7_def conversations_0007_def course_creation_0008_def chunk_embeddings_0009_def)
  then have "map_of (sc_tables s) ''messages'' = map_of (sc_tables s2) ''messages''" using untouched_all [OF st(2)] by blast
  then show ?thesis using created [OF st(1) [unfolded c]] by auto
qed

lemma add_columns_constraints:
  assumes "execute_all (map (\<lambda>(c, d). Add_column t c d) cs) s = Some s'" "map_of (sc_tables s) t = Some tb"
  shows "\<exists>tb'. map_of (sc_tables s') t = Some tb' \<and> tb_constraints tb' = tb_constraints tb"
  using assms
proof (induction cs arbitrary: s tb)
  case (Cons cd cs)
  obtain c d where cd: "cd = (c, d)" by (cases cd)
  define s1 where "s1 = on_table t (\<lambda>tb. tb\<lparr>tb_columns := tb_columns tb @ [(c, d)]\<rparr>) s"
  have "execute_all (map (\<lambda>(c, d). Add_column t c d) cs) s1 = Some s'" using Cons.prems by (auto simp: cd s1_def split: if_splits)
  moreover have "map_of (sc_tables s1) t = Some (tb\<lparr>tb_columns := tb_columns tb @ [(c, d)]\<rparr>)"
    using Cons.prems(2) by (simp add: s1_def on_table_lookup)
  ultimately show ?case using Cons.IH [of s1] by fastforce
qed auto

lemma undoes_0010:
  assumes "migrated 9 = Some s" "execute_all (rv_upgrade tutor_interventions_0010) s = Some s'"
  shows "execute_all (rv_downgrade tutor_interventions_0010) s' = Some s"
proof -
  define cols :: "(string \<times> column_def) list" where "cols = [(''kind'', defaulted (Varchar_t 16) ''question''),
    (''intent'', optional (Varchar_t 16)), (''parent_message_id'', optional Uuid_t), (''retrieval_query'', optional Text_t),
    (''query_version'', optional (Varchar_t 64)), (''intervention'', optional Jsonb_t), (''contract_version'', optional (Varchar_t 64)),
    (''situation'', optional (Varchar_t 32)), (''help_level'', optional Integer_t)]"
  define five :: "(string \<times> constraint_def) list" where "five = [(''uq_messages_conversation_id'', Unique_key [''conversation_id'', ''id'']),
    (''fk_messages_parent'', Foreign_key [''conversation_id'', ''parent_message_id''] ''messages'' [''conversation_id'', ''id''] ''CASCADE''),
    (''ck_messages_kind'', Check_condition [''kind''] ''kind IN ('question', 'followup', 'action')''),
    (''ck_messages_intent'', Check_condition [''intent''] ''intent IS NULL OR intent IN ('another_hint', 'explain', 'dont_know')''),
    (''ck_messages_parent'', Check_condition [''kind'', ''parent_message_id''] ''(kind = 'action') = (parent_message_id IS NOT NULL)'')]"
  define new old where "new = Check_condition [''mode''] ''mode IS NULL OR mode IN ('hint','guided_question','explanation','abstain','clarify')''"
    and "old = Check_condition [''mode''] ''mode IS NULL OR mode IN ('hint','guided_question','explanation','abstain')''"
  define u1 d1 where "u1 = map (\<lambda>(c, d). Add_column ''messages'' c d) cols" and "d1 = map (\<lambda>(c, d). Drop_column ''messages'' c) (rev cols)"
  have up: "rv_upgrade tutor_interventions_0010 = u1 @ map (\<lambda>(n, k). Add_constraint ''messages'' n k) five @
      [Drop_constraint ''messages'' ''ck_messages_mode'', Add_constraint ''messages'' ''ck_messages_mode'' new]"
    by (simp add: tutor_interventions_0010_def u1_def cols_def five_def new_def)
  have down: "rv_downgrade tutor_interventions_0010 = Data # ([Drop_constraint ''messages'' ''ck_messages_mode'', Add_constraint ''messages'' ''ck_messages_mode'' old] @
      map (Drop_constraint ''messages'') [''ck_messages_parent'', ''ck_messages_intent'', ''ck_messages_kind'', ''fk_messages_parent'',
        ''uq_messages_conversation_id'']) @ d1"
    by (simp add: tutor_interventions_0010_def d1_def cols_def old_def)
  have ok: "schema_ok s" using migrated_ok assms(1) by simp
  have undo: "undoes d1 u1"
    unfolding u1_def d1_def cols_def list.map prod.case
    by (rule undoes_revision, (rule undoes_rules)+) simp
  obtain s1 where s1: "execute_all u1 s = Some s1" "execute_all (map (\<lambda>(n, k). Add_constraint ''messages'' n k) five @
      [Drop_constraint ''messages'' ''ck_messages_mode'', Add_constraint ''messages'' ''ck_messages_mode'' new]) s1 = Some s'"
    using assms(2) unfolding up execute_all_append [of u1] by (auto split: option.splits)
  obtain tc C where tb: "map_of (sc_tables s) ''messages'' = Some \<lparr>tb_columns = tc, tb_constraints = C @ [(''ck_messages_mode'', old)]\<rparr>"
    using messages_before_0010 [OF assms(1)] unfolding old_def by blast
  obtain tb' where tb': "map_of (sc_tables s1) ''messages'' = Some tb'" "tb_constraints tb' = C @ [(''ck_messages_mode'', old)]"
    using add_columns_constraints [OF s1(1) [unfolded u1_def] tb] by auto
  have ok1: "schema_ok s1" using growing_all_ok [OF s1(1) _ ok] undo by (simp add: undoes_def)
  have "execute_all ([Drop_constraint ''messages'' ''ck_messages_mode'', Add_constraint ''messages'' ''ck_messages_mode'' old] @
      map (Drop_constraint ''messages'') [''ck_messages_parent'', ''ck_messages_intent'', ''ck_messages_kind'', ''fk_messages_parent'',
        ''uq_messages_conversation_id'']) s' = Some s1"
    unfolding old_def
    by (rule replaced_check [OF five_def ok1 tb'(1) tb'(2) [unfolded old_def] s1(2) [unfolded new_def]])
  moreover have "execute_all d1 s1 = Some s" using undo ok s1(1) by (simp add: undoes_def)
  ultimately show ?thesis unfolding down execute_all.simps(2) execute_all_append by simp
qed

text \<open>A statement that adds a column gives every row a value.\<close>

fun fills_rows :: "statement \<Rightarrow> bool" where
  "fills_rows (Add_column t c d) \<longleftrightarrow> col_nullable d \<or> col_default d \<noteq> None"
| "fills_rows _ = True"

lemma chain: "k < 10 \<Longrightarrow> rv_down (revisions ! k) = (if k = 0 then None else Some (rv_id (revisions ! (k - 1))))"
  by (auto simp: revisions_def early_revisions tutor_interventions_0010_def less_Suc_eq numeral_eq_Suc)

lemma filled: "k < 10 \<Longrightarrow> list_all fills_rows (rv_upgrade (revisions ! k))"
  by (auto simp: revisions_def early_revisions tutor_interventions_0010_def less_Suc_eq numeral_eq_Suc required_def optional_def defaulted_def)

section \<open>Data\<close>

text \<open>Revision 0006 on the rows: the new columns at their defaults, then the three statements.\<close>

definition new_columns_0006 :: "time \<Rightarrow> db \<Rightarrow> db" where
  "new_columns_0006 now s =
     s\<lparr>t_jobs := map (\<lambda>j. j\<lparr>ij_lease_expires_at := None, ij_next_attempt_at := now\<rparr>) (t_jobs s), t_outbox := []\<rparr>"

definition recover_running :: "db \<Rightarrow> db" where
  "recover_running s =
     s\<lparr>t_jobs := update_where (\<lambda>j. ij_state j = JOB_RUNNING)
         (\<lambda>j. j\<lparr>ij_state := JOB_PENDING, ij_fencing_token := ij_fencing_token j + 1\<rparr>) (t_jobs s)\<rparr>"

definition requeue_versions :: "db \<Rightarrow> db" where
  "requeue_versions s =
     s\<lparr>t_versions := update_where (\<lambda>v. dv_id v \<in> set (map ij_document_version_id (filter (\<lambda>j. ij_state j = JOB_PENDING) (t_jobs s))))
         (\<lambda>v. v\<lparr>dv_state := DV_QUEUED\<rparr>) (t_versions s)\<rparr>"

definition initial_event :: "(ingestion_job \<Rightarrow> uuid) \<Rightarrow> time \<Rightarrow> ingestion_job \<Rightarrow> outbox_event" where
  "initial_event new_id now j =
     \<lparr>oe_id = new_id j, oe_course_id = ij_course_id j, oe_job_id = ij_id j,
      oe_kind = (if ij_state j = JOB_FAILED then Dead_event else Ingestion_event),
      oe_available_at = now, oe_created_at = now, oe_published_at = None, oe_publish_token = None,
      oe_publish_lease_until = None\<rparr>"

definition insert_events :: "(ingestion_job \<Rightarrow> uuid) \<Rightarrow> time \<Rightarrow> db \<Rightarrow> db" where
  "insert_events new_id now s =
     s\<lparr>t_outbox := t_outbox s @ map (initial_event new_id now) (filter (\<lambda>j. ij_state j \<noteq> JOB_SUCCEEDED) (t_jobs s))\<rparr>"

definition upgrade_rows_0006 :: "(ingestion_job \<Rightarrow> uuid) \<Rightarrow> time \<Rightarrow> db \<Rightarrow> db" where
  "upgrade_rows_0006 new_id now s = insert_events new_id now (requeue_versions (recover_running (new_columns_0006 now s)))"

text \<open>The first statement of the downgrade of 0010.\<close>

definition downgrade_rows_0010 :: "db \<Rightarrow> db" where
  "downgrade_rows_0010 s =
     s\<lparr>t_messages := update_where (\<lambda>m. ms_mode m = Some Clarify) (\<lambda>m. m\<lparr>ms_mode := Some Guided_question\<rparr>) (t_messages s)\<rparr>"

lemma downgraded_modes:
  "\<forall>m \<in> set (t_messages (downgrade_rows_0010 s)). ms_mode m \<in> {None, Some Hint_mode, Some Guided_question, Some Explanation_mode, Some Abstain}"
proof
  fix m assume "m \<in> set (t_messages (downgrade_rows_0010 s))"
  then have "ms_mode m \<noteq> Some Clarify" by (auto simp: downgrade_rows_0010_def update_where_def)
  then show "ms_mode m \<in> {None, Some Hint_mode, Some Guided_question, Some Explanation_mode, Some Abstain}"
    by (cases "ms_mode m") (use mode.exhaust in auto)
qed

text \<open>What becomes of a job, and the rows after the migration.\<close>

definition recovered_job :: "time \<Rightarrow> ingestion_job \<Rightarrow> ingestion_job" where
  "recovered_job now j =
     (if ij_state j = JOB_RUNNING
      then j\<lparr>ij_state := JOB_PENDING, ij_fencing_token := ij_fencing_token j + 1, ij_lease_expires_at := None, ij_next_attempt_at := now\<rparr>
      else j\<lparr>ij_lease_expires_at := None, ij_next_attempt_at := now\<rparr>)"

lemma upgraded_jobs: "t_jobs (upgrade_rows_0006 new_id now s) = map (recovered_job now) (t_jobs s)"
  by (simp add: upgrade_rows_0006_def insert_events_def requeue_versions_def recover_running_def new_columns_0006_def update_where_def
      recovered_job_def)

lemma recovered_job_state:
  "ij_state (recovered_job now j) = (if ij_state j = JOB_RUNNING then JOB_PENDING else ij_state j)"
  "ij_id (recovered_job now j) = ij_id j" "ij_document_version_id (recovered_job now j) = ij_document_version_id j"
  by (simp_all add: recovered_job_def)

lemma upgraded_outbox:
  "t_outbox (upgrade_rows_0006 new_id now s) =
     map (initial_event new_id now) (filter (\<lambda>j. ij_state j \<noteq> JOB_SUCCEEDED) (map (recovered_job now) (t_jobs s)))"
  using upgraded_jobs [of new_id now s]
  by (simp add: upgrade_rows_0006_def insert_events_def requeue_versions_def recover_running_def new_columns_0006_def)

lemma upgraded_versions:
  assumes "v \<in> set (t_versions (upgrade_rows_0006 new_id now s))" "j \<in> set (t_jobs (upgrade_rows_0006 new_id now s))"
    "ij_state j = JOB_PENDING" "ij_document_version_id j = dv_id v"
  shows "dv_state v = DV_QUEUED"
proof -
  define s1 where "s1 = recover_running (new_columns_0006 now s)"
  define vs where "vs = set (map ij_document_version_id (filter (\<lambda>j. ij_state j = JOB_PENDING) (t_jobs s1)))"
  have j: "j \<in> set (t_jobs s1)"
    using assms(2) by (simp add: upgrade_rows_0006_def insert_events_def requeue_versions_def s1_def)
  then have "dv_id v \<in> vs" using assms(3,4) unfolding vs_def by (auto intro!: image_eqI [of _ _ j])
  moreover have "v \<in> set (update_where (\<lambda>v. dv_id v \<in> vs) (\<lambda>v. v\<lparr>dv_state := DV_QUEUED\<rparr>) (t_versions s1))"
    using assms(1) by (simp add: upgrade_rows_0006_def insert_events_def requeue_versions_def s1_def vs_def)
  ultimately show ?thesis by (auto simp: update_where_def split: if_splits)
qed

lemma initial_event_simps [simp]:
  "oe_job_id (initial_event new_id now j) = ij_id j" "oe_id (initial_event new_id now j) = new_id j"
  "oe_kind (initial_event new_id now j) = (if ij_state j = JOB_FAILED then Dead_event else Ingestion_event)"
  by (simp_all add: initial_event_def)

lemma only_event:
  assumes "distinct (map ij_id js)" "j \<in> set js"
  shows "filter (\<lambda>e. oe_job_id e = ij_id j) (map (initial_event new_id now) (filter (\<lambda>j. ij_state j \<noteq> JOB_SUCCEEDED) js)) =
    (if ij_state j = JOB_SUCCEEDED then [] else [initial_event new_id now j])"
  using assms
proof (induction js)
  case (Cons i js)
  have e: "filter (\<lambda>e. oe_job_id e = x) (map (initial_event new_id now) (filter (\<lambda>j. ij_state j \<noteq> JOB_SUCCEEDED) js)) = []"
    if "x \<notin> ij_id ` set js" for x
    using that by (auto simp: filter_empty_conv)
  show ?case
  proof (cases "j = i")
    case True
    then show ?thesis using Cons.prems(1) e [of "ij_id i"] by simp
  next
    case False
    then have "j \<in> set js" "ij_id i \<noteq> ij_id j" using Cons.prems by auto
    then show ?thesis using Cons by simp
  qed
qed simp

section \<open>Correctness\<close>

text \<open>C36: Every revision can be undone. The revisions are one chain. On the schema the revisions before it
  leave, coming from an empty database, a revision that is applied and then downgraded gives exactly the
  schema there was, each statement of the downgrade being accepted; no column that an upgrade adds leaves
  a row without a value.\<close>

theorem downgrade_restores:
  assumes "k < 10" "migrated k = Some s" "execute_all (rv_upgrade (revisions ! k)) s = Some s'"
  shows "execute_all (rv_downgrade (revisions ! k)) s' = Some s \<and> schema_ok s \<and>
    rv_down (revisions ! k) = (if k = 0 then None else Some (rv_id (revisions ! (k - 1)))) \<and>
    list_all fills_rows (rv_upgrade (revisions ! k))"
proof -
  have ok: "schema_ok s" by (rule migrated_ok [OF assms(2,1)])
  have early: "execute_all d s' = Some s" if "undoes d u" "execute_all u s = Some s'" for d u
    using that ok by (simp add: undoes_def)
  have ext: "''vector'' \<notin> set (sc_extensions s)" if "k = 8"
  proof -
    have "list_all (\<lambda>st. growing st \<and> \<not> makes_extension st) (concat (map rv_upgrade (take k revisions)))"
      by (simp add: that revisions_def early_revisions)
    then show ?thesis using no_extension assms(2) by (fastforce simp: migrated_def empty_schema_def)
  qed
  consider "k = 0" | "k = 1" | "k = 2" | "k = 3" | "k = 4" | "k = 5" | "k = 6" | "k = 7" | "k = 8" | "k = 9"
    using assms(1) by (fastforce simp: less_Suc_eq numeral_eq_Suc)
  then have "execute_all (rv_downgrade (revisions ! k)) s' = Some s"
  proof cases
    case 1
    then show ?thesis using assms(3) by (simp add: revisions_def baseline_0001_def)
  next
    case 9
    then show ?thesis using undoes_0009 [OF ok] ext assms(3) by (simp add: revisions_def)
  next
    case 10
    then show ?thesis using undoes_0010 assms(2,3) by (simp add: revisions_def)
  qed (use assms(3) early [OF undoes_0002] early [OF undoes_0003] early [OF undoes_0004] early [OF undoes_0005]
      early [OF undoes_0006] early [OF undoes_0007] early [OF undoes_0008] in \<open>simp_all add: revisions_def\<close>)
  then show ?thesis using ok chain [OF assms(1)] filled [OF assms(1)] by simp
qed

theorem downgrade_restores_witness:
  "\<exists>s s'. migrated 1 = Some s \<and> execute_all (rv_upgrade (revisions ! 1)) s = Some s' \<and> s \<noteq> s' \<and>
     execute_all (rv_downgrade (revisions ! 1)) s' = Some s"
proof -
  have m: "migrated 1 = Some empty_schema" by (simp add: migrated_def revisions_def baseline_0001_def)
  have "execute_all (rv_upgrade identity_courses_0002) empty_schema \<noteq> None" by code_simp
  then obtain s' where s': "execute_all (rv_upgrade (revisions ! 1)) empty_schema = Some s'" by (auto simp: revisions_def)
  moreover have "execute_all (rv_upgrade identity_courses_0002) empty_schema \<noteq> Some empty_schema" by code_simp
  ultimately have "empty_schema \<noteq> s'" by (auto simp: revisions_def)
  then show ?thesis using downgrade_restores [OF _ m s'] m s' by auto
qed

text \<open>C37: Revision 0006 recovers what an inline worker left behind. Afterwards no job is running and no claim
  of before can write; every job that had not succeeded has exactly one event, an ingestion event if it
  waits and a dead letter if it failed, with the keys of the outbox unique; the versions of waiting jobs
  are queued, and a job that was interrupted has a higher fencing token.\<close>

theorem migrated_jobs_recovered:
  assumes "distinct (map ij_id (t_jobs s))" "distinct (map new_id (t_jobs (upgrade_rows_0006 new_id now s)))"
  shows "outbox_wf (upgrade_rows_0006 new_id now s) \<and>
    (\<forall>j \<in> set (t_jobs (upgrade_rows_0006 new_id now s)).
       ij_state j \<noteq> JOB_RUNNING \<and>
       map oe_kind (filter (\<lambda>e. oe_job_id e = ij_id j) (t_outbox (upgrade_rows_0006 new_id now s))) =
         (if ij_state j = JOB_SUCCEEDED then [] else if ij_state j = JOB_FAILED then [Dead_event] else [Ingestion_event]) \<and>
       (\<forall>v \<in> set (t_versions (upgrade_rows_0006 new_id now s)).
          ij_state j = JOB_PENDING \<and> ij_document_version_id j = dv_id v \<longrightarrow> dv_state v = DV_QUEUED)) \<and>
    (\<forall>c t. active_job c t (upgrade_rows_0006 new_id now s) = None) \<and>
    list_all2 (\<lambda>j j'. ij_id j' = ij_id j \<and> (ij_state j = JOB_RUNNING \<longrightarrow> ij_fencing_token j < ij_fencing_token j'))
      (t_jobs s) (t_jobs (upgrade_rows_0006 new_id now s))"
proof (intro conjI ballI allI impI)
  define js where "js = map (recovered_job now) (t_jobs s)"
  have jobs: "t_jobs (upgrade_rows_0006 new_id now s) = js" by (simp add: upgraded_jobs js_def)
  have out: "t_outbox (upgrade_rows_0006 new_id now s) = map (initial_event new_id now) (filter (\<lambda>j. ij_state j \<noteq> JOB_SUCCEEDED) js)"
    by (simp add: upgraded_outbox js_def)
  have ids: "distinct (map ij_id js)" using assms(1) by (simp add: js_def recovered_job_state comp_def)
  have nr: "ij_state j \<noteq> JOB_RUNNING" if "j \<in> set js" for j
    using that by (auto simp: js_def recovered_job_state split: if_splits)
  have "distinct (map (\<lambda>j. (ij_id j, k j)) (filter p js))" for k :: "ingestion_job \<Rightarrow> outbox_kind" and p
    using ids by (auto simp: distinct_map inj_on_def)
  moreover have "distinct (map new_id (filter p js))" for p using assms(2) unfolding jobs by (auto simp: distinct_map inj_on_def)
  ultimately show "outbox_wf (upgrade_rows_0006 new_id now s)" by (simp add: outbox_wf_def out event_key_def comp_def)
  show "ij_state j \<noteq> JOB_RUNNING" if "j \<in> set (t_jobs (upgrade_rows_0006 new_id now s))" for j
    using that nr [of j] unfolding jobs by simp
  show "map oe_kind (filter (\<lambda>e. oe_job_id e = ij_id j) (t_outbox (upgrade_rows_0006 new_id now s))) =
      (if ij_state j = JOB_SUCCEEDED then [] else if ij_state j = JOB_FAILED then [Dead_event] else [Ingestion_event])"
    if "j \<in> set (t_jobs (upgrade_rows_0006 new_id now s))" for j
    using only_event [OF ids] that unfolding jobs out by simp
  show "dv_state v = DV_QUEUED"
    if "j \<in> set (t_jobs (upgrade_rows_0006 new_id now s))" "v \<in> set (t_versions (upgrade_rows_0006 new_id now s))"
      "ij_state j = JOB_PENDING \<and> ij_document_version_id j = dv_id v" for j v
    using upgraded_versions that by blast
  show "active_job c t (upgrade_rows_0006 new_id now s) = None" for c t
    using nr unfolding active_job_def jobs by (auto simp: find_None_iff)
  show "list_all2 (\<lambda>j j'. ij_id j' = ij_id j \<and> (ij_state j = JOB_RUNNING \<longrightarrow> ij_fencing_token j < ij_fencing_token j'))
      (t_jobs s) (t_jobs (upgrade_rows_0006 new_id now s))"
    unfolding jobs js_def by (auto simp: list_all2_conv_all_nth recovered_job_def)
qed

theorem migrated_jobs_recovered_witness:
  "outbox_wf (upgrade_rows_0006 ij_id 5 (sample_db\<lparr>t_jobs := [sample_job\<lparr>ij_state := JOB_RUNNING\<rparr>]\<rparr>))"
  using migrated_jobs_recovered [of "sample_db\<lparr>t_jobs := [sample_job\<lparr>ij_state := JOB_RUNNING\<rparr>]\<rparr>" ij_id 5]
  by (simp add: upgraded_jobs)

end
