(* ===== verification/Dev_Provision.thy ===== *)
theory Dev_Provision
  imports Dev_State Embedding
begin

text \<open>
  The \<open>Provisioner\<close> of \<^verbatim>\<open>scripts/dev.py\<close>: how the project and the application of a development
  environment are registered with its identity server. A creation whose answer was lost must not be sent
  again, so its key is recorded in a private file before it is sent. The server, the file system and Docker
  are parameters that see everything done before, in this run and in earlier ones; the process may die in
  every request and in every write.
\<close>

section \<open>The world\<close>

datatype iam_reply = Unanswered | Answered int "json option" | Killed_waiting

datatype write_reply = Written | Write_failed | Killed_before | Killed_after

text \<open>What is done: the start of a run, a request with its method, path and body, the state file replaced,
  another file written, and the state given up for that of another instance, with the volumes that Docker
  listed and the old state.\<close>

datatype prov_event =
    Started
  | Sent string pystr "json option"
  | Wrote "(pystr \<times> json) list"
  | Archived string
  | Recovered "pystr list" "(pystr \<times> json) list" pystr

record prov_world =
  pw_reply :: "prov_event list \<Rightarrow> iam_reply"
  pw_write :: "prov_event list \<Rightarrow> write_reply"
  pw_volumes :: "prov_event list \<Rightarrow> pystr list option"
  pw_decimal :: "nat \<Rightarrow> nat option"

text \<open>\<open>Wrong_type\<close> stands for \<open>AttributeError\<close> and \<open>TypeError\<close>, \<open>Not_a_number\<close> for \<open>OverflowError\<close> or
  \<open>ValueError\<close> of \<open>int(float)\<close>; \<open>Killed\<close> is no exception.\<close>

datatype prov_exn =
    DevError string
  | IAMHTTPError int
  | OS_error
  | Value_error
  | Key_error
  | Wrong_type
  | Not_a_number
  | Killed

text \<open>The state file: \<open>Unreadable\<close> is a text that \<open>json.loads\<close> refuses.\<close>

datatype saved = No_file | Unreadable | Saved json

record prov_state =
  ps_memory :: "(pystr \<times> json) list"
  ps_disk :: saved
  ps_log :: "prov_event list"

type_synonym 'a prov = "prov_state \<Rightarrow> (prov_exn, 'a) result \<times> prov_state"

definition bindP :: "'a prov \<Rightarrow> ('a \<Rightarrow> 'b prov) \<Rightarrow> 'b prov" where
  "bindP m f s = (case m s of (Inl e, s') \<Rightarrow> (Inl e, s') | (Inr x, s') \<Rightarrow> f x s')"

definition liftP :: "(prov_exn, 'a) result \<Rightarrow> 'a prov" where
  "liftP r s = (r, s)"

definition with_memory :: "((pystr \<times> json) list \<Rightarrow> 'a prov) \<Rightarrow> 'a prov" where
  "with_memory f s = f (ps_memory s) s"

definition remember :: "((pystr \<times> json) list \<Rightarrow> (pystr \<times> json) list) \<Rightarrow> unit prov" where
  "remember f s = (Inr (), s\<lparr>ps_memory := f (ps_memory s)\<rparr>)"

text \<open>\<open>except IAMHTTPError\<close>.\<close>

definition on_http_error :: "'a prov \<Rightarrow> (int \<Rightarrow> 'a prov) \<Rightarrow> 'a prov" where
  "on_http_error m h s = (case m s of (Inl (IAMHTTPError n), s') \<Rightarrow> h n s' | r \<Rightarrow> r)"

text \<open>The messages of \<open>DevError\<close>.\<close>

definition bad_identifier :: string where
  "bad_identifier = ''ZITADEL returned a missing or invalid resource identifier.''"

definition request_failed :: string where
  "request_failed = ''ZITADEL provisioning failed; no mutation was retried. Check service readiness and the local admin PAT.''"

definition ambiguous_rows :: string where
  "ambiguous_rows = ''Ambiguous ZITADEL resources; resolve them before provisioning.''"

definition bad_search :: string where
  "bad_search = ''Invalid ZITADEL resource search result.''"

definition unknown_outcome :: string where
  "unknown_outcome = ''A previous creation has an unknown outcome. Inspect the local ZITADEL project/application before retrying; state was preserved.''"

definition unchecked_volumes :: string where
  "unchecked_volumes = ''Cannot check Docta data volumes; make Docker available before identity recovery. Local identity state was preserved.''"

definition volumes_left :: string where
  "volumes_left = ''ZITADEL identity recovery requires absent Docta data volumes. Retained data uses the original identity subjects; restore the matching IAM database/bootstrap volumes and private configuration instead. No volumes or identity state were replaced.''"

definition missing_project :: string where
  "missing_project = ''Saved project is missing from the same ZITADEL instance. Inspect the named resource or restore the matching IAM backup; local state was preserved.''"

definition lost_project :: string where
  "lost_project = ''Saved ZITADEL project no longer exists. Local files still reference old IDs; Docta infrastructure was not started. After intentionally deleting both IAM and Docta data volumes, run npm run dev:recover-identity. Otherwise restore the matching IAM backup.''"

definition not_recoverable :: string where
  "not_recoverable = ''Identity recovery requires legacy state with a missing project and no pending creation. Inspect the named resource or restore matching IAM volumes; local state was preserved.''"

definition project_exists :: string where
  "project_exists = ''Saved ZITADEL project still exists; local state was preserved.''"

definition project_mismatch :: string where
  "project_mismatch = ''Saved project is missing, inactive or does not match this workspace.''"

definition not_confirmed :: string where
  "not_confirmed = ''ZITADEL did not confirm the requested PKCE/JWT configuration.''"

definition app_mismatch :: string where
  "app_mismatch = ''Saved application is missing, inactive or mismatched.''"

definition not_oidc :: string where
  "not_oidc = ''Saved application is not OIDC.''"

section \<open>Values\<close>

definition identifier_text :: "pystr \<Rightarrow> bool" where
  "identifier_text v \<longleftrightarrow> 1 \<le> length v \<and> length v \<le> 200 \<and>
     list_all (\<lambda>c. (65 \<le> c \<and> c \<le> 90) \<or> (97 \<le> c \<and> c \<le> 122) \<or> (48 \<le> c \<and> c \<le> 57) \<or> c \<in> {64, 46, 95, 45}) v"

definition resource_identifier :: "json \<Rightarrow> string \<Rightarrow> (prov_exn, pystr) result" where
  "resource_identifier document key =
     (case document of
        JDict kvs \<Rightarrow>
          (case map_of kvs (py key) of
             Some (JStr v) \<Rightarrow>
               if identifier_text v then Inr v
               else Inl (DevError bad_identifier)
           | _ \<Rightarrow> Inl (DevError bad_identifier))
      | _ \<Rightarrow> Inl (DevError bad_identifier))"

text \<open>\<open>document.get(key, default)\<close> of what must be an object.\<close>

definition get_default :: "json \<Rightarrow> string \<Rightarrow> json \<Rightarrow> (prov_exn, json) result" where
  "get_default document key v0 =
     (case document of
        JDict kvs \<Rightarrow> Inr (case map_of kvs (py key) of None \<Rightarrow> v0 | Some v \<Rightarrow> v)
      | _ \<Rightarrow> Inl Wrong_type)"

definition same_value :: "json \<Rightarrow> json \<Rightarrow> bool" where
  "same_value v w \<longleftrightarrow> normal_value v = normal_value w"

definition member_of :: "(pystr \<times> json) list \<Rightarrow> string \<Rightarrow> json" where
  "member_of kvs key = (case map_of kvs (py key) of None \<Rightarrow> JNull | Some v \<Rightarrow> v)"

text \<open>\<open>int(v)\<close>.\<close>

fun int_of_json :: "(nat \<Rightarrow> nat option) \<Rightarrow> json \<Rightarrow> (prov_exn, int) result" where
  "int_of_json decimal (JInt i) = Inr i"
| "int_of_json decimal (JBool b) = Inr (if b then 1 else 0)"
| "int_of_json decimal (JFloat (Finite q)) = Inr (if q < 0 then \<lceil>q\<rceil> else \<lfloor>q\<rfloor>)"
| "int_of_json decimal (JFloat Not_finite) = Inl Not_a_number"
| "int_of_json decimal (JStr s) = (case py_int10 decimal s of None \<Rightarrow> Inl Value_error | Some i \<Rightarrow> Inr i)"
| "int_of_json decimal _ = Inl Wrong_type"

definition required_value :: "(pystr \<rightharpoonup> pystr) \<Rightarrow> string \<Rightarrow> (prov_exn, pystr) result" where
  "required_value vals key = (case vals (py key) of None \<Rightarrow> Inl Key_error | Some v \<Rightarrow> Inr v)"

section \<open>Requests and files\<close>

definition write_file :: "prov_world \<Rightarrow> prov_event \<Rightarrow> (prov_state \<Rightarrow> prov_state) \<Rightarrow> unit prov" where
  "write_file w e done s =
     (let s' = done (s\<lparr>ps_log := ps_log s @ [e]\<rparr>)
      in case pw_write w (ps_log s) of
           Written \<Rightarrow> (Inr (), s')
         | Write_failed \<Rightarrow> (Inl OS_error, s)
         | Killed_before \<Rightarrow> (Inl Killed, s)
         | Killed_after \<Rightarrow> (Inl Killed, s'))"

definition to_disk :: "prov_state \<Rightarrow> prov_state" where
  "to_disk s = s\<lparr>ps_disk := Saved (JDict (ps_memory s))\<rparr>"

definition save :: "prov_world \<Rightarrow> unit prov" where
  "save w s = write_file w (Wrote (ps_memory s)) to_disk s"

definition request :: "prov_world \<Rightarrow> string \<Rightarrow> pystr \<Rightarrow> json option \<Rightarrow> string \<Rightarrow> json prov" where
  "request w verb path body api s =
     (let s' = s\<lparr>ps_log := ps_log s @ [Sent verb (py api @ path) body]\<rparr>
      in (case pw_reply w (ps_log s') of
            Unanswered \<Rightarrow> Inl (DevError request_failed)
          | Killed_waiting \<Rightarrow> Inl Killed
          | Answered status answer \<Rightarrow>
              if \<not> (200 \<le> status \<and> status \<le> 299) then Inl (IAMHTTPError status)
              else (case answer of
                      Some (JDict document) \<Rightarrow> Inr (JDict document)
                    | _ \<Rightarrow> Inl (DevError request_failed)),
          s'))"

definition management :: string where
  "management = ''/management/v1''"

definition search_body :: "pystr \<Rightarrow> json" where
  "search_body name = JDict
     [(py ''query'', JDict [(py ''limit'', JInt 100)]),
      (py ''queries'', JList [JDict [(py ''nameQuery'',
         JDict [(py ''name'', JStr name), (py ''method'', JStr (py ''TEXT_QUERY_METHOD_EQUALS''))])]])]"

fun is_dict :: "json \<Rightarrow> bool" where
  "is_dict (JDict _) = True"
| "is_dict _ = False"

definition named :: "pystr \<Rightarrow> json \<Rightarrow> bool" where
  "named name row \<longleftrightarrow> get_default row ''name'' JNull = Inr (JStr name)"

definition ambiguous :: "(prov_exn, 'a) result" where
  "ambiguous = Inl (DevError ambiguous_rows)"

definition pick_row :: "(nat \<Rightarrow> nat option) \<Rightarrow> json \<Rightarrow> pystr \<Rightarrow> (prov_exn, json option) result" where
  "pick_row decimal document name =
     bindE (get_default document ''result'' (JList [])) (\<lambda>result.
       case result of
         JList rows \<Rightarrow>
           if \<not> list_all is_dict rows then Inl (DevError bad_search)
           else if length (filter (named name) rows) > 1 then ambiguous
           else bindE (get_default document ''details'' (JDict [])) (\<lambda>details.
                bindE (get_default details ''totalResult'' (JInt 0)) (\<lambda>total.
                bindE (int_of_json decimal total) (\<lambda>n.
                  if n > 100 then ambiguous else Inr (find (named name) rows))))
       | _ \<Rightarrow> Inl (DevError bad_search))"

definition find_row :: "prov_world \<Rightarrow> pystr \<Rightarrow> pystr \<Rightarrow> json option prov" where
  "find_row w path name =
     bindP (request w ''POST'' (path @ py ''/_search'') (Some (search_body name)) management) (\<lambda>document.
       liftP (pick_row (pw_decimal w) document name))"

text \<open>\<open>a | b\<close> of dictionaries.\<close>

definition merged :: "(pystr \<times> json) list \<Rightarrow> (pystr \<times> json) list \<Rightarrow> (pystr \<times> json) list" where
  "merged a b = fold (\<lambda>(k, v). set_member k v) b a"

definition settle :: "prov_world \<Rightarrow> string \<Rightarrow> pystr \<Rightarrow> pystr prov" where
  "settle w state_key resource_id =
     bindP (remember (\<lambda>m. del_member (py ''pending'') (set_member (py state_key) (JStr resource_id) m))) (\<lambda>_.
     bindP (save w) (\<lambda>_. liftP (Inr resource_id)))"

definition ensure ::
  "prov_world \<Rightarrow> pystr \<Rightarrow> pystr \<Rightarrow> string \<Rightarrow> pystr \<Rightarrow> (pystr \<times> json) list \<Rightarrow> string \<Rightarrow> pystr prov" where
  "ensure w path name state_key create_path body result_key =
     with_memory (\<lambda>m.
       if map_of m (py state_key) \<noteq> None then liftP (resource_identifier (JDict m) state_key)
       else bindP (find_row w path name) (\<lambda>found.
         case found of
           Some row \<Rightarrow> bindP (liftP (resource_identifier row ''id'')) (settle w state_key)
         | None \<Rightarrow>
             if truthy (member_of m ''pending'')
             then liftP (Inl (DevError unknown_outcome))
             else bindP (remember (set_member (py ''pending'') (JStr (py state_key)))) (\<lambda>_.
                  bindP (save w) (\<lambda>_.
                  bindP (request w ''POST'' create_path (Some (JDict (merged [(py ''name'', JStr name)] body))) management) (\<lambda>created.
                  bindP (liftP (resource_identifier created result_key)) (settle w state_key))))))"

text \<open>\<open>guard_identity_recovery\<close>, on the volumes that Docker listed, \<open>None\<close> if it did not answer.\<close>

definition data_volumes :: "pystr list" where
  "data_volumes = map py [''docta-dev_postgres-data'', ''docta-dev_rustfs-data'', ''docta-dev_minio-data'', ''docta-dev_redis-data'']"

definition guard_identity_recovery :: "pystr list option \<Rightarrow> (prov_exn, pystr list) result" where
  "guard_identity_recovery listed =
     (case listed of
        None \<Rightarrow> Inl (DevError unchecked_volumes)
      | Some names \<Rightarrow>
          if list_ex (\<lambda>v. v \<in> set names) data_volumes
          then Inl (DevError volumes_left)
          else Inr names)"

definition archive :: "prov_world \<Rightarrow> string \<Rightarrow> unit prov" where
  "archive w name = write_file w (Archived name) id"

text \<open>The old state in memory is replaced before it is saved. An old file is archived when there is one; the
  environment file is there.\<close>

definition recover :: "prov_world \<Rightarrow> pystr \<Rightarrow> unit prov" where
  "recover w instance_id s =
     bindP (liftP (guard_identity_recovery (pw_volumes w (ps_log s)))) (\<lambda>names.
     bindP (if ps_disk s = No_file then liftP (Inr ()) else archive w ''identity-before-recovery'') (\<lambda>_.
     bindP (archive w ''env-before-identity-recovery'') (\<lambda>_.
     with_memory (\<lambda>old.
     bindP (remember (\<lambda>_. [(py ''instance_id'', JStr instance_id)])) (\<lambda>_.
       write_file w (Recovered names old instance_id) to_disk))))) s"

section \<open>One run\<close>

definition no_project :: "bool \<Rightarrow> prov_exn" where
  "no_project known_instance =
     (if known_instance
      then DevError missing_project
      else DevError lost_project)"

definition projects_path :: pystr where
  "projects_path = py ''/projects''"

text \<open>A lost state file does not discard the project of the environment.\<close>

definition adopt_project :: "(pystr \<rightharpoonup> pystr) \<Rightarrow> unit prov" where
  "adopt_project vals =
     with_memory (\<lambda>m.
       case vals (py ''DOCTA_DEV_OIDC_PROJECT_ID'') of
         Some v \<Rightarrow>
           if m = [] \<and> v \<noteq> []
           then bindP (liftP (resource_identifier (JDict [(py ''DOCTA_DEV_OIDC_PROJECT_ID'', JStr v)]) ''DOCTA_DEV_OIDC_PROJECT_ID''))
                  (\<lambda>p. remember (set_member (py ''project_id'') (JStr p)))
           else liftP (Inr ())
       | None \<Rightarrow> liftP (Inr ()))"

definition requested_recovery :: "prov_world \<Rightarrow> pystr \<Rightarrow> unit prov" where
  "requested_recovery w instance_id =
     with_memory (\<lambda>m.
       if truthy (member_of m ''instance_id'') \<or> truthy (member_of m ''pending'') \<or> map_of m (py ''project_id'') = None
       then liftP (Inl (DevError not_recoverable))
       else bindP (on_http_error
                     (bindP (liftP (resource_identifier (JDict m) ''project_id'')) (\<lambda>p.
                      bindP (request w ''GET'' (projects_path @ py ''/'' @ p) None management) (\<lambda>_. liftP (Inr False))))
                     (\<lambda>status. if status \<noteq> 404 then liftP (Inl (IAMHTTPError status))
                               else bindP (recover w instance_id) (\<lambda>_. liftP (Inr True))))
              (\<lambda>recovered. if recovered then liftP (Inr ())
                 else liftP (Inl (DevError project_exists))))"

definition choose_instance :: "prov_world \<Rightarrow> bool \<Rightarrow> pystr \<Rightarrow> unit prov" where
  "choose_instance w recover_identity instance_id =
     with_memory (\<lambda>m.
       let previous = member_of m ''instance_id'' in
       if truthy previous \<and> \<not> same_value previous (JStr instance_id) then recover w instance_id
       else if recover_identity then requested_recovery w instance_id
       else liftP (Inr ()))"

text \<open>The instance is recorded in a state that has none: if \<open>when_empty\<close>, only in an empty one.\<close>

definition record_instance :: "prov_world \<Rightarrow> bool \<Rightarrow> pystr \<Rightarrow> unit prov" where
  "record_instance w when_empty instance_id =
     with_memory (\<lambda>m.
       if (if when_empty then m = [] else map_of m (py ''instance_id'') = None)
       then bindP (remember (set_member (py ''instance_id'') (JStr instance_id))) (\<lambda>_. save w)
       else liftP (Inr ()))"

definition check_project :: "prov_world \<Rightarrow> (pystr \<rightharpoonup> pystr) \<Rightarrow> bool \<Rightarrow> pystr \<Rightarrow> unit prov" where
  "check_project w vals known_instance project_id =
     bindP (on_http_error
              (request w ''GET'' (projects_path @ py ''/'' @ project_id) None management)
              (\<lambda>status. if status \<noteq> 404 then liftP (Inl (IAMHTTPError status)) else liftP (Inl (no_project known_instance)))) (\<lambda>document.
     bindP (liftP (get_default document ''project'' (JDict []))) (\<lambda>project.
     bindP (liftP (get_default project ''name'' JNull)) (\<lambda>name.
     bindP (liftP (required_value vals ''DOCTA_DEV_PROJECT_NAME'')) (\<lambda>expected.
     bindP (liftP (get_default project ''state'' JNull)) (\<lambda>state.
       if name \<noteq> JStr expected \<or> state \<noteq> JStr (py ''PROJECT_STATE_ACTIVE'')
       then liftP (Inl (DevError project_mismatch))
       else liftP (Inr ()))))))"

definition oidc_config :: "pystr \<Rightarrow> pystr \<Rightarrow> (pystr \<times> json) list" where
  "oidc_config origin redirect =
     [(py ''redirectUris'', JList [JStr (origin @ py ''/auth/callback''), JStr redirect]),
      (py ''postLogoutRedirectUris'', JList [JStr origin]),
      (py ''responseTypes'', JList [JStr (py ''OIDC_RESPONSE_TYPE_CODE'')]),
      (py ''grantTypes'', JList [JStr (py ''OIDC_GRANT_TYPE_AUTHORIZATION_CODE'')]),
      (py ''appType'', JStr (py ''OIDC_APP_TYPE_WEB'')),
      (py ''authMethodType'', JStr (py ''OIDC_AUTH_METHOD_TYPE_NONE'')),
      (py ''devMode'', JBool True),
      (py ''accessTokenType'', JStr (py ''OIDC_TOKEN_TYPE_JWT''))]"

text \<open>\<open>actual.setdefault("appType", ...)\<close>, and whether it has the configuration.\<close>

definition with_app_type :: "json \<Rightarrow> (prov_exn, (pystr \<times> json) list) result" where
  "with_app_type actual =
     (case actual of
        JDict kvs \<Rightarrow>
          Inr (if map_of kvs (py ''appType'') = None then set_member (py ''appType'') (JStr (py ''OIDC_APP_TYPE_WEB'')) kvs else kvs)
      | _ \<Rightarrow> Inl Wrong_type)"

definition configured :: "(pystr \<times> json) list \<Rightarrow> (pystr \<times> json) list \<Rightarrow> bool" where
  "configured config actual \<longleftrightarrow>
     list_all (\<lambda>(k, v). same_value (case map_of actual k of None \<Rightarrow> JNull | Some a \<Rightarrow> a) v) config"

definition confirm_config :: "prov_world \<Rightarrow> pystr \<Rightarrow> (pystr \<times> json) list \<Rightarrow> (pystr \<times> json) list \<Rightarrow> (pystr \<times> json) list prov" where
  "confirm_config w app_path config actual =
     (if configured config actual then liftP (Inr actual)
      else bindP (request w ''PUT'' (app_path @ py ''/oidc_config'') (Some (JDict config)) management) (\<lambda>_.
           bindP (request w ''GET'' app_path None management) (\<lambda>document.
           bindP (liftP (get_default document ''app'' (JDict []))) (\<lambda>app.
           bindP (liftP (get_default app ''oidcConfig'' (JDict []))) (\<lambda>again.
           bindP (liftP (with_app_type again)) (\<lambda>actual'.
             if configured config actual' then liftP (Inr actual')
             else liftP (Inl (DevError not_confirmed))))))))"

definition check_app :: "prov_world \<Rightarrow> (pystr \<rightharpoonup> pystr) \<Rightarrow> pystr \<Rightarrow> (pystr \<times> json) list \<Rightarrow> pystr prov" where
  "check_app w vals app_path config =
     bindP (request w ''GET'' app_path None management) (\<lambda>document.
     bindP (liftP (get_default document ''app'' (JDict []))) (\<lambda>app.
     bindP (liftP (get_default app ''name'' JNull)) (\<lambda>name.
     bindP (liftP (required_value vals ''DOCTA_DEV_APP_NAME'')) (\<lambda>expected.
     bindP (liftP (get_default app ''state'' JNull)) (\<lambda>state.
       if name \<noteq> JStr expected \<or> state \<noteq> JStr (py ''APP_STATE_ACTIVE'')
       then liftP (Inl (DevError app_mismatch))
       else bindP (liftP (get_default app ''oidcConfig'' (JDict []))) (\<lambda>oidc.
            if \<not> truthy oidc then liftP (Inl (DevError not_oidc))
            else bindP (liftP (with_app_type oidc)) (\<lambda>actual.
                 bindP (confirm_config w app_path config actual) (\<lambda>final.
                   liftP (resource_identifier (JDict final) ''clientId'')))))))))"

text \<open>What is written to the environment.\<close>

definition registered :: "pystr \<Rightarrow> pystr \<Rightarrow> (pystr \<times> pystr) list" where
  "registered project_id client_id =
     [(py ''DOCTA_OIDC_AUDIENCE'', project_id), (py ''DOCTA_DEV_OIDC_PROJECT_ID'', project_id),
      (py ''DOCTA_WEB_OIDC_CLIENT_ID'', client_id), (py ''DOCTA_DEV_OIDC_CLIENT_ID'', client_id),
      (py ''DOCTA_WEB_OIDC_SCOPES'', py ''openid profile urn:zitadel:iam:org:project:id:'' @ project_id @ py '':aud'')]"

definition provision :: "prov_world \<Rightarrow> (pystr \<rightharpoonup> pystr) \<Rightarrow> bool \<Rightarrow> (pystr \<times> pystr) list prov" where
  "provision w vals recover_identity =
     bindP (request w ''GET'' (py ''/instances/me'') None ''/admin/v1'') (\<lambda>document.
     bindP (liftP (get_default document ''instance'' (JDict []))) (\<lambda>inst.
     bindP (liftP (resource_identifier inst ''id'')) (\<lambda>instance_id.
     bindP (adopt_project vals) (\<lambda>_.
     with_memory (\<lambda>m. let known_instance = truthy (member_of m ''instance_id'') in
     bindP (choose_instance w recover_identity instance_id) (\<lambda>_.
     bindP (record_instance w True instance_id) (\<lambda>_.
     bindP (liftP (required_value vals ''DOCTA_DEV_PROJECT_NAME'')) (\<lambda>project_name.
     bindP (ensure w projects_path project_name ''project_id'' projects_path [] ''id'') (\<lambda>project_id.
     bindP (check_project w vals known_instance project_id) (\<lambda>_.
     bindP (record_instance w False instance_id) (\<lambda>_.
     bindP (liftP (required_value vals ''DOCTA_WEB_ORIGIN'')) (\<lambda>origin.
     bindP (liftP (required_value vals ''DOCTA_DEV_OIDC_REDIRECT_URI'')) (\<lambda>redirect.
     bindP (liftP (required_value vals ''DOCTA_DEV_APP_NAME'')) (\<lambda>app_name.
     let config = oidc_config origin redirect; apps_path = projects_path @ py ''/'' @ project_id @ py ''/apps'' in
     bindP (ensure w apps_path app_name ''app_id'' (apps_path @ py ''/oidc'')
              (merged config [(py ''version'', JStr (py ''OIDC_VERSION_1_0''))]) ''appId'') (\<lambda>app_id.
     bindP (check_app w vals (apps_path @ py ''/'' @ app_id) config) (\<lambda>client_id.
       liftP (Inr (registered project_id client_id))))))))))))))))))"

text \<open>A state that is not an object fails at its first use; a false one is first given the project of the
  environment, which is checked before.\<close>

definition provision_other :: "prov_world \<Rightarrow> (pystr \<rightharpoonup> pystr) \<Rightarrow> json \<Rightarrow> (pystr \<times> pystr) list prov" where
  "provision_other w vals v =
     bindP (request w ''GET'' (py ''/instances/me'') None ''/admin/v1'') (\<lambda>document.
     bindP (liftP (get_default document ''instance'' (JDict []))) (\<lambda>inst.
     bindP (liftP (resource_identifier inst ''id'')) (\<lambda>_.
     bindP (case vals (py ''DOCTA_DEV_OIDC_PROJECT_ID'') of
              Some p \<Rightarrow>
                if \<not> truthy v \<and> p \<noteq> []
                then liftP (resource_identifier (JDict [(py ''DOCTA_DEV_OIDC_PROJECT_ID'', JStr p)]) ''DOCTA_DEV_OIDC_PROJECT_ID'')
                else liftP (Inr p)
            | None \<Rightarrow> liftP (Inr [])) (\<lambda>_.
       liftP (Inl Wrong_type)))))"

text \<open>\<open>Provisioner(...).provision(...)\<close> in a new process.\<close>

definition provision_run ::
  "prov_world \<Rightarrow> (pystr \<rightharpoonup> pystr) \<times> bool \<Rightarrow> prov_state \<Rightarrow> (prov_exn, (pystr \<times> pystr) list) result \<times> prov_state" where
  "provision_run w args s =
     (let s' = s\<lparr>ps_memory := [], ps_log := ps_log s @ [Started]\<rparr> in
      case ps_disk s of
        No_file \<Rightarrow> provision w (fst args) (snd args) s'
      | Unreadable \<Rightarrow> (Inl Value_error, s')
      | Saved (JDict kvs) \<Rightarrow> provision w (fst args) (snd args) (s'\<lparr>ps_memory := kvs\<rparr>)
      | Saved v \<Rightarrow> provision_other w (fst args) v s')"

definition provision_runs :: "prov_world \<Rightarrow> ((pystr \<rightharpoonup> pystr) \<times> bool) list \<Rightarrow> prov_state \<Rightarrow> prov_state" where
  "provision_runs w argss s = fold (\<lambda>args s. snd (provision_run w args s)) argss s"

section \<open>What the log shows\<close>

fun created_key :: "prov_event \<Rightarrow> string option" where
  "created_key (Sent verb path body) =
     (if verb = ''POST'' \<and> path = py ''/management/v1/projects'' then Some ''project_id''
      else if verb = ''POST'' \<and> suffix (py ''/apps/oidc'') path then Some ''app_id'' else None)"
| "created_key _ = None"

text \<open>The state was given up for another instance, or had no instance, no creation whose outcome is unknown and a
  project; and no volume held data.\<close>

definition justified :: "pystr list \<Rightarrow> (pystr \<times> json) list \<Rightarrow> pystr \<Rightarrow> bool" where
  "justified names old inst \<longleftrightarrow>
     list_all (\<lambda>v. v \<notin> set names) data_volumes \<and>
     (if truthy (member_of old ''instance_id'') then \<not> same_value (member_of old ''instance_id'') (JStr inst)
      else \<not> truthy (member_of old ''pending'') \<and> map_of old (py ''project_id'') \<noteq> None)"

fun settling :: "prov_event \<Rightarrow> bool" where
  "settling (Wrote m) \<longleftrightarrow> map_of m (py ''pending'') = None"
| "settling (Recovered names old inst) = True"
| "settling _ = False"

fun is_recovery :: "prov_event \<Rightarrow> bool" where
  "is_recovery (Recovered names old inst) = True"
| "is_recovery _ = False"

text \<open>The keys created since the last recovery, and whether the outcome of a creation has not been recorded.\<close>

definition open_step :: "prov_event \<Rightarrow> string set \<Rightarrow> string set" where
  "open_step e ks =
     (if is_recovery e then {} else case created_key e of Some k \<Rightarrow> insert k ks | None \<Rightarrow> ks)"

definition open_keys :: "prov_event list \<Rightarrow> string set" where
  "open_keys hist = fold open_step hist {}"

definition awaiting_step :: "prov_event \<Rightarrow> bool \<Rightarrow> bool" where
  "awaiting_step e b = (if settling e then False else created_key e \<noteq> None \<or> b)"

definition awaiting :: "prov_event list \<Rightarrow> bool" where
  "awaiting hist = fold awaiting_step hist False"

definition allowed_after :: "prov_event list \<Rightarrow> prov_event \<Rightarrow> bool" where
  "allowed_after hist e \<longleftrightarrow>
     (\<forall>k. created_key e = Some k \<longrightarrow> k \<notin> open_keys hist \<and> \<not> awaiting hist \<and>
        (\<exists>m. hist \<noteq> [] \<and> last hist = Wrote m \<and> map_of m (py ''pending'') = Some (JStr (py k)))) \<and>
     (case e of Recovered names old inst \<Rightarrow> justified names old inst | _ \<Rightarrow> True)"

definition orderly :: "prov_event list \<Rightarrow> bool" where
  "orderly hist \<longleftrightarrow> (\<forall>j < length hist. allowed_after (take j hist) (hist ! j))"

lemma log_snoc:
  "open_keys (hist @ [e]) = open_step e (open_keys hist)"
  "awaiting (hist @ [e]) = awaiting_step e (awaiting hist)"
  "orderly (hist @ [e]) \<longleftrightarrow> orderly hist \<and> allowed_after hist e"
  by (auto simp: open_keys_def awaiting_def orderly_def nth_append less_Suc_eq)

lemma last_or_before:
  "(\<exists>i < length (xs @ [x]). P ((xs @ [x]) ! i) \<and> (\<forall>r. i < r \<and> r < length (xs @ [x]) \<longrightarrow> \<not> Q ((xs @ [x]) ! r))) \<longleftrightarrow>
     P x \<or> \<not> Q x \<and> (\<exists>i < length xs. P (xs ! i) \<and> (\<forall>r. i < r \<and> r < length xs \<longrightarrow> \<not> Q (xs ! r)))" (is "?l \<longleftrightarrow> ?r")
proof
  assume ?l
  then obtain i where i: "i < length (xs @ [x])" "P ((xs @ [x]) ! i)"
    "\<And>r. i < r \<Longrightarrow> r < length (xs @ [x]) \<Longrightarrow> \<not> Q ((xs @ [x]) ! r)" by blast
  show ?r
  proof (cases "i < length xs")
    case True
    have "\<not> Q x" using i(3) [of "length xs"] True by simp
    moreover have "\<not> Q (xs ! r)" if "i < r" "r < length xs" for r using i(3) [of r] that by (simp add: nth_append)
    ultimately show ?thesis using True i(2) by (auto simp: nth_append)
  next
    case False
    then show ?thesis using i(1,2) by (simp add: nth_append less_Suc_eq)
  qed
next
  assume ?r
  then show ?l
  proof
    assume "P x"
    then show ?l by (intro exI [of _ "length xs"]) auto
  next
    assume "\<not> Q x \<and> (\<exists>i < length xs. P (xs ! i) \<and> (\<forall>r. i < r \<and> r < length xs \<longrightarrow> \<not> Q (xs ! r)))"
    then obtain i where i: "\<not> Q x" "i < length xs" "P (xs ! i)" "\<And>r. i < r \<Longrightarrow> r < length xs \<Longrightarrow> \<not> Q (xs ! r)" by blast
    then show ?l by (intro exI [of _ i]) (auto simp: nth_append less_Suc_eq)
  qed
qed

lemma open_since:
  "k \<in> open_keys hist \<longleftrightarrow>
     (\<exists>i < length hist. created_key (hist ! i) = Some k \<and> (\<forall>r. i < r \<and> r < length hist \<longrightarrow> \<not> is_recovery (hist ! r)))"
proof (induction hist rule: rev_induct)
  case Nil
  show ?case by (simp add: open_keys_def)
next
  case (snoc e hist)
  have n: "created_key e = None" if "is_recovery e" using that by (cases e) auto
  have split: "(\<exists>i < length (hist @ [e]). created_key ((hist @ [e]) ! i) = Some k \<and>
        (\<forall>r. i < r \<and> r < length (hist @ [e]) \<longrightarrow> \<not> is_recovery ((hist @ [e]) ! r))) \<longleftrightarrow>
      created_key e = Some k \<or> \<not> is_recovery e \<and> (\<exists>i < length hist. created_key (hist ! i) = Some k \<and>
        (\<forall>r. i < r \<and> r < length hist \<longrightarrow> \<not> is_recovery (hist ! r)))"
    by (rule last_or_before)
  show ?case unfolding split log_snoc(1) open_step_def snoc [symmetric] using n by (auto split: option.splits)
qed

lemma awaiting_since:
  "awaiting hist \<longleftrightarrow>
     (\<exists>i < length hist. created_key (hist ! i) \<noteq> None \<and> (\<forall>r. i < r \<and> r < length hist \<longrightarrow> \<not> settling (hist ! r)))"
proof (induction hist rule: rev_induct)
  case Nil
  show ?case by (simp add: awaiting_def)
next
  case (snoc e hist)
  have n: "created_key e = None" if "settling e" using that by (cases e) auto
  have split: "(\<exists>i < length (hist @ [e]). created_key ((hist @ [e]) ! i) \<noteq> None \<and>
        (\<forall>r. i < r \<and> r < length (hist @ [e]) \<longrightarrow> \<not> settling ((hist @ [e]) ! r))) \<longleftrightarrow>
      created_key e \<noteq> None \<or> \<not> settling e \<and> (\<exists>i < length hist. created_key (hist ! i) \<noteq> None \<and>
        (\<forall>r. i < r \<and> r < length hist \<longrightarrow> \<not> settling (hist ! r)))"
    by (rule last_or_before)
  show ?case unfolding split log_snoc(2) awaiting_step_def snoc [symmetric] using n by auto
qed

section \<open>The invariant\<close>

text \<open>What a state must hold, given the log: every open key is recorded, as pending or with its resource; an
  open application has its project.\<close>

definition knows :: "(pystr \<times> json) list \<Rightarrow> string \<Rightarrow> bool" where
  "knows m k \<longleftrightarrow>
     (map_of m (py ''pending'') = Some (JStr (py k)) \<or> map_of m (py k) \<noteq> None) \<and>
     (k \<noteq> ''project_id'' \<longrightarrow> map_of m (py ''project_id'') \<noteq> None)"

definition on_record :: "prov_event list \<Rightarrow> (pystr \<times> json) list \<Rightarrow> bool" where
  "on_record hist m \<longleftrightarrow> (\<forall>k \<in> open_keys hist. knows m k) \<and> (awaiting hist \<longrightarrow> truthy (member_of m ''pending''))"

definition durable :: "prov_state \<Rightarrow> bool" where
  "durable s \<longleftrightarrow> orderly (ps_log s) \<and>
     (case ps_disk s of
        Saved (JDict m) \<Rightarrow> on_record (ps_log s) m
      | _ \<Rightarrow> open_keys (ps_log s) = {} \<and> \<not> awaiting (ps_log s))"

definition steady :: "bool \<Rightarrow> prov_state \<Rightarrow> bool" where
  "steady b s \<longleftrightarrow> durable s \<and> on_record (ps_log s) (ps_memory s) \<and>
     (b \<longrightarrow> map_of (ps_memory s) (py ''project_id'') \<noteq> None)"

text \<open>After an error only the disk matters, except where a failed request is caught.\<close>

definition keeps :: "(prov_state \<Rightarrow> bool) \<Rightarrow> 'a prov \<Rightarrow> ('a \<Rightarrow> prov_state \<Rightarrow> bool) \<Rightarrow> bool" where
  "keeps P m Q \<longleftrightarrow>
     (\<forall>s. P s \<longrightarrow> (case m s of (Inr x, s') \<Rightarrow> Q x s' | (Inl e, s') \<Rightarrow> (if \<exists>n. e = IAMHTTPError n then steady False s' else durable s')))"

lemma keeps_bind: "keeps P m Q \<Longrightarrow> (\<And>x. keeps (Q x) (f x) R) \<Longrightarrow> keeps P (bindP m f) R"
proof -
  assume m: "keeps P m Q" and f: "\<And>x. keeps (Q x) (f x) R"
  show "keeps P (bindP m f) R"
    unfolding keeps_def
  proof (intro allI impI)
    fix s assume "P s"
    then have a: "case m s of (Inr x, s') \<Rightarrow> Q x s' | (Inl e, s') \<Rightarrow> (if \<exists>n. e = IAMHTTPError n then steady False s' else durable s')"
      using m by (simp add: keeps_def)
    obtain r s' where ms: "m s = (r, s')" by (cases "m s")
    show "case bindP m f s of (Inr x, s') \<Rightarrow> R x s' | (Inl e, s') \<Rightarrow> (if \<exists>n. e = IAMHTTPError n then steady False s' else durable s')"
    proof (cases r)
      case (Inr x)
      then have "Q x s'" using a ms by simp
      then show ?thesis using f [of x] Inr ms by (simp add: keeps_def bindP_def)
    qed (use a ms in \<open>simp add: bindP_def\<close>)
  qed
qed

lemma keeps_lift: "(\<And>s. P s \<Longrightarrow> steady False s) \<Longrightarrow> (\<And>s x. r = Inr x \<Longrightarrow> P s \<Longrightarrow> Q x s) \<Longrightarrow> keeps P (liftP r) Q"
  unfolding keeps_def liftP_def by (auto simp: steady_def split: sum.splits)

lemma keeps_memory: "(\<And>m. keeps (\<lambda>s. P s \<and> ps_memory s = m) (f m) Q) \<Longrightarrow> keeps P (with_memory f) Q"
  unfolding keeps_def with_memory_def by auto

lemma keeps_remember: "(\<And>s. P s \<Longrightarrow> Q () (s\<lparr>ps_memory := f (ps_memory s)\<rparr>)) \<Longrightarrow> keeps P (remember f) Q"
  unfolding keeps_def remember_def by auto

lemma keeps_http: "keeps P m Q \<Longrightarrow> (\<And>n. keeps (steady False) (h n) Q) \<Longrightarrow> keeps P (on_http_error m h) Q"
proof -
  assume m: "keeps P m Q" and h: "\<And>n. keeps (steady False) (h n) Q"
  show "keeps P (on_http_error m h) Q"
    unfolding keeps_def
  proof (intro allI impI)
    fix s assume "P s"
    then have a: "case m s of (Inr x, s') \<Rightarrow> Q x s' | (Inl e, s') \<Rightarrow> (if \<exists>n. e = IAMHTTPError n then steady False s' else durable s')"
      using m by (simp add: keeps_def)
    obtain r s' where ms: "m s = (r, s')" by (cases "m s")
    show "case on_http_error m h s of (Inr x, s') \<Rightarrow> Q x s' | (Inl e, s') \<Rightarrow> (if \<exists>n. e = IAMHTTPError n then steady False s' else durable s')"
    proof (cases r)
      case (Inl e)
      show ?thesis
      proof (cases e)
        case (IAMHTTPError n)
        then have "steady False s'" using a ms Inl by simp
        then show ?thesis using h [of n] Inl ms IAMHTTPError by (simp add: keeps_def on_http_error_def)
      qed (use a ms Inl in \<open>simp_all add: on_http_error_def\<close>)
    qed (use a ms in \<open>simp add: on_http_error_def\<close>)
  qed
qed

lemma keeps_weaken: "keeps P m Q \<Longrightarrow> (\<And>s. P' s \<Longrightarrow> P s) \<Longrightarrow> (\<And>x s. Q x s \<Longrightarrow> Q' x s) \<Longrightarrow> keeps P' m Q'"
proof -
  assume m: "keeps P m Q" and p: "\<And>s. P' s \<Longrightarrow> P s" and q: "\<And>x s. Q x s \<Longrightarrow> Q' x s"
  show "keeps P' m Q'"
    unfolding keeps_def
  proof (intro allI impI)
    fix s assume "P' s"
    then have "case m s of (Inr x, s') \<Rightarrow> Q x s' | (Inl e, s') \<Rightarrow> (if \<exists>n. e = IAMHTTPError n then steady False s' else durable s')"
      using m p by (simp add: keeps_def)
    then show "case m s of (Inr x, s') \<Rightarrow> Q' x s' | (Inl e, s') \<Rightarrow> (if \<exists>n. e = IAMHTTPError n then steady False s' else durable s')"
      using q by (simp split: prod.splits sum.splits)
  qed
qed

lemma keeps_request:
  assumes "\<And>s. P s \<Longrightarrow> steady False (s\<lparr>ps_log := ps_log s @ [Sent verb (py api @ path) body]\<rparr>) \<and>
      Q (s\<lparr>ps_log := ps_log s @ [Sent verb (py api @ path) body]\<rparr>)"
  shows "keeps P (request w verb path body api) (\<lambda>_. Q)"
  using assms unfolding keeps_def request_def
  by (auto simp: Let_def steady_def split: iam_reply.splits option.splits json.splits)

lemma keeps_write:
  assumes "\<And>s. P s \<Longrightarrow> durable s \<and> Q (done (s\<lparr>ps_log := ps_log s @ [e]\<rparr>))" "\<And>s. Q s \<Longrightarrow> durable s"
  shows "keeps P (write_file w e done) (\<lambda>_. Q)"
  using assms unfolding keeps_def write_file_def by (auto simp: Let_def split: write_reply.splits)

text \<open>One more event in the log.\<close>

lemma on_record_quiet: "created_key e = None \<Longrightarrow> on_record hist m \<Longrightarrow> on_record (hist @ [e]) m"
  by (auto simp: on_record_def log_snoc open_step_def awaiting_step_def split: if_splits)

lemma orderly_quiet: "created_key e = None \<Longrightarrow> \<not> is_recovery e \<Longrightarrow> orderly hist \<Longrightarrow> orderly (hist @ [e])"
  by (cases e) (auto simp: log_snoc allowed_after_def)

lemma durable_quiet:
  assumes "durable s" "created_key e = None" "\<not> is_recovery e"
  shows "durable (s\<lparr>ps_log := ps_log s @ [e]\<rparr>)"
proof -
  have "open_keys (ps_log s @ [e]) = {} \<and> \<not> awaiting (ps_log s @ [e])" if "open_keys (ps_log s) = {} \<and> \<not> awaiting (ps_log s)"
    using that assms(2) by (simp add: log_snoc open_step_def awaiting_step_def)
  then show ?thesis
    using assms on_record_quiet orderly_quiet
    by (auto simp: durable_def split: saved.splits json.splits)
qed

lemma steady_quiet:
  "steady b s \<Longrightarrow> created_key e = None \<Longrightarrow> \<not> is_recovery e \<Longrightarrow> steady b (s\<lparr>ps_log := ps_log s @ [e]\<rparr>)"
  using durable_quiet on_record_quiet by (simp add: steady_def)

lemma durable_memory [simp]: "durable (s\<lparr>ps_memory := m\<rparr>) = durable s"
  by (auto simp: durable_def split: saved.splits json.splits)

lemma steady_False: "steady b s \<Longrightarrow> steady False s"
  by (simp add: steady_def)

lemma steady_durable: "steady b s \<Longrightarrow> durable s"
  by (simp add: steady_def)

text \<open>A state whose memory is on the disk, after \<open>Wrote\<close>.\<close>

lemma steady_saved:
  assumes "orderly (ps_log s)" "on_record (ps_log s @ [Wrote (ps_memory s)]) (ps_memory s)"
    "b \<Longrightarrow> map_of (ps_memory s) (py ''project_id'') \<noteq> None"
  shows "steady b (to_disk (s\<lparr>ps_log := ps_log s @ [Wrote (ps_memory s)]\<rparr>))"
  using assms orderly_quiet [of "Wrote (ps_memory s)"] by (simp add: steady_def durable_def to_disk_def)

lemma keeps_save_new:
  assumes "\<And>s. P s \<Longrightarrow> durable s \<and> Q (to_disk (s\<lparr>ps_log := ps_log s @ [Wrote (ps_memory s)]\<rparr>))" "\<And>s. Q s \<Longrightarrow> durable s"
  shows "keeps P (save w) (\<lambda>_. Q)"
  using assms unfolding keeps_def save_def write_file_def by (auto simp: Let_def split: write_reply.splits)

lemma keeps_save: "keeps (steady b) (save w) (\<lambda>_. steady b)"
proof (rule keeps_save_new)
  show "durable s \<and> steady b (to_disk (s\<lparr>ps_log := ps_log s @ [Wrote (ps_memory s)]\<rparr>))" if "steady b s" for s
    using that by (intro conjI steady_saved) (auto simp: steady_def durable_def intro: on_record_quiet)
qed (rule steady_durable)

lemma keeps_quiet_request:
  assumes "created_key (Sent verb (py api @ path) body) = None"
  shows "keeps (\<lambda>s. steady b s \<and> ps_memory s = m) (request w verb path body api) (\<lambda>_ s. steady b s \<and> ps_memory s = m)"
  by (rule keeps_request) (use assms in \<open>auto intro: steady_quiet steady_False\<close>)

lemma keeps_get: "keeps (steady b) (request w ''GET'' path body api) (\<lambda>_. steady b)"
  by (rule keeps_request) (auto intro: steady_quiet steady_False)

lemma keeps_put: "keeps (steady b) (request w ''PUT'' path body api) (\<lambda>_. steady b)"
  by (rule keeps_request) (auto intro: steady_quiet steady_False)

lemma keeps_liftI: "keeps (steady b) (liftP r) (\<lambda>_. steady b)"
  by (rule keeps_lift) (auto intro: steady_False)

lemma keeps_lift_here: "keeps (\<lambda>s. steady b s \<and> ps_memory s = m) (liftP r) (\<lambda>x s. steady b s \<and> ps_memory s = m \<and> r = Inr x)"
  by (rule keeps_lift) (auto intro: steady_False)

lemma keeps_lift_any: "keeps (\<lambda>s. steady b s \<and> ps_memory s = m) (liftP r) (\<lambda>_. steady b)"
  by (rule keeps_lift) (auto intro: steady_False)

lemma search_quiet: "created_key (Sent verb (py api @ path @ py ''/_search'') body) = None"
proof -
  have "last (py api @ path @ py ''/_search'') = 104" by (simp add: py_def)
  moreover have "last (py ''/management/v1/projects'') = 115" "last (zs @ py ''/apps/oidc'') = 99" for zs by (simp_all add: py_def)
  ultimately show ?thesis by (auto simp: suffix_def)
qed

lemma keeps_find:
  "keeps (\<lambda>s. steady b s \<and> ps_memory s = m) (find_row w path name) (\<lambda>_ s. steady b s \<and> ps_memory s = m)"
  unfolding find_row_def
  by (rule keeps_bind, rule keeps_quiet_request, rule search_quiet)
    (rule keeps_weaken [OF keeps_lift_here], auto)

lemma created_key_cases: "created_key e = Some k \<Longrightarrow> k = ''project_id'' \<or> k = ''app_id''"
  by (cases e) (auto split: if_splits)

lemma open_keys_cases: "k \<in> open_keys hist \<Longrightarrow> k = ''project_id'' \<or> k = ''app_id''"
  using open_since created_key_cases by blast

lemma other_keys [simp]: "py ''pending'' \<noteq> py ''project_id''" "py ''pending'' \<noteq> py ''app_id''" "py ''project_id'' \<noteq> py ''app_id''"
  "py ''instance_id'' \<noteq> py ''pending''" "py ''instance_id'' \<noteq> py ''project_id''" "py ''instance_id'' \<noteq> py ''app_id''"
  "py ''project_id'' \<noteq> py ''pending''" "py ''app_id'' \<noteq> py ''pending''" "py ''app_id'' \<noteq> py ''project_id''"
  "py ''pending'' \<noteq> py ''instance_id''" "py ''project_id'' \<noteq> py ''instance_id''" "py ''app_id'' \<noteq> py ''instance_id''"
  by (simp_all add: py_def)

text \<open>The resource of a key may be recorded where the project is settled before the application.\<close>

definition may_settle :: "string \<Rightarrow> (pystr \<times> json) list \<Rightarrow> bool" where
  "may_settle k m \<longleftrightarrow>
     (k = ''project_id'' \<and> map_of m (py ''project_id'') = None) \<or> (k = ''app_id'' \<and> map_of m (py ''project_id'') \<noteq> None)"

lemma settled_knows:
  assumes "may_settle k m" "knows m k'" "k' = ''project_id'' \<or> k' = ''app_id''"
  shows "knows (del_member (py ''pending'') (set_member (py k) v m)) k'"
  using assms by (auto simp: may_settle_def knows_def del_member_lookup set_member_lookup)

lemma keeps_settle:
  "keeps (\<lambda>s. steady b s \<and> may_settle k (ps_memory s)) (settle w k v) (\<lambda>_. steady True)"
proof -
  define new where "new m = del_member (py ''pending'') (set_member (py k) (JStr v) m)" for m
  have dom: "map_of (new m) (py ''project_id'') \<noteq> None" "map_of (new m) (py ''pending'') = None" if "may_settle k m" for m
    using that by (auto simp: new_def may_settle_def del_member_lookup set_member_lookup)
  define R where "R s \<longleftrightarrow> durable s \<and> map_of (ps_memory s) (py ''project_id'') \<noteq> None \<and>
      on_record (ps_log s @ [Wrote (ps_memory s)]) (ps_memory s)" for s
  have "R (s\<lparr>ps_memory := new (ps_memory s)\<rparr>)" if "steady b s" "may_settle k (ps_memory s)" for s
  proof -
    have "knows (new (ps_memory s)) k'" if "k' \<in> open_keys (ps_log s)" for k'
      unfolding new_def using settled_knows [OF \<open>may_settle k (ps_memory s)\<close>] open_keys_cases [OF that] that \<open>steady b s\<close>
      by (simp add: steady_def on_record_def)
    then show ?thesis
      using that dom [OF that(2)] by (simp add: R_def steady_def durable_memory on_record_def log_snoc open_step_def awaiting_step_def)
  qed
  then have r: "keeps (\<lambda>s. steady b s \<and> may_settle k (ps_memory s)) (remember new) (\<lambda>_. R)"
    by (intro keeps_remember) simp
  have t: "keeps R (save w) (\<lambda>_. steady True)"
    by (rule keeps_save_new) (auto simp: R_def durable_def intro!: steady_saved dest: steady_durable)
  show ?thesis
    unfolding settle_def new_def [symmetric]
    by (rule keeps_bind [OF r], rule keeps_bind [OF t], rule keeps_liftI)
qed

text \<open>The creation itself: allowed where the state knows nothing of the key, and then recorded as pending.\<close>

lemma keeps_create:
  assumes "created_key (Sent ''POST'' (py management @ path) body) = Some k"
  shows "keeps (\<lambda>s. steady b s \<and> ps_memory s = set_member (py ''pending'') (JStr (py k)) m \<and> map_of m (py k) = None \<and> may_settle k m \<and>
      ps_log s \<noteq> [] \<and> last (ps_log s) = Wrote (ps_memory s) \<and> ps_disk s = Saved (JDict (ps_memory s)) \<and>
      k \<notin> open_keys (ps_log s) \<and> \<not> awaiting (ps_log s))
    (request w ''POST'' path body management) (\<lambda>_ s. steady b s \<and> may_settle k (ps_memory s))"
proof (rule keeps_request)
  fix s
  let ?e = "Sent ''POST'' (py management @ path) body"
  assume a: "steady b s \<and> ps_memory s = set_member (py ''pending'') (JStr (py k)) m \<and> map_of m (py k) = None \<and> may_settle k m \<and>
      ps_log s \<noteq> [] \<and> last (ps_log s) = Wrote (ps_memory s) \<and> ps_disk s = Saved (JDict (ps_memory s)) \<and>
      k \<notin> open_keys (ps_log s) \<and> \<not> awaiting (ps_log s)"
  have p: "map_of (ps_memory s) (py ''pending'') = Some (JStr (py k))" using a by (simp add: set_member_lookup)
  have nonempty: "py k \<noteq> []" using created_key_cases [OF assms] by (auto simp: py_def)
  have "allowed_after (ps_log s) ?e" unfolding allowed_after_def using a p assms by auto
  moreover have ms: "may_settle k (ps_memory s)" using a by (auto simp: may_settle_def set_member_lookup)
  moreover have "knows (ps_memory s) k" using p ms by (auto simp: knows_def may_settle_def)
  then have "on_record (ps_log s @ [?e]) (ps_memory s)"
    using a p nonempty unfolding steady_def on_record_def log_snoc(1) open_step_def assms
    by (auto simp: member_of_def)
  ultimately have "steady b (s\<lparr>ps_log := ps_log s @ [?e]\<rparr>)"
    using a by (auto simp: steady_def durable_def log_snoc(3) set_member_lookup)
  then show "steady False (s\<lparr>ps_log := ps_log s @ [?e]\<rparr>) \<and>
      (steady b (s\<lparr>ps_log := ps_log s @ [?e]\<rparr>) \<and> may_settle k (ps_memory (s\<lparr>ps_log := ps_log s @ [?e]\<rparr>)))"
    using ms steady_False by simp
qed

lemma keeps_False: "(\<And>s. \<not> P s) \<Longrightarrow> keeps P m Q"
  by (simp add: keeps_def)

lemma pending_known:
  assumes "steady b s" "\<not> truthy (member_of (ps_memory s) ''pending'')" "map_of (ps_memory s) (py k) = None"
  shows "k \<notin> open_keys (ps_log s)" "\<not> awaiting (ps_log s)"
    "on_record (ps_log s) (set_member (py ''pending'') v (ps_memory s))"
proof -
  have n: "map_of (ps_memory s) (py ''pending'') \<noteq> Some (JStr (py k'))" if "k' \<in> open_keys (ps_log s)" for k'
  proof
    assume "map_of (ps_memory s) (py ''pending'') = Some (JStr (py k'))"
    moreover have "py k' \<noteq> []" using open_keys_cases [OF that] by (auto simp: py_def)
    ultimately show False using assms(2) by (simp add: member_of_def)
  qed
  have kn: "knows (ps_memory s) k'" if "k' \<in> open_keys (ps_log s)" for k'
    using assms(1) that by (simp add: steady_def on_record_def)
  show u: "\<not> awaiting (ps_log s)" using assms(1,2) by (auto simp: steady_def on_record_def)
  show "k \<notin> open_keys (ps_log s)" using n [of k] kn [of k] assms(3) by (auto simp: knows_def)
  have "knows (set_member (py ''pending'') v (ps_memory s)) k'" if "k' \<in> open_keys (ps_log s)" for k'
    using n [OF that] kn [OF that] open_keys_cases [OF that] by (auto simp: knows_def set_member_lookup)
  then show "on_record (ps_log s) (set_member (py ''pending'') v (ps_memory s))" using u by (simp add: on_record_def)
qed

lemma keeps_ensure:
  assumes k: "k = ''project_id'' \<or> (k = ''app_id'' \<and> b)"
    and c: "\<And>body. created_key (Sent ''POST'' (py management @ create_path) body) = Some k"
  shows "keeps (steady b) (ensure w path name k create_path body result_key) (\<lambda>_. steady True)"
  unfolding ensure_def
proof (rule keeps_memory)
  fix m
  let ?P = "\<lambda>s. steady b s \<and> ps_memory s = m"
  have settle: "keeps ?P (bindP (liftP r) (settle w k)) (\<lambda>_. steady True)" if "may_settle k m" for r
    by (rule keeps_bind [OF keeps_lift_here], rule keeps_weaken [OF keeps_settle [of b]]) (use that in auto)
  show "keeps ?P
      (if map_of m (py k) \<noteq> None then liftP (resource_identifier (JDict m) k)
       else bindP (find_row w path name) (\<lambda>found.
         case found of
           Some row \<Rightarrow> bindP (liftP (resource_identifier row ''id'')) (settle w k)
         | None \<Rightarrow>
             if truthy (member_of m ''pending'')
             then liftP (Inl (DevError unknown_outcome))
             else bindP (remember (set_member (py ''pending'') (JStr (py k)))) (\<lambda>_.
                  bindP (save w) (\<lambda>_.
                  bindP (request w ''POST'' create_path (Some (JDict (merged [(py ''name'', JStr name)] body))) management) (\<lambda>created.
                  bindP (liftP (resource_identifier created result_key)) (settle w k)))))) (\<lambda>_. steady True)"
  proof (cases "map_of m (py k) = None")
    case False
    then show ?thesis using k by (simp) (rule keeps_lift, auto simp: steady_def)
  next
    case None: True
    show ?thesis
    proof (cases "may_settle k m")
      case False
      then show ?thesis using k None by (intro keeps_False) (auto simp: steady_def may_settle_def)
    next
      case True
      define R where "R s \<longleftrightarrow> steady b s \<and> ps_memory s = set_member (py ''pending'') (JStr (py k)) m \<and>
          k \<notin> open_keys (ps_log s) \<and> \<not> awaiting (ps_log s)" for s
      have remember: "keeps ?P (remember (set_member (py ''pending'') (JStr (py k)))) (\<lambda>_. R)" if "\<not> truthy (member_of m ''pending'')"
      proof (rule keeps_remember)
        fix s assume s: "steady b s \<and> ps_memory s = m"
        have "k \<notin> open_keys (ps_log s)" "\<not> awaiting (ps_log s)"
          "on_record (ps_log s) (set_member (py ''pending'') (JStr (py k)) (ps_memory s))"
          using pending_known(1,2) [of b s k] pending_known(3) [of b s k "JStr (py k)"] s that None by simp_all
        then show "R (s\<lparr>ps_memory := set_member (py ''pending'') (JStr (py k)) (ps_memory s)\<rparr>)"
          using s by (auto simp: R_def steady_def set_member_lookup)
      qed
      have saved: "keeps R (save w) (\<lambda>_ s. R s \<and> ps_log s \<noteq> [] \<and> last (ps_log s) = Wrote (ps_memory s) \<and> ps_disk s = Saved (JDict (ps_memory s)))"
      proof (rule keeps_save_new)
        fix s assume r: "R s"
        let ?s = "to_disk (s\<lparr>ps_log := ps_log s @ [Wrote (ps_memory s)]\<rparr>)"
        have "steady b ?s" using r by (intro steady_saved) (auto simp: R_def steady_def durable_def intro: on_record_quiet)
        then show "durable s \<and> R ?s \<and> ps_log ?s \<noteq> [] \<and> last (ps_log ?s) = Wrote (ps_memory ?s) \<and> ps_disk ?s = Saved (JDict (ps_memory ?s))"
          using r steady_durable [of b s] by (auto simp: R_def to_disk_def log_snoc open_step_def awaiting_step_def)
      qed (auto simp: R_def dest: steady_durable)
      have create: "keeps (\<lambda>s. R s \<and> ps_log s \<noteq> [] \<and> last (ps_log s) = Wrote (ps_memory s) \<and> ps_disk s = Saved (JDict (ps_memory s)))
          (request w ''POST'' create_path body' management) (\<lambda>_ s. steady b s \<and> may_settle k (ps_memory s))" for body'
        by (rule keeps_weaken [OF keeps_create [OF c, of b m]]) (use None True in \<open>auto simp: R_def\<close>)
      have created: "keeps (\<lambda>s. steady b s \<and> may_settle k (ps_memory s)) (bindP (liftP r) (settle w k)) (\<lambda>_. steady True)" for r
        by (rule keeps_bind [where Q = "\<lambda>_ s. steady b s \<and> may_settle k (ps_memory s)"], rule keeps_lift)
          (auto intro: steady_False keeps_settle)
      define rest where "rest = (\<lambda>found. case found of
           Some row \<Rightarrow> bindP (liftP (resource_identifier row ''id'')) (settle w k)
         | None \<Rightarrow>
             if truthy (member_of m ''pending'')
             then liftP (Inl (DevError unknown_outcome))
             else bindP (remember (set_member (py ''pending'') (JStr (py k)))) (\<lambda>_.
                  bindP (save w) (\<lambda>_.
                  bindP (request w ''POST'' create_path (Some (JDict (merged [(py ''name'', JStr name)] body))) management) (\<lambda>created.
                  bindP (liftP (resource_identifier created result_key)) (settle w k)))))"
      have pending: "keeps ?P (bindP (remember (set_member (py ''pending'') (JStr (py k)))) (\<lambda>_.
          bindP (save w) (\<lambda>_.
          bindP (request w ''POST'' create_path (Some (JDict (merged [(py ''name'', JStr name)] body))) management) (\<lambda>created.
          bindP (liftP (resource_identifier created result_key)) (settle w k))))) (\<lambda>_. steady True)" if "\<not> truthy (member_of m ''pending'')"
        by (rule keeps_bind [OF remember [OF that]], rule keeps_bind [OF saved], rule keeps_bind [OF create], rule created)
      have refuse: "keeps ?P (liftP (Inl e)) (\<lambda>_. steady True)" for e :: prov_exn
        by (rule keeps_lift) (auto intro: steady_False)
      have "keeps ?P (rest found) (\<lambda>_. steady True)" for found
        using settle [OF True] pending by (cases found) (simp_all add: rest_def refuse)
      then have "keeps ?P (bindP (find_row w path name) rest) (\<lambda>_. steady True)" by (rule keeps_bind [OF keeps_find])
      then show ?thesis using None by (simp add: rest_def)
    qed
  qed
qed

text \<open>The state is given up.\<close>

lemma keeps_archive: "keeps (\<lambda>s. steady b s \<and> ps_memory s = m) (archive w name) (\<lambda>_ s. steady b s \<and> ps_memory s = m)"
  unfolding archive_def by (rule keeps_write) (auto intro: steady_quiet steady_durable)

lemma keeps_recover:
  assumes "\<And>names. list_all (\<lambda>v. v \<notin> set names) data_volumes \<Longrightarrow> justified names m inst"
  shows "keeps (\<lambda>s. steady b s \<and> ps_memory s = m) (recover w inst) (\<lambda>_. steady False)"
proof -
  let ?P = "\<lambda>s. steady b s \<and> ps_memory s = m"
  define final where "final names = with_memory (\<lambda>old.
      bindP (remember (\<lambda>_. [(py ''instance_id'', JStr inst)])) (\<lambda>_. write_file w (Recovered names old inst) to_disk))" for names
  have final: "keeps ?P (final names) (\<lambda>_. steady False)" if names: "justified names m inst" for names
    unfolding final_def
  proof (rule keeps_memory)
    fix old
    let ?R = "\<lambda>s. durable s \<and> ps_memory s = [(py ''instance_id'', JStr inst)] \<and> old = m"
    have "keeps ?R (write_file w (Recovered names old inst) to_disk) (\<lambda>_. steady False)"
    proof (rule keeps_write)
      fix s assume r: "?R s"
      have "orderly (ps_log s @ [Recovered names old inst])"
        using r names by (simp add: durable_def log_snoc(3) allowed_after_def)
      moreover have "on_record (ps_log s @ [Recovered names old inst]) x" for x
        by (simp add: on_record_def log_snoc open_step_def awaiting_step_def)
      ultimately show "durable s \<and> steady False (to_disk (s\<lparr>ps_log := ps_log s @ [Recovered names old inst]\<rparr>))"
        using r by (simp add: steady_def durable_def to_disk_def)
    qed (rule steady_durable)
    then show "keeps (\<lambda>s. ?P s \<and> ps_memory s = old)
        (bindP (remember (\<lambda>_. [(py ''instance_id'', JStr inst)])) (\<lambda>_. write_file w (Recovered names old inst) to_disk)) (\<lambda>_. steady False)"
      by (rule keeps_bind [rotated]) (rule keeps_remember, auto simp: steady_durable)
  qed
  have guarded: "keeps ?P (bindP (liftP (guard_identity_recovery listed)) (\<lambda>names.
      bindP m1 (\<lambda>_. bindP (archive w ''env-before-identity-recovery'') (\<lambda>_. final names)))) (\<lambda>_. steady False)"
    if "keeps ?P m1 (\<lambda>_. ?P)" for listed m1
  proof (rule keeps_bind [OF keeps_lift_here])
    fix names
    show "keeps (\<lambda>s. steady b s \<and> ps_memory s = m \<and> guard_identity_recovery listed = Inr names)
        (bindP m1 (\<lambda>_. bindP (archive w ''env-before-identity-recovery'') (\<lambda>_. final names))) (\<lambda>_. steady False)"
    proof (cases "guard_identity_recovery listed = Inr names")
      case True
      then have "list_all (\<lambda>v. v \<notin> set names) data_volumes"
        by (auto simp: guard_identity_recovery_def list_ex_iff list_all_iff split: option.splits if_splits)
      then have j: "justified names m inst" by (rule assms)
      show ?thesis
        using keeps_bind [OF that keeps_bind [OF keeps_archive final [OF j]]] True by simp
    qed (simp add: keeps_False)
  qed
  have first: "keeps ?P (if c then liftP (Inr ()) else archive w ''identity-before-recovery'') (\<lambda>_. ?P)" for c
    using keeps_archive by (auto intro: keeps_lift steady_False)
  show ?thesis
    unfolding keeps_def
  proof (intro allI impI)
    fix s assume "?P s"
    with guarded [OF first, of "pw_volumes w (ps_log s)" "ps_disk s = No_file"]
    show "case recover w inst s of (Inr x, s') \<Rightarrow> steady False s'
        | (Inl e, s') \<Rightarrow> (if \<exists>n. e = IAMHTTPError n then steady False s' else durable s')"
      unfolding keeps_def recover_def final_def by simp
  qed
qed

text \<open>A caught failure leaves the memory as it was.\<close>

lemma keeps_get_or:
  fixes m :: "(pystr \<times> json) list"
  assumes h: "\<And>n. keeps (\<lambda>s. steady b s \<and> ps_memory s = m) (h n) Q" and q: "\<And>s. steady b s \<and> ps_memory s = m \<Longrightarrow> Q False s"
    and r: "\<And>n. r \<noteq> Inl (IAMHTTPError n)"
  shows "keeps (\<lambda>s. steady b s \<and> ps_memory s = m)
    (on_http_error (bindP (liftP r) (\<lambda>p. bindP (request w ''GET'' (f p) None management) (\<lambda>_. liftP (Inr False)))) h) Q"
  unfolding keeps_def
proof (intro allI impI)
  fix s assume s: "steady b s \<and> ps_memory s = m"
  show "case on_http_error (bindP (liftP r) (\<lambda>p. bindP (request w ''GET'' (f p) None management) (\<lambda>_. liftP (Inr False)))) h s of
      (Inr x, s') \<Rightarrow> Q x s' | (Inl e, s') \<Rightarrow> (if \<exists>n. e = IAMHTTPError n then steady False s' else durable s')"
  proof (cases r)
    case (Inl e)
    then show ?thesis using s r
      by (cases e) (auto simp: on_http_error_def bindP_def liftP_def dest: steady_durable)
  next
    case (Inr p)
    let ?s = "s\<lparr>ps_log := ps_log s @ [Sent ''GET'' (py management @ f p) None]\<rparr>"
    have s': "steady b ?s \<and> ps_memory ?s = m" using s by (auto intro: steady_quiet)
    obtain x where x: "request w ''GET'' (f p) None management s = (x, ?s)" by (simp add: request_def Let_def)
    show ?thesis
    proof (cases x)
      case (Inl e)
      then show ?thesis using s' h [unfolded keeps_def] steady_durable [of b ?s] Inr x
        by (cases e) (auto simp: on_http_error_def bindP_def liftP_def)
    next
      case (Inr d)
      then show ?thesis using s' q \<open>r = Inr p\<close> x by (simp add: on_http_error_def bindP_def liftP_def)
    qed
  qed
qed

lemma resource_identifier_no_http: "resource_identifier d k \<noteq> Inl (IAMHTTPError n)"
  by (auto simp: resource_identifier_def split: json.splits option.splits)

lemma keeps_requested_recovery: "keeps (steady b) (requested_recovery w inst) (\<lambda>_. steady False)"
  unfolding requested_recovery_def
proof (rule keeps_memory)
  fix m
  let ?P = "\<lambda>s. steady b s \<and> ps_memory s = m"
  let ?refused = "truthy (member_of m ''instance_id'') \<or> truthy (member_of m ''pending'') \<or> map_of m (py ''project_id'') = None"
  have get: "keeps ?P (request w ''GET'' path None management) (\<lambda>_. ?P)" for path
    by (rule keeps_quiet_request) simp
  show "keeps ?P (if ?refused
       then liftP (Inl (DevError not_recoverable))
       else bindP (on_http_error
                     (bindP (liftP (resource_identifier (JDict m) ''project_id'')) (\<lambda>p.
                      bindP (request w ''GET'' (projects_path @ py ''/'' @ p) None management) (\<lambda>_. liftP (Inr False))))
                     (\<lambda>status. if status \<noteq> 404 then liftP (Inl (IAMHTTPError status))
                               else bindP (recover w inst) (\<lambda>_. liftP (Inr True))))
              (\<lambda>recovered. if recovered then liftP (Inr ())
                 else liftP (Inl (DevError project_exists)))) (\<lambda>_. steady False)"
  proof (cases ?refused)
    case True
    then show ?thesis by simp (rule keeps_lift, auto intro: steady_False)
  next
    case False
    have j: "justified names m inst" if "list_all (\<lambda>v. v \<notin> set names) data_volumes" for names
      using that False by (simp add: justified_def)
    have "keeps ?P (if status \<noteq> 404 then liftP (Inl (IAMHTTPError status))
        else bindP (recover w inst) (\<lambda>_. liftP (Inr True))) (\<lambda>_. steady False)" for status
      using keeps_bind [OF keeps_recover [OF j] keeps_liftI] by (auto intro: keeps_lift steady_False)
    note http = keeps_get_or [OF this, OF _ resource_identifier_no_http]
    have last: "keeps (steady False) (if recovered then liftP (Inr ())
        else liftP (Inl (DevError project_exists))) (\<lambda>_. steady False)" for recovered
      using keeps_liftI by auto
    show ?thesis
      using False by (simp only: if_False) (rule keeps_bind [OF http last], auto intro: steady_False)
  qed
qed

lemma keeps_choose_instance: "keeps (steady b) (choose_instance w recover_identity inst) (\<lambda>_. steady False)"
  unfolding choose_instance_def Let_def
proof (rule keeps_memory)
  fix m
  let ?P = "\<lambda>s. steady b s \<and> ps_memory s = m"
  let ?other = "truthy (member_of m ''instance_id'') \<and> \<not> same_value (member_of m ''instance_id'') (JStr inst)"
  have "keeps ?P (recover w inst) (\<lambda>_. steady False)" if ?other
    by (rule keeps_recover) (use that in \<open>simp add: justified_def\<close>)
  moreover have "keeps ?P (requested_recovery w inst) (\<lambda>_. steady False)"
    by (rule keeps_weaken [OF keeps_requested_recovery [of b]]) auto
  moreover have "keeps ?P (liftP (Inr ())) (\<lambda>_. steady False)" by (rule keeps_lift) (auto intro: steady_False)
  ultimately show "keeps ?P (if ?other then recover w inst
      else if recover_identity then requested_recovery w inst else liftP (Inr ())) (\<lambda>_. steady False)"
    by simp
qed

text \<open>A member that no open key needs.\<close>

lemma steady_set:
  assumes "steady b s" "py key \<noteq> py ''pending''"
  shows "steady b (s\<lparr>ps_memory := set_member (py key) v (ps_memory s)\<rparr>)"
proof -
  have "knows (set_member (py key) v (ps_memory s)) k" if "knows (ps_memory s) k" for k
    using that assms(2) by (auto simp: knows_def set_member_lookup)
  moreover have "member_of (set_member (py key) v (ps_memory s)) ''pending'' = member_of (ps_memory s) ''pending''"
    using assms(2) by (auto simp: member_of_def set_member_lookup)
  ultimately show ?thesis using assms(1) by (auto simp: steady_def on_record_def set_member_lookup)
qed

lemma keeps_remember_set: "py key \<noteq> py ''pending'' \<Longrightarrow> keeps (steady b) (remember (set_member (py key) v)) (\<lambda>_. steady b)"
  by (rule keeps_remember) (rule steady_set)

lemma keeps_adopt_project: "keeps (steady b) (adopt_project vals) (\<lambda>_. steady b)"
  unfolding adopt_project_def
proof (rule keeps_memory)
  fix m
  let ?P = "\<lambda>s. steady b s \<and> ps_memory s = m"
  have "keeps ?P (bindP (liftP r) (\<lambda>p. remember (set_member (py ''project_id'') (JStr p)))) (\<lambda>_. steady b)" for r
    by (rule keeps_bind [OF keeps_lift_any keeps_remember_set]) simp
  then show "keeps ?P (case vals (py ''DOCTA_DEV_OIDC_PROJECT_ID'') of
         Some v \<Rightarrow>
           if m = [] \<and> v \<noteq> []
           then bindP (liftP (resource_identifier (JDict [(py ''DOCTA_DEV_OIDC_PROJECT_ID'', JStr v)]) ''DOCTA_DEV_OIDC_PROJECT_ID''))
                  (\<lambda>p. remember (set_member (py ''project_id'') (JStr p)))
           else liftP (Inr ())
       | None \<Rightarrow> liftP (Inr ())) (\<lambda>_. steady b)"
    by (auto simp: keeps_lift_any split: option.split)
qed

lemma keeps_record_instance: "keeps (steady b) (record_instance w when_empty inst) (\<lambda>_. steady b)"
  unfolding record_instance_def
proof (rule keeps_memory)
  fix m
  let ?P = "\<lambda>s. steady b s \<and> ps_memory s = m"
  have "keeps ?P (bindP (remember (set_member (py ''instance_id'') (JStr inst))) (\<lambda>_. save w)) (\<lambda>_. steady b)"
    by (rule keeps_weaken [OF keeps_bind [OF keeps_remember_set keeps_save]]) auto
  then show "keeps ?P (if (if when_empty then m = [] else map_of m (py ''instance_id'') = None)
      then bindP (remember (set_member (py ''instance_id'') (JStr inst))) (\<lambda>_. save w) else liftP (Inr ())) (\<lambda>_. steady b)"
    by (simp add: keeps_lift_any)
qed

text \<open>Reading and changing the configuration of the application.\<close>

lemma keeps_if_lift: "(\<not> c \<Longrightarrow> keeps (steady b) m (\<lambda>_. steady b)) \<Longrightarrow> keeps (steady b) (if c then liftP r else m) (\<lambda>_. steady b)"
  by (simp add: keeps_liftI)

lemma keeps_check_project: "keeps (steady b) (check_project w vals known_instance project_id) (\<lambda>_. steady b)"
proof -
  have "keeps (steady b) (on_http_error (request w ''GET'' path None management)
      (\<lambda>status. if status \<noteq> 404 then liftP (Inl (IAMHTTPError status)) else liftP (Inl (no_project known_instance)))) (\<lambda>_. steady b)" for path
    by (rule keeps_http [OF keeps_get]) (auto intro: keeps_lift)
  note first = keeps_bind [OF this]
  show ?thesis
    unfolding check_project_def
    by (rule first, (rule keeps_bind [OF keeps_liftI])+) (auto intro: keeps_liftI)
qed

lemma keeps_confirm_config: "keeps (steady b) (confirm_config w app_path config actual) (\<lambda>_. steady b)"
  unfolding confirm_config_def
  by (rule keeps_if_lift, rule keeps_bind [OF keeps_put], rule keeps_bind [OF keeps_get], (rule keeps_bind [OF keeps_liftI])+)
    (auto intro: keeps_liftI)

lemma keeps_check_app: "keeps (steady b) (check_app w vals app_path config) (\<lambda>_. steady b)"
  unfolding check_app_def
  by (rule keeps_bind [OF keeps_get], (rule keeps_bind [OF keeps_liftI])+)
    (auto intro!: keeps_if_lift keeps_liftI keeps_bind [OF keeps_liftI] keeps_bind [OF keeps_confirm_config])

lemma created_paths:
  "created_key (Sent ''POST'' (py management @ projects_path) body) = Some ''project_id''"
  "created_key (Sent ''POST'' (py management @ ((projects_path @ py ''/'' @ p @ py ''/apps'') @ py ''/oidc'')) body) = Some ''app_id''"
proof -
  have "suffix (py ''/apps/oidc'') (py management @ ((projects_path @ py ''/'' @ p @ py ''/apps'') @ py ''/oidc''))"
    by (intro suffixI [of _ "py management @ projects_path @ py ''/'' @ p"]) (simp add: py_def)
  moreover have "py management @ ((projects_path @ py ''/'' @ p @ py ''/apps'') @ py ''/oidc'') \<noteq> py ''/management/v1/projects''"
  proof
    assume "py management @ ((projects_path @ py ''/'' @ p @ py ''/apps'') @ py ''/oidc'') = py ''/management/v1/projects''"
    then have "last (py management @ ((projects_path @ py ''/'' @ p @ py ''/apps'') @ py ''/oidc'')) = last (py ''/management/v1/projects'')"
      by (rule arg_cong)
    then show False by (simp add: py_def)
  qed
  ultimately show "created_key (Sent ''POST'' (py management @ ((projects_path @ py ''/'' @ p @ py ''/apps'') @ py ''/oidc'')) body) = Some ''app_id''"
    by simp
qed (simp add: management_def projects_path_def py_def)

lemma keeps_provision: "keeps (steady False) (provision w vals recover_identity) (\<lambda>_. steady True)"
proof -
  have choose: "keeps (\<lambda>s. steady False s \<and> ps_memory s = m) (choose_instance w recover_identity inst) (\<lambda>_. steady False)" for m inst
    by (rule keeps_weaken [OF keeps_choose_instance]) auto
  have project: "keeps (steady False) (ensure w projects_path name ''project_id'' projects_path [] ''id'') (\<lambda>_. steady True)" for name
    by (rule keeps_ensure) (auto simp: created_paths simp del: created_key.simps)
  have app: "keeps (steady True) (ensure w path name ''app_id'' ((projects_path @ py ''/'' @ p @ py ''/apps'') @ py ''/oidc'') body key) (\<lambda>_. steady True)"
    for path name p body key
    by (rule keeps_ensure) (auto simp: created_paths simp del: append_assoc created_key.simps)
  show ?thesis
    unfolding provision_def Let_def
    by (rule keeps_bind [OF keeps_get], rule keeps_bind [OF keeps_liftI], rule keeps_bind [OF keeps_liftI],
        rule keeps_bind [OF keeps_adopt_project], rule keeps_memory, rule keeps_bind [OF choose],
        rule keeps_bind [OF keeps_record_instance], rule keeps_bind [OF keeps_liftI], rule keeps_bind [OF project],
        rule keeps_bind [OF keeps_check_project], rule keeps_bind [OF keeps_record_instance],
        (rule keeps_bind [OF keeps_liftI])+, rule keeps_bind [OF app], rule keeps_bind [OF keeps_check_app], rule keeps_liftI)
qed

lemma still_bind:
  assumes "\<And>x s. snd (f x s) = s"
  shows "snd (bindP m f s) = snd (m s)"
  using assms by (cases "m s"; cases "fst (m s)") (auto simp: bindP_def)

lemma still_lift [simp]: "snd (liftP r s) = s"
  by (simp add: liftP_def)

lemma provision_other_state:
  "snd (provision_other w vals v s) = s\<lparr>ps_log := ps_log s @ [Sent ''GET'' (py ''/admin/v1/instances/me'') None]\<rparr>"
proof -
  have adopt: "snd ((case vals (py ''DOCTA_DEV_OIDC_PROJECT_ID'') of
              Some p \<Rightarrow>
                if \<not> truthy v \<and> p \<noteq> []
                then liftP (resource_identifier (JDict [(py ''DOCTA_DEV_OIDC_PROJECT_ID'', JStr p)]) ''DOCTA_DEV_OIDC_PROJECT_ID'')
                else liftP (Inr p)
            | None \<Rightarrow> liftP (Inr [])) s) = s" for s
    by (simp split: option.split)
  have "snd (provision_other w vals v s) = snd (request w ''GET'' (py ''/instances/me'') None ''/admin/v1'' s)"
    unfolding provision_other_def by (intro still_bind) (simp add: still_bind adopt)
  then show ?thesis by (simp add: request_def Let_def py_def)
qed

lemma steady_none: "open_keys (ps_log s) = {} \<Longrightarrow> \<not> awaiting (ps_log s) \<Longrightarrow> durable s \<Longrightarrow> steady False s"
  by (simp add: steady_def on_record_def)

lemma keeps_result: "keeps P m Q \<Longrightarrow> P s \<Longrightarrow> (\<And>x s. Q x s \<Longrightarrow> durable s) \<Longrightarrow> durable (snd (m s))"
  unfolding keeps_def by (cases "m s"; cases "fst (m s)") (fastforce dest: steady_durable split: if_splits)+

lemma durable_run:
  assumes "durable s"
  shows "durable (snd (provision_run w args s))"
proof -
  let ?s = "s\<lparr>ps_memory := [], ps_log := ps_log s @ [Started]\<rparr>"
  have started: "durable ?s" using durable_quiet [of "s\<lparr>ps_memory := []\<rparr>" Started] assms by simp
  have ok: "durable (snd (provision w (fst args) (snd args) s'))" if "steady False s'" for s'
    by (rule keeps_result [OF keeps_provision that]) (rule steady_durable)
  have other: "durable (snd (provision_other w (fst args) v ?s))" for v
    unfolding provision_other_state by (rule durable_quiet) (use started in \<open>simp_all add: py_def\<close>)
  show ?thesis
  proof (cases "ps_disk s")
    case No_file
    then have "steady False ?s"
      using started by (intro steady_none) (simp_all add: durable_def log_snoc open_step_def awaiting_step_def)
    then show ?thesis using No_file ok by (simp add: provision_run_def Let_def)
  next
    case Unreadable
    then show ?thesis using started by (simp add: provision_run_def Let_def)
  next
    case (Saved v)
    show ?thesis
    proof (cases "\<exists>kvs. v = JDict kvs")
      case True
      then obtain kvs where v: "v = JDict kvs" by blast
      have "steady False (?s\<lparr>ps_memory := kvs\<rparr>)"
        using started Saved v by (simp add: steady_def durable_def)
      then show ?thesis using Saved v ok by (simp add: provision_run_def Let_def)
    next
      case False
      then show ?thesis using Saved other by (cases v) (simp_all add: provision_run_def Let_def)
    qed
  qed
qed

interpretation provisioning: step_invariant "\<lambda>args s. snd (provision_run w args s)" durable
  by unfold_locales (rule durable_run)

section \<open>What a run that succeeds has seen\<close>

lemma bindP_Inr: "bindP m f s = (Inr y, s') \<longleftrightarrow> (\<exists>x s1. m s = (Inr x, s1) \<and> f x s1 = (Inr y, s'))"
  by (auto simp: bindP_def split: prod.splits sum.splits)

lemma liftP_Inr: "liftP r s = (Inr x, s') \<longleftrightarrow> r = Inr x \<and> s' = s"
  by (auto simp: liftP_def)

lemma remember_Inr: "remember f s = (r, s') \<longleftrightarrow> r = Inr () \<and> s' = s\<lparr>ps_memory := f (ps_memory s)\<rparr>"
  by (auto simp: remember_def)

lemma request_Inr:
  "request w verb path body api s = (Inr d, s') \<longleftrightarrow>
     s' = s\<lparr>ps_log := ps_log s @ [Sent verb (py api @ path) body]\<rparr> \<and>
     (\<exists>status kvs. pw_reply w (ps_log s @ [Sent verb (py api @ path) body]) = Answered status (Some (JDict kvs)) \<and>
        200 \<le> status \<and> status \<le> 299 \<and> d = JDict kvs)"
  by (auto simp: request_def Let_def split: iam_reply.splits option.splits json.splits if_splits)

lemma request_Inl: "request w verb path body api s = (Inl e, s') \<Longrightarrow> s' = s\<lparr>ps_log := ps_log s @ [Sent verb (py api @ path) body]\<rparr>"
  by (auto simp: request_def Let_def)

lemma write_Inr:
  "write_file w e done s = (Inr x, s') \<longleftrightarrow> pw_write w (ps_log s) = Written \<and> s' = done (s\<lparr>ps_log := ps_log s @ [e]\<rparr>)"
  by (auto simp: write_file_def Let_def split: write_reply.splits)

lemma save_Inr:
  "save w s = (Inr x, s') \<longleftrightarrow> pw_write w (ps_log s) = Written \<and> s' = to_disk (s\<lparr>ps_log := ps_log s @ [Wrote (ps_memory s)]\<rparr>)"
  by (simp add: save_def write_Inr)

lemmas run_simps = bindP_Inr liftP_Inr remember_Inr request_Inr write_Inr save_Inr with_memory_def

lemma http_Inr:
  "on_http_error m h s = (Inr x, s') \<longleftrightarrow>
     m s = (Inr x, s') \<or> (\<exists>n s1. m s = (Inl (IAMHTTPError n), s1) \<and> h n s1 = (Inr x, s'))"
  by (auto simp: on_http_error_def split: prod.splits sum.splits prov_exn.splits)

text \<open>The log only grows.\<close>

definition extends :: "'a prov \<Rightarrow> bool" where
  "extends m \<longleftrightarrow> (\<forall>s. prefix (ps_log s) (ps_log (snd (m s))))"

lemma extends_bind: "extends m \<Longrightarrow> (\<And>x. extends (f x)) \<Longrightarrow> extends (bindP m f)"
  unfolding extends_def bindP_def
  by (metis (mono_tags, lifting) case_prod_beta prefix_order.order_trans prod.collapse snd_conv sum.case_eq_if)

lemma extends_lift: "extends (liftP r)"
  by (simp add: extends_def liftP_def)

lemma extends_memory: "(\<And>m. extends (f m)) \<Longrightarrow> extends (with_memory f)"
  by (simp add: extends_def with_memory_def)

lemma extends_remember: "extends (remember f)"
  by (simp add: extends_def remember_def)

lemma extends_request: "extends (request w verb path body api)"
  by (simp add: extends_def request_def Let_def)

lemma extends_save: "extends (save w)"
  by (auto simp: extends_def save_def write_file_def Let_def to_disk_def split: write_reply.splits)

lemmas extends_rules = extends_bind extends_lift extends_memory extends_remember extends_request extends_save

lemma extends_settle: "extends (settle w k v)"
  unfolding settle_def by (intro extends_rules)

lemma extends_ensure: "extends (ensure w path name k create_path body result_key)"
  unfolding ensure_def find_row_def
  by (intro extends_rules) (auto intro!: extends_rules extends_settle split: option.splits)

lemma extends_record: "extends (record_instance w b inst)"
  unfolding record_instance_def by (auto intro!: extends_rules)

lemma extends_http: "extends m \<Longrightarrow> (\<And>n. extends (h n)) \<Longrightarrow> extends (on_http_error m h)"
  unfolding extends_def on_http_error_def
  by (auto split: prod.splits sum.splits prov_exn.splits) (metis prefix_order.order_trans snd_conv)+

lemma extends_archive: "extends (archive w name)"
  by (auto simp: extends_def archive_def write_file_def Let_def split: write_reply.splits)

lemma extends_recovered: "extends (write_file w e to_disk)"
  by (auto simp: extends_def write_file_def Let_def to_disk_def split: write_reply.splits)

lemma extends_recover: "extends (recover w inst)"
proof -
  have "extends (bindP (liftP (guard_identity_recovery names)) (\<lambda>names.
      bindP (if b then liftP (Inr ()) else archive w ''identity-before-recovery'') (\<lambda>_.
      bindP (archive w ''env-before-identity-recovery'') (\<lambda>_.
      with_memory (\<lambda>old. bindP (remember (\<lambda>_. [(py ''instance_id'', JStr inst)])) (\<lambda>_.
        write_file w (Recovered names old inst) to_disk))))))" for names b
    by (auto intro!: extends_rules extends_archive extends_recovered)
  then show ?thesis by (simp add: extends_def recover_def)
qed

lemma extends_choose: "extends (choose_instance w rec inst)"
  unfolding choose_instance_def requested_recovery_def Let_def
  by (auto intro!: extends_rules extends_http extends_recover)

lemma extends_adopt: "extends (adopt_project vals)"
  unfolding adopt_project_def by (auto intro!: extends_rules split: option.split)

lemma extendsD: "extends m \<Longrightarrow> m s = (r, s') \<Longrightarrow> prefix (ps_log s) (ps_log s')"
  unfolding extends_def by (metis snd_conv)

text \<open>The disk has what the memory has, as soon as the instance is recorded.\<close>

definition synced :: "prov_state \<Rightarrow> bool" where
  "synced s \<longleftrightarrow> ps_disk s = Saved (JDict (ps_memory s)) \<or> map_of (ps_memory s) (py ''instance_id'') = None"

lemma saved_memory: "ps_disk (to_disk s) = Saved (JDict (ps_memory (to_disk s)))" "ps_memory (to_disk s) = ps_memory s"
  by (simp_all add: to_disk_def)

lemma recovered_memory: "recover w inst s = (Inr x, s') \<Longrightarrow> ps_disk s' = Saved (JDict (ps_memory s'))"
  unfolding recover_def by (auto simp: run_simps saved_memory)

lemma chosen_synced: "choose_instance w rec inst s = (Inr x, s') \<Longrightarrow> synced s \<Longrightarrow> synced s'"
  unfolding choose_instance_def requested_recovery_def
  by (auto simp: run_simps http_Inr Let_def synced_def dest: recovered_memory split: if_splits)

lemma adopted_synced: "adopt_project vals s = (Inr x, s') \<Longrightarrow> synced s \<Longrightarrow> synced s'"
  unfolding adopt_project_def
  by (auto simp: run_simps synced_def set_member_lookup split: option.splits if_splits)

lemma recorded_run:
  assumes "record_instance w b inst s = (Inr x, s')" "synced s"
  shows "synced s'" "k \<noteq> py ''instance_id'' \<Longrightarrow> map_of (ps_memory s') k = map_of (ps_memory s) k"
    "\<not> b \<Longrightarrow> ps_disk s' = Saved (JDict (ps_memory s')) \<and> map_of (ps_memory s') (py ''instance_id'') \<noteq> None"
  using assms unfolding record_instance_def
  by (auto simp: run_simps synced_def saved_memory set_member_lookup split: if_splits)

lemma identified: "resource_identifier (JDict m) k = Inr v \<Longrightarrow> map_of m (py k) = Some (JStr v)"
  by (auto simp: resource_identifier_def split: option.splits json.splits if_splits)

lemma settled_key:
  assumes "settle w k v s = (Inr x, s')" "k = ''project_id'' \<or> k = ''app_id''"
  shows "x = v" "ps_disk s' = Saved (JDict (ps_memory s'))" "map_of (ps_memory s') (py k) = Some (JStr v)"
    "k' \<noteq> py ''pending'' \<Longrightarrow> k' \<noteq> py k \<Longrightarrow> map_of (ps_memory s') k' = map_of (ps_memory s) k'"
  using assms unfolding settle_def
  by (auto simp: run_simps saved_memory del_member_lookup set_member_lookup)

lemma found_memory: "find_row w path name s = (Inr x, s') \<Longrightarrow> ps_memory s' = ps_memory s \<and> ps_disk s' = ps_disk s"
  unfolding find_row_def by (auto simp: run_simps)

lemma ensured:
  assumes e: "ensure w path name k create_path body result_key s = (Inr v, s')" and k: "k = ''project_id'' \<or> k = ''app_id''"
  shows "map_of (ps_memory s') (py k) = Some (JStr v)"
    "k' \<noteq> py ''pending'' \<Longrightarrow> k' \<noteq> py k \<Longrightarrow> map_of (ps_memory s') k' = map_of (ps_memory s) k'"
    "ps_disk s' = Saved (JDict (ps_memory s')) \<or> s' = s"
proof -
  have "map_of (ps_memory s') (py k) = Some (JStr v) \<and>
      (k' \<noteq> py ''pending'' \<longrightarrow> k' \<noteq> py k \<longrightarrow> map_of (ps_memory s') k' = map_of (ps_memory s) k') \<and>
      (ps_disk s' = Saved (JDict (ps_memory s')) \<or> s' = s)" for k'
  proof (cases "map_of (ps_memory s) (py k) = None")
    case False
    then show ?thesis using e identified by (auto simp: ensure_def run_simps)
  next
    case True
    then obtain found s1 where f: "find_row w path name s = (Inr found, s1)" and
      rest: "(case found of
         Some row \<Rightarrow> bindP (liftP (resource_identifier row ''id'')) (settle w k)
       | None \<Rightarrow>
           if truthy (member_of (ps_memory s) ''pending'')
           then liftP (Inl (DevError unknown_outcome))
           else bindP (remember (set_member (py ''pending'') (JStr (py k)))) (\<lambda>_.
                bindP (save w) (\<lambda>_.
                bindP (request w ''POST'' create_path (Some (JDict (merged [(py ''name'', JStr name)] body))) management) (\<lambda>created.
                bindP (liftP (resource_identifier created result_key)) (settle w k))))) s1 = (Inr v, s')"
      using e by (auto simp: ensure_def with_memory_def bindP_Inr)
    obtain s2 v' where two: "settle w k v' s2 = (Inr v, s')"
      "\<And>k'. k' \<noteq> py ''pending'' \<Longrightarrow> map_of (ps_memory s2) k' = map_of (ps_memory s1) k'"
    proof (cases found)
      case (Some row)
      then show ?thesis using rest that by (auto simp: run_simps)
    next
      case None
      have "\<exists>s3 v'. settle w k v' s3 = (Inr v, s') \<and> ps_memory s3 = set_member (py ''pending'') (JStr (py k)) (ps_memory s1)"
        using rest None by (auto simp: run_simps to_disk_def split: if_splits intro!: exI)
      then obtain s3 v' where "settle w k v' s3 = (Inr v, s')" "ps_memory s3 = set_member (py ''pending'') (JStr (py k)) (ps_memory s1)"
        by blast
      then show ?thesis using that by (simp add: set_member_lookup)
    qed
    then show ?thesis using settled_key [OF two(1) k] found_memory [OF f] by simp
  qed
  then show "map_of (ps_memory s') (py k) = Some (JStr v)"
    "k' \<noteq> py ''pending'' \<Longrightarrow> k' \<noteq> py k \<Longrightarrow> map_of (ps_memory s') k' = map_of (ps_memory s) k'"
    "ps_disk s' = Saved (JDict (ps_memory s')) \<or> s' = s" by blast+
qed

text \<open>What the server answered to a \<open>GET\<close> of this part of the log.\<close>

definition seen_answer :: "prov_world \<Rightarrow> prov_event list \<Rightarrow> prov_event list \<Rightarrow> pystr \<Rightarrow> json \<Rightarrow> bool" where
  "seen_answer w h0 h path document \<longleftrightarrow>
     (\<exists>pre status. prefix h0 pre \<and> prefix (pre @ [Sent ''GET'' path None]) h \<and>
        pw_reply w (pre @ [Sent ''GET'' path None]) = Answered status (Some document) \<and> 200 \<le> status \<and> status \<le> 299)"

lemma seen_answer_mono: "seen_answer w h0 h path d \<Longrightarrow> prefix h h' \<Longrightarrow> seen_answer w h0 h' path d"
  unfolding seen_answer_def by (meson prefix_order.order_trans)

lemma seen_answer_since: "seen_answer w h0 h path d \<Longrightarrow> prefix h1 h0 \<Longrightarrow> seen_answer w h1 h path d"
  unfolding seen_answer_def by (meson prefix_order.order_trans)

lemma request_answered:
  "request w ''GET'' path None api s = (Inr d, s') \<Longrightarrow>
     seen_answer w (ps_log s) (ps_log s') (py api @ path) d \<and> ps_memory s' = ps_memory s \<and> ps_disk s' = ps_disk s"
  by (auto simp: request_Inr seen_answer_def)

definition project_confirmed :: "(pystr \<rightharpoonup> pystr) \<Rightarrow> json \<Rightarrow> bool" where
  "project_confirmed vals document \<longleftrightarrow>
     (\<exists>name kvs. vals (py ''DOCTA_DEV_PROJECT_NAME'') = Some name \<and> get_default document ''project'' (JDict []) = Inr (JDict kvs) \<and>
        map_of kvs (py ''name'') = Some (JStr name) \<and> map_of kvs (py ''state'') = Some (JStr (py ''PROJECT_STATE_ACTIVE'')))"

definition app_confirmed :: "(pystr \<times> json) list \<Rightarrow> pystr \<Rightarrow> json \<Rightarrow> bool" where
  "app_confirmed config client_id document \<longleftrightarrow>
     (\<exists>app oidc actual. get_default document ''app'' (JDict []) = Inr app \<and> get_default app ''oidcConfig'' (JDict []) = Inr oidc \<and>
        with_app_type oidc = Inr actual \<and> configured config actual \<and> map_of actual (py ''clientId'') = Some (JStr client_id))"

lemma got_default: "get_default document key v0 = Inr v \<Longrightarrow> \<exists>kvs. document = JDict kvs \<and> v = (case map_of kvs (py key) of None \<Rightarrow> v0 | Some x \<Rightarrow> x)"
  by (auto simp: get_default_def split: json.splits)

lemma checked_project:
  assumes "check_project w vals known project_id s = (Inr x, s')"
  shows "ps_memory s' = ps_memory s \<and> ps_disk s' = ps_disk s \<and>
    (\<exists>d. seen_answer w (ps_log s) (ps_log s') (py management @ projects_path @ py ''/'' @ project_id) d \<and> project_confirmed vals d)"
proof -
  have q: "prefix (ps_log s) (ps_log s)" by simp
  obtain d s1 project name expected state where
    r: "request w ''GET'' (projects_path @ py ''/'' @ project_id) None management s = (Inr d, s1)" and
    v: "get_default d ''project'' (JDict []) = Inr project" "get_default project ''name'' JNull = Inr name"
    "required_value vals ''DOCTA_DEV_PROJECT_NAME'' = Inr expected" "get_default project ''state'' JNull = Inr state"
    "name = JStr expected" "state = JStr (py ''PROJECT_STATE_ACTIVE'')" and s': "s' = s1"
    using assms by (auto simp: check_project_def bindP_Inr liftP_Inr http_Inr split: if_splits)
  have "project_confirmed vals d"
    using v by (auto simp: project_confirmed_def required_value_def dest!: got_default split: option.splits)
  then show ?thesis using request_answered [OF r] s' by auto
qed

lemma confirmed_config:
  assumes "confirm_config w path config actual s = (Inr final, s')"
  shows "configured config final \<and> ps_memory s' = ps_memory s \<and> ps_disk s' = ps_disk s \<and> prefix (ps_log s) (ps_log s') \<and>
    (final = actual \<or> (\<exists>d app oidc. seen_answer w (ps_log s) (ps_log s') (py management @ path) d \<and>
       get_default d ''app'' (JDict []) = Inr app \<and> get_default app ''oidcConfig'' (JDict []) = Inr oidc \<and> with_app_type oidc = Inr final))"
proof (cases "configured config actual")
  case True
  then show ?thesis using assms by (simp add: confirm_config_def liftP_Inr)
next
  case False
  then obtain d0 s1 d s2 app oidc where
    a: "request w ''PUT'' (path @ py ''/oidc_config'') (Some (JDict config)) management s = (Inr d0, s1)"
    "request w ''GET'' path None management s1 = (Inr d, s2)" and
    v: "get_default d ''app'' (JDict []) = Inr app" "get_default app ''oidcConfig'' (JDict []) = Inr oidc" "with_app_type oidc = Inr final"
    "configured config final" "s' = s2"
    using assms by (auto simp: confirm_config_def bindP_Inr liftP_Inr split: if_splits)
  have one: "ps_memory s1 = ps_memory s" "ps_disk s1 = ps_disk s" "prefix (ps_log s) (ps_log s1)" using a(1) by (auto simp: request_Inr)
  have two: "prefix (ps_log s1) (ps_log s2)" by (rule extendsD [OF extends_request a(2)])
  have "seen_answer w (ps_log s) (ps_log s2) (py management @ path) d"
    using request_answered [OF a(2)] one(3) seen_answer_since by blast
  moreover have "prefix (ps_log s) (ps_log s2)" by (rule prefix_order.order_trans [OF one(3) two])
  ultimately show ?thesis using v one(1,2) request_answered [OF a(2)] by auto
qed

lemma checked_app:
  assumes "check_app w vals path config s = (Inr client_id, s')"
  shows "ps_memory s' = ps_memory s \<and> ps_disk s' = ps_disk s \<and>
    (\<exists>d. seen_answer w (ps_log s) (ps_log s') (py management @ path) d \<and> app_confirmed config client_id d)"
proof -
  obtain d s1 app oidc actual final where
    r: "request w ''GET'' path None management s = (Inr d, s1)" and
    v: "get_default d ''app'' (JDict []) = Inr app" "get_default app ''oidcConfig'' (JDict []) = Inr oidc" "with_app_type oidc = Inr actual" and
    c: "confirm_config w path config actual s1 = (Inr final, s')" and i: "resource_identifier (JDict final) ''clientId'' = Inr client_id"
    using assms by (auto simp: check_app_def bindP_Inr liftP_Inr split: if_splits)
  note conf = confirmed_config [OF c]
  have seen: "seen_answer w (ps_log s) (ps_log s1) (py management @ path) d" "ps_memory s1 = ps_memory s" "ps_disk s1 = ps_disk s"
    using request_answered [OF r] by simp_all
  have p: "prefix (ps_log s) (ps_log s1)" by (rule extendsD [OF extends_request r])
  have "\<exists>d. seen_answer w (ps_log s) (ps_log s') (py management @ path) d \<and> app_confirmed config client_id d"
  proof (cases "final = actual")
    case True
    then have "app_confirmed config client_id d" using v conf identified [OF i] by (auto simp: app_confirmed_def)
    then show ?thesis using seen(1) conf seen_answer_mono by blast
  next
    case False
    then obtain d' app' oidc' where "seen_answer w (ps_log s1) (ps_log s') (py management @ path) d'"
      "get_default d' ''app'' (JDict []) = Inr app'" "get_default app' ''oidcConfig'' (JDict []) = Inr oidc'" "with_app_type oidc' = Inr final"
      using conf by blast
    moreover from this(1) have "seen_answer w (ps_log s) (ps_log s') (py management @ path) d'" by (rule seen_answer_since [OF _ p])
    moreover have "configured config final" using conf by simp
    ultimately have "seen_answer w (ps_log s) (ps_log s') (py management @ path) d' \<and> app_confirmed config client_id d'"
      using identified [OF i] by (simp add: app_confirmed_def)
    then show ?thesis by blast
  qed
  then show ?thesis using seen conf by simp
qed

lemma provision_success:
  assumes "provision w vals rec s = (Inr r, s')" "synced s"
  shows "\<exists>p a c m origin redirect project app.
    r = registered p c \<and> ps_disk s' = Saved (JDict m) \<and> map_of m (py ''instance_id'') \<noteq> None \<and>
    map_of m (py ''project_id'') = Some (JStr p) \<and> map_of m (py ''app_id'') = Some (JStr a) \<and>
    vals (py ''DOCTA_WEB_ORIGIN'') = Some origin \<and> vals (py ''DOCTA_DEV_OIDC_REDIRECT_URI'') = Some redirect \<and>
    seen_answer w (ps_log s) (ps_log s') (py management @ projects_path @ py ''/'' @ p) project \<and> project_confirmed vals project \<and>
    seen_answer w (ps_log s) (ps_log s') (py management @ (projects_path @ py ''/'' @ p @ py ''/apps'') @ py ''/'' @ a) app \<and>
    app_confirmed (oidc_config origin redirect) c app"
proof -
  obtain d s1 inst s2 s3 s4 name p s5 known s6 s7 origin redirect app_name a s8 c where
    r: "request w ''GET'' (py ''/instances/me'') None ''/admin/v1'' s = (Inr d, s1)" and
    adopt: "adopt_project vals s1 = (Inr (), s2)" and
    choose: "choose_instance w rec inst s2 = (Inr (), s3)" and
    rec1: "record_instance w True inst s3 = (Inr (), s4)" and
    proj: "ensure w projects_path name ''project_id'' projects_path [] ''id'' s4 = (Inr p, s5)" and
    checkp: "check_project w vals known p s5 = (Inr (), s6)" and
    rec2: "record_instance w False inst s6 = (Inr (), s7)" and
    vals: "vals (py ''DOCTA_WEB_ORIGIN'') = Some origin" "vals (py ''DOCTA_DEV_OIDC_REDIRECT_URI'') = Some redirect" and
    app: "ensure w (projects_path @ py ''/'' @ p @ py ''/apps'') app_name ''app_id'' ((projects_path @ py ''/'' @ p @ py ''/apps'') @ py ''/oidc'')
        (merged (oidc_config origin redirect) [(py ''version'', JStr (py ''OIDC_VERSION_1_0''))]) ''appId'' s7 = (Inr a, s8)" and
    checka: "check_app w vals ((projects_path @ py ''/'' @ p @ py ''/apps'') @ py ''/'' @ a) (oidc_config origin redirect) s8 = (Inr c, s')" and
    r': "r = registered p c"
    using assms(1) unfolding provision_def Let_def
    by (auto simp: bindP_Inr liftP_Inr with_memory_def required_value_def simp del: append_assoc split: option.splits)
  have "synced s1" using assms(2) request_answered [OF r] by (simp add: synced_def)
  then have "synced s4" by (intro recorded_run(1) [OF rec1] chosen_synced [OF choose] adopted_synced [OF adopt])
  moreover have keeps_instance: "map_of (ps_memory s5) (py ''instance_id'') = map_of (ps_memory s4) (py ''instance_id'')"
    by (rule ensured(2) [OF proj]) simp_all
  ultimately have "synced s5" using ensured(3) [OF proj] by (auto simp: synced_def)
  then have "synced s6" using checked_project [OF checkp] by (simp add: synced_def)
  then have s7: "ps_disk s7 = Saved (JDict (ps_memory s7))" "map_of (ps_memory s7) (py ''instance_id'') \<noteq> None"
    "map_of (ps_memory s7) (py ''project_id'') = map_of (ps_memory s6) (py ''project_id'')"
    using recorded_run(3) [OF rec2] recorded_run(2) [OF rec2, of "py ''project_id''"] \<open>synced s6\<close> by simp_all
  have p: "map_of (ps_memory s7) (py ''project_id'') = Some (JStr p)"
    using s7(3) checked_project [OF checkp] ensured(1) [OF proj] by simp
  have s8: "ps_disk s8 = Saved (JDict (ps_memory s8))" "map_of (ps_memory s8) (py ''app_id'') = Some (JStr a)"
    "map_of (ps_memory s8) (py ''project_id'') = Some (JStr p)" "map_of (ps_memory s8) (py ''instance_id'') \<noteq> None"
    using ensured [OF app] s7(1,2) p by auto
  have l1: "prefix (ps_log s) (ps_log s5)"
    using extendsD [OF extends_request r] extendsD [OF extends_adopt adopt] extendsD [OF extends_choose choose]
      extendsD [OF extends_record rec1] extendsD [OF extends_ensure proj] by (meson prefix_order.order_trans)
  have l2: "prefix (ps_log s6) (ps_log s8)"
    using extendsD [OF extends_record rec2] extendsD [OF extends_ensure app] by (rule prefix_order.order_trans)
  obtain project where project: "seen_answer w (ps_log s5) (ps_log s6) (py management @ projects_path @ py ''/'' @ p) project"
    "project_confirmed vals project"
    using checked_project [OF checkp] by blast
  obtain final where final: "seen_answer w (ps_log s8) (ps_log s') (py management @ (projects_path @ py ''/'' @ p @ py ''/apps'') @ py ''/'' @ a) final"
    "app_confirmed (oidc_config origin redirect) c final" "ps_disk s' = ps_disk s8" "ps_memory s' = ps_memory s8"
    using checked_app [OF checka] by auto
  have l3: "prefix (ps_log s5) (ps_log s6)" "prefix (ps_log s8) (ps_log s')"
    using project(1) final(1) unfolding seen_answer_def by (meson append_prefixD prefix_order.order_trans)+
  have "seen_answer w (ps_log s) (ps_log s') (py management @ projects_path @ py ''/'' @ p) project"
    using seen_answer_mono [OF seen_answer_since [OF project(1) l1]] l2 l3(2) prefix_order.order_trans by blast
  moreover have "seen_answer w (ps_log s) (ps_log s') (py management @ (projects_path @ py ''/'' @ p @ py ''/apps'') @ py ''/'' @ a) final"
    by (rule seen_answer_since [OF final(1)]) (meson l1 l2 l3(1) prefix_order.order_trans)
  ultimately show ?thesis using project(2) final(2-4) s8 vals r' by (metis (no_types, lifting))
qed

lemma other_fails: "provision_other w vals v s \<noteq> (Inr r, s')"
  unfolding provision_other_def by (auto simp: bindP_Inr liftP_Inr)

lemma run_success:
  assumes "provision_run w args s = (Inr r, s')"
  shows "\<exists>s0. provision w (fst args) (snd args) s0 = (Inr r, s') \<and> synced s0 \<and> ps_log s0 = ps_log s @ [Started]"
proof (cases "ps_disk s")
  case No_file
  then show ?thesis using assms by (auto simp: provision_run_def synced_def Let_def)
next
  case Unreadable
  then show ?thesis using assms by (simp add: provision_run_def Let_def)
next
  case (Saved v)
  then show ?thesis using assms other_fails by (cases v) (auto simp: provision_run_def synced_def Let_def)
qed

section \<open>Correctness\<close>

text \<open>C38: No resource is created twice. In whatever way runs of the provisioner follow each other, whatever the
  server answers and wherever a process dies or a file cannot be written, a creation is sent directly after
  its key was saved as pending; before the next creation the outcome of the last one was recorded; and
  between two creations of the same resource the state was given up for another instance of the server, or
  for one whose project was gone and which had no creation under way, with no volume of data left.\<close>

theorem created_once:
  assumes "ps_log s = []" "hist = ps_log (provision_runs w argss s)"
    "j < length hist" "created_key (hist ! j) = Some k"
  shows "(\<exists>m. 0 < j \<and> hist ! (j - 1) = Wrote m \<and> map_of m (py ''pending'') = Some (JStr (py k))) \<and>
    (\<forall>i < j. created_key (hist ! i) \<noteq> None \<longrightarrow> (\<exists>r. i < r \<and> r < j \<and> settling (hist ! r))) \<and>
    (\<forall>i < j. created_key (hist ! i) = Some k \<longrightarrow>
      (\<exists>r names old inst. i < r \<and> r < j \<and> hist ! r = Recovered names old inst \<and> justified names old inst))"
proof -
  have "durable s" using assms(1)
    by (simp add: durable_def orderly_def open_keys_def awaiting_def on_record_def split: saved.splits json.splits)
  then have "durable (provision_runs w argss s)" unfolding provision_runs_def by (rule provisioning.inv_run)
  then have ord: "allowed_after (take r hist) (hist ! r)" if "r < length hist" for r
    using that by (simp add: durable_def orderly_def assms(2))
  have now: "k \<notin> open_keys (take j hist)" "\<not> awaiting (take j hist)"
    "\<exists>m. take j hist \<noteq> [] \<and> last (take j hist) = Wrote m \<and> map_of m (py ''pending'') = Some (JStr (py k))"
    using ord [OF assms(3)] assms(4) by (auto simp: allowed_after_def)
  obtain m where m: "take j hist \<noteq> []" "last (take j hist) = Wrote m" "map_of m (py ''pending'') = Some (JStr (py k))"
    using now(3) by blast
  have "last (take j hist) = hist ! (j - 1)" "0 < j" using m(1) assms(3) by (auto simp: last_conv_nth)
  then have "\<exists>m. 0 < j \<and> hist ! (j - 1) = Wrote m \<and> map_of m (py ''pending'') = Some (JStr (py k))"
    using m(2,3) by (intro exI [of _ m]) simp
  moreover have "\<exists>r. i < r \<and> r < j \<and> settling (hist ! r)" if "i < j" "created_key (hist ! i) \<noteq> None" for i
    using now(2) that assms(3) unfolding awaiting_since by auto
  moreover have "\<exists>r names old inst. i < r \<and> r < j \<and> hist ! r = Recovered names old inst \<and> justified names old inst"
    if i: "i < j" "created_key (hist ! i) = Some k" for i
  proof -
    obtain r where r: "i < r" "r < j" "is_recovery (hist ! r)"
      using now(1) [unfolded open_since] i assms(3) by (auto dest!: spec [of _ i])
    then obtain names old inst where e: "hist ! r = Recovered names old inst" by (cases "hist ! r") auto
    have "justified names old inst" using ord [of r] r(2) assms(3) e by (simp add: allowed_after_def)
    then show ?thesis using r e by blast
  qed
  ultimately show ?thesis by blast
qed

text \<open>C39: What a run registers was confirmed. If the provisioner returns, it returns the values of one project and
  one client; the state file holds that project, an application and an instance; and in this run the server
  answered that the project is active under the name of this environment, and that the application has
  exactly the redirect addresses, grants and token type asked for, and this client.\<close>

theorem registration_confirmed:
  assumes "provision_run w args s = (Inr r, s')"
  shows "\<exists>p a c m origin redirect project app.
    r = registered p c \<and> ps_disk s' = Saved (JDict m) \<and> map_of m (py ''instance_id'') \<noteq> None \<and>
    map_of m (py ''project_id'') = Some (JStr p) \<and> map_of m (py ''app_id'') = Some (JStr a) \<and>
    fst args (py ''DOCTA_WEB_ORIGIN'') = Some origin \<and> fst args (py ''DOCTA_DEV_OIDC_REDIRECT_URI'') = Some redirect \<and>
    seen_answer w (ps_log s) (ps_log s') (py ''/management/v1/projects/'' @ p) project \<and> project_confirmed (fst args) project \<and>
    seen_answer w (ps_log s) (ps_log s') (py ''/management/v1/projects/'' @ p @ py ''/apps/'' @ a) app \<and>
    app_confirmed (oidc_config origin redirect) c app"
proof -
  obtain s0 where s0: "provision w (fst args) (snd args) s0 = (Inr r, s')" "synced s0" "ps_log s0 = ps_log s @ [Started]"
    using run_success [OF assms] by blast
  have paths: "py management @ projects_path @ py ''/'' @ p = py ''/management/v1/projects/'' @ p"
    "py management @ (projects_path @ py ''/'' @ p @ py ''/apps'') @ py ''/'' @ a = py ''/management/v1/projects/'' @ p @ py ''/apps/'' @ a" for p a
    by (simp_all add: management_def projects_path_def py_def)
  have "prefix (ps_log s) (ps_log s0)" using s0(3) by simp
  then have since: "seen_answer w (ps_log s0) h path d \<Longrightarrow> seen_answer w (ps_log s) h path d" for h path d by (rule seen_answer_since [rotated])
  show ?thesis
    using provision_success [OF s0(1,2)] since unfolding paths by (elim exE conjE) (intro exI conjI; assumption?; simp)
qed

text \<open>A server that answers one request after the other.\<close>

fun is_sent :: "prov_event \<Rightarrow> bool" where
  "is_sent (Sent verb path body) = True"
| "is_sent _ = False"

definition scripted :: "iam_reply list \<Rightarrow> prov_world" where
  "scripted replies =
     \<lparr>pw_reply = (\<lambda>h. case drop (length (filter is_sent h) - 1) replies of [] \<Rightarrow> Unanswered | r # _ \<Rightarrow> r),
      pw_write = (\<lambda>_. Written), pw_volumes = (\<lambda>_. None), pw_decimal = (\<lambda>_. None)\<rparr>"

definition object :: "(string \<times> json) list \<Rightarrow> json" where
  "object kvs = JDict (map (\<lambda>(k, v). (py k, v)) kvs)"

definition found :: "(string \<times> json) list \<Rightarrow> iam_reply" where
  "found kvs = Answered 200 (Some (object kvs))"

definition this_instance :: iam_reply where
  "this_instance = found [(''instance'', object [(''id'', JStr (py ''i1''))])]"

definition sample_environment :: "pystr \<rightharpoonup> pystr" where
  "sample_environment = map_of
     [(py ''DOCTA_DEV_PROJECT_NAME'', py ''D''), (py ''DOCTA_DEV_APP_NAME'', py ''A''), (py ''DOCTA_WEB_ORIGIN'', py ''w''),
      (py ''DOCTA_DEV_OIDC_REDIRECT_URI'', py ''r'')]"

definition fresh_state :: prov_state where
  "fresh_state = \<lparr>ps_memory = [], ps_disk = No_file, ps_log = []\<rparr>"

text \<open>Evaluation does not look into what comes after a step.\<close>

lemma lazy_steps:
  "s = s' \<Longrightarrow> bindP m f s = bindP m f s'" "s = s' \<Longrightarrow> with_memory g s = with_memory g s'"
  "s = s' \<Longrightarrow> on_http_error m h s = on_http_error m h s'"
  by simp_all

lemmas step_defs = bindP_def liftP_def with_memory_def remember_def on_http_error_def write_file_def to_disk_def save_def request_def
  find_row_def pick_row_def settle_def ensure_def recover_def adopt_project_def requested_recovery_def choose_instance_def
  record_instance_def check_project_def confirm_config_def check_app_def provision_def provision_run_def
  resource_identifier_def get_default_def required_value_def with_app_type_def configured_def member_of_def same_value_def
  named_def merged_def del_member_def identifier_text_def oidc_config_def registered_def search_body_def management_def projects_path_def

lemmas sample_defs = scripted_def object_def found_def this_instance_def sample_environment_def fresh_state_def py_def

text \<open>It has no project, and the process dies while it creates one.\<close>

definition silent_world :: prov_world where
  "silent_world = scripted [this_instance, found [], Killed_waiting]"

lemma one_run: "provision_runs w [args] s = snd (provision_run w args s)"
  by (simp add: provision_runs_def)

lemma silent_length: "length (ps_log (snd (provision_run silent_world (sample_environment, False) fresh_state))) = 6"
  by (simp add: silent_world_def step_defs sample_defs cong: lazy_steps let_weak_cong)

lemma silent_last: "created_key (last (ps_log (snd (provision_run silent_world (sample_environment, False) fresh_state)))) = Some ''project_id''"
  by (simp add: silent_world_def step_defs sample_defs cong: lazy_steps let_weak_cong)

theorem created_once_witness:
  "\<exists>m. ps_log (provision_runs silent_world [(sample_environment, False)] fresh_state) ! 4 = Wrote m \<and>
     map_of m (py ''pending'') = Some (JStr (py ''project_id''))"
proof -
  let ?hist = "ps_log (provision_runs silent_world [(sample_environment, False)] fresh_state)"
  have "ps_log fresh_state = []" by (simp add: fresh_state_def)
  moreover have "length ?hist = 6" unfolding one_run by (rule silent_length)
  moreover have "created_key (?hist ! 5) = Some ''project_id''"
    using silent_last last_conv_nth [of ?hist] silent_length unfolding one_run by fastforce
  ultimately show ?thesis
    using created_once [of fresh_state ?hist silent_world "[(sample_environment, False)]" 5 "''project_id''", OF _ refl] by simp
qed

text \<open>It has the project and the application.\<close>

definition ready_world :: prov_world where
  "ready_world = scripted
     [this_instance,
      found [(''result'', JList [object [(''id'', JStr (py ''p1'')), (''name'', JStr (py ''D''))]])],
      found [(''project'', object [(''name'', JStr (py ''D'')), (''state'', JStr (py ''PROJECT_STATE_ACTIVE''))])],
      found [(''result'', JList [object [(''id'', JStr (py ''a1'')), (''name'', JStr (py ''A''))]])],
      found [(''app'', object [(''name'', JStr (py ''A'')), (''state'', JStr (py ''APP_STATE_ACTIVE'')),
         (''oidcConfig'', JDict ((py ''clientId'', JStr (py ''c1'')) # oidc_config (py ''w'') (py ''r'')))])]]"

lemma ready_run: "fst (provision_run ready_world (sample_environment, False) fresh_state) = Inr (registered (py ''p1'') (py ''c1''))"
  by (simp add: ready_world_def step_defs sample_defs cong: lazy_steps let_weak_cong)

theorem registration_confirmed_witness:
  "\<exists>project. seen_answer ready_world [] (ps_log (snd (provision_run ready_world (sample_environment, False) fresh_state)))
     (py ''/management/v1/projects/p1'') project \<and> project_confirmed sample_environment project"
proof -
  let ?run = "provision_run ready_world (sample_environment, False) fresh_state"
  have "?run = (Inr (registered (py ''p1'') (py ''c1'')), snd ?run)" by (metis ready_run prod.collapse)
  from registration_confirmed [OF this] show ?thesis
    by (auto simp: registered_def fresh_state_def py_def)
qed

text \<open>A project that is \<open>null\<close> ends the command with an exception that it does not catch.\<close>

lemma null_project_escapes:
  "fst (provision_run
     (scripted [this_instance, found [(''result'', JList [object [(''id'', JStr (py ''p1'')), (''name'', JStr (py ''D''))]])],
        found [(''project'', JNull)]])
     (sample_environment, False) fresh_state) = Inl Wrong_type"
  by (simp add: step_defs sample_defs cong: lazy_steps let_weak_cong)

end
