(* ===== verification/Spec2Isabelle.thy ===== *)
theory Spec2Isabelle
  imports System Job_Queue Workspace Tutor_Http Pdf_Parser Document_Routes Dev_State Dev_Upload Migrations Dev_Provision
begin

text \<open>
  Docta is a tutor for courses: teachers upload documents, a worker turns each into a corpus of
  chunks, and students ask questions that a language model answers from the corpus of the
  course. This development models the Python code of the API and of the worker, under
  \<^verbatim>\<open>apps/api/src/docta_api/\<close>, and proves what teachers and students rely on. Definitions keep the
  names of the source; every definition is executable up to its parameters.

  \<^bold>\<open>Parts and theories.\<close> Each theory models one file or a slice of it and follows its order.

  \<^item> \<open>Prelude\<close>: errors as values, Python strings as lists of code points with the operations the
    sources use, tables as lists of rows, and the locales \<open>step_invariant\<close> and \<open>stable_steps\<close> that
    lift what one step keeps to every run.
  \<^item> \<open>Tutor_Contract\<close> (\<^verbatim>\<open>tutor_contract.py\<close>): the blocks of an intervention, their validators, derived
    text, mode, help level and actions.
  \<^item> \<open>Models\<close> (\<^verbatim>\<open>models.py\<close>, \<^verbatim>\<open>conversation_models.py\<close>, \<^verbatim>\<open>database.py\<close>): a record per row type, the
    database as one record of tables, a session that commits or rolls back, the exceptions.
  \<^item> \<open>Uuid\<close>: parsing and printing of UUIDs (128-bit words) as the job envelope uses them.
  \<^item> \<open>Jobs\<close> (\<^verbatim>\<open>jobs.py\<close>): the transactional outbox, envelopes, the relay's lease, confirmation, retries
    and reconciliation. \<open>Document_Parser\<close> (\<^verbatim>\<open>document_parser.py\<close>): chunking.
  \<^item> \<open>Ingestion\<close>, \<open>Processing\<close> (\<^verbatim>\<open>ingestion.py\<close>): claiming a job under a lease and a fencing token,
    processing it outside any transaction, committing success or failure. \<open>Job_Queue\<close>
    (\<^verbatim>\<open>redis_jobs.py\<close>, \<^verbatim>\<open>worker.py\<close>): deliveries and the tick that reconciles, relays and consumes.
  \<^item> \<open>Identity\<close> (\<^verbatim>\<open>identity.py\<close>), \<open>Courses\<close> (\<^verbatim>\<open>courses.py\<close>), \<open>Documents\<close> (\<^verbatim>\<open>documents.py\<close>), \<open>Workspace\<close>
    (\<^verbatim>\<open>workspace.py\<close>): who asks, and what a teacher may see and do.
  \<^item> \<open>Worker_Pool\<close> runs workers, relays and reconcilers as one state machine; \<open>System\<close> adds the
    transactions of the services.
  \<^item> \<open>Rag\<close> (\<^verbatim>\<open>rag.py\<close>): drafts and their validation against the evidence. \<open>Retrieval\<close>
    (\<^verbatim>\<open>retrieval_auth.py\<close>, \<^verbatim>\<open>postgres_retriever.py\<close>, \<^verbatim>\<open>dense_retriever.py\<close>, \<^verbatim>\<open>retriever_factory.py\<close>): both
    retrievers behind the locale \<open>retriever\<close>.
  \<^item> \<open>Conversations\<close> (\<^verbatim>\<open>conversations.py\<close>): the service; \<open>Turns\<close>, \<open>Conversation_Runs\<close>, \<open>Ledger\<close> and
    \<open>Conversation_Service\<close> its invariants, runs, abstract specification and promises;
    \<open>Retrieval_Service\<close> what retrieval promises it.
  \<^item> \<open>Conversation_Runtime\<close>, \<open>Runtime_Runs\<close>, \<open>Tutoring\<close> (\<^verbatim>\<open>conversation_runtime.py\<close>): one task per
    question, as a state machine and as what the student relies on. \<open>Conversation_Routes\<close>
    (\<^verbatim>\<open>conversation_routes.py\<close>): actions and the event stream of a question.
  \<^item> \<open>Json\<close>: JSON values and their printing, as the next theories use them. \<open>Object_Storage\<close>
    (\<^verbatim>\<open>object_storage.py\<close>, \<^verbatim>\<open>s3_object_storage.py\<close>): the port as a locale and both adapters.
    \<open>Embedding\<close>, \<open>Embedding_Http\<close> (\<^verbatim>\<open>embedding.py\<close>, \<^verbatim>\<open>embedding_http.py\<close>): versions, requests and the
    checks of responses. \<open>Pdf_Parser\<close> (\<^verbatim>\<open>pymupdf_parser.py\<close>): admission and normalisation of a PDF.
    \<open>Tutor_Http\<close> (\<^verbatim>\<open>tutor_http.py\<close>): the schema and request sent to the tutor model, the repair of its
    answer, its errors.
  \<^item> \<open>Document_Routes\<close> (the routes of \<^verbatim>\<open>documents.py\<close>, \<^verbatim>\<open>main.py\<close>, \<^verbatim>\<open>health.py\<close>): bodies, routes and exception
    handlers over the services, the storage and the identity provider.
  \<^item> \<open>Migrations\<close> (\<^verbatim>\<open>migrations/versions\<close>): the ten Alembic revisions as lists of statements, with the checks
    that PostgreSQL makes, and the data statements of 0006 and 0010 on the rows of \<open>Models\<close>.
  \<^item> \<open>Dev_State\<close> (\<^verbatim>\<open>scripts/dev_state.py\<close>): the import of a development profile as a list of file
    operations, each of which may fail or be the last of the process.
  \<^item> \<open>Dev_Provision\<close> (the \<open>Provisioner\<close> of \<^verbatim>\<open>scripts/dev.py\<close>): the registration with the identity server, as a
    program over its state file and a log of requests and writes, which may fail or be the last of a run.
  \<^item> \<open>Url_Text\<close>, \<open>Url_Split\<close>: query strings and URLs as \<^verbatim>\<open>urllib.parse\<close> has them. \<open>Dev_Token\<close>
    (\<^verbatim>\<open>dev_token.py\<close>): the authorization code flow with PKCE of a developer, with the requests that reach
    its listener. \<open>Dev_Upload\<close> (\<^verbatim>\<open>dev_pdf_upload.py\<close>): one upload as the list of requests it sends. Their
    loops have as many rounds as given; the theorems say how many are enough.
  \<^item> \<open>Config\<close> (\<^verbatim>\<open>config.py\<close>, \<^verbatim>\<open>main.py\<close>, \<^verbatim>\<open>worker.py\<close>): the settings, their validators, and what the
    application and the worker build from them.

  \<^bold>\<open>How state is modelled.\<close> A transaction is a function from the database to a result and the new
  database; \<open>session\<close> rolls back when the result is an error. Code that runs outside a transaction
  (object storage, parser, embedding provider, tutor model) is a parameter. Times are integers in
  microseconds; every reading of a clock is an argument. Concurrency is an interleaving of
  transactions: what others do between two transactions of one operation is an argument or a
  step of the state machine. Row locks are not modelled beyond the atomicity of a transaction.
  A task of the runtime is cut at its awaits: each step runs one segment, any segment can be
  abandoned by a timeout or a cancellation, and a transaction that was running in a thread may
  still take effect at any later moment.

  \<^bold>\<open>What the theorems show.\<close>

  \<^item> Ingestion: from the empty database, every interleaving publishes a document exactly once if its
    job succeeded and never otherwise, superseded claims write nothing, attempts are bounded, every
    failure leaves one dead letter, and deliveries leave the stream only when nothing is left to do
    (\<open>System\<close>, \<open>Worker_Pool\<close>, \<open>Processing\<close>, \<open>Job_Queue\<close>, \<open>Jobs\<close>).
  \<^item> Documents and courses: uploads and confirmations are idempotent, publication is a compare-and-swap,
    and who is not a member, or not a teacher, sees nothing (\<open>Documents\<close>, \<open>Courses\<close>, \<open>Workspace\<close>,
    \<open>Identity\<close>).
  \<^item> Chunking loses no text and its chunks are verbatim parts of their page (\<open>Document_Parser\<close>).
  \<^item> Answers: a validated draft is the abstention, a question without citations, or an answer whose
    citations are verbatim parts of authorized chunks; this holds for whatever is stored, under every
    interleaving, whatever the model answers (\<open>Rag\<close>, \<open>Retrieval_Service\<close>, \<open>Tutoring\<close>).
  \<^item> Conversations: one pending message per conversation, unique numbers and keys, ended messages never
    change, the tables refine a ledger of turns, and every question ends (\<open>Conversation_Service\<close>,
    \<open>Ledger\<close>, \<open>Tutoring\<close>); clients are sent each phase once and one terminal event
    (\<open>Conversation_Routes\<close>).
  \<^item> Adapters: the storage reads whole versions or refuses, and what is processed is what was confirmed
    (\<open>Object_Storage\<close>); embeddings do not depend on the order of an answer and no response is trusted
    (\<open>Embedding_Http\<close>); a normalised page keeps
    its visible text (\<open>Pdf_Parser\<close>); the schema has no refused keyword, the repair of an answer invents
    no reference, and an answer has passed the contract (\<open>Tutor_Http\<close>).
  \<^item> Settings: what validation accepts starts, and the worker and the retriever agree on the vectors
    (\<open>Config\<close>).
  \<^item> Routes: no request to the documents of a course ends in an internal error (\<open>Document_Routes\<close>).
  \<^item> Migrations: each revision can be undone exactly, and revision 0006 leaves every unfinished job of an
    inline worker with the one event that lets the relay take it up (\<open>Migrations\<close>).
  \<^item> Development token: what a printed token has passed, when the wait ends, and what the command does (\<open>Dev_Token\<close>). Development upload: the order of its
    requests and its outcome (\<open>Dev_Upload\<close>).
  \<^item> Development identity: however runs are interrupted, no resource is created twice, and what is registered
    was confirmed by the server (\<open>Dev_Provision\<close>).
  \<^item> Development profile: a partial import never looks like a configured profile (\<open>Dev_State\<close>).

  \<^bold>\<open>Bounds.\<close> No definition uses fuel: loops are structural or have a measure (the chunking window
  advances by at least one character, a batch of embeddings is not empty, reading lexemes consumes
  input). A task takes at most seven steps. The history of a request holds at most six turns and
  12000 characters, an envelope has exactly its known fields.

  \<^bold>\<open>Parameters.\<close> PostgreSQL's text search and vector distance, Redis, the object storage, PyMuPDF,
  PyJWT, SHA-256, the tutor model, the embedding provider, the Unicode tables from code point 128 on
  and the clock are arguments of the definitions that use them. Where a theorem relies on their
  documented behaviour, that is a named hypothesis and its witness supplies a concrete function.

  \<^bold>\<open>Not modelled.\<close> The wire: FastAPI routing and response models, log lines, the text of error
  messages, SSE framing. Calls of client libraries (the database engine and pool, boto3, httpx, redis),
  which are parameters, and the signals and pauses of the worker's main loop. The wording of the
  tutor's policy. Tools for developers that are not part of the running service: \<^verbatim>\<open>scripts/dev.py\<close>
  but for its \<open>Provisioner\<close>, and \<^verbatim>\<open>scripts/init_vm.py\<close>; of \<^verbatim>\<open>scripts/dev_state.py\<close> the file lock,
  permissions and \<open>fsync\<close>. Of migrations the text of a CHECK condition
  is not interpreted, and a column is only dropped when no constraint or index mentions it. The web
  application is another program.
\<close>

end
